(* ===== verification/Prelude.thy ===== *)
theory Prelude
  imports "HOL-Library.Word" "HOL-Library.Finite_Map" "HOL-Library.List_Lexorder"
    "HOL-Library.Char_ord" "HOL-Library.Product_Lexorder" "HOL-Library.Multiset"
begin

text \<open>
  Shared vocabulary of the development: the scalar types of the Go code, its error values,
  fixed-width big-endian integers, and the lemmas on lists, finite maps and words that the
  component theories use.

  A Go string or byte slice is a list of HOL characters (HOL's type \<open>char\<close> is exactly one
  8-bit byte), a \<open>uint64\<close> is a \<open>64 word\<close>, a Go map is a finite map \<open>fmap\<close>, and an
  \<open>int64\<close> is an \<open>int\<close> whose arithmetic wraps through \<open>wrap64\<close>.
\<close>

named_theorems frame_simps \<open>what an operation leaves unchanged\<close>
named_theorems conserve_simps \<open>how an operation moves money\<close>

type_synonym bytes = "char list"
type_synonym amount = "64 word"
type_synonym addr = string
type_synonym hash = bytes

subsection \<open>Errors\<close>

text \<open>
  The sentinel errors of the ledger package, with the constant part of the message where the
  code wraps one; \<open>Err\<close> is an error made on the spot, \<open>Wrap\<close> a message put in front of
  another error, \<open>Panic\<close> a Go run-time panic.
\<close>

datatype err =
    ErrNonceTooLow | ErrNonceTooHigh | ErrInsufficient | ErrFeeTooLow | ErrOverflow
  | ErrPool string | ErrAsset string | ErrEscrow string | ErrGuard string
  | ErrDuplicate | Err string | Wrap string err | Panic string

subsection \<open>Signed 64-bit integers\<close>

definition wrap64 :: "int \<Rightarrow> int" where
  "wrap64 x = (x + 2 ^ 63) mod 2 ^ 64 - 2 ^ 63"

lemma wrap64_id: "- (2 ^ 63) \<le> x \<Longrightarrow> x < 2 ^ 63 \<Longrightarrow> wrap64 x = x"
  by (simp add: wrap64_def)

lemma wrap64_range: "- (2 ^ 63) \<le> wrap64 x \<and> wrap64 x < 2 ^ 63"
  by (simp add: wrap64_def)

text \<open>The largest value of an \<open>int64\<close> and of a \<open>uint64\<close>.\<close>

definition int64_ok :: "int \<Rightarrow> bool" where
  "int64_ok x \<longleftrightarrow> - (2 ^ 63) \<le> x \<and> x < 2 ^ 63"

lemma word64_of_int_inject:
  assumes "int64_ok x" and "int64_ok y" and "(word_of_int x :: 64 word) = word_of_int y"
  shows "x = y"
proof -
  have "x mod 2 ^ 64 = y mod 2 ^ 64"
    using assms(3) by (simp add: word_of_int_eq_iff take_bit_eq_mod)
  then have "2 ^ 64 dvd x - y" by (simp add: mod_eq_dvd_iff)
  then obtain k where k: "x - y = 2 ^ 64 * k" by blast
  have "\<bar>x - y\<bar> < 2 ^ 64" using assms(1,2) by (auto simp: int64_ok_def)
  with k have "k = 0" by auto
  with k show ?thesis by simp
qed

subsection \<open>Fixed-width big-endian bytes\<close>

fun be_bytes :: "nat \<Rightarrow> nat \<Rightarrow> bytes" where
  "be_bytes 0 n = []"
| "be_bytes (Suc k) n = be_bytes k (n div 256) @ [char_of n]"

definition u32be :: "nat \<Rightarrow> bytes" where
  "u32be n = be_bytes 4 n"

definition u64be :: "64 word \<Rightarrow> bytes" where
  "u64be w = be_bytes 8 (unat w)"

lemma length_be_bytes [simp]: "length (be_bytes k n) = k"
  by (induction k n rule: be_bytes.induct) simp_all

lemma length_u64be [simp]: "length (u64be w) = 8"
  and length_u32be [simp]: "length (u32be n) = 4"
  by (simp_all add: u64be_def u32be_def)

lemma be_bytes_inject:
  "m < 256 ^ k \<Longrightarrow> n < 256 ^ k \<Longrightarrow> be_bytes k m = be_bytes k n \<Longrightarrow> m = n"
proof (induction k arbitrary: m n)
  case 0
  then show ?case by simp
next
  case (Suc k)
  from Suc.prems(3) have tl: "be_bytes k (m div 256) = be_bytes k (n div 256)"
    and hd: "(char_of m :: char) = char_of n" by simp_all
  have "m div 256 < 256 ^ k" "n div 256 < 256 ^ k"
    using Suc.prems(1,2) by (simp_all add: less_mult_imp_div_less mult.commute)
  with tl have d: "m div 256 = n div 256" by (rule Suc.IH [rotated 2])
  from hd have "(of_char (char_of m :: char) :: nat) = of_char (char_of n :: char)" by simp
  then have "m mod 256 = n mod 256" by simp
  with d show ?case by (metis div_mult_mod_eq)
qed

lemma u64be_inject [simp]: "u64be v = u64be w \<longleftrightarrow> v = w"
proof
  assume "u64be v = u64be w"
  moreover have "unat v < 256 ^ 8" "unat w < 256 ^ 8"
    using unsigned_less [of v] unsigned_less [of w] by simp_all
  ultimately have "unat v = unat w" unfolding u64be_def by (blast intro: be_bytes_inject)
  then show "v = w" by (simp add: word_unat_eq_iff)
qed simp

lemma u32be_inject: "m < 2 ^ 32 \<Longrightarrow> n < 2 ^ 32 \<Longrightarrow> u32be m = u32be n \<longleftrightarrow> m = n"
  unfolding u32be_def by (auto dest: be_bytes_inject [rotated 2])

lemma append_eq_same_length:
  "length xs = length ys \<Longrightarrow> xs @ us = ys @ vs \<longleftrightarrow> xs = ys \<and> us = vs"
  by simp

lemma u64be_append [simp]: "u64be v @ r = u64be w @ s \<longleftrightarrow> v = w \<and> r = s"
  by simp

text \<open>\<open>binary.BigEndian.Uint64\<close> of the first eight bytes.\<close>

definition be_val :: "bytes \<Rightarrow> nat" where
  "be_val bs = foldl (\<lambda>a c. a * 256 + of_char c) 0 bs"

subsection \<open>Unsigned 64-bit integers\<close>

lemma unat64_lt: "unat (a :: 64 word) < 18446744073709551616"
  using unsigned_less [of a, where ?'a = nat] by simp

lemma unat64_le: "unat (a :: 64 word) \<le> 18446744073709551615"
  using unat64_lt [of a] by simp

lemma unat_of_nat64: "n < 2 ^ 64 \<Longrightarrow> unat (of_nat n :: 64 word) = n"
  by (simp add: unat_of_nat)

lemma unat_add64: "unat x + unat y < 2 ^ 64 \<Longrightarrow> unat (x + y :: 64 word) = unat x + unat y"
  by (simp add: unat_word_ariths)

lemma word64_add_within:
  fixes x a c :: "64 word"
  assumes "x \<le> c" and "a \<le> c - x"
  shows "unat (x + a) = unat x + unat a" and "x + a \<le> c"
proof -
  have "unat a \<le> unat c - unat x" using assms by (simp add: word_le_nat_alt unat_sub)
  moreover have "unat x \<le> unat c" using assms(1) by (simp add: word_le_nat_alt)
  ultimately have le: "unat x + unat a \<le> unat c" by simp
  then show eq: "unat (x + a) = unat x + unat a"
    using unat64_lt [of c] by (intro unat_add64) simp
  show "x + a \<le> c" using le by (simp add: word_le_nat_alt eq)
qed

lemma unat_sub64: "y \<le> x \<Longrightarrow> unat (x - y :: 64 word) = unat x - unat y"
  by (rule unat_sub)

subsection \<open>Lists updated by index\<close>

lemma sum_list_upd:
  fixes xs :: "'a::ab_group_add list"
  shows "i < length xs \<Longrightarrow> sum_list (xs[i := v]) = sum_list xs - xs ! i + v"
proof (induction xs arbitrary: i)
  case Nil
  then show ?case by simp
next
  case (Cons x xs)
  then show ?case by (cases i) (simp_all add: algebra_simps)
qed

lemma sum_list_swap:
  fixes xs :: "'a::comm_monoid_add list"
  assumes "i < length xs" and "j < length xs"
  shows "sum_list (xs[i := xs ! j, j := xs ! i]) = sum_list xs"
proof -
  have "mset (xs[i := xs ! j, j := xs ! i]) = mset xs"
    using assms by (simp add: mset_swap)
  then show ?thesis by (metis sum_mset_sum_list)
qed

lemma distinct_swap_list:
  "i < length xs \<Longrightarrow> j < length xs \<Longrightarrow> distinct (xs[i := xs ! j, j := xs ! i]) \<longleftrightarrow> distinct xs"
  by (simp add: distinct_swap)

subsection \<open>Finite maps: Go's zero-value lookup and sums over all entries\<close>

definition getd :: "'v \<Rightarrow> ('k, 'v) fmap \<Rightarrow> 'k \<Rightarrow> 'v" where
  "getd d m k = (case fmlookup m k of None \<Rightarrow> d | Some v \<Rightarrow> v)"

lemma getd_upd [simp]: "getd d (fmupd k v m) k' = (if k = k' then v else getd d m k')"
  and getd_empty [simp]: "getd d fmempty k = d"
  and getd_drop [simp]: "getd d (fmdrop k m) k' = (if k = k' then d else getd d m k')"
  by (auto simp: getd_def)

definition fmsum :: "('v \<Rightarrow> 'a::comm_monoid_add) \<Rightarrow> ('k, 'v) fmap \<Rightarrow> 'a" where
  "fmsum f m = (\<Sum>k\<in>fmdom' m. f (the (fmlookup m k)))"

lemma fmsum_empty [simp]: "fmsum f fmempty = 0"
  by (simp add: fmsum_def)

lemma fmsum_insert:
  assumes "fmlookup m k = None"
  shows "fmsum f (fmupd k v m) = f v + fmsum f m"
proof -
  have "k \<notin> fmdom' m" using assms by (simp add: fmdom'_notI)
  moreover have "finite (fmdom' m)" by simp
  moreover have "(\<Sum>x\<in>fmdom' m. f (the (fmlookup (fmupd k v m) x))) = fmsum f m"
    unfolding fmsum_def using calculation(1) by (intro sum.cong) auto
  ultimately show ?thesis by (simp add: fmsum_def)
qed

lemma fmsum_drop:
  assumes "fmlookup m k = Some w"
  shows "fmsum f m = f w + fmsum f (fmdrop k m)"
proof -
  have "fmupd k w (fmdrop k m) = m"
    using assms by (intro fmap_ext) auto
  then show ?thesis using fmsum_insert [of "fmdrop k m" k f w] by simp
qed

lemma fmsum_upd:
  fixes f :: "'v \<Rightarrow> 'a::ab_group_add"
  shows "fmsum f (fmupd k v m) = fmsum f m - (case fmlookup m k of None \<Rightarrow> 0 | Some w \<Rightarrow> f w) + f v"
proof (cases "fmlookup m k")
  case None
  then show ?thesis by (simp add: fmsum_insert)
next
  case (Some w)
  have "fmupd k v m = fmupd k v (fmdrop k m)"
    by (intro fmap_ext) auto
  then have "fmsum f (fmupd k v m) = f v + fmsum f (fmdrop k m)"
    by (simp add: fmsum_insert)
  with fmsum_drop [OF Some, of f] Some show ?thesis by (simp add: algebra_simps)
qed

lemma fmsum_cong:
  assumes "\<And>k v. fmlookup m k = Some v \<Longrightarrow> f v = g v"
  shows "fmsum f m = fmsum g m"
  unfolding fmsum_def using assms by (intro sum.cong) (auto elim!: fmlookup_dom'_iff [THEN iffD1, elim_format])

lemma fmsum_fmmap: "fmsum f (fmmap h m) = fmsum (f \<circ> h) m"
  unfolding fmsum_def fmdom'_map
  by (intro sum.cong) (auto simp: fmlookup_dom'_iff)

lemma fmsum_zero: "(\<And>k v. fmlookup m k = Some v \<Longrightarrow> f v = 0) \<Longrightarrow> fmsum f m = 0"
  using fmsum_cong [of m f "\<lambda>_. 0"] by (simp add: fmsum_def)

subsection \<open>Time\<close>

text \<open>
  Times are nanoseconds of Unix time; the zero \<open>time.Time\<close> is the start of year 1. \<open>Time.Sub\<close> saturates at the
  range of a duration.
\<close>

definition zeroTime :: int where "zeroTime = - 62135596800000000000"

definition second :: int where "second = 1000000000"

definition minute :: int where "minute = 60 * 1000000000"

definition hour :: int where "hour = 60 * minute"

definition subTime :: "int \<Rightarrow> int \<Rightarrow> int" where
  "subTime t u = max (- (2 ^ 63)) (min (2 ^ 63 - 1) (t - u))"

subsection \<open>Loops\<close>

lemma fold_invariant:
  assumes "P s" and "\<And>x s. x \<in> set xs \<Longrightarrow> P s \<Longrightarrow> P (f x s)"
  shows "P (fold f xs s)"
  using assms by (induction xs arbitrary: s) simp_all

end
