(* ===== verification/Tx_Types.thy ===== *)
theory Tx_Types
  imports Prelude
begin

text \<open>
  The transaction types of node/types/types.go: addresses (hex-encoded public keys), the
  \<open>Tx\<close> record with its pool, escrow and guard operations, and every check that does not
  need ledger state (\<open>CheckStateless\<close> and what it calls). Ed25519 verification is an
  argument (\<open>ed_verify pub message signature\<close>).
\<close>

subsection \<open>Hex and addresses\<close>

definition hexval :: "char \<Rightarrow> nat option" where
  "hexval c =
     (let n = of_char c :: nat in
      if 48 \<le> n \<and> n \<le> 57 then Some (n - 48)
      else if 97 \<le> n \<and> n \<le> 102 then Some (n - 87)
      else if 65 \<le> n \<and> n \<le> 70 then Some (n - 55)
      else None)"

fun hex_decode :: "string \<Rightarrow> bytes option" where
  "hex_decode [] = Some []"
| "hex_decode [c] = None"
| "hex_decode (c # d # r) =
     (case (hexval c, hexval d, hex_decode r) of
        (Some a, Some b, Some bs) \<Rightarrow> Some (char_of (16 * a + b) # bs)
      | _ \<Rightarrow> None)"

definition hexdigit :: "nat \<Rightarrow> char" where
  "hexdigit n = (if n < 10 then char_of (48 + n) else char_of (87 + n))"

definition hex_encode :: "bytes \<Rightarrow> string" where
  "hex_encode bs =
     concat (map (\<lambda>c. [hexdigit (of_char c div 16), hexdigit (of_char c mod 16)]) bs)"

text \<open>
  \<open>strings.ToLower\<close> on ASCII; a string with other bytes is not hex and is refused by
  \<open>PubKey\<close> whatever \<open>ToLower\<close> does to it.
\<close>

definition to_lower :: "char \<Rightarrow> char" where
  "to_lower c = (let n = of_char c :: nat in if 65 \<le> n \<and> n \<le> 90 then char_of (n + 32) else c)"

definition AddressFromPubKey :: "bytes \<Rightarrow> addr" where
  "AddressFromPubKey pub = hex_encode pub"

definition PubKey :: "addr \<Rightarrow> err + bytes" where
  "PubKey a =
     (case hex_decode a of
        Some b \<Rightarrow> if length b \<noteq> 32 then Inl (Err ''invalid address'') else Inr b
      | None \<Rightarrow> Inl (Err ''invalid address''))"

definition Validate :: "addr \<Rightarrow> err option" where
  "Validate a =
     (if map to_lower a \<noteq> a then Some (Err ''address must be lowercase hex'')
      else case PubKey a of Inl e \<Rightarrow> Some e | Inr _ \<Rightarrow> None)"

text \<open>\<open>Hash{}\<close> and the text form of hashes.\<close>

definition zeroHash :: hash where
  "zeroHash = replicate 32 (CHR 0x00)"

definition HashString :: "hash \<Rightarrow> string" where
  "HashString h = hex_encode h"

definition ParseHash :: "string \<Rightarrow> err + hash" where
  "ParseHash s =
     (case hex_decode s of
        Some d \<Rightarrow> if length d \<noteq> 32 then Inl (Err ''invalid hash'') else Inr d
      | None \<Rightarrow> Inl (Err ''invalid hash''))"

subsection \<open>Asset symbols\<close>

definition is_upper :: "char \<Rightarrow> bool" where
  "is_upper c = (let n = of_char c :: nat in 65 \<le> n \<and> n \<le> 90)"

definition ValidAsset :: "string \<Rightarrow> bool" where
  "ValidAsset s \<longleftrightarrow> s = '''' \<or>
     (s \<noteq> ''ORP'' \<and> list_all is_upper s \<and> 2 \<le> length s \<and> length s \<le> 10)"

definition AssetName :: "string \<Rightarrow> string" where
  "AssetName s = (if s = '''' then ''ORP'' else s)"

subsection \<open>Transactions\<close>

record PoolOp =
  poOp :: string
  poID :: hash
  poName :: string
  poMembers :: "addr list"
  poContribution :: amount
  poRoundSecs :: int
  poDeposit :: amount
  poMode :: string
  poInsuranceBps :: "32 word"
  poTarget :: amount
  poOther :: addr

record EscrowOp =
  eoOp :: string
  eoID :: hash
  eoSeller :: addr
  eoArbiter :: addr
  eoMilestones :: "amount list"
  eoShipBy :: int
  eoReviewSecs :: int
  eoRef :: string
  eoToSeller :: amount
  eoArbiterBps :: "32 word"

record GuardOp =
  goOp :: string
  goGuardians :: "addr list"
  goThreshold :: int
  goDelaySecs :: int
  goAccount :: addr
  goNewOwner :: addr

record Tx =
  txChainID :: string
  txFrom :: addr
  txTo :: addr
  txAmount :: amount
  txFee :: amount
  txNonce :: "64 word"
  txMemo :: string
  txKind :: string
  txAsset :: string
  txPool :: "PoolOp option"
  txEscrow :: "EscrowOp option"
  txGuard :: "GuardOp option"
  txSig :: bytes

text \<open>The operation names of the wire format (the constant blocks of types.go).\<close>

abbreviation KindMint :: string where "KindMint \<equiv> ''mint''"
abbreviation KindBurn :: string where "KindBurn \<equiv> ''burn''"
abbreviation OpPoolCreate :: string where "OpPoolCreate \<equiv> ''create''"
abbreviation OpPoolJoin :: string where "OpPoolJoin \<equiv> ''join''"
abbreviation OpPoolContribute :: string where "OpPoolContribute \<equiv> ''contribute''"
abbreviation OpPoolClaim :: string where "OpPoolClaim \<equiv> ''claim''"
abbreviation OpPoolAutopay :: string where "OpPoolAutopay \<equiv> ''autopay''"
abbreviation OpPoolStopAutopay :: string where "OpPoolStopAutopay \<equiv> ''stop_autopay''"
abbreviation OpPoolBid :: string where "OpPoolBid \<equiv> ''bid''"
abbreviation OpPoolSwap :: string where "OpPoolSwap \<equiv> ''swap''"
abbreviation OpPoolWithdraw :: string where "OpPoolWithdraw \<equiv> ''withdraw''"
abbreviation OpPoolCancel :: string where "OpPoolCancel \<equiv> ''cancel''"
abbreviation (input) "PoolRotation \<equiv> ''''"
abbreviation PoolLottery :: string where "PoolLottery \<equiv> ''lottery''"
abbreviation PoolBidding :: string where "PoolBidding \<equiv> ''bidding''"
abbreviation PoolGoal :: string where "PoolGoal \<equiv> ''goal''"
abbreviation OpEscrowCreate :: string where "OpEscrowCreate \<equiv> ''create''"
abbreviation OpEscrowDispatch :: string where "OpEscrowDispatch \<equiv> ''dispatch''"
abbreviation OpEscrowRelease :: string where "OpEscrowRelease \<equiv> ''release''"
abbreviation OpEscrowDispute :: string where "OpEscrowDispute \<equiv> ''dispute''"
abbreviation OpEscrowResolve :: string where "OpEscrowResolve \<equiv> ''resolve''"
abbreviation OpEscrowRefund :: string where "OpEscrowRefund \<equiv> ''refund''"
abbreviation OpEscrowClaim :: string where "OpEscrowClaim \<equiv> ''claim''"
abbreviation OpGuardSet :: string where "OpGuardSet \<equiv> ''set''"
abbreviation OpGuardStart :: string where "OpGuardStart \<equiv> ''start''"
abbreviation OpGuardApprove :: string where "OpGuardApprove \<equiv> ''approve''"
abbreviation OpGuardCancel :: string where "OpGuardCancel \<equiv> ''cancel''"
abbreviation OpGuardFinish :: string where "OpGuardFinish \<equiv> ''finish''"

text \<open>\<open>EscrowOp.Total\<close>: the loop \<open>t += m\<close>, wrapping.\<close>

definition Total :: "EscrowOp \<Rightarrow> amount" where
  "Total x = foldl (+) 0 (eoMilestones x)"

definition hasCircle :: "PoolOp \<Rightarrow> bool" where
  "hasCircle p \<longleftrightarrow> poMode p \<noteq> '''' \<or> poInsuranceBps p \<noteq> 0 \<or> poTarget p \<noteq> 0 \<or> poOther p \<noteq> ''''"

subsection \<open>Stateless checks\<close>

definition checkTransfer :: "Tx \<Rightarrow> err option" where
  "checkTransfer tx =
     (case Validate (txTo tx) of Some e \<Rightarrow> Some (Wrap ''to'' e)
      | None \<Rightarrow>
        if txFrom tx = txTo tx then Some (Err ''from and to must differ'')
        else if txAmount tx = 0 then Some (Err ''amount must be positive'')
        else if txAmount tx + txFee tx < txAmount tx then Some (Err ''amount + fee overflows'')
        else None)"

definition checkMint :: "Tx \<Rightarrow> err option" where
  "checkMint tx =
     (if txAsset tx = '''' then Some (Err ''ORP cannot be minted'')
      else case Validate (txTo tx) of Some e \<Rightarrow> Some (Wrap ''to'' e)
      | None \<Rightarrow>
        if txAmount tx = 0 then Some (Err ''amount must be positive'')
        else if txFee tx \<noteq> 0 then Some (Err ''mints carry no fee'')
        else None)"

definition checkBurn :: "Tx \<Rightarrow> err option" where
  "checkBurn tx =
     (if txAsset tx = '''' then Some (Err ''ORP cannot be burned this way'')
      else if txTo tx \<noteq> '''' then Some (Err ''burn must not set to'')
      else if txAmount tx = 0 then Some (Err ''amount must be positive'')
      else if txAmount tx + txFee tx < txAmount tx then Some (Err ''amount + fee overflows'')
      else None)"

fun checkGuardians :: "addr \<Rightarrow> addr list \<Rightarrow> addr list \<Rightarrow> err option" where
  "checkGuardians from seen [] = None"
| "checkGuardians from seen (a # as) =
     (case Validate a of Some e \<Rightarrow> Some (Wrap ''guardian'' e)
      | None \<Rightarrow>
        if a = from \<or> a \<in> set seen then Some (Err ''guardians must be distinct and not yourself'')
        else checkGuardians from (a # seen) as)"

definition checkGuardOp :: "Tx \<Rightarrow> GuardOp \<Rightarrow> err option" where
  "checkGuardOp tx g =
     (if goOp g = OpGuardSet then
        (if length (goGuardians g) = 0 \<or> length (goGuardians g) > 5 then Some (Err ''choose 1-5 guardians'')
         else case checkGuardians (txFrom tx) [] (goGuardians g) of Some e \<Rightarrow> Some e
         | None \<Rightarrow>
           if goThreshold g < 1 \<or> goThreshold g > int (length (goGuardians g))
           then Some (Err ''threshold must be between 1 and the number of guardians'')
           else if goDelaySecs g < 3600 \<or> goDelaySecs g > 30 * 24 * 3600
           then Some (Err ''recovery delay must be 1 hour to 30 days'')
           else if goAccount g \<noteq> '''' \<or> goNewOwner g \<noteq> ''''
           then Some (Err ''set takes guardians, threshold and delay only'')
           else None)
      else if goOp g = OpGuardStart \<or> goOp g = OpGuardApprove then
        (case Validate (goAccount g) of Some e \<Rightarrow> Some (Wrap ''account'' e)
         | None \<Rightarrow> (case Validate (goNewOwner g) of Some e \<Rightarrow> Some (Wrap ''new owner'' e)
         | None \<Rightarrow>
           if goNewOwner g = goAccount g then Some (Err ''the new key must differ from the old one'')
           else if length (goGuardians g) \<noteq> 0 \<or> goThreshold g \<noteq> 0 \<or> goDelaySecs g \<noteq> 0
           then Some (Err ''takes account and new_owner only'')
           else None))
      else if goOp g = OpGuardCancel \<or> goOp g = OpGuardFinish then
        (case Validate (goAccount g) of Some e \<Rightarrow> Some (Wrap ''account'' e)
         | None \<Rightarrow>
           if length (goGuardians g) \<noteq> 0 \<or> goThreshold g \<noteq> 0 \<or> goDelaySecs g \<noteq> 0 \<or> goNewOwner g \<noteq> ''''
           then Some (Err ''takes the account only'')
           else None)
      else Some (Err ''unknown recovery op''))"

fun checkMilestones :: "amount \<Rightarrow> amount list \<Rightarrow> err option" where
  "checkMilestones acc [] = None"
| "checkMilestones acc (m # ms) =
     (if m = 0 then Some (Err ''milestone amounts must be positive'')
      else if acc + m < acc then Some (Err ''milestones overflow'')
      else checkMilestones (acc + m) ms)"

definition checkEscrowOp :: "Tx \<Rightarrow> EscrowOp \<Rightarrow> err option" where
  "checkEscrowOp tx x =
     (if txTo tx \<noteq> '''' \<or> txAmount tx \<noteq> 0 then Some (Err ''escrow operations must not set to or amount'')
      else if eoOp x = OpEscrowCreate then
        (if eoID x \<noteq> zeroHash then Some (Err ''create must not set id'')
         else if Validate (eoSeller x) \<noteq> None then Some (Err ''seller must be a valid address'')
         else if Validate (eoArbiter x) \<noteq> None then Some (Err ''arbiter must be a valid address'')
         else if eoSeller x = txFrom tx then Some (Err ''buyer and seller must differ'')
         else if eoArbiter x = txFrom tx \<or> eoArbiter x = eoSeller x
         then Some (Err ''the arbiter must be independent of buyer and seller'')
         else if length (eoMilestones x) = 0 \<or> length (eoMilestones x) > 10
         then Some (Err ''an escrow needs 1-10 milestones'')
         else if eoShipBy x \<le> 0 then Some (Err ''ship_by deadline required'')
         else if eoReviewSecs x < 3600 \<or> eoReviewSecs x > 90 * 24 * 3600
         then Some (Err ''review period must be 1 hour to 90 days'')
         else if length (eoRef x) > 64 then Some (Err ''ref longer than 64 bytes'')
         else if eoToSeller x \<noteq> 0 then Some (Err ''create must not set to_seller'')
         else if eoArbiterBps x > 500 then Some (Err ''arbiter fee can be at most 5%'')
         else checkMilestones 0 (eoMilestones x))
      else if eoID x = zeroHash then Some (Err ''escrow id required'')
      else if eoSeller x \<noteq> '''' \<or> eoArbiter x \<noteq> '''' \<or> length (eoMilestones x) \<noteq> 0 \<or> eoShipBy x \<noteq> 0
           \<or> eoReviewSecs x \<noteq> 0 \<or> eoRef x \<noteq> '''' \<or> eoArbiterBps x \<noteq> 0
      then Some (Err ''takes only an escrow id'')
      else if eoOp x \<in> {OpEscrowDispatch, OpEscrowRelease, OpEscrowDispute, OpEscrowRefund, OpEscrowClaim}
      then (if eoToSeller x \<noteq> 0 then Some (Err ''only resolve sets to_seller'') else None)
      else if eoOp x = OpEscrowResolve then None
      else Some (Err ''unknown escrow op''))"

fun checkMembers :: "addr list \<Rightarrow> addr list \<Rightarrow> err option" where
  "checkMembers seen [] = None"
| "checkMembers seen (m # ms) =
     (case Validate m of Some e \<Rightarrow> Some (Wrap ''member'' e)
      | None \<Rightarrow> if m \<in> set seen then Some (Err ''member listed twice'') else checkMembers (m # seen) ms)"

definition checkPoolCreate :: "Tx \<Rightarrow> PoolOp \<Rightarrow> err option" where
  "checkPoolCreate tx p =
     (let n = of_nat (length (poMembers p)) :: amount in
      if poID p \<noteq> zeroHash then Some (Err ''create must not set id'')
      else if poName p = '''' \<or> length (poName p) > 64 then Some (Err ''pool name must be 1-64 bytes'')
      else if length (poMembers p) < 2 \<or> length (poMembers p) > 50 then Some (Err ''a pool needs 2-50 members'')
      else case checkMembers [] (poMembers p) of Some e \<Rightarrow> Some e
      | None \<Rightarrow>
        if txFrom tx \<notin> set (poMembers p) then Some (Err ''the creator must be a member'')
        else if poContribution p = 0 then Some (Err ''contribution must be positive'')
        else if poContribution p > 18446744073709551615 div n then Some (Err ''contribution too large'')
        else if poRoundSecs p \<noteq> 0 \<and> (poRoundSecs p < 3600 \<or> poRoundSecs p > 366 * 24 * 3600)
        then Some (Err ''round length must be 1 hour to 1 year'')
        else if poDeposit p > poContribution p * n then Some (Err ''deposit is larger than a whole pot'')
        else if poDeposit p \<noteq> 0 \<and> poRoundSecs p = 0
        then Some (Err ''a deposit needs a round schedule (round_secs)'')
        else if poMode p \<in> {PoolRotation, PoolLottery, PoolBidding} \<and> poTarget p \<noteq> 0
        then Some (Err ''only goal circles have a target'')
        else if poMode p = PoolGoal \<and> poTarget p = 0 then Some (Err ''a goal circle needs a target'')
        else if poMode p = PoolGoal \<and> (poDeposit p \<noteq> 0 \<or> poInsuranceBps p \<noteq> 0)
        then Some (Err ''goal circles have no deposit or insurance: everyone keeps their own savings'')
        else if poMode p \<notin> {PoolRotation, PoolLottery, PoolBidding, PoolGoal}
        then Some (Err ''unknown circle mode'')
        else if poInsuranceBps p > 1000 then Some (Err ''insurance can be at most 10% of each pot'')
        else if poOther p \<noteq> '''' then Some (Err ''create must not name a swap partner'')
        else None)"

definition checkPoolOp :: "Tx \<Rightarrow> PoolOp \<Rightarrow> err option" where
  "checkPoolOp tx p =
     (if txTo tx \<noteq> '''' \<or> txAmount tx \<noteq> 0 then Some (Err ''pool operations must not set to or amount'')
      else if poOp p = OpPoolCreate then checkPoolCreate tx p
      else if poOp p = OpPoolBid then
        (if poID p = zeroHash \<or> poContribution p = 0
         then Some (Err ''bid needs a pool id and a discount (contribution)'')
         else if poName p \<noteq> '''' \<or> length (poMembers p) \<noteq> 0 \<or> poRoundSecs p \<noteq> 0 \<or> poDeposit p \<noteq> 0 \<or> hasCircle p
         then Some (Err ''bid takes a pool id and a discount'')
         else None)
      else if poOp p = OpPoolSwap then
        (if poID p = zeroHash then Some (Err ''pool id required'')
         else case Validate (poOther p) of Some e \<Rightarrow> Some (Wrap ''swap partner'' e)
         | None \<Rightarrow>
           if poName p \<noteq> '''' \<or> length (poMembers p) \<noteq> 0 \<or> poContribution p \<noteq> 0 \<or> poRoundSecs p \<noteq> 0
              \<or> poDeposit p \<noteq> 0 \<or> poMode p \<noteq> '''' \<or> poInsuranceBps p \<noteq> 0 \<or> poTarget p \<noteq> 0
           then Some (Err ''swap takes a pool id and the other member'')
           else None)
      else if poOp p = OpPoolContribute then
        (if poID p = zeroHash then Some (Err ''pool id required'')
         else if poName p \<noteq> '''' \<or> length (poMembers p) \<noteq> 0 \<or> poRoundSecs p \<noteq> 0 \<or> poDeposit p \<noteq> 0 \<or> hasCircle p
         then Some (Err ''contribute takes a pool id and an optional amount'')
         else None)
      else if poOp p = OpPoolAutopay then
        (if poID p = zeroHash then Some (Err ''pool id required'')
         else if poContribution p = 0 then Some (Err ''autopay needs an amount (contribution)'')
         else if poName p \<noteq> '''' \<or> length (poMembers p) \<noteq> 0 \<or> poRoundSecs p \<noteq> 0 \<or> poDeposit p \<noteq> 0
         then Some (Err ''autopay takes a pool id and an amount'')
         else None)
      else if poOp p \<in> {OpPoolJoin, OpPoolClaim, OpPoolStopAutopay, OpPoolWithdraw, OpPoolCancel} then
        (if poID p = zeroHash then Some (Err ''pool id required'')
         else if poName p \<noteq> '''' \<or> length (poMembers p) \<noteq> 0 \<or> poContribution p \<noteq> 0 \<or> poRoundSecs p \<noteq> 0
              \<or> poDeposit p \<noteq> 0 \<or> hasCircle p
         then Some (Err ''takes only a pool id'')
         else None)
      else Some (Err ''unknown pool op''))"

text \<open>The \<open>switch\<close> of \<open>CheckStateless\<close> over the kind of transaction.\<close>

definition checkBody :: "Tx \<Rightarrow> err option" where
  "checkBody tx =
     (case txGuard tx of Some g \<Rightarrow>
        (if txKind tx \<noteq> '''' \<or> txPool tx \<noteq> None \<or> txEscrow tx \<noteq> None \<or> txTo tx \<noteq> '''' \<or> txAmount tx \<noteq> 0
         then Some (Err ''recovery operations carry only the guard op'')
         else checkGuardOp tx g)
      | None \<Rightarrow> (case txEscrow tx of Some x \<Rightarrow>
        (if txKind tx \<noteq> '''' \<or> txPool tx \<noteq> None
         then Some (Err ''escrow operations cannot carry a kind or pool op'')
         else checkEscrowOp tx x)
      | None \<Rightarrow> (case txPool tx of Some p \<Rightarrow>
        (if txKind tx \<noteq> '''' then Some (Err ''pool operations cannot have a kind'')
         else checkPoolOp tx p)
      | None \<Rightarrow>
        if txKind tx = '''' then checkTransfer tx
        else if txKind tx = KindMint then checkMint tx
        else if txKind tx = KindBurn then checkBurn tx
        else Some (Err ''unknown kind''))))"

end
