(* ===== verification/Encoding.thy ===== *)
theory Encoding
  imports Tx_Types
begin

text \<open>
  The canonical binary encoding of node/types/types.go: the length-prefixed \<open>encoder\<close>, the
  bytes a sender signs (\<open>SignBytes\<close>, v1 for plain ORP transfers, v2 otherwise), transaction
  and block identifiers, and signature checking. SHA-256 and Ed25519 are arguments
  (\<open>sha\<close>, \<open>ed_verify\<close>).

  The interface \<open>prefix_code\<close> states what makes an encoder decodable from the left; it is
  interpreted on the encoder's methods \<open>str\<close> and \<open>u64\<close>, and the injectivity of the whole
  transaction encoding rests on its facts.
\<close>

subsection \<open>The encoder\<close>

definition estr :: "string \<Rightarrow> bytes" where
  "estr s = u32be (length s) @ s"

text \<open>\<open>e.u64(uint64(v))\<close> of an \<open>int64\<close>.\<close>

definition e64i :: "int \<Rightarrow> bytes" where
  "e64i v = u64be (word_of_int v)"

text \<open>A length followed by the items, as the loops over members, milestones and guardians write.\<close>

definition elist :: "('a \<Rightarrow> bytes) \<Rightarrow> 'a list \<Rightarrow> bytes" where
  "elist enc xs = u64be (of_nat (length xs)) @ concat (map enc xs)"

text \<open>A block appended only when used, marked by its tag byte.\<close>

definition tagged :: "char \<Rightarrow> bool \<Rightarrow> bytes \<Rightarrow> bytes" where
  "tagged t used x = (if used then t # x else [])"

definition poolBytes :: "PoolOp \<Rightarrow> bytes" where
  "poolBytes p =
     estr (poOp p) @ poID p @ estr (poName p) @
     elist estr (poMembers p) @
     u64be (poContribution p) @
     tagged (CHR 0x03) (poRoundSecs p \<noteq> 0 \<or> poDeposit p \<noteq> 0)
       (e64i (poRoundSecs p) @ u64be (poDeposit p)) @
     tagged (CHR 0x05) (hasCircle p)
       (estr (poMode p) @ u64be (ucast (poInsuranceBps p)) @ u64be (poTarget p) @ estr (poOther p))"

definition escrowBytes :: "EscrowOp \<Rightarrow> bytes" where
  "escrowBytes x =
     estr (eoOp x) @ eoID x @ estr (eoSeller x) @ estr (eoArbiter x) @
     elist u64be (eoMilestones x) @
     e64i (eoShipBy x) @ e64i (eoReviewSecs x) @ estr (eoRef x) @ u64be (eoToSeller x) @
     tagged (CHR 0x06) (eoArbiterBps x \<noteq> 0) (u64be (ucast (eoArbiterBps x)))"

definition guardBytes :: "GuardOp \<Rightarrow> bytes" where
  "guardBytes g =
     estr (goOp g) @ elist estr (goGuardians g) @
     e64i (goThreshold g) @ e64i (goDelaySecs g) @ estr (goAccount g) @ estr (goNewOwner g)"

definition isV2 :: "Tx \<Rightarrow> bool" where
  "isV2 tx \<longleftrightarrow> txPool tx \<noteq> None \<or> txKind tx \<noteq> '''' \<or> txAsset tx \<noteq> '''' \<or> txEscrow tx \<noteq> None
     \<or> txGuard tx \<noteq> None"

definition v2Bytes :: "Tx \<Rightarrow> bytes" where
  "v2Bytes tx =
     estr (txKind tx) @ estr (txAsset tx) @
     (case txPool tx of Some p \<Rightarrow> CHR 0x01 # poolBytes p | None \<Rightarrow> [CHR 0x00]) @
     (case txEscrow tx of Some x \<Rightarrow> CHR 0x02 # escrowBytes x | None \<Rightarrow> []) @
     (case txGuard tx of Some g \<Rightarrow> CHR 0x04 # guardBytes g | None \<Rightarrow> [])"

definition SignBytes :: "Tx \<Rightarrow> bytes" where
  "SignBytes tx =
     estr (if isV2 tx then ''openreserve/tx/v2'' else ''openreserve/tx/v1'') @
     estr (txChainID tx) @ estr (txFrom tx) @ estr (txTo tx) @
     u64be (txAmount tx) @ u64be (txFee tx) @ u64be (txNonce tx) @ estr (txMemo tx) @
     (if isV2 tx then v2Bytes tx else [])"

definition ID :: "(bytes \<Rightarrow> hash) \<Rightarrow> Tx \<Rightarrow> hash" where
  "ID sha tx = sha (SignBytes tx)"

definition Sign :: "('k \<Rightarrow> bytes \<Rightarrow> bytes) \<Rightarrow> 'k \<Rightarrow> Tx \<Rightarrow> Tx" where
  "Sign ed_sign priv tx = tx\<lparr>txSig := ed_sign priv (SignBytes tx)\<rparr>"

text \<open>\<open>CheckStateless\<close>: chain id, sender, memo, asset, the body, then the signature.\<close>

definition CheckStateless :: "(bytes \<Rightarrow> bytes \<Rightarrow> bytes \<Rightarrow> bool) \<Rightarrow> string \<Rightarrow> Tx \<Rightarrow> err option" where
  "CheckStateless ed_verify chainID tx =
     (if txChainID tx \<noteq> chainID then Some (Err ''wrong chain_id'')
      else case Validate (txFrom tx) of Some e \<Rightarrow> Some (Wrap ''from'' e)
      | None \<Rightarrow>
        if length (txMemo tx) > 256 then Some (Err ''memo longer than 256 bytes'')
        else if \<not> ValidAsset (txAsset tx) then Some (Err ''invalid asset'')
        else case checkBody tx of Some e \<Rightarrow> Some e
        | None \<Rightarrow>
          (case PubKey (txFrom tx) of
             Inl e \<Rightarrow> Some (Err ''invalid signature'')
           | Inr pub \<Rightarrow>
             if length (txSig tx) \<noteq> 64 \<or> \<not> ed_verify pub (SignBytes tx) (txSig tx)
             then Some (Err ''invalid signature'') else None))"

subsection \<open>Blocks\<close>

record Header =
  hChainID :: string
  hHeight :: "64 word"
  hPrevHash :: hash
  hTime :: int
  hTxRoot :: hash
  hStateRoot :: hash
  hProposer :: addr

record Block =
  bHeader :: Header
  bTxs :: "Tx list"
  bSig :: bytes

definition headerSignBytes :: "Header \<Rightarrow> bytes" where
  "headerSignBytes h =
     estr ''openreserve/block/v1'' @ estr (hChainID h) @ u64be (hHeight h) @ hPrevHash h @
     e64i (hTime h) @ hTxRoot h @ hStateRoot h @ estr (hProposer h)"

definition HeaderHash :: "(bytes \<Rightarrow> hash) \<Rightarrow> Header \<Rightarrow> hash" where
  "HeaderHash sha h = sha (headerSignBytes h)"

definition SignBlock :: "('k \<Rightarrow> bytes \<Rightarrow> bytes) \<Rightarrow> 'k \<Rightarrow> Block \<Rightarrow> Block" where
  "SignBlock ed_sign priv b = b\<lparr>bSig := ed_sign priv (headerSignBytes (bHeader b))\<rparr>"

definition VerifySig :: "(bytes \<Rightarrow> bytes \<Rightarrow> bytes \<Rightarrow> bool) \<Rightarrow> Block \<Rightarrow> err option" where
  "VerifySig ed_verify b =
     (case PubKey (hProposer (bHeader b)) of
        Inl e \<Rightarrow> Some e
      | Inr pub \<Rightarrow>
        if \<not> ed_verify pub (headerSignBytes (bHeader b)) (bSig b)
        then Some (Err ''invalid block signature'') else None)"

subsection \<open>Codes that can be read from the left\<close>

locale prefix_code =
  fixes enc :: "'a \<Rightarrow> bytes" and ok :: "'a \<Rightarrow> bool"
  assumes enc_cancel: "ok a \<Longrightarrow> ok b \<Longrightarrow> enc a @ r = enc b @ s \<Longrightarrow> a = b \<and> r = s"
begin

lemma cancel_iff: "ok a \<Longrightarrow> ok b \<Longrightarrow> enc a @ r = enc b @ s \<longleftrightarrow> a = b \<and> r = s"
  using enc_cancel by blast

lemma enc_inject: "ok a \<Longrightarrow> ok b \<Longrightarrow> enc a = enc b \<longleftrightarrow> a = b"
  using enc_cancel [of a b "[]" "[]"] by auto

lemma seq_cancel:
  "length as = length bs \<Longrightarrow> list_all ok as \<Longrightarrow> list_all ok bs \<Longrightarrow>
   concat (map enc as) @ r = concat (map enc bs) @ s \<longleftrightarrow> as = bs \<and> r = s"
proof (induction as bs arbitrary: r s rule: list_induct2)
  case Nil
  then show ?case by simp
next
  case (Cons a as b bs)
  then show ?case by (simp add: cancel_iff)
qed

text \<open>A list preceded by its length as a \<open>uint64\<close>.\<close>

lemma elist_cancel:
  assumes "length as < 2 ^ 32" and "length bs < 2 ^ 32" and "list_all ok as" and "list_all ok bs"
    and eq: "elist enc as @ r = elist enc bs @ s"
  shows "as = bs \<and> r = s"
proof -
  from eq have len: "(of_nat (length as) :: 64 word) = of_nat (length bs)"
    and rest: "concat (map enc as) @ r = concat (map enc bs) @ s" by (simp_all add: elist_def)
  from len have "unat (of_nat (length as) :: 64 word) = unat (of_nat (length bs) :: 64 word)" by simp
  with assms(1,2) have "length as = length bs" by (simp add: unat_of_nat)
  with seq_cancel [OF _ assms(3,4)] rest show ?thesis by blast
qed

end

definition str_ok :: "string \<Rightarrow> bool" where
  "str_ok s \<longleftrightarrow> length s < 2 ^ 32"

definition hash_ok :: "hash \<Rightarrow> bool" where
  "hash_ok h \<longleftrightarrow> length h = 32"

definition strs_ok :: "string list \<Rightarrow> bool" where
  "strs_ok ss \<longleftrightarrow> length ss < 2 ^ 32 \<and> list_all str_ok ss"

definition amounts_ok :: "amount list \<Rightarrow> bool" where
  "amounts_ok xs \<longleftrightarrow> length xs < 2 ^ 32"

lemma estr_cancel: "str_ok a \<Longrightarrow> str_ok b \<Longrightarrow> estr a @ r = estr b @ s \<Longrightarrow> a = b \<and> r = s"
proof -
  assume ok: "str_ok a" "str_ok b" and eq: "estr a @ r = estr b @ s"
  from eq have "u32be (length a) = u32be (length b)" and "a @ r = b @ s"
    by (simp_all add: estr_def)
  with ok show "a = b \<and> r = s" by (simp add: u32be_inject str_ok_def)
qed

interpretation str_code: prefix_code estr str_ok
  by unfold_locales (use estr_cancel in blast)+

interpretation hash_code: prefix_code "\<lambda>h. h" hash_ok
  by unfold_locales (simp add: hash_ok_def)

interpretation u64_code: prefix_code u64be "\<lambda>_. True"
  by unfold_locales simp_all

interpretation i64_code: prefix_code e64i int64_ok
  by unfold_locales (auto simp: e64i_def intro: word64_of_int_inject)

interpretation strs_code: prefix_code "elist estr" strs_ok
  by unfold_locales (rule str_code.elist_cancel; simp add: strs_ok_def)

interpretation amounts_code: prefix_code "elist u64be" amounts_ok
  by unfold_locales (rule u64_code.elist_cancel; simp add: amounts_ok_def list_all_iff)

lemmas field_cancel = str_code.cancel_iff hash_code.cancel_iff u64be_append i64_code.cancel_iff
  strs_code.cancel_iff amounts_code.cancel_iff

lemmas field_inject = str_code.enc_inject u64be_inject i64_code.enc_inject

subsection \<open>The transaction encoding is injective\<close>

text \<open>
  What a Go value always satisfies (a \<open>Hash\<close> has 32 bytes, an \<open>int64\<close> is in range), and
  strings and lists shorter than \<open>2 ^ 32\<close>, so that no length prefix is truncated.
\<close>

definition pool_ok :: "PoolOp \<Rightarrow> bool" where
  "pool_ok p \<longleftrightarrow> str_ok (poOp p) \<and> hash_ok (poID p) \<and> str_ok (poName p) \<and> strs_ok (poMembers p) \<and>
     int64_ok (poRoundSecs p) \<and> str_ok (poMode p) \<and> str_ok (poOther p)"

definition escrow_ok :: "EscrowOp \<Rightarrow> bool" where
  "escrow_ok x \<longleftrightarrow> str_ok (eoOp x) \<and> hash_ok (eoID x) \<and> str_ok (eoSeller x) \<and> str_ok (eoArbiter x) \<and>
     amounts_ok (eoMilestones x) \<and> int64_ok (eoShipBy x) \<and> int64_ok (eoReviewSecs x) \<and> str_ok (eoRef x)"

definition guard_ok :: "GuardOp \<Rightarrow> bool" where
  "guard_ok g \<longleftrightarrow> str_ok (goOp g) \<and> strs_ok (goGuardians g) \<and> int64_ok (goThreshold g) \<and>
     int64_ok (goDelaySecs g) \<and> str_ok (goAccount g) \<and> str_ok (goNewOwner g)"

definition tx_ok :: "Tx \<Rightarrow> bool" where
  "tx_ok tx \<longleftrightarrow> str_ok (txChainID tx) \<and> str_ok (txFrom tx) \<and> str_ok (txTo tx) \<and> str_ok (txMemo tx) \<and>
     str_ok (txKind tx) \<and> str_ok (txAsset tx) \<and> pred_option pool_ok (txPool tx) \<and>
     pred_option escrow_ok (txEscrow tx) \<and> pred_option guard_ok (txGuard tx)"

text \<open>An optional block is recognised by its tag: what follows must not start with that tag.\<close>

definition starts_not :: "char \<Rightarrow> bytes \<Rightarrow> bool" where
  "starts_not t r \<longleftrightarrow> (case r of [] \<Rightarrow> True | c # _ \<Rightarrow> c \<noteq> t)"

lemma starts_not_simps [simp]:
  "starts_not t []" "starts_not t (c # r) \<longleftrightarrow> c \<noteq> t"
  "starts_not t (tagged u a x @ r) \<longleftrightarrow> (if a then u \<noteq> t else starts_not t r)"
  by (simp_all add: starts_not_def tagged_def)

lemma tagged_cancel:
  assumes "starts_not t r" and "starts_not t s"
  shows "tagged t a x @ r = tagged t b y @ s \<longleftrightarrow> a = b \<and> (if a then x @ r = y @ s else r = s)"
  using assms by (cases r; cases s) (auto simp: tagged_def)

lemma ucast_32_64_inject [simp]: "(ucast (a :: 32 word) :: 64 word) = ucast b \<longleftrightarrow> a = b"
proof
  assume "(ucast a :: 64 word) = ucast b"
  then have "uint (ucast a :: 64 word) = uint (ucast b :: 64 word)" by simp
  moreover have "take_bit 64 (uint w) = uint w" for w :: "32 word"
    using uint_lt2p [of w] by (intro take_bit_int_eq_self) simp_all
  ultimately have "uint a = uint b" by (simp add: unsigned_ucast_eq)
  then show "a = b" by (simp add: word_uint_eq_iff)
qed simp

lemma poolBytes_cancel:
  assumes ok: "pool_ok p" "pool_ok q"
    and tl: "starts_not (CHR 0x03) r" "starts_not (CHR 0x05) r" "starts_not (CHR 0x03) s" "starts_not (CHR 0x05) s"
    and eq: "poolBytes p @ r = poolBytes q @ s"
  shows "p = q \<and> r = s"
proof -
  have "poOp p = poOp q \<and> poID p = poID q \<and> poName p = poName q \<and> poMembers p = poMembers q \<and>
      poContribution p = poContribution q \<and> poRoundSecs p = poRoundSecs q \<and> poDeposit p = poDeposit q \<and>
      poMode p = poMode q \<and> poInsuranceBps p = poInsuranceBps q \<and> poTarget p = poTarget q \<and>
      poOther p = poOther q \<and> r = s"
    using eq ok tl unfolding poolBytes_def pool_ok_def
    by (simp add: field_cancel tagged_cancel split: if_splits) (auto simp: hasCircle_def)
  then show ?thesis by simp
qed

lemma escrowBytes_cancel:
  assumes ok: "escrow_ok x" "escrow_ok y"
    and tl: "starts_not (CHR 0x06) r" "starts_not (CHR 0x06) s"
    and eq: "escrowBytes x @ r = escrowBytes y @ s"
  shows "x = y \<and> r = s"
proof -
  have "eoOp x = eoOp y \<and> eoID x = eoID y \<and> eoSeller x = eoSeller y \<and> eoArbiter x = eoArbiter y \<and>
      eoMilestones x = eoMilestones y \<and> eoShipBy x = eoShipBy y \<and> eoReviewSecs x = eoReviewSecs y \<and>
      eoRef x = eoRef y \<and> eoToSeller x = eoToSeller y \<and> eoArbiterBps x = eoArbiterBps y \<and> r = s"
    using eq ok tl unfolding escrowBytes_def escrow_ok_def
    by (simp add: field_cancel tagged_cancel split: if_splits)
  then show ?thesis by simp
qed

lemma guardBytes_cancel:
  assumes ok: "guard_ok g" "guard_ok h" and eq: "guardBytes g @ r = guardBytes h @ s"
  shows "g = h \<and> r = s"
  using eq ok unfolding guardBytes_def guard_ok_def by (simp add: field_cancel)

lemma v2Bytes_inject:
  assumes ok: "tx_ok t" "tx_ok u" and eq: "v2Bytes t = v2Bytes u"
  shows "txKind t = txKind u \<and> txAsset t = txAsset u \<and> txPool t = txPool u \<and>
    txEscrow t = txEscrow u \<and> txGuard t = txGuard u"
proof -
  define G where "G t = (case txGuard t of Some g \<Rightarrow> CHR 0x04 # guardBytes g | None \<Rightarrow> [])" for t :: Tx
  define E where "E t = (case txEscrow t of Some x \<Rightarrow> CHR 0x02 # escrowBytes x | None \<Rightarrow> []) @ G t" for t
  have hdG: "starts_not (CHR 0x06) (G t)" "starts_not (CHR 0x02) (G t)" "starts_not (CHR 0x03) (G t)"
    "starts_not (CHR 0x05) (G t)" for t
    by (simp_all add: G_def split: option.split)
  then have hdE: "starts_not (CHR 0x03) (E t)" "starts_not (CHR 0x05) (E t)" for t
    by (simp_all add: E_def split: option.split)
  from eq ok have kind: "txKind t = txKind u" and asset: "txAsset t = txAsset u"
    and P: "(case txPool t of Some p \<Rightarrow> CHR 0x01 # poolBytes p | None \<Rightarrow> [CHR 0x00]) @ E t =
      (case txPool u of Some p \<Rightarrow> CHR 0x01 # poolBytes p | None \<Rightarrow> [CHR 0x00]) @ E u"
    unfolding v2Bytes_def tx_ok_def E_def G_def by (simp_all add: field_cancel)
  have pool: "txPool t = txPool u \<and> E t = E u"
  proof (cases "txPool t"; cases "txPool u")
    fix p q assume "txPool t = Some p" "txPool u = Some q"
    then show ?thesis using P ok poolBytes_cancel [OF _ _ hdE [of t] hdE [of u], of p q]
      by (simp add: tx_ok_def)
  qed (use P in simp_all)
  have escrow: "txEscrow t = txEscrow u \<and> G t = G u"
  proof (cases "txEscrow t"; cases "txEscrow u")
    fix x y assume "txEscrow t = Some x" "txEscrow u = Some y"
    then show ?thesis using pool ok escrowBytes_cancel [OF _ _ hdG(1) [of t] hdG(1) [of u], of x y]
      by (simp add: tx_ok_def E_def)
  next
    fix x assume "txEscrow t = None" "txEscrow u = Some x"
    then show ?thesis using pool hdG(2) [of t] by (simp add: E_def)
  next
    fix x assume "txEscrow t = Some x" "txEscrow u = None"
    then have "CHR 0x02 # escrowBytes x @ G t = G u" using pool by (simp add: E_def)
    then show ?thesis using hdG(2) [of u] by (metis starts_not_simps(2))
  qed (use pool in \<open>simp_all add: E_def\<close>)
  have "txGuard t = txGuard u"
  proof (cases "txGuard t"; cases "txGuard u")
    fix g h assume "txGuard t = Some g" "txGuard u = Some h"
    then show ?thesis using escrow ok guardBytes_cancel [of g h "[]" "[]"] by (simp add: tx_ok_def G_def)
  qed (use escrow in \<open>simp_all add: G_def\<close>)
  with kind asset pool escrow show ?thesis by simp
qed

lemma isV2_plain: "\<not> isV2 t \<Longrightarrow> txPool t = None \<and> txKind t = [] \<and> txAsset t = [] \<and>
    txEscrow t = None \<and> txGuard t = None"
  by (simp add: isV2_def)

lemma str_ok_literals: "str_ok ''openreserve/tx/v2''" "str_ok ''openreserve/tx/v1''" "str_ok ''openreserve/block/v1''"
  by (simp_all add: str_ok_def)

lemma SignBytes_inject_aux:
  assumes ok: "tx_ok t" "tx_ok u" and eq: "SignBytes t = SignBytes u"
  shows "t\<lparr>txSig := []\<rparr> = u\<lparr>txSig := []\<rparr>"
proof -
  have v2: "isV2 t = isV2 u"
    using eq by (auto simp: SignBytes_def str_code.cancel_iff str_ok_literals split: if_splits)
  have "txChainID t = txChainID u \<and> txFrom t = txFrom u \<and> txTo t = txTo u \<and> txAmount t = txAmount u \<and>
      txFee t = txFee u \<and> txNonce t = txNonce u \<and> txMemo t = txMemo u \<and> (isV2 t \<longrightarrow> v2Bytes t = v2Bytes u)"
    using eq ok v2 unfolding SignBytes_def tx_ok_def
    by (simp add: field_cancel str_ok_literals split: if_splits)
  moreover have "txKind t = txKind u \<and> txAsset t = txAsset u \<and> txPool t = txPool u \<and>
      txEscrow t = txEscrow u \<and> txGuard t = txGuard u"
    using calculation v2 v2Bytes_inject [OF ok] isV2_plain [of t] isV2_plain [of u] by (cases "isV2 t") auto
  ultimately show ?thesis by simp
qed

end
