(* ===== verification/Amounts.thy ===== *)
theory Amounts
  imports Encoding
begin

text \<open>
  \<open>FormatAmount\<close> and \<open>ParseAmount\<close> of node/types/types.go: micro-units to and from
  decimal ORP strings. The lemmas relate both to the number a digit string denotes.
\<close>

definition Unit :: amount where
  "Unit = 1000000"

definition digit :: "nat \<Rightarrow> char" where
  "digit d = char_of (48 + d)"

text \<open>The verb \<open>%d\<close> of a natural number, and \<open>%06d\<close>.\<close>

fun showNat :: "nat \<Rightarrow> string" where
  "showNat n = (if n < 10 then [digit n] else showNat (n div 10) @ [digit (n mod 10)])"

declare showNat.simps [simp del]

definition pad6 :: "nat \<Rightarrow> string" where
  "pad6 n = replicate (6 - length (showNat n)) (CHR ''0'') @ showNat n"

definition trimRight :: "char \<Rightarrow> string \<Rightarrow> string" where
  "trimRight c s = rev (dropWhile (\<lambda>x. x = c) (rev s))"

definition trimSuffix :: "char \<Rightarrow> string \<Rightarrow> string" where
  "trimSuffix c s = (if s \<noteq> [] \<and> last s = c then butlast s else s)"

definition FormatAmount :: "amount \<Rightarrow> string" where
  "FormatAmount a =
     trimSuffix (CHR ''.'')
       (trimRight (CHR ''0'') (showNat (unat (a div Unit)) @ CHR ''.'' # pad6 (unat (a mod Unit))))"

definition is_digit :: "char \<Rightarrow> bool" where
  "is_digit c = (let n = of_char c :: nat in 48 \<le> n \<and> n \<le> 57)"

definition digits :: "string \<Rightarrow> bool" where
  "digits s \<longleftrightarrow> s \<noteq> [] \<and> list_all is_digit s"

text \<open>The number a digit string denotes, and \<open>strconv.ParseUint(s, 10, 64)\<close> on digit strings.\<close>

definition dval :: "string \<Rightarrow> nat" where
  "dval s = foldl (\<lambda>a c. a * 10 + (of_char c - 48)) 0 s"

definition ParseUint :: "string \<Rightarrow> amount option" where
  "ParseUint s = (if dval s < 2 ^ 64 then Some (of_nat (dval s)) else None)"

definition ParseAmount :: "string \<Rightarrow> err + amount" where
  "ParseAmount s =
     (let dot = CHR ''.'' \<in> set s;
          whole = takeWhile (\<lambda>c. c \<noteq> CHR ''.'') s;
          frac = tl (dropWhile (\<lambda>c. c \<noteq> CHR ''.'') s)
      in if \<not> digits whole \<or> length frac > 6 \<or> (dot \<and> \<not> digits frac)
         then Inl (Err ''invalid amount (digits, at most 6 decimals)'')
         else case ParseUint whole of
           None \<Rightarrow> Inl (Err ''invalid amount (digits, at most 6 decimals)'')
         | Some w \<Rightarrow>
             (let f = (case ParseUint (frac @ replicate (6 - length frac) (CHR ''0'')) of None \<Rightarrow> 0 | Some f \<Rightarrow> f)
              in if w > (18446744073709551615 - f) div Unit then Inl (Err ''amount too large'')
                 else Inr (w * Unit + f)))"

subsection \<open>Digit strings\<close>

lemma of_char_digit: "d < 10 \<Longrightarrow> (of_char (digit d) :: nat) = 48 + d"
  by (simp add: digit_def)

lemma is_digit_digit [simp]: "d < 10 \<Longrightarrow> is_digit (digit d)"
  by (simp add: is_digit_def of_char_digit)

lemma is_digit_zero [simp]: "is_digit (CHR ''0'')" and dot_not_digit [simp]: "\<not> is_digit (CHR ''.'')"
  by (simp_all add: is_digit_def)

lemma dval_snoc: "dval (s @ [c]) = dval s * 10 + (of_char c - 48)"
  by (simp add: dval_def)

lemma dval_append: "dval (s @ t) = dval s * 10 ^ length t + dval t"
proof (induction t rule: rev_induct)
  case Nil
  then show ?case by (simp add: dval_def)
next
  case (snoc c t)
  then show ?case by (simp flip: append_assoc add: dval_snoc algebra_simps)
qed

lemma dval_zeros [simp]: "dval (replicate k (CHR ''0'')) = 0"
  by (induction k) (simp_all flip: replicate_append_same add: dval_snoc, simp add: dval_def)

lemma dval_showNat: "dval (showNat n) = n \<and> digits (showNat n)"
proof (induction n rule: showNat.induct)
  case (1 n)
  show ?case
  proof (cases "n < 10")
    case True
    then show ?thesis
      by (subst (1 2) showNat.simps) (simp add: dval_def digits_def of_char_digit)
  next
    case False
    with 1 show ?thesis
      by (subst (1 2) showNat.simps) (auto simp: dval_snoc digits_def of_char_digit)
  qed
qed

lemma dval_bound: "list_all is_digit s \<Longrightarrow> dval s < 10 ^ length s"
proof (induction s rule: rev_induct)
  case Nil
  then show ?case by (simp add: dval_def)
next
  case (snoc c s)
  then have "of_char c - 48 \<le> (9 :: nat)" by (auto simp: is_digit_def Let_def)
  with snoc show ?case by (simp add: dval_snoc)
qed

lemma length_showNat: "n < 10 ^ k \<Longrightarrow> 0 < k \<Longrightarrow> length (showNat n) \<le> k"
proof (induction n arbitrary: k rule: showNat.induct)
  case (1 n)
  show ?case
  proof (cases "n < 10")
    case True
    with "1.prems" show ?thesis by (subst showNat.simps) simp
  next
    case False
    with "1.prems" obtain j where j: "k = Suc j" "0 < j"
      by (cases k; cases "k - 1") auto
    with "1.prems" have "n div 10 < 10 ^ j" by (simp add: less_mult_imp_div_less mult.commute)
    with 1 False j have "length (showNat (n div 10)) \<le> j" by simp
    with False j show ?thesis by (subst showNat.simps) simp
  qed
qed

lemma pad6_props:
  assumes "n < 1000000"
  shows "length (pad6 n) = 6" and "dval (pad6 n) = n" and "list_all is_digit (pad6 n)"
proof -
  have "length (showNat n) \<le> 6" using assms length_showNat [of n 6] by simp
  then show "length (pad6 n) = 6" by (simp add: pad6_def)
  show "dval (pad6 n) = n" using dval_showNat [of n] by (simp add: pad6_def dval_append)
  show "list_all is_digit (pad6 n)" using dval_showNat [of n] by (auto simp: pad6_def digits_def list_all_iff)
qed

lemma trimRight_split:
  obtains k where "s = trimRight c s @ replicate k c"
proof -
  have "rev s = takeWhile (\<lambda>x. x = c) (rev s) @ dropWhile (\<lambda>x. x = c) (rev s)" by simp
  moreover have "takeWhile (\<lambda>x. x = c) (rev s) = replicate (length (takeWhile (\<lambda>x. x = c) (rev s))) c"
    by (intro replicate_eqI) (auto dest: set_takeWhileD)
  ultimately have "rev s = replicate (length (takeWhile (\<lambda>x. x = c) (rev s))) c @ rev (trimRight c s)"
    by (simp add: trimRight_def)
  then have "s = trimRight c s @ replicate (length (takeWhile (\<lambda>x. x = c) (rev s))) c"
    by (metis rev_append rev_replicate rev_rev_ident)
  then show ?thesis by (rule that)
qed

lemma trimRight_append:
  "trimRight c t \<noteq> [] \<Longrightarrow> trimRight c (s @ t) = s @ trimRight c t"
  "d \<noteq> c \<Longrightarrow> trimRight c (s @ d # t) = s @ d # trimRight c t"
  by (auto simp: trimRight_def dropWhile_append)

subsection \<open>Formatting and parsing\<close>

lemma FormatAmount_shape:
  defines "T a \<equiv> trimRight (CHR ''0'') (pad6 (unat (a mod Unit)))"
  shows "FormatAmount a = (if T a = [] then showNat (unat (a div Unit))
           else showNat (unat (a div Unit)) @ CHR ''.'' # T a)"
    and "list_all is_digit (T a)" and "length (T a) \<le> 6"
    and "dval (T a @ replicate (6 - length (T a)) (CHR ''0'')) = unat (a mod Unit)"
proof -
  let ?P = "pad6 (unat (a mod Unit))"
  have lt: "unat (a mod Unit) < 1000000"
    by (simp add: Unit_def unat_mod)
  obtain k where k: "?P = T a @ replicate k (CHR ''0'')"
    unfolding T_def using trimRight_split by blast
  have len: "length (T a) + k = 6" using pad6_props(1) [OF lt] k by (metis length_append length_replicate)
  show dig: "list_all is_digit (T a)" using pad6_props(3) [OF lt] k by (metis list_all_append)
  show "length (T a) \<le> 6" using len by simp
  have "6 - length (T a) = k" using len by simp
  then show "dval (T a @ replicate (6 - length (T a)) (CHR ''0'')) = unat (a mod Unit)"
    using pad6_props(2) [OF lt] k by simp
  have "last (T a) \<noteq> CHR ''.''" if "T a \<noteq> []"
    using dig that by (metis dot_not_digit last_in_set list_all_iff)
  then show "FormatAmount a = (if T a = [] then showNat (unat (a div Unit))
           else showNat (unat (a div Unit)) @ CHR ''.'' # T a)"
    unfolding FormatAmount_def trimSuffix_def T_def by (simp add: trimRight_append(2) butlast_append)
qed

lemma digits_no_dot: "list_all is_digit s \<Longrightarrow> CHR ''.'' \<notin> set s"
  by (auto simp: list_all_iff)

lemma takeWhile_digits:
  "list_all is_digit s \<Longrightarrow> takeWhile (\<lambda>c. c \<noteq> CHR ''.'') s = s"
  "list_all is_digit s \<Longrightarrow> dropWhile (\<lambda>c. c \<noteq> CHR ''.'') s = []"
  by (auto simp: list_all_iff takeWhile_eq_all_conv dropWhile_eq_Nil_conv)

lemma takeWhile_digits_dot:
  assumes "list_all is_digit s"
  shows "takeWhile (\<lambda>c. c \<noteq> CHR ''.'') (s @ CHR ''.'' # t) = s"
    and "dropWhile (\<lambda>c. c \<noteq> CHR ''.'') (s @ CHR ''.'' # t) = CHR ''.'' # t"
  using assms by (induction s) auto

lemma whole_frac_le: "a div Unit \<le> (18446744073709551615 - a mod Unit) div Unit"
proof -
  note b = unat64_le [of a]
  have f: "unat (a mod Unit) = unat a mod 1000000" by (simp add: Unit_def unat_mod)
  have "unat (18446744073709551615 - a mod Unit) = 18446744073709551615 - unat a mod 1000000"
    using b by (simp add: unat_sub word_le_nat_alt f)
  then have "unat ((18446744073709551615 - a mod Unit) div Unit) =
      (18446744073709551615 - unat a mod 1000000) div 1000000"
    by (simp add: unat_div Unit_def)
  moreover have "unat a div 1000000 \<le> (18446744073709551615 - unat a mod 1000000) div 1000000"
  proof -
    have "unat a div 1000000 * 1000000 + unat a mod 1000000 = unat a" by (rule div_mult_mod_eq)
    with b have "unat a div 1000000 * 1000000 \<le> 18446744073709551615 - unat a mod 1000000" by linarith
    then show ?thesis by (simp add: less_eq_div_iff_mult_less_eq)
  qed
  ultimately show ?thesis by (simp add: word_le_nat_alt unat_div Unit_def)
qed

text \<open>
  Formatting an amount and parsing the text back gives the same amount, for every one of
  the 2^64 amounts.
\<close>

theorem parse_format_amount: "ParseAmount (FormatAmount a) = Inr a"
proof -
  define T where "T = trimRight (CHR ''0'') (pad6 (unat (a mod Unit)))"
  define W where "W = showNat (unat (a div Unit))"
  note shape = FormatAmount_shape [of a, folded T_def W_def]
  have W: "dval W = unat (a div Unit)" "digits W" "list_all is_digit W"
    using dval_showNat [of "unat (a div Unit)"] by (simp_all add: W_def digits_def)
  have pw: "ParseUint W = Some (a div Unit)"
    using W unsigned_less [of "a div Unit"] by (simp add: ParseUint_def)
  have pf: "ParseUint (T @ replicate (6 - length T) (CHR ''0'')) = Some (a mod Unit)"
    using shape(4) unsigned_less [of "a mod Unit"] by (simp add: ParseUint_def)
  have r: "\<not> a div Unit > (18446744073709551615 - a mod Unit) div Unit"
    "a div Unit * Unit + a mod Unit = a"
    using whole_frac_le [of a] by (simp_all add: not_less word_mod_div_equality)
  show ?thesis
  proof (cases "T = []")
    case True
    then show ?thesis
      using shape(1) W pw pf r
      by (simp add: ParseAmount_def takeWhile_digits digits_no_dot)
  next
    case False
    with shape(2) have "digits T" by (simp add: digits_def)
    with False show ?thesis
      using shape(1,3) W pw pf r
      by (simp add: ParseAmount_def takeWhile_digits_dot)
  qed
qed

text \<open>
  A parsed amount is exact: the text has a digit part and at most six decimals, and the
  result is that number of micro-units with no 64-bit wrap-around.
\<close>

theorem parse_amount_exact:
  assumes "ParseAmount s = Inr a"
  shows "\<exists>w f. digits w \<and> list_all is_digit f \<and> length f \<le> 6 \<and>
     s = (if f = [] then w else w @ CHR ''.'' # f) \<and>
     unat a = dval w * 1000000 + dval (f @ replicate (6 - length f) (CHR ''0''))"
proof -
  define w where "w = takeWhile (\<lambda>c. c \<noteq> CHR ''.'') s"
  define f where "f = tl (dropWhile (\<lambda>c. c \<noteq> CHR ''.'') s)"
  let ?F = "f @ replicate (6 - length f) (CHR ''0'')"
  have s: "s = w @ dropWhile (\<lambda>c. c \<noteq> CHR ''.'') s" by (simp add: w_def)
  have c: "digits w" "length f \<le> 6" "CHR ''.'' \<in> set s \<longrightarrow> digits f"
    using assms unfolding ParseAmount_def w_def f_def by (auto simp: Let_def split: if_splits)
  have sf: "s = (if f = [] then w else w @ CHR ''.'' # f)"
  proof (cases "CHR ''.'' \<in> set s")
    case True
    with c have "f \<noteq> []" by (simp add: digits_def)
    moreover have "dropWhile (\<lambda>c. c \<noteq> CHR ''.'') s = CHR ''.'' # f"
      using True unfolding f_def by (induction s) auto
    ultimately show ?thesis using s by metis
  next
    case False
    then have tw: "takeWhile (\<lambda>c. c \<noteq> CHR ''.'') s = s" and dw: "dropWhile (\<lambda>c. c \<noteq> CHR ''.'') s = []"
      by (induction s) auto
    show ?thesis by (simp only: f_def w_def tw dw list.sel if_True simp_thms)
  qed
  have digF: "list_all is_digit f"
    using c sf by (cases "f = []") (auto simp: digits_def)
  have "list_all is_digit ?F" using digF by (auto simp: list_all_iff)
  from dval_bound [OF this] c(2) have F: "dval ?F < 1000000" by simp
  have wlt: "dval w < 2 ^ 64" and le: "\<not> of_nat (dval w) > (18446744073709551615 - of_nat (dval ?F)) div Unit"
    and a: "a = of_nat (dval w) * Unit + of_nat (dval ?F)"
    using assms F unfolding ParseAmount_def w_def [symmetric] f_def [symmetric]
    by (auto simp: Let_def ParseUint_def split: if_splits)
  have "dval w \<le> (18446744073709551615 - dval ?F) div 1000000"
    using le wlt F by (simp add: not_less word_le_nat_alt unat_div unat_sub unat_of_nat Unit_def)
  then have "dval w * 1000000 + dval ?F < 2 ^ 64"
    using F by (simp add: less_eq_div_iff_mult_less_eq)
  moreover have "a = of_nat (dval w * 1000000 + dval ?F)" by (simp add: a Unit_def)
  ultimately have "unat a = dval w * 1000000 + dval ?F" by (simp only: unat_of_nat64)
  with c digF sf show ?thesis by blast
qed

theorem parse_amount_exact_witness:
  "\<exists>w f. digits w \<and> ''12.5'' = (if f = [] then w else w @ CHR ''.'' # f) \<and>
     dval w * 1000000 + dval (f @ replicate (6 - length f) (CHR ''0'')) = 12500000"
proof -
  have "replicate 5 (CHR ''0'') = ''00000''" by (simp add: eval_nat_numeral)
  then have "ParseAmount ''12.5'' = Inr 12500000"
    by (simp add: ParseAmount_def Let_def digits_def is_digit_def ParseUint_def dval_def Unit_def
        word_less_nat_alt unat_div)
  from parse_amount_exact [OF this] obtain w f where wf: "digits w" "''12.5'' = (if f = [] then w else w @ CHR ''.'' # f)"
    "unat (12500000 :: amount) = dval w * 1000000 + dval (f @ replicate (6 - length f) (CHR ''0''))" by blast
  from wf(3) have "dval w * 1000000 + dval (f @ replicate (6 - length f) (CHR ''0'')) = 12500000" by simp
  with wf(1,2) show ?thesis by blast
qed

end
