(* ===== verification/Ledger_State.thy ===== *)
theory Ledger_State
  imports Amounts
begin

text \<open>
  The ledger state of node/ledger/ledger.go and guard.go: accounts, savings pools, escrows,
  recovery setups and the supply counters, with the balance operations every rule uses. A
  nil slice of the code is \<open>None\<close>, a nil map the empty map; the maps of pointers to pools,
  escrows and guardianships are maps of values, written back after each change.

  The interface \<open>balance_store\<close> says what the rules rely on: a write is read back, other
  entries are untouched, and the total per asset changes by the difference. It is interpreted
  on \<open>Balance\<close>, \<open>setBalance\<close> and the sum over all accounts.
\<close>

subsection \<open>Records\<close>

record Account =
  acBalance :: amount
  acNonce :: "64 word"
  acAssets :: "(string, amount) fmap"

record AssetDef =
  adSymbol :: string
  adName :: string
  adIssuer :: addr
  adMinFee :: amount
  adDecimals :: int

datatype PoolStatus = PoolForming | PoolActive | PoolDone | PoolCancelled

record Pool =
  pID :: hash
  pName :: string
  pAsset :: string
  pCreator :: addr
  pMembers :: "addr list"
  pContribution :: amount
  pJoined :: "bool list"
  pStatus :: PoolStatus
  pRound :: nat
  pPaid :: "bool list"
  pClaimed :: "bool list"
  pBalance :: amount
  pRoundSecs :: int
  pDeposit :: amount
  pStartedAt :: int
  pDeposits :: "amount list option"
  pDefaults :: "nat list option"
  pPaidOut :: "amount list option"
  pPrepaid :: "amount list option"
  pMode :: string
  pInsuranceBps :: "32 word"
  pInsurance :: amount
  pTarget :: amount
  pPaidAmt :: "amount list option"
  pBids :: "amount list option"
  pSaved :: "amount list option"
  pWithdrawn :: "bool list option"
  pSwapWith :: "addr list option"

datatype EscrowStatus =
  EscrowFunded | EscrowDispatched | EscrowDisputed | EscrowCompleted | EscrowRefunded | EscrowResolved

record Escrow =
  eID :: hash
  eRef :: string
  eAsset :: string
  eBuyer :: addr
  eSeller :: addr
  eArbiter :: addr
  eMilestones :: "amount list"
  eReleased :: nat
  eBalance :: amount
  eStatus :: EscrowStatus
  eCreatedAt :: int
  eShipBy :: int
  eReviewSecs :: int
  eDispatchedAt :: int
  eTracking :: string
  ePaidSeller :: amount
  ePaidBuyer :: amount
  eArbiterBps :: "32 word"
  eArbiterFee :: amount

record Recovery =
  rNewOwner :: addr
  rApprovals :: "addr list"
  rStartedAt :: int
  rReadyAt :: int

record Guardianship =
  gGuardians :: "addr list"
  gThreshold :: int
  gDelaySecs :: int
  gPending :: "Recovery option"

record State =
  stAccounts :: "(addr, Account) fmap"
  stPools :: "(hash, Pool) fmap"
  stSupply :: amount
  stBurned :: amount
  stMinFee :: amount
  stAssetDefs :: "(string, AssetDef) fmap"
  stAssetSupply :: "(string, amount) fmap"
  stEscrows :: "(hash, Escrow) fmap"
  stGuards :: "(addr, Guardianship) fmap"
  stRecoveredTo :: "(addr, addr) fmap"
  stNow :: int

subsection \<open>Accounts and balances\<close>

text \<open>The zero value a Go map lookup gives for a missing account or asset definition.\<close>

definition zeroAccount :: Account where
  "zeroAccount = \<lparr>acBalance = 0, acNonce = 0, acAssets = fmempty\<rparr>"

definition zeroAssetDef :: AssetDef where
  "zeroAssetDef = \<lparr>adSymbol = '''', adName = '''', adIssuer = '''', adMinFee = 0, adDecimals = 0\<rparr>"

definition New :: "amount \<Rightarrow> State" where
  "New minFee = \<lparr>stAccounts = fmempty, stPools = fmempty, stSupply = 0, stBurned = 0, stMinFee = minFee,
     stAssetDefs = fmempty, stAssetSupply = fmempty, stEscrows = fmempty, stGuards = fmempty,
     stRecoveredTo = fmempty, stNow = 0\<rparr>"

definition Get :: "State \<Rightarrow> addr \<Rightarrow> Account" where
  "Get s a = getd zeroAccount (stAccounts s) a"

definition accBalance :: "Account \<Rightarrow> string \<Rightarrow> amount" where
  "accBalance acc asset = (if asset = '''' then acBalance acc else getd 0 (acAssets acc) asset)"

definition Balance :: "State \<Rightarrow> addr \<Rightarrow> string \<Rightarrow> amount" where
  "Balance s a asset = accBalance (Get s a) asset"

definition accSetBalance :: "Account \<Rightarrow> string \<Rightarrow> amount \<Rightarrow> Account" where
  "accSetBalance acc asset v =
     (if asset = '''' then acc\<lparr>acBalance := v\<rparr>
      else if v = 0 then acc\<lparr>acAssets := fmdrop asset (acAssets acc)\<rparr>
      else acc\<lparr>acAssets := fmupd asset v (acAssets acc)\<rparr>)"

definition setBalance :: "State \<Rightarrow> addr \<Rightarrow> string \<Rightarrow> amount \<Rightarrow> State" where
  "setBalance s a asset v = s\<lparr>stAccounts := fmupd a (accSetBalance (Get s a) asset v) (stAccounts s)\<rparr>"

definition credit :: "State \<Rightarrow> addr \<Rightarrow> string \<Rightarrow> amount \<Rightarrow> State" where
  "credit s a asset v = setBalance s a asset (Balance s a asset + v)"

definition MinFeeFor :: "State \<Rightarrow> string \<Rightarrow> amount" where
  "MinFeeFor s asset =
     (if asset = '''' then stMinFee s else adMinFee (getd zeroAssetDef (stAssetDefs s) asset))"

text \<open>\<open>State.Credit\<close>: genesis allocation, checked for overflow.\<close>

definition CreditGenesis :: "State \<Rightarrow> addr \<Rightarrow> amount \<Rightarrow> err + State" where
  "CreditGenesis s a amt =
     (let acc = Get s a in
      if acBalance acc + amt < acBalance acc \<or> stSupply s + amt < stSupply s then Inl ErrOverflow
      else Inr (s\<lparr>stSupply := stSupply s + amt,
                  stAccounts := fmupd a (acc\<lparr>acBalance := acBalance acc + amt\<rparr>) (stAccounts s)\<rparr>))"

text \<open>What all accounts hold of an asset, as a machine word.\<close>

definition acctTotal :: "State \<Rightarrow> string \<Rightarrow> amount" where
  "acctTotal s asset = fmsum (\<lambda>acc. accBalance acc asset) (stAccounts s)"

subsection \<open>The interface the ledger rules rely on\<close>

locale balance_store =
  fixes bal :: "'s \<Rightarrow> addr \<Rightarrow> string \<Rightarrow> amount"
    and put :: "'s \<Rightarrow> addr \<Rightarrow> string \<Rightarrow> amount \<Rightarrow> 's"
    and tot :: "'s \<Rightarrow> string \<Rightarrow> amount"
    and add :: "'s \<Rightarrow> addr \<Rightarrow> string \<Rightarrow> amount \<Rightarrow> 's"
  assumes bal_put: "bal (put s a k v) b l = (if a = b \<and> k = l then v else bal s b l)"
    and tot_put: "tot (put s a k v) l = (if k = l then tot s l - bal s a k + v else tot s l)"
    and add_put: "add s a k v = put s a k (bal s a k + v)"
begin

lemma bal_add: "bal (add s a k v) b l = (if a = b \<and> k = l then bal s a k + v else bal s b l)"
  by (simp add: add_put bal_put)

lemma tot_add: "tot (add s a k v) l = tot s l + (if k = l then v else 0)"
  by (simp add: add_put tot_put)

lemma tot_debit: "tot (put s a k (bal s a k - v)) l = tot s l - (if k = l then v else 0)"
  by (simp add: tot_put)

text \<open>A loop of credits in one asset adds the sum of what it credits.\<close>

lemma tot_fold_add:
  "tot (fold (\<lambda>x s. if c x then add s (who x) k (amt x) else s) xs s) l =
   tot s l + (if k = l then sum_list (map (\<lambda>x. if c x then amt x else 0) xs) else 0)"
  by (induction xs arbitrary: s) (simp_all add: tot_add)

lemma bal_fold_add:
  "bal (fold (\<lambda>x s. if c x then add s (who x) k (amt x) else s) xs s) b l =
   bal s b l + (if k = l then sum_list (map (\<lambda>x. if c x \<and> who x = b then amt x else 0) xs) else 0)"
  by (induction xs arbitrary: s) (simp_all add: bal_add)

end

lemma accBalance_accSetBalance:
  "accBalance (accSetBalance acc k v) l = (if k = l then v else accBalance acc l)"
  by (auto simp: accBalance_def accSetBalance_def)

lemma Balance_setBalance:
  "Balance (setBalance s a k v) b l = (if a = b \<and> k = l then v else Balance s b l)"
  by (simp add: Balance_def setBalance_def Get_def accBalance_accSetBalance)

lemma Get_accBalance: "(case fmlookup (stAccounts s) a of None \<Rightarrow> 0 | Some acc \<Rightarrow> accBalance acc k) = Balance s a k"
  by (simp add: Balance_def Get_def getd_def zeroAccount_def accBalance_def split: option.split)

lemma acctTotal_setBalance:
  "acctTotal (setBalance s a k v) l = (if k = l then acctTotal s l - Balance s a k + v else acctTotal s l)"
proof -
  have "acctTotal (setBalance s a k v) l =
      acctTotal s l - Balance s a l + accBalance (accSetBalance (Get s a) k v) l"
    by (simp add: acctTotal_def setBalance_def fmsum_upd Get_accBalance)
  then show ?thesis by (simp add: accBalance_accSetBalance Balance_def)
qed

interpretation acct: balance_store Balance setBalance acctTotal credit
  by unfold_locales (simp_all add: Balance_setBalance acctTotal_setBalance credit_def)

lemmas money_simps = acct.bal_put acct.tot_put acct.bal_add acct.tot_add

subsection \<open>What the balance operations leave unchanged\<close>

lemma setBalance_frame [simp, frame_simps]:
  "stPools (setBalance s a k v) = stPools s" "stEscrows (setBalance s a k v) = stEscrows s"
  "stSupply (setBalance s a k v) = stSupply s" "stBurned (setBalance s a k v) = stBurned s"
  "stMinFee (setBalance s a k v) = stMinFee s" "stAssetDefs (setBalance s a k v) = stAssetDefs s"
  "stAssetSupply (setBalance s a k v) = stAssetSupply s" "stGuards (setBalance s a k v) = stGuards s"
  "stRecoveredTo (setBalance s a k v) = stRecoveredTo s" "stNow (setBalance s a k v) = stNow s"
  by (simp_all add: setBalance_def)

lemma credit_frame [simp, frame_simps]:
  "stPools (credit s a k v) = stPools s" "stEscrows (credit s a k v) = stEscrows s"
  "stSupply (credit s a k v) = stSupply s" "stBurned (credit s a k v) = stBurned s"
  "stMinFee (credit s a k v) = stMinFee s" "stAssetDefs (credit s a k v) = stAssetDefs s"
  "stAssetSupply (credit s a k v) = stAssetSupply s" "stGuards (credit s a k v) = stGuards s"
  "stRecoveredTo (credit s a k v) = stRecoveredTo s" "stNow (credit s a k v) = stNow s"
  by (simp_all add: credit_def)

lemma acNonce_setBalance [simp]: "acNonce (Get (setBalance s a k v) b) = acNonce (Get s b)"
  by (simp add: setBalance_def Get_def accSetBalance_def)

lemma acNonce_credit [simp]: "acNonce (Get (credit s a k v) b) = acNonce (Get s b)"
  by (simp add: credit_def)

text \<open>A step that changes nothing but what accounts hold: nonces and every other part stay.\<close>

definition accounts_only :: "State \<Rightarrow> State \<Rightarrow> bool" where
  "accounts_only s s' \<longleftrightarrow>
     stPools s' = stPools s \<and> stEscrows s' = stEscrows s \<and> stSupply s' = stSupply s \<and>
     stBurned s' = stBurned s \<and> stMinFee s' = stMinFee s \<and> stAssetDefs s' = stAssetDefs s \<and>
     stAssetSupply s' = stAssetSupply s \<and> stGuards s' = stGuards s \<and> stRecoveredTo s' = stRecoveredTo s \<and>
     stNow s' = stNow s \<and> (\<forall>b. acNonce (Get s' b) = acNonce (Get s b)) \<and>
     (\<forall>b. fmlookup (acAssets (Get s b)) '''' = None \<longrightarrow> fmlookup (acAssets (Get s' b)) '''' = None)"

lemma accounts_only_refl [simp]: "accounts_only s s"
  by (simp add: accounts_only_def)

lemma accounts_only_trans: "accounts_only s t \<Longrightarrow> accounts_only t u \<Longrightarrow> accounts_only s u"
  by (simp add: accounts_only_def)

lemma acAssets_setBalance:
  "fmlookup (acAssets (Get s b)) '''' = None \<Longrightarrow> fmlookup (acAssets (Get (setBalance s a k v) b)) '''' = None"
  by (simp add: setBalance_def Get_def accSetBalance_def)

lemma accounts_only_setBalance [simp]: "accounts_only s (setBalance s a k v)"
  by (simp add: accounts_only_def acAssets_setBalance)

lemma accounts_only_credit [simp]: "accounts_only s (credit s a k v)"
  by (simp add: credit_def)

lemmas accounts_only_frame = accounts_only_def [THEN iffD1]

end
