(* ===== verification/Pools.thy ===== *)
theory Pools
  imports Ledger_State
begin

text \<open>
  Savings pools (saving circles): node/ledger/circle.go and the pool part of
  node/ledger/ledger.go. A pool operation is checked first and its effect then computed, as
  the code's closures do; the result is an error or the new state and the new pool.

  Every per-member slice of a pool has the length of \<open>Members\<close> (part of \<open>wf_pool\<close>, in
  Pool\_Invariants, which every operation keeps), so list accesses are in range.
\<close>

subsection \<open>Reading a pool\<close>

definition paidSoFar :: "Pool \<Rightarrow> nat \<Rightarrow> amount" where
  "paidSoFar p j =
     (case pPaidAmt p of Some xs \<Rightarrow> xs ! j
      | None \<Rightarrow> if pPaid p ! j then pContribution p else 0)"

definition roundsLeft :: "Pool \<Rightarrow> nat \<Rightarrow> int" where
  "roundsLeft p i =
     (let n = int (length (pMembers p)) - int (pRound p) in
      if pStatus p = PoolActive \<and> pPaid p ! i then n - 1 else n)"

definition Scheduled :: "Pool \<Rightarrow> bool" where
  "Scheduled p \<longleftrightarrow> pRoundSecs p > 0"

definition DueAt :: "Pool \<Rightarrow> nat \<Rightarrow> int" where
  "DueAt p r = wrap64 (pStartedAt p + int (r + 1) * pRoundSecs p * 1000)"

definition sumOpt :: "amount list option \<Rightarrow> amount" where
  "sumOpt x = (case x of None \<Rightarrow> 0 | Some xs \<Rightarrow> sum_list xs)"

definition Held :: "Pool \<Rightarrow> amount" where
  "Held p = sumOpt (pDeposits p) + sumOpt (pPrepaid p) + pInsurance p"

definition Pot :: "Pool \<Rightarrow> amount" where
  "Pot p = pContribution p * of_nat (length (pMembers p))"

text \<open>\<open>slices.Index\<close>; \<open>None\<close> for -1.\<close>

fun indexFrom :: "nat \<Rightarrow> addr list \<Rightarrow> addr \<Rightarrow> nat option" where
  "indexFrom k [] a = None"
| "indexFrom k (x # xs) a = (if x = a then Some k else indexFrom (Suc k) xs a)"

definition index :: "Pool \<Rightarrow> addr \<Rightarrow> nat option" where
  "index p a = indexFrom 0 (pMembers p) a"

definition hasCircleState :: "Pool \<Rightarrow> bool" where
  "hasCircleState p \<longleftrightarrow> pMode p \<noteq> '''' \<or> pInsuranceBps p \<noteq> 0 \<or> pTarget p \<noteq> 0 \<or> pPaidAmt p \<noteq> None
     \<or> pBids p \<noteq> None \<or> pSaved p \<noteq> None \<or> pSwapWith p \<noteq> None"

text \<open>The loop of \<open>Recipient\<close>: the best bid so far and the first who has not collected.\<close>

fun recipientLoop :: "bool list \<Rightarrow> amount list \<Rightarrow> nat list \<Rightarrow> nat option \<Rightarrow> nat option \<Rightarrow> nat option" where
  "recipientLoop claimed bids [] best first = (case best of Some b \<Rightarrow> Some b | None \<Rightarrow> first)"
| "recipientLoop claimed bids (j # js) best first =
     (if claimed ! j then recipientLoop claimed bids js best first
      else recipientLoop claimed bids js
        (if bids ! j > 0 \<and> (case best of None \<Rightarrow> True | Some b \<Rightarrow> bids ! j > bids ! b) then Some j else best)
        (case first of None \<Rightarrow> Some j | Some f \<Rightarrow> Some f))"

definition Recipient :: "Pool \<Rightarrow> nat option" where
  "Recipient p =
     (if pMode p \<noteq> PoolBidding then Some (pRound p)
      else recipientLoop (pClaimed p) (case pBids p of None \<Rightarrow> [] | Some b \<Rightarrow> b)
             [0..<length (pMembers p)] None None)"

subsection \<open>Paying in\<close>

definition payIn :: "Pool \<Rightarrow> nat \<Rightarrow> amount \<Rightarrow> Pool" where
  "payIn p j amt =
     (let pa = (if pPaidAmt p = None \<and> amt < pContribution p
                then Some (map (\<lambda>paid. if paid then pContribution p else 0) (pPaid p))
                else pPaidAmt p)
      in case pa of
           Some xs \<Rightarrow> p\<lparr>pPaidAmt := Some (xs[j := xs ! j + amt]),
                        pPaid := (pPaid p)[j := (xs ! j + amt = pContribution p)],
                        pBalance := pBalance p + amt\<rparr>
         | None \<Rightarrow> p\<lparr>pPaid := (pPaid p)[j := True], pBalance := pBalance p + amt\<rparr>)"

definition autopayStep :: "nat \<Rightarrow> Pool \<Rightarrow> Pool" where
  "autopayStep j p =
     (case pPrepaid p of None \<Rightarrow> p
      | Some pre \<Rightarrow>
        (let need = pContribution p - paidSoFar p j in
         if \<not> pPaid p ! j \<and> pre ! j \<ge> need
         then payIn (p\<lparr>pPrepaid := Some (pre[j := pre ! j - need])\<rparr>) j need
         else p))"

definition autopay :: "Pool \<Rightarrow> Pool" where
  "autopay p =
     (if pPrepaid p = None \<or> pStatus p \<noteq> PoolActive then p
      else fold autopayStep [0..<length (pMembers p)] p)"

subsection \<open>Swapping turns and drawing the order\<close>

definition swapL :: "nat \<Rightarrow> nat \<Rightarrow> 'a list \<Rightarrow> 'a list" where
  "swapL i j xs = xs[i := xs ! j, j := xs ! i]"

definition swapIdx :: "nat \<Rightarrow> nat \<Rightarrow> Pool \<Rightarrow> Pool" where
  "swapIdx i j p = p\<lparr>
     pMembers := swapL i j (pMembers p), pJoined := swapL i j (pJoined p), pPaid := swapL i j (pPaid p),
     pClaimed := swapL i j (pClaimed p), pDeposits := map_option (swapL i j) (pDeposits p),
     pDefaults := map_option (swapL i j) (pDefaults p), pPaidOut := map_option (swapL i j) (pPaidOut p),
     pPrepaid := map_option (swapL i j) (pPrepaid p), pPaidAmt := map_option (swapL i j) (pPaidAmt p),
     pBids := map_option (swapL i j) (pBids p), pSaved := map_option (swapL i j) (pSaved p),
     pWithdrawn := map_option (swapL i j) (pWithdrawn p), pSwapWith := map_option (swapL i j) (pSwapWith p)\<rparr>"

fun drawLoop :: "(bytes \<Rightarrow> hash) \<Rightarrow> hash \<Rightarrow> nat \<Rightarrow> Pool \<Rightarrow> Pool" where
  "drawLoop sha seed 0 p = p"
| "drawLoop sha seed (Suc k) p =
     (let seed' = sha seed;
          r = be_val (take 8 seed') mod (Suc (Suc k))
      in drawLoop sha seed' k (swapIdx (Suc k) r p))"

definition drawOrder :: "(bytes \<Rightarrow> hash) \<Rightarrow> Pool \<Rightarrow> Pool" where
  "drawOrder sha p =
     drawLoop sha (sha (pID p @ u64be (word_of_int (pStartedAt p)))) (length (pMembers p) - 1) p"

subsection \<open>Payout\<close>

text \<open>One missed payment, covered from the member's deposit, then from the insurance.\<close>

definition coverDefault :: "nat \<Rightarrow> Pool \<Rightarrow> Pool" where
  "coverDefault j p =
     (if pPaid p ! j then p
      else
        let missing = pContribution p - paidSoFar p j;
            p1 = p\<lparr>pDefaults := map_option (\<lambda>ds. ds[j := ds ! j + 1]) (pDefaults p)\<rparr>
        in case pDeposits p of
             Some ds \<Rightarrow>
               if ds ! j \<ge> missing
               then p1\<lparr>pDeposits := Some (ds[j := ds ! j - missing]), pBalance := pBalance p + missing\<rparr>
               else if pInsurance p \<ge> missing
               then p1\<lparr>pInsurance := pInsurance p - missing, pBalance := pBalance p + missing\<rparr>
               else p1
           | None \<Rightarrow>
               if pInsurance p \<ge> missing
               then p1\<lparr>pInsurance := pInsurance p - missing, pBalance := pBalance p + missing\<rparr>
               else p1)"

text \<open>A share in basis points, rounded down, without overflowing the product.\<close>

definition bpsOf :: "amount \<Rightarrow> 32 word \<Rightarrow> amount" where
  "bpsOf a bps = a div 10000 * ucast bps + a mod 10000 * ucast bps div 10000"

definition payShare :: "Pool \<Rightarrow> nat \<Rightarrow> amount \<Rightarrow> nat \<Rightarrow> State \<times> amount \<Rightarrow> State \<times> amount" where
  "payShare p i share j sp =
     (if j \<noteq> i then (credit (fst sp) (pMembers p ! j) (pAsset p) share, snd sp - share) else sp)"

definition returnPrepaid :: "nat \<Rightarrow> State \<times> Pool \<Rightarrow> State \<times> Pool" where
  "returnPrepaid j sp =
     (case pPrepaid (snd sp) of None \<Rightarrow> sp
      | Some xs \<Rightarrow>
          if xs ! j > 0
          then (credit (fst sp) (pMembers (snd sp) ! j) (pAsset (snd sp)) (xs ! j),
                (snd sp)\<lparr>pPrepaid := Some (xs[j := 0])\<rparr>)
          else sp)"

definition returnDeposit :: "nat \<Rightarrow> State \<times> Pool \<Rightarrow> State \<times> Pool" where
  "returnDeposit j sp =
     (case pDeposits (snd sp) of None \<Rightarrow> sp
      | Some xs \<Rightarrow>
          if xs ! j > 0
          then (credit (fst sp) (pMembers (snd sp) ! j) (pAsset (snd sp)) (xs ! j),
                (snd sp)\<lparr>pDeposits := Some (xs[j := 0])\<rparr>)
          else sp)"

definition shareInsurance :: "State \<Rightarrow> Pool \<Rightarrow> State \<times> Pool" where
  "shareInsurance s p =
     (if pInsurance p > 0 then
        let n = length (pMembers p);
            share = pInsurance p div of_nat n
        in (fold (\<lambda>j s. credit s (pMembers p ! j) (pAsset p)
                    (if j = n - 1 then pInsurance p - share * (of_nat n - 1) else share)) [0..<n] s,
            p\<lparr>pInsurance := 0\<rparr>)
      else (s, p))"

text \<open>After the last payout: autopay money, deposits and insurance go back.\<close>

definition closePool :: "State \<Rightarrow> Pool \<Rightarrow> State \<times> Pool" where
  "closePool s p =
     (let sp = fold (\<lambda>j sp. returnDeposit j (returnPrepaid j sp)) [0..<length (pMembers p)]
                 (s, p\<lparr>pStatus := PoolDone\<rparr>)
      in shareInsurance (fst sp) (snd sp))"

text \<open>The insurance cut and the bidder's discount come off the pot before the recipient is paid.\<close>

definition takeInsurance :: "Pool \<Rightarrow> Pool \<times> amount" where
  "takeInsurance p =
     (let pot = pBalance p; cut = bpsOf pot (pInsuranceBps p) in
      if pInsuranceBps p > 0
      then (p\<lparr>pBalance := 0, pInsurance := pInsurance p + cut\<rparr>, pot - cut)
      else (p\<lparr>pBalance := 0\<rparr>, pot))"

definition shareDiscount :: "State \<Rightarrow> Pool \<Rightarrow> nat \<Rightarrow> amount \<Rightarrow> State \<times> amount" where
  "shareDiscount s p i pot =
     (let bid = (case pBids p of None \<Rightarrow> 0 | Some b \<Rightarrow> b ! i) in
      if pMode p = PoolBidding \<and> bid > 0 then
        let share = min bid pot div (of_nat (length (pMembers p)) - 1)
        in fold (payShare p i share) [0..<length (pMembers p)] (s, pot)
      else (s, pot))"

definition nextRound :: "nat \<Rightarrow> amount \<Rightarrow> Pool \<Rightarrow> Pool" where
  "nextRound i pot p = p\<lparr>
     pPaidOut := map_option (\<lambda>xs. xs[i := pot]) (pPaidOut p),
     pClaimed := (pClaimed p)[i := True], pRound := pRound p + 1,
     pPaid := map (\<lambda>_. False) (pPaid p), pPaidAmt := map_option (map (\<lambda>_. 0)) (pPaidAmt p),
     pBids := map_option (map (\<lambda>_. 0)) (pBids p)\<rparr>"

definition payout :: "State \<Rightarrow> Pool \<Rightarrow> nat \<Rightarrow> State \<times> Pool" where
  "payout s p i =
     (let p1 = fold coverDefault [0..<length (pMembers p)] p;
          (p2, pot) = takeInsurance p1;
          (s1, pot1) = shareDiscount s p2 i pot;
          s2 = credit s1 (pMembers p2 ! i) (pAsset p2) pot1;
          p3 = nextRound i pot1 p2
      in if pRound p3 < length (pMembers p3) then (s2, autopay p3) else closePool s2 p3)"

subsection \<open>Pool operations\<close>

definition newPool :: "State \<Rightarrow> Tx \<Rightarrow> PoolOp \<Rightarrow> hash \<Rightarrow> nat \<Rightarrow> Pool" where
  "newPool s tx op pid i =
     (let n = length (poMembers op);
          held = poRoundSecs op > 0 \<and> poMode op \<noteq> PoolGoal
      in \<lparr>pID = pid, pName = poName op, pAsset = txAsset tx, pCreator = txFrom tx, pMembers = poMembers op,
          pContribution = poContribution op, pJoined = (replicate n False)[i := True], pStatus = PoolForming,
          pRound = 0, pPaid = replicate n False, pClaimed = replicate n False, pBalance = 0,
          pRoundSecs = poRoundSecs op, pDeposit = poDeposit op, pStartedAt = 0,
          pDeposits = (if held then Some ((replicate n 0)[i := poDeposit op]) else None),
          pDefaults = (if held then Some (replicate n 0) else None),
          pPaidOut = (if held then Some (replicate n 0) else None),
          pPrepaid = None, pMode = poMode op, pInsuranceBps = poInsuranceBps op, pInsurance = 0,
          pTarget = poTarget op, pPaidAmt = None,
          pBids = (if poMode op = PoolBidding then Some (replicate n 0) else None),
          pSaved = (if poMode op = PoolGoal then Some (replicate n 0) else None),
          pWithdrawn = (if poMode op = PoolGoal then Some (replicate n False) else None),
          pSwapWith = None\<rparr>)"

definition poolJoin :: "(bytes \<Rightarrow> hash) \<Rightarrow> State \<Rightarrow> Pool \<Rightarrow> nat \<Rightarrow> err + State \<times> Pool" where
  "poolJoin sha s p i =
     (if pStatus p \<noteq> PoolForming \<or> pJoined p ! i then Inl (ErrPool ''already joined'')
      else
        let p1 = p\<lparr>pJoined := (pJoined p)[i := True],
                   pDeposits := map_option (\<lambda>ds. ds[i := pDeposit p]) (pDeposits p)\<rparr>
        in if False \<notin> set (pJoined p1) then
             (let p2 = p1\<lparr>pStatus := PoolActive, pStartedAt := stNow s\<rparr>;
                  p3 = (if pMode p2 = PoolLottery then drawOrder sha p2 else p2)
              in Inr (s, autopay p3))
           else Inr (s, p1))"

definition poolContribute :: "State \<Rightarrow> PoolOp \<Rightarrow> Pool \<Rightarrow> nat \<Rightarrow> err + State \<times> Pool" where
  "poolContribute s op p i =
     (if pStatus p \<noteq> PoolActive then Inl (ErrPool ''pool is not active'')
      else if pMode p = PoolGoal then
        (if poContribution op = 0 then Inl (ErrPool ''enter how much to save'')
         else if pBalance p + poContribution op < pBalance p then Inl ErrOverflow
         else
           let p1 = p\<lparr>pSaved := map_option (\<lambda>xs. xs[i := xs ! i + poContribution op]) (pSaved p),
                      pBalance := pBalance p + poContribution op\<rparr>
           in Inr (s, if pBalance p1 \<ge> pTarget p1 then p1\<lparr>pStatus := PoolDone\<rparr> else p1))
      else if pPaid p ! i then Inl (ErrPool ''already contributed this round'')
      else
        let rem = pContribution p - paidSoFar p i;
            amt = (if poContribution op = 0 then rem else poContribution op)
        in if amt > rem then Inl (ErrPool ''less is left to pay this round'')
           else Inr (s, payIn p i amt))"

definition poolClaim :: "State \<Rightarrow> Tx \<Rightarrow> Pool \<Rightarrow> nat \<Rightarrow> err + State \<times> Pool" where
  "poolClaim s tx p i =
     (if pMode p = PoolGoal then Inl (ErrPool ''goal circles have no payouts; use withdraw'')
      else if pStatus p \<noteq> PoolActive then Inl (ErrPool ''pool is not active'')
      else case Recipient p of None \<Rightarrow> Inl (Panic ''index out of range'')
      | Some who \<Rightarrow>
        if i \<noteq> who then Inl (ErrPool ''it is another member's turn'')
        else if False \<in> set (pPaid p) \<and> \<not> (Scheduled p \<and> stNow s \<ge> DueAt p (pRound p))
        then Inl (ErrPool ''waiting for all contributions'')
        else if Balance s (txFrom tx) (pAsset p) + Pot p < Balance s (txFrom tx) (pAsset p)
        then Inl ErrOverflow
        else Inr (payout s p i))"

definition poolBid :: "State \<Rightarrow> PoolOp \<Rightarrow> Pool \<Rightarrow> nat \<Rightarrow> err + State \<times> Pool" where
  "poolBid s op p i =
     (if pMode p \<noteq> PoolBidding then Inl (ErrPool ''only bidding circles take bids'')
      else if pStatus p \<noteq> PoolActive \<or> pClaimed p ! i then Inl (ErrPool ''you have already collected'')
      else if poContribution op > Pot p div 2 then Inl (ErrPool ''the discount can be at most half the pot'')
      else Inr (s, p\<lparr>pBids := map_option (\<lambda>b. b[i := poContribution op]) (pBids p)\<rparr>))"

definition poolSwap :: "State \<Rightarrow> Tx \<Rightarrow> PoolOp \<Rightarrow> Pool \<Rightarrow> nat \<Rightarrow> err + State \<times> Pool" where
  "poolSwap s tx op p i =
     (if pMode p = PoolGoal \<or> pMode p = PoolBidding
      then Inl (ErrPool ''this circle has no fixed turns to swap'')
      else if pStatus p \<noteq> PoolForming \<and> pStatus p \<noteq> PoolActive then Inl (ErrPool ''pool is over'')
      else case index p (poOther op) of
        None \<Rightarrow> Inl (ErrPool ''swap partner must be another member'')
      | Some j \<Rightarrow>
        if j = i then Inl (ErrPool ''swap partner must be another member'')
        else if pClaimed p ! i \<or> pClaimed p ! j
        then Inl (ErrPool ''only members who have not collected can swap'')
        else if pStatus p = PoolActive \<and> (i = pRound p \<or> j = pRound p)
        then Inl (ErrPool ''this round's turn cannot be swapped'')
        else
          let sw = (case pSwapWith p of None \<Rightarrow> replicate (length (pMembers p)) '''' | Some sw \<Rightarrow> sw);
              p1 = p\<lparr>pSwapWith := Some sw\<rparr>
          in if sw ! j = txFrom tx
             then let p2 = swapIdx i j p1
                  in Inr (s, p2\<lparr>pSwapWith := map_option (map (\<lambda>_. '''')) (pSwapWith p2)\<rparr>)
             else Inr (s, p1\<lparr>pSwapWith := Some (sw[i := poOther op])\<rparr>))"

definition poolWithdraw :: "State \<Rightarrow> Tx \<Rightarrow> Pool \<Rightarrow> nat \<Rightarrow> err + State \<times> Pool" where
  "poolWithdraw s tx p i =
     (if pMode p \<noteq> PoolGoal then Inl (ErrPool ''only goal circles allow withdrawals'')
      else
        let deadline = Scheduled p \<and> pStartedAt p > 0 \<and> stNow s \<ge> wrap64 (pStartedAt p + pRoundSecs p * 1000);
            saved = (case pSaved p of None \<Rightarrow> [] | Some xs \<Rightarrow> xs)
        in if pStatus p \<noteq> PoolDone \<and> \<not> deadline then Inl (ErrPool ''savings unlock when the goal is reached'')
           else if saved ! i = 0 then Inl (ErrPool ''nothing to withdraw'')
           else if Balance s (txFrom tx) (pAsset p) + saved ! i < Balance s (txFrom tx) (pAsset p)
           then Inl ErrOverflow
           else
             let s1 = credit s (txFrom tx) (pAsset p) (saved ! i);
                 p1 = p\<lparr>pBalance := pBalance p - saved ! i, pSaved := Some (saved[i := 0]),
                        pWithdrawn := map_option (\<lambda>w. w[i := True]) (pWithdrawn p)\<rparr>
             in Inr (s1, if pStatus p1 \<noteq> PoolDone \<and> (case pWithdrawn p1 of None \<Rightarrow> True | Some w \<Rightarrow> False \<notin> set w)
                         then p1\<lparr>pStatus := PoolDone\<rparr> else p1))"

definition poolAutopay :: "State \<Rightarrow> PoolOp \<Rightarrow> Pool \<Rightarrow> nat \<Rightarrow> err + State \<times> Pool" where
  "poolAutopay s op p i =
     (if pMode p = PoolGoal then Inl (ErrPool ''goal circles have no rounds'')
      else if pStatus p \<noteq> PoolForming \<and> pStatus p \<noteq> PoolActive then Inl (ErrPool ''pool is over'')
      else if pContribution p = 0 then Inl (Panic ''integer divide by zero'')
      else if poContribution op mod pContribution p \<noteq> 0
      then Inl (ErrPool ''autopay must be a whole number of contributions'')
      else
        let setAside = (case pPrepaid p of None \<Rightarrow> 0 | Some xs \<Rightarrow> xs ! i)
        in if wrap64 (sint (setAside div pContribution p) + sint (poContribution op div pContribution p)) > roundsLeft p i
           then Inl (ErrPool ''that is more than the rounds left to pay'')
           else
             let pre = (case pPrepaid p of None \<Rightarrow> replicate (length (pMembers p)) 0 | Some xs \<Rightarrow> xs)
             in Inr (s, autopay (p\<lparr>pPrepaid := Some (pre[i := pre ! i + poContribution op])\<rparr>)))"

definition poolCancel :: "State \<Rightarrow> Tx \<Rightarrow> Pool \<Rightarrow> err + State \<times> Pool" where
  "poolCancel s tx p =
     (if txFrom tx \<noteq> pCreator p then Inl (ErrPool ''only the organiser can delete the circle'')
      else if pStatus p \<noteq> PoolForming
      then Inl (ErrPool ''a circle that has started can't be deleted: members' money is in it'')
      else
        let sp = fold (\<lambda>j sp. returnPrepaid j (returnDeposit j sp)) [0..<length (pMembers p)] (s, p)
        in Inr (fst sp, (snd sp)\<lparr>pStatus := PoolCancelled\<rparr>))"

definition poolStopAutopay :: "State \<Rightarrow> Tx \<Rightarrow> Pool \<Rightarrow> nat \<Rightarrow> err + State \<times> Pool" where
  "poolStopAutopay s tx p i =
     (case pPrepaid p of None \<Rightarrow> Inl (ErrPool ''no autopay set up'')
      | Some xs \<Rightarrow>
        if xs ! i = 0 then Inl (ErrPool ''no autopay set up'')
        else Inr (credit s (txFrom tx) (pAsset p) (xs ! i), p\<lparr>pPrepaid := Some (xs[i := 0])\<rparr>))"

definition memberOp :: "(bytes \<Rightarrow> hash) \<Rightarrow> State \<Rightarrow> Tx \<Rightarrow> PoolOp \<Rightarrow> Pool \<Rightarrow> nat \<Rightarrow> err + State \<times> Pool" where
  "memberOp sha s tx op p i =
     (if poOp op = OpPoolJoin then poolJoin sha s p i
      else if poOp op = OpPoolContribute then poolContribute s op p i
      else if poOp op = OpPoolClaim then poolClaim s tx p i
      else if poOp op = OpPoolBid then poolBid s op p i
      else if poOp op = OpPoolSwap then poolSwap s tx op p i
      else if poOp op = OpPoolWithdraw then poolWithdraw s tx p i
      else if poOp op = OpPoolAutopay then poolAutopay s op p i
      else if poOp op = OpPoolCancel then poolCancel s tx p
      else if poOp op = OpPoolStopAutopay then poolStopAutopay s tx p i
      else Inl (Err ''unknown pool op''))"

definition putPool :: "hash \<Rightarrow> State \<times> Pool \<Rightarrow> State" where
  "putPool pid sp = (fst sp)\<lparr>stPools := fmupd pid (snd sp) (stPools (fst sp))\<rparr>"

definition poolOp :: "(bytes \<Rightarrow> hash) \<Rightarrow> State \<Rightarrow> Tx \<Rightarrow> PoolOp \<Rightarrow> err + State" where
  "poolOp sha s tx op =
     (if poOp op = OpPoolCreate then
        (let pid = ID sha tx in
         if fmlookup (stPools s) pid \<noteq> None then Inl (ErrPool ''pool already exists'')
         else case indexFrom 0 (poMembers op) (txFrom tx) of
           None \<Rightarrow> Inl (Panic ''index out of range'')
         | Some i \<Rightarrow> Inr (putPool pid (s, newPool s tx op pid i)))
      else case fmlookup (stPools s) (poID op) of
        None \<Rightarrow> Inl (ErrPool ''no such pool'')
      | Some p \<Rightarrow>
        (case index p (txFrom tx) of
           None \<Rightarrow> Inl (ErrPool ''not a member of this pool'')
         | Some i \<Rightarrow>
           if txAsset tx \<noteq> pAsset p then Inl (ErrPool ''this pool uses another asset'')
           else map_sum id (putPool (poID op)) (memberOp sha s tx op p i)))"

end
