(* ===== verification/Pool_Invariants.thy ===== *)
theory Pool_Invariants
  imports Pools
begin

text \<open>
  What a pool keeps true, and that every pool operation keeps it: all per-member slices have
  one entry per member, the balance is exactly what the members have paid this round (or
  saved, in a goal circle), \<open>Paid\<close> marks who has paid in full, and who has collected is who
  had a turn. Alongside, each operation's lemma says which money it moves.
\<close>

subsection \<open>The invariant\<close>

text \<open>What each member has paid this round, in both representations of the code.\<close>

definition paidList :: "Pool \<Rightarrow> amount list" where
  "paidList p =
     (case pPaidAmt p of Some xs \<Rightarrow> xs | None \<Rightarrow> map (\<lambda>b. if b then pContribution p else 0) (pPaid p))"

abbreviation members_n :: "Pool \<Rightarrow> nat" where
  "members_n p \<equiv> length (pMembers p)"

definition optLen :: "nat \<Rightarrow> 'a list option \<Rightarrow> bool" where
  "optLen n x \<longleftrightarrow> (case x of None \<Rightarrow> True | Some xs \<Rightarrow> length xs = n)"

lemma optLen_simps [simp]: "optLen n None" "optLen n (Some xs) \<longleftrightarrow> length xs = n"
  by (simp_all add: optLen_def)

lemma optLen_map [simp]: "(\<And>xs. length (f xs) = length xs) \<Longrightarrow> optLen n (map_option f x) \<longleftrightarrow> optLen n x"
  by (cases x) simp_all

definition pool_shape :: "Pool \<Rightarrow> bool" where
  "pool_shape p \<longleftrightarrow>
     length (pJoined p) = members_n p \<and> length (pPaid p) = members_n p \<and> length (pClaimed p) = members_n p \<and>
     optLen (members_n p) (pDeposits p) \<and> optLen (members_n p) (pDefaults p) \<and>
     optLen (members_n p) (pPaidOut p) \<and> optLen (members_n p) (pPrepaid p) \<and>
     optLen (members_n p) (pPaidAmt p) \<and> optLen (members_n p) (pBids p) \<and> optLen (members_n p) (pSaved p) \<and>
     optLen (members_n p) (pWithdrawn p) \<and> optLen (members_n p) (pSwapWith p)"

text \<open>The parts fixed when the pool is created (checked by \<open>checkPoolCreate\<close>).\<close>

definition pool_terms :: "Pool \<Rightarrow> bool" where
  "pool_terms p \<longleftrightarrow>
     2 \<le> members_n p \<and> members_n p \<le> 50 \<and> distinct (pMembers p) \<and> pContribution p \<noteq> 0 \<and>
     unat (pContribution p) * members_n p < 2 ^ 64 \<and>
     (pMode p = PoolBidding \<longrightarrow> pBids p \<noteq> None) \<and>
     (pMode p = PoolGoal \<longrightarrow> pSaved p \<noteq> None \<and> pWithdrawn p \<noteq> None \<and> pDeposits p = None \<and> pPrepaid p = None) \<and>
     (pDeposits p = None \<longrightarrow> pDeposit p = 0) \<and> unat (pInsuranceBps p) \<le> 1000 \<and>
     (pRoundSecs p > 0 \<and> pMode p \<noteq> PoolGoal \<longrightarrow> pDeposits p \<noteq> None \<and> pDefaults p \<noteq> None \<and> pPaidOut p \<noteq> None)"

text \<open>The balance is this round's payments, each at most the contribution.\<close>

definition pool_money :: "Pool \<Rightarrow> bool" where
  "pool_money p \<longleftrightarrow>
     (if pMode p = PoolGoal
      then (case pSaved p of None \<Rightarrow> False | Some xs \<Rightarrow> unat (pBalance p) = sum_list (map unat xs))
      else pPaid p = map (\<lambda>x. x = pContribution p) (paidList p) \<and>
           (\<forall>x\<in>set (paidList p). x \<le> pContribution p) \<and>
           unat (pBalance p) = sum_list (map unat (paidList p)))"

definition depositAt :: "Pool \<Rightarrow> nat \<Rightarrow> amount" where
  "depositAt p i = (case pDeposits p of None \<Rightarrow> 0 | Some ds \<Rightarrow> ds ! i)"

text \<open>Who has collected: nobody before the start; later one member per past round, in turn.\<close>

definition pool_turns :: "Pool \<Rightarrow> bool" where
  "pool_turns p \<longleftrightarrow>
     (pStatus p = PoolForming \<longrightarrow> pRound p = 0 \<and> True \<notin> set (pClaimed p) \<and> pInsurance p = 0 \<and>
        pBalance p = 0 \<and> pPaidAmt p = None \<and> True \<notin> set (pPaid p) \<and>
        (\<forall>i < members_n p. \<not> pJoined p ! i \<longrightarrow> depositAt p i = 0)) \<and>
     (pStatus p = PoolActive \<and> pMode p \<noteq> PoolGoal \<longrightarrow> pRound p < members_n p \<and>
        count_list (pClaimed p) True = pRound p \<and>
        (pMode p \<noteq> PoolBidding \<longrightarrow> (\<forall>i < members_n p. pClaimed p ! i \<longleftrightarrow> i < pRound p)))"

definition wf_pool :: "Pool \<Rightarrow> bool" where
  "wf_pool p \<longleftrightarrow> pool_shape p \<and> pool_terms p \<and> pool_money p \<and> pool_turns p"

lemmas wf_pool_defs = wf_pool_def pool_shape_def pool_terms_def pool_money_def pool_turns_def

subsection \<open>The money a pool holds, and steps that move it\<close>

text \<open>What \<open>Stats\<close> reports as saved in a circle: \<open>Balance + Held()\<close>.\<close>

definition poolValue :: "Pool \<Rightarrow> amount" where
  "poolValue p = pBalance p + Held p"

text \<open>The total of an asset over all accounts and one pool.\<close>

definition poolTotal :: "State \<times> Pool \<Rightarrow> string \<Rightarrow> amount" where
  "poolTotal sp k = acctTotal (fst sp) k + (if pAsset (snd sp) = k then poolValue (snd sp) else 0)"

text \<open>The parts of a pool no operation changes.\<close>

definition pool_fixed :: "Pool \<Rightarrow> Pool \<Rightarrow> bool" where
  "pool_fixed p p' \<longleftrightarrow> pID p' = pID p \<and> pAsset p' = pAsset p \<and> pCreator p' = pCreator p \<and>
     mset (pMembers p') = mset (pMembers p) \<and> pContribution p' = pContribution p \<and> pMode p' = pMode p \<and>
     pRoundSecs p' = pRoundSecs p \<and> pDeposit p' = pDeposit p \<and> pInsuranceBps p' = pInsuranceBps p \<and>
     pTarget p' = pTarget p"

lemma pool_fixed_refl [simp]: "pool_fixed p p"
  by (simp add: pool_fixed_def)

lemma pool_fixed_trans: "pool_fixed p q \<Longrightarrow> pool_fixed q r \<Longrightarrow> pool_fixed p r"
  by (simp add: pool_fixed_def)

lemma pool_fixed_length: "pool_fixed p p' \<Longrightarrow> members_n p' = members_n p"
  by (metis mset_eq_length pool_fixed_def)

text \<open>
  \<open>moves v sp sp'\<close>: from \<open>sp\<close> to \<open>sp'\<close> only account balances and the pool change, and
  the accounts and the pool together gain \<open>v\<close> (paid by the sender when the rule is applied).
\<close>

definition moves :: "amount \<Rightarrow> State \<times> Pool \<Rightarrow> State \<times> Pool \<Rightarrow> bool" where
  "moves v sp sp' \<longleftrightarrow> accounts_only (fst sp) (fst sp') \<and> pool_fixed (snd sp) (snd sp') \<and>
     (\<forall>k. poolTotal sp' k = poolTotal sp k + (if pAsset (snd sp) = k then v else 0))"

lemma moves_refl [simp]: "moves 0 sp sp"
  by (simp add: moves_def)

lemma moves_trans: "moves v sp sq \<Longrightarrow> moves w sq sr \<Longrightarrow> moves (v + w) sp sr"
  unfolding moves_def
  by (auto intro: accounts_only_trans pool_fixed_trans simp: pool_fixed_def)

lemma moves0_trans: "moves 0 sp sq \<Longrightarrow> moves 0 sq sr \<Longrightarrow> moves 0 sp sr"
  using moves_trans [of 0 sp sq 0 sr] by simp

lemma moves_pool:
  "pool_fixed p p' \<Longrightarrow> poolValue p' = poolValue p + v \<Longrightarrow> moves v (s, p) (s, p')"
  by (simp add: moves_def poolTotal_def pool_fixed_def)

text \<open>A loop of steps each of which moves money within the pool's world moves none in total.\<close>

lemma moves_fold:
  assumes "\<And>j sp. j \<in> set xs \<Longrightarrow> I (snd sp) \<Longrightarrow> moves 0 sp (f j sp) \<and> I (snd (f j sp))" and "I (snd sp)"
  shows "moves 0 sp (fold f xs sp) \<and> I (snd (fold f xs sp))"
proof (rule fold_invariant [where P = "\<lambda>sq. moves 0 sp sq \<and> I (snd sq)"])
  show "moves 0 sp sp \<and> I (snd sp)" using assms(2) by simp
next
  fix j sq assume "j \<in> set xs" "moves 0 sp sq \<and> I (snd sq)"
  then show "moves 0 sp (f j sq) \<and> I (snd (f j sq))"
    using assms(1) [of j sq] moves_trans [of 0 sp sq 0] by auto
qed

subsection \<open>Lists indexed by members\<close>

lemma indexFrom_Some: "indexFrom k ms a = Some i \<Longrightarrow> k \<le> i \<and> i < k + length ms \<and> ms ! (i - k) = a"
  by (induction k ms a rule: indexFrom.induct) (auto split: if_splits simp: nth_Cons' Suc_diff_le)

lemma index_Some: "index p a = Some i \<Longrightarrow> i < members_n p \<and> pMembers p ! i = a"
  unfolding index_def using indexFrom_Some [of 0 "pMembers p" a i] by simp

lemma length_swapL [simp]: "length (swapL i j xs) = length xs"
  by (simp add: swapL_def)

lemma mset_swapL: "i < length xs \<Longrightarrow> j < length xs \<Longrightarrow> mset (swapL i j xs) = mset xs"
  by (simp add: swapL_def mset_swap)

lemma set_swapL: "i < length xs \<Longrightarrow> j < length xs \<Longrightarrow> set (swapL i j xs) = set xs"
  by (metis mset_swapL set_mset_mset)

lemma map_swapL: "i < length xs \<Longrightarrow> j < length xs \<Longrightarrow> map f (swapL i j xs) = swapL i j (map f xs)"
  by (simp add: swapL_def map_update)

lemma sum_list_swapL:
  fixes xs :: "'a::comm_monoid_add list"
  shows "i < length xs \<Longrightarrow> j < length xs \<Longrightarrow> sum_list (swapL i j xs) = sum_list xs"
  by (metis mset_swapL sum_mset_sum_list)

lemma sumOpt_Some [simp]: "sumOpt (Some xs) = sum_list xs" and sumOpt_None [simp]: "sumOpt None = 0"
  by (simp_all add: sumOpt_def)

lemma sum_list_nat_upd:
  fixes xs :: "nat list"
  shows "i < length xs \<Longrightarrow> sum_list (xs[i := v]) + xs ! i = sum_list xs + v"
  by (induction xs arbitrary: i) (auto split: nat.split simp: nth_Cons)

lemma sum_list_le_bound: "(\<And>x. x \<in> set xs \<Longrightarrow> x \<le> (b :: nat)) \<Longrightarrow> sum_list xs \<le> b * length xs"
  by (induction xs) (simp_all add: add_mono)

subsection \<open>Paying in\<close>

lemma paidSoFar_paidList: "pool_shape p \<Longrightarrow> j < members_n p \<Longrightarrow> paidSoFar p j = paidList p ! j"
  by (auto simp: paidSoFar_def paidList_def pool_shape_def split: option.split)

lemma length_paidList: "pool_shape p \<Longrightarrow> length (paidList p) = members_n p"
  by (auto simp: paidList_def pool_shape_def optLen_def split: option.splits)

lemma payIn_frame [simp]:
  "pID (payIn p j a) = pID p" "pName (payIn p j a) = pName p" "pAsset (payIn p j a) = pAsset p"
  "pCreator (payIn p j a) = pCreator p" "pMembers (payIn p j a) = pMembers p"
  "pContribution (payIn p j a) = pContribution p" "pJoined (payIn p j a) = pJoined p"
  "pStatus (payIn p j a) = pStatus p" "pRound (payIn p j a) = pRound p" "pClaimed (payIn p j a) = pClaimed p"
  "pRoundSecs (payIn p j a) = pRoundSecs p" "pDeposit (payIn p j a) = pDeposit p"
  "pStartedAt (payIn p j a) = pStartedAt p" "pDeposits (payIn p j a) = pDeposits p"
  "pDefaults (payIn p j a) = pDefaults p" "pPaidOut (payIn p j a) = pPaidOut p"
  "pPrepaid (payIn p j a) = pPrepaid p" "pMode (payIn p j a) = pMode p"
  "pInsuranceBps (payIn p j a) = pInsuranceBps p" "pInsurance (payIn p j a) = pInsurance p"
  "pTarget (payIn p j a) = pTarget p" "pBids (payIn p j a) = pBids p" "pSaved (payIn p j a) = pSaved p"
  "pWithdrawn (payIn p j a) = pWithdrawn p" "pSwapWith (payIn p j a) = pSwapWith p"
  "pBalance (payIn p j a) = pBalance p + a"
  by (simp_all add: payIn_def split: option.split)

lemma payIn_shape: "pool_shape p \<Longrightarrow> pool_shape (payIn p j a)"
  by (auto simp: pool_shape_def payIn_def split: option.split)

text \<open>The marks agree with the amounts.\<close>

definition paid_marks :: "Pool \<Rightarrow> bool" where
  "paid_marks p \<longleftrightarrow> pPaid p = map (\<lambda>x. x = pContribution p) (paidList p) \<and>
     (\<forall>x\<in>set (paidList p). x \<le> pContribution p)"

lemma payIn_paidList:
  assumes sh: "pool_shape p" and j: "j < members_n p" and m: "paid_marks p" and c: "pContribution p \<noteq> 0"
    and unpaid: "\<not> pPaid p ! j" and amt: "a \<le> pContribution p - paidList p ! j"
  shows "paidList (payIn p j a) = (paidList p)[j := paidList p ! j + a]"
    and "pPaid (payIn p j a) = (pPaid p)[j := (paidList p ! j + a = pContribution p)]"
proof -
  have len: "length (paidList p) = members_n p" "length (pPaid p) = members_n p"
    using sh by (simp_all add: length_paidList pool_shape_def)
  have none: "paidList p ! j = 0" if "pPaidAmt p = None"
    using that unpaid j len by (simp add: paidList_def)
  have full: "a = pContribution p" if "pPaidAmt p = None" "\<not> a < pContribution p"
    using that amt none by simp
  show "pPaid (payIn p j a) = (pPaid p)[j := (paidList p ! j + a = pContribution p)]"
    using none full by (auto simp: payIn_def paidList_def split: option.split)
  show "paidList (payIn p j a) = (paidList p)[j := paidList p ! j + a]"
  proof (cases "pPaidAmt p = None \<and> \<not> a < pContribution p")
    case True
    then have a: "a = pContribution p" and z: "paidList p ! j = 0" using full none by simp_all
    have "pPaidAmt (payIn p j a) = None" using True by (simp add: payIn_def)
    then have "paidList (payIn p j a) = map (\<lambda>b. if b then pContribution p else 0) ((pPaid p)[j := True])"
      using True by (simp add: paidList_def payIn_def)
    with True a z show ?thesis by (simp add: paidList_def map_update)
  next
    case False
    then show ?thesis by (auto simp: payIn_def paidList_def split: option.split)
  qed
qed

lemma payIn_marks:
  assumes "pool_shape p" "j < members_n p" "paid_marks p" "pContribution p \<noteq> 0"
    "\<not> pPaid p ! j" "a \<le> pContribution p - paidList p ! j"
  shows "paid_marks (payIn p j a)"
proof -
  have len: "length (paidList p) = members_n p" using assms(1) by (rule length_paidList)
  have "paidList p ! j \<le> pContribution p" using assms(2,3) len by (simp add: paid_marks_def)
  then have "paidList p ! j + a \<le> pContribution p" using assms(6) by (rule word64_add_within)
  then show ?thesis
    using assms(3) payIn_paidList [OF assms]
    by (auto simp: paid_marks_def map_update dest!: set_update_subset_insert [THEN subsetD])
qed

text \<open>What all members paid this round, as an unbounded number.\<close>

abbreviation paidSum :: "Pool \<Rightarrow> nat" where
  "paidSum p \<equiv> sum_list (map unat (paidList p))"

lemma paidSum_bound:
  assumes "pool_shape p" "paid_marks p"
  shows "paidSum p \<le> unat (pContribution p) * members_n p"
  using sum_list_le_bound [of "map unat (paidList p)" "unat (pContribution p)"] assms
  by (auto simp: paid_marks_def word_le_nat_alt length_paidList)

lemma payIn_paidSum:
  assumes "pool_shape p" "j < members_n p" "paid_marks p" "pContribution p \<noteq> 0"
    "\<not> pPaid p ! j" "a \<le> pContribution p - paidList p ! j"
  shows "paidSum (payIn p j a) = paidSum p + unat a"
proof -
  have len: "length (paidList p) = members_n p" using assms(1) by (rule length_paidList)
  have "paidList p ! j \<le> pContribution p" using assms(2,3) len by (simp add: paid_marks_def)
  then have "unat (paidList p ! j + a) = unat (paidList p ! j) + unat a"
    using assms(6) by (rule word64_add_within)
  then show ?thesis
    using sum_list_nat_upd [of j "map unat (paidList p)" "unat (paidList p ! j + a)"] assms(2) len
    by (simp add: payIn_paidList [OF assms] map_update)
qed

lemma payIn_money:
  assumes "pool_shape p" "pool_terms p" "j < members_n p" "pool_money p" "pMode p \<noteq> PoolGoal"
    "\<not> pPaid p ! j" "a \<le> pContribution p - paidList p ! j"
  shows "pool_money (payIn p j a)"
proof -
  have m: "paid_marks p" and b: "unat (pBalance p) = paidSum p"
    using assms(4,5) by (simp_all add: pool_money_def paid_marks_def)
  have c: "pContribution p \<noteq> 0" using assms(2) by (simp add: pool_terms_def)
  note pay = assms(1,3) m c assms(6,7)
  have m': "paid_marks (payIn p j a)" by (rule payIn_marks [OF pay])
  have s': "paidSum (payIn p j a) = paidSum p + unat a" by (rule payIn_paidSum [OF pay])
  have "paidSum (payIn p j a) \<le> unat (pContribution p) * members_n p"
    using paidSum_bound [OF payIn_shape [OF assms(1)] m'] by simp
  also have "\<dots> < 2 ^ 64" using assms(2) by (simp add: pool_terms_def)
  finally have "unat (pBalance p + a) = unat (pBalance p) + unat a"
    using b s' by (intro unat_add64) simp
  then show ?thesis using m' s' b assms(5) by (simp add: pool_money_def paid_marks_def)
qed

lemma payIn_terms: "pool_terms p \<Longrightarrow> pool_terms (payIn p j a)"
  by (simp add: pool_terms_def)

lemma payIn_value: "poolValue (payIn p j a) = poolValue p + a"
  by (simp add: poolValue_def Held_def)

text \<open>The parts of \<open>wf_pool\<close> that a round in progress keeps.\<close>

definition round_ok :: "Pool \<Rightarrow> bool" where
  "round_ok p \<longleftrightarrow> pool_shape p \<and> pool_terms p \<and> pool_money p \<and> pMode p \<noteq> PoolGoal"

lemma round_okD:
  assumes "round_ok p"
  shows "pool_shape p" "pool_terms p" "pool_money p" "pMode p \<noteq> PoolGoal"
  using assms by (simp_all add: round_ok_def)

lemma paidList_le: "round_ok p \<Longrightarrow> j < members_n p \<Longrightarrow> paidList p ! j \<le> pContribution p"
  using length_paidList [of p] by (simp add: round_ok_def pool_money_def)

lemma payIn_round_ok:
  "round_ok p \<Longrightarrow> j < members_n p \<Longrightarrow> \<not> pPaid p ! j \<Longrightarrow> a \<le> pContribution p - paidList p ! j \<Longrightarrow>
   round_ok (payIn p j a)"
  by (simp add: round_ok_def payIn_money payIn_shape payIn_terms)

subsection \<open>Autopay\<close>

lemma paidSoFar_prepaid [simp]: "paidSoFar (p\<lparr>pPrepaid := x\<rparr>) j = paidSoFar p j"
  and paidList_prepaid [simp]: "paidList (p\<lparr>pPrepaid := x\<rparr>) = paidList p"
  by (simp_all add: paidSoFar_def paidList_def cong: if_cong option.case_cong)

lemma set_prepaid_round_ok: "round_ok p \<Longrightarrow> optLen (members_n p) x \<Longrightarrow> round_ok (p\<lparr>pPrepaid := x\<rparr>)"
  by (frule round_okD(1), drule length_paidList)
    (simp add: round_ok_def pool_shape_def pool_terms_def pool_money_def)

definition same_turns :: "Pool \<Rightarrow> Pool \<Rightarrow> bool" where
  "same_turns p p' \<longleftrightarrow> pool_fixed p p' \<and> pMembers p' = pMembers p \<and> pStatus p' = pStatus p \<and>
     pRound p' = pRound p \<and> pClaimed p' = pClaimed p \<and> pJoined p' = pJoined p \<and>
     pDeposits p' = pDeposits p \<and> pInsurance p' = pInsurance p \<and> pStartedAt p' = pStartedAt p"

lemma same_turns_refl [simp]: "same_turns p p"
  by (simp add: same_turns_def)

lemma same_turns_trans: "same_turns p q \<Longrightarrow> same_turns q r \<Longrightarrow> same_turns p r"
  by (auto simp: same_turns_def intro: pool_fixed_trans)

lemma autopayStep_ok:
  assumes "round_ok p" "j < members_n p"
  shows "round_ok (autopayStep j p) \<and> same_turns p (autopayStep j p) \<and>
    poolValue (autopayStep j p) = poolValue p"
proof (cases "pPrepaid p")
  case None
  then show ?thesis using assms by (simp add: autopayStep_def)
next
  case (Some pre)
  let ?need = "pContribution p - paidSoFar p j"
  show ?thesis
  proof (cases "\<not> pPaid p ! j \<and> pre ! j \<ge> ?need")
    case False
    then have "autopayStep j p = p" using Some by (auto simp: autopayStep_def Let_def)
    then show ?thesis using assms by simp
  next
    case True
    let ?q = "p\<lparr>pPrepaid := Some (pre[j := pre ! j - ?need])\<rparr>"
    have len: "length pre = members_n p" using assms(1) Some by (simp add: round_ok_def pool_shape_def)
    have q: "round_ok ?q" using assms(1) len by (intro set_prepaid_round_ok) simp_all
    have eq: "autopayStep j p = payIn ?q j ?need" using True Some by (simp add: autopayStep_def Let_def)
    have "?need = pContribution p - paidList p ! j"
      using assms round_okD(1) [OF assms(1)] by (simp add: paidSoFar_paidList)
    then have "round_ok (payIn ?q j ?need)" using q assms(2) True by (intro payIn_round_ok) simp_all
    moreover have "poolValue (payIn ?q j ?need) = poolValue p"
      using Some assms(2) len by (simp add: payIn_value) (simp add: poolValue_def Held_def sum_list_upd)
    ultimately show ?thesis by (simp add: eq same_turns_def pool_fixed_def)
  qed
qed

lemma autopay_ok:
  assumes "round_ok p"
  shows "round_ok (autopay p) \<and> same_turns p (autopay p) \<and> poolValue (autopay p) = poolValue p"
proof -
  have "round_ok (fold autopayStep [0..<members_n p] p) \<and> same_turns p (fold autopayStep [0..<members_n p] p)
      \<and> poolValue (fold autopayStep [0..<members_n p] p) = poolValue p"
  proof (rule fold_invariant)
    show "round_ok p \<and> same_turns p p \<and> poolValue p = poolValue p" using assms by simp
  next
    fix j q assume "j \<in> set [0..<members_n p]" "round_ok q \<and> same_turns p q \<and> poolValue q = poolValue p"
    then show "round_ok (autopayStep j q) \<and> same_turns p (autopayStep j q) \<and>
        poolValue (autopayStep j q) = poolValue p"
      using autopayStep_ok [of q j] same_turns_trans [of p q]
      by (auto simp: same_turns_def)
  qed
  then show ?thesis using assms by (simp add: autopay_def)
qed

lemma pool_turns_same:
  "same_turns p p' \<Longrightarrow> pStatus p \<noteq> PoolForming \<Longrightarrow> pool_turns p \<Longrightarrow> pool_turns p'"
  by (auto simp: same_turns_def pool_turns_def pool_fixed_def)

subsection \<open>Swapping seats\<close>

lemma swapL_nth: "i < length xs \<Longrightarrow> j < length xs \<Longrightarrow> k < length xs \<Longrightarrow>
    swapL i j xs ! k = xs ! (if k = i then j else if k = j then i else k)"
  by (simp add: swapL_def nth_list_update)

lemma swapIdx_frame [simp]:
  "pID (swapIdx i j p) = pID p" "pAsset (swapIdx i j p) = pAsset p" "pCreator (swapIdx i j p) = pCreator p"
  "pContribution (swapIdx i j p) = pContribution p" "pStatus (swapIdx i j p) = pStatus p"
  "pRound (swapIdx i j p) = pRound p" "pBalance (swapIdx i j p) = pBalance p"
  "pRoundSecs (swapIdx i j p) = pRoundSecs p" "pDeposit (swapIdx i j p) = pDeposit p"
  "pStartedAt (swapIdx i j p) = pStartedAt p" "pMode (swapIdx i j p) = pMode p"
  "pInsuranceBps (swapIdx i j p) = pInsuranceBps p" "pInsurance (swapIdx i j p) = pInsurance p"
  "pTarget (swapIdx i j p) = pTarget p" "length (pMembers (swapIdx i j p)) = length (pMembers p)"
  "pMembers (swapIdx i j p) = swapL i j (pMembers p)"
  by (simp_all add: swapIdx_def)

lemma swapIdx_fixed: "i < members_n p \<Longrightarrow> j < members_n p \<Longrightarrow> pool_fixed p (swapIdx i j p)"
  by (simp add: pool_fixed_def mset_swapL)

lemma distinct_swapL: "i < length xs \<Longrightarrow> j < length xs \<Longrightarrow> distinct (swapL i j xs) = distinct xs"
  by (simp add: swapL_def)

lemma swapIdx_shape: "pool_shape p \<Longrightarrow> pool_shape (swapIdx i j p)"
  by (simp add: pool_shape_def swapIdx_def)

lemma swapIdx_terms: "i < members_n p \<Longrightarrow> j < members_n p \<Longrightarrow> pool_terms p \<Longrightarrow> pool_terms (swapIdx i j p)"
  by (simp add: pool_terms_def swapIdx_def distinct_swapL)

lemma sumOpt_swapL:
  "optLen n x \<Longrightarrow> i < n \<Longrightarrow> j < n \<Longrightarrow> sumOpt (map_option (swapL i j) x) = sumOpt x"
  by (cases x) (simp_all add: sum_list_swapL)

lemma swapIdx_value:
  "pool_shape p \<Longrightarrow> i < members_n p \<Longrightarrow> j < members_n p \<Longrightarrow> poolValue (swapIdx i j p) = poolValue p"
  by (auto simp: poolValue_def Held_def swapIdx_def pool_shape_def sumOpt_swapL)

lemma paidList_swapIdx:
  "pool_shape p \<Longrightarrow> i < members_n p \<Longrightarrow> j < members_n p \<Longrightarrow>
   paidList (swapIdx i j p) = swapL i j (paidList p)"
  by (cases "pPaidAmt p") (simp_all add: paidList_def swapIdx_def pool_shape_def map_swapL cong: if_cong)

lemma swapIdx_money:
  assumes "pool_shape p" "i < members_n p" "j < members_n p" "pool_money p"
  shows "pool_money (swapIdx i j p)"
proof (cases "pMode p = PoolGoal")
  case True
  with assms show ?thesis
    by (cases "pSaved p") (auto simp: pool_money_def swapIdx_def pool_shape_def map_swapL sum_list_swapL)
next
  case False
  have "length (paidList p) = members_n p" using assms(1) by (rule length_paidList)
  then show ?thesis
    using assms False paidList_swapIdx [OF assms(1-3)]
    by (simp add: pool_money_def map_swapL sum_list_swapL set_swapL) (simp add: swapIdx_def map_swapL)
qed

text \<open>
  A seat is a member with everything tracked for it; the draw deals the seats anew and never
  splits one.
\<close>

definition seat :: "Pool \<Rightarrow> nat \<Rightarrow> addr \<times> bool \<times> bool \<times> bool \<times> amount option \<times> nat option \<times> amount option \<times>
    amount option \<times> amount option \<times> amount option \<times> amount option \<times> bool option \<times> addr option" where
  "seat p k = (pMembers p ! k, pJoined p ! k, pPaid p ! k, pClaimed p ! k,
     map_option (\<lambda>xs. xs ! k) (pDeposits p), map_option (\<lambda>xs. xs ! k) (pDefaults p),
     map_option (\<lambda>xs. xs ! k) (pPaidOut p), map_option (\<lambda>xs. xs ! k) (pPrepaid p),
     map_option (\<lambda>xs. xs ! k) (pPaidAmt p), map_option (\<lambda>xs. xs ! k) (pBids p),
     map_option (\<lambda>xs. xs ! k) (pSaved p), map_option (\<lambda>xs. xs ! k) (pWithdrawn p),
     map_option (\<lambda>xs. xs ! k) (pSwapWith p))"

definition seats :: "Pool \<Rightarrow> (addr \<times> bool \<times> bool \<times> bool \<times> amount option \<times> nat option \<times> amount option \<times>
    amount option \<times> amount option \<times> amount option \<times> amount option \<times> bool option \<times> addr option) multiset" where
  "seats p = mset (map (seat p) [0..<members_n p])"

lemma map_option_swapL_nth: "optLen n x \<Longrightarrow> i < n \<Longrightarrow> j < n \<Longrightarrow> k < n \<Longrightarrow>
    map_option (\<lambda>xs. xs ! k) (map_option (swapL i j) x) =
    map_option (\<lambda>xs. xs ! (if k = i then j else if k = j then i else k)) x"
  by (cases x) (simp_all add: swapL_nth)

lemma seat_swapIdx:
  assumes sh: "pool_shape p" and ij: "i < members_n p" "j < members_n p" and k: "k < members_n p"
  shows "seat (swapIdx i j p) k = seat p (if k = i then j else if k = j then i else k)"
proof -
  define k' where "k' = (if k = i then j else if k = j then i else k)"
  have lst: "length xs = members_n p \<Longrightarrow> swapL i j xs ! k = xs ! k'" for xs :: "'b list"
    using ij k by (simp add: swapL_nth k'_def)
  have opt: "optLen (members_n p) x \<Longrightarrow> map_option ((\<lambda>xs. xs ! k) \<circ> swapL i j) x = map_option (\<lambda>xs. xs ! k') x"
    for x :: "'b list option"
    using ij k by (cases x) (simp_all add: swapL_nth k'_def)
  show ?thesis
    using sh unfolding k'_def [symmetric]
    by (simp add: seat_def swapIdx_def pool_shape_def option.map_comp lst opt)
qed

lemma seats_swapIdx:
  assumes "pool_shape p" "i < members_n p" "j < members_n p"
  shows "seats (swapIdx i j p) = seats p"
proof -
  have "map (seat (swapIdx i j p)) [0..<members_n p] = swapL i j (map (seat p) [0..<members_n p])"
    using assms by (intro nth_equalityI) (simp_all add: seat_swapIdx swapL_nth)
  then show ?thesis using assms by (simp add: seats_def mset_swapL)
qed

text \<open>What dealing the seats anew keeps.\<close>

definition reseated :: "Pool \<Rightarrow> Pool \<Rightarrow> bool" where
  "reseated p q \<longleftrightarrow> pool_shape q \<and> pool_terms q \<and> pool_money q \<and> pool_fixed p q \<and> poolValue q = poolValue p \<and>
     seats q = seats p \<and> mset (pClaimed q) = mset (pClaimed p) \<and> mset (pJoined q) = mset (pJoined p) \<and>
     pStatus q = pStatus p \<and> pRound q = pRound p \<and> pStartedAt q = pStartedAt p \<and>
     pInsurance q = pInsurance p \<and> pBalance q = pBalance p"

lemma reseated_refl: "pool_shape p \<Longrightarrow> pool_terms p \<Longrightarrow> pool_money p \<Longrightarrow> reseated p p"
  by (simp add: reseated_def)

lemma reseated_swapIdx:
  assumes "pool_shape p" "pool_terms p" "pool_money p" "i < members_n p" "j < members_n p"
  shows "reseated p (swapIdx i j p)"
proof -
  have "mset (pClaimed (swapIdx i j p)) = mset (pClaimed p)" "mset (pJoined (swapIdx i j p)) = mset (pJoined p)"
    using assms by (simp_all add: swapIdx_def pool_shape_def mset_swapL)
  with assms show ?thesis
    by (simp add: reseated_def swapIdx_shape swapIdx_terms swapIdx_money swapIdx_fixed swapIdx_value
        seats_swapIdx del: swapIdx_frame(16))
qed

lemma reseated_trans: "reseated p q \<Longrightarrow> reseated q r \<Longrightarrow> reseated p r"
  by (auto simp: reseated_def intro: pool_fixed_trans)

lemma drawLoop_reseated:
  "pool_shape p \<Longrightarrow> pool_terms p \<Longrightarrow> pool_money p \<Longrightarrow> k < members_n p \<Longrightarrow> reseated p (drawLoop sha seed k p)"
proof (induction k arbitrary: seed p)
  case 0
  then show ?case by (simp add: reseated_refl)
next
  case (Suc k)
  define r where "r = be_val (take 8 (sha seed)) mod (Suc (Suc k))"
  have "r < Suc (Suc k)" unfolding r_def by simp
  then have "r < members_n p" using Suc.prems(4) by simp
  then have sw: "reseated p (swapIdx (Suc k) r p)" using Suc.prems by (intro reseated_swapIdx) simp_all
  have "reseated (swapIdx (Suc k) r p) (drawLoop sha (sha seed) k (swapIdx (Suc k) r p))"
    using sw Suc.prems(4) by (intro Suc.IH) (simp_all add: reseated_def)
  with sw have "reseated p (drawLoop sha (sha seed) k (swapIdx (Suc k) r p))" by (rule reseated_trans)
  then show ?case by (simp add: Let_def r_def)
qed

lemma drawOrder_reseated:
  "pool_shape p \<Longrightarrow> pool_terms p \<Longrightarrow> pool_money p \<Longrightarrow> reseated p (drawOrder sha p)"
  unfolding drawOrder_def by (rule drawLoop_reseated) (auto simp: pool_terms_def)

subsection \<open>Covering missed payments\<close>

definition covered :: "Pool \<Rightarrow> Pool \<Rightarrow> bool" where
  "covered p q \<longleftrightarrow> pool_fixed p q \<and> pMembers q = pMembers p \<and> pJoined q = pJoined p \<and> pStatus q = pStatus p \<and>
     pRound q = pRound p \<and> pPaid q = pPaid p \<and> pClaimed q = pClaimed p \<and> pStartedAt q = pStartedAt p \<and>
     pPaidOut q = pPaidOut p \<and> pPrepaid q = pPrepaid p \<and> pPaidAmt q = pPaidAmt p \<and> pBids q = pBids p \<and>
     pSaved q = pSaved p \<and> pWithdrawn q = pWithdrawn p \<and> pSwapWith q = pSwapWith p \<and>
     optLen (members_n p) (pDefaults q) \<and> optLen (members_n p) (pDeposits q) \<and>
     (pDeposits q = None \<longleftrightarrow> pDeposits p = None) \<and> (pDefaults q = None \<longleftrightarrow> pDefaults p = None) \<and>
     poolValue q = poolValue p"

lemma covered_refl: "pool_shape p \<Longrightarrow> covered p p"
  by (simp add: covered_def pool_shape_def)

lemma covered_shape: "covered p q \<Longrightarrow> pool_shape p \<Longrightarrow> pool_shape q"
  by (simp add: covered_def pool_shape_def)

lemma covered_terms: "covered p q \<Longrightarrow> pool_terms p \<Longrightarrow> pool_terms q"
  by (simp add: covered_def pool_terms_def pool_fixed_def)

lemma covered_trans: "covered p q \<Longrightarrow> covered q r \<Longrightarrow> covered p r"
  unfolding covered_def by (simp add: pool_fixed_def)

lemma coverDefault_covered:
  assumes "pool_shape p" "j < members_n p"
  shows "covered p (coverDefault j p)"
proof (cases "pPaid p ! j")
  case True
  then show ?thesis using covered_refl [OF assms(1)] by (simp add: coverDefault_def)
next
  case False
  have len: "length ds = members_n p" if "pDeposits p = Some ds" for ds
    using assms(1) that by (simp add: pool_shape_def)
  have "poolValue (coverDefault j p) = poolValue p"
    using False assms(2) len
    by (auto simp: coverDefault_def Let_def poolValue_def Held_def sum_list_upd split: option.split)
  with False assms show ?thesis
    by (auto simp: covered_def coverDefault_def Let_def pool_fixed_def pool_shape_def split: option.split)
qed

lemma cover_all:
  assumes "pool_shape p"
  shows "covered p (fold coverDefault [0..<members_n p] p)"
proof (rule fold_invariant)
  show "covered p p" by (rule covered_refl [OF assms])
next
  fix j q assume j: "j \<in> set [0..<members_n p]" and q: "covered p q"
  have "covered q (coverDefault j q)"
    using j q covered_shape [OF q assms] by (intro coverDefault_covered) (auto simp: covered_def)
  with q show "covered p (coverDefault j q)" by (rule covered_trans)
qed

subsection \<open>Giving deposits, autopay money and insurance back\<close>

definition prepaidAt :: "Pool \<Rightarrow> nat \<Rightarrow> amount" where
  "prepaidAt p i = (case pPrepaid p of None \<Rightarrow> 0 | Some ds \<Rightarrow> ds ! i)"

definition refunded :: "Pool \<Rightarrow> Pool \<Rightarrow> bool" where
  "refunded p q \<longleftrightarrow> pool_fixed p q \<and> pMembers q = pMembers p \<and> pJoined q = pJoined p \<and> pStatus q = pStatus p \<and>
     pRound q = pRound p \<and> pPaid q = pPaid p \<and> pClaimed q = pClaimed p \<and> pStartedAt q = pStartedAt p \<and>
     pBalance q = pBalance p \<and> pInsurance q = pInsurance p \<and> pDefaults q = pDefaults p \<and>
     pPaidOut q = pPaidOut p \<and> pPaidAmt q = pPaidAmt p \<and> pBids q = pBids p \<and>
     pSaved q = pSaved p \<and> pWithdrawn q = pWithdrawn p \<and> pSwapWith q = pSwapWith p \<and>
     optLen (members_n p) (pPrepaid q) \<and> optLen (members_n p) (pDeposits q) \<and>
     (pPrepaid q = None \<longleftrightarrow> pPrepaid p = None) \<and> (pDeposits q = None \<longleftrightarrow> pDeposits p = None) \<and>
     (\<forall>k < members_n p. depositAt p k = 0 \<longrightarrow> depositAt q k = 0) \<and>
     (\<forall>k < members_n p. prepaidAt p k = 0 \<longrightarrow> prepaidAt q k = 0)"

lemma refunded_refl: "pool_shape p \<Longrightarrow> refunded p p"
  by (simp add: refunded_def pool_shape_def)

lemma refunded_trans: "refunded p q \<Longrightarrow> refunded q r \<Longrightarrow> refunded p r"
  unfolding refunded_def by (simp add: pool_fixed_def)

lemma refunded_shape: "refunded p q \<Longrightarrow> pool_shape p \<Longrightarrow> pool_shape q"
  by (simp add: refunded_def pool_shape_def)

lemma refunded_terms: "refunded p q \<Longrightarrow> pool_terms p \<Longrightarrow> pool_terms q"
  by (simp add: refunded_def pool_terms_def pool_fixed_def)

lemma refunded_money: "refunded p q \<Longrightarrow> pool_money p \<Longrightarrow> pool_money q"
  by (simp add: refunded_def pool_money_def pool_fixed_def paidList_def cong: if_cong option.case_cong)

lemma moves_pay_out:
  assumes "pool_fixed p q" "poolValue q + v = poolValue p"
  shows "moves 0 (s, p) (credit s a (pAsset p) v, q)"
  using assms by (auto simp: moves_def poolTotal_def money_simps pool_fixed_def algebra_simps)

lemma returnDeposit_ok:
  assumes "pool_shape (snd sp)" "j < members_n (snd sp)"
  shows "moves 0 sp (returnDeposit j sp)" "refunded (snd sp) (snd (returnDeposit j sp))"
    "depositAt (snd (returnDeposit j sp)) j = 0"
proof -
  obtain s p where sp: "sp = (s, p)" by (cases sp)
  show "refunded (snd sp) (snd (returnDeposit j sp))"
    using assms by (auto simp: sp returnDeposit_def refunded_def pool_shape_def pool_fixed_def depositAt_def
        prepaidAt_def nth_list_update split: option.split)
  show "depositAt (snd (returnDeposit j sp)) j = 0"
    using assms by (auto simp: sp returnDeposit_def depositAt_def pool_shape_def word_gt_0 split: option.split)
  show "moves 0 sp (returnDeposit j sp)"
  proof (cases "pDeposits p")
    case None
    then show ?thesis by (simp add: sp returnDeposit_def)
  next
    case (Some xs)
    have "moves 0 (s, p) (credit s (pMembers p ! j) (pAsset p) (xs ! j), p\<lparr>pDeposits := Some (xs[j := 0])\<rparr>)"
      using assms Some by (intro moves_pay_out)
        (simp_all add: sp pool_fixed_def poolValue_def Held_def sum_list_upd pool_shape_def algebra_simps)
    with Some show ?thesis by (simp add: sp returnDeposit_def)
  qed
qed

lemma returnPrepaid_ok:
  assumes "pool_shape (snd sp)" "j < members_n (snd sp)"
  shows "moves 0 sp (returnPrepaid j sp)" "refunded (snd sp) (snd (returnPrepaid j sp))"
    "prepaidAt (snd (returnPrepaid j sp)) j = 0"
proof -
  obtain s p where sp: "sp = (s, p)" by (cases sp)
  show "refunded (snd sp) (snd (returnPrepaid j sp))"
    using assms by (auto simp: sp returnPrepaid_def refunded_def pool_shape_def pool_fixed_def depositAt_def
        prepaidAt_def nth_list_update split: option.split)
  show "prepaidAt (snd (returnPrepaid j sp)) j = 0"
    using assms by (auto simp: sp returnPrepaid_def prepaidAt_def pool_shape_def word_gt_0 split: option.split)
  show "moves 0 sp (returnPrepaid j sp)"
  proof (cases "pPrepaid p")
    case None
    then show ?thesis by (simp add: sp returnPrepaid_def)
  next
    case (Some xs)
    have "moves 0 (s, p) (credit s (pMembers p ! j) (pAsset p) (xs ! j), p\<lparr>pPrepaid := Some (xs[j := 0])\<rparr>)"
      using assms Some by (intro moves_pay_out)
        (simp_all add: sp pool_fixed_def poolValue_def Held_def sum_list_upd pool_shape_def algebra_simps)
    with Some show ?thesis by (simp add: sp returnPrepaid_def)
  qed
qed

text \<open>A loop that gives every member's money back, in either order per member.\<close>

definition gives_back :: "(nat \<Rightarrow> State \<times> Pool \<Rightarrow> State \<times> Pool) \<Rightarrow> bool" where
  "gives_back f \<longleftrightarrow> (\<forall>j sp. pool_shape (snd sp) \<longrightarrow> j < members_n (snd sp) \<longrightarrow>
     moves 0 sp (f j sp) \<and> refunded (snd sp) (snd (f j sp)) \<and>
     depositAt (snd (f j sp)) j = 0 \<and> prepaidAt (snd (f j sp)) j = 0)"

lemma gives_backD:
  assumes "gives_back f" "pool_shape (snd sp)" "j < members_n (snd sp)"
  shows "moves 0 sp (f j sp)" "refunded (snd sp) (snd (f j sp))"
    "depositAt (snd (f j sp)) j = 0" "prepaidAt (snd (f j sp)) j = 0"
  using assms unfolding gives_back_def by blast+

lemma gives_back_both:
  "gives_back (\<lambda>j sp. returnDeposit j (returnPrepaid j sp))"
  "gives_back (\<lambda>j sp. returnPrepaid j (returnDeposit j sp))"
proof -
  have *: "moves 0 sp sr \<and> refunded (snd sp) (snd sr)"
    if "moves 0 sp sq" "moves 0 sq sr" "refunded (snd sp) (snd sq)" "refunded (snd sq) (snd sr)" for sp sq sr
    using that moves_trans [of 0 sp sq 0 sr] refunded_trans by auto
  show "gives_back (\<lambda>j sp. returnDeposit j (returnPrepaid j sp))"
    unfolding gives_back_def
  proof (intro allI impI)
    fix j and sp :: "State \<times> Pool" assume a: "pool_shape (snd sp)" "j < members_n (snd sp)"
    let ?sq = "returnPrepaid j sp"
    note 1 = returnPrepaid_ok [OF a]
    have b: "pool_shape (snd ?sq)" "j < members_n (snd ?sq)"
      using 1(2) a by (simp_all add: refunded_shape) (simp add: refunded_def)
    note 2 = returnDeposit_ok [OF b]
    show "moves 0 sp (returnDeposit j ?sq) \<and> refunded (snd sp) (snd (returnDeposit j ?sq)) \<and>
        depositAt (snd (returnDeposit j ?sq)) j = 0 \<and> prepaidAt (snd (returnDeposit j ?sq)) j = 0"
      using * [OF 1(1) 2(1) 1(2) 2(2)] 1(3) 2(2,3) b(2) by (simp add: refunded_def)
  qed
  show "gives_back (\<lambda>j sp. returnPrepaid j (returnDeposit j sp))"
    unfolding gives_back_def
  proof (intro allI impI)
    fix j and sp :: "State \<times> Pool" assume a: "pool_shape (snd sp)" "j < members_n (snd sp)"
    let ?sq = "returnDeposit j sp"
    note 1 = returnDeposit_ok [OF a]
    have b: "pool_shape (snd ?sq)" "j < members_n (snd ?sq)"
      using 1(2) a by (simp_all add: refunded_shape) (simp add: refunded_def)
    note 2 = returnPrepaid_ok [OF b]
    show "moves 0 sp (returnPrepaid j ?sq) \<and> refunded (snd sp) (snd (returnPrepaid j ?sq)) \<and>
        depositAt (snd (returnPrepaid j ?sq)) j = 0 \<and> prepaidAt (snd (returnPrepaid j ?sq)) j = 0"
      using * [OF 1(1) 2(1) 1(2) 2(2)] 1(3) 2(2,3) b(2) by (simp add: refunded_def)
  qed
qed

lemma give_back_loop:
  assumes f: "gives_back f" and sh: "pool_shape p"
  shows "m \<le> members_n p \<Longrightarrow>
    moves 0 (s, p) (fold f [0..<m] (s, p)) \<and> refunded p (snd (fold f [0..<m] (s, p))) \<and>
    (\<forall>k < m. depositAt (snd (fold f [0..<m] (s, p))) k = 0 \<and> prepaidAt (snd (fold f [0..<m] (s, p))) k = 0)"
proof (induction m)
  case 0
  then show ?case using sh by (simp add: refunded_refl)
next
  case (Suc m)
  let ?q = "fold f [0..<m] (s, p)"
  have q: "moves 0 (s, p) ?q" "refunded p (snd ?q)"
    "\<forall>k < m. depositAt (snd ?q) k = 0 \<and> prepaidAt (snd ?q) k = 0" using Suc by simp_all
  have n: "members_n (snd ?q) = members_n p" using q(2) by (simp add: refunded_def)
  have shq: "pool_shape (snd ?q)" using q(2) sh by (rule refunded_shape)
  have r: "moves 0 ?q (f m ?q)" "refunded (snd ?q) (snd (f m ?q))"
    "depositAt (snd (f m ?q)) m = 0" "prepaidAt (snd (f m ?q)) m = 0"
    using gives_backD [OF f shq] n Suc.prems by simp_all
  have "moves 0 (s, p) (f m ?q)" using moves_trans [OF q(1) r(1)] by simp
  moreover have "refunded p (snd (f m ?q))" using q(2) r(2) by (rule refunded_trans)
  moreover have "depositAt (snd (f m ?q)) k = 0 \<and> prepaidAt (snd (f m ?q)) k = 0" if "k < Suc m" for k
    using that q(3) r n Suc.prems by (cases "k = m") (simp_all add: refunded_def)
  ultimately show ?case by simp
qed

lemma sum_list_all_zero: "\<forall>x\<in>set xs. x = 0 \<Longrightarrow> sum_list xs = (0 :: 'a::comm_monoid_add)"
  by (induction xs) simp_all

lemma held_zero:
  assumes "pool_shape p" "\<forall>k < members_n p. depositAt p k = 0 \<and> prepaidAt p k = 0"
  shows "Held p = pInsurance p"
proof -
  have "sumOpt (pDeposits p) = 0"
    using assms by (cases "pDeposits p") (auto simp: pool_shape_def depositAt_def in_set_conv_nth intro!: sum_list_all_zero)
  moreover have "sumOpt (pPrepaid p) = 0"
    using assms by (cases "pPrepaid p") (auto simp: pool_shape_def prepaidAt_def in_set_conv_nth intro!: sum_list_all_zero)
  ultimately show ?thesis by (simp add: Held_def)
qed

lemma shareInsurance_moves:
  assumes "2 \<le> members_n p"
  shows "moves 0 (s, p) (shareInsurance s p)"
    and "snd (shareInsurance s p) = (if pInsurance p > 0 then p\<lparr>pInsurance := 0\<rparr> else p)"
proof -
  let ?n = "members_n p" and ?ins = "pInsurance p"
  let ?sh = "?ins div of_nat ?n"
  let ?v = "\<lambda>j. if j = ?n - 1 then ?ins - ?sh * (of_nat ?n - 1) else ?sh"
  let ?s' = "fold (\<lambda>j s. credit s (pMembers p ! j) (pAsset p) (?v j)) [0..<?n] s"
  obtain m where m: "?n = Suc m" using assms by (cases ?n) simp_all
  have "sum_list (map ?v [0..<?n]) = sum_list (map ?v [0..<m]) + ?v m" by (simp add: m)
  also have "sum_list (map ?v [0..<m]) = sum_list (map (\<lambda>_. ?sh) [0..<m])"
    by (rule arg_cong [where f = sum_list], rule map_cong) (simp_all add: m)
  also have "\<dots> = of_nat m * ?sh" by (simp add: sum_list_triv)
  finally have sum: "sum_list (map ?v [0..<?n]) = ?ins" by (simp add: m algebra_simps)
  have tot: "acctTotal ?s' k = acctTotal s k + (if pAsset p = k then ?ins else 0)" for k
    using acct.tot_fold_add [of "\<lambda>_. True" "\<lambda>j. pMembers p ! j" "pAsset p" ?v "[0..<?n]" s k] sum
    by simp
  have "accounts_only s ?s'"
    by (rule fold_invariant) (auto intro: accounts_only_trans)
  then have "moves 0 (s, p) (?s', p\<lparr>pInsurance := 0\<rparr>)"
    using tot by (auto simp: moves_def poolTotal_def pool_fixed_def poolValue_def Held_def)
  then show "moves 0 (s, p) (shareInsurance s p)"
    by (simp add: shareInsurance_def Let_def)
  show "snd (shareInsurance s p) = (if pInsurance p > 0 then p\<lparr>pInsurance := 0\<rparr> else p)"
    by (simp add: shareInsurance_def Let_def)
qed

text \<open>Closing gives back all that is held.\<close>

lemma closePool_ok:
  assumes sh: "pool_shape p" and tm: "pool_terms p" and mn: "pool_money p"
  shows "moves 0 (s, p) (closePool s p)" "pool_shape (snd (closePool s p))" "pool_terms (snd (closePool s p))"
    "pool_money (snd (closePool s p))" "pStatus (snd (closePool s p)) = PoolDone"
    "Held (snd (closePool s p)) = 0" "pBalance (snd (closePool s p)) = pBalance p"
proof -
  let ?p = "p\<lparr>pStatus := PoolDone\<rparr>"
  let ?f = "\<lambda>j sp. returnDeposit j (returnPrepaid j sp)"
  define sp where "sp = fold ?f [0..<members_n p] (s, ?p)"
  have sh': "pool_shape ?p" using sh by (simp add: pool_shape_def)
  have *: "moves 0 (s, ?p) sp" "refunded ?p (snd sp)"
    "\<forall>k < members_n p. depositAt (snd sp) k = 0 \<and> prepaidAt (snd sp) k = 0"
    using give_back_loop [OF gives_back_both(1) sh', of "members_n p" s] by (simp_all add: sp_def)
  have n: "members_n (snd sp) = members_n p" using *(2) by (simp add: refunded_def)
  have shq: "pool_shape (snd sp)" using *(2) sh' by (rule refunded_shape)
  have "pool_terms ?p" "pool_money ?p" using tm mn by (simp_all add: pool_terms_def pool_money_def paidList_def cong: if_cong option.case_cong)
  then have tmq: "pool_terms (snd sp)" and mnq: "pool_money (snd sp)"
    using *(2) by (auto intro: refunded_terms refunded_money)
  have c: "closePool s p = shareInsurance (fst sp) (snd sp)" by (simp add: closePool_def sp_def Let_def)
  have n2: "2 \<le> members_n (snd sp)" using tm n by (simp add: pool_terms_def)
  note si = shareInsurance_moves [OF n2, of "fst sp"]
  have "moves 0 (s, p) (s, ?p)" by (rule moves_pool) (simp_all add: pool_fixed_def poolValue_def Held_def)
  from moves0_trans [OF moves0_trans [OF this *(1)]] si(1)
  show "moves 0 (s, p) (closePool s p)" by (simp add: c)
  have st: "pStatus (snd sp) = PoolDone" "pBalance (snd sp) = pBalance p" using *(2) by (simp_all add: refunded_def)
  have h: "Held (snd sp) = pInsurance (snd sp)" using held_zero [OF shq] *(3) n by simp
  show "pool_shape (snd (closePool s p))" "pool_terms (snd (closePool s p))"
    "pool_money (snd (closePool s p))" "pStatus (snd (closePool s p)) = PoolDone"
    "pBalance (snd (closePool s p)) = pBalance p"
    using shq tmq mnq st by (auto simp: c si(2) pool_shape_def pool_terms_def pool_money_def paidList_def cong: if_cong option.case_cong)
  show "Held (snd (closePool s p)) = 0"
    using h by (auto simp: c si(2) Held_def word_gt_0)
qed

subsection \<open>Payout\<close>

lemma takeInsurance_ok:
  assumes "takeInsurance p = (q, pot)"
  shows "q = p\<lparr>pBalance := 0, pInsurance := pInsurance q\<rparr>" and "poolValue q + pot = poolValue p"
    and "pBalance q = 0"
  using assms by (auto simp: takeInsurance_def Let_def poolValue_def Held_def split: if_splits)

lemma shareDiscount_ok:
  assumes "shareDiscount s p i pot = (s', pot')"
  shows "accounts_only s s'"
    and "acctTotal s' k + (if pAsset p = k then pot' else 0) = acctTotal s k + (if pAsset p = k then pot else 0)"
proof -
  let ?I = "\<lambda>(s', pot'). accounts_only s s' \<and>
    acctTotal s' k + (if pAsset p = k then pot' else 0) = acctTotal s k + (if pAsset p = k then pot else 0)"
  have step: "?I (payShare p i sh j sp)" if "?I sp" for sh j and sp :: "State \<times> amount"
  proof (cases sp)
    case (Pair t v)
    with that show ?thesis
      by (auto simp: payShare_def money_simps algebra_simps intro: accounts_only_trans)
  qed
  have "?I (fold (payShare p i sh) js (s, pot))" for sh js
    by (rule fold_invariant [where P = ?I]) (simp_all add: step)
  then have "?I (shareDiscount s p i pot)"
    by (auto simp: shareDiscount_def Let_def)
  then show "accounts_only s s'"
    "acctTotal s' k + (if pAsset p = k then pot' else 0) = acctTotal s k + (if pAsset p = k then pot else 0)"
    using assms by simp_all
qed

lemma nextRound_frame:
  "pool_fixed p (nextRound i v p)" "pMembers (nextRound i v p) = pMembers p"
  "pStatus (nextRound i v p) = pStatus p" "pRound (nextRound i v p) = pRound p + 1"
  "pClaimed (nextRound i v p) = (pClaimed p)[i := True]" "pJoined (nextRound i v p) = pJoined p"
  "poolValue (nextRound i v p) = poolValue p" "pMode (nextRound i v p) = pMode p"
  by (simp_all add: nextRound_def pool_fixed_def poolValue_def Held_def)

lemma nextRound_ok:
  assumes "pool_shape p" "pool_terms p" "pBalance p = 0" "pMode p \<noteq> PoolGoal"
  shows "round_ok (nextRound i v p)"
proof -
  have "paidList (nextRound i v p) = map (\<lambda>_. 0) (paidList p)"
    by (simp add: paidList_def nextRound_def split: option.split)
  moreover have "pPaid (nextRound i v p) = map (\<lambda>_. False) (paidList p)"
    using assms(1) length_paidList [OF assms(1)] by (simp add: nextRound_def map_replicate_const pool_shape_def)
  ultimately show ?thesis
    using assms by (auto simp: round_ok_def pool_money_def nextRound_def pool_shape_def pool_terms_def map_replicate_const)
qed

lemma count_list_upd: "i < length xs \<Longrightarrow> \<not> xs ! i \<Longrightarrow> count_list (xs[i := True]) True = count_list xs True + 1"
  by (induction xs arbitrary: i) (auto simp: nth_Cons split: nat.splits)

lemma count_list_mset: "count_list xs x = count (mset xs) x"
  by (induction xs) auto

text \<open>The parts of a payout, named once for all that is proved of it.\<close>

lemma payout_parts:
  assumes wf: "wf_pool p" and go: "pMode p \<noteq> PoolGoal" and i: "i < members_n p"
  obtains p2 pot s1 pot1 where
    "takeInsurance (fold coverDefault [0..<members_n p] p) = (p2, pot)"
    "shareDiscount s p2 i pot = (s1, pot1)"
    "payout s p i = (let s2 = credit s1 (pMembers p2 ! i) (pAsset p2) pot1; p3 = nextRound i pot1 p2
       in if pRound p3 < length (pMembers p3) then (s2, autopay p3) else closePool s2 p3)"
    "pool_shape p2" "pool_terms p2" "pBalance p2 = 0" "pool_fixed p p2" "pMembers p2 = pMembers p"
    "pStatus p2 = pStatus p" "pRound p2 = pRound p" "pClaimed p2 = pClaimed p"
    "poolValue p2 + pot = poolValue p" "round_ok (nextRound i pot1 p2)"
proof -
  have sh: "pool_shape p" "pool_terms p" using wf by (simp_all add: wf_pool_def)
  define p1 where "p1 = fold coverDefault [0..<members_n p] p"
  have c: "covered p p1" unfolding p1_def by (rule cover_all [OF sh(1)])
  obtain p2 pot where ti: "takeInsurance p1 = (p2, pot)" by (cases "takeInsurance p1")
  obtain s1 pot1 where sd: "shareDiscount s p2 i pot = (s1, pot1)" by (cases "shareDiscount s p2 i pot")
  note t = takeInsurance_ok [OF ti]
  have f2: "pMembers p2 = pMembers p1" "pStatus p2 = pStatus p1" "pRound p2 = pRound p1"
    "pClaimed p2 = pClaimed p1" "pool_fixed p1 p2"
    by (subst t(1), simp add: pool_fixed_def)+
  have sh2: "pool_shape p2" and tm2: "pool_terms p2"
    using covered_shape [OF c sh(1)] covered_terms [OF c sh(2)]
    by (subst t(1), simp add: pool_shape_def pool_terms_def)+
  have "pMode p2 \<noteq> PoolGoal" using go c f2(5) by (simp add: covered_def pool_fixed_def)
  then have "round_ok (nextRound i pot1 p2)" using sh2 tm2 t(3) by (intro nextRound_ok)
  moreover have "payout s p i = (let s2 = credit s1 (pMembers p2 ! i) (pAsset p2) pot1; p3 = nextRound i pot1 p2
       in if pRound p3 < length (pMembers p3) then (s2, autopay p3) else closePool s2 p3)"
    by (simp add: payout_def ti [unfolded p1_def] sd)
  moreover have "poolValue p2 + pot = poolValue p" "pool_fixed p p2"
    using t(2) c f2(5) by (auto simp: covered_def intro: pool_fixed_trans)
  ultimately show thesis
    using that [OF ti [unfolded p1_def] sd] sh2 tm2 t(3) f2 c by (simp add: covered_def)
qed

lemma payout_moves:
  assumes "wf_pool p" "pMode p \<noteq> PoolGoal" "i < members_n p"
  shows "moves 0 (s, p) (payout s p i)"
proof (rule payout_parts [OF assms, of s])
  fix p2 pot s1 pot1
  assume sd: "shareDiscount s p2 i pot = (s1, pot1)"
    and po: "payout s p i = (let s2 = credit s1 (pMembers p2 ! i) (pAsset p2) pot1; p3 = nextRound i pot1 p2
       in if pRound p3 < length (pMembers p3) then (s2, autopay p3) else closePool s2 p3)"
    and fx: "pool_fixed p p2" and v: "poolValue p2 + pot = poolValue p" and ok: "round_ok (nextRound i pot1 p2)"
  let ?s2 = "credit s1 (pMembers p2 ! i) (pAsset p2) pot1" and ?p3 = "nextRound i pot1 p2"
  have a: "accounts_only s ?s2" using shareDiscount_ok(1) [OF sd] accounts_only_credit by (rule accounts_only_trans)
  have asset: "pAsset p2 = pAsset p" "pAsset ?p3 = pAsset p" using fx nextRound_frame(1) [of p2 i pot1] by (simp_all add: pool_fixed_def)
  have "acctTotal ?s2 k + (if pAsset p = k then poolValue ?p3 else 0) =
      acctTotal s k + (if pAsset p = k then poolValue p else 0)" for k
    using shareDiscount_ok(2) [OF sd, of k] v [symmetric]
    by (auto simp: money_simps asset nextRound_frame algebra_simps)
  then have tot: "\<forall>k. acctTotal ?s2 k + (if pAsset ?p3 = k then poolValue ?p3 else 0) =
      acctTotal s k + (if pAsset p = k then poolValue p else 0) + (if pAsset p = k then 0 else 0)"
    by (simp add: asset)
  have 1: "moves 0 (s, p) (?s2, ?p3)"
    unfolding moves_def poolTotal_def fst_conv snd_conv
    using a tot pool_fixed_trans [OF fx nextRound_frame(1)] by blast
  have "moves 0 (?s2, ?p3) (?s2, autopay ?p3)"
    using autopay_ok [OF ok] by (intro moves_pool) (simp_all add: same_turns_def)
  with 1 have "moves 0 (s, p) (?s2, autopay ?p3)" by (rule moves0_trans)
  moreover have "moves 0 (s, p) (closePool ?s2 ?p3)"
    using moves0_trans [OF 1 closePool_ok(1)] round_okD [OF ok] by blast
  ultimately show ?thesis by (simp add: po Let_def)
qed

lemma payout_wf:
  assumes wf: "wf_pool p" and md: "pMode p \<noteq> PoolGoal" and i: "i < members_n p"
    and act: "pStatus p = PoolActive" and new: "\<not> pClaimed p ! i"
    and turn: "pMode p \<noteq> PoolBidding \<Longrightarrow> i = pRound p"
  shows "wf_pool (snd (payout s p i))"
    and "pStatus (snd (payout s p i)) = (if pRound p + 1 < members_n p then PoolActive else PoolDone)"
    and "pStatus (snd (payout s p i)) = PoolDone \<Longrightarrow> poolValue (snd (payout s p i)) = 0"
proof -
  obtain p2 pot s1 pot1 where
    po: "payout s p i = (let s2 = credit s1 (pMembers p2 ! i) (pAsset p2) pot1; p3 = nextRound i pot1 p2
       in if pRound p3 < length (pMembers p3) then (s2, autopay p3) else closePool s2 p3)"
    and b0: "pBalance p2 = 0"
    and p2: "pool_fixed p p2" "pMembers p2 = pMembers p" "pStatus p2 = pStatus p" "pRound p2 = pRound p"
      "pClaimed p2 = pClaimed p" and ok: "round_ok (nextRound i pot1 p2)"
    by (rule payout_parts [OF wf md i, of s])
  let ?p3 = "nextRound i pot1 p2" and ?s2 = "credit s1 (pMembers p2 ! i) (pAsset p2) pot1"
  have t: "pool_turns p" and sh: "pool_shape p" using wf by (simp_all add: wf_pool_def)
  have len: "length (pClaimed p) = members_n p" using sh by (simp add: pool_shape_def)
  note fr = nextRound_frame [where p = p2 and i = i and v = pot1] and close = closePool_ok [OF round_okD(1-3) [OF ok], of ?s2]
  have mode: "pMode ?p3 = pMode p" using p2(1) by (simp add: fr pool_fixed_def)
  have t3: "pool_turns ?p3" if "pRound p + 1 < members_n p"
    using t act md len i new turn that p2 mode
    by (auto simp: pool_turns_def nextRound_frame count_list_upd nth_list_update less_Suc_eq)
  have fin: "wf_pool q" if "pStatus q = PoolDone" "pool_shape q" "pool_terms q" "pool_money q" for q
    using that by (simp add: wf_pool_def pool_turns_def)
  have c: "pRound ?p3 < length (pMembers ?p3) \<longleftrightarrow> pRound p + 1 < members_n p"
    by (simp add: fr p2)
  have "wf_pool (autopay ?p3)" if "pRound p + 1 < members_n p"
  proof -
    have "pool_turns (autopay ?p3)"
      using pool_turns_same [of ?p3 "autopay ?p3"] autopay_ok [OF ok] t3 [OF that] act p2(3) by (simp add: fr)
    then show ?thesis using autopay_ok [OF ok] by (simp add: wf_pool_def round_ok_def)
  qed
  then show "wf_pool (snd (payout s p i))"
    using fin [OF close(5,2,3,4)] unfolding po Let_def c by simp
  show st: "pStatus (snd (payout s p i)) = (if pRound p + 1 < members_n p then PoolActive else PoolDone)"
    using close(5) autopay_ok [OF ok] act p2(3) unfolding po Let_def c by (simp add: same_turns_def fr)
  have "pBalance ?p3 = 0" using b0 by (simp add: nextRound_def)
  then show "pStatus (snd (payout s p i)) = PoolDone \<Longrightarrow> poolValue (snd (payout s p i)) = 0"
    using close(6,7) autopay_ok [OF ok] act p2(3) unfolding po Let_def c
    by (auto simp: poolValue_def same_turns_def fr split: if_splits)
qed

end
