(* ===== verification/Escrows.thy ===== *)
theory Escrows
  imports Pool_Invariants
begin

text \<open>
  Escrows: the escrow part of node/ledger/ledger.go (\<open>Escrow\<close>, \<open>Open\<close>, \<open>escrowOp\<close>). Funds
  are locked between a buyer and a seller and released milestone by milestone, refunded,
  claimed after the review period, or split by the arbiter of a dispute.

  \<open>wf_escrow\<close> is the invariant: while the escrow is open, its balance is exactly the sum of
  the milestones not released, and nothing was paid to buyer or arbiter yet; at any time, what
  was paid out and what is still held add up to what the buyer locked.
\<close>

subsection \<open>Operations\<close>

definition Open :: "Escrow \<Rightarrow> bool" where
  "Open e \<longleftrightarrow> eStatus e \<in> {EscrowFunded, EscrowDispatched, EscrowDisputed}"

text \<open>The closure \<open>pay\<close> of \<open>escrowOp\<close>.\<close>

definition pay :: "addr \<Rightarrow> amount \<Rightarrow> State \<times> Escrow \<Rightarrow> State \<times> Escrow" where
  "pay to amt se =
     (if amt = 0 then se
      else
        let (s, e) = se;
            s' = credit s to (eAsset e) amt;
            e' = e\<lparr>eBalance := eBalance e - amt\<rparr>
        in (s', if to = eSeller e then e'\<lparr>ePaidSeller := ePaidSeller e + amt\<rparr>
                else e'\<lparr>ePaidBuyer := ePaidBuyer e + amt\<rparr>))"

definition newEscrow :: "State \<Rightarrow> Tx \<Rightarrow> EscrowOp \<Rightarrow> hash \<Rightarrow> Escrow" where
  "newEscrow s tx op eid =
     \<lparr>eID = eid, eRef = eoRef op, eAsset = txAsset tx, eBuyer = txFrom tx, eSeller = eoSeller op,
      eArbiter = eoArbiter op, eMilestones = eoMilestones op, eReleased = 0, eBalance = Total op,
      eStatus = EscrowFunded, eCreatedAt = stNow s, eShipBy = eoShipBy op, eReviewSecs = eoReviewSecs op,
      eDispatchedAt = 0, eTracking = '''', ePaidSeller = 0, ePaidBuyer = 0, eArbiterBps = eoArbiterBps op,
      eArbiterFee = 0\<rparr>"

definition escrowDispatch :: "State \<Rightarrow> Tx \<Rightarrow> Escrow \<Rightarrow> err + State \<times> Escrow" where
  "escrowDispatch s tx e =
     (if txFrom tx \<noteq> eSeller e then Inl (ErrEscrow ''only the seller can mark dispatch'')
      else if eStatus e \<noteq> EscrowFunded then Inl (ErrEscrow ''already '')
      else Inr (s, e\<lparr>eStatus := EscrowDispatched, eDispatchedAt := stNow s, eTracking := txMemo tx\<rparr>))"

definition escrowRelease :: "State \<Rightarrow> Tx \<Rightarrow> Escrow \<Rightarrow> err + State \<times> Escrow" where
  "escrowRelease s tx e =
     (if txFrom tx \<noteq> eBuyer e then Inl (ErrEscrow ''only the buyer can release funds'')
      else if eStatus e = EscrowDisputed then Inl (ErrEscrow ''escrow is under dispute; the arbiter decides'')
      else if eReleased e \<ge> length (eMilestones e) then Inl (Panic ''index out of range'')
      else
        let (s', e1) = pay (eSeller e) (eMilestones e ! eReleased e) (s, e);
            e2 = e1\<lparr>eReleased := eReleased e1 + 1\<rparr>
        in Inr (s', if eReleased e2 = length (eMilestones e2) then e2\<lparr>eStatus := EscrowCompleted\<rparr> else e2))"

definition escrowDispute :: "State \<Rightarrow> Tx \<Rightarrow> Escrow \<Rightarrow> err + State \<times> Escrow" where
  "escrowDispute s tx e =
     (if txFrom tx \<noteq> eBuyer e \<and> txFrom tx \<noteq> eSeller e
      then Inl (ErrEscrow ''only the buyer or seller can open a dispute'')
      else if eStatus e = EscrowDisputed then Inl (ErrEscrow ''already disputed'')
      else Inr (s, e\<lparr>eStatus := EscrowDisputed\<rparr>))"

definition arbiterFee :: "Escrow \<Rightarrow> amount" where
  "arbiterFee e = bpsOf (eBalance e) (eArbiterBps e)"

definition escrowResolve :: "State \<Rightarrow> Tx \<Rightarrow> EscrowOp \<Rightarrow> Escrow \<Rightarrow> err + State \<times> Escrow" where
  "escrowResolve s tx op e =
     (if txFrom tx \<noteq> eArbiter e then Inl (ErrEscrow ''only the arbiter can resolve'')
      else if eStatus e \<noteq> EscrowDisputed
      then Inl (ErrEscrow ''the arbiter can only act on a disputed escrow'')
      else
        let remaining = eBalance e; fee = arbiterFee e in
        if eoToSeller op > remaining - fee
        then Inl (ErrEscrow ''to_seller exceeds the escrow balance after the arbiter's fee'')
        else
          let se = (if fee > 0
                    then (credit s (eArbiter e) (eAsset e) fee, e\<lparr>eBalance := eBalance e - fee, eArbiterFee := fee\<rparr>)
                    else (s, e));
              (s', e') = pay (eBuyer e) (remaining - fee - eoToSeller op) (pay (eSeller e) (eoToSeller op) se)
          in Inr (s', e'\<lparr>eStatus := EscrowResolved\<rparr>))"

definition escrowRefund :: "State \<Rightarrow> Tx \<Rightarrow> Escrow \<Rightarrow> err + State \<times> Escrow" where
  "escrowRefund s tx e =
     (if txFrom tx = eSeller e \<or> (txFrom tx = eBuyer e \<and> eStatus e = EscrowFunded \<and> stNow s > eShipBy e)
      then let (s', e') = pay (eBuyer e) (eBalance e) (s, e) in Inr (s', e'\<lparr>eStatus := EscrowRefunded\<rparr>)
      else if txFrom tx = eBuyer e
      then Inl (ErrEscrow ''the buyer can reclaim only if nothing was dispatched by the ship-by deadline'')
      else Inl (ErrEscrow ''only the seller, or the buyer after the deadline, can refund''))"

definition escrowClaim :: "State \<Rightarrow> Tx \<Rightarrow> Escrow \<Rightarrow> err + State \<times> Escrow" where
  "escrowClaim s tx e =
     (if txFrom tx \<noteq> eSeller e then Inl (ErrEscrow ''only the seller can claim'')
      else if eStatus e \<noteq> EscrowDispatched \<or> stNow s < wrap64 (eDispatchedAt e + eReviewSecs e * 1000)
      then Inl (ErrEscrow ''the buyer's review period has not ended'')
      else
        let (s', e') = pay (eSeller e) (eBalance e) (s, e)
        in Inr (s', e'\<lparr>eReleased := length (eMilestones e'), eStatus := EscrowCompleted\<rparr>))"

definition escrowStep :: "State \<Rightarrow> Tx \<Rightarrow> EscrowOp \<Rightarrow> Escrow \<Rightarrow> err + State \<times> Escrow" where
  "escrowStep s tx op e =
     (if eoOp op = OpEscrowDispatch then escrowDispatch s tx e
      else if eoOp op = OpEscrowRelease then escrowRelease s tx e
      else if eoOp op = OpEscrowDispute then escrowDispute s tx e
      else if eoOp op = OpEscrowResolve then escrowResolve s tx op e
      else if eoOp op = OpEscrowRefund then escrowRefund s tx e
      else if eoOp op = OpEscrowClaim then escrowClaim s tx e
      else Inl (Err ''unknown escrow op''))"

definition putEscrow :: "hash \<Rightarrow> State \<times> Escrow \<Rightarrow> State" where
  "putEscrow eid se = (fst se)\<lparr>stEscrows := fmupd eid (snd se) (stEscrows (fst se))\<rparr>"

definition escrowOp :: "(bytes \<Rightarrow> hash) \<Rightarrow> State \<Rightarrow> Tx \<Rightarrow> EscrowOp \<Rightarrow> err + State" where
  "escrowOp sha s tx op =
     (if eoOp op = OpEscrowCreate then
        (let eid = ID sha tx in
         if fmlookup (stEscrows s) eid \<noteq> None then Inl (ErrEscrow ''escrow already exists'')
         else if eoShipBy op \<le> stNow s then Inl (ErrEscrow ''ship-by deadline is in the past'')
         else Inr (putEscrow eid (s, newEscrow s tx op eid)))
      else case fmlookup (stEscrows s) (eoID op) of
        None \<Rightarrow> Inl (ErrEscrow ''no such escrow'')
      | Some e \<Rightarrow>
        if txAsset tx \<noteq> eAsset e then Inl (ErrEscrow ''this escrow uses another asset'')
        else if \<not> Open e then Inl (ErrEscrow ''escrow is closed'')
        else map_sum id (putEscrow (eoID op)) (escrowStep s tx op e))"

subsection \<open>The invariant\<close>

definition locked :: "Escrow \<Rightarrow> nat" where
  "locked e = sum_list (map unat (eMilestones e))"

text \<open>What was paid out and what is still held.\<close>

definition books :: "Escrow \<Rightarrow> nat" where
  "books e = unat (ePaidSeller e) + unat (ePaidBuyer e) + unat (eArbiterFee e) + unat (eBalance e)"

definition wf_escrow :: "Escrow \<Rightarrow> bool" where
  "wf_escrow e \<longleftrightarrow>
     locked e < 2 ^ 64 \<and> unat (eArbiterBps e) \<le> 500 \<and>
     books e = locked e \<and>
     (Open e \<longrightarrow> eReleased e < length (eMilestones e) \<and>
        unat (eBalance e) = sum_list (map unat (drop (eReleased e) (eMilestones e))) \<and>
        ePaidBuyer e = 0 \<and> eArbiterFee e = 0) \<and>
     (\<not> Open e \<longrightarrow> eBalance e = 0)"

subsection \<open>Money\<close>

text \<open>The share in basis points is the exact rounded-down product: nothing overflows.\<close>

lemma bps_nat: "(a :: nat) div 10000 * b + a mod 10000 * b div 10000 = a * b div 10000"
proof -
  have "a * b = (a div 10000 * 10000 + a mod 10000) * b" by simp
  also have "\<dots> = a mod 10000 * b + 10000 * (a div 10000 * b)" by (simp only: algebra_simps)
  finally have "a * b div 10000 = (a mod 10000 * b + 10000 * (a div 10000 * b)) div 10000" by (rule arg_cong)
  then show ?thesis by simp
qed

lemma unat_bpsOf:
  assumes "unat b \<le> 10000"
  shows "unat (bpsOf a b) = unat a * unat b div 10000"
proof -
  let ?x = "unat a" and ?b = "unat b"
  have ub: "unat (ucast b :: amount) = ?b" using assms by (simp add: unsigned_ucast_eq take_bit_nat_eq_self_iff)
  have x: "?x < 2 ^ 64" using unat64_lt [of a] by simp
  have le: "?x * ?b div 10000 \<le> ?x" using assms by (simp add: div_le_mono [of "?x * ?b" "?x * 10000" 10000, simplified])
  have sum: "?x div 10000 * ?b + ?x mod 10000 * ?b div 10000 = ?x * ?b div 10000" by (rule bps_nat)
  have l1: "?x div 10000 * ?b < 2 ^ 64" using sum le x by linarith
  have "?x mod 10000 * ?b \<le> 10000 * 10000" using assms by (intro mult_le_mono) simp_all
  then have l2: "?x mod 10000 * ?b < 2 ^ 64" by (rule le_less_trans) simp
  have l3: "?x div 10000 * ?b + ?x mod 10000 * ?b div 10000 < 2 ^ 64" using sum le x by linarith
  show ?thesis
    using l1 l2 l3 sum x by (simp add: bpsOf_def unat_word_ariths unat_div unat_mod ub)
qed

lemma bpsOf_le: "unat b \<le> 10000 \<Longrightarrow> bpsOf a b \<le> a"
  by (simp add: word_le_nat_alt unat_bpsOf div_le_mono [of "unat a * unat b" "unat a * 10000" 10000, simplified])

definition escrowTotal :: "State \<times> Escrow \<Rightarrow> string \<Rightarrow> amount" where
  "escrowTotal se k = acctTotal (fst se) k + (if eAsset (snd se) = k then eBalance (snd se) else 0)"

text \<open>The parts of an escrow no operation changes.\<close>

definition escrow_fixed :: "Escrow \<Rightarrow> Escrow \<Rightarrow> bool" where
  "escrow_fixed e e' \<longleftrightarrow> eID e' = eID e \<and> eAsset e' = eAsset e \<and> eBuyer e' = eBuyer e \<and> eSeller e' = eSeller e \<and>
     eArbiter e' = eArbiter e \<and> eMilestones e' = eMilestones e \<and> eArbiterBps e' = eArbiterBps e \<and>
     eShipBy e' = eShipBy e \<and> eReviewSecs e' = eReviewSecs e"

definition emoves :: "State \<times> Escrow \<Rightarrow> State \<times> Escrow \<Rightarrow> bool" where
  "emoves se se' \<longleftrightarrow> accounts_only (fst se) (fst se') \<and> escrow_fixed (snd se) (snd se') \<and>
     (\<forall>k. escrowTotal se' k = escrowTotal se k)"

lemma emoves_trans: "emoves a b \<Longrightarrow> emoves b c \<Longrightarrow> emoves a c"
  by (auto simp: emoves_def escrow_fixed_def intro: accounts_only_trans)

lemma emoves_status:
  "escrow_fixed e e' \<Longrightarrow> eBalance e' = eBalance e \<Longrightarrow> emoves (s, e) (s, e')"
  by (simp add: emoves_def escrowTotal_def escrow_fixed_def)

lemma emoves_pay_out:
  assumes "escrow_fixed e e'" "eBalance e' + v = eBalance e"
  shows "emoves (s, e) (credit s a (eAsset e) v, e')"
  using assms by (auto simp: emoves_def escrowTotal_def money_simps escrow_fixed_def algebra_simps)

lemma pay_emoves: "emoves se (pay to amt se)"
  by (cases se) (auto simp: pay_def emoves_def escrow_fixed_def escrowTotal_def money_simps Let_def algebra_simps)

text \<open>What \<open>pay\<close> does to the books of the escrow.\<close>

lemma pay_frame:
  assumes "pay to amt (s, e) = (s', e')"
  shows "eStatus e' = eStatus e" "eReleased e' = eReleased e" "eBalance e' = eBalance e - amt"
    "eArbiterFee e' = eArbiterFee e" "escrow_fixed e e'"
    "ePaidSeller e' = (if to = eSeller e then ePaidSeller e + amt else ePaidSeller e)"
    "ePaidBuyer e' = (if to = eSeller e then ePaidBuyer e else ePaidBuyer e + amt)"
    "Balance s' b k = (if to = b \<and> eAsset e = k then Balance s to k + amt else Balance s b k)"
  using assms by (auto simp: pay_def Let_def escrow_fixed_def money_simps split: if_splits)

lemma pay_books:
  assumes "pay to amt (s, e) = (s', e')" and le: "amt \<le> eBalance e" and b: "books e < 2 ^ 64"
  shows "books e' = books e" and "unat (eBalance e') = unat (eBalance e) - unat amt"
proof -
  note f = pay_frame [OF assms(1)]
  have u: "unat amt \<le> unat (eBalance e)" using le by (simp add: word_le_nat_alt)
  show bal: "unat (eBalance e') = unat (eBalance e) - unat amt" using le by (simp add: f unat_sub64)
  have "unat (ePaidSeller e + amt) = unat (ePaidSeller e) + unat amt"
    "unat (ePaidBuyer e + amt) = unat (ePaidBuyer e) + unat amt"
    using b u by (auto simp: books_def intro!: unat_add64)
  then show "books e' = books e" using u bal by (simp add: books_def f)
qed

subsection \<open>Every step keeps the invariant\<close>

lemma wf_escrow_open:
  assumes "wf_escrow e" "Open e"
  shows "eReleased e < length (eMilestones e)"
    "unat (eBalance e) = unat (eMilestones e ! eReleased e) + sum_list (map unat (drop (eReleased e + 1) (eMilestones e)))"
    "eMilestones e ! eReleased e \<le> eBalance e" "ePaidBuyer e = 0" "eArbiterFee e = 0"
    "books e = locked e" "locked e < 2 ^ 64"
proof -
  show r: "eReleased e < length (eMilestones e)" and "ePaidBuyer e = 0" "eArbiterFee e = 0"
    "books e = locked e" "locked e < 2 ^ 64"
    using assms by (simp_all add: wf_escrow_def)
  have "drop (eReleased e) (eMilestones e) = eMilestones e ! eReleased e # drop (eReleased e + 1) (eMilestones e)"
    using r by (simp add: Cons_nth_drop_Suc)
  then show b: "unat (eBalance e) = unat (eMilestones e ! eReleased e) +
      sum_list (map unat (drop (eReleased e + 1) (eMilestones e)))"
    using assms by (simp add: wf_escrow_def)
  then show "eMilestones e ! eReleased e \<le> eBalance e" by (simp add: word_le_nat_alt)
qed

text \<open>An escrow that ends with nothing left keeps the books.\<close>

lemma escrow_fixed_locked: "escrow_fixed e e' \<Longrightarrow> locked e' = locked e"
  by (simp add: escrow_fixed_def locked_def)

lemma wf_escrow_closed:
  assumes "wf_escrow e" "escrow_fixed e e'" "books e' = books e" "eBalance e' = 0"
    "eStatus e' \<in> {EscrowCompleted, EscrowRefunded, EscrowResolved}"
  shows "wf_escrow e'"
proof -
  have "locked e' = locked e" "eArbiterBps e' = eArbiterBps e" "\<not> Open e'"
    using escrow_fixed_locked [OF assms(2)] assms(2,5) by (auto simp: escrow_fixed_def Open_def)
  with assms(1,3,4) show ?thesis by (simp add: wf_escrow_def)
qed

lemma pay_all:
  assumes "wf_escrow e" "Open e" "pay to (eBalance e) (s, e) = (s', e')"
  shows "books e' = books e" "eBalance e' = 0" "escrow_fixed e e'"
  using pay_books [OF assms(3)] pay_frame [OF assms(3)] wf_escrow_open [OF assms(1,2)] by simp_all

lemma release_ok:
  assumes wf: "wf_escrow e" and op: "Open e" and ok: "escrowRelease s tx e = Inr (s', e')"
  shows "wf_escrow e'" "emoves (s, e) (s', e')"
proof -
  note o = wf_escrow_open [OF wf op]
  let ?m = "eMilestones e ! eReleased e"
  obtain e1 where p: "pay (eSeller e) ?m (s, e) = (s', e1)"
    and e': "e' = (let e2 = e1\<lparr>eReleased := eReleased e1 + 1\<rparr> in
        if eReleased e2 = length (eMilestones e2) then e2\<lparr>eStatus := EscrowCompleted\<rparr> else e2)"
    using ok by (cases "pay (eSeller e) ?m (s, e)")
      (auto simp: escrowRelease_def Let_def split: if_splits)
  note f = pay_frame [OF p] and b = pay_books [OF p o(3)]
  have bk: "books e1 = books e" using b(1) o(6,7) by simp
  have bal: "unat (eBalance e1) = sum_list (map unat (drop (eReleased e + 1) (eMilestones e)))"
    using b(2) o(2,6,7) by simp
  have fixd: "escrow_fixed e e'" using f(5) by (simp add: e' escrow_fixed_def Let_def)
  have same: "books e' = books e1" "eBalance e' = eBalance e1" by (simp_all add: e' books_def Let_def)
  show "wf_escrow e'"
  proof (cases "eReleased e + 1 = length (eMilestones e)")
    case True
    then have "eStatus e' = EscrowCompleted" using f by (simp add: e' Let_def escrow_fixed_def)
    moreover have "eBalance e' = 0" using bal True same by (simp add: unat_eq_zero)
    ultimately show ?thesis using bk same by (intro wf_escrow_closed [OF wf fixd]) simp_all
  next
    case False
    then have st: "eStatus e' = eStatus e" "eReleased e' = eReleased e + 1"
      "ePaidBuyer e' = ePaidBuyer e" "eArbiterFee e' = eArbiterFee e"
      using f by (simp_all add: e' Let_def escrow_fixed_def)
    then have "Open e'" using op by (simp add: Open_def)
    moreover have "books e' = locked e'" "locked e' < 2 ^ 64"
      using same(1) bk o(6,7) escrow_fixed_locked [OF fixd] by simp_all
    moreover have "eMilestones e' = eMilestones e" "eArbiterBps e' = eArbiterBps e"
      using fixd by (simp_all add: escrow_fixed_def)
    moreover have "eReleased e + 1 < length (eMilestones e)" using False o(1) by simp
    moreover have "unat (eArbiterBps e) \<le> 500" using wf by (simp add: wf_escrow_def)
    ultimately show ?thesis
      using st same(2) bal o(4,5) by (simp add: wf_escrow_def)
  qed
  have "emoves (s, e) (s', e1)" using pay_emoves [of "(s, e)" "eSeller e" ?m] p by simp
  moreover have "emoves (s', e1) (s', e')"
    by (rule emoves_status) (simp_all add: e' escrow_fixed_def Let_def)
  ultimately show "emoves (s, e) (s', e')" by (rule emoves_trans)
qed

lemma resolve_ok:
  assumes wf: "wf_escrow e" and op: "Open e" and ok: "escrowResolve s tx op e = Inr (s', e')"
  shows "wf_escrow e'" "emoves (s, e) (s', e')"
proof -
  note o = wf_escrow_open [OF wf op]
  define fee where "fee = arbiterFee e"
  define se where "se = (if fee > 0 then (credit s (eArbiter e) (eAsset e) fee,
      e\<lparr>eBalance := eBalance e - fee, eArbiterFee := fee\<rparr>) else (s, e))"
  obtain s1 e1 where se: "se = (s1, e1)" by (cases se)
  obtain s2 e2 where p2: "pay (eSeller e) (eoToSeller op) (s1, e1) = (s2, e2)"
    by (cases "pay (eSeller e) (eoToSeller op) (s1, e1)")
  obtain s3 e3 where p3: "pay (eBuyer e) (eBalance e - fee - eoToSeller op) (s2, e2) = (s3, e3)"
    by (cases "pay (eBuyer e) (eBalance e - fee - eoToSeller op) (s2, e2)")
  have r: "s' = s3" "e' = e3\<lparr>eStatus := EscrowResolved\<rparr>" and le: "eoToSeller op \<le> eBalance e - fee"
    using ok by (auto simp: escrowResolve_def Let_def fee_def [symmetric] se_def [symmetric] se p2 p3 split: if_splits)
  have bps: "unat (eArbiterBps e) \<le> 10000" using wf by (simp add: wf_escrow_def)
  have fle: "fee \<le> eBalance e" unfolding fee_def arbiterFee_def using bps by (rule bpsOf_le)
  have ub: "unat (eBalance e - fee) + unat fee = unat (eBalance e)"
    using fle by (simp add: unat_sub64 word_le_nat_alt)
  have e1: "eBalance e1 = eBalance e - fee" "escrow_fixed e e1"
    using se by (auto simp: se_def escrow_fixed_def word_gt_0 split: if_splits)
  have e1b: "books e1 = books e"
    using se ub o(5) by (auto simp: se_def books_def word_gt_0 split: if_splits)
  have e1m: "emoves (s, e) (s1, e1)"
  proof (cases "fee > 0")
    case True
    then have "s1 = credit s (eArbiter e) (eAsset e) fee" using se by (simp add: se_def)
    then show ?thesis using emoves_pay_out [OF e1(2), of fee] e1(1) by simp
  next
    case False
    then show ?thesis using se by (simp add: se_def emoves_def escrow_fixed_def)
  qed
  have lt: "books e1 < 2 ^ 64" using e1b o(6,7) by simp
  have b2: "books e2 = books e1" using pay_books [OF p2] le e1(1) lt by simp
  have bal2: "eBalance e2 = eBalance e - fee - eoToSeller op" using pay_frame(3) [OF p2] e1(1) by simp
  have b3: "books e3 = books e2" using pay_books [OF p3] bal2 b2 lt by simp
  have bal3: "eBalance e3 = 0" using pay_frame(3) [OF p3] bal2 by simp
  have f: "escrow_fixed e e3"
    using e1(2) pay_frame(5) [OF p2] pay_frame(5) [OF p3] by (simp add: escrow_fixed_def)
  show "wf_escrow e'"
  proof (rule wf_escrow_closed [OF wf])
    show "books e' = books e" using b3 b2 e1b by (simp add: r books_def)
    show "escrow_fixed e e'" using f by (simp add: r escrow_fixed_def)
  qed (simp_all add: r bal3)
  have "emoves (s1, e1) (s2, e2)" "emoves (s2, e2) (s3, e3)"
    using pay_emoves p2 p3 by metis+
  moreover have "emoves (s3, e3) (s', e')" unfolding r by (rule emoves_status) (simp_all add: escrow_fixed_def)
  ultimately show "emoves (s, e) (s', e')" using e1m emoves_trans by blast
qed

lemma escrowStep_ok:
  assumes wf: "wf_escrow e" and op: "Open e" and ok: "escrowStep s tx op e = Inr (s', e')"
  shows "wf_escrow e'" "emoves (s, e) (s', e')"
proof -
  have pay_close: "wf_escrow (e2\<lparr>eStatus := st\<rparr>) \<and> wf_escrow (e2\<lparr>eReleased := n, eStatus := st\<rparr>) \<and>
      emoves (s, e) (s2, e2\<lparr>eStatus := st\<rparr>) \<and> emoves (s, e) (s2, e2\<lparr>eReleased := n, eStatus := st\<rparr>)"
    if "pay to (eBalance e) (s, e) = (s2, e2)" "st \<in> {EscrowCompleted, EscrowRefunded, EscrowResolved}"
    for to s2 e2 st n
  proof -
    note a = pay_all [OF wf op that(1)]
    have m: "emoves (s, e) (s2, e2)" using pay_emoves that(1) by metis
    have "emoves (s2, e2) (s2, e2\<lparr>eStatus := st\<rparr>)" "emoves (s2, e2) (s2, e2\<lparr>eReleased := n, eStatus := st\<rparr>)"
      by (rule emoves_status; simp add: escrow_fixed_def)+
    with m have "emoves (s, e) (s2, e2\<lparr>eStatus := st\<rparr>)" "emoves (s, e) (s2, e2\<lparr>eReleased := n, eStatus := st\<rparr>)"
      using emoves_trans by blast+
    then show ?thesis using a that(2)
      by (auto intro!: wf_escrow_closed [OF wf] simp: books_def escrow_fixed_def)
  qed
  have status: "wf_escrow (e\<lparr>eStatus := st, eDispatchedAt := t, eTracking := m\<rparr>) \<and>
      emoves (s, e) (s, e\<lparr>eStatus := st, eDispatchedAt := t, eTracking := m\<rparr>) \<and>
      wf_escrow (e\<lparr>eStatus := st\<rparr>) \<and> emoves (s, e) (s, e\<lparr>eStatus := st\<rparr>)"
    if "st \<in> {EscrowDispatched, EscrowDisputed}" for st t m
    using wf op that by (auto simp: wf_escrow_def Open_def locked_def books_def intro!: emoves_status simp: escrow_fixed_def)
  have "wf_escrow e' \<and> emoves (s, e) (s', e')"
    using ok release_ok [OF wf op] resolve_ok [OF wf op] pay_close status
    by (auto simp: escrowStep_def escrowDispatch_def escrowDispute_def escrowRefund_def escrowClaim_def
        split: if_splits prod.splits)
  then show "wf_escrow e'" "emoves (s, e) (s', e')" by simp_all
qed

end
