(* ===== verification/Pool_Operations.thy ===== *)
theory Pool_Operations
  imports Pool_Invariants
begin

text \<open>
  What each pool operation does to the invariant and to the money: every operation keeps
  \<open>wf_pool\<close>, and the accounts and the pool together gain exactly what the sender is charged
  for it (\<open>inflow\<close>, the \<open>Cost\<close> of the transaction less its fee).
\<close>

text \<open>What the sender pays into the pool, as \<open>State.Cost\<close> computes it (without the fee).\<close>

definition inflow :: "PoolOp \<Rightarrow> Pool \<Rightarrow> nat \<Rightarrow> amount" where
  "inflow op p i =
     (if poOp op = OpPoolContribute
      then (if poContribution op > 0 then poContribution op else pContribution p - paidSoFar p i)
      else if poOp op = OpPoolAutopay then poContribution op
      else if poOp op = OpPoolJoin then pDeposit p
      else 0)"

lemma wf_poolD:
  assumes "wf_pool p"
  shows "pool_shape p" "pool_terms p" "pool_money p" "pool_turns p"
  using assms by (simp_all add: wf_pool_def)

lemma wf_round_ok: "wf_pool p \<Longrightarrow> pMode p \<noteq> PoolGoal \<Longrightarrow> round_ok p"
  by (simp add: wf_pool_def round_ok_def)

lemma paidList_cong:
  "pPaidAmt q = pPaidAmt p \<Longrightarrow> pPaid q = pPaid p \<Longrightarrow> pContribution q = pContribution p \<Longrightarrow> paidList q = paidList p"
  by (simp add: paidList_def cong: if_cong option.case_cong)

lemma pool_money_cong:
  "pPaidAmt q = pPaidAmt p \<Longrightarrow> pPaid q = pPaid p \<Longrightarrow> pContribution q = pContribution p \<Longrightarrow>
   pMode q = pMode p \<Longrightarrow> pSaved q = pSaved p \<Longrightarrow> pBalance q = pBalance p \<Longrightarrow> pool_money q = pool_money p"
  using paidList_cong [of q p] by (simp add: pool_money_def cong: option.case_cong)

subsection \<open>Joining\<close>

lemma reseated_turns_start:
  assumes "reseated p q" "pStatus p = PoolActive" "pRound p = 0" "True \<notin> set (pClaimed p)" "2 \<le> members_n p"
  shows "pool_turns q"
proof -
  have "mset (pClaimed q) = mset (pClaimed p)" using assms(1) by (simp add: reseated_def)
  then have c: "True \<notin> set (pClaimed q)" using assms(4) by (metis set_mset_mset)
  moreover have "pool_shape q" "members_n q = members_n p"
    using assms(1) pool_fixed_length [of p q] by (simp_all add: reseated_def)
  ultimately show ?thesis
    using assms by (auto simp: pool_turns_def reseated_def pool_shape_def count_list_0_iff)
      (metis nth_mem)
qed

lemma start_ok:
  fixes sha :: "bytes \<Rightarrow> hash"
  assumes ok: "pool_shape p" "pool_terms p" "pool_money p"
    and st: "pStatus p = PoolActive" "pRound p = 0" "True \<notin> set (pClaimed p)"
  defines "q \<equiv> autopay (if pMode p = PoolLottery then drawOrder sha p else p)"
  shows "wf_pool q" "pool_fixed p q" "poolValue q = poolValue p"
proof -
  define p3 where "p3 = (if pMode p = PoolLottery then drawOrder sha p else p)"
  have r3: "reseated p p3" unfolding p3_def using ok drawOrder_reseated reseated_refl by simp
  have "2 \<le> members_n p" using ok(2) by (simp add: pool_terms_def)
  then have t3: "pool_turns p3" by (rule reseated_turns_start [OF r3 st])
  have w3: "wf_pool p3" "pool_fixed p p3" "poolValue p3 = poolValue p"
    using r3 t3 by (simp_all add: wf_pool_def reseated_def)
  have q: "q = autopay p3" by (simp add: q_def p3_def)
  show "wf_pool q" "pool_fixed p q" "poolValue q = poolValue p"
  proof (atomize (full), cases "pMode p3 = PoolGoal")
    case True
    then have "q = p3" using r3 by (simp add: q autopay_def reseated_def pool_terms_def)
    then show "wf_pool q \<and> pool_fixed p q \<and> poolValue q = poolValue p" using w3 by simp
  next
    case False
    then have ro: "round_ok p3" using w3(1) by (rule wf_round_ok [rotated])
    note a = autopay_ok [OF ro]
    have "pool_turns q" using a r3 t3 st pool_turns_same [of p3 q] by (simp add: q reseated_def)
    then show "wf_pool q \<and> pool_fixed p q \<and> poolValue q = poolValue p"
      using a w3 pool_fixed_trans [of p p3 q] by (simp add: q wf_pool_def round_ok_def same_turns_def)
  qed
qed

lemma poolJoin_ok:
  assumes wf: "wf_pool p" and i: "i < members_n p" and ok: "poolJoin sha s p i = Inr (s', p')"
  shows "wf_pool p'" and "moves (pDeposit p) (s, p) (s', p')"
proof -
  note w = wf_poolD [OF wf]
  have nj: "pStatus p = PoolForming" "\<not> pJoined p ! i" using ok by (auto simp: poolJoin_def split: if_splits)
  define p1 where "p1 = p\<lparr>pJoined := (pJoined p)[i := True],
      pDeposits := map_option (\<lambda>ds. ds[i := pDeposit p]) (pDeposits p)\<rparr>"
  have d0: "depositAt p i = 0" using w(4) nj i by (simp add: pool_turns_def)
  have sh1: "pool_shape p1" using w(1) by (simp add: p1_def pool_shape_def)
  have tm1: "pool_terms p1" using w(2) by (simp add: p1_def pool_terms_def)
  have mn1: "pool_money p1" using w(3) pool_money_cong [of p1 p] by (simp add: p1_def)
  have "poolValue p1 = poolValue p + pDeposit p"
    using d0 i w(1,2) by (cases "pDeposits p")
      (simp_all add: p1_def poolValue_def Held_def depositAt_def sum_list_upd pool_shape_def pool_terms_def)
  then have mv1: "moves (pDeposit p) (s, p) (s, p1)" by (intro moves_pool) (simp_all add: p1_def pool_fixed_def)
  have turns: "pRound p = 0" "True \<notin> set (pClaimed p)" using w(4) nj by (simp_all add: pool_turns_def)
  show "wf_pool p'" and "moves (pDeposit p) (s, p) (s', p')"
  proof (atomize (full), cases "False \<in> set (pJoined p1)")
    case True
    then have "p' = p1" "s' = s" using ok nj by (simp_all add: poolJoin_def p1_def)
    moreover have "pool_turns p1"
      using w(4) w(1) nj i by (cases "pDeposits p")
        (auto simp: p1_def pool_turns_def depositAt_def nth_list_update pool_shape_def)
    ultimately show "wf_pool p' \<and> moves (pDeposit p) (s, p) (s', p')" using sh1 tm1 mn1 mv1 by (simp add: wf_pool_def)
  next
    case False
    define p2 where "p2 = p1\<lparr>pStatus := PoolActive, pStartedAt := stNow s\<rparr>"
    have "s' = s \<and> p' = autopay (if pMode p2 = PoolLottery then drawOrder sha p2 else p2)"
      using ok nj False by (auto simp: poolJoin_def p1_def p2_def Let_def)
    then have p': "s' = s" "p' = autopay (if pMode p2 = PoolLottery then drawOrder sha p2 else p2)"
      by blast+
    have ok2: "pool_shape p2" "pool_terms p2" "pool_money p2"
      using sh1 tm1 mn1 pool_money_cong [of p2 p1] by (simp_all add: p2_def pool_shape_def pool_terms_def)
    have st: "pStatus p2 = PoolActive" "pRound p2 = 0" "True \<notin> set (pClaimed p2)"
      using turns by (simp_all add: p2_def p1_def)
    have "pool_fixed p1 p2" "poolValue p2 = poolValue p1" by (simp_all add: p2_def pool_fixed_def poolValue_def Held_def)
    then have "pool_fixed p1 p'" "poolValue p' = poolValue p1" and wf': "wf_pool p'"
      using start_ok [OF ok2 st, of sha] pool_fixed_trans [of p1 p2 p'] unfolding p' by simp_all
    then have "moves 0 (s, p1) (s', p')" unfolding p'(1) by (intro moves_pool) simp_all
    with moves_trans [OF mv1 this] wf' show "wf_pool p' \<and> moves (pDeposit p) (s, p) (s', p')" by simp
  qed
qed

subsection \<open>Contributing\<close>

lemma pool_turns_payIn: "pStatus p = PoolActive \<Longrightarrow> pool_turns p \<Longrightarrow> pool_turns (payIn p j a)"
  by (simp add: pool_turns_def)

lemma elem_le_sum_list_unat: "i < length xs \<Longrightarrow> (unat (xs ! i) :: nat) \<le> sum_list (map unat xs)"
  by (rule member_le_sum_list) simp_all

lemma set_done:
  assumes "wf_pool p"
  shows "wf_pool (p\<lparr>pStatus := PoolDone\<rparr>)"
proof -
  have "pool_money (p\<lparr>pStatus := PoolDone\<rparr>) = pool_money p" by (rule pool_money_cong) simp_all
  then show ?thesis using assms by (simp add: wf_pool_def pool_shape_def pool_terms_def pool_turns_def)
qed

lemma poolContribute_ok:
  assumes wf: "wf_pool p" and i: "i < members_n p" and ok: "poolContribute s op p i = Inr (s', p')"
    and op: "poOp op = OpPoolContribute"
  shows "wf_pool p'" and "moves (inflow op p i) (s, p) (s', p')"
proof -
  note w = wf_poolD [OF wf]
  have act: "pStatus p = PoolActive" using ok by (auto simp: poolContribute_def split: if_splits)
  show "wf_pool p'" and "moves (inflow op p i) (s, p) (s', p')"
  proof (atomize (full), cases "pMode p = PoolGoal")
    case True
    define c where "c = poContribution op"
    obtain xs where xs: "pSaved p = Some xs" using w(2) True by (auto simp: pool_terms_def)
    have len: "length xs = members_n p" using w(1) xs by (simp add: pool_shape_def)
    define p1 where "p1 = p\<lparr>pSaved := Some (xs[i := xs ! i + c]), pBalance := pBalance p + c\<rparr>"
    have r: "s' = s" "p' = (if pBalance p1 \<ge> pTarget p1 then p1\<lparr>pStatus := PoolDone\<rparr> else p1)"
      and nov: "\<not> pBalance p + c < pBalance p" and c0: "c > 0"
      using ok act True xs by (auto simp: poolContribute_def p1_def c_def Let_def word_gt_0 split: if_splits)
    have b: "unat (pBalance p) = sum_list (map unat xs)" using w(3) True xs by (simp add: pool_money_def)
    have sum: "unat (pBalance p) + unat c < 2 ^ 64"
      using nov no_plus_overflow_unat_size [of "pBalance p" c] by (simp add: word_size not_less)
    have "unat (xs ! i) + unat c < 2 ^ 64"
      using sum elem_le_sum_list_unat [of i xs] i len b by simp
    then have "sum_list (map unat (xs[i := xs ! i + c])) = sum_list (map unat xs) + unat c"
      using sum_list_nat_upd [of i "map unat xs" "unat (xs ! i + c)"] i len by (simp add: map_update unat_add64)
    then have m1: "pool_money p1" using True b sum by (simp add: pool_money_def p1_def unat_add64)
    have "pool_shape p1" "pool_terms p1"
      using w(1,2) xs by (simp_all add: pool_shape_def pool_terms_def p1_def)
    moreover have "pool_turns p1" using True act by (simp add: pool_turns_def p1_def)
    ultimately have "wf_pool p1" using m1 by (simp add: wf_pool_def)
    then have "wf_pool p'" using set_done unfolding r(2) by simp
    moreover have "moves c (s, p) (s, p')"
      unfolding r(2) by (intro moves_pool) (simp_all add: pool_fixed_def poolValue_def Held_def p1_def)
    ultimately show "wf_pool p' \<and> moves (inflow op p i) (s, p) (s', p')"
      using c0 op by (simp add: inflow_def c_def r(1))
  next
    case False
    define amt where "amt = (if poContribution op = 0 then pContribution p - paidSoFar p i else poContribution op)"
    have un: "\<not> pPaid p ! i" and le: "amt \<le> pContribution p - paidSoFar p i" and r: "s' = s" "p' = payIn p i amt"
      using ok act False by (auto simp: poolContribute_def amt_def Let_def split: if_splits)
    have "amt \<le> pContribution p - paidList p ! i" using le w(1) i by (simp add: paidSoFar_paidList)
    then have "round_ok p'" unfolding r(2)
      using wf_round_ok [OF wf False] i un by (intro payIn_round_ok) simp_all
    then have "wf_pool p'" using pool_turns_payIn [OF act w(4)] r(2) by (simp add: wf_pool_def round_ok_def)
    moreover have "moves amt (s, p) (s, p')" unfolding r(2)
      by (intro moves_pool) (simp_all add: pool_fixed_def payIn_value)
    ultimately show "wf_pool p' \<and> moves (inflow op p i) (s, p) (s', p')"
      using op by (auto simp: inflow_def amt_def r(1) word_gt_0)
  qed
qed

subsection \<open>Bidding, autopay, cancelling\<close>

lemma poolBid_ok:
  assumes wf: "wf_pool p" and ok: "poolBid s op p i = Inr (s', p')"
  shows "wf_pool p'" and "moves 0 (s, p) (s', p')"
proof -
  note w = wf_poolD [OF wf]
  have r: "s' = s" "p' = p\<lparr>pBids := map_option (\<lambda>b. b[i := poContribution op]) (pBids p)\<rparr>"
    and act: "pStatus p = PoolActive"
    using ok by (auto simp: poolBid_def split: if_splits)
  have "pool_shape p'" "pool_terms p'" "pool_turns p'"
    using w act by (simp_all add: r(2) pool_shape_def pool_terms_def pool_turns_def)
  moreover have "pool_money p'" using w(3) pool_money_cong [of p' p] by (simp add: r(2))
  ultimately show "wf_pool p'" by (simp add: wf_pool_def)
  show "moves 0 (s, p) (s', p')"
    unfolding r by (intro moves_pool) (simp_all add: pool_fixed_def poolValue_def Held_def)
qed

lemma poolAutopay_ok:
  assumes wf: "wf_pool p" and i: "i < members_n p" and ok: "poolAutopay s op p i = Inr (s', p')"
  shows "wf_pool p'" and "moves (poContribution op) (s, p) (s', p')"
proof -
  note w = wf_poolD [OF wf]
  define pre where "pre = (case pPrepaid p of None \<Rightarrow> replicate (length (pMembers p)) 0 | Some xs \<Rightarrow> xs)"
  define p1 where "p1 = p\<lparr>pPrepaid := Some (pre[i := pre ! i + poContribution op])\<rparr>"
  have md: "pMode p \<noteq> PoolGoal" and r: "s' = s" "p' = autopay p1"
    using ok by (auto simp: poolAutopay_def Let_def pre_def p1_def split: if_splits)
  have len: "length pre = members_n p" using w(1) by (auto simp: pre_def pool_shape_def split: option.split)
  have ro: "round_ok p1" unfolding p1_def using wf_round_ok [OF wf md] len by (intro set_prepaid_round_ok) simp_all
  have t1: "pool_turns p1" using w(4) by (simp add: p1_def pool_turns_def depositAt_def)
  note a = autopay_ok [OF ro]
  have "pool_turns p'"
  proof (cases "pStatus p = PoolForming")
    case True
    then show ?thesis using t1 by (simp add: r(2) autopay_def p1_def)
  next
    case False
    then show ?thesis using a t1 pool_turns_same [of p1 p'] by (simp add: r(2) p1_def)
  qed
  then show "wf_pool p'" using a by (simp add: wf_pool_def round_ok_def r(2))
  have "sumOpt (pPrepaid p) = sum_list pre" by (simp add: pre_def sum_list_replicate split: option.split)
  then have "poolValue p1 = poolValue p + poContribution op"
    using i len by (simp add: p1_def poolValue_def Held_def sum_list_upd)
  moreover have "pool_fixed p p1" by (simp add: p1_def pool_fixed_def)
  ultimately show "moves (poContribution op) (s, p) (s', p')"
    using a unfolding r by (intro moves_pool) (auto simp: same_turns_def intro: pool_fixed_trans)
qed

lemma poolCancel_ok:
  assumes wf: "wf_pool p" and ok: "poolCancel s tx p = Inr (s', p')"
  shows "wf_pool p'" and "moves 0 (s, p) (s', p')" and "pStatus p' = PoolCancelled" and "poolValue p' = 0"
proof -
  note w = wf_poolD [OF wf]
  define sp where "sp = fold (\<lambda>j sp. returnPrepaid j (returnDeposit j sp)) [0..<length (pMembers p)] (s, p)"
  have r: "s' = fst sp" "p' = (snd sp)\<lparr>pStatus := PoolCancelled\<rparr>" and fo: "pStatus p = PoolForming"
    using ok by (auto simp: poolCancel_def Let_def sp_def split: if_splits)
  have *: "moves 0 (s, p) sp" "refunded p (snd sp)"
    "\<forall>k < members_n p. depositAt (snd sp) k = 0 \<and> prepaidAt (snd sp) k = 0"
    using give_back_loop [OF gives_back_both(2) w(1), of "members_n p" s] by (simp_all add: sp_def)
  have q: "pool_shape (snd sp)" "pool_terms (snd sp)" "pool_money (snd sp)"
    using *(2) w refunded_shape refunded_terms refunded_money by blast+
  then have "pool_shape p'" "pool_terms p'" by (simp_all add: r(2) pool_shape_def pool_terms_def)
  moreover have "pool_money p'" using q(3) pool_money_cong [of p' "snd sp"] by (simp add: r(2))
  ultimately show "wf_pool p'" by (simp add: wf_pool_def pool_turns_def r(2))
  have "moves 0 (fst sp, snd sp) (s', p')"
    unfolding r by (intro moves_pool) (simp_all add: pool_fixed_def poolValue_def Held_def)
  with *(1) show "moves 0 (s, p) (s', p')" using moves0_trans by (metis prod.collapse)
  show "pStatus p' = PoolCancelled" by (simp add: r(2))
  have bal: "pBalance (snd sp) = 0" "members_n (snd sp) = members_n p"
    using *(2) w(4) fo by (simp_all add: refunded_def pool_turns_def)
  have "Held (snd sp) = pInsurance (snd sp)" using held_zero [OF q(1)] *(3) bal by simp
  moreover have "pInsurance (snd sp) = 0" using *(2) w(4) fo by (simp add: refunded_def pool_turns_def)
  ultimately show "poolValue p' = 0" using bal(1) by (simp add: r(2) poolValue_def Held_def)
qed

lemma poolStopAutopay_ok:
  assumes wf: "wf_pool p" and i: "i < members_n p" and ok: "poolStopAutopay s tx p i = Inr (s', p')"
  shows "wf_pool p'" and "moves 0 (s, p) (s', p')"
proof -
  note w = wf_poolD [OF wf]
  obtain xs where xs: "pPrepaid p = Some xs" and r: "s' = credit s (txFrom tx) (pAsset p) (xs ! i)"
    "p' = p\<lparr>pPrepaid := Some (xs[i := 0])\<rparr>"
    using ok by (auto simp: poolStopAutopay_def split: option.splits if_splits)
  have len: "length xs = members_n p" using w(1) xs by (simp add: pool_shape_def)
  have "pool_shape p'" "pool_terms p'" "pool_turns p'"
    using w len xs by (auto simp: r(2) pool_shape_def pool_terms_def pool_turns_def depositAt_def)
  moreover have "pool_money p'" using w(3) pool_money_cong [of p' p] by (simp add: r(2))
  ultimately show "wf_pool p'" by (simp add: wf_pool_def)
  show "moves 0 (s, p) (s', p')"
    unfolding r by (rule moves_pay_out)
      (use xs len i in \<open>simp_all add: pool_fixed_def poolValue_def Held_def sum_list_upd\<close>)
qed

subsection \<open>Goal circles\<close>

lemma poolWithdraw_ok:
  assumes wf: "wf_pool p" and i: "i < members_n p" and ok: "poolWithdraw s tx p i = Inr (s', p')"
  shows "wf_pool p'" and "moves 0 (s, p) (s', p')"
proof -
  note w = wf_poolD [OF wf]
  have g: "pMode p = PoolGoal" using ok by (auto simp: poolWithdraw_def split: if_splits)
  obtain xs where xs: "pSaved p = Some xs" using w(2) g by (auto simp: pool_terms_def)
  have len: "length xs = members_n p" using w(1) xs by (simp add: pool_shape_def)
  define p1 where "p1 = p\<lparr>pBalance := pBalance p - xs ! i, pSaved := Some (xs[i := 0]),
      pWithdrawn := map_option (\<lambda>w. w[i := True]) (pWithdrawn p)\<rparr>"
  have r: "s' = credit s (txFrom tx) (pAsset p) (xs ! i)" "p' = p1 \<or> p' = p1\<lparr>pStatus := PoolDone\<rparr>"
    and z: "xs ! i \<noteq> 0"
    using ok g xs by (auto simp: poolWithdraw_def p1_def Let_def split: if_splits)
  have b: "unat (pBalance p) = sum_list (map unat xs)" using w(3) g xs by (simp add: pool_money_def)
  then have le: "xs ! i \<le> pBalance p"
    using elem_le_sum_list_unat [of i xs] i len by (simp add: word_le_nat_alt)
  have "sum_list (map unat (xs[i := 0])) + unat (xs ! i) = sum_list (map unat xs)"
    using sum_list_nat_upd [of i "map unat xs" 0] i len by (simp add: map_update)
  then have m1: "pool_money p1" using g b le by (simp add: pool_money_def p1_def unat_sub64)
  have nf: "pStatus p \<noteq> PoolForming"
  proof
    assume "pStatus p = PoolForming"
    then have "pBalance p = 0" using w(4) by (simp add: pool_turns_def)
    with le z show False by simp
  qed
  have "pool_shape p1" "pool_terms p1"
    using w(1,2) xs by (simp_all add: pool_shape_def pool_terms_def p1_def)
  moreover have "pool_turns p1" using nf g by (simp add: pool_turns_def p1_def)
  ultimately have w1: "wf_pool p1" using m1 by (simp add: wf_pool_def)
  show "wf_pool p'" using r(2) w1 set_done [OF w1] by blast
  have "moves 0 (s, p) (s', p1)" unfolding r(1)
    by (rule moves_pay_out) (simp_all add: p1_def pool_fixed_def poolValue_def Held_def)
  moreover have "moves 0 (s', p1) (s', p1\<lparr>pStatus := PoolDone\<rparr>)"
    by (intro moves_pool) (simp_all add: pool_fixed_def poolValue_def Held_def)
  ultimately show "moves 0 (s, p) (s', p')" using r(2) moves0_trans by auto
qed

subsection \<open>Swapping turns\<close>

lemma pool_turns_swapIdx:
  assumes sh: "pool_shape p" and t: "pool_turns p" and ij: "i < members_n p" "j < members_n p"
    and un: "\<not> pClaimed p ! i" "\<not> pClaimed p ! j"
  shows "pool_turns (swapIdx i j p)"
proof -
  have len: "length (pJoined p) = members_n p" "length (pClaimed p) = members_n p"
    "length (pPaid p) = members_n p" using sh by (simp_all add: pool_shape_def)
  have same: "swapL i j (pClaimed p) = pClaimed p"
    using un ij len by (intro nth_equalityI) (simp_all add: swapL_nth)
  have d: "depositAt (swapIdx i j p) k = depositAt p (if k = i then j else if k = j then i else k)"
    if "k < members_n p" for k
    using sh ij that by (cases "pDeposits p") (simp_all add: depositAt_def swapIdx_def pool_shape_def swapL_nth)
  have c: "pClaimed (swapIdx i j p) = pClaimed p" using same by (simp add: swapIdx_def)
  have jn: "pJoined (swapIdx i j p) ! k = pJoined p ! (if k = i then j else if k = j then i else k)"
    if "k < members_n p" for k
    using ij that len by (simp add: swapIdx_def swapL_nth)
  have pd: "set (pPaid (swapIdx i j p)) = set (pPaid p)" using ij len by (simp add: swapIdx_def set_swapL)
  have pa: "pPaidAmt (swapIdx i j p) = None \<longleftrightarrow> pPaidAmt p = None" by (simp add: swapIdx_def)
  show ?thesis
    using t c pd pa ij by (simp add: pool_turns_def d jn)
qed

lemma poolSwap_ok:
  assumes wf: "wf_pool p" and i: "i < members_n p" and ok: "poolSwap s tx op p i = Inr (s', p')"
  shows "wf_pool p'" and "moves 0 (s, p) (s', p')"
proof -
  note w = wf_poolD [OF wf]
  define sw where "sw = (case pSwapWith p of None \<Rightarrow> replicate (length (pMembers p)) '''' | Some sw \<Rightarrow> sw)"
  define p1 where "p1 = p\<lparr>pSwapWith := Some sw\<rparr>"
  obtain j where j: "index p (poOther op) = Some j" and un: "\<not> pClaimed p ! i" "\<not> pClaimed p ! j"
    and r: "s' = s" "p' = (let p2 = swapIdx i j p1 in p2\<lparr>pSwapWith := map_option (map (\<lambda>_. '''')) (pSwapWith p2)\<rparr>)
       \<or> p' = p1\<lparr>pSwapWith := Some (sw[i := poOther op])\<rparr>"
    using ok by (auto simp: poolSwap_def Let_def sw_def p1_def split: if_splits option.splits)
  have jn: "j < members_n p" using index_Some [OF j] by simp
  have sw_len: "length sw = members_n p" using w(1) by (auto simp: sw_def pool_shape_def split: option.split)
  have upd: "wf_pool (q\<lparr>pSwapWith := Some x\<rparr>) \<and> pool_fixed q (q\<lparr>pSwapWith := Some x\<rparr>) \<and>
      poolValue (q\<lparr>pSwapWith := Some x\<rparr>) = poolValue q"
    if "wf_pool q" "length x = members_n q" for q x
  proof -
    note v = wf_poolD [OF that(1)]
    have "pool_money (q\<lparr>pSwapWith := Some x\<rparr>)" using v(3) pool_money_cong [of "q\<lparr>pSwapWith := Some x\<rparr>" q] by simp
    then show ?thesis using v that(2)
      by (simp add: wf_pool_def pool_shape_def pool_terms_def pool_turns_def depositAt_def pool_fixed_def poolValue_def Held_def)
  qed
  have w1: "wf_pool p1" "pool_fixed p p1" "poolValue p1 = poolValue p"
    using upd [OF wf sw_len] by (simp_all add: p1_def)
  note v1 = wf_poolD [OF w1(1)]
  have n1: "members_n p1 = members_n p" "pClaimed p1 = pClaimed p" by (simp_all add: p1_def)
  have sp: "wf_pool (swapIdx i j p1)" "pool_fixed p1 (swapIdx i j p1)" "poolValue (swapIdx i j p1) = poolValue p1"
    using v1 i jn n1 un pool_turns_swapIdx [of p1 i j]
    by (simp_all add: wf_pool_def swapIdx_shape swapIdx_terms swapIdx_money swapIdx_fixed swapIdx_value)
  have "pSwapWith (swapIdx i j p1) = Some (swapL i j sw)" by (simp add: swapIdx_def p1_def)
  then have "wf_pool p' \<and> pool_fixed p1 p' \<and> poolValue p' = poolValue p1"
    using r(2) upd [OF sp(1), of "map (\<lambda>_. '''') (swapL i j sw)"] upd [OF w1(1), of "sw[i := poOther op]"]
      sp(2,3) sw_len n1 pool_fixed_trans [OF sp(2)]
    by (auto simp: Let_def)
  then show "wf_pool p'" "moves 0 (s, p) (s', p')"
    using w1(2,3) pool_fixed_trans [OF w1(2)] by (auto simp: r(1) intro: moves_pool)
qed

subsection \<open>Whose turn it is\<close>

lemma count_list_True_all: "\<forall>x \<in> set xs. x \<Longrightarrow> count_list xs True = length xs"
  by (induction xs) auto

text \<open>The loop state after the first \<open>m\<close> members: the leftmost best bid and the leftmost unclaimed seat.\<close>

definition bid_inv :: "bool list \<Rightarrow> amount list \<Rightarrow> nat \<Rightarrow> nat option \<Rightarrow> nat option \<Rightarrow> bool" where
  "bid_inv cl bids m best first \<longleftrightarrow>
     (case first of None \<Rightarrow> (\<forall>j < m. cl ! j)
      | Some f \<Rightarrow> f < m \<and> \<not> cl ! f \<and> (\<forall>j < f. cl ! j)) \<and>
     (case best of None \<Rightarrow> (\<forall>j < m. \<not> cl ! j \<longrightarrow> bids ! j = 0)
      | Some b \<Rightarrow> b < m \<and> \<not> cl ! b \<and> bids ! b > 0 \<and>
          (\<forall>j < m. \<not> cl ! j \<longrightarrow> bids ! j \<le> bids ! b \<and> (j < b \<longrightarrow> bids ! j < bids ! b)))"

lemma bid_inv_step:
  assumes "bid_inv cl bids m best first" and "\<not> cl ! m"
  shows "bid_inv cl bids (Suc m)
    (if bids ! m > 0 \<and> (case best of None \<Rightarrow> True | Some b \<Rightarrow> bids ! m > bids ! b) then Some m else best)
    (case first of None \<Rightarrow> Some m | Some f \<Rightarrow> Some f)"
  using assms
  by (auto simp: bid_inv_def less_Suc_eq word_gt_0 not_less split: option.splits)

lemma recipientLoop_spec:
  "bid_inv cl bids m best first \<Longrightarrow> m \<le> n \<Longrightarrow>
   (\<exists>b f. recipientLoop cl bids [m..<n] best first = (case b of Some x \<Rightarrow> Some x | None \<Rightarrow> f) \<and> bid_inv cl bids n b f)"
proof (induction "n - m" arbitrary: m best first)
  case 0
  then have "m = n" by simp
  with 0 show ?case by auto
next
  case (Suc d)
  then have m: "m < n" by simp
  then have up: "[m..<n] = m # [Suc m..<n]" by (rule upt_conv_Cons)
  show ?case
  proof (cases "cl ! m")
    case True
    then have "bid_inv cl bids (Suc m) best first"
      using Suc.prems(1) by (auto simp: bid_inv_def less_Suc_eq split: option.splits)
    with Suc m True show ?thesis by (simp add: up)
  next
    case False
    from Suc.hyps(1) [OF _ bid_inv_step [OF Suc.prems(1) False]] Suc.hyps(2) m False
    show ?thesis by (simp add: up)
  qed
qed

lemma Recipient_ok:
  assumes wf: "wf_pool p" and act: "pStatus p = PoolActive" and md: "pMode p \<noteq> PoolGoal"
  obtains k where "Recipient p = Some k" "k < members_n p" "\<not> pClaimed p ! k"
    "pMode p \<noteq> PoolBidding \<Longrightarrow> k = pRound p"
    "\<And>bids j. pMode p = PoolBidding \<Longrightarrow> pBids p = Some bids \<Longrightarrow> j < members_n p \<Longrightarrow> \<not> pClaimed p ! j \<Longrightarrow>
       bids ! j \<le> bids ! k \<and> (j < k \<longrightarrow> bids ! j < bids ! k)"
proof (cases "pMode p = PoolBidding")
  case False
  have "pRound p < members_n p" "\<not> pClaimed p ! pRound p"
    using wf_poolD(4) [OF wf] act md False by (auto simp: pool_turns_def)
  then show thesis using that [of "pRound p"] False by (simp add: Recipient_def)
next
  case True
  obtain bids where b: "pBids p = Some bids" using wf_poolD(2) [OF wf] True by (auto simp: pool_terms_def)
  have "count_list (pClaimed p) True < length (pClaimed p)"
    using wf_poolD(1,4) [OF wf] act md by (simp add: pool_turns_def pool_shape_def)
  then have "\<exists>j < members_n p. \<not> pClaimed p ! j"
    using wf_poolD(1) [OF wf] count_list_True_all [of "pClaimed p"]
    by (metis in_set_conv_nth less_irrefl pool_shape_def)
  then obtain u where u: "u < members_n p" "\<not> pClaimed p ! u" by blast
  have "bid_inv (pClaimed p) bids 0 None None" by (simp add: bid_inv_def)
  then obtain bb ff where r: "Recipient p = (case bb of Some x \<Rightarrow> Some x | None \<Rightarrow> ff)"
    and inv: "bid_inv (pClaimed p) bids (members_n p) bb ff"
    using recipientLoop_spec [of "pClaimed p" bids 0 None None "members_n p"] True b by (auto simp: Recipient_def)
  show thesis
  proof (cases bb)
    case (Some k)
    show thesis
      by (rule that [of k]) (use r inv True b Some in \<open>auto simp: bid_inv_def\<close>)
  next
    case None
    then obtain k where k: "ff = Some k" using inv u by (cases ff) (auto simp: bid_inv_def)
    show thesis
      by (rule that [of k]) (use r inv True b None k in \<open>auto simp: bid_inv_def\<close>)
  qed
qed

lemma poolClaim_ok:
  assumes wf: "wf_pool p" and i: "i < members_n p" and ok: "poolClaim s tx p i = Inr (s', p')"
  shows "wf_pool p'" and "moves 0 (s, p) (s', p')"
proof -
  have md: "pMode p \<noteq> PoolGoal" and act: "pStatus p = PoolActive" and rc: "Recipient p = Some i"
    and po: "payout s p i = (s', p')"
    using ok by (auto simp: poolClaim_def split: if_splits option.splits)
  obtain k where k: "Recipient p = Some k" "\<not> pClaimed p ! k" "pMode p \<noteq> PoolBidding \<Longrightarrow> k = pRound p"
    using Recipient_ok [OF wf act md] by blast
  have un: "\<not> pClaimed p ! i" and turn: "pMode p \<noteq> PoolBidding \<Longrightarrow> i = pRound p" using k rc by auto
  show "wf_pool p'" using payout_wf(1) [OF wf md i act un turn, of s] po by simp
  show "moves 0 (s, p) (s', p')" using payout_moves [OF wf md i, of s] po by simp
qed

subsection \<open>Every member operation\<close>

lemma inflow_simps:
  "poOp op = OpPoolJoin \<Longrightarrow> inflow op p i = pDeposit p"
  "poOp op = OpPoolAutopay \<Longrightarrow> inflow op p i = poContribution op"
  "poOp op \<in> {OpPoolClaim, OpPoolBid, OpPoolSwap, OpPoolWithdraw, OpPoolCancel, OpPoolStopAutopay} \<Longrightarrow>
     inflow op p i = 0"
  by (auto simp: inflow_def)

lemma memberOp_ok:
  assumes wf: "wf_pool p" and i: "i < members_n p" and ok: "memberOp sha s tx op p i = Inr (s', p')"
  shows "wf_pool p'" and "moves (inflow op p i) (s, p) (s', p')"
proof -
  have "wf_pool p' \<and> moves (inflow op p i) (s, p) (s', p')"
    using ok [unfolded memberOp_def]
    by (auto split: if_splits simp: inflow_simps
        dest: poolJoin_ok [OF wf i] poolContribute_ok [OF wf i] poolClaim_ok [OF wf i] poolBid_ok [OF wf]
          poolSwap_ok [OF wf i] poolWithdraw_ok [OF wf i] poolAutopay_ok [OF wf i] poolCancel_ok [OF wf]
          poolStopAutopay_ok [OF wf i])
  then show "wf_pool p'" and "moves (inflow op p i) (s, p) (s', p')" by simp_all
qed

subsection \<open>Creating a pool\<close>

lemma checkMembers_distinct: "checkMembers seen ms = None \<Longrightarrow> distinct ms \<and> set ms \<inter> set seen = {}"
  by (induction seen ms rule: checkMembers.induct) (auto split: option.splits if_splits)

lemma contribution_fits:
  assumes "\<not> c > 18446744073709551615 div (of_nat n :: amount)" "0 < n" "n \<le> 50"
  shows "unat c * n < 2 ^ 64"
proof -
  have n: "unat (of_nat n :: amount) = n" using assms(3) by (intro unat_of_nat64) simp
  have "unat c \<le> unat (18446744073709551615 div (of_nat n :: amount))"
    using assms(1) by (simp add: not_less word_le_nat_alt)
  also have "\<dots> = 18446744073709551615 div n" by (simp add: unat_div n)
  finally have "unat c * n \<le> 18446744073709551615"
    using div_times_less_eq_dividend [of 18446744073709551615 n] mult_le_mono1 order_trans by blast
  then show ?thesis by simp
qed

lemma newPool_ok:
  assumes chk: "checkPoolCreate tx op = None" and i: "i < length (poMembers op)"
  shows "wf_pool (newPool s tx op pid i)" and "poolValue (newPool s tx op pid i) = poDeposit op"
    and "pAsset (newPool s tx op pid i) = txAsset tx"
proof -
  let ?n = "length (poMembers op)"
  note c = chk [unfolded checkPoolCreate_def Let_def]
  have n: "2 \<le> ?n" "?n \<le> 50" using c by (auto split: if_splits option.splits)
  have d: "distinct (poMembers op)"
    using c checkMembers_distinct [of "[]" "poMembers op"] by (auto split: if_splits option.splits)
  have ct: "poContribution op \<noteq> 0" "\<not> poContribution op > 18446744073709551615 div of_nat ?n"
    using c by (auto split: if_splits option.splits)
  have dp: "poRoundSecs op = 0 \<Longrightarrow> poDeposit op = 0" "poRoundSecs op = 0 \<or> poRoundSecs op > 0"
    "poMode op = PoolGoal \<Longrightarrow> poDeposit op = 0" "\<not> poInsuranceBps op > 1000"
    using c by (auto split: if_splits option.splits)
  have ins: "unat (poInsuranceBps op) \<le> 1000" using dp(4) by (simp add: not_less word_le_nat_alt)
  have fits: "unat (poContribution op) * ?n < 2 ^ 64" using contribution_fits [OF ct(2)] n by linarith
  have f: "pPaid (newPool s tx op pid i) = replicate ?n False" "pBalance (newPool s tx op pid i) = 0"
    "pContribution (newPool s tx op pid i) = poContribution op" "pMode (newPool s tx op pid i) = poMode op"
    "poMode op = PoolGoal \<Longrightarrow> pSaved (newPool s tx op pid i) = Some (replicate ?n 0)"
    "paidList (newPool s tx op pid i) = replicate ?n 0"
    by (simp_all add: newPool_def Let_def paidList_def)
  have "pool_money (newPool s tx op pid i)"
    using ct(1) by (simp add: pool_money_def f sum_list_replicate)
  moreover have "pool_shape (newPool s tx op pid i)" by (simp add: pool_shape_def newPool_def Let_def)
  moreover have "pool_terms (newPool s tx op pid i)"
    using n d ct dp fits ins by (auto simp: pool_terms_def newPool_def Let_def)
  moreover have "pool_turns (newPool s tx op pid i)"
    using i by (auto simp: pool_turns_def newPool_def Let_def depositAt_def nth_list_update)
  ultimately show "wf_pool (newPool s tx op pid i)" by (simp add: wf_pool_def)
  show "poolValue (newPool s tx op pid i) = poDeposit op"
    using dp i by (auto simp: poolValue_def Held_def newPool_def Let_def sum_list_upd sum_list_replicate)
  show "pAsset (newPool s tx op pid i) = txAsset tx" by (simp add: newPool_def Let_def)
qed

end
