(* ===== verification/Guards.thy ===== *)
theory Guards
  imports Escrows Pool_Operations
begin

text \<open>
  Social recovery: node/ledger/guard.go. Guardians of an account start and approve a move of
  the account to a new key; once the threshold has approved and the safety delay has passed,
  anyone may finish it, and \<open>moveAccount\<close> hands everything the old key holds to the new one.

  \<open>wf_guard\<close> is the invariant of a setup: the approvals are distinct guardians, and once the
  threshold is reached the ready time lies a full delay after the recovery was started.
\<close>

subsection \<open>Operations\<close>

definition GuardedBy :: "State \<Rightarrow> addr \<Rightarrow> addr list" where
  "GuardedBy s g = sorted_list_of_fset
     (ffilter (\<lambda>a. g \<in> set (gGuardians (the (fmlookup (stGuards s) a)))) (fmdom (stGuards s)))"

definition renamePool :: "addr \<Rightarrow> addr \<Rightarrow> Pool \<Rightarrow> Pool" where
  "renamePool old new p =
     (if new \<in> set (pMembers p) then p
      else p\<lparr>pMembers := map (\<lambda>m. if m = old then new else m) (pMembers p),
             pCreator := (if pCreator p = old then new else pCreator p)\<rparr>)"

definition renameEscrow :: "addr \<Rightarrow> addr \<Rightarrow> Escrow \<Rightarrow> Escrow" where
  "renameEscrow old new e =
     e\<lparr>eBuyer := (if eBuyer e = old then new else eBuyer e),
       eSeller := (if eSeller e = old then new else eSeller e),
       eArbiter := (if eArbiter e = old then new else eArbiter e)\<rparr>"

text \<open>The balances: ORP, then every asset in the order of its symbol.\<close>

definition creditAll :: "Account \<Rightarrow> addr \<Rightarrow> State \<Rightarrow> State" where
  "creditAll src new s =
     fold (\<lambda>sym s. credit s new sym (getd 0 (acAssets src) sym)) (sorted_list_of_fset (fmdom (acAssets src)))
       (if acBalance src > 0 then credit s new '''' (acBalance src) else s)"

definition moveAccount :: "State \<Rightarrow> addr \<Rightarrow> addr \<Rightarrow> Guardianship \<Rightarrow> State" where
  "moveAccount s old new g =
     (let src = Get s old;
          s1 = creditAll src new s;
          s2 = s1\<lparr>stAccounts := fmupd old (zeroAccount\<lparr>acNonce := acNonce src\<rparr>) (stAccounts s1)\<rparr>
      in s2\<lparr>stPools := fmmap (renamePool old new) (stPools s2),
            stEscrows := fmmap (renameEscrow old new) (stEscrows s2),
            stGuards := fmdrop old (fmupd new (g\<lparr>gPending := None\<rparr>) (stGuards s2)),
            stRecoveredTo := fmupd old new (stRecoveredTo s2)\<rparr>)"

definition putGuard :: "addr \<Rightarrow> Guardianship \<Rightarrow> State \<Rightarrow> State" where
  "putGuard a g s = s\<lparr>stGuards := fmupd a g (stGuards s)\<rparr>"

definition guardSet :: "State \<Rightarrow> Tx \<Rightarrow> GuardOp \<Rightarrow> err + State" where
  "guardSet s tx op =
     (if (case fmlookup (stGuards s) (txFrom tx) of None \<Rightarrow> False | Some cur \<Rightarrow> gPending cur \<noteq> None)
      then Inl (ErrGuard ''a recovery is in progress; cancel it first'')
      else if fmlookup (stRecoveredTo s) (txFrom tx) \<noteq> None then Inl (ErrGuard ''this account was recovered'')
      else Inr (putGuard (txFrom tx)
        \<lparr>gGuardians = goGuardians op, gThreshold = goThreshold op, gDelaySecs = goDelaySecs op, gPending = None\<rparr> s))"

definition readyTime :: "State \<Rightarrow> Guardianship \<Rightarrow> int" where
  "readyTime s g = wrap64 (stNow s + wrap64 (gDelaySecs g * 1000))"

definition startRecovery :: "State \<Rightarrow> Tx \<Rightarrow> GuardOp \<Rightarrow> Guardianship \<Rightarrow> err + Guardianship" where
  "startRecovery s tx op g =
     (if txFrom tx \<notin> set (gGuardians g) then Inl (ErrGuard ''only a guardian can start a recovery'')
      else if gPending g \<noteq> None then Inl (ErrGuard ''a recovery is already in progress'')
      else Inr (g\<lparr>gPending := Some \<lparr>rNewOwner = goNewOwner op, rApprovals = [txFrom tx], rStartedAt = stNow s,
                   rReadyAt = (if gThreshold g \<le> 1 then readyTime s g else 0)\<rparr>\<rparr>))"

definition approveRecovery :: "State \<Rightarrow> Tx \<Rightarrow> GuardOp \<Rightarrow> Guardianship \<Rightarrow> err + Guardianship" where
  "approveRecovery s tx op g =
     (if txFrom tx \<notin> set (gGuardians g) then Inl (ErrGuard ''only a guardian can approve'')
      else case gPending g of
        None \<Rightarrow> Inl (ErrGuard ''there is no recovery to approve'')
      | Some r \<Rightarrow>
        if rNewOwner r \<noteq> goNewOwner op then Inl (ErrGuard ''the pending recovery is to a different key'')
        else if txFrom tx \<in> set (rApprovals r) then Inl (ErrGuard ''you already approved'')
        else
          let as = rApprovals r @ [txFrom tx]
          in Inr (g\<lparr>gPending := Some (r\<lparr>rApprovals := as,
                rReadyAt := (if int (length as) \<ge> gThreshold g \<and> rReadyAt r = 0 then readyTime s g else rReadyAt r)\<rparr>)\<rparr>))"

definition cancelRecovery :: "Tx \<Rightarrow> GuardOp \<Rightarrow> Guardianship \<Rightarrow> err + Guardianship" where
  "cancelRecovery tx op g =
     (if txFrom tx \<noteq> goAccount op then Inl (ErrGuard ''only the account's own key can cancel a recovery'')
      else if gPending g = None then Inl (ErrGuard ''there is no recovery to cancel'')
      else Inr (g\<lparr>gPending := None\<rparr>))"

text \<open>The checks of \<open>finish\<close>; the result is the pending recovery it completes.\<close>

definition finishRecovery :: "State \<Rightarrow> Guardianship \<Rightarrow> err + Recovery" where
  "finishRecovery s g =
     (case gPending g of
        None \<Rightarrow> Inl (ErrGuard ''there is no recovery to finish'')
      | Some r \<Rightarrow>
        if int (length (rApprovals r)) < gThreshold g then Inl (ErrGuard ''waiting for guardians'')
        else if stNow s < rReadyAt r then Inl (ErrGuard ''the safety delay has not passed'')
        else Inr r)"

definition guardOp :: "State \<Rightarrow> Tx \<Rightarrow> GuardOp \<Rightarrow> err + State" where
  "guardOp s tx op =
     (if goOp op = OpGuardSet then guardSet s tx op
      else case fmlookup (stGuards s) (goAccount op) of
        None \<Rightarrow> Inl (ErrGuard ''this account has no guardians'')
      | Some g \<Rightarrow>
        let put = map_sum id (\<lambda>g. putGuard (goAccount op) g s) in
        if goOp op = OpGuardStart then put (startRecovery s tx op g)
        else if goOp op = OpGuardApprove then put (approveRecovery s tx op g)
        else if goOp op = OpGuardCancel then put (cancelRecovery tx op g)
        else if goOp op = OpGuardFinish
        then map_sum id (\<lambda>r. moveAccount s (goAccount op) (rNewOwner r) g) (finishRecovery s g)
        else Inl (Err ''unknown recovery op''))"

subsection \<open>The invariant of a setup\<close>

text \<open>Block times and delays far from the end of \<open>int64\<close>, so that ready times do not wrap.\<close>

definition sane_time :: "int \<Rightarrow> bool" where
  "sane_time t \<longleftrightarrow> 0 < t \<and> t < 2 ^ 62"

definition wf_guard :: "addr \<Rightarrow> Guardianship \<Rightarrow> bool" where
  "wf_guard a g \<longleftrightarrow>
     1 \<le> gThreshold g \<and> gThreshold g \<le> int (length (gGuardians g)) \<and> 3600 \<le> gDelaySecs g \<and>
     gDelaySecs g \<le> 2592000 \<and> distinct (gGuardians g) \<and>
     (case gPending g of None \<Rightarrow> True
      | Some r \<Rightarrow> rNewOwner r \<noteq> a \<and> distinct (rApprovals r) \<and> set (rApprovals r) \<subseteq> set (gGuardians g) \<and>
          (if int (length (rApprovals r)) < gThreshold g then rReadyAt r = 0
           else rStartedAt r + gDelaySecs g * 1000 \<le> rReadyAt r))"

definition wf_guards :: "State \<Rightarrow> bool" where
  "wf_guards s \<longleftrightarrow> (\<forall>a g. fmlookup (stGuards s) a = Some g \<longrightarrow> wf_guard a g)"

text \<open>The clock only moves forward past the start of a pending recovery.\<close>

definition clock_ok :: "State \<Rightarrow> bool" where
  "clock_ok s \<longleftrightarrow> sane_time (stNow s) \<and>
     (\<forall>a g r. fmlookup (stGuards s) a = Some g \<longrightarrow> gPending g = Some r \<longrightarrow> rStartedAt r \<le> stNow s)"

lemma readyTime_eq:
  assumes "sane_time (stNow s)" "0 \<le> gDelaySecs g" "gDelaySecs g \<le> 2592000"
  shows "readyTime s g = stNow s + gDelaySecs g * 1000"
proof -
  have d: "0 \<le> gDelaySecs g * 1000" "gDelaySecs g * 1000 \<le> 2592000000" using assms(2,3) by simp_all
  then have "wrap64 (gDelaySecs g * 1000) = gDelaySecs g * 1000" by (intro wrap64_id) simp_all
  moreover have "wrap64 (stNow s + gDelaySecs g * 1000) = stNow s + gDelaySecs g * 1000"
    using assms(1) d by (intro wrap64_id) (simp_all add: sane_time_def)
  ultimately show ?thesis by (simp add: readyTime_def)
qed

lemma startRecovery_wf:
  assumes "wf_guard a g" "sane_time (stNow s)" "goNewOwner op \<noteq> a" "startRecovery s tx op g = Inr g'"
  shows "wf_guard a g'" "gPending g' = Some r \<Longrightarrow> rStartedAt r \<le> stNow s"
  using assms readyTime_eq [of s g]
  by (auto simp: startRecovery_def wf_guard_def split: if_splits)

lemma approveRecovery_wf:
  assumes w: "wf_guard a g" and t: "sane_time (stNow s)" and p: "gPending g = Some r" and c: "rStartedAt r \<le> stNow s"
    and ok: "approveRecovery s tx op g = Inr g'"
  shows "wf_guard a g'" "gPending g' = Some r' \<Longrightarrow> rStartedAt r' \<le> stNow s"
  using w t p c ok readyTime_eq [of s g]
  by (auto simp: approveRecovery_def wf_guard_def Let_def sane_time_def split: if_splits)

lemma cancelRecovery_wf:
  assumes "wf_guard a g" "cancelRecovery tx op g = Inr g'"
  shows "wf_guard a g'" "gPending g' = None"
  using assms by (auto simp: cancelRecovery_def wf_guard_def split: if_splits option.splits)

text \<open>Finishing needs the threshold of distinct guardians and a full delay since the start.\<close>

lemma finishRecovery_safe:
  assumes "wf_guard a g" "finishRecovery s g = Inr r"
  shows "gPending g = Some r" "set (rApprovals r) \<subseteq> set (gGuardians g)"
    "gThreshold g \<le> int (card (set (rApprovals r)))" "rStartedAt r + gDelaySecs g * 1000 \<le> stNow s"
    "rNewOwner r \<noteq> a"
  using assms by (auto simp: finishRecovery_def wf_guard_def distinct_card split: if_splits option.splits)

end
