(* ===== verification/Ledger_Apply.thy ===== *)
theory Ledger_Apply
  imports Guards
begin

text \<open>
  Applying a transaction: \<open>Cost\<close>, \<open>apply\<close> (\<open>Check\<close> and \<open>Apply\<close>), \<open>transfer\<close>, \<open>mint\<close> and \<open>burn\<close>
  of node/ledger/ledger.go, composed with the pool, escrow and recovery rules.

  \<open>total s k\<close> is what all accounts, pools and escrows hold of asset \<open>k\<close>; \<open>supplyOf s k\<close> is the
  ledger's supply counter. \<open>wf_state\<close> collects the invariants of the parts with the
  conservation law \<open>total s k = supplyOf s k\<close>, as \<open>uint64\<close> values (that is, modulo \<open>2^64\<close>).
\<close>

subsection \<open>The rules\<close>

definition poolCost :: "State \<Rightarrow> Tx \<Rightarrow> PoolOp \<Rightarrow> amount" where
  "poolCost s tx op =
     (if poOp op = OpPoolContribute then
        (if poContribution op > 0 then poContribution op + txFee tx
         else case fmlookup (stPools s) (poID op) of
           Some p \<Rightarrow> (case index p (txFrom tx) of
               Some i \<Rightarrow> pContribution p - paidSoFar p i + txFee tx
             | None \<Rightarrow> pContribution p + txFee tx)
         | None \<Rightarrow> txAmount tx + txFee tx)
      else if poOp op = OpPoolCreate then poDeposit op + txFee tx
      else if poOp op = OpPoolAutopay then poContribution op + txFee tx
      else if poOp op = OpPoolJoin then
        (case fmlookup (stPools s) (poID op) of
           Some p \<Rightarrow> pDeposit p + txFee tx
         | None \<Rightarrow> txAmount tx + txFee tx)
      else txAmount tx + txFee tx)"

definition createsEscrow :: "Tx \<Rightarrow> bool" where
  "createsEscrow tx \<longleftrightarrow> (case txEscrow tx of Some x \<Rightarrow> eoOp x = OpEscrowCreate | None \<Rightarrow> False)"

definition Cost :: "State \<Rightarrow> Tx \<Rightarrow> amount" where
  "Cost s tx =
     (if txKind tx = KindMint then 0
      else if createsEscrow tx then Total (the (txEscrow tx)) + txFee tx
      else case txPool tx of
        Some op \<Rightarrow> poolCost s tx op
      | None \<Rightarrow> txAmount tx + txFee tx)"

definition transfer :: "State \<Rightarrow> Tx \<Rightarrow> err + State" where
  "transfer s tx =
     (if Balance s (txTo tx) (txAsset tx) + txAmount tx < Balance s (txTo tx) (txAsset tx) then Inl ErrOverflow
      else Inr (credit s (txTo tx) (txAsset tx) (txAmount tx)))"

definition addAssetSupply :: "State \<Rightarrow> string \<Rightarrow> amount \<Rightarrow> State" where
  "addAssetSupply s k v = s\<lparr>stAssetSupply := fmupd k (getd 0 (stAssetSupply s) k + v) (stAssetSupply s)\<rparr>"

definition mint :: "State \<Rightarrow> Tx \<Rightarrow> err + State" where
  "mint s tx =
     (let sup = getd 0 (stAssetSupply s) (txAsset tx) in
      if txFrom tx \<noteq> adIssuer (getd zeroAssetDef (stAssetDefs s) (txAsset tx))
      then Inl (ErrAsset ''only the issuer can mint'')
      else if sup + txAmount tx < sup then Inl ErrOverflow
      else Inr (addAssetSupply (credit s (txTo tx) (txAsset tx) (txAmount tx)) (txAsset tx) (txAmount tx)))"

definition burn :: "State \<Rightarrow> Tx \<Rightarrow> err + State" where
  "burn s tx = Inr (addAssetSupply s (txAsset tx) (- txAmount tx))"

definition feeFree :: "Tx \<Rightarrow> bool" where
  "feeFree tx \<longleftrightarrow> txKind tx = KindMint
     \<or> (case txEscrow tx of None \<Rightarrow> False | Some x \<Rightarrow> eoOp x \<noteq> OpEscrowCreate)
     \<or> (case txGuard tx of None \<Rightarrow> False | Some g \<Rightarrow> goOp g \<noteq> OpGuardSet)"

text \<open>What the sender can pay from; a claimer may pay the fee out of the pot it receives.\<close>

definition available :: "State \<Rightarrow> Tx \<Rightarrow> amount" where
  "available s tx =
     Balance s (txFrom tx) (txAsset tx) +
     (case txPool tx of None \<Rightarrow> 0
      | Some op \<Rightarrow>
        if poOp op \<noteq> OpPoolClaim then 0
        else (case fmlookup (stPools s) (poID op) of None \<Rightarrow> 0
              | Some p \<Rightarrow> if pAsset p = txAsset tx then pBalance p else 0))"

definition effect :: "(bytes \<Rightarrow> hash) \<Rightarrow> State \<Rightarrow> Tx \<Rightarrow> err + State" where
  "effect sha s tx =
     (case txGuard tx of Some g \<Rightarrow> guardOp s tx g
      | None \<Rightarrow> (case txEscrow tx of Some x \<Rightarrow> escrowOp sha s tx x
      | None \<Rightarrow> (case txPool tx of Some p \<Rightarrow> poolOp sha s tx p
      | None \<Rightarrow>
        if txKind tx = KindMint then mint s tx
        else if txKind tx = KindBurn then burn s tx
        else transfer s tx)))"

definition bumpNonce :: "State \<Rightarrow> addr \<Rightarrow> State" where
  "bumpNonce s a = s\<lparr>stAccounts := fmupd a ((Get s a)\<lparr>acNonce := acNonce (Get s a) + 1\<rparr>) (stAccounts s)\<rparr>"

definition payFee :: "State \<Rightarrow> Tx \<Rightarrow> State" where
  "payFee s tx =
     (if txFee tx > 0 then
        if txAsset tx = '''' then s\<lparr>stSupply := stSupply s - txFee tx, stBurned := stBurned s + txFee tx\<rparr>
        else credit s (adIssuer (getd zeroAssetDef (stAssetDefs s) (txAsset tx))) (txAsset tx) (txFee tx)
      else s)"

text \<open>Credits first, then the debit, the nonce and the fee.\<close>

definition charge :: "State \<Rightarrow> Tx \<Rightarrow> amount \<Rightarrow> State" where
  "charge s tx cost =
     payFee (bumpNonce (setBalance s (txFrom tx) (txAsset tx) (Balance s (txFrom tx) (txAsset tx) - cost)) (txFrom tx)) tx"

text \<open>The checks \<open>apply\<close> makes before it asks the rule of the transaction.\<close>

definition precheck :: "State \<Rightarrow> Tx \<Rightarrow> err option" where
  "precheck s tx =
     (if txAsset tx \<noteq> '''' \<and> fmlookup (stAssetDefs s) (txAsset tx) = None
      then Some (ErrAsset ''unknown asset'')
      else if \<not> feeFree tx \<and> txFee tx < MinFeeFor s (txAsset tx) then Some ErrFeeTooLow
      else if txNonce tx < acNonce (Get s (txFrom tx)) then Some ErrNonceTooLow
      else if txNonce tx > acNonce (Get s (txFrom tx)) then Some ErrNonceTooHigh
      else if available s tx < Cost s tx then Some ErrInsufficient
      else None)"

definition Apply :: "(bytes \<Rightarrow> hash) \<Rightarrow> State \<Rightarrow> Tx \<Rightarrow> err + State" where
  "Apply sha s tx =
     (case precheck s tx of Some e \<Rightarrow> Inl e
      | None \<Rightarrow> (case effect sha s tx of Inl e \<Rightarrow> Inl e | Inr s' \<Rightarrow> Inr (charge s' tx (Cost s tx))))"

text \<open>\<open>Check\<close> is the same code without the effect.\<close>

definition Check :: "(bytes \<Rightarrow> hash) \<Rightarrow> State \<Rightarrow> Tx \<Rightarrow> err option" where
  "Check sha s tx =
     (case precheck s tx of Some e \<Rightarrow> Some e
      | None \<Rightarrow> (case effect sha s tx of Inl e \<Rightarrow> Some e | Inr _ \<Rightarrow> None))"

subsection \<open>What the ledger holds\<close>

definition poolsTotal :: "State \<Rightarrow> string \<Rightarrow> amount" where
  "poolsTotal s k = fmsum (\<lambda>p. if pAsset p = k then poolValue p else 0) (stPools s)"

definition escrowsTotal :: "State \<Rightarrow> string \<Rightarrow> amount" where
  "escrowsTotal s k = fmsum (\<lambda>e. if eAsset e = k then eBalance e else 0) (stEscrows s)"

definition total :: "State \<Rightarrow> string \<Rightarrow> amount" where
  "total s k = acctTotal s k + poolsTotal s k + escrowsTotal s k"

definition supplyOf :: "State \<Rightarrow> string \<Rightarrow> amount" where
  "supplyOf s k = (if k = '''' then stSupply s else getd 0 (stAssetSupply s) k)"

definition wf_accounts :: "State \<Rightarrow> bool" where
  "wf_accounts s \<longleftrightarrow> (\<forall>a. fmlookup (acAssets (Get s a)) '''' = None)"

definition wf_pools :: "State \<Rightarrow> bool" where
  "wf_pools s \<longleftrightarrow> (\<forall>i p. fmlookup (stPools s) i = Some p \<longrightarrow> wf_pool p)"

definition wf_escrows :: "State \<Rightarrow> bool" where
  "wf_escrows s \<longleftrightarrow> (\<forall>i e. fmlookup (stEscrows s) i = Some e \<longrightarrow> wf_escrow e)"

definition conserved :: "State \<Rightarrow> bool" where
  "conserved s \<longleftrightarrow> (\<forall>k. total s k = supplyOf s k)"

definition wf_state :: "State \<Rightarrow> bool" where
  "wf_state s \<longleftrightarrow> wf_accounts s \<and> wf_pools s \<and> wf_escrows s \<and> wf_guards s \<and> clock_ok s \<and> conserved s"

text \<open>A change of the ledger that brings \<open>v\<close> units of asset \<open>a\<close> into accounts, pools and escrows.\<close>

definition brings :: "amount \<Rightarrow> string \<Rightarrow> State \<Rightarrow> State \<Rightarrow> bool" where
  "brings v a s s' \<longleftrightarrow> (\<forall>k. total s' k = total s k + (if a = k then v else 0))"

lemma total_accounts_only:
  "accounts_only s s' \<Longrightarrow> total s' k = total s k - acctTotal s k + acctTotal s' k"
  by (simp add: total_def poolsTotal_def escrowsTotal_def accounts_only_def)

lemma supplyOf_accounts_only: "accounts_only s s' \<Longrightarrow> supplyOf s' k = supplyOf s k"
  by (simp add: supplyOf_def accounts_only_def)

subsection \<open>Accounts\<close>

lemma wf_accounts_setBalance: "wf_accounts s \<Longrightarrow> wf_accounts (setBalance s a k v)"
  by (auto simp: wf_accounts_def setBalance_def Get_def accSetBalance_def)

lemma wf_accounts_credit: "wf_accounts s \<Longrightarrow> wf_accounts (credit s a k v)"
  by (simp add: credit_def wf_accounts_setBalance)

subsection \<open>Moving an account\<close>

lemma creditAll_only: "accounts_only s (creditAll src new s)"
proof -
  have "accounts_only s (fold (\<lambda>sym s. credit s new sym (v sym)) xs t)" if "accounts_only s t" for v xs t
    by (rule fold_invariant [where P = "accounts_only s"]) (use that in \<open>auto intro: accounts_only_trans\<close>)
  then show ?thesis unfolding creditAll_def by simp
qed

lemma fold_credit_total:
  "acctTotal (fold (\<lambda>sym s. credit s new sym (v sym)) xs t) k =
   acctTotal t k + sum_list (map (\<lambda>sym. if sym = k then v sym else 0) xs)"
  by (induction xs arbitrary: t) (simp_all add: money_simps)

lemma fold_credit_other:
  "a \<noteq> new \<Longrightarrow> Get (fold (\<lambda>sym s. credit s new sym (v sym)) xs t) a = Get t a"
  by (induction xs arbitrary: t) (simp_all add: credit_def setBalance_def Get_def)

lemma sum_list_single: "distinct xs \<Longrightarrow> sum_list (map (\<lambda>x. if x = k then v x else 0) xs) =
    (if k \<in> set xs then v k else (0 :: 'a::comm_monoid_add))"
  by (induction xs) auto

lemma creditAll_total:
  assumes "fmlookup (acAssets src) '''' = None"
  shows "acctTotal (creditAll src new s) k = acctTotal s k + accBalance src k"
proof -
  let ?xs = "sorted_list_of_fset (fmdom (acAssets src))"
  let ?t = "if acBalance src > 0 then credit s new '''' (acBalance src) else s"
  have "acctTotal (creditAll src new s) k = acctTotal ?t k + (if k \<in> set ?xs then getd 0 (acAssets src) k else 0)"
    unfolding creditAll_def fold_credit_total
    by (subst sum_list_single) (simp_all add: sorted_list_of_fset.rep_eq)
  also have "(if k \<in> set ?xs then getd 0 (acAssets src) k else 0) = getd 0 (acAssets src) k"
    by (auto simp: getd_def fmdom_notI fmlookup_dom_iff split: option.split)
  finally show ?thesis
    using assms by (auto simp: accBalance_def money_simps getd_def word_gt_0)
qed

lemma creditAll_other: "a \<noteq> new \<Longrightarrow> Get (creditAll src new s) a = Get s a"
  unfolding creditAll_def by (subst fold_credit_other) (simp_all add: credit_def setBalance_def Get_def)

lemma renamePool_money: "pAsset (renamePool old new p) = pAsset p" "poolValue (renamePool old new p) = poolValue p"
  by (simp_all add: renamePool_def poolValue_def Held_def)

lemma renamePool_wf:
  assumes "wf_pool p"
  shows "wf_pool (renamePool old new p)"
proof (cases "new \<in> set (pMembers p)")
  case True
  with assms show ?thesis by (simp add: renamePool_def)
next
  case False
  let ?ms = "map (\<lambda>m. if m = old then new else m) (pMembers p)"
  have d: "distinct ?ms" using assms False by (auto simp: wf_pool_def pool_terms_def distinct_map inj_on_def)
  define q where "q = renamePool old new p"
  have q: "q = p\<lparr>pMembers := ?ms, pCreator := (if pCreator p = old then new else pCreator p)\<rparr>"
    using False by (simp add: q_def renamePool_def)
  have "pool_money q" using assms pool_money_cong [of q p] by (simp add: q wf_pool_def)
  then have "wf_pool q" using assms d by (simp add: q wf_pool_def pool_shape_def pool_terms_def pool_turns_def depositAt_def)
  then show ?thesis by (simp add: q_def)
qed

lemma renameEscrow_wf: "wf_escrow e \<Longrightarrow> wf_escrow (renameEscrow old new e)"
  by (simp add: wf_escrow_def renameEscrow_def books_def locked_def Open_def)

lemma moveAccount_total:
  assumes w: "wf_accounts s" and ne: "old \<noteq> new"
  shows "total (moveAccount s old new g) k = total s k"
proof -
  define src where "src = Get s old"
  define s1 where "s1 = creditAll src new s"
  have lk: "fmlookup (acAssets src) '''' = None" using w by (simp add: wf_accounts_def src_def)
  have o: "accounts_only s s1" unfolding s1_def by (rule creditAll_only)
  have g1: "Get s1 old = src" using ne by (simp add: s1_def creditAll_other src_def)
  have st: "acctTotal (moveAccount s old new g) k =
      fmsum (\<lambda>acc. accBalance acc k) (fmupd old (zeroAccount\<lparr>acNonce := acNonce src\<rparr>) (stAccounts s1))"
    by (simp add: moveAccount_def Let_def acctTotal_def src_def s1_def)
  have "accBalance (zeroAccount\<lparr>acNonce := acNonce src\<rparr>) k = 0" by (simp add: accBalance_def zeroAccount_def)
  then have "acctTotal (moveAccount s old new g) k = acctTotal s1 k - Balance s1 old k"
    unfolding st by (simp add: fmsum_upd Get_accBalance acctTotal_def)
  also have "\<dots> = acctTotal s k"
    using creditAll_total [OF lk, of new s k] by (simp add: s1_def [symmetric] Balance_def g1)
  finally have a: "acctTotal (moveAccount s old new g) k = acctTotal s k" .
  have "stPools s1 = stPools s" "stEscrows s1 = stEscrows s" using o by (simp_all add: accounts_only_def)
  then have "poolsTotal (moveAccount s old new g) k = poolsTotal s k"
    "escrowsTotal (moveAccount s old new g) k = escrowsTotal s k"
    by (simp_all add: poolsTotal_def escrowsTotal_def moveAccount_def Let_def fmsum_fmmap o_def renamePool_money
        renameEscrow_def s1_def [symmetric] src_def [symmetric] cong: if_cong)
  with a show ?thesis by (simp add: total_def)
qed

lemma moveAccount_wf:
  assumes "wf_accounts s" "wf_pools s" "wf_escrows s" "wf_guards s" "clock_ok s" and g: "wf_guard old g"
  shows "wf_accounts (moveAccount s old new g)" "wf_pools (moveAccount s old new g)"
    "wf_escrows (moveAccount s old new g)" "wf_guards (moveAccount s old new g)" "clock_ok (moveAccount s old new g)"
proof -
  let ?s1 = "creditAll (Get s old) new s"
  note o = creditAll_only [of s "Get s old" new]
  have "wf_accounts ?s1" using o assms(1) by (simp add: wf_accounts_def accounts_only_def)
  then show "wf_accounts (moveAccount s old new g)"
    by (simp add: wf_accounts_def moveAccount_def Let_def Get_def zeroAccount_def)
  have f: "stPools ?s1 = stPools s" "stEscrows ?s1 = stEscrows s" "stGuards ?s1 = stGuards s" "stNow ?s1 = stNow s"
    using o by (simp_all add: accounts_only_def)
  show "wf_pools (moveAccount s old new g)"
    using assms(2) by (auto simp: wf_pools_def moveAccount_def Let_def f renamePool_wf)
  show "wf_escrows (moveAccount s old new g)"
    using assms(3) by (auto simp: wf_escrows_def moveAccount_def Let_def f renameEscrow_wf)
  show "wf_guards (moveAccount s old new g)"
    using assms(4) g by (auto simp: wf_guards_def wf_guard_def moveAccount_def Let_def f split: if_splits)
  show "clock_ok (moveAccount s old new g)"
    using assms(5) by (auto simp: clock_ok_def moveAccount_def Let_def f split: if_splits)
qed

subsection \<open>The effect of each rule on the books\<close>

text \<open>What the ledger holds beyond its supply counter; zero in a conserved state.\<close>

definition gap :: "State \<Rightarrow> string \<Rightarrow> amount" where
  "gap s k = total s k - supplyOf s k"

text \<open>The parts of \<open>wf_state\<close> other than conservation.\<close>

definition wf_parts :: "State \<Rightarrow> bool" where
  "wf_parts s \<longleftrightarrow> wf_accounts s \<and> wf_pools s \<and> wf_escrows s \<and> wf_guards s \<and> clock_ok s"

text \<open>What no rule touches: nonces, the asset definitions, the ORP supply and the clock.\<close>

definition same_rest :: "State \<Rightarrow> State \<Rightarrow> bool" where
  "same_rest s s' \<longleftrightarrow> stAssetDefs s' = stAssetDefs s \<and> stMinFee s' = stMinFee s \<and> stNow s' = stNow s \<and>
     stSupply s' = stSupply s \<and> stBurned s' = stBurned s \<and> (\<forall>b. acNonce (Get s' b) = acNonce (Get s b))"

lemma same_rest_accounts_only: "accounts_only s s' \<Longrightarrow> same_rest s s'"
  by (simp add: accounts_only_def same_rest_def)

lemma same_rest_trans: "same_rest s s1 \<Longrightarrow> same_rest s1 s' \<Longrightarrow> same_rest s s'"
  by (simp add: same_rest_def)

text \<open>A rule step: the parts stay well formed and \<open>v\<close> more units of \<open>a\<close> are held than counted.\<close>

definition rule_step :: "amount \<Rightarrow> string \<Rightarrow> State \<Rightarrow> State \<Rightarrow> bool" where
  "rule_step v a s s' \<longleftrightarrow> wf_parts s' \<and> (\<forall>k. gap s' k = gap s k + (if a = k then v else 0)) \<and>
     same_rest s s'"

lemma wf_parts_accounts_only: "accounts_only s s' \<Longrightarrow> wf_parts s \<Longrightarrow> wf_parts s'"
  by (auto simp: wf_parts_def accounts_only_def wf_accounts_def wf_pools_def wf_escrows_def wf_guards_def clock_ok_def)

text \<open>One entry of a map is rewritten while the accounts change.\<close>

lemma book_entry:
  fixes A :: "'a::ab_group_add"
  assumes "P' = P - x + y" and "A' + y = A + x + v"
  shows "A' + P' + E = A + P + E + v"
proof -
  have "A' + P' + E = (A' + y) + P - x + E" using assms(1) by (simp add: algebra_simps)
  then show ?thesis using assms(2) by (simp add: algebra_simps)
qed

lemma putPool_step:
  assumes wf: "wf_parts s" and m: "accounts_only s s'" and w: "wf_pool p'" and a: "pAsset p' = a"
    and tot: "\<And>k. acctTotal s' k + (if a = k then poolValue p' else 0) =
      acctTotal s k + (case fmlookup (stPools s) i of None \<Rightarrow> 0 | Some p \<Rightarrow> if pAsset p = k then poolValue p else 0) +
      (if a = k then v else 0)"
  shows "rule_step v a s (putPool i (s', p'))"
proof -
  have "total (putPool i (s', p')) k = total s k + (if a = k then v else 0)" for k
  proof -
    have "poolsTotal (putPool i (s', p')) k = poolsTotal s k -
        (case fmlookup (stPools s) i of None \<Rightarrow> 0 | Some p \<Rightarrow> if pAsset p = k then poolValue p else 0) +
        (if a = k then poolValue p' else 0)"
      using m a by (simp add: poolsTotal_def putPool_def fmsum_upd accounts_only_def)
    moreover have "acctTotal (putPool i (s', p')) k = acctTotal s' k" by (simp add: putPool_def acctTotal_def)
    moreover have "escrowsTotal (putPool i (s', p')) k = escrowsTotal s k"
      using m by (simp add: putPool_def escrowsTotal_def accounts_only_def)
    ultimately show ?thesis unfolding total_def using book_entry [OF _ tot [of k]] by simp
  qed
  moreover have "supplyOf (putPool i (s', p')) k = supplyOf s k" for k
    using m by (simp add: putPool_def supplyOf_def accounts_only_def)
  moreover have "wf_parts (putPool i (s', p'))"
    using wf_parts_accounts_only [OF m wf] w
    by (auto simp: wf_parts_def putPool_def wf_accounts_def wf_pools_def wf_escrows_def wf_guards_def clock_ok_def Get_def)
  ultimately show ?thesis using m by (simp add: rule_step_def gap_def putPool_def accounts_only_def same_rest_def Get_def)
qed

lemma putEscrow_step:
  assumes wf: "wf_parts s" and m: "accounts_only s s'" and w: "wf_escrow e'" and a: "eAsset e' = a"
    and tot: "\<And>k. acctTotal s' k + (if a = k then eBalance e' else 0) =
      acctTotal s k + (case fmlookup (stEscrows s) i of None \<Rightarrow> 0 | Some e \<Rightarrow> if eAsset e = k then eBalance e else 0) +
      (if a = k then v else 0)"
  shows "rule_step v a s (putEscrow i (s', e'))"
proof -
  have "total (putEscrow i (s', e')) k = total s k + (if a = k then v else 0)" for k
  proof -
    have "escrowsTotal (putEscrow i (s', e')) k = escrowsTotal s k -
        (case fmlookup (stEscrows s) i of None \<Rightarrow> 0 | Some e \<Rightarrow> if eAsset e = k then eBalance e else 0) +
        (if a = k then eBalance e' else 0)"
      using m a by (simp add: escrowsTotal_def putEscrow_def fmsum_upd accounts_only_def)
    moreover have "acctTotal (putEscrow i (s', e')) k = acctTotal s' k" by (simp add: putEscrow_def acctTotal_def)
    moreover have "poolsTotal (putEscrow i (s', e')) k = poolsTotal s k"
      using m by (simp add: putEscrow_def poolsTotal_def accounts_only_def)
    ultimately show ?thesis
      unfolding total_def using book_entry [OF _ tot [of k], of _ "escrowsTotal s k" "poolsTotal s k"]
      by (simp only: ac_simps)
  qed
  moreover have "supplyOf (putEscrow i (s', e')) k = supplyOf s k" for k
    using m by (simp add: putEscrow_def supplyOf_def accounts_only_def)
  moreover have "wf_parts (putEscrow i (s', e'))"
    using wf_parts_accounts_only [OF m wf] w
    by (auto simp: wf_parts_def putEscrow_def wf_accounts_def wf_pools_def wf_escrows_def wf_guards_def clock_ok_def Get_def)
  ultimately show ?thesis using m by (simp add: rule_step_def gap_def putEscrow_def accounts_only_def same_rest_def Get_def)
qed

lemma map_sum_Inr: "map_sum id f x = Inr y \<longleftrightarrow> (\<exists>z. x = Inr z \<and> y = f z)"
  by (cases x) auto

subsubsection \<open>Pools\<close>

definition poolInflow :: "State \<Rightarrow> Tx \<Rightarrow> PoolOp \<Rightarrow> amount" where
  "poolInflow s tx op =
     (if poOp op = OpPoolCreate then poDeposit op
      else case fmlookup (stPools s) (poID op) of None \<Rightarrow> 0
      | Some p \<Rightarrow> (case index p (txFrom tx) of None \<Rightarrow> 0 | Some i \<Rightarrow> inflow op p i))"

lemma poolOp_step:
  assumes wf: "wf_parts s" and chk: "checkPoolOp tx op = None" and ok: "poolOp sha s tx op = Inr s'"
  shows "rule_step (poolInflow s tx op) (txAsset tx) s s'"
proof (cases "poOp op = OpPoolCreate")
  case True
  define pid where "pid = ID sha tx"
  obtain i where i: "indexFrom 0 (poMembers op) (txFrom tx) = Some i"
    and s': "s' = putPool pid (s, newPool s tx op pid i)" and new: "fmlookup (stPools s) pid = None"
    using ok True by (auto simp: poolOp_def Let_def pid_def split: if_splits option.splits)
  have chk': "checkPoolCreate tx op = None" using chk True by (simp add: checkPoolOp_def split: if_splits)
  have "i < length (poMembers op)" using indexFrom_Some [OF i] by simp
  note n = newPool_ok [OF chk' this, of s pid]
  show ?thesis
    unfolding s' using True by (intro putPool_step) (simp_all add: wf n new poolInflow_def)
next
  case False
  obtain p i s1 p1 where p: "fmlookup (stPools s) (poID op) = Some p" and i: "index p (txFrom tx) = Some i"
    and as: "txAsset tx = pAsset p" and m: "memberOp sha s tx op p i = Inr (s1, p1)"
    and s': "s' = putPool (poID op) (s1, p1)"
    using ok False by (auto simp: poolOp_def map_sum_Inr split: if_splits option.splits)
  have w: "wf_pool p" using wf p by (simp add: wf_parts_def wf_pools_def)
  have il: "i < members_n p" using index_Some [OF i] by simp
  note mo = memberOp_ok [OF w il m]
  have as1: "pAsset p1 = txAsset tx" using mo(2) as by (simp add: moves_def pool_fixed_def)
  have in': "poolInflow s tx op = inflow op p i" using False p i by (simp add: poolInflow_def)
  show ?thesis
    unfolding s' in'
  proof (rule putPool_step [OF wf _ mo(1) as1])
    show "accounts_only s s1" using mo(2) by (simp add: moves_def)
    show "acctTotal s1 k + (if txAsset tx = k then poolValue p1 else 0) = acctTotal s k +
      (case fmlookup (stPools s) (poID op) of None \<Rightarrow> 0 | Some p \<Rightarrow> if pAsset p = k then poolValue p else 0) +
      (if txAsset tx = k then inflow op p i else 0)" for k
    proof -
      have "poolTotal (s1, p1) k = poolTotal (s, p) k + (if pAsset p = k then inflow op p i else 0)"
        using mo(2) unfolding moves_def snd_conv by blast
      then show ?thesis by (simp only: poolTotal_def fst_conv snd_conv as as1 p option.case)
    qed
  qed
qed

subsubsection \<open>Escrows\<close>

lemma checkMilestones_total:
  "checkMilestones acc ms = None \<Longrightarrow>
   unat (foldl (+) acc ms) = unat acc + sum_list (map unat ms) \<and> unat acc + sum_list (map unat ms) < 2 ^ 64"
proof (induction acc ms rule: checkMilestones.induct)
  case (1 acc)
  then show ?case using unat64_lt [of acc] by simp
next
  case (2 acc m ms)
  then have n: "m \<noteq> 0" "\<not> acc + m < acc" and c: "checkMilestones (acc + m) ms = None" by (auto split: if_splits)
  have "unat (acc + m) = unat acc + unat m"
    using n no_plus_overflow_unat_size [of acc m] by (intro unat_add64) (simp add: word_size not_less)
  moreover have "unat (foldl (+) (acc + m) ms) = unat (acc + m) + sum_list (map unat ms) \<and>
      unat (acc + m) + sum_list (map unat ms) < 2 ^ 64"
    using "2.IH" n c by simp
  ultimately show ?case by simp
qed

lemma newEscrow_wf:
  assumes "checkEscrowOp tx op = None" "eoOp op = OpEscrowCreate"
  shows "wf_escrow (newEscrow s tx op eid)"
proof -
  have m: "checkMilestones 0 (eoMilestones op) = None" "eoMilestones op \<noteq> []" "\<not> eoArbiterBps op > 500"
    using assms by (auto simp: checkEscrowOp_def split: if_splits)
  have "unat (eoArbiterBps op) \<le> 500" using m(3) by (simp add: not_less word_le_nat_alt)
  then show ?thesis
    using checkMilestones_total [OF m(1)] m(2)
    by (simp add: wf_escrow_def newEscrow_def Open_def books_def locked_def Total_def)
qed

definition escrowInflow :: "EscrowOp \<Rightarrow> amount" where
  "escrowInflow op = (if eoOp op = OpEscrowCreate then Total op else 0)"

lemma escrowOp_step:
  assumes wf: "wf_parts s" and chk: "checkEscrowOp tx op = None" and ok: "escrowOp sha s tx op = Inr s'"
  shows "rule_step (escrowInflow op) (txAsset tx) s s'"
proof (cases "eoOp op = OpEscrowCreate")
  case True
  define eid where "eid = ID sha tx"
  have s': "s' = putEscrow eid (s, newEscrow s tx op eid)" and new: "fmlookup (stEscrows s) eid = None"
    using ok True by (auto simp: escrowOp_def Let_def eid_def split: if_splits)
  have "eBalance (newEscrow s tx op eid) = Total op" "eAsset (newEscrow s tx op eid) = txAsset tx"
    by (simp_all add: newEscrow_def)
  then show ?thesis
    unfolding s' using True newEscrow_wf [OF chk True]
    by (intro putEscrow_step) (simp_all add: wf new escrowInflow_def)
next
  case False
  obtain e s1 e1 where e: "fmlookup (stEscrows s) (eoID op) = Some e" and o: "Open e"
    and as: "txAsset tx = eAsset e" and m: "escrowStep s tx op e = Inr (s1, e1)"
    and s': "s' = putEscrow (eoID op) (s1, e1)"
    using ok False by (auto simp: escrowOp_def map_sum_Inr split: if_splits option.splits)
  have w: "wf_escrow e" using wf e by (simp add: wf_parts_def wf_escrows_def)
  note st = escrowStep_ok [OF w o m]
  have as1: "eAsset e1 = txAsset tx" using st(2) as by (simp add: emoves_def escrow_fixed_def)
  have z: "escrowInflow op = 0" using False by (simp add: escrowInflow_def)
  show ?thesis
    unfolding s' z
  proof (rule putEscrow_step [OF wf _ st(1) as1])
    show "accounts_only s s1" using st(2) by (simp add: emoves_def)
    show "acctTotal s1 k + (if txAsset tx = k then eBalance e1 else 0) = acctTotal s k +
      (case fmlookup (stEscrows s) (eoID op) of None \<Rightarrow> 0 | Some e \<Rightarrow> if eAsset e = k then eBalance e else 0) +
      (if txAsset tx = k then 0 else 0)" for k
    proof -
      have "escrowTotal (s1, e1) k = escrowTotal (s, e) k" using st(2) unfolding emoves_def by blast
      then show ?thesis by (simp add: escrowTotal_def as as1 e cong: if_cong)
    qed
  qed
qed

subsubsection \<open>Recovery\<close>

lemma checkGuardians_distinct: "checkGuardians from seen as = None \<Longrightarrow> distinct as \<and> set as \<inter> set seen = {}"
  by (induction "from" seen as rule: checkGuardians.induct) (auto split: option.splits if_splits)

lemma putGuard_step:
  assumes wf: "wf_parts s" and g: "wf_guard a g" and c: "\<And>r. gPending g = Some r \<Longrightarrow> rStartedAt r \<le> stNow s"
  shows "rule_step 0 k s (putGuard a g s)"
  using assms
  by (auto simp: rule_step_def wf_parts_def putGuard_def wf_accounts_def wf_pools_def wf_escrows_def wf_guards_def
      clock_ok_def Get_def gap_def total_def supplyOf_def acctTotal_def poolsTotal_def escrowsTotal_def same_rest_def)

lemma guardOp_step:
  assumes wf: "wf_parts s" and chk: "checkGuardOp tx op = None" and ok: "guardOp s tx op = Inr s'"
  shows "rule_step 0 k s s'"
proof (cases "goOp op = OpGuardSet")
  case True
  have d: "distinct (goGuardians op)" using chk True checkGuardians_distinct [of "txFrom tx" "[]" "goGuardians op"]
    by (auto simp: checkGuardOp_def split: if_splits option.splits)
  have b: "1 \<le> goThreshold op" "goThreshold op \<le> int (length (goGuardians op))" "3600 \<le> goDelaySecs op"
    "goDelaySecs op \<le> 2592000"
    using chk True by (auto simp: checkGuardOp_def split: if_splits option.splits)
  obtain g where s': "s' = putGuard (txFrom tx) g s" and g: "g =
      \<lparr>gGuardians = goGuardians op, gThreshold = goThreshold op, gDelaySecs = goDelaySecs op, gPending = None\<rparr>"
    using ok True by (auto simp: guardOp_def guardSet_def split: if_splits)
  show ?thesis unfolding s' using wf d b by (intro putGuard_step) (simp_all add: g wf_guard_def)
next
  case False
  obtain g where g: "fmlookup (stGuards s) (goAccount op) = Some g"
    using ok False by (auto simp: guardOp_def split: option.splits)
  have w: "wf_guard (goAccount op) g" and t: "sane_time (stNow s)"
    and c: "\<And>r. gPending g = Some r \<Longrightarrow> rStartedAt r \<le> stNow s"
    using wf g by (auto simp: wf_parts_def wf_guards_def clock_ok_def)
  consider
      (start) g' where "goOp op = OpGuardStart" "startRecovery s tx op g = Inr g'" "s' = putGuard (goAccount op) g' s"
    | (approve) g' where "approveRecovery s tx op g = Inr g'" "s' = putGuard (goAccount op) g' s"
    | (cancel) g' where "cancelRecovery tx op g = Inr g'" "s' = putGuard (goAccount op) g' s"
    | (finish) r where "finishRecovery s g = Inr r" "s' = moveAccount s (goAccount op) (rNewOwner r) g"
    using ok False g by (auto simp: guardOp_def Let_def map_sum_Inr split: if_splits)
  then show ?thesis
  proof cases
    case start
    have "goNewOwner op \<noteq> goAccount op"
      using chk start(1) by (auto simp: checkGuardOp_def split: if_splits option.splits)
    then show ?thesis
      using startRecovery_wf [OF w t _ start(2)] wf unfolding start(3) by (intro putGuard_step) simp_all
  next
    case approve
    obtain r where r: "gPending g = Some r"
      using approve(1) by (auto simp: approveRecovery_def split: if_splits option.splits)
    show ?thesis
      using approveRecovery_wf [OF w t r c [OF r] approve(1)] wf unfolding approve(2) by (intro putGuard_step) simp_all
  next
    case cancel
    show ?thesis
      using cancelRecovery_wf [OF w cancel(1)] wf unfolding cancel(2) by (intro putGuard_step) simp_all
  next
    case finish
    have ne: "goAccount op \<noteq> rNewOwner r" using finishRecovery_safe(5) [OF w finish(1)] by simp
    have ww: "wf_accounts s" "wf_pools s" "wf_escrows s" "wf_guards s" "clock_ok s"
      using wf by (simp_all add: wf_parts_def)
    note mw = moveAccount_wf [OF ww w, of "rNewOwner r"] and mt = moveAccount_total [OF ww(1) ne]
    have o: "accounts_only s (creditAll (Get s (goAccount op)) (rNewOwner r) s)" by (rule creditAll_only)
    then have "acNonce (Get s' b) = acNonce (Get s b)" for b
      by (auto simp: finish(2) moveAccount_def Let_def accounts_only_def Get_def zeroAccount_def)
    moreover have "supplyOf s' k = supplyOf s k" "stAssetDefs s' = stAssetDefs s" "stMinFee s' = stMinFee s"
      "stNow s' = stNow s" "stSupply s' = stSupply s" "stBurned s' = stBurned s" for k
      using o by (simp_all add: finish(2) moveAccount_def Let_def supplyOf_def accounts_only_def)
    ultimately have "same_rest s s'" "supplyOf s' k = supplyOf s k" for k by (simp_all add: same_rest_def)
    then show ?thesis using mw mt by (simp add: rule_step_def wf_parts_def gap_def finish(2))
  qed
qed

subsubsection \<open>Transfers, mints and burns\<close>

lemma addAssetSupply_gap:
  "k \<noteq> '''' \<Longrightarrow> gap (addAssetSupply s k v) l = gap s l - (if k = l then v else 0)"
  by (simp add: gap_def total_def supplyOf_def addAssetSupply_def acctTotal_def poolsTotal_def escrowsTotal_def)

lemma addAssetSupply_parts: "wf_parts s \<Longrightarrow> wf_parts (addAssetSupply s k v)"
  by (simp add: wf_parts_def addAssetSupply_def wf_accounts_def wf_pools_def wf_escrows_def wf_guards_def clock_ok_def Get_def)

lemma addAssetSupply_rest: "same_rest s (addAssetSupply s k v)"
  by (simp add: same_rest_def addAssetSupply_def Get_def)

lemma gap_accounts_only:
  "accounts_only s s' \<Longrightarrow> gap s' k = gap s k - acctTotal s k + acctTotal s' k"
  by (simp add: gap_def total_accounts_only supplyOf_accounts_only)

lemma transfer_step:
  assumes "wf_parts s" "transfer s tx = Inr s'"
  shows "rule_step (txAmount tx) (txAsset tx) s s'"
proof -
  have s': "s' = credit s (txTo tx) (txAsset tx) (txAmount tx)" using assms(2) by (auto simp: transfer_def split: if_splits)
  have "accounts_only s s'" unfolding s' by simp
  then show ?thesis
    using wf_parts_accounts_only [OF _ assms(1)] gap_accounts_only [of s s'] same_rest_accounts_only [of s s']
    by (simp add: rule_step_def) (simp add: s' money_simps)
qed

lemma mint_step:
  assumes "wf_parts s" "mint s tx = Inr s'" "txAsset tx \<noteq> ''''"
  shows "rule_step 0 (txAsset tx) s s'"
proof -
  define s1 where "s1 = credit s (txTo tx) (txAsset tx) (txAmount tx)"
  have s': "s' = addAssetSupply s1 (txAsset tx) (txAmount tx)"
    using assms(2) by (auto simp: mint_def Let_def s1_def split: if_splits)
  have o: "accounts_only s s1" unfolding s1_def by simp
  have "gap s' k = gap s k" for k
    using assms(3) gap_accounts_only [OF o, of k] by (simp add: s' addAssetSupply_gap) (simp add: s1_def money_simps)
  moreover have "wf_parts s'" unfolding s' by (intro addAssetSupply_parts wf_parts_accounts_only [OF o assms(1)])
  ultimately show ?thesis 
    using same_rest_trans [OF same_rest_accounts_only [OF o] addAssetSupply_rest] by (simp add: rule_step_def s')
qed

lemma burn_step:
  assumes "wf_parts s" "burn s tx = Inr s'" "txAsset tx \<noteq> ''''"
  shows "rule_step (txAmount tx) (txAsset tx) s s'"
proof -
  have s': "s' = addAssetSupply s (txAsset tx) (- txAmount tx)" using assms(2) by (simp add: burn_def)
  show ?thesis
    using assms(1,3) addAssetSupply_parts [OF assms(1)] addAssetSupply_rest
    by (simp add: rule_step_def s' addAssetSupply_gap)
qed

subsubsection \<open>Every transaction\<close>

lemma index_inflow_cost:
  "checkPoolOp tx op = None \<Longrightarrow> poolOp sha s tx op = Inr s' \<Longrightarrow>
   poolCost s tx op = poolInflow s tx op + txFee tx"
  by (auto simp: poolCost_def poolInflow_def inflow_def poolOp_def checkPoolOp_def Let_def
      split: if_splits option.splits)

text \<open>A rule brings in what the sender is charged for it, beyond the fee.\<close>

lemma effect_step:
  assumes wf: "wf_parts s" and chk: "checkBody tx = None" and ok: "effect sha s tx = Inr s'"
  shows "rule_step (Cost s tx - txFee tx) (txAsset tx) s s'"
proof (cases "txGuard tx")
  case (Some g)
  then have c: "checkGuardOp tx g = None" and p: "txKind tx = ''''" "txPool tx = None" "txEscrow tx = None"
    "txAmount tx = 0"
    using chk by (auto simp: checkBody_def split: if_splits)
  have "Cost s tx - txFee tx = 0" using p by (simp add: Cost_def createsEscrow_def)
  then show ?thesis using guardOp_step [OF wf c] ok Some by (simp add: effect_def)
next
  case ng: None
  show ?thesis
  proof (cases "txEscrow tx")
    case (Some x)
    then have c: "checkEscrowOp tx x = None" and p: "txKind tx = ''''" "txPool tx = None"
      using chk ng by (auto simp: checkBody_def split: if_splits)
    have "txAmount tx = 0" using c by (auto simp: checkEscrowOp_def split: if_splits)
    then have "Cost s tx - txFee tx = escrowInflow x" using p Some by (simp add: Cost_def createsEscrow_def escrowInflow_def)
    then show ?thesis using escrowOp_step [OF wf c] ok Some ng by (simp add: effect_def)
  next
    case ne: None
    show ?thesis
    proof (cases "txPool tx")
      case (Some op)
      then have c: "checkPoolOp tx op = None" and p: "txKind tx = ''''"
        using chk ng ne by (auto simp: checkBody_def split: if_splits)
      have po: "poolOp sha s tx op = Inr s'" using ok Some ng ne by (simp add: effect_def)
      have "Cost s tx - txFee tx = poolInflow s tx op"
        using p ne Some index_inflow_cost [OF c po] by (simp add: Cost_def createsEscrow_def)
      then show ?thesis using poolOp_step [OF wf c po] by simp
    next
      case np: None
      note body = chk [unfolded checkBody_def ng ne np option.case]
      note eff = ok [unfolded effect_def ng ne np option.case]
      have cost: "Cost s tx = (if txKind tx = KindMint then 0 else txAmount tx + txFee tx)"
        by (simp add: Cost_def createsEscrow_def ne np)
      consider "txKind tx = ''''" | "txKind tx = KindMint" "checkMint tx = None"
        | "txKind tx = KindBurn" "checkBurn tx = None"
        using body by (auto split: if_splits)
      then show ?thesis
      proof cases
        case 1
        then show ?thesis using eff cost transfer_step [OF wf, of tx s'] by simp
      next
        case 2
        then have "txAsset tx \<noteq> ''''" "txFee tx = 0" by (auto simp: checkMint_def split: if_splits option.splits)
        then show ?thesis using 2(1) eff cost mint_step [OF wf, of tx s'] by simp
      next
        case 3
        then have "txAsset tx \<noteq> ''''" by (auto simp: checkBurn_def split: if_splits)
        then show ?thesis using 3(1) eff cost burn_step [OF wf, of tx s'] by simp
      qed
    qed
  qed
qed

subsection \<open>The charge\<close>

lemma bumpNonce_Get: "Get (bumpNonce s a) b = (if a = b then (Get s a)\<lparr>acNonce := acNonce (Get s a) + 1\<rparr> else Get s b)"
  by (simp add: bumpNonce_def Get_def)

lemma bumpNonce_Balance [simp]: "Balance (bumpNonce s a) b k = Balance s b k"
  by (simp add: Balance_def bumpNonce_Get accBalance_def)

lemma bumpNonce_acctTotal [simp]: "acctTotal (bumpNonce s a) k = acctTotal s k"
proof -
  have "accBalance ((Get s a)\<lparr>acNonce := n\<rparr>) k = Balance s a k" for n by (simp add: Balance_def accBalance_def)
  then show ?thesis by (simp add: acctTotal_def bumpNonce_def fmsum_upd Get_accBalance)
qed

lemma bumpNonce_frame [simp]:
  "stPools (bumpNonce s a) = stPools s" "stEscrows (bumpNonce s a) = stEscrows s"
  "stSupply (bumpNonce s a) = stSupply s" "stBurned (bumpNonce s a) = stBurned s"
  "stMinFee (bumpNonce s a) = stMinFee s" "stAssetDefs (bumpNonce s a) = stAssetDefs s"
  "stAssetSupply (bumpNonce s a) = stAssetSupply s" "stGuards (bumpNonce s a) = stGuards s"
  "stRecoveredTo (bumpNonce s a) = stRecoveredTo s" "stNow (bumpNonce s a) = stNow s"
  by (simp_all add: bumpNonce_def)

lemma bumpNonce_gap [simp]: "gap (bumpNonce s a) k = gap s k"
  by (simp add: gap_def total_def poolsTotal_def escrowsTotal_def supplyOf_def)

lemma bumpNonce_parts: "wf_parts s \<Longrightarrow> wf_parts (bumpNonce s a)"
  by (auto simp: wf_parts_def wf_accounts_def wf_pools_def wf_escrows_def wf_guards_def clock_ok_def bumpNonce_Get)

lemma payFee_gap: "gap (payFee s tx) k = gap s k + (if txAsset tx = k then txFee tx else 0)"
proof (cases "txFee tx > 0")
  case False
  then show ?thesis by (simp add: payFee_def word_gt_0)
next
  case True
  show ?thesis
  proof (cases "txAsset tx = ''''")
    case orp: True
    with True show ?thesis
      by (simp add: payFee_def gap_def total_def acctTotal_def poolsTotal_def escrowsTotal_def supplyOf_def)
  next
    case False
    have "accounts_only s (payFee s tx)" using True False by (simp add: payFee_def)
    from gap_accounts_only [OF this, of k] True False show ?thesis by (simp add: payFee_def money_simps)
  qed
qed

lemma payFee_parts: "wf_parts s \<Longrightarrow> wf_parts (payFee s tx)"
  using wf_parts_accounts_only [of s "credit s (adIssuer (getd zeroAssetDef (stAssetDefs s) (txAsset tx))) (txAsset tx) (txFee tx)"]
  by (auto simp: payFee_def wf_parts_def wf_accounts_def wf_pools_def wf_escrows_def wf_guards_def clock_ok_def Get_def)

lemma charge_gap:
  "gap (charge s tx c) k = gap s k - (if txAsset tx = k then c - txFee tx else 0)"
proof -
  let ?s1 = "setBalance s (txFrom tx) (txAsset tx) (Balance s (txFrom tx) (txAsset tx) - c)"
  have "gap ?s1 k = gap s k - (if txAsset tx = k then c else 0)"
    using gap_accounts_only [of s ?s1 k] by (simp add: money_simps)
  then show ?thesis by (simp add: charge_def payFee_gap)
qed

lemma charge_parts: "wf_parts s \<Longrightarrow> wf_parts (charge s tx c)"
  unfolding charge_def
  by (intro payFee_parts bumpNonce_parts wf_parts_accounts_only [OF accounts_only_setBalance])

lemma wf_state_parts: "wf_state s \<longleftrightarrow> wf_parts s \<and> (\<forall>k. gap s k = 0)"
  by (auto simp: wf_state_def wf_parts_def conserved_def gap_def)

lemma Apply_Inr:
  assumes "Apply sha s tx = Inr s'"
  obtains s1 where "precheck s tx = None" "effect sha s tx = Inr s1" "s' = charge s1 tx (Cost s tx)"
  using assms by (auto simp: Apply_def split: option.splits sum.splits)

lemma Apply_wf_state:
  assumes wf: "wf_state s" and chk: "checkBody tx = None" and ok: "Apply sha s tx = Inr s'"
  shows "wf_state s'"
proof -
  obtain s1 where e: "effect sha s tx = Inr s1" and s': "s' = charge s1 tx (Cost s tx)"
    using Apply_Inr [OF ok] by blast
  have w: "wf_parts s" and g: "gap s k = 0" for k using wf by (simp_all add: wf_state_parts)
  note st = effect_step [OF w chk e, unfolded rule_step_def]
  have "gap s' k = 0" for k using st g by (simp add: s' charge_gap)
  then show ?thesis using st charge_parts unfolding s' wf_state_parts by blast
qed

end
