(* ===== verification/Ledger_Properties.thy ===== *)
theory Ledger_Properties
  imports Ledger_Apply
begin

text \<open>
  What the ledger promises, over whole runs: from a well-formed state every sequence of
  accepted transactions and clock ticks keeps the books balanced and every pool, escrow and
  recovery setup in order; nonces count exactly the accepted transactions of a sender, so no
  transaction is ever accepted twice; and no rule creates ORP.
\<close>

subsection \<open>Runs of the ledger\<close>

text \<open>
  One step: the block time moves forward, or a transaction that passed the stateless checks is
  applied.
\<close>

inductive ledger_step :: "(bytes \<Rightarrow> hash) \<Rightarrow> State \<Rightarrow> State \<Rightarrow> bool" for sha where
  tick: "stNow s \<le> t \<Longrightarrow> sane_time t \<Longrightarrow> ledger_step sha s (s\<lparr>stNow := t\<rparr>)"
| tx: "checkBody tx = None \<Longrightarrow> Apply sha s tx = Inr s' \<Longrightarrow> ledger_step sha s s'"

definition reachable :: "(bytes \<Rightarrow> hash) \<Rightarrow> State \<Rightarrow> State \<Rightarrow> bool" where
  "reachable sha = (ledger_step sha)\<^sup>*\<^sup>*"

inductive_cases ledger_stepE: "ledger_step sha s s'"

lemma tick_wf:
  assumes "wf_state s" "stNow s \<le> t" "sane_time t"
  shows "wf_state (s\<lparr>stNow := t\<rparr>)"
proof -
  have "total (s\<lparr>stNow := t\<rparr>) k = total s k" "supplyOf (s\<lparr>stNow := t\<rparr>) k = supplyOf s k" for k
    by (simp_all add: total_def acctTotal_def poolsTotal_def escrowsTotal_def supplyOf_def)
  with assms show ?thesis
    by (fastforce simp: wf_state_def wf_accounts_def wf_pools_def wf_escrows_def wf_guards_def clock_ok_def
        conserved_def Get_def)
qed

lemma ledger_step_wf: "ledger_step sha s s' \<Longrightarrow> wf_state s \<Longrightarrow> wf_state s'"
  by (elim ledger_stepE) (auto intro: tick_wf Apply_wf_state)

lemma reachable_wf: "reachable sha s s' \<Longrightarrow> wf_state s \<Longrightarrow> wf_state s'"
  unfolding reachable_def by (induction rule: rtranclp_induct) (auto intro: ledger_step_wf)

text \<open>An empty ledger, and one with its genesis allocation, are well formed.\<close>

lemma New_wf: "sane_time t \<Longrightarrow> wf_state ((New fee)\<lparr>stNow := t\<rparr>)"
  by (simp add: wf_state_def New_def wf_accounts_def Get_def zeroAccount_def wf_pools_def wf_escrows_def
      wf_guards_def clock_ok_def conserved_def total_def acctTotal_def poolsTotal_def escrowsTotal_def supplyOf_def)

lemma CreditGenesis_wf:
  assumes "wf_state s" "CreditGenesis s a amt = Inr s'"
  shows "wf_state s'"
proof -
  define c where "c = credit s a '''' amt"
  have s': "s' = c\<lparr>stSupply := stSupply c + amt\<rparr>"
    using assms(2) by (auto simp: CreditGenesis_def Let_def c_def credit_def setBalance_def accSetBalance_def
        Balance_def accBalance_def split: if_splits)
  have o: "accounts_only s c" by (simp add: c_def)
  have w: "wf_parts s" "gap s k = 0" for k using assms(1) by (simp_all add: wf_state_parts)
  have "wf_parts s'" using wf_parts_accounts_only [OF o w(1)]
    by (simp add: s' wf_parts_def wf_accounts_def wf_pools_def wf_escrows_def wf_guards_def clock_ok_def Get_def)
  moreover have "gap s' k = gap c k - (if k = '''' then amt else 0)" for k
    by (simp add: s' gap_def total_def supplyOf_def acctTotal_def poolsTotal_def escrowsTotal_def)
  moreover have "gap c k = (if k = '''' then amt else 0)" for k
    using gap_accounts_only [OF o, of k] w(2) by (simp add: c_def money_simps)
  ultimately show ?thesis by (simp add: wf_state_parts)
qed

subsection \<open>Nonces\<close>

lemma Apply_nonce:
  assumes wf: "wf_state s" and chk: "checkBody tx = None" and ok: "Apply sha s tx = Inr s'"
  shows "acNonce (Get s' a) = (if a = txFrom tx then txNonce tx + 1 else acNonce (Get s a))"
    and "txNonce tx = acNonce (Get s (txFrom tx))"
    and "stAssetDefs s' = stAssetDefs s" "stMinFee s' = stMinFee s"
    and "stSupply s' + stBurned s' = stSupply s + stBurned s"
proof -
  obtain s1 where pre: "precheck s tx = None" and e: "effect sha s tx = Inr s1" and s': "s' = charge s1 tx (Cost s tx)"
    using Apply_Inr [OF ok] by blast
  have "wf_parts s" using wf by (simp add: wf_state_parts)
  then have r: "same_rest s s1" using effect_step [OF _ chk e] by (simp add: rule_step_def)
  show n: "txNonce tx = acNonce (Get s (txFrom tx))" using pre by (auto simp: precheck_def split: if_splits)
  have f: "acNonce (Get (payFee t tx) a) = acNonce (Get t a)" for t
    by (cases "txAsset tx = ''''") (simp_all add: payFee_def, simp_all add: Get_def)
  show "acNonce (Get s' a) = (if a = txFrom tx then txNonce tx + 1 else acNonce (Get s a))"
    using r n by (simp add: s' charge_def f bumpNonce_Get same_rest_def)
  show "stAssetDefs s' = stAssetDefs s" "stMinFee s' = stMinFee s"
    "stSupply s' + stBurned s' = stSupply s + stBurned s"
    using r by (simp_all add: s' charge_def payFee_def same_rest_def)
qed

text \<open>A block's transactions, applied in order; the first error stops.\<close>

fun ApplyAll :: "(bytes \<Rightarrow> hash) \<Rightarrow> State \<Rightarrow> Tx list \<Rightarrow> err + State" where
  "ApplyAll sha s [] = Inr s"
| "ApplyAll sha s (tx # txs) = (case Apply sha s tx of Inl e \<Rightarrow> Inl e | Inr s' \<Rightarrow> ApplyAll sha s' txs)"

lemma ApplyAll_nonce:
  "ApplyAll sha s txs = Inr s' \<Longrightarrow> wf_state s \<Longrightarrow> \<forall>tx\<in>set txs. checkBody tx = None \<Longrightarrow>
   wf_state s' \<and> acNonce (Get s' a) = acNonce (Get s a) + of_nat (length (filter (\<lambda>tx. txFrom tx = a) txs)) \<and>
   stAssetDefs s' = stAssetDefs s \<and> stMinFee s' = stMinFee s"
proof (induction sha s txs rule: ApplyAll.induct)
  case (1 sha s)
  then show ?case by simp
next
  case (2 sha s tx txs)
  then obtain s1 where s1: "Apply sha s tx = Inr s1" and r: "ApplyAll sha s1 txs = Inr s'"
    by (auto split: sum.splits)
  have c: "checkBody tx = None" using "2.prems"(3) by simp
  note n = Apply_nonce [OF "2.prems"(2) c s1]
  have "wf_state s1" using Apply_wf_state [OF "2.prems"(2) c s1] .
  then show ?case using "2.IH" [OF s1 r] "2.prems"(3) n by (auto simp: algebra_simps)
qed

lemma word64_gt_of_nat:
  fixes m :: "64 word"
  assumes "unat m + n < 2 ^ 64" "0 < n"
  shows "m < m + of_nat n"
proof -
  have "unat (of_nat n :: 64 word) = n" using assms(1) by (intro unat_of_nat64) simp
  then have "unat (m + of_nat n) = unat m + n" using assms(1) by (simp add: unat_add64)
  then show ?thesis using assms(2) by (simp add: word_less_nat_alt)
qed

subsection \<open>A small ledger to evaluate on\<close>

definition demo_a :: addr where "demo_a = replicate 64 (CHR ''a'')"
definition demo_b :: addr where "demo_b = replicate 64 (CHR ''b'')"
definition demo_c :: addr where "demo_c = replicate 64 (CHR ''c'')"

definition demo_sha :: "bytes \<Rightarrow> hash" where "demo_sha x = []"

definition demo_state :: State where
  "demo_state = projr (CreditGenesis ((New 10)\<lparr>stNow := 1\<rparr>) demo_a 1000)"

definition demo_tx :: Tx where
  "demo_tx = \<lparr>txChainID = ''demo'', txFrom = demo_a, txTo = demo_b, txAmount = 200, txFee = 10, txNonce = 0,
     txMemo = '''', txKind = '''', txAsset = '''', txPool = None, txEscrow = None, txGuard = None, txSig = []\<rparr>"

definition demo_after :: State where
  "demo_after = projr (Apply demo_sha demo_state demo_tx)"

lemma demo_neq: "demo_a \<noteq> demo_b" "demo_a \<noteq> demo_c" "demo_b \<noteq> demo_c"
  by code_simp+

lemma demo_state_wf: "wf_state demo_state"
proof -
  have "\<not> isl (CreditGenesis ((New 10)\<lparr>stNow := 1\<rparr>) demo_a 1000)" by code_simp
  then have "CreditGenesis ((New 10)\<lparr>stNow := 1\<rparr>) demo_a 1000 = Inr demo_state"
    by (simp add: demo_state_def)
  moreover have "wf_state ((New 10)\<lparr>stNow := 1\<rparr>)" by (rule New_wf) (simp add: sane_time_def)
  ultimately show ?thesis by (rule CreditGenesis_wf [rotated])
qed

lemma demo_check: "checkBody demo_tx = None"
  by code_simp

lemma demo_Apply: "Apply demo_sha demo_state demo_tx = Inr demo_after"
proof -
  have "\<not> isl (Apply demo_sha demo_state demo_tx)" by code_simp
  then show ?thesis by (simp add: demo_after_def)
qed

subsection \<open>Properties\<close>

text \<open>
  C1: books and invariants. In every state reached from a well-formed one by transactions that
  passed the stateless checks and by clock ticks, what accounts, pools and escrows hold of each
  asset equals the supply counter (modulo \<open>2^64\<close>), every pool and escrow is well formed, and
  every recovery setup respects its threshold and delay.
\<close>

theorem reachable_keeps_books:
  assumes "wf_state s" and "reachable sha s s'"
  shows "(\<forall>k. total s' k = supplyOf s' k) \<and> wf_pools s' \<and> wf_escrows s' \<and> wf_guards s'"
  using reachable_wf [OF assms(2,1)] by (simp add: wf_state_def conserved_def)

theorem reachable_keeps_books_witness:
  "total demo_after '''' = supplyOf demo_after ''''"
proof -
  have "reachable demo_sha demo_state demo_after"
    unfolding reachable_def by (intro r_into_rtranclp ledger_step.tx [OF demo_check demo_Apply])
  from reachable_keeps_books [OF demo_state_wf this] show ?thesis by blast
qed

text \<open>
  Nonces. An accepted transaction carries exactly its sender's nonce, raises it by one and
  leaves every other account's nonce alone.
\<close>

theorem apply_counts_nonce:
  assumes "wf_state s" and "checkBody tx = None" and "Apply sha s tx = Inr s'"
  shows "txNonce tx = acNonce (Get s (txFrom tx)) \<and>
    (\<forall>a. acNonce (Get s' a) = (if a = txFrom tx then txNonce tx + 1 else acNonce (Get s a)))"
  using Apply_nonce [OF assms] by blast

theorem apply_counts_nonce_witness: "acNonce (Get demo_after demo_a) = 1"
  using apply_counts_nonce [OF demo_state_wf demo_check demo_Apply] by (simp add: demo_tx_def)

text \<open>
  C5: no replay. Once a transaction was accepted and any further block of checked transactions
  has been applied, submitting it again fails with \<open>ErrNonceTooLow\<close>, as long as the sender's
  nonce has not gone round \<open>2^64\<close>.
\<close>

theorem applied_tx_never_replays:
  assumes "wf_state s" and "checkBody tx = None" and "Apply sha s tx = Inr s1"
    and "\<forall>t\<in>set txs. checkBody t = None" and "ApplyAll sha s1 txs = Inr s2"
    and "unat (txNonce tx) + length txs + 1 < 2 ^ 64"
  shows "Apply sha s2 tx = Inl ErrNonceTooLow"
proof -
  have pre: "precheck s tx = None" by (rule Apply_Inr [OF assms(3)])
  let ?n = "length (filter (\<lambda>t. txFrom t = txFrom tx) txs)"
  have w1: "wf_state s1" by (rule Apply_wf_state [OF assms(1-3)])
  note n1 = Apply_nonce [OF assms(1-3)] and n2 = ApplyAll_nonce [OF assms(5) w1 assms(4), of "txFrom tx"]
  have "acNonce (Get s1 (txFrom tx)) = txNonce tx + 1" using n1(1) by simp
  moreover have "acNonce (Get s2 (txFrom tx)) = acNonce (Get s1 (txFrom tx)) + of_nat ?n" using n2 by blast
  ultimately have eq: "acNonce (Get s2 (txFrom tx)) = txNonce tx + of_nat (?n + 1)" by (simp add: add.assoc)
  have "unat (txNonce tx) + (?n + 1) < 2 ^ 64"
    using assms(6) length_filter_le [of "\<lambda>t. txFrom t = txFrom tx" txs] by linarith
  then have lt: "txNonce tx < acNonce (Get s2 (txFrom tx))"
    unfolding eq by (rule word64_gt_of_nat) simp
  have "stAssetDefs s2 = stAssetDefs s" "stMinFee s2 = stMinFee s" using n1(3,4) n2 by simp_all
  then have "precheck s2 tx = Some ErrNonceTooLow"
    using pre lt by (auto simp: precheck_def MinFeeFor_def split: if_splits)
  then show ?thesis by (simp add: Apply_def)
qed

theorem applied_tx_never_replays_witness: "Apply demo_sha demo_after demo_tx = Inl ErrNonceTooLow"
  using applied_tx_never_replays [OF demo_state_wf demo_check demo_Apply, of "[]" demo_after]
  by (simp add: demo_tx_def)

text \<open>
  C6: no rule creates ORP. The supply plus what was burned never changes, whatever transactions
  are applied.
\<close>

theorem orp_never_created:
  assumes "wf_state s" and "reachable sha s s'"
  shows "stSupply s' + stBurned s' = stSupply s + stBurned s"
proof -
  have "stSupply s' + stBurned s' = stSupply s + stBurned s \<and> wf_state s'"
    using assms(2) unfolding reachable_def
  proof (induction rule: rtranclp_induct)
    case base
    then show ?case using assms(1) by simp
  next
    case (step t u)
    from step.hyps(2) have "stSupply u + stBurned u = stSupply t + stBurned t"
      using Apply_nonce(5) step.IH by (auto elim!: ledger_stepE)
    then show ?case using step ledger_step_wf by metis
  qed
  then show ?thesis by simp
qed

theorem orp_never_created_witness: "stSupply demo_after + stBurned demo_after = 1000"
proof -
  have "reachable demo_sha demo_state demo_after"
    unfolding reachable_def by (intro r_into_rtranclp ledger_step.tx [OF demo_check demo_Apply])
  from orp_never_created [OF demo_state_wf this]
  have "stSupply demo_after + stBurned demo_after = stSupply demo_state + stBurned demo_state" .
  also have "\<dots> = 1000" by code_simp
  finally show ?thesis .
qed

text \<open>
  C7: an ORP transfer is exact in unbounded arithmetic. The sender pays amount and fee, the
  recipient gets the amount, every other balance stays, and the fee is burned from the supply.
\<close>

theorem transfer_exact:
  assumes "checkBody tx = None" and "txGuard tx = None" "txEscrow tx = None" "txPool tx = None"
    and "txKind tx = ''''" and "txAsset tx = ''''" and "Apply sha s tx = Inr s'"
  shows "unat (Balance s (txFrom tx) '''') = unat (Balance s' (txFrom tx) '''') + unat (txAmount tx) + unat (txFee tx) \<and>
    unat (Balance s' (txTo tx) '''') = unat (Balance s (txTo tx) '''') + unat (txAmount tx) \<and>
    (\<forall>b k. \<not> (k = '''' \<and> (b = txFrom tx \<or> b = txTo tx)) \<longrightarrow> Balance s' b k = Balance s b k) \<and>
    stSupply s' = stSupply s - txFee tx \<and> stBurned s' = stBurned s + txFee tx"
proof -
  let ?a = "txFrom tx" and ?b = "txTo tx" and ?v = "txAmount tx" and ?f = "txFee tx"
  have chk: "checkTransfer tx = None" using assms by (simp add: checkBody_def)
  have ne: "?a \<noteq> ?b" and nov: "\<not> ?v + ?f < ?v"
    using chk by (auto simp: checkTransfer_def split: option.splits if_splits)
  have vf: "unat (?v + ?f) = unat ?v + unat ?f"
    using nov no_plus_overflow_unat_size [of ?v ?f] by (intro unat_add64) (simp add: word_size not_less)
  obtain s1 where pre: "precheck s tx = None" and e: "effect sha s tx = Inr s1" and s': "s' = charge s1 tx (Cost s tx)"
    using Apply_Inr [OF assms(7)] by blast
  have cost: "Cost s tx = ?v + ?f" and av: "available s tx = Balance s ?a ''''"
    using assms by (simp_all add: Cost_def createsEscrow_def available_def)
  have le: "?v + ?f \<le> Balance s ?a ''''" using pre cost av by (auto simp: precheck_def not_less split: if_splits)
  have s1: "s1 = credit s ?b '''' ?v" and nb: "\<not> Balance s ?b '''' + ?v < Balance s ?b ''''"
    using e assms by (auto simp: effect_def transfer_def split: if_splits)
  have fee: "Balance (payFee t tx) b k = Balance t b k" for t b k
    using assms(6) by (simp add: payFee_def Balance_def Get_def)
  have bal: "Balance s' b k = (if b = ?a \<and> k = '''' then Balance s ?a '''' - (?v + ?f)
      else if b = ?b \<and> k = '''' then Balance s ?b '''' + ?v else Balance s b k)" for b k
    using ne assms(6) cost by (auto simp: s' charge_def fee s1 money_simps)
  have "unat (Balance s ?b '''' + ?v) = unat (Balance s ?b '''') + unat ?v"
    using nb no_plus_overflow_unat_size [of "Balance s ?b ''''" ?v]
    by (intro unat_add64) (simp add: word_size not_less)
  moreover have "unat (Balance s ?a '''' - (?v + ?f)) = unat (Balance s ?a '''') - (unat ?v + unat ?f)"
    using le vf by (simp add: unat_sub64)
  moreover have "unat ?v + unat ?f \<le> unat (Balance s ?a '''')" using le vf by (simp add: word_le_nat_alt)
  moreover have "stSupply s' = stSupply s - ?f" "stBurned s' = stBurned s + ?f"
    using assms(6) by (simp_all add: s' charge_def payFee_def s1 word_gt_0)
  ultimately show ?thesis using bal ne by auto
qed

theorem transfer_exact_witness:
  "unat (Balance demo_state demo_a '''') = unat (Balance demo_after demo_a '''') + 200 + 10"
  using transfer_exact [OF demo_check _ _ _ _ _ demo_Apply] by (simp add: demo_tx_def)

text \<open>
  The cost of an escrow wraps. \<open>Cost\<close> adds the fee to the escrow's total with no overflow
  check, and the stateless checks bound the milestones only among themselves: an escrow whose
  total is \<open>2^64\<close> less the fee costs its buyer nothing, passes the funds check whatever the
  buyer owns, and is created holding the full total.
\<close>

theorem escrow_cost_wraps:
  assumes "txEscrow tx = Some x" and "eoOp x = OpEscrowCreate" and "txKind tx = ''''"
    and "Total x = - txFee tx"
  shows "Cost s tx = 0 \<and> \<not> available s tx < Cost s tx \<and> eBalance (newEscrow s tx x eid) = - txFee tx"
  using assms by (simp add: Cost_def createsEscrow_def newEscrow_def)

definition demo_escrow_op :: EscrowOp where
  "demo_escrow_op = \<lparr>eoOp = ''create'', eoID = zeroHash, eoSeller = demo_b, eoArbiter = demo_c,
     eoMilestones = [- 10], eoShipBy = 100, eoReviewSecs = 3600, eoRef = '''', eoToSeller = 0, eoArbiterBps = 0\<rparr>"

definition demo_escrow_tx :: Tx where
  "demo_escrow_tx = demo_tx\<lparr>txTo := '''', txAmount := 0, txEscrow := Some demo_escrow_op\<rparr>"

theorem escrow_cost_wraps_witness:
  "checkBody demo_escrow_tx = None \<and> Cost demo_state demo_escrow_tx = 0"
proof
  show "checkBody demo_escrow_tx = None" by code_simp
  have "Total demo_escrow_op = - txFee demo_escrow_tx" by code_simp
  then show "Cost demo_state demo_escrow_tx = 0"
    using escrow_cost_wraps [of demo_escrow_tx demo_escrow_op]
    by (simp add: demo_escrow_tx_def demo_escrow_op_def demo_tx_def)
qed

end
