(* ===== verification/State_Root.thy ===== *)
theory State_Root
  imports Ledger_Properties
begin

text \<open>
  \<open>State.Root\<close> (node/ledger/ledger.go): the flat hash over all accounts, pools, escrows,
  recovery setups and supply counters, in sorted order. \<open>sha\<close> is SHA-256 of the bytes the code
  feeds to it; the result is an error where the code panics.
\<close>

definition u64i :: "int \<Rightarrow> bytes" where
  "u64i x = u64be (word_of_int x)"

definition u64n :: "nat \<Rightarrow> bytes" where
  "u64n x = u64be (of_nat x)"

definition rstr :: "string \<Rightarrow> bytes" where
  "rstr v = u64n (length v) @ v"

definition rbools :: "bool list \<Rightarrow> bytes" where
  "rbools bs = map (\<lambda>b. if b then CHR 0x01 else CHR 0x00) bs"

definition ramounts :: "amount list \<Rightarrow> bytes" where
  "ramounts xs = concat (map u64be xs)"

definition poolStatusStr :: "PoolStatus \<Rightarrow> string" where
  "poolStatusStr st = (case st of PoolForming \<Rightarrow> ''forming'' | PoolActive \<Rightarrow> ''active''
     | PoolDone \<Rightarrow> ''done'' | PoolCancelled \<Rightarrow> ''cancelled'')"

definition escrowStatusStr :: "EscrowStatus \<Rightarrow> string" where
  "escrowStatusStr st = (case st of EscrowFunded \<Rightarrow> ''funded'' | EscrowDispatched \<Rightarrow> ''dispatched''
     | EscrowDisputed \<Rightarrow> ''disputed'' | EscrowCompleted \<Rightarrow> ''completed''
     | EscrowRefunded \<Rightarrow> ''refunded'' | EscrowResolved \<Rightarrow> ''resolved'')"

text \<open>The entries of a map in the order of their keys.\<close>

definition sortedEntries :: "(string, 'v) fmap \<Rightarrow> (string \<times> 'v) list" where
  "sortedEntries m = map (\<lambda>k. (k, the (fmlookup m k))) (sorted_list_of_fset (fmdom m))"

definition rootAccount :: "addr \<times> Account \<Rightarrow> bytes" where
  "rootAccount e =
     fst e @ u64be (acBalance (snd e)) @ u64be (acNonce (snd e)) @
     concat (map (\<lambda>(sym, v). rstr sym @ u64be v) (sortedEntries (acAssets (snd e))))"

text \<open>
  The schedule of a pool: deposits, defaults and payouts of each member. The slices are indexed
  by the members; a nil or short one makes the code panic.
\<close>

definition optNth :: "'a list option \<Rightarrow> nat \<Rightarrow> 'a option" where
  "optNth x j = (case x of None \<Rightarrow> None | Some xs \<Rightarrow> if j < length xs then Some (xs ! j) else None)"

fun rootSchedule :: "Pool \<Rightarrow> nat list \<Rightarrow> bytes option" where
  "rootSchedule p [] = Some []"
| "rootSchedule p (j # js) =
     (case (optNth (pDeposits p) j, optNth (pDefaults p) j, optNth (pPaidOut p) j, rootSchedule p js) of
        (Some d, Some f, Some v, Some r) \<Rightarrow> Some (u64be d @ u64n f @ u64be v @ r)
      | _ \<Rightarrow> None)"

definition optList :: "'a list option \<Rightarrow> 'a list" where
  "optList x = (case x of None \<Rightarrow> [] | Some xs \<Rightarrow> xs)"

definition rootCircle :: "Pool \<Rightarrow> bytes" where
  "rootCircle p =
     (if hasCircleState p then
        ''circle'' @ rstr (pMode p) @ u64n (unat (pInsuranceBps p)) @ u64be (pInsurance p) @ u64be (pTarget p) @
        concat (map (\<lambda>xs. u64n (length (optList xs)) @ ramounts (optList xs)) [pPaidAmt p, pBids p, pSaved p]) @
        rbools (optList (pWithdrawn p)) @ u64n (length (optList (pSwapWith p))) @
        concat (map rstr (optList (pSwapWith p)))
      else [])"

definition rootPool :: "hash \<times> Pool \<Rightarrow> bytes option" where
  "rootPool e =
     (let p = snd e;
          hd = fst e @ rstr (pName p) @ (if pAsset p \<noteq> '''' then rstr (pAsset p) else []) @ rstr (pCreator p) @
            u64n (length (pMembers p)) @ concat (map rstr (pMembers p)) @ u64be (pContribution p) @
            rbools (pJoined p) @ rstr (poolStatusStr (pStatus p)) @ u64n (pRound p) @ rbools (pPaid p) @
            rbools (pClaimed p) @ u64be (pBalance p);
          tl = (case pPrepaid p of None \<Rightarrow> [] | Some xs \<Rightarrow> ''autopay'' @ ramounts xs) @ rootCircle p
      in if Scheduled p then
           (case rootSchedule p [0..<length (pMembers p)] of
              None \<Rightarrow> None
            | Some b \<Rightarrow> Some (hd @ ''schedule'' @ u64i (pRoundSecs p) @ u64be (pDeposit p) @ u64i (pStartedAt p) @ b @ tl))
         else Some (hd @ tl))"

fun rootPools :: "(hash \<times> Pool) list \<Rightarrow> bytes option" where
  "rootPools [] = Some []"
| "rootPools (e # es) =
     (case (rootPool e, rootPools es) of (Some a, Some b) \<Rightarrow> Some (a @ b) | _ \<Rightarrow> None)"

definition rootEscrow :: "hash \<times> Escrow \<Rightarrow> bytes" where
  "rootEscrow x =
     (let e = snd x in
      ''escrow'' @ fst x @ rstr (eRef e) @ rstr (eAsset e) @ rstr (eBuyer e) @ rstr (eSeller e) @ rstr (eArbiter e) @
      u64n (length (eMilestones e)) @ ramounts (eMilestones e) @ u64n (eReleased e) @ u64be (eBalance e) @
      rstr (escrowStatusStr (eStatus e)) @ u64i (eCreatedAt e) @ u64i (eShipBy e) @ u64i (eReviewSecs e) @
      u64i (eDispatchedAt e) @ rstr (eTracking e) @ u64be (ePaidSeller e) @ u64be (ePaidBuyer e) @
      (if eArbiterBps e \<noteq> 0 then ''arbiter-fee'' @ u64n (unat (eArbiterBps e)) @ u64be (eArbiterFee e) else []))"

definition rootGuard :: "addr \<times> Guardianship \<Rightarrow> bytes" where
  "rootGuard x =
     (let g = snd x in
      ''guard'' @ rstr (fst x) @ concat (map rstr (gGuardians g)) @ u64i (gThreshold g) @ u64i (gDelaySecs g) @
      (case gPending g of None \<Rightarrow> []
       | Some r \<Rightarrow> rstr (rNewOwner r) @ concat (map rstr (rApprovals r)) @ u64i (rStartedAt r) @ u64i (rReadyAt r)))"

definition rootMoved :: "addr \<times> addr \<Rightarrow> bytes" where
  "rootMoved x = ''moved'' @ rstr (fst x) @ rstr (snd x)"

definition rootSupply :: "State \<Rightarrow> bytes" where
  "rootSupply s =
     u64be (stSupply s) @ u64be (stBurned s) @
     concat (map (\<lambda>(sym, v). if v \<noteq> 0 then rstr sym @ u64be v else []) (sortedEntries (stAssetSupply s)))"

text \<open>The bytes hashed, and the root.\<close>

definition rootBytes :: "State \<Rightarrow> bytes option" where
  "rootBytes s =
     map_option (\<lambda>pools.
         concat (map rootAccount (sortedEntries (stAccounts s))) @ pools @
         concat (map rootEscrow (sortedEntries (stEscrows s))) @
         concat (map rootGuard (sortedEntries (stGuards s))) @
         concat (map rootMoved (sortedEntries (stRecoveredTo s))) @ rootSupply s)
       (rootPools (sortedEntries (stPools s)))"

definition Root :: "(bytes \<Rightarrow> hash) \<Rightarrow> State \<Rightarrow> err + hash" where
  "Root sha s = (case rootBytes s of None \<Rightarrow> Inl (Panic ''index out of range'') | Some b \<Rightarrow> Inr (sha b))"

subsection \<open>Which pools can be hashed\<close>

definition hashable :: "Pool \<Rightarrow> bool" where
  "hashable p \<longleftrightarrow> \<not> Scheduled p \<or> pMembers p = [] \<or>
     (optNth (pDeposits p) (length (pMembers p) - 1) \<noteq> None \<and>
      optNth (pDefaults p) (length (pMembers p) - 1) \<noteq> None \<and>
      optNth (pPaidOut p) (length (pMembers p) - 1) \<noteq> None)"

lemma optNth_mono: "optNth x i = None \<Longrightarrow> i \<le> j \<Longrightarrow> optNth x j = None"
  by (auto simp: optNth_def split: option.splits if_splits)

lemma rootSchedule_None:
  "rootSchedule p js = None \<longleftrightarrow>
   (\<exists>j\<in>set js. optNth (pDeposits p) j = None \<or> optNth (pDefaults p) j = None \<or> optNth (pPaidOut p) j = None)"
  by (induction js) (auto split: option.splits)

lemma rootPool_None: "rootPool (i, p) = None \<longleftrightarrow> \<not> hashable p"
proof (cases "Scheduled p \<and> pMembers p \<noteq> []")
  case False
  then show ?thesis by (auto simp: rootPool_def Let_def hashable_def)
next
  case True
  let ?n = "length (pMembers p) - 1"
  have n: "?n \<in> set [0..<length (pMembers p)]" "\<And>j. j \<in> set [0..<length (pMembers p)] \<Longrightarrow> j \<le> ?n"
    using True by auto
  have "rootSchedule p [0..<length (pMembers p)] = None \<longleftrightarrow> \<not> hashable p"
  proof
    assume "rootSchedule p [0..<length (pMembers p)] = None"
    then obtain j where j: "j \<le> ?n" and
      "optNth (pDeposits p) j = None \<or> optNth (pDefaults p) j = None \<or> optNth (pPaidOut p) j = None"
      unfolding rootSchedule_None by (elim bexE) (rule that, erule n(2))
    then have "optNth (pDeposits p) ?n = None \<or> optNth (pDefaults p) ?n = None \<or> optNth (pPaidOut p) ?n = None"
      by (elim disjE) (simp_all only: optNth_mono [OF _ j] simp_thms)
    then show "\<not> hashable p" using True by (simp add: hashable_def)
  next
    assume "\<not> hashable p"
    then have "optNth (pDeposits p) ?n = None \<or> optNth (pDefaults p) ?n = None \<or> optNth (pPaidOut p) ?n = None"
      using True by (simp add: hashable_def)
    then show "rootSchedule p [0..<length (pMembers p)] = None"
      unfolding rootSchedule_None by (rule bexI [OF _ n(1)])
  qed
  then show ?thesis using True by (auto simp: rootPool_def Let_def split: option.split)
qed

lemma rootPools_None: "rootPools es = None \<longleftrightarrow> (\<exists>(i, p)\<in>set es. \<not> hashable p)"
proof (induction es)
  case Nil
  then show ?case by simp
next
  case (Cons e es)
  then show ?case using rootPool_None [of "fst e" "snd e"] by (auto split: option.splits)
qed

lemma set_sortedEntries: "set (sortedEntries m) = {(k, v). fmlookup m k = Some v}"
  by (force simp: sortedEntries_def sorted_list_of_fset.rep_eq fmlookup_dom_iff image_iff)

lemma Root_defined: "(\<exists>r. Root sha s = Inr r) \<longleftrightarrow> (\<forall>i p. fmlookup (stPools s) i = Some p \<longrightarrow> hashable p)"
proof -
  have "rootPools (sortedEntries (stPools s)) = None \<longleftrightarrow> (\<exists>i p. fmlookup (stPools s) i = Some p \<and> \<not> hashable p)"
    by (auto simp: rootPools_None set_sortedEntries)
  then show ?thesis by (auto simp: Root_def rootBytes_def split: option.split)
qed

subsection \<open>Properties\<close>

lemma wf_pool_hashable:
  assumes "wf_pool p"
  shows "hashable p \<longleftrightarrow> \<not> (Scheduled p \<and> pMode p = PoolGoal)"
proof -
  have sh: "pool_shape p" and tm: "pool_terms p" using assms by (simp_all add: wf_pool_def)
  let ?n = "length (pMembers p)"
  have n: "pMembers p \<noteq> []" "?n - 1 < ?n" using tm by (auto simp: pool_terms_def)
  have len: "optNth x (?n - 1) \<noteq> None" if "optLen ?n x" "x \<noteq> None" for x :: "'b list option"
    using that n(2) by (auto simp: optNth_def)
  show ?thesis
  proof (cases "pMode p = PoolGoal")
    case True
    then have "optNth (pDeposits p) (?n - 1) = None" using tm by (simp add: pool_terms_def optNth_def)
    then show ?thesis using True n(1) by (simp add: hashable_def)
  next
    case False
    have "optNth (pDeposits p) (?n - 1) \<noteq> None \<and> optNth (pDefaults p) (?n - 1) \<noteq> None \<and>
        optNth (pPaidOut p) (?n - 1) \<noteq> None" if "Scheduled p"
      using that False sh tm by (intro conjI len) (simp_all add: pool_shape_def pool_terms_def Scheduled_def)
    then show ?thesis using False by (auto simp: hashable_def)
  qed
qed

definition goal_pool_op :: PoolOp where
  "goal_pool_op = \<lparr>poOp = ''create'', poID = zeroHash, poName = ''school fees'', poMembers = [demo_a, demo_b],
     poContribution = 5, poRoundSecs = 7200, poDeposit = 0, poMode = ''goal'', poInsuranceBps = 0, poTarget = 100,
     poOther = ''''\<rparr>"

definition goal_pool_tx :: Tx where
  "goal_pool_tx = demo_tx\<lparr>txTo := '''', txAmount := 0, txPool := Some goal_pool_op\<rparr>"

definition goal_pool :: Pool where
  "goal_pool = newPool demo_state goal_pool_tx goal_pool_op [] 0"

definition goal_state :: State where
  "goal_state = charge (putPool [] (demo_state, goal_pool)) goal_pool_tx (Cost demo_state goal_pool_tx)"

lemma goal_check: "checkBody goal_pool_tx = None"
  by code_simp

lemma goal_Apply: "Apply demo_sha demo_state goal_pool_tx = Inr goal_state"
proof -
  have "precheck demo_state goal_pool_tx = None" by code_simp
  moreover have "effect demo_sha demo_state goal_pool_tx = Inr (putPool [] (demo_state, goal_pool))"
  proof -
    have "fmlookup (stPools demo_state) [] = None" by code_simp
    moreover have "ID demo_sha goal_pool_tx = []" by (simp add: ID_def demo_sha_def)
    ultimately show ?thesis
      by (simp add: effect_def poolOp_def goal_pool_def goal_pool_tx_def goal_pool_op_def demo_tx_def Let_def)
  qed
  ultimately show ?thesis by (simp add: Apply_def goal_state_def)
qed

lemma goal_pool_in: "fmlookup (stPools goal_state) [] = Some goal_pool" "Scheduled goal_pool" "pMode goal_pool = PoolGoal"
proof -
  show "fmlookup (stPools goal_state) [] = Some goal_pool"
    by (simp add: goal_state_def charge_def payFee_def putPool_def)
  show "Scheduled goal_pool" "pMode goal_pool = PoolGoal"
    by (simp_all add: goal_pool_def newPool_def Let_def goal_pool_op_def Scheduled_def)
qed

text \<open>
  C8: the state root. In a ledger whose pools are well formed (every reachable one), hashing the
  state succeeds exactly when no goal circle has a round schedule; for such a circle, which the
  stateless checks and the ledger accept (it is how a goal gets a deadline), \<open>Root\<close> indexes the
  nil deposits and panics.
\<close>

theorem root_total_iff:
  assumes "wf_pools s"
  shows "(\<exists>r. Root sha s = Inr r) \<longleftrightarrow>
    (\<forall>i p. fmlookup (stPools s) i = Some p \<longrightarrow> \<not> (Scheduled p \<and> pMode p = PoolGoal))"
  unfolding Root_defined using assms wf_pool_hashable by (auto simp: wf_pools_def)

theorem root_total_iff_witness: "\<not> (\<exists>r. Root demo_sha goal_state = Inr r)"
proof -
  have w: "wf_pools goal_state"
    using Apply_wf_state [OF demo_state_wf goal_check goal_Apply] by (simp add: wf_state_def)
  show ?thesis unfolding root_total_iff [OF w] using goal_pool_in by blast
qed

end
