(* ===== verification/Genesis.thy ===== *)
theory Genesis
  imports State_Root
begin

text \<open>
  The genesis document: node/chain/genesis.go. \<open>GenesisState\<close> builds the first ledger state;
  the hash of the document (SHA-256 of its JSON) is an argument of the chain, \<open>ghash\<close>.
\<close>

record Allocation =
  alAddress :: addr
  alAmount :: amount

record Genesis =
  gnChainID :: string
  gnTime :: int
  gnConsensus :: string
  gnProposer :: addr
  gnMinFee :: amount
  gnAllocations :: "Allocation list"
  gnAssets :: "AssetDef list"

abbreviation ConsensusCometBFT :: string where "ConsensusCometBFT \<equiv> ''cometbft''"

definition BFT :: "Genesis \<Rightarrow> bool" where
  "BFT g \<longleftrightarrow> gnConsensus g = ConsensusCometBFT"

fun addAssets :: "AssetDef list \<Rightarrow> State \<Rightarrow> err + State" where
  "addAssets [] s = Inr s"
| "addAssets (a # as) s =
     (if adSymbol a = '''' \<or> \<not> ValidAsset (adSymbol a) then Inl (Err ''genesis asset: invalid symbol'')
      else if fmlookup (stAssetDefs s) (adSymbol a) \<noteq> None then Inl (Err ''genesis asset defined twice'')
      else case Validate (adIssuer a) of Some e \<Rightarrow> Inl (Wrap ''genesis asset issuer'' e)
      | None \<Rightarrow> addAssets as (s\<lparr>stAssetDefs := fmupd (adSymbol a) a (stAssetDefs s)\<rparr>))"

fun addAllocations :: "Allocation list \<Rightarrow> State \<Rightarrow> err + State" where
  "addAllocations [] s = Inr s"
| "addAllocations (a # as) s =
     (case CreditGenesis s (alAddress a) (alAmount a) of
        Inl e \<Rightarrow> Inl (Wrap ''genesis allocation'' e)
      | Inr s' \<Rightarrow> addAllocations as s')"

definition GenesisState :: "Genesis \<Rightarrow> err + State" where
  "GenesisState g =
     (case addAssets (gnAssets g) (New (gnMinFee g)) of
        Inl e \<Rightarrow> Inl e
      | Inr s \<Rightarrow> addAllocations (gnAllocations g) s)"

fun checkAllocations :: "addr list \<Rightarrow> Allocation list \<Rightarrow> err option" where
  "checkAllocations seen [] = None"
| "checkAllocations seen (a # as) =
     (case Validate (alAddress a) of Some e \<Rightarrow> Some (Wrap ''genesis allocation'' e)
      | None \<Rightarrow>
        if alAddress a \<in> set seen then Some (Err ''genesis: duplicate allocation'')
        else checkAllocations (alAddress a # seen) as)"

definition GenesisValidate :: "Genesis \<Rightarrow> err option" where
  "GenesisValidate g =
     (if gnChainID g = '''' then Some (Err ''genesis: chain_id required'')
      else case (if gnConsensus g = '''' then map_option (Wrap ''genesis proposer'') (Validate (gnProposer g))
                 else if gnConsensus g = ConsensusCometBFT then None
                 else Some (Err ''genesis: unknown consensus'')) of
        Some e \<Rightarrow> Some e
      | None \<Rightarrow>
        (case checkAllocations [] (gnAllocations g) of
           Some e \<Rightarrow> Some e
         | None \<Rightarrow> (case GenesisState g of Inl e \<Rightarrow> Some e | Inr _ \<Rightarrow> None)))"

subsection \<open>The first state is well formed\<close>

lemma addAssets_frame:
  "addAssets as s = Inr s' \<Longrightarrow> \<exists>defs. s' = s\<lparr>stAssetDefs := defs\<rparr>"
proof (induction as s rule: addAssets.induct)
  case (1 s)
  then show ?case by (metis Inr_inject State.surjective State.update_convs(6) addAssets.simps(1))
next
  case (2 a as s)
  then show ?case by (fastforce split: if_splits option.splits)
qed

lemma wf_state_assets: "wf_state (s\<lparr>stAssetDefs := d, stNow := t\<rparr>) \<longleftrightarrow> wf_state (s\<lparr>stNow := t\<rparr>)"
  by (simp add: wf_state_def wf_accounts_def wf_pools_def wf_escrows_def wf_guards_def clock_ok_def conserved_def
      Get_def total_def acctTotal_def poolsTotal_def escrowsTotal_def supplyOf_def)

lemma CreditGenesis_now:
  "CreditGenesis s a v = Inr s' \<Longrightarrow> CreditGenesis (s\<lparr>stNow := t\<rparr>) a v = Inr (s'\<lparr>stNow := t\<rparr>)"
  by (auto simp: CreditGenesis_def Let_def Get_def split: if_splits)

lemma addAllocations_wf:
  "addAllocations as s = Inr s' \<Longrightarrow> wf_state (s\<lparr>stNow := t\<rparr>) \<Longrightarrow> wf_state (s'\<lparr>stNow := t\<rparr>)"
  by (induction as s rule: addAllocations.induct)
    (auto split: sum.splits intro: CreditGenesis_wf CreditGenesis_now)

lemma addAllocations_supply:
  "addAllocations as s = Inr s' \<Longrightarrow>
   unat (stSupply s') = unat (stSupply s) + sum_list (map (\<lambda>a. unat (alAmount a)) as) \<and>
   stBurned s' = stBurned s \<and> stPools s' = stPools s \<and> stEscrows s' = stEscrows s"
proof (induction as s rule: addAllocations.induct)
  case (1 s)
  then show ?case by simp
next
  case (2 a as s)
  then obtain s1 where c: "CreditGenesis s (alAddress a) (alAmount a) = Inr s1" and r: "addAllocations as s1 = Inr s'"
    by (auto split: sum.splits)
  have nov: "\<not> stSupply s + alAmount a < stSupply s" and s1: "stSupply s1 = stSupply s + alAmount a"
    "stBurned s1 = stBurned s" "stPools s1 = stPools s" "stEscrows s1 = stEscrows s"
    using c by (auto simp: CreditGenesis_def Let_def split: if_splits)
  have "unat (stSupply s1) = unat (stSupply s) + unat (alAmount a)"
    unfolding s1 using nov no_plus_overflow_unat_size [of "stSupply s" "alAmount a"]
    by (intro unat_add64) (simp add: word_size not_less)
  then show ?case using "2.IH" [OF c r] s1 by simp
qed

lemma GenesisState_wf:
  assumes "GenesisState g = Inr s" "sane_time t"
  shows "wf_state (s\<lparr>stNow := t\<rparr>)"
proof -
  obtain s0 where a: "addAssets (gnAssets g) (New (gnMinFee g)) = Inr s0" and b: "addAllocations (gnAllocations g) s0 = Inr s"
    using assms(1) by (auto simp: GenesisState_def split: sum.splits)
  obtain d where "s0 = (New (gnMinFee g))\<lparr>stAssetDefs := d\<rparr>" using addAssets_frame [OF a] by blast
  then have "wf_state (s0\<lparr>stNow := t\<rparr>)" using New_wf [OF assms(2), of "gnMinFee g"] by (simp add: wf_state_assets)
  with b show ?thesis by (rule addAllocations_wf)
qed

subsection \<open>Properties\<close>

text \<open>
  Genesis. The initial supply of ORP is exactly the sum of the allocations, with no wrap,
  nothing is burned, there are no pools or escrows, and at any sane block time the state is well
  formed.
\<close>

theorem genesis_supply_exact:
  assumes "GenesisState g = Inr s" and "sane_time t"
  shows "unat (stSupply s) = sum_list (map (\<lambda>a. unat (alAmount a)) (gnAllocations g)) \<and> stBurned s = 0 \<and>
    stPools s = fmempty \<and> stEscrows s = fmempty \<and> wf_state (s\<lparr>stNow := t\<rparr>)"
proof -
  obtain s0 where a: "addAssets (gnAssets g) (New (gnMinFee g)) = Inr s0" and b: "addAllocations (gnAllocations g) s0 = Inr s"
    using assms(1) by (auto simp: GenesisState_def split: sum.splits)
  obtain d where "s0 = (New (gnMinFee g))\<lparr>stAssetDefs := d\<rparr>" using addAssets_frame [OF a] by blast
  then show ?thesis using addAllocations_supply [OF b] GenesisState_wf [OF assms] by (simp add: New_def)
qed

definition demo_genesis :: Genesis where
  "demo_genesis = \<lparr>gnChainID = ''demo'', gnTime = 1, gnConsensus = ConsensusCometBFT, gnProposer = '''', gnMinFee = 10,
     gnAllocations = [\<lparr>alAddress = demo_a, alAmount = 700\<rparr>, \<lparr>alAddress = demo_b, alAmount = 300\<rparr>], gnAssets = []\<rparr>"

theorem genesis_supply_exact_witness:
  "unat (stSupply (projr (GenesisState demo_genesis))) = 1000"
proof -
  have "\<not> isl (GenesisState demo_genesis)" by code_simp
  then have "GenesisState demo_genesis = Inr (projr (GenesisState demo_genesis))" by simp
  from genesis_supply_exact [OF this, of 1] show ?thesis by (simp add: demo_genesis_def sane_time_def)
qed

end
