(* ===== verification/Merkle.thy ===== *)
theory Merkle
  imports Encoding
begin

text \<open>
  \<open>TxRoot\<close> of node/types/types.go: the binary Merkle root over transaction ids, computed
  level by level, an odd node being promoted. The lemmas relate the level-wise computation to
  a tree and show that the root binds the list of transactions.
\<close>

definition leafHash :: "(bytes \<Rightarrow> hash) \<Rightarrow> hash \<Rightarrow> hash" where
  "leafHash sha h = sha (CHR 0x00 # h)"

definition nodeHash :: "(bytes \<Rightarrow> hash) \<Rightarrow> hash \<Rightarrow> hash \<Rightarrow> hash" where
  "nodeHash sha l r = sha (CHR 0x01 # l @ r)"

fun nextLevel :: "('a \<Rightarrow> 'a \<Rightarrow> 'a) \<Rightarrow> 'a list \<Rightarrow> 'a list" where
  "nextLevel f [] = []"
| "nextLevel f [x] = [x]"
| "nextLevel f (x # y # r) = f x y # nextLevel f r"

lemma length_nextLevel: "length (nextLevel f xs) = (length xs + 1) div 2"
  by (induction f xs rule: nextLevel.induct) simp_all

function levels :: "('a \<Rightarrow> 'a \<Rightarrow> 'a) \<Rightarrow> 'a list \<Rightarrow> 'a list" where
  "levels f xs = (if length xs > 1 then levels f (nextLevel f xs) else xs)"
  by pat_completeness auto
termination
  by (relation "measure (\<lambda>(f, xs). length xs)") (auto simp: length_nextLevel)

declare levels.simps [simp del]

definition TxRoot :: "(bytes \<Rightarrow> hash) \<Rightarrow> Tx list \<Rightarrow> hash" where
  "TxRoot sha txs =
     (if txs = [] then zeroHash
      else hd (levels (nodeHash sha) (map (\<lambda>tx. leafHash sha (ID sha tx)) txs)))"

subsection \<open>The tree behind the levels\<close>

datatype mtree = MLeaf hash | MNode mtree mtree

fun treeHash :: "(bytes \<Rightarrow> hash) \<Rightarrow> mtree \<Rightarrow> hash" where
  "treeHash sha (MLeaf h) = leafHash sha h"
| "treeHash sha (MNode l r) = nodeHash sha (treeHash sha l) (treeHash sha r)"

fun leaves :: "mtree \<Rightarrow> hash list" where
  "leaves (MLeaf h) = [h]"
| "leaves (MNode l r) = leaves l @ leaves r"

text \<open>The byte strings hashed when the tree's root is computed.\<close>

fun hashed :: "(bytes \<Rightarrow> hash) \<Rightarrow> mtree \<Rightarrow> bytes set" where
  "hashed sha (MLeaf h) = {CHR 0x00 # h}"
| "hashed sha (MNode l r) = insert (CHR 0x01 # treeHash sha l @ treeHash sha r) (hashed sha l \<union> hashed sha r)"

definition txTree :: "(bytes \<Rightarrow> hash) \<Rightarrow> Tx list \<Rightarrow> mtree" where
  "txTree sha txs = hd (levels MNode (map (\<lambda>tx. MLeaf (ID sha tx)) txs))"

lemma nextLevel_treeHash:
  "map (treeHash sha) (nextLevel MNode ts) = nextLevel (nodeHash sha) (map (treeHash sha) ts)"
  by (induction MNode ts rule: nextLevel.induct) simp_all

lemma levels_treeHash:
  "map (treeHash sha) (levels MNode ts) = levels (nodeHash sha) (map (treeHash sha) ts)"
proof (induction MNode ts rule: levels.induct)
  case (1 ts)
  then show ?case
    by (subst (1 2) levels.simps) (simp add: nextLevel_treeHash)
qed

lemma nextLevel_leaves: "concat (map leaves (nextLevel MNode ts)) = concat (map leaves ts)"
  by (induction MNode ts rule: nextLevel.induct) simp_all

lemma levels_leaves: "concat (map leaves (levels MNode ts)) = concat (map leaves ts)"
proof (induction MNode ts rule: levels.induct)
  case (1 ts)
  then show ?case
    by (subst levels.simps) (simp add: nextLevel_leaves)
qed

lemma levels_length: "xs \<noteq> [] \<Longrightarrow> length (levels f xs) = 1"
proof (induction f xs rule: levels.induct)
  case (1 f xs)
  show ?case
  proof (cases "length xs > 1")
    case True
    then have "nextLevel f xs \<noteq> []" by (auto simp: length_nextLevel simp flip: length_greater_0_conv)
    with 1 True show ?thesis by (subst levels.simps) simp
  next
    case False
    with "1.prems" have "length xs = 1" by (cases xs) auto
    then show ?thesis by (subst levels.simps) simp
  qed
qed

lemma levels_hd: "xs \<noteq> [] \<Longrightarrow> levels f xs = [hd (levels f xs)]"
  using levels_length [of xs f] by (cases "levels f xs") auto

lemma txTree_hash: "txs \<noteq> [] \<Longrightarrow> treeHash sha (txTree sha txs) = TxRoot sha txs"
proof -
  assume ne: "txs \<noteq> []"
  let ?ts = "map (\<lambda>tx. MLeaf (ID sha tx)) txs"
  have "levels MNode ?ts = [txTree sha txs]"
    unfolding txTree_def by (rule levels_hd) (simp add: ne)
  then have "[treeHash sha (txTree sha txs)] = map (treeHash sha) (levels MNode ?ts)" by simp
  also have "\<dots> = levels (nodeHash sha) (map (treeHash sha) ?ts)" by (rule levels_treeHash)
  also have "map (treeHash sha) ?ts = map (\<lambda>tx. leafHash sha (ID sha tx)) txs" by simp
  finally have "levels (nodeHash sha) (map (\<lambda>tx. leafHash sha (ID sha tx)) txs) = [treeHash sha (txTree sha txs)]"
    by simp
  with ne show ?thesis by (simp add: TxRoot_def)
qed

lemma txTree_leaves: "txs \<noteq> [] \<Longrightarrow> leaves (txTree sha txs) = map (ID sha) txs"
proof -
  assume ne: "txs \<noteq> []"
  let ?ts = "map (\<lambda>tx. MLeaf (ID sha tx)) txs"
  have "levels MNode ?ts = [txTree sha txs]"
    unfolding txTree_def by (rule levels_hd) (simp add: ne)
  then have "leaves (txTree sha txs) = concat (map leaves (levels MNode ?ts))" by simp
  also have "\<dots> = concat (map leaves ?ts)" by (rule levels_leaves)
  also have "\<dots> = map (ID sha) txs" by (induction txs) simp_all
  finally show ?thesis .
qed

text \<open>
  With no collision among the strings hashed for two trees, equal roots mean equal trees: the
  leaf and node prefixes keep a leaf from being read as a node.
\<close>

lemma treeHash_inject:
  assumes len: "\<And>x. length (sha x) = 32"
    and inj: "inj_on sha (hashed sha t \<union> hashed sha u)"
    and eq: "treeHash sha t = treeHash sha u"
  shows "t = u"
  using inj eq
proof (induction t arbitrary: u)
  case (MLeaf h)
  have "u = MLeaf h"
  proof (cases u)
    case (MLeaf k)
    have "CHR 0x00 # h = CHR 0x00 # k"
      by (rule inj_onD [OF MLeaf.prems(1)]) (use MLeaf.prems(2) in \<open>simp_all add: MLeaf leafHash_def\<close>)
    with MLeaf show ?thesis by simp
  next
    case (MNode l r)
    have "CHR 0x00 # h = CHR 0x01 # treeHash sha l @ treeHash sha r"
      by (rule inj_onD [OF MLeaf.prems(1)]) (use MLeaf.prems(2) in \<open>simp_all add: MNode leafHash_def nodeHash_def\<close>)
    then show ?thesis by simp
  qed
  then show ?case by simp
next
  case (MNode l r)
  show ?case
  proof (cases u)
    case (MLeaf k)
    have "CHR 0x01 # treeHash sha l @ treeHash sha r = CHR 0x00 # k"
      by (rule inj_onD [OF MNode.prems(1)]) (use MNode.prems(2) in \<open>simp_all add: MLeaf leafHash_def nodeHash_def\<close>)
    then show ?thesis by simp
  next
    case u: (MNode l' r')
    have "CHR 0x01 # treeHash sha l @ treeHash sha r = CHR 0x01 # treeHash sha l' @ treeHash sha r'"
      by (rule inj_onD [OF MNode.prems(1)]) (use MNode.prems(2) in \<open>simp_all add: u nodeHash_def\<close>)
    moreover have "length (treeHash sha x) = 32" for x
      by (cases x) (simp_all add: leafHash_def nodeHash_def len)
    ultimately have eqs: "treeHash sha l = treeHash sha l'" "treeHash sha r = treeHash sha r'" by simp_all
    have "l = l'"
      by (rule MNode.IH(1) [OF inj_on_subset [OF MNode.prems(1)] eqs(1)]) (auto simp: u)
    moreover have "r = r'"
      by (rule MNode.IH(2) [OF inj_on_subset [OF MNode.prems(1)] eqs(2)]) (auto simp: u)
    ultimately show ?thesis by (simp add: u)
  qed
qed

text \<open>
  A block's transaction root binds its transactions: if SHA-256 has no collision among the
  strings hashed for the two roots, equal roots of two non-empty lists mean the same
  transactions in the same order, up to their signatures.
\<close>

theorem tx_root_binding:
  assumes len: "\<And>x. length (sha x) = 32"
    and inj: "inj_on sha (hashed sha (txTree sha xs) \<union> hashed sha (txTree sha ys)
                \<union> SignBytes ` (set xs \<union> set ys))"
    and ok: "list_all tx_ok xs" "list_all tx_ok ys" and ne: "xs \<noteq> []" "ys \<noteq> []"
    and eq: "TxRoot sha xs = TxRoot sha ys"
  shows "map (\<lambda>t. t\<lparr>txSig := []\<rparr>) xs = map (\<lambda>t. t\<lparr>txSig := []\<rparr>) ys"
proof -
  have "txTree sha xs = txTree sha ys"
  proof (rule treeHash_inject [where sha = sha])
    show "inj_on sha (hashed sha (txTree sha xs) \<union> hashed sha (txTree sha ys))"
      by (rule inj_on_subset [OF inj]) blast
  qed (use len eq ne in \<open>simp_all add: txTree_hash\<close>)
  then have ids: "map (ID sha) xs = map (ID sha) ys"
    using ne by (metis txTree_leaves)
  then have length: "length xs = length ys" by (metis length_map)
  show ?thesis
  proof (rule nth_equalityI)
    fix i assume "i < length (map (\<lambda>t. t\<lparr>txSig := []\<rparr>) xs)"
    then have i: "i < length xs" "i < length ys" using length by simp_all
    then have mem: "xs ! i \<in> set xs" "ys ! i \<in> set ys" by simp_all
    have "sha (SignBytes (xs ! i)) = sha (SignBytes (ys ! i))"
      using ids i by (metis ID_def nth_map)
    moreover have "SignBytes (xs ! i) = SignBytes (ys ! i)"
      by (rule inj_onD [OF inj]) (use calculation mem in auto)
    ultimately show "map (\<lambda>t. t\<lparr>txSig := []\<rparr>) xs ! i = map (\<lambda>t. t\<lparr>txSig := []\<rparr>) ys ! i"
      using i ok mem by (simp add: SignBytes_inject_aux list_all_iff)
  qed (simp add: length)
qed

text \<open>A collision-free toy hash and two transactions to evaluate on.\<close>

definition toy_sha :: "bytes \<Rightarrow> hash" where
  "toy_sha x = (if length x = 33 then CHR 0x01 # drop 2 x
                else CHR 0x00 # replicate 30 (CHR 0x00) @ [char_of (length x)])"

definition toy_tx :: "string \<Rightarrow> Tx" where
  "toy_tx memo = \<lparr>txChainID = ''demo'', txFrom = ''a'', txTo = ''b'', txAmount = 1, txFee = 1, txNonce = 0,
     txMemo = memo, txKind = '''', txAsset = '''', txPool = None, txEscrow = None, txGuard = None, txSig = []\<rparr>"

lemma toy_SignBytes: "length (SignBytes (toy_tx memo)) = 67 + length memo"
  by (simp add: SignBytes_def toy_tx_def isV2_def estr_def)

theorem tx_root_binding_witness: "TxRoot toy_sha [toy_tx ''''] \<noteq> TxRoot toy_sha [toy_tx ''x'']"
proof
  assume eq: "TxRoot toy_sha [toy_tx ''''] = TxRoot toy_sha [toy_tx ''x'']"
  have len: "length (toy_sha x) = 32" for x by (simp add: toy_sha_def)
  have id: "ID toy_sha (toy_tx m) = CHR 0x00 # replicate 30 (CHR 0x00) @ [char_of (67 + length m)]" if "length m < 50" for m
    using that toy_SignBytes [of m] by (simp add: ID_def toy_sha_def)
  let ?S = "hashed toy_sha (txTree toy_sha [toy_tx '''']) \<union> hashed toy_sha (txTree toy_sha [toy_tx ''x''])
      \<union> SignBytes ` (set [toy_tx ''''] \<union> set [toy_tx ''x''])"
  have S: "?S = {CHR 0x00 # ID toy_sha (toy_tx ''''), CHR 0x00 # ID toy_sha (toy_tx ''x''),
      SignBytes (toy_tx ''''), SignBytes (toy_tx ''x'')}" by (auto simp: txTree_def levels.simps)
  have "inj_on toy_sha ?S"
    unfolding S by (auto simp: inj_on_def id toy_sha_def toy_SignBytes dest: arg_cong [where f = length])
  moreover have "list_all tx_ok [toy_tx m]" if "length m < 50" for m
    using that by (simp add: tx_ok_def toy_tx_def str_ok_def)
  ultimately have "map (\<lambda>t. t\<lparr>txSig := []\<rparr>) [toy_tx ''''] = map (\<lambda>t. t\<lparr>txSig := []\<rparr>) [toy_tx ''x'']"
    using tx_root_binding [where sha = toy_sha, OF len _ _ _ _ _ eq] by simp
  then show False by (simp add: toy_tx_def)
qed

end
