(* ===== verification/Encoding_Properties.thy ===== *)
theory Encoding_Properties
  imports Merkle
begin

text \<open>
  What the encodings promise: an address in the one form the node accepts is the same thing as
  a public key, and what is signed determines the transaction and the block header.
\<close>

subsection \<open>Hex digits\<close>

lemma hexdigit_of_char [simp]:
  "n < 16 \<Longrightarrow> (of_char (hexdigit n) :: nat) = (if n < 10 then 48 + n else 87 + n)"
  by (simp add: hexdigit_def)

lemma hexval_hexdigit [simp]: "n < 16 \<Longrightarrow> hexval (hexdigit n) = Some n"
  by (simp add: hexval_def)

lemma nibbles: "(of_char c :: nat) div 16 < 16" "(of_char c :: nat) mod 16 < 16"
proof -
  have "(of_char c :: nat) < 256" by (rule nat_of_char_less_256)
  then show "(of_char c :: nat) div 16 < 16" by (simp add: less_mult_imp_div_less)
qed simp

lemma hex_decode_encode [simp]: "hex_decode (hex_encode bs) = Some bs"
proof (induction bs)
  case Nil
  then show ?case by (simp add: hex_encode_def)
next
  case (Cons c bs)
  have "16 * ((of_char c :: nat) div 16) + of_char c mod 16 = of_char c" by simp
  then have "char_of (16 * ((of_char c :: nat) div 16) + of_char c mod 16) = c" by (simp only: char_of_char)
  then show ?case using Cons nibbles [of c] by (simp add: hex_encode_def)
qed

lemma to_lower_hexdigit [simp]: "n < 16 \<Longrightarrow> to_lower (hexdigit n) = hexdigit n"
  by (simp add: to_lower_def)

lemma to_lower_hex_encode [simp]: "map to_lower (hex_encode bs) = hex_encode bs"
  by (induction bs) (simp_all add: hex_encode_def nibbles)

text \<open>A lowercase digit is the digit of its value.\<close>

lemma hexdigit_hexval: "hexval c = Some v \<Longrightarrow> to_lower c = c \<Longrightarrow> v < 16 \<and> hexdigit v = c"
proof -
  assume h: "hexval c = Some v" and l: "to_lower c = c"
  let ?n = "of_char c :: nat"
  have n: "?n < 256" by (rule nat_of_char_less_256)
  have up: "\<not> (65 \<le> ?n \<and> ?n \<le> 90)"
  proof
    assume r: "65 \<le> ?n \<and> ?n \<le> 90"
    then have "char_of (?n + 32) = c" using l by (simp add: to_lower_def Let_def)
    then have "(of_char (char_of (?n + 32) :: char) :: nat) = ?n" by simp
    then show False using r by simp
  qed
  have "char_of ?n = c" by simp
  then show ?thesis using h up by (auto simp: hexval_def hexdigit_def Let_def split: if_splits)
qed

lemma hex_encode_decode: "hex_decode s = Some bs \<Longrightarrow> map to_lower s = s \<Longrightarrow> hex_encode bs = s"
proof (induction s arbitrary: bs rule: hex_decode.induct)
  case (3 c d r)
  then obtain a b bs' where d: "hexval c = Some a" "hexval d = Some b" "hex_decode r = Some bs'"
    and bs: "bs = char_of (16 * a + b) # bs'" by (auto split: option.splits)
  have l: "to_lower c = c" "to_lower d = d" "map to_lower r = r" using "3.prems"(2) by simp_all
  note ca = hexdigit_hexval [OF d(1) l(1)] and cb = hexdigit_hexval [OF d(2) l(2)]
  have "(of_char (char_of (16 * a + b) :: char) :: nat) = 16 * a + b" using ca cb by simp
  moreover have "hex_encode bs' = r" using "3.IH" d(3) l(3) by blast
  ultimately show ?case using ca cb by (simp add: bs hex_encode_def)
qed (simp_all add: hex_encode_def)

subsection \<open>Properties\<close>

lemma hex_decode_replicate: "hexval c = Some k \<Longrightarrow> hex_decode (replicate (2 * n) c) = Some (replicate n (char_of (17 * k)))"
  by (induction n) simp_all

lemma PubKey_replicate: "hexval c = Some k \<Longrightarrow> PubKey (replicate 64 c) = Inr (replicate 32 (char_of (17 * k)))"
  using hex_decode_replicate [of c k 32] by (simp add: PubKey_def)

text \<open>
  Addresses. The address of a 32-byte public key is valid and decodes to that key; and every
  valid address is the address of the key it decodes to, so two valid addresses of one key are the
  same string.
\<close>

theorem address_roundtrip:
  "(length pub = 32 \<longrightarrow> Validate (AddressFromPubKey pub) = None \<and> PubKey (AddressFromPubKey pub) = Inr pub) \<and>
   (Validate a = None \<longrightarrow> (\<exists>key. PubKey a = Inr key \<and> length key = 32 \<and> AddressFromPubKey key = a))"
proof (intro conjI impI)
  assume "length pub = 32"
  then show "Validate (AddressFromPubKey pub) = None" "PubKey (AddressFromPubKey pub) = Inr pub"
    by (simp_all add: Validate_def AddressFromPubKey_def PubKey_def)
next
  assume v: "Validate a = None"
  then have low: "map to_lower a = a" by (auto simp: Validate_def split: if_splits)
  obtain key where key: "hex_decode a = Some key" "length key = 32" "PubKey a = Inr key"
    using v by (auto simp: Validate_def PubKey_def split: if_splits sum.splits option.splits)
  then have "AddressFromPubKey key = a" using hex_encode_decode [OF key(1) low] by (simp add: AddressFromPubKey_def)
  with key show "\<exists>key. PubKey a = Inr key \<and> length key = 32 \<and> AddressFromPubKey key = a" by blast
qed

theorem address_roundtrip_witness: "PubKey (AddressFromPubKey (replicate 32 (CHR ''k''))) = Inr (replicate 32 (CHR ''k''))"
proof -
  have "length (replicate 32 (CHR ''k'')) = 32" by simp
  with address_roundtrip [of "replicate 32 (CHR ''k'')"] show ?thesis by blast
qed

text \<open>
  C17: what a signature covers. Two transactions (with 32-byte hashes, \<open>int64\<close> fields in range and
  no string or list of \<open>2^32\<close> or more entries) with the same signed bytes are equal in every field
  but the signature: no field can be changed, added or dropped under a signature, in either
  encoding version.
\<close>

theorem sign_bytes_determine_tx:
  assumes "tx_ok t" and "tx_ok u"
  shows "SignBytes t = SignBytes u \<longleftrightarrow> t\<lparr>txSig := []\<rparr> = u\<lparr>txSig := []\<rparr>"
proof
  assume "t\<lparr>txSig := []\<rparr> = u\<lparr>txSig := []\<rparr>"
  then have "SignBytes (t\<lparr>txSig := []\<rparr>) = SignBytes (u\<lparr>txSig := []\<rparr>)" by simp
  moreover have "SignBytes (x\<lparr>txSig := []\<rparr>) = SignBytes x" for x
    by (simp add: SignBytes_def isV2_def v2Bytes_def)
  ultimately show "SignBytes t = SignBytes u" by simp
qed (rule SignBytes_inject_aux [OF assms])

theorem sign_bytes_determine_tx_witness: "SignBytes (toy_tx ''x'') \<noteq> SignBytes (toy_tx ''y'')"
proof -
  have "tx_ok (toy_tx ''x'')" "tx_ok (toy_tx ''y'')" by (simp_all add: tx_ok_def toy_tx_def str_ok_def)
  from sign_bytes_determine_tx [OF this] show ?thesis by (simp add: toy_tx_def)
qed

text \<open>What a Go header always satisfies, with strings shorter than \<open>2^32\<close>.\<close>

definition header_ok :: "Header \<Rightarrow> bool" where
  "header_ok h \<longleftrightarrow> str_ok (hChainID h) \<and> hash_ok (hPrevHash h) \<and> int64_ok (hTime h) \<and> hash_ok (hTxRoot h) \<and>
     hash_ok (hStateRoot h) \<and> str_ok (hProposer h)"

text \<open>
  A block hash pins the chain behind it. If SHA-256 has no collision between the two encoded
  headers, headers with the same hash are equal: height, time, proposer, the previous block's hash,
  the transaction root and the state root included.
\<close>

theorem header_hash_binding:
  assumes "header_ok h" and "header_ok k" and "inj_on sha {headerSignBytes h, headerSignBytes k}"
    and "HeaderHash sha h = HeaderHash sha k"
  shows "h = k"
proof -
  have ok: "str_ok (hChainID h)" "str_ok (hChainID k)" "hash_ok (hPrevHash h)" "hash_ok (hPrevHash k)"
    "int64_ok (hTime h)" "int64_ok (hTime k)" "hash_ok (hTxRoot h)" "hash_ok (hTxRoot k)"
    "hash_ok (hStateRoot h)" "hash_ok (hStateRoot k)" "str_ok (hProposer h)" "str_ok (hProposer k)"
    using assms(1,2) by (simp_all add: header_ok_def)
  have "headerSignBytes h = headerSignBytes k"
    by (rule inj_onD [OF assms(3)]) (use assms(4) in \<open>simp_all add: HeaderHash_def\<close>)
  from str_code.enc_cancel [OF str_ok_literals(3) str_ok_literals(3) this [unfolded headerSignBytes_def]]
  have 1: "estr (hChainID h) @ u64be (hHeight h) @ hPrevHash h @ e64i (hTime h) @ hTxRoot h @ hStateRoot h @ estr (hProposer h) =
      estr (hChainID k) @ u64be (hHeight k) @ hPrevHash k @ e64i (hTime k) @ hTxRoot k @ hStateRoot k @ estr (hProposer k)" by blast
  note a = str_code.enc_cancel [OF ok(1,2) 1]
  note b = u64_code.enc_cancel [OF TrueI TrueI conjunct2 [OF a]]
  note c = hash_code.enc_cancel [OF ok(3,4) conjunct2 [OF b]]
  note d = i64_code.enc_cancel [OF ok(5,6) conjunct2 [OF c]]
  note e = hash_code.enc_cancel [OF ok(7,8) conjunct2 [OF d]]
  note f = hash_code.enc_cancel [OF ok(9,10) conjunct2 [OF e]]
  have "hProposer h = hProposer k" using f str_code.enc_inject [OF ok(11,12)] by blast
  then show ?thesis using a b c d e f by simp
qed

definition toy_header :: "64 word \<Rightarrow> Header" where
  "toy_header n = \<lparr>hChainID = ''demo'', hHeight = n, hPrevHash = zeroHash, hTime = 1, hTxRoot = zeroHash,
     hStateRoot = zeroHash, hProposer = ''p''\<rparr>"

theorem header_hash_binding_witness: "HeaderHash (\<lambda>x. x) (toy_header 1) \<noteq> HeaderHash (\<lambda>x. x) (toy_header 2)"
proof
  assume eq: "HeaderHash (\<lambda>x. x) (toy_header 1) = HeaderHash (\<lambda>x. x) (toy_header 2)"
  have ok: "header_ok (toy_header n)" for n
    by (simp add: header_ok_def toy_header_def str_ok_def hash_ok_def zeroHash_def int64_ok_def)
  have "inj_on (\<lambda>x. x) {headerSignBytes (toy_header 1), headerSignBytes (toy_header 2)}" by simp
  from header_hash_binding [OF ok ok this eq] show False by (simp add: toy_header_def)
qed

end
