(* ===== verification/Rules_Properties.thy ===== *)
theory Rules_Properties
  imports State_Root
begin

text \<open>
  What the rules of pools, escrows and social recovery promise their users, over the
  operations of Pools, Escrows and Guards: money moves exactly as a rule says, only the people
  a rule names can move it, and what ends leaves nothing behind.
\<close>

subsection \<open>A circle of two to evaluate on\<close>

definition circle_op :: PoolOp where
  "circle_op = goal_pool_op\<lparr>poMode := '''', poRoundSecs := 0, poTarget := 0, poContribution := 100\<rparr>"

definition circle_tx :: Tx where
  "circle_tx = goal_pool_tx\<lparr>txPool := Some circle_op\<rparr>"

definition circle0 :: Pool where
  "circle0 = newPool demo_state circle_tx circle_op [] 0"

definition act_op :: "string \<Rightarrow> amount \<Rightarrow> PoolOp" where
  "act_op w v = circle_op\<lparr>poOp := w, poContribution := v\<rparr>"

definition circle_step :: "string \<Rightarrow> amount \<Rightarrow> nat \<Rightarrow> Pool \<Rightarrow> Pool" where
  "circle_step w v i p = snd (projr (memberOp demo_sha demo_state circle_tx (act_op w v) p i))"

definition circle1 :: Pool where "circle1 = circle_step OpPoolJoin 0 1 circle0"
definition circle2 :: Pool where "circle2 = circle_step OpPoolContribute 40 0 circle1"
definition circle3 :: Pool where "circle3 = circle_step OpPoolContribute 0 0 circle2"
definition circle4 :: Pool where "circle4 = circle_step OpPoolContribute 0 1 circle3"

lemma circle_runs:
  "memberOp demo_sha demo_state circle_tx (act_op OpPoolJoin 0) circle0 1 = Inr (demo_state, circle1)"
  "memberOp demo_sha demo_state circle_tx (act_op OpPoolContribute 40) circle1 0 = Inr (demo_state, circle2)"
  "memberOp demo_sha demo_state circle_tx (act_op OpPoolContribute 0) circle2 0 = Inr (demo_state, circle3)"
  "memberOp demo_sha demo_state circle_tx (act_op OpPoolContribute 0) circle3 1 = Inr (demo_state, circle4)"
proof -
  have *: "memberOp demo_sha s circle_tx op p i = Inr (s, snd (projr (memberOp demo_sha s circle_tx op p i)))"
    if "poOp op = OpPoolJoin \<or> poOp op = OpPoolContribute" "\<not> isl (memberOp demo_sha s circle_tx op p i)" for s op p i
    using that by (auto simp: memberOp_def poolJoin_def poolContribute_def Let_def split: if_splits)
  have op: "poOp (act_op w v) = w" for w v by (simp add: act_op_def)
  have "\<not> isl (memberOp demo_sha demo_state circle_tx (act_op OpPoolJoin 0) circle0 1)" by code_simp
  moreover have "\<not> isl (memberOp demo_sha demo_state circle_tx (act_op OpPoolContribute 40) circle1 0)" by code_simp
  moreover have "\<not> isl (memberOp demo_sha demo_state circle_tx (act_op OpPoolContribute 0) circle2 0)" by code_simp
  moreover have "\<not> isl (memberOp demo_sha demo_state circle_tx (act_op OpPoolContribute 0) circle3 1)" by code_simp
  ultimately show
    "memberOp demo_sha demo_state circle_tx (act_op OpPoolJoin 0) circle0 1 = Inr (demo_state, circle1)"
    "memberOp demo_sha demo_state circle_tx (act_op OpPoolContribute 40) circle1 0 = Inr (demo_state, circle2)"
    "memberOp demo_sha demo_state circle_tx (act_op OpPoolContribute 0) circle2 0 = Inr (demo_state, circle3)"
    "memberOp demo_sha demo_state circle_tx (act_op OpPoolContribute 0) circle3 1 = Inr (demo_state, circle4)"
    using * op by (simp_all add: circle1_def circle2_def circle3_def circle4_def circle_step_def)
qed

lemma circle_wf: "wf_pool circle0" "wf_pool circle1" "wf_pool circle2" "wf_pool circle3" "wf_pool circle4"
proof -
  have "checkPoolCreate circle_tx circle_op = None" by code_simp
  moreover have "0 < length (poMembers circle_op)" by code_simp
  ultimately show w0: "wf_pool circle0" unfolding circle0_def by (rule newPool_ok)
  have n: "members_n q = members_n p" if "memberOp demo_sha demo_state circle_tx op p i = Inr (s, q)" "wf_pool p" "i < members_n p" for op p i s q
    using memberOp_ok(2) [OF that(2,3,1)] pool_fixed_length by (simp add: moves_def)
  have n0: "members_n circle0 = 2" by code_simp
  show w1: "wf_pool circle1" using memberOp_ok(1) [OF w0 _ circle_runs(1)] n0 by simp
  have n1: "members_n circle1 = 2" using n [OF circle_runs(1) w0] n0 by simp
  show w2: "wf_pool circle2" using memberOp_ok(1) [OF w1 _ circle_runs(2)] n1 by simp
  have n2: "members_n circle2 = 2" using n [OF circle_runs(2) w1] n1 by simp
  show w3: "wf_pool circle3" using memberOp_ok(1) [OF w2 _ circle_runs(3)] n2 by simp
  have n3: "members_n circle3 = 2" using n [OF circle_runs(3) w2] n2 by simp
  show "wf_pool circle4" using memberOp_ok(1) [OF w3 _ circle_runs(4)] n3 by simp
qed

subsection \<open>What a full round pays\<close>

lemma payShare_fold:
  assumes "distinct (pMembers p)" "distinct js" "set js \<subseteq> {..<members_n p}" "m < members_n p"
  shows "Balance (fst (fold (payShare p i share) js (s, pot))) (pMembers p ! m) (pAsset p) =
      Balance s (pMembers p ! m) (pAsset p) + (if m \<in> set js \<and> m \<noteq> i then share else 0)"
    "snd (fold (payShare p i share) js (s, pot)) = pot - of_nat (card (set js - {i})) * share"
proof -
  have "Balance (fst (fold (payShare p i share) js (s, pot))) (pMembers p ! m) (pAsset p) =
      Balance s (pMembers p ! m) (pAsset p) + (if m \<in> set js \<and> m \<noteq> i then share else 0) \<and>
      snd (fold (payShare p i share) js (s, pot)) = pot - of_nat (card (set js - {i})) * share"
    using assms(2,3)
  proof (induction js arbitrary: s pot)
    case Nil
    then show ?case by simp
  next
    case (Cons j js)
    have eq: "pMembers p ! j = pMembers p ! m \<longleftrightarrow> j = m"
      using Cons.prems assms(1,4) by (simp add: nth_eq_iff_index_eq)
    have c: "card (set (j # js) - {i}) = (if j = i then card (set js - {i}) else Suc (card (set js - {i})))"
      using Cons.prems by (simp add: insert_Diff_if)
    show ?case
      using Cons.IH [of "fst (payShare p i share j (s, pot))" "snd (payShare p i share j (s, pot))"] Cons.prems eq c
      by (auto simp: payShare_def money_simps algebra_simps)
  qed
  then show "Balance (fst (fold (payShare p i share) js (s, pot))) (pMembers p ! m) (pAsset p) =
      Balance s (pMembers p ! m) (pAsset p) + (if m \<in> set js \<and> m \<noteq> i then share else 0)"
    "snd (fold (payShare p i share) js (s, pot)) = pot - of_nat (card (set js - {i})) * share" by blast+
qed

text \<open>With everybody paid, nobody defaults and the balance is the whole pot.\<close>

lemma cover_none: "False \<notin> set (pPaid p) \<Longrightarrow> pool_shape p \<Longrightarrow> fold coverDefault [0..<members_n p] p = p"
proof -
  assume a: "False \<notin> set (pPaid p)" "pool_shape p"
  have "coverDefault j p = p" if "j < members_n p" for j
  proof -
    have "pPaid p ! j \<in> set (pPaid p)" using a(2) that by (simp add: pool_shape_def)
    then have "pPaid p ! j = True" using a(1) by metis
    then show ?thesis by (simp add: coverDefault_def)
  qed
  then have "fold coverDefault js p = p" if "set js \<subseteq> {..<members_n p}" for js
    using that by (induction js) simp_all
  then show ?thesis by (simp add: atLeast_upt)
qed

lemma full_balance:
  assumes "wf_pool p" "pMode p \<noteq> PoolGoal" "False \<notin> set (pPaid p)"
  shows "pBalance p = Pot p" "unat (Pot p) = unat (pContribution p) * members_n p"
proof -
  note w = wf_poolD [OF assms(1)]
  have m: "pPaid p = map (\<lambda>x. x = pContribution p) (paidList p)" "unat (pBalance p) = sum_list (map unat (paidList p))"
    using w(3) assms(2) by (simp_all add: pool_money_def)
  have all: "\<forall>x\<in>set (paidList p). x = pContribution p" using assms(3) unfolding m(1) by auto
  have len: "length (paidList p) = members_n p" using w(1) m(1) by (metis length_map pool_shape_def)
  have "sum_list (map unat (paidList p)) = unat (pContribution p) * members_n p"
    using all len sum_list_triv [of "unat (pContribution p)" "paidList p"] by (simp cong: map_cong add: mult.commute)
  then have b: "unat (pBalance p) = unat (pContribution p) * members_n p" using m(2) by simp
  have fits: "unat (pContribution p) * members_n p < 2 ^ 64" using w(2) by (simp add: pool_terms_def)
  have "members_n p < 2 ^ 64" using w(2) by (simp add: pool_terms_def)
  then show pt: "unat (Pot p) = unat (pContribution p) * members_n p"
    using fits by (simp add: Pot_def unat_word_ariths unat_of_nat64)
  show "pBalance p = Pot p" using b pt by (simp add: word_unat_eq_iff)
qed

text \<open>What the recipient of a full round's pot gets, and what each other member gets, exactly.\<close>

definition roundCut :: "Pool \<Rightarrow> amount" where
  "roundCut p = bpsOf (Pot p) (pInsuranceBps p)"

definition roundShare :: "Pool \<Rightarrow> nat \<Rightarrow> amount" where
  "roundShare p i =
     (if pMode p = PoolBidding
      then min (case pBids p of None \<Rightarrow> 0 | Some b \<Rightarrow> b ! i) (Pot p - roundCut p) div (of_nat (members_n p) - 1) else 0)"

lemma payout_full:
  assumes wf: "wf_pool p" and md: "pMode p \<noteq> PoolGoal" and full: "False \<notin> set (pPaid p)"
    and i: "i < members_n p" and m: "m < members_n p" and more: "pRound p + 1 < members_n p"
  shows "Balance (fst (payout s p i)) (pMembers p ! m) (pAsset p) = Balance s (pMembers p ! m) (pAsset p) +
      (if m = i then Pot p - roundCut p - of_nat (members_n p - 1) * roundShare p i else roundShare p i)"
proof -
  note w = wf_poolD [OF wf]
  have d: "distinct (pMembers p)" using w(2) by (simp add: pool_terms_def)
  have eq: "pMembers p ! i = pMembers p ! m \<longleftrightarrow> i = m" using d i m by (simp add: nth_eq_iff_index_eq)
  have cv: "fold coverDefault [0..<members_n p] p = p" by (rule cover_none [OF full w(1)])
  define p2 where "p2 = (if pInsuranceBps p > 0 then p\<lparr>pBalance := 0, pInsurance := pInsurance p + roundCut p\<rparr> else p\<lparr>pBalance := 0\<rparr>)"
  define pot where "pot = Pot p - roundCut p"
  have ti: "takeInsurance p = (p2, pot)"
    using full_balance [OF wf md full] by (simp add: takeInsurance_def Let_def p2_def pot_def roundCut_def bpsOf_def word_gt_0)
  have f2: "pMembers p2 = pMembers p" "pAsset p2 = pAsset p" "pMode p2 = pMode p" "pBids p2 = pBids p" "pRound p2 = pRound p"
    by (simp_all add: p2_def)
  have fold_p2: "payShare p2 = payShare p" by (intro ext) (simp add: payShare_def f2)
  define s1 where "s1 = fst (fold (payShare p i (roundShare p i)) [0..<members_n p] (s, pot))"
  define pot1 where "pot1 = pot - of_nat (members_n p - 1) * roundShare p i"
  have card: "card ({0..<members_n p} - {i}) = members_n p - 1" using i by simp
  have sub: "set [0..<members_n p] \<subseteq> {..<members_n p}" by auto
  note ps = payShare_fold [OF d distinct_upt sub m, of i "roundShare p i" s pot]
  have zero: "fold (payShare p i 0) js (s, pot) = (fst (fold (payShare p i 0) js (s, pot)), pot)" for js s pot
    by (induction js arbitrary: s) (simp_all add: payShare_def)
  have bal: "Balance s' (pMembers p ! m) (pAsset p) = Balance s (pMembers p ! m) (pAsset p) + (if m = i then 0 else roundShare p i)
      \<and> v = pot1" if "shareDiscount s p2 i pot = (s', v)" for s' v
  proof (cases "pMode p = PoolBidding \<and> (case pBids p of None \<Rightarrow> 0 | Some b \<Rightarrow> b ! i) > 0")
    case True
    then have sh: "roundShare p i = min (case pBids p of None \<Rightarrow> 0 | Some b \<Rightarrow> b ! i) pot div (of_nat (members_n p) - 1)"
      by (simp add: roundShare_def pot_def)
    have "(s', v) = fold (payShare p i (roundShare p i)) [0..<members_n p] (s, pot)"
      using that True by (simp add: shareDiscount_def Let_def f2 fold_p2 sh)
    then show ?thesis using ps m card by (auto simp: pot1_def prod_eq_iff)
  next
    case False
    then have "pMode p \<noteq> PoolBidding \<or> (case pBids p of None \<Rightarrow> 0 | Some b \<Rightarrow> b ! i) = 0" by (auto simp: word_gt_0)
    then have "roundShare p i = 0" by (auto simp: roundShare_def)
    moreover have "s' = s" "v = pot" using that False by (auto simp: shareDiscount_def Let_def f2)
    ultimately show ?thesis by (simp add: pot1_def)
  qed
  obtain s' v where sd: "shareDiscount s p2 i pot = (s', v)" by (cases "shareDiscount s p2 i pot")
  have "pRound (nextRound i v p2) < length (pMembers (nextRound i v p2))" using more by (simp add: nextRound_def f2)
  then have "fst (payout s p i) = credit s' (pMembers p ! i) (pAsset p) v"
    using cv ti sd by (simp add: payout_def f2)
  then show ?thesis using bal [OF sd] eq by (simp add: money_simps pot1_def pot_def)
qed

lemma round_amounts:
  assumes wf: "wf_pool p"
  shows "unat (roundCut p) = unat (Pot p) * unat (pInsuranceBps p) div 10000"
    "(members_n p - 1) * unat (roundShare p i) \<le> unat (Pot p) - unat (roundCut p)"
proof -
  have t: "unat (pInsuranceBps p) \<le> 1000" "2 \<le> members_n p" "members_n p \<le> 50"
    using wf_poolD(2) [OF wf] by (simp_all add: pool_terms_def)
  then show c: "unat (roundCut p) = unat (Pot p) * unat (pInsuranceBps p) div 10000"
    by (simp add: roundCut_def unat_bpsOf)
  have "roundCut p \<le> Pot p" using t by (simp add: roundCut_def bpsOf_le)
  then have sub: "unat (Pot p - roundCut p) = unat (Pot p) - unat (roundCut p)" by (simp add: unat_sub64)
  let ?X = "min (case pBids p of None \<Rightarrow> 0 | Some b \<Rightarrow> b ! i) (Pot p - roundCut p)"
  have n: "unat (of_nat (members_n p) - 1 :: amount) = members_n p - 1"
  proof -
    have "(of_nat (members_n p) - 1 :: amount) = of_nat (members_n p - 1)" using t(2) by simp
    then show ?thesis using t(3) by (simp add: unat_of_nat64)
  qed
  have "unat ?X \<le> unat (Pot p - roundCut p)" by (simp add: word_le_nat_alt [symmetric])
  then have "(members_n p - 1) * (unat ?X div (members_n p - 1)) \<le> unat (Pot p) - unat (roundCut p)"
    using sub by (intro order_trans [OF times_div_less_eq_dividend]) simp
  then show "(members_n p - 1) * unat (roundShare p i) \<le> unat (Pot p) - unat (roundCut p)"
    by (simp add: roundShare_def unat_div n)
qed

subsection \<open>Properties of circles\<close>

text \<open>
  C9: pool operations. Every operation a member may send keeps the circle well formed (one entry
  per member in every slice, the balance equal to the round's payments, turns taken in order),
  keeps its terms, and moves into accounts and circle together exactly what the sender is charged
  (contribution, autopay deposit or joining deposit) and nothing in any other asset.
\<close>

theorem pool_op_keeps_invariant:
  assumes "wf_pool p" and "i < length (pMembers p)" and "memberOp sha s tx op p i = Inr (s', p')"
  shows "wf_pool p' \<and> pool_fixed p p' \<and>
    (\<forall>k. acctTotal s' k + (if pAsset p = k then poolValue p' else 0) =
         acctTotal s k + (if pAsset p = k then poolValue p + inflow op p i else 0))"
proof -
  have m: "wf_pool p'" "moves (inflow op p i) (s, p) (s', p')" by (rule memberOp_ok [OF assms])+
  have t: "poolTotal (s', p') k = poolTotal (s, p) k + (if pAsset p = k then inflow op p i else 0)" for k
    using m(2) by (simp add: moves_def)
  have f: "pAsset p' = pAsset p" "pool_fixed p p'" using m(2) by (simp_all add: moves_def pool_fixed_def)
  have "acctTotal s' k + (if pAsset p = k then poolValue p' else 0) =
      acctTotal s k + (if pAsset p = k then poolValue p + inflow op p i else 0)" for k
    using t [of k] f(1) by (cases "pAsset p = k") (simp_all add: poolTotal_def add.assoc)
  then show ?thesis using m(1) f(2) by blast
qed

theorem pool_op_keeps_invariant_witness: "wf_pool circle2 \<and> poolValue circle2 = poolValue circle1 + 40"
proof -
  have n: "0 < length (pMembers circle1)" using wf_poolD(2) [OF circle_wf(2)] by (auto simp: pool_terms_def)
  have "poOp (act_op OpPoolContribute 40) = OpPoolContribute" "poContribution (act_op OpPoolContribute 40) = 40"
    by (simp_all add: act_op_def)
  then have "inflow (act_op OpPoolContribute 40) circle1 0 = 40" by (simp add: inflow_def)
  with pool_op_keeps_invariant [OF circle_wf(2) n circle_runs(2)] show ?thesis by simp metis
qed

text \<open>
  C10: a full round, any but the last. When everybody has paid, the claim pays the
  recipient the whole pot (contribution times members, with no wrap) less the insurance cut
  (rounded down) and less the discount shared out, and pays every other member exactly the equal
  share of a bidding winner's discount (nothing in other circles).
\<close>

theorem full_round_pays_exactly:
  assumes "wf_pool p" and "False \<notin> set (pPaid p)" and "poolClaim s tx p i = Inr (s', p')"
    and "i < length (pMembers p)" and "pRound p + 1 < length (pMembers p)" and "m < length (pMembers p)"
  shows "Balance s' (pMembers p ! m) (pAsset p) = Balance s (pMembers p ! m) (pAsset p) +
      (if m = i then Pot p - roundCut p - of_nat (length (pMembers p) - 1) * roundShare p i else roundShare p i) \<and>
    unat (Pot p) = unat (pContribution p) * length (pMembers p) \<and>
    unat (roundCut p) = unat (Pot p) * unat (pInsuranceBps p) div 10000 \<and>
    (length (pMembers p) - 1) * unat (roundShare p i) \<le> unat (Pot p) - unat (roundCut p)"
proof -
  have md: "pMode p \<noteq> PoolGoal" and s': "s' = fst (payout s p i)"
    using assms(3) by (auto simp: poolClaim_def split: if_splits option.splits dest: arg_cong [where f = fst])
  show ?thesis
    using payout_full [OF assms(1) md assms(2,4,6,5)] full_balance(2) [OF assms(1) md assms(2)]
      round_amounts [OF assms(1)] by (simp add: s')
qed

lemma circle4_ready:
  "False \<notin> set (pPaid circle4)" "pRound circle4 + 1 < length (pMembers circle4)" "length (pMembers circle4) = 2"
  "poolClaim demo_state circle_tx circle4 0 = Inr (projr (poolClaim demo_state circle_tx circle4 0))"
proof -
  have "\<not> isl (poolClaim demo_state circle_tx circle4 0)" by code_simp
  then show "poolClaim demo_state circle_tx circle4 0 = Inr (projr (poolClaim demo_state circle_tx circle4 0))" by simp
qed (code_simp+)

theorem full_round_pays_exactly_witness:
  "\<exists>s' p'. poolClaim demo_state circle_tx circle4 0 = Inr (s', p') \<and>
     Balance s' (pMembers circle4 ! 1) (pAsset circle4) = Balance demo_state (pMembers circle4 ! 1) (pAsset circle4) + roundShare circle4 0"
proof -
  obtain s' p' where r: "poolClaim demo_state circle_tx circle4 0 = Inr (s', p')"
    using circle4_ready(4) by (metis surj_pair)
  have "0 < length (pMembers circle4)" "1 < length (pMembers circle4)" using circle4_ready(3) by simp_all
  from full_round_pays_exactly [OF circle_wf(5) circle4_ready(1) r this(1) circle4_ready(2) this(2)] r show ?thesis by simp
qed

text \<open>What the loops of a circle leave alone.\<close>

lemma autopay_frame [simp]:
  "pStatus (autopay p) = pStatus p" "pRound (autopay p) = pRound p" "pClaimed (autopay p) = pClaimed p"
proof -
  have step: "pStatus (autopayStep j q) = pStatus q \<and> pRound (autopayStep j q) = pRound q \<and> pClaimed (autopayStep j q) = pClaimed q"
    for j q by (simp add: autopayStep_def payIn_def Let_def split: option.split)
  have "pStatus (fold autopayStep js q) = pStatus q \<and> pRound (fold autopayStep js q) = pRound q \<and>
      pClaimed (fold autopayStep js q) = pClaimed q" for js q
    by (induction js arbitrary: q) (simp_all add: step)
  then show "pStatus (autopay p) = pStatus p" "pRound (autopay p) = pRound p" "pClaimed (autopay p) = pClaimed p"
    by (simp_all add: autopay_def)
qed

lemma closePool_frame:
  "pRound (snd (closePool s p)) = pRound p" "pClaimed (snd (closePool s p)) = pClaimed p" "pStatus (snd (closePool s p)) = PoolDone"
proof -
  let ?f = "\<lambda>j sp. returnDeposit j (returnPrepaid j sp)"
  have step: "pRound (snd (?f j sp)) = pRound (snd sp) \<and> pClaimed (snd (?f j sp)) = pClaimed (snd sp) \<and>
      pStatus (snd (?f j sp)) = pStatus (snd sp)" for j sp
    by (simp add: returnDeposit_def returnPrepaid_def split: option.split)
  have "pRound (snd (fold ?f js sp)) = pRound (snd sp) \<and> pClaimed (snd (fold ?f js sp)) = pClaimed (snd sp) \<and>
      pStatus (snd (fold ?f js sp)) = pStatus (snd sp)" for js sp
    by (induction js arbitrary: sp) (simp_all add: step)
  then show "pRound (snd (closePool s p)) = pRound p" "pClaimed (snd (closePool s p)) = pClaimed p"
    "pStatus (snd (closePool s p)) = PoolDone"
    by (simp_all add: closePool_def Let_def shareInsurance_def)
qed

lemma poolClaim_parts:
  assumes wf: "wf_pool p" and i: "i < members_n p" and ok: "poolClaim s tx p i = Inr (s', p')"
  shows "(s', p') = payout s p i" "pMode p \<noteq> PoolGoal" "pStatus p = PoolActive" "Recipient p = Some i" "\<not> pClaimed p ! i"
    "pMode p \<noteq> PoolBidding \<Longrightarrow> i = pRound p"
proof -
  show 1: "(s', p') = payout s p i" "pMode p \<noteq> PoolGoal" "pStatus p = PoolActive" "Recipient p = Some i"
    using ok by (auto simp: poolClaim_def split: if_splits option.splits)
  obtain k where "Recipient p = Some k" "\<not> pClaimed p ! k" "pMode p \<noteq> PoolBidding \<Longrightarrow> k = pRound p"
    using Recipient_ok [OF wf 1(3,2)] by metis
  then show "\<not> pClaimed p ! i" "pMode p \<noteq> PoolBidding \<Longrightarrow> i = pRound p" using 1(4) by simp_all
qed

lemma payout_claimed:
  assumes wf: "wf_pool p" and md: "pMode p \<noteq> PoolGoal" and i: "i < members_n p"
  shows "pRound (snd (payout s p i)) = pRound p + 1" "pClaimed (snd (payout s p i)) = (pClaimed p)[i := True]"
proof -
  obtain p2 pot1 s1 where po: "payout s p i = (let s2 = credit s1 (pMembers p2 ! i) (pAsset p2) pot1; p3 = nextRound i pot1 p2
       in if pRound p3 < length (pMembers p3) then (s2, autopay p3) else closePool s2 p3)"
    and p2: "pRound p2 = pRound p" "pClaimed p2 = pClaimed p"
    by (rule payout_parts [OF wf md i, of s])
  show "pRound (snd (payout s p i)) = pRound p + 1" "pClaimed (snd (payout s p i)) = (pClaimed p)[i := True]"
    using p2 by (simp_all add: po Let_def closePool_frame nextRound_def)
qed

text \<open>
  C11: turns. A claim is paid only to a member who has not collected yet: in a bidding circle to
  one whose bid no member still waiting beats (of equal bids, the earliest seat), in the other
  circles to the member of the round. It marks exactly that member as having collected and moves
  to the next round.
\<close>

theorem claim_takes_its_turn:
  assumes "wf_pool p" and "i < length (pMembers p)" and "poolClaim s tx p i = Inr (s', p')"
  shows "\<not> pClaimed p ! i \<and> pClaimed p' = (pClaimed p)[i := True] \<and> pRound p' = pRound p + 1 \<and>
    (if pMode p = PoolBidding
     then \<forall>bids j. pBids p = Some bids \<longrightarrow> j < length (pMembers p) \<longrightarrow> \<not> pClaimed p ! j \<longrightarrow>
            bids ! j \<le> bids ! i \<and> (j < i \<longrightarrow> bids ! j < bids ! i)
     else i = pRound p)"
proof -
  note c = poolClaim_parts [OF assms]
  obtain k where k: "Recipient p = Some k" "\<And>bids j. pMode p = PoolBidding \<Longrightarrow> pBids p = Some bids \<Longrightarrow>
      j < members_n p \<Longrightarrow> \<not> pClaimed p ! j \<Longrightarrow> bids ! j \<le> bids ! k \<and> (j < k \<longrightarrow> bids ! j < bids ! k)"
    by (rule Recipient_ok [OF assms(1) c(3,2)]) blast
  then have "k = i" using c(4) by simp
  moreover have "p' = snd (payout s p i)" using c(1) by (metis snd_conv)
  ultimately show ?thesis using c(5,6) k(2) payout_claimed [OF assms(1) c(2) assms(2), of s] by simp
qed

theorem claim_takes_its_turn_witness:
  "\<exists>s' p'. poolClaim demo_state circle_tx circle4 0 = Inr (s', p') \<and> pClaimed p' = [True, False]"
proof -
  obtain s' p' where r: "poolClaim demo_state circle_tx circle4 0 = Inr (s', p')"
    using circle4_ready(4) by (metis surj_pair)
  have "0 < length (pMembers circle4)" using circle4_ready(3) by simp
  moreover have "(pClaimed circle4)[0 := True] = [True, False]" by code_simp
  ultimately show ?thesis using claim_takes_its_turn [OF circle_wf(5) _ r] r by simp
qed

lemma status_swapIdx [simp]: "pStatus (swapIdx i j p) = pStatus p"
  by (simp add: swapIdx_def)

lemma status_drawLoop: "pStatus (drawLoop sha seed k p) = pStatus p"
  by (induction k arbitrary: seed p) (simp_all add: Let_def)

lemma status_payIn: "pStatus (payIn p i v) = pStatus p"
  by (simp add: payIn_def Let_def split: option.split)

lemma memberOp_status:
  assumes ok: "memberOp sha s tx op p i = Inr (s', p')" and md: "pMode p \<noteq> PoolGoal"
    and no: "poOp op \<noteq> OpPoolClaim" "poOp op \<noteq> OpPoolCancel"
  shows "pStatus p' = pStatus p \<or> pStatus p' = PoolActive"
  using ok md no
  by (auto simp: memberOp_def poolJoin_def poolContribute_def poolBid_def poolSwap_def poolWithdraw_def poolAutopay_def
      poolStopAutopay_def drawOrder_def status_drawLoop status_payIn Let_def split: if_splits option.splits)

text \<open>
  A circle that is over holds nothing. When an operation ends a circle, by its last payout or
  because the organiser deletes it before the start, everything it held (round payments, deposits,
  autopay money, insurance) has been paid out to its members. Goal circles, which end when the
  target is reached, keep the savings until each member withdraws, and are not meant here.
\<close>

theorem ended_circle_is_empty:
  assumes "wf_pool p" and "i < length (pMembers p)" and "memberOp sha s tx op p i = Inr (s', p')"
    and "pMode p \<noteq> PoolGoal" and "pStatus p \<noteq> PoolDone" "pStatus p \<noteq> PoolCancelled"
    and "pStatus p' = PoolDone \<or> pStatus p' = PoolCancelled"
  shows "pBalance p' + Held p' = 0 \<and>
    acctTotal s' (pAsset p) = acctTotal s (pAsset p) + poolValue p"
proof -
  have op: "poOp op = OpPoolClaim \<or> poOp op = OpPoolCancel"
  proof (rule ccontr)
    assume "\<not> (poOp op = OpPoolClaim \<or> poOp op = OpPoolCancel)"
    then have "pStatus p' = pStatus p \<or> pStatus p' = PoolActive" using memberOp_status [OF assms(3,4)] by blast
    then show False using assms(5-7) by auto
  qed
  then have inf: "inflow op p i = 0" by (auto simp: inflow_def)
  have z: "poolValue p' = 0"
  proof (cases "poOp op = OpPoolClaim")
    case True
    then have ok: "poolClaim s tx p i = Inr (s', p')" using assms(3) by (simp add: memberOp_def)
    note c = poolClaim_parts [OF assms(1,2) ok]
    have p': "p' = snd (payout s p i)" using c(1) by (metis snd_conv)
    have "pStatus p' = PoolActive \<or> pStatus p' = PoolDone"
      using payout_wf(2) [OF assms(1) c(2) assms(2) c(3,5,6), of s] by (simp add: p')
    then have "pStatus (snd (payout s p i)) = PoolDone" using assms(7) p' by auto
    then show ?thesis using payout_wf(3) [OF assms(1) c(2) assms(2) c(3,5,6), of s] p' by simp
  next
    case False
    then have "poolCancel s tx p = Inr (s', p')" using op assms(3) by (auto simp: memberOp_def)
    from poolCancel_ok(4) [OF assms(1) this] show ?thesis .
  qed
  have m: "moves (inflow op p i) (s, p) (s', p')" by (rule memberOp_ok(2) [OF assms(1-3)])
  then have "pAsset p' = pAsset p" "poolTotal (s', p') (pAsset p) = poolTotal (s, p) (pAsset p) + inflow op p i"
    by (simp_all add: moves_def pool_fixed_def)
  then show ?thesis using z inf by (simp add: poolTotal_def poolValue_def)
qed

lemma cancel_run: "\<exists>s' p'. memberOp demo_sha demo_state circle_tx (act_op OpPoolCancel 0) circle0 0 = Inr (s', p') \<and>
    pStatus p' = PoolCancelled"
proof -
  let ?r = "memberOp demo_sha demo_state circle_tx (act_op OpPoolCancel 0) circle0 0"
  have "\<not> isl ?r" "pStatus (snd (projr ?r)) = PoolCancelled" by code_simp+
  then show ?thesis by (metis sum.collapse(2) prod.collapse)
qed

theorem ended_circle_is_empty_witness:
  "\<exists>s' p'. memberOp demo_sha demo_state circle_tx (act_op OpPoolCancel 0) circle0 0 = Inr (s', p') \<and> pBalance p' + Held p' = 0"
proof -
  obtain s' p' where r: "memberOp demo_sha demo_state circle_tx (act_op OpPoolCancel 0) circle0 0 = Inr (s', p')"
    "pStatus p' = PoolCancelled" using cancel_run by blast
  have "0 < length (pMembers circle0)" "pMode circle0 \<noteq> PoolGoal" "pStatus circle0 \<noteq> PoolDone" "pStatus circle0 \<noteq> PoolCancelled"
    by code_simp+
  from ended_circle_is_empty [OF circle_wf(1) this(1) r(1) this(2-4)] r show ?thesis by simp
qed

lemma indexFrom_nth: "distinct ms \<Longrightarrow> i < length ms \<Longrightarrow> indexFrom k ms (ms ! i) = Some (k + i)"
  by (induction ms arbitrary: k i) (auto simp: nth_Cons' split: if_splits)

lemma balance_within_pot:
  assumes "wf_pool p" "pMode p \<noteq> PoolGoal"
  shows "unat (pBalance p) \<le> unat (Pot p)"
proof -
  have m: "\<forall>x\<in>set (paidList p). x \<le> pContribution p" "unat (pBalance p) = sum_list (map unat (paidList p))"
    using wf_poolD(3) [OF assms(1)] assms(2) by (simp_all add: pool_money_def)
  have "sum_list (map unat xs) \<le> length xs * unat (pContribution p)" if "\<forall>x\<in>set xs. x \<le> pContribution p" for xs
    using that by (induction xs) (auto simp: word_le_nat_alt intro: add_mono)
  from this [OF m(1)] have "unat (pBalance p) \<le> members_n p * unat (pContribution p)"
    using wf_poolD(1) [OF assms(1)] by (simp add: m(2) length_paidList)
  moreover have "unat (pContribution p) * members_n p < 2 ^ 64" "members_n p \<le> 50"
    using wf_poolD(2) [OF assms(1)] by (simp_all add: pool_terms_def)
  ultimately show ?thesis by (simp add: Pot_def unat_word_ariths unat_of_nat64 mult.commute)
qed

text \<open>A claim of member \<open>i\<close>, filled in as the ledger asks of any transaction.\<close>

definition is_claim :: "State \<Rightarrow> hash \<Rightarrow> Pool \<Rightarrow> nat \<Rightarrow> Tx \<Rightarrow> bool" where
  "is_claim s pid p i tx \<longleftrightarrow>
     txFrom tx = pMembers p ! i \<and> txAsset tx = pAsset p \<and> txKind tx = '''' \<and> txAmount tx = 0 \<and>
     txGuard tx = None \<and> txEscrow tx = None \<and>
     (case txPool tx of None \<Rightarrow> False | Some op \<Rightarrow> poOp op = OpPoolClaim \<and> poID op = pid) \<and>
     (txAsset tx \<noteq> '''' \<longrightarrow> fmlookup (stAssetDefs s) (txAsset tx) \<noteq> None) \<and>
     MinFeeFor s (txAsset tx) \<le> txFee tx \<and> txNonce tx = acNonce (Get s (txFrom tx))"

text \<open>
  C12: no circle gets stuck. Take a circle on the ledger, active and with rounds (not a goal
  circle), whose members have all paid this round or whose round is due. Whatever the bids, the
  member whose turn it is has not collected yet, and the ledger applies that member's claim, which
  leaves the circle as the payout to that member makes it. The claim must be filled in as for any
  transaction (asset, nonce, at least the minimum fee), the member's balance and the circle's must
  together cover the fee, and the pot must not overflow the member's balance.
\<close>

theorem full_round_can_be_collected:
  assumes "fmlookup (stPools s) pid = Some p" and "wf_pool p" and "pStatus p = PoolActive" and "pMode p \<noteq> PoolGoal"
    and "False \<notin> set (pPaid p) \<or> (Scheduled p \<and> stNow s \<ge> DueAt p (pRound p))"
  shows "\<exists>i. Recipient p = Some i \<and> i < length (pMembers p) \<and> \<not> pClaimed p ! i \<and>
    (\<forall>tx. is_claim s pid p i tx \<longrightarrow>
       unat (Balance s (txFrom tx) (txAsset tx)) + unat (Pot p) < 2 ^ 64 \<longrightarrow>
       unat (txFee tx) \<le> unat (Balance s (txFrom tx) (txAsset tx)) + unat (pBalance p) \<longrightarrow>
       (\<exists>s'. Apply sha s tx = Inr s' \<and> fmlookup (stPools s') pid = Some (snd (payout s p i))))"
proof -
  obtain k where k: "Recipient p = Some k" "k < members_n p" "\<not> pClaimed p ! k"
    using Recipient_ok [OF assms(2-4)] by metis
  have "\<exists>s'. Apply sha s tx = Inr s' \<and> fmlookup (stPools s') pid = Some (snd (payout s p k))"
    if c: "is_claim s pid p k tx" and ov: "unat (Balance s (txFrom tx) (txAsset tx)) + unat (Pot p) < 2 ^ 64"
      and fee: "unat (txFee tx) \<le> unat (Balance s (txFrom tx) (txAsset tx)) + unat (pBalance p)" for tx
  proof -
    let ?bal = "Balance s (txFrom tx) (txAsset tx)"
    obtain op where op: "txPool tx = Some op" "poOp op = OpPoolClaim" "poID op = pid"
      and f: "txFrom tx = pMembers p ! k" "txAsset tx = pAsset p" "txKind tx = ''''" "txAmount tx = 0" "txGuard tx = None"
        "txEscrow tx = None" using c by (auto simp: is_claim_def split: option.splits)
    have "unat (?bal + Pot p) = unat ?bal + unat (Pot p)" using ov unat_add_lem [of ?bal "Pot p"] by simp
    then have no: "\<not> ?bal + Pot p < ?bal" by (simp add: word_less_nat_alt)
    have "unat (?bal + pBalance p) = unat ?bal + unat (pBalance p)"
      using ov balance_within_pot [OF assms(2,4)] unat_add_lem [of ?bal "pBalance p"] by simp
    then have av: "\<not> ?bal + pBalance p < txFee tx" using fee by (simp add: word_less_nat_alt)
    have cost: "Cost s tx = txFee tx" using op f by (simp add: Cost_def createsEscrow_def poolCost_def)
    have "available s tx = ?bal + pBalance p" using op f assms(1) by (simp add: available_def)
    then have "precheck s tx = None" using c f av cost by (auto simp: precheck_def is_claim_def)
    moreover have "index p (txFrom tx) = Some k"
      using indexFrom_nth [of "pMembers p" k 0] k(2) wf_poolD(2) [OF assms(2)] f(1) by (simp add: index_def pool_terms_def)
    moreover have "memberOp sha s tx op p k = Inr (payout s p k)"
      using op k no f assms(3-5) by (auto simp: memberOp_def poolClaim_def)
    ultimately have "Apply sha s tx = Inr (charge (putPool pid (payout s p k)) tx (txFee tx))"
      using op f assms(1) cost by (simp add: Apply_def effect_def poolOp_def)
    then show ?thesis by (simp add: putPool_def charge_def payFee_def)
  qed
  then show ?thesis using k by blast
qed

definition claim_tx :: Tx where
  "claim_tx = circle_tx\<lparr>txPool := Some (act_op OpPoolClaim 0)\<rparr>"

definition claim_state :: State where
  "claim_state = putPool zeroHash (demo_state, circle4)"

theorem full_round_can_be_collected_witness:
  "\<exists>s'. Apply demo_sha claim_state claim_tx = Inr s' \<and> fmlookup (stPools s') zeroHash = Some (snd (payout claim_state circle4 0))"
proof -
  have c: "pStatus circle4 = PoolActive" "pMode circle4 \<noteq> PoolGoal" "Recipient circle4 = Some 0" by code_simp+
  have l: "fmlookup (stPools claim_state) zeroHash = Some circle4" by (simp add: claim_state_def putPool_def)
  have "is_claim claim_state zeroHash circle4 0 claim_tx" by code_simp
  moreover have "Balance claim_state (txFrom claim_tx) (txAsset claim_tx) = 1000" "Pot circle4 = 200" "txFee claim_tx = 10"
    by code_simp+
  then have "unat (Balance claim_state (txFrom claim_tx) (txAsset claim_tx)) + unat (Pot circle4) < 2 ^ 64"
    "unat (txFee claim_tx) \<le> unat (Balance claim_state (txFrom claim_tx) (txAsset claim_tx)) + unat (pBalance circle4)"
    by simp_all
  ultimately show ?thesis
    using full_round_can_be_collected [OF l circle_wf(5) c(1,2), of demo_sha] circle4_ready(1) c(3) by auto
qed

text \<open>
  The lottery. Drawing the payout order deals the same seats anew: every member keeps all that
  is recorded for them (payments, deposits, bids, ...), nobody is lost or doubled, and the circle
  holds the same money.
\<close>

theorem lottery_deals_the_seats:
  assumes "wf_pool p"
  shows "seats (drawOrder sha p) = seats p \<and> mset (pMembers (drawOrder sha p)) = mset (pMembers p) \<and>
    distinct (pMembers (drawOrder sha p)) \<and> poolValue (drawOrder sha p) = poolValue p"
proof -
  note w = wf_poolD [OF assms]
  have r: "reseated p (drawOrder sha p)" by (rule drawOrder_reseated [OF w(1-3)])
  then have "mset (pMembers (drawOrder sha p)) = mset (pMembers p)" by (simp add: reseated_def pool_fixed_def)
  moreover have "distinct (pMembers p)" using w(2) by (simp add: pool_terms_def)
  ultimately show ?thesis using r mset_eq_imp_distinct_iff [of "pMembers (drawOrder sha p)" "pMembers p"]
    by (simp add: reseated_def)
qed

theorem lottery_deals_the_seats_witness: "seats (drawOrder demo_sha circle0) = seats circle0"
  using lottery_deals_the_seats [OF circle_wf(1)] by blast

end
