(* ===== verification/Custody_Properties.thy ===== *)
theory Custody_Properties
  imports Ledger_Properties
begin

text \<open>
  What escrows and social recovery promise: who can move the money of an escrow and when, what
  the arbiter may take, that a closed escrow stays closed and empty, and that everything an account
  holds moves in a recovery. When a recovery may be finished is the subject of Recovery\_Properties.
\<close>

subsection \<open>An escrow to evaluate on\<close>

definition sale_op :: EscrowOp where
  "sale_op = demo_escrow_op\<lparr>eoMilestones := [3000, 7000], eoArbiterBps := 250\<rparr>"

definition sale :: Escrow where
  "sale = newEscrow demo_state (demo_escrow_tx\<lparr>txEscrow := Some sale_op\<rparr>) sale_op []"

definition disputed_sale :: Escrow where
  "disputed_sale = sale\<lparr>eStatus := EscrowDisputed\<rparr>"

lemma sale_wf: "wf_escrow sale" "Open sale" "wf_escrow disputed_sale" "Open disputed_sale"
  by (simp_all add: sale_def disputed_sale_def newEscrow_def sale_op_def demo_escrow_op_def wf_escrow_def locked_def books_def
      Open_def Total_def)

lemma sale_roles [simp]:
  "eBuyer sale = demo_a" "eSeller sale = demo_b" "eArbiter sale = demo_c" "eAsset sale = ''''"
  "eBuyer disputed_sale = demo_a" "eSeller disputed_sale = demo_b" "eArbiter disputed_sale = demo_c" "eAsset disputed_sale = ''''"
  by (simp_all add: sale_def disputed_sale_def newEscrow_def sale_op_def demo_escrow_op_def demo_escrow_tx_def demo_tx_def)

definition from_tx :: "addr \<Rightarrow> Tx" where
  "from_tx a = demo_tx\<lparr>txFrom := a\<rparr>"

definition step_op :: "string \<Rightarrow> EscrowOp" where
  "step_op w = sale_op\<lparr>eoOp := w\<rparr>"

text \<open>What \<open>pay\<close> does, field by field; paying nothing adds nothing.\<close>

lemma pay_effect:
  "Balance (fst (pay to v se)) a k = Balance (fst se) a k + (if to = a \<and> eAsset (snd se) = k then v else 0)"
  "ePaidSeller (snd (pay to v se)) = ePaidSeller (snd se) + (if to = eSeller (snd se) then v else 0)"
  "ePaidBuyer (snd (pay to v se)) = ePaidBuyer (snd se) + (if to = eSeller (snd se) then 0 else v)"
  "eBalance (snd (pay to v se)) = eBalance (snd se) - v"
  "eArbiterFee (snd (pay to v se)) = eArbiterFee (snd se)" "eSeller (snd (pay to v se)) = eSeller (snd se)"
  "eBuyer (snd (pay to v se)) = eBuyer (snd se)" "eAsset (snd (pay to v se)) = eAsset (snd se)"
  "eStatus (snd (pay to v se)) = eStatus (snd se)"
  by (cases se, simp add: pay_def Let_def money_simps)+

subsection \<open>Properties of escrows\<close>

text \<open>
  C13: escrow steps. Every step of an open escrow keeps its invariant (what was paid out and what is
  still held add up, in unbounded arithmetic, to what the buyer locked), keeps its parties and
  terms, and only moves money between the escrow and accounts.
\<close>

theorem escrow_step_keeps_books:
  assumes "wf_escrow e" and "Open e" and "escrowStep s tx op e = Inr (s', e')"
  shows "wf_escrow e' \<and> escrow_fixed e e' \<and>
    unat (ePaidSeller e') + unat (ePaidBuyer e') + unat (eArbiterFee e') + unat (eBalance e') = locked e \<and>
    (\<forall>k. acctTotal s' k + (if eAsset e = k then eBalance e' else 0) = acctTotal s k + (if eAsset e = k then eBalance e else 0))"
proof -
  note w = escrowStep_ok [OF assms]
  have f: "escrow_fixed e e'" and t: "escrowTotal (s', e') k = escrowTotal (s, e) k" for k
    using w(2) by (simp_all add: emoves_def)
  have "eAsset e' = eAsset e" "locked e' = locked e" using f by (simp_all add: escrow_fixed_def locked_def)
  moreover have "acctTotal s' k + (if eAsset e = k then eBalance e' else 0) =
      acctTotal s k + (if eAsset e = k then eBalance e else 0)" for k
    using t [of k] calculation(1) by (cases "eAsset e = k") (simp_all add: escrowTotal_def)
  ultimately show ?thesis using w(1) f by (simp add: wf_escrow_def books_def)
qed

theorem escrow_step_keeps_books_witness:
  "\<exists>s' e'. escrowStep demo_state (from_tx demo_a) (step_op ''release'') sale = Inr (s', e') \<and> wf_escrow e'"
proof -
  have "\<not> isl (escrowStep demo_state (from_tx demo_a) (step_op ''release'') sale)" by code_simp
  then obtain s' e' where "escrowStep demo_state (from_tx demo_a) (step_op ''release'') sale = Inr (s', e')"
    by (metis sum.collapse(2) surj_pair)
  with escrow_step_keeps_books [OF sale_wf(1,2) this] show ?thesis by blast
qed

text \<open>
  C14: who can move escrowed money. A step that pays the seller was sent by the buyer with no dispute
  open, by the seller after dispatch and the review period, or by the arbiter of a dispute; one that
  pays the buyer, by the seller, by the buyer when nothing was dispatched by the deadline, or by the
  arbiter of a dispute; one that takes an arbiter fee, by the arbiter of a dispute. No other
  account's balance and no other asset is touched.
\<close>

theorem escrow_money_needs_right:
  assumes "eBuyer e \<noteq> eSeller e" and "escrowStep s tx op e = Inr (s', e')"
  shows "(ePaidSeller e' \<noteq> ePaidSeller e \<longrightarrow>
      (txFrom tx = eBuyer e \<and> eStatus e \<noteq> EscrowDisputed) \<or>
      (txFrom tx = eSeller e \<and> eStatus e = EscrowDispatched \<and> stNow s \<ge> wrap64 (eDispatchedAt e + eReviewSecs e * 1000)) \<or>
      (txFrom tx = eArbiter e \<and> eStatus e = EscrowDisputed)) \<and>
    (ePaidBuyer e' \<noteq> ePaidBuyer e \<longrightarrow>
      txFrom tx = eSeller e \<or>
      (txFrom tx = eBuyer e \<and> eStatus e = EscrowFunded \<and> stNow s > eShipBy e) \<or>
      (txFrom tx = eArbiter e \<and> eStatus e = EscrowDisputed)) \<and>
    (eArbiterFee e' \<noteq> eArbiterFee e \<longrightarrow> txFrom tx = eArbiter e \<and> eStatus e = EscrowDisputed) \<and>
    (\<forall>a k. Balance s' a k \<noteq> Balance s a k \<longrightarrow> k = eAsset e \<and> a \<in> {eBuyer e, eSeller e, eArbiter e})"
proof -
  have "escrowStep s tx op e = Inr (s', e')" by (rule assms(2))
  then show ?thesis
    using assms(1) unfolding escrowStep_def escrowDispatch_def escrowRelease_def escrowDispute_def escrowResolve_def
      escrowRefund_def escrowClaim_def
    by (auto simp: Let_def split_beta pay_effect money_simps split: if_splits)
qed

theorem escrow_money_needs_right_witness:
  "\<exists>s' e'. escrowStep demo_state (from_tx demo_a) (step_op ''release'') sale = Inr (s', e') \<and> ePaidSeller e' = 3000 \<and>
     ePaidBuyer e' = ePaidBuyer sale"
proof -
  have "\<not> isl (escrowStep demo_state (from_tx demo_a) (step_op ''release'') sale)"
    "ePaidSeller (snd (projr (escrowStep demo_state (from_tx demo_a) (step_op ''release'') sale))) = 3000"
    "stNow demo_state \<le> eShipBy sale" by code_simp+
  then obtain s' e' where r: "escrowStep demo_state (from_tx demo_a) (step_op ''release'') sale = Inr (s', e')" "ePaidSeller e' = 3000"
    by (metis sum.collapse(2) prod.collapse)
  have "eBuyer sale \<noteq> eSeller sale" by (simp add: demo_neq)
  from escrow_money_needs_right [OF this r(1)] have "ePaidBuyer e' \<noteq> ePaidBuyer sale \<longrightarrow> \<not> stNow demo_state \<le> eShipBy sale"
    using demo_neq by (simp add: from_tx_def not_le)
  then show ?thesis using r \<open>stNow demo_state \<le> eShipBy sale\<close> by blast
qed

text \<open>
  C15: the arbiter's decision, exactly. Resolving a dispute between three different people pays the
  arbiter the fee agreed at creation, \<open>bps\<close> ten-thousandths of what was held, rounded down and never
  more than a twentieth; the seller what the arbiter says, which must fit in the rest; the buyer all
  that is left; and nothing stays in the escrow.
\<close>

theorem resolve_splits_exactly:
  assumes "wf_escrow e" and "Open e" and "escrowResolve s tx op e = Inr (s', e')"
    and "eBuyer e \<noteq> eSeller e" "eArbiter e \<noteq> eBuyer e" "eArbiter e \<noteq> eSeller e"
  shows "\<exists>fee rest. unat fee = unat (eBalance e) * unat (eArbiterBps e) div 10000 \<and> 20 * unat fee \<le> unat (eBalance e) \<and>
    unat (eBalance e) = unat fee + unat (eoToSeller op) + unat rest \<and>
    Balance s' (eArbiter e) (eAsset e) = Balance s (eArbiter e) (eAsset e) + fee \<and>
    Balance s' (eSeller e) (eAsset e) = Balance s (eSeller e) (eAsset e) + eoToSeller op \<and>
    Balance s' (eBuyer e) (eAsset e) = Balance s (eBuyer e) (eAsset e) + rest \<and>
    eBalance e' = 0 \<and> eStatus e' = EscrowResolved"
proof -
  let ?fee = "arbiterFee e" and ?to = "eoToSeller op"
  let ?rest = "eBalance e - ?fee - ?to"
  have bps: "unat (eArbiterBps e) \<le> 500" using assms(1) by (simp add: wf_escrow_def)
  then have fee: "unat ?fee = unat (eBalance e) * unat (eArbiterBps e) div 10000" by (simp add: arbiterFee_def unat_bpsOf)
  have "unat (eBalance e) * unat (eArbiterBps e) div 10000 \<le> unat (eBalance e) * 500 div 10000"
    using bps by (intro div_le_mono mult_le_mono) simp_all
  then have cap: "20 * unat ?fee \<le> unat (eBalance e)" using fee by simp
  have le: "?fee \<le> eBalance e" using cap by (simp add: word_le_nat_alt)
  have to: "?to \<le> eBalance e - ?fee" using assms(3) by (auto simp: escrowResolve_def Let_def split: if_splits)
  have sum: "unat (eBalance e) = unat ?fee + unat ?to + unat ?rest"
    using le to by (simp add: unat_sub64 word_le_nat_alt)
  have "eStatus e' = EscrowResolved" "eBalance e' = eBalance e - ?fee - ?to - ?rest"
    "Balance s' (eArbiter e) (eAsset e) = Balance s (eArbiter e) (eAsset e) + ?fee"
    "Balance s' (eSeller e) (eAsset e) = Balance s (eSeller e) (eAsset e) + ?to"
    "Balance s' (eBuyer e) (eAsset e) = Balance s (eBuyer e) (eAsset e) + ?rest"
    using assms(3-6) by (auto simp: escrowResolve_def Let_def split_beta pay_effect money_simps word_gt_0 split: if_splits)
  then show ?thesis using fee cap sum by (intro exI [of _ ?fee] exI [of _ ?rest]) simp
qed

theorem resolve_splits_exactly_witness:
  "\<exists>s' e'. escrowResolve demo_state (from_tx demo_c) (sale_op\<lparr>eoToSeller := 5000\<rparr>) disputed_sale = Inr (s', e') \<and>
     Balance s' demo_b '''' = Balance demo_state demo_b '''' + 5000"
proof -
  let ?op = "sale_op\<lparr>eoToSeller := 5000\<rparr>"
  have "\<not> isl (escrowResolve demo_state (from_tx demo_c) ?op disputed_sale)" by code_simp
  then obtain s' e' where r: "escrowResolve demo_state (from_tx demo_c) ?op disputed_sale = Inr (s', e')"
    by (metis sum.collapse(2) surj_pair)
  from resolve_splits_exactly [OF sale_wf(3,4) r] r demo_neq show ?thesis by auto
qed

text \<open>
  A closed escrow is final and empty. Once completed, refunded or resolved it holds nothing, and
  every further step on it is an error that changes nothing.
\<close>

theorem closed_escrow_is_final:
  assumes "wf_escrows s" and "fmlookup (stEscrows s) (eoID op) = Some e"
    and "eStatus e \<in> {EscrowCompleted, EscrowRefunded, EscrowResolved}" and "eoOp op \<noteq> OpEscrowCreate"
  shows "eBalance e = 0 \<and> (\<exists>err. escrowOp sha s tx op = Inl err)"
proof -
  have no: "\<not> Open e" using assms(3) by (auto simp: Open_def)
  have "wf_escrow e" using assms(1,2) by (auto simp: wf_escrows_def)
  then have "eBalance e = 0" using no by (simp add: wf_escrow_def)
  then show ?thesis using assms(2,4) no by (simp add: escrowOp_def)
qed

definition closed_sale :: Escrow where
  "closed_sale = sale\<lparr>eStatus := EscrowRefunded, eBalance := 0, ePaidBuyer := 10000\<rparr>"

theorem closed_escrow_is_final_witness:
  "\<exists>err. escrowOp demo_sha (demo_state\<lparr>stEscrows := fmupd zeroHash closed_sale fmempty\<rparr>) (from_tx demo_b) (step_op ''refund'') = Inl err"
proof -
  let ?s = "demo_state\<lparr>stEscrows := fmupd zeroHash closed_sale fmempty\<rparr>"
  have "wf_escrow closed_sale"
    by (simp add: closed_sale_def sale_def newEscrow_def sale_op_def demo_escrow_op_def wf_escrow_def locked_def books_def Open_def)
  then have w: "wf_escrows ?s" by (simp add: wf_escrows_def)
  have l: "fmlookup (stEscrows ?s) (eoID (step_op ''refund'')) = Some closed_sale"
    by (simp add: step_op_def sale_op_def demo_escrow_op_def)
  have c: "eStatus closed_sale \<in> {EscrowCompleted, EscrowRefunded, EscrowResolved}" by (simp add: closed_sale_def)
  have o: "eoOp (step_op ''refund'') \<noteq> OpEscrowCreate" by (simp add: step_op_def)
  from closed_escrow_is_final [OF w l c o] show ?thesis by blast
qed

text \<open>
  No escrow is stuck. While an escrow is open, whatever its state, its seller can refund it:
  the step succeeds, gives the buyer all that is held and closes the escrow.
\<close>

theorem seller_can_always_refund:
  assumes "Open e" and "txFrom tx = eSeller e" and "eoOp op = OpEscrowRefund"
  shows "\<exists>s' e'. escrowStep s tx op e = Inr (s', e') \<and> eStatus e' = EscrowRefunded \<and> eBalance e' = 0 \<and>
    Balance s' (eBuyer e) (eAsset e) = Balance s (eBuyer e) (eAsset e) + eBalance e"
  using assms by (simp add: escrowStep_def escrowRefund_def Let_def split_beta pay_effect)

theorem seller_can_always_refund_witness:
  "\<exists>s' e'. escrowStep demo_state (from_tx demo_b) (step_op ''refund'') disputed_sale = Inr (s', e') \<and> eStatus e' = EscrowRefunded"
proof -
  have "txFrom (from_tx demo_b) = eSeller disputed_sale" "eoOp (step_op ''refund'') = OpEscrowRefund"
    by (simp_all add: from_tx_def step_op_def)
  from seller_can_always_refund [OF sale_wf(4) this] show ?thesis by blast
qed

subsection \<open>Properties of social recovery\<close>

definition demo_guard :: Guardianship where
  "demo_guard = \<lparr>gGuardians = [demo_b, demo_c], gThreshold = 2, gDelaySecs = 3600,
     gPending = Some \<lparr>rNewOwner = replicate 64 (CHR ''d''), rApprovals = [demo_b, demo_c], rStartedAt = 1, rReadyAt = 3600001\<rparr>\<rparr>"

definition guarded_state :: State where
  "guarded_state = demo_state\<lparr>stGuards := fmupd demo_a demo_guard fmempty, stNow := 3600001\<rparr>"

lemma guarded_state_wf: "wf_state guarded_state"
proof -
  have w: "wf_state demo_state" by (rule demo_state_wf)
  have t: "total guarded_state k = total demo_state k" "supplyOf guarded_state k = supplyOf demo_state k" for k
    by (simp_all add: guarded_state_def total_def acctTotal_def poolsTotal_def escrowsTotal_def supplyOf_def)
  have ne: "replicate 64 (CHR ''d'') \<noteq> demo_a" by code_simp
  have "wf_guard demo_a demo_guard" using ne demo_neq by (simp add: wf_guard_def demo_guard_def)
  moreover have "clock_ok guarded_state" by (simp add: clock_ok_def guarded_state_def sane_time_def demo_guard_def)
  ultimately show ?thesis
    using w t by (simp add: wf_state_def conserved_def wf_accounts_def wf_pools_def wf_escrows_def wf_guards_def Get_def)
      (simp add: guarded_state_def)
qed

lemma fold_credit_new:
  "distinct xs \<Longrightarrow> Balance (fold (\<lambda>sym s. credit s new sym (v sym)) xs t) new k =
   Balance t new k + (if k \<in> set xs then v k else 0)"
  by (induction xs arbitrary: t) (auto simp: money_simps)

lemma creditAll_new:
  assumes "fmlookup (acAssets src) '''' = None"
  shows "Balance (creditAll src new s) new k = Balance s new k + accBalance src k"
proof -
  let ?xs = "sorted_list_of_fset (fmdom (acAssets src))"
  have "(if k \<in> set ?xs then getd 0 (acAssets src) k else 0) = getd 0 (acAssets src) k"
    by (auto simp: getd_def fmdom_notI fmlookup_dom_iff split: option.split)
  then show ?thesis
    using assms unfolding creditAll_def
    by (subst fold_credit_new) (auto simp: accBalance_def money_simps getd_def word_gt_0 sorted_list_of_fset.rep_eq)
qed

text \<open>
  Everything moves. Moving an account to another key leaves the old key with no balance of any
  asset and the same nonce, adds everything it had to the new key, changes no other balance, passes
  its guardians (with no pending recovery) to the new key, and leaves no seat in a circle the new
  key was not already in, and no escrow role, to the old key.
\<close>

theorem recovery_moves_everything:
  assumes "wf_state s" and "new \<noteq> old"
  shows "Balance (moveAccount s old new g) old k = 0 \<and>
    Balance (moveAccount s old new g) new k = Balance s new k + Balance s old k \<and>
    (a \<noteq> old \<and> a \<noteq> new \<longrightarrow> Balance (moveAccount s old new g) a k = Balance s a k) \<and>
    acNonce (Get (moveAccount s old new g) old) = acNonce (Get s old) \<and>
    fmlookup (stGuards (moveAccount s old new g)) new = Some (g\<lparr>gPending := None\<rparr>) \<and>
    fmlookup (stGuards (moveAccount s old new g)) old = None \<and>
    (\<forall>i p. fmlookup (stPools (moveAccount s old new g)) i = Some p \<longrightarrow> old \<in> set (pMembers p) \<longrightarrow> new \<in> set (pMembers p)) \<and>
    (\<forall>i e. fmlookup (stEscrows (moveAccount s old new g)) i = Some e \<longrightarrow> old \<notin> {eBuyer e, eSeller e, eArbiter e})"
proof -
  let ?s1 = "creditAll (Get s old) new s"
  have lk: "fmlookup (acAssets (Get s old)) '''' = None" using assms(1) by (simp add: wf_state_def wf_accounts_def)
  have z: "accBalance (zeroAccount\<lparr>acNonce := n\<rparr>) k = 0" for n by (simp add: accBalance_def zeroAccount_def)
  have bal: "Balance (moveAccount s old new g) b k = (if b = old then 0 else Balance ?s1 b k)" for b
    using z by (simp add: Balance_def moveAccount_def Let_def Get_def)
  have b1: "a \<noteq> new \<Longrightarrow> Balance ?s1 a k = Balance s a k" using creditAll_other [of a new] by (simp add: Balance_def)
  have b2: "Balance ?s1 new k = Balance s new k + Balance s old k"
    using creditAll_new [OF lk] by (simp add: Balance_def [of s old])
  have n: "acNonce (Get (moveAccount s old new g) old) = acNonce (Get s old)"
    by (simp add: moveAccount_def Let_def Get_def)
  have gu: "stGuards (moveAccount s old new g) = fmdrop old (fmupd new (g\<lparr>gPending := None\<rparr>) (stGuards ?s1))"
    by (simp add: moveAccount_def Let_def)
  have po: "old \<in> set (pMembers p) \<longrightarrow> new \<in> set (pMembers p)" if "fmlookup (stPools (moveAccount s old new g)) i = Some p" for i p
  proof -
    have "map_option (renamePool old new) (fmlookup (stPools ?s1) i) = Some p" using that by (simp add: moveAccount_def Let_def)
    then obtain q where "p = renamePool old new q" unfolding map_option_eq_Some by blast
    then show ?thesis using assms(2) by (auto simp: renamePool_def)
  qed
  have es: "old \<notin> {eBuyer e, eSeller e, eArbiter e}" if "fmlookup (stEscrows (moveAccount s old new g)) i = Some e" for i e
  proof -
    have "map_option (renameEscrow old new) (fmlookup (stEscrows ?s1) i) = Some e" using that by (simp add: moveAccount_def Let_def)
    then obtain q where "e = renameEscrow old new q" unfolding map_option_eq_Some by blast
    then show ?thesis using assms(2) by (simp add: renameEscrow_def)
  qed
  have "Balance (moveAccount s old new g) old k = 0"
    "Balance (moveAccount s old new g) new k = Balance s new k + Balance s old k"
    "a \<noteq> old \<and> a \<noteq> new \<longrightarrow> Balance (moveAccount s old new g) a k = Balance s a k"
    "fmlookup (stGuards (moveAccount s old new g)) new = Some (g\<lparr>gPending := None\<rparr>)"
    "fmlookup (stGuards (moveAccount s old new g)) old = None"
    unfolding bal gu using assms(2) b1 b2 by simp_all
  then show ?thesis using n po es by blast
qed

theorem recovery_moves_everything_witness:
  "Balance (moveAccount guarded_state demo_a demo_b demo_guard) demo_b '''' = Balance guarded_state demo_b '''' + Balance guarded_state demo_a ''''"
  using recovery_moves_everything [OF guarded_state_wf, of demo_b demo_a] demo_neq by metis

end
