(* ===== verification/Recovery_Properties.thy ===== *)
theory Recovery_Properties
  imports Custody_Properties
begin

text \<open>
  Social recovery over the history of the ledger: which accepted transactions a recovery that is
  finished rests on, and when they were accepted. \<open>accepted sha s0 h s\<close> says that the ledger \<open>s\<close>
  came from \<open>s0\<close> by moving the block time forward and applying exactly the transactions of \<open>h\<close>,
  each with the block time it was applied at.
\<close>

subsection \<open>Histories\<close>

inductive accepted :: "(bytes \<Rightarrow> hash) \<Rightarrow> State \<Rightarrow> (int \<times> Tx) list \<Rightarrow> State \<Rightarrow> bool" for sha s0 where
  start: "accepted sha s0 [] s0"
| tick: "accepted sha s0 h s \<Longrightarrow> stNow s \<le> t \<Longrightarrow> sane_time t \<Longrightarrow> accepted sha s0 h (s\<lparr>stNow := t\<rparr>)"
| tx: "accepted sha s0 h s \<Longrightarrow> checkBody tx = None \<Longrightarrow> Apply sha s tx = Inr s' \<Longrightarrow> accepted sha s0 (h @ [(stNow s, tx)]) s'"

lemma accepted_reachable: "accepted sha s0 h s \<Longrightarrow> reachable sha s0 s"
  unfolding reachable_def
  by (induction rule: accepted.induct) (auto intro: ledger_step.intros rtranclp.rtrancl_into_rtrancl)

text \<open>The recovery operation of a transaction on the account \<open>a\<close>.\<close>

definition opOn :: "addr \<Rightarrow> string list \<Rightarrow> Tx \<Rightarrow> bool" where
  "opOn a ops tx \<longleftrightarrow> (case txGuard tx of None \<Rightarrow> False | Some op \<Rightarrow> goAccount op = a \<and> goOp op \<in> set ops)"

text \<open>A vote: a start or an approval; the key it is for.\<close>

definition votesOn :: "addr \<Rightarrow> (int \<times> Tx) list \<Rightarrow> (int \<times> Tx) list" where
  "votesOn a h = filter (\<lambda>(t, tx). opOn a [OpGuardStart, OpGuardApprove] tx) h"

definition votedKey :: "Tx \<Rightarrow> addr" where
  "votedKey tx = (case txGuard tx of None \<Rightarrow> '''' | Some op \<Rightarrow> goNewOwner op)"

definition voters :: "(int \<times> Tx) list \<Rightarrow> addr list" where
  "voters vs = map (txFrom \<circ> snd) vs"

lemma votesOn_append: "votesOn a (h @ [(t, tx)]) =
    (if opOn a [OpGuardStart, OpGuardApprove] tx then votesOn a h @ [(t, tx)] else votesOn a h)"
  by (simp add: votesOn_def)

lemma voters_append: "voters (vs @ [(t, tx)]) = voters vs @ [txFrom tx]"
  by (simp add: voters_def)

text \<open>
  A pending recovery and the history: since the start that opened it there was no cancel and no
  finish, every vote was for its key, the voters are the approvals in order, and the ready time is
  a delay after the vote that completed the threshold.
\<close>

definition backed :: "(int \<times> Tx) list \<Rightarrow> addr \<Rightarrow> Guardianship \<Rightarrow> Recovery \<Rightarrow> bool" where
  "backed h a g r \<longleftrightarrow>
     (\<exists>past recent. h = past @ recent \<and> recent \<noteq> [] \<and> opOn a [OpGuardStart] (snd (hd recent)) \<and>
        (\<forall>tx\<in>snd ` set recent. \<not> opOn a [OpGuardCancel, OpGuardFinish] tx) \<and>
        (\<forall>tx\<in>snd ` set (votesOn a recent). votedKey tx = rNewOwner r) \<and>
        voters (votesOn a recent) = rApprovals r \<and>
        (gThreshold g \<le> int (length (rApprovals r)) \<longrightarrow>
           rReadyAt r = fst (votesOn a recent ! (nat (gThreshold g) - 1)) + gDelaySecs g * 1000))"

definition recorded :: "(int \<times> Tx) list \<Rightarrow> State \<Rightarrow> bool" where
  "recorded h s \<longleftrightarrow>
     (\<forall>t\<in>fst ` set h. 0 < t) \<and>
     (\<forall>a g r. fmlookup (stGuards s) a = Some g \<longrightarrow> gPending g = Some r \<longrightarrow> backed h a g r)"

subsection \<open>What a transaction does to the recovery setups\<close>

lemma charge_guards [simp]: "stGuards (charge s tx c) = stGuards s" "stRecoveredTo (charge s tx c) = stRecoveredTo s"
  by (simp_all add: charge_def payFee_def)

lemma effect_guards:
  assumes wf: "wf_parts s" and chk: "checkBody tx = None" and ng: "txGuard tx = None" and ok: "effect sha s tx = Inr s1"
  shows "stGuards s1 = stGuards s \<and> stRecoveredTo s1 = stRecoveredTo s"
proof (cases "txEscrow tx")
  case (Some x)
  then have "escrowOp sha s tx x = Inr s1" using ok ng by (simp add: effect_def)
  then consider "s1 = putEscrow (ID sha tx) (s, newEscrow s tx x (ID sha tx))"
    | e s2 e2 where "fmlookup (stEscrows s) (eoID x) = Some e" "Open e" "escrowStep s tx x e = Inr (s2, e2)"
        "s1 = putEscrow (eoID x) (s2, e2)"
    by (auto simp: escrowOp_def map_sum_Inr Let_def split: if_splits option.splits)
  then show ?thesis
  proof cases
    case 1
    then show ?thesis by (simp add: putEscrow_def)
  next
    case (2 e s2 e2)
    have "wf_escrow e" using wf 2(1) by (simp add: wf_parts_def wf_escrows_def)
    from escrowStep_ok(2) [OF this 2(2,3)] show ?thesis by (simp add: 2(4) putEscrow_def emoves_def accounts_only_def)
  qed
next
  case ne: None
  show ?thesis
  proof (cases "txPool tx")
    case (Some op)
    then have "poolOp sha s tx op = Inr s1" using ok ng ne by (simp add: effect_def)
    then consider q pid where "s1 = putPool pid (s, q)"
      | p i s2 p2 where "fmlookup (stPools s) (poID op) = Some p" "index p (txFrom tx) = Some i"
          "memberOp sha s tx op p i = Inr (s2, p2)" "s1 = putPool (poID op) (s2, p2)"
      by (auto simp: poolOp_def map_sum_Inr Let_def split: if_splits option.splits)
    then show ?thesis
    proof cases
      case 1
      then show ?thesis by (simp add: putPool_def)
    next
      case (2 p i s2 p2)
      have "wf_pool p" using wf 2(1) by (simp add: wf_parts_def wf_pools_def)
      from memberOp_ok(2) [OF this _ 2(3)] index_Some [OF 2(2)] show ?thesis
        by (simp add: 2(4) putPool_def moves_def accounts_only_def)
    qed
  next
    case None
    then show ?thesis using ok ng ne
      by (auto simp: effect_def mint_def burn_def transfer_def addAssetSupply_def Let_def split: if_splits)
  qed
qed

lemma backed_later:
  assumes "backed h a g r" and "\<not> opOn a [OpGuardStart, OpGuardApprove, OpGuardCancel, OpGuardFinish] tx"
  shows "backed (h @ [(t, tx)]) a g r"
proof -
  have no: "\<not> opOn a [OpGuardStart, OpGuardApprove] tx" "\<not> opOn a [OpGuardCancel, OpGuardFinish] tx"
    using assms(2) by (auto simp: opOn_def split: option.splits)
  obtain past recent where p: "h = past @ recent" "recent \<noteq> []" "opOn a [OpGuardStart] (snd (hd recent))"
    "\<forall>tx\<in>snd ` set recent. \<not> opOn a [OpGuardCancel, OpGuardFinish] tx"
    "\<forall>tx\<in>snd ` set (votesOn a recent). votedKey tx = rNewOwner r" "voters (votesOn a recent) = rApprovals r"
    "gThreshold g \<le> int (length (rApprovals r)) \<longrightarrow>
       rReadyAt r = fst (votesOn a recent ! (nat (gThreshold g) - 1)) + gDelaySecs g * 1000"
    using assms(1) unfolding backed_def by blast
  show ?thesis unfolding backed_def
    by (rule exI [of _ past], rule exI [of _ "recent @ [(t, tx)]"]) (use p no in \<open>simp add: votesOn_append\<close>)
qed

lemma backed_start:
  assumes w: "wf_guard a g" and t: "sane_time (stNow s)" and ok: "startRecovery s tx op g = Inr g'"
    and tx: "txGuard tx = Some op" "goOp op = OpGuardStart" "goAccount op = a" and r: "gPending g' = Some r"
  shows "backed (h @ [(stNow s, tx)]) a g' r"
proof -
  have g': "g' = g\<lparr>gPending := Some r\<rparr>" and r': "r = \<lparr>rNewOwner = goNewOwner op, rApprovals = [txFrom tx], rStartedAt = stNow s,
      rReadyAt = (if gThreshold g \<le> 1 then readyTime s g else 0)\<rparr>"
    using ok r by (auto simp: startRecovery_def split: if_splits)
  have o: "opOn a [OpGuardStart] tx" "\<not> opOn a [OpGuardCancel, OpGuardFinish] tx" "opOn a [OpGuardStart, OpGuardApprove] tx"
    "votedKey tx = goNewOwner op" using tx by (simp_all add: opOn_def votedKey_def)
  have "readyTime s g = stNow s + gDelaySecs g * 1000" "1 \<le> gThreshold g"
    using readyTime_eq [OF t] w by (simp_all add: wf_guard_def)
  then show ?thesis unfolding backed_def
    by (intro exI [of _ h] exI [of _ "[(stNow s, tx)]"]) (use o in \<open>auto simp: g' r' votesOn_def voters_def\<close>)
qed

lemma backed_approve:
  assumes b: "backed h a g r0" and p0: "gPending g = Some r0" and pos: "\<forall>t\<in>fst ` set h. 0 < t"
    and w: "wf_guard a g" and t: "sane_time (stNow s)" and ok: "approveRecovery s tx op g = Inr g'"
    and tx: "txGuard tx = Some op" "goOp op = OpGuardApprove" "goAccount op = a" and r: "gPending g' = Some r"
  shows "backed (h @ [(stNow s, tx)]) a g' r"
proof -
  let ?as = "rApprovals r0 @ [txFrom tx]" and ?th = "gThreshold g"
  have key: "rNewOwner r0 = goNewOwner op" and g': "g' = g\<lparr>gPending := Some r\<rparr>"
    and r': "r = r0\<lparr>rApprovals := ?as, rReadyAt := (if int (length ?as) \<ge> ?th \<and> rReadyAt r0 = 0 then readyTime s g else rReadyAt r0)\<rparr>"
    using ok p0 r by (auto simp: approveRecovery_def Let_def split: if_splits)
  obtain past recent where p: "h = past @ recent" "recent \<noteq> []" "opOn a [OpGuardStart] (snd (hd recent))"
    "\<forall>tx\<in>snd ` set recent. \<not> opOn a [OpGuardCancel, OpGuardFinish] tx"
    "\<forall>tx\<in>snd ` set (votesOn a recent). votedKey tx = rNewOwner r0" "voters (votesOn a recent) = rApprovals r0"
    "?th \<le> int (length (rApprovals r0)) \<longrightarrow>
       rReadyAt r0 = fst (votesOn a recent ! (nat ?th - 1)) + gDelaySecs g * 1000"
    using b unfolding backed_def by blast
  have o: "\<not> opOn a [OpGuardCancel, OpGuardFinish] tx" "opOn a [OpGuardStart, OpGuardApprove] tx" "votedKey tx = goNewOwner op"
    using tx by (simp_all add: opOn_def votedKey_def)
  have len: "length (votesOn a recent) = length (rApprovals r0)" using arg_cong [OF p(6), of length] by (simp add: voters_def)
  have th: "1 \<le> ?th" "0 \<le> gDelaySecs g" "gDelaySecs g \<le> 2592000" using w by (simp_all add: wf_guard_def)
  have "rReadyAt r = fst ((votesOn a recent @ [(stNow s, tx)]) ! (nat ?th - 1)) + gDelaySecs g * 1000"
    if le: "?th \<le> int (length ?as)"
  proof (cases "?th \<le> int (length (rApprovals r0))")
    case True
    have i: "nat ?th - 1 < length (votesOn a recent)" using True th(1) len by linarith
    then have "votesOn a recent ! (nat ?th - 1) \<in> set h"
      using nth_mem [OF i] p(1) by (auto simp: votesOn_def)
    then have "0 < fst (votesOn a recent ! (nat ?th - 1))" using pos by blast
    then have "rReadyAt r0 \<noteq> 0" using p(7) True th(2) by simp
    then show ?thesis using p(7) True i by (simp add: r' nth_append)
  next
    case False
    then have "nat ?th - 1 = length (votesOn a recent)" using le len th(1) by simp
    moreover have "rReadyAt r0 = 0" using w p0 False by (simp add: wf_guard_def)
    ultimately show ?thesis using le readyTime_eq [OF t th(2,3)] by (simp add: r')
  qed
  then show ?thesis unfolding backed_def
    by (intro exI [of _ past] exI [of _ "recent @ [(stNow s, tx)]"])
      (use p o key in \<open>auto simp: g' r' votesOn_append voters_append\<close>)
qed

lemma recovered_by_finish:
  assumes wf: "wf_state s" and chk: "checkBody tx = None" and ap: "Apply sha s tx = Inr s'"
    and ch: "fmlookup (stRecoveredTo s') a \<noteq> fmlookup (stRecoveredTo s) a"
  shows "opOn a [OpGuardFinish] tx"
proof -
  obtain s1 where e: "effect sha s tx = Inr s1" and s': "s' = charge s1 tx (Cost s tx)" using Apply_Inr [OF ap] by blast
  have wp: "wf_parts s" using wf by (simp add: wf_state_parts)
  obtain op where op: "txGuard tx = Some op" using effect_guards [OF wp chk _ e] ch by (cases "txGuard tx") (auto simp: s')
  then have "guardOp s tx op = Inr s1" using e by (simp add: effect_def)
  then consider g' b where "s1 = putGuard b g' s"
    | g new where "goOp op = OpGuardFinish" "s1 = moveAccount s (goAccount op) new g"
    by (auto simp: guardOp_def guardSet_def Let_def map_sum_Inr split: if_splits option.splits)
  then show ?thesis
  proof cases
    case 1
    then show ?thesis using ch by (simp add: s' putGuard_def)
  next
    case (2 g new)
    have "stRecoveredTo (creditAll (Get s (goAccount op)) new s) = stRecoveredTo s"
      using creditAll_only [of s "Get s (goAccount op)" new] by (simp add: accounts_only_def)
    then have "goAccount op = a" using ch by (auto simp: s' 2(2) moveAccount_def Let_def split: if_splits)
    then show ?thesis using op 2(1) by (simp add: opOn_def)
  qed
qed

text \<open>Every transaction keeps the record.\<close>

lemma recorded_tx:
  assumes wf: "wf_state s" and rec: "recorded h s" and chk: "checkBody tx = None" and ap: "Apply sha s tx = Inr s'"
  shows "recorded (h @ [(stNow s, tx)]) s'"
proof -
  obtain s1 where e: "effect sha s tx = Inr s1" and s': "s' = charge s1 tx (Cost s tx)" using Apply_Inr [OF ap] by blast
  have wp: "wf_parts s" using wf by (simp add: wf_state_parts)
  have t: "sane_time (stNow s)" using wf by (simp add: wf_state_def clock_ok_def)
  have pos: "\<forall>t\<in>fst ` set (h @ [(stNow s, tx)]). 0 < t" using rec t by (auto simp: recorded_def sane_time_def)
  have old: "backed h a g r" if "fmlookup (stGuards s) a = Some g" "gPending g = Some r" for a g r
    using rec that by (simp add: recorded_def)
  have wg: "wf_guard a g" if "fmlookup (stGuards s) a = Some g" for a g
    using wf that by (simp add: wf_state_def wf_guards_def)
  have "backed (h @ [(stNow s, tx)]) a g r" if l: "fmlookup (stGuards s1) a = Some g" and r: "gPending g = Some r" for a g r
  proof (cases "txGuard tx")
    case None
    have "stGuards s1 = stGuards s" using effect_guards [OF wp chk None e] by blast
    then show ?thesis using old [of a g r] l r None by (intro backed_later) (simp_all add: opOn_def)
  next
    case (Some op)
    then have go: "guardOp s tx op = Inr s1" using e by (simp add: effect_def)
    have later: ?thesis if "fmlookup (stGuards s) a = Some g" "goAccount op \<noteq> a \<or> goOp op = OpGuardSet"
      using old [OF that(1) r] that(2) Some by (intro backed_later) (auto simp: opOn_def)
    show ?thesis
    proof (cases "goOp op = OpGuardSet")
      case True
      then have "fmlookup (stGuards s) a = Some g"
        using go l r by (auto simp: guardOp_def guardSet_def putGuard_def split: if_splits)
      then show ?thesis using later True by blast
    next
      case ns: False
      obtain g0 where g0: "fmlookup (stGuards s) (goAccount op) = Some g0"
        using go ns by (auto simp: guardOp_def split: option.splits)
      consider
          (start) g' where "goOp op = OpGuardStart" "startRecovery s tx op g0 = Inr g'" "s1 = putGuard (goAccount op) g' s"
        | (approve) g' where "goOp op = OpGuardApprove" "approveRecovery s tx op g0 = Inr g'" "s1 = putGuard (goAccount op) g' s"
        | (cancel) g' where "cancelRecovery tx op g0 = Inr g'" "s1 = putGuard (goAccount op) g' s"
        | (finish) q where "finishRecovery s g0 = Inr q" "s1 = moveAccount s (goAccount op) (rNewOwner q) g0"
        using go ns g0 by (auto simp: guardOp_def Let_def map_sum_Inr split: if_splits)
      then show ?thesis
      proof cases
        case start
        show ?thesis
        proof (cases "a = goAccount op")
          case True
          then have "g' = g" using l start(3) by (simp add: putGuard_def)
          then show ?thesis using backed_start [OF wg [OF g0] t _ Some start(1) _ r] start(2) True by simp
        next
          case False
          then show ?thesis using l start(3) later by (simp add: putGuard_def)
        qed
      next
        case approve
        show ?thesis
        proof (cases "a = goAccount op")
          case True
          then have g: "g' = g" using l approve(3) by (simp add: putGuard_def)
          obtain r0 where r0: "gPending g0 = Some r0"
            using approve(2) by (auto simp: approveRecovery_def split: if_splits option.splits)
          have "\<forall>t\<in>fst ` set h. 0 < t" using rec by (simp add: recorded_def)
          from backed_approve [OF old [OF g0 r0] r0 this wg [OF g0] t _ Some approve(1) refl r] approve(2) g True
          show ?thesis by simp
        next
          case False
          then show ?thesis using l approve(3) later by (simp add: putGuard_def)
        qed
      next
        case cancel
        then have "a \<noteq> goAccount op" using l r cancelRecovery_wf(2) [OF wg [OF g0] cancel(1)] by (auto simp: putGuard_def)
        then show ?thesis using l cancel(2) later by (simp add: putGuard_def)
      next
        case finish
        have "stGuards (creditAll (Get s (goAccount op)) (rNewOwner q) s) = stGuards s"
          using creditAll_only [of s "Get s (goAccount op)" "rNewOwner q"] by (simp add: accounts_only_def)
        then have "a \<noteq> goAccount op" "fmlookup (stGuards s) a = Some g"
          using l r by (auto simp: finish(2) moveAccount_def Let_def split: if_splits)
        then show ?thesis using later by simp
      qed
    qed
  qed
  then show ?thesis using pos by (simp add: recorded_def s')
qed

lemma accepted_recorded:
  assumes "accepted sha s0 h s" and "wf_state s0" and "\<forall>a g. fmlookup (stGuards s0) a = Some g \<longrightarrow> gPending g = None"
  shows "recorded h s \<and> wf_state s"
  using assms
proof (induction rule: accepted.induct)
  case start
  then show ?case by (auto simp: recorded_def)
next
  case (tick h s t)
  then show ?case using tick_wf by (simp add: recorded_def)
next
  case (tx h s tx s')
  then show ?case using recorded_tx Apply_wf_state by blast
qed

subsection \<open>Properties\<close>

text \<open>
  C16: quorum and delay. Start from a well-formed ledger with no recovery in progress and let any
  transactions be accepted. If a transaction then moves the account \<open>a\<close> to a new key, it is a
  finish, and the accepted transactions since the start of this recovery tell why: in between \<open>a\<close>
  neither cancelled nor finished; every start or approval for \<open>a\<close> in that time named that very
  key; they came from different guardians of \<open>a\<close>, at least the threshold of them; and since the
  block time of the one that completed the threshold, the full safety delay (at least an hour) has
  passed. The account then moves to that key.
\<close>

theorem recovery_needs_quorum_and_delay:
  assumes "wf_state s0" and "\<forall>a g. fmlookup (stGuards s0) a = Some g \<longrightarrow> gPending g = None"
    and "accepted sha s0 h s" and "checkBody tx = None" and "Apply sha s tx = Inr s'"
    and "opOn a [OpGuardFinish] tx \<or> fmlookup (stRecoveredTo s') a \<noteq> fmlookup (stRecoveredTo s) a"
  shows "opOn a [OpGuardFinish] tx \<and>
    (\<exists>g new past recent. let votes = votesOn a recent in
       fmlookup (stGuards s) a = Some g \<and> h = past @ recent \<and> recent \<noteq> [] \<and> opOn a [OpGuardStart] (snd (hd recent)) \<and>
       (\<forall>x\<in>snd ` set recent. \<not> opOn a [OpGuardCancel, OpGuardFinish] x) \<and>
       (\<forall>x\<in>snd ` set votes. votedKey x = new) \<and>
       distinct (voters votes) \<and> set (voters votes) \<subseteq> set (gGuardians g) \<and>
       1 \<le> gThreshold g \<and> gThreshold g \<le> int (length votes) \<and>
       3600 \<le> gDelaySecs g \<and> fst (votes ! (nat (gThreshold g) - 1)) + gDelaySecs g * 1000 \<le> stNow s \<and>
       effect sha s tx = Inr (moveAccount s a new g) \<and> fmlookup (stRecoveredTo s') a = Some new)"
proof -
  have rec: "recorded h s" and wf: "wf_state s" using accepted_recorded [OF assms(3,1,2)] by simp_all
  have fin: "opOn a [OpGuardFinish] tx" using assms(6) recovered_by_finish [OF wf assms(4,5)] by blast
  obtain s1 where e: "effect sha s tx = Inr s1" and s': "s' = charge s1 tx (Cost s tx)" using Apply_Inr [OF assms(5)] by blast
  obtain op where op: "txGuard tx = Some op" "goAccount op = a" "goOp op = OpGuardFinish"
    using fin by (auto simp: opOn_def split: option.splits)
  obtain g r where g: "fmlookup (stGuards s) a = Some g" and r: "finishRecovery s g = Inr r"
    and s1: "s1 = moveAccount s a (rNewOwner r) g"
    using e op by (auto simp: effect_def guardOp_def Let_def map_sum_Inr split: option.splits)
  have w: "wf_guard a g" using wf g by (simp add: wf_state_def wf_guards_def)
  note f = finishRecovery_safe [OF w r]
  have d: "distinct (rApprovals r)" "1 \<le> gThreshold g" "3600 \<le> gDelaySecs g" using w f(1) by (simp_all add: wf_guard_def)
  have now: "rReadyAt r \<le> stNow s" "gThreshold g \<le> int (length (rApprovals r))"
    using r by (auto simp: finishRecovery_def split: option.splits if_splits)
  have "backed h a g r" using rec g f(1) by (simp add: recorded_def)
  then obtain past recent where p: "h = past @ recent" "recent \<noteq> []" "opOn a [OpGuardStart] (snd (hd recent))"
    "\<forall>x\<in>snd ` set recent. \<not> opOn a [OpGuardCancel, OpGuardFinish] x"
    "\<forall>x\<in>snd ` set (votesOn a recent). votedKey x = rNewOwner r" "voters (votesOn a recent) = rApprovals r"
    "rReadyAt r = fst (votesOn a recent ! (nat (gThreshold g) - 1)) + gDelaySecs g * 1000"
    unfolding backed_def using now(2) by blast
  have "length (votesOn a recent) = length (rApprovals r)" using arg_cong [OF p(6), of length] by (simp add: voters_def)
  moreover have "fmlookup (stRecoveredTo s') a = Some (rNewOwner r)" by (simp add: s' s1 moveAccount_def Let_def)
  ultimately have "let votes = votesOn a recent in
       fmlookup (stGuards s) a = Some g \<and> h = past @ recent \<and> recent \<noteq> [] \<and> opOn a [OpGuardStart] (snd (hd recent)) \<and>
       (\<forall>x\<in>snd ` set recent. \<not> opOn a [OpGuardCancel, OpGuardFinish] x) \<and>
       (\<forall>x\<in>snd ` set votes. votedKey x = rNewOwner r) \<and>
       distinct (voters votes) \<and> set (voters votes) \<subseteq> set (gGuardians g) \<and>
       1 \<le> gThreshold g \<and> gThreshold g \<le> int (length votes) \<and>
       3600 \<le> gDelaySecs g \<and> fst (votes ! (nat (gThreshold g) - 1)) + gDelaySecs g * 1000 \<le> stNow s \<and>
       effect sha s tx = Inr (moveAccount s a (rNewOwner r) g) \<and> fmlookup (stRecoveredTo s') a = Some (rNewOwner r)"
    using p g d f(2) now e s1 unfolding Let_def by simp
  then show ?thesis using fin by blast
qed

text \<open>A recovery from its start to its end, to evaluate on.\<close>

definition demo_new :: addr where "demo_new = replicate 64 (CHR ''d'')"

definition watched_state :: State where
  "watched_state = demo_state\<lparr>stGuards := fmupd demo_a (demo_guard\<lparr>gPending := None\<rparr>) fmempty\<rparr>"

definition recovery_tx :: "addr \<Rightarrow> string \<Rightarrow> addr \<Rightarrow> Tx" where
  "recovery_tx a what new = demo_tx\<lparr>txFrom := a, txTo := '''', txAmount := 0, txFee := 0, txGuard :=
     Some \<lparr>goOp = what, goGuardians = [], goThreshold = 0, goDelaySecs = 0, goAccount = demo_a, goNewOwner = new\<rparr>\<rparr>"

definition after_start :: State where
  "after_start = projr (Apply demo_sha watched_state (recovery_tx demo_b OpGuardStart demo_new))"

definition after_approve :: State where
  "after_approve = projr (Apply demo_sha after_start (recovery_tx demo_c OpGuardApprove demo_new))"

definition after_delay :: State where
  "after_delay = after_approve\<lparr>stNow := 3600001\<rparr>"

definition after_finish :: State where
  "after_finish = projr (Apply demo_sha after_delay (recovery_tx demo_b OpGuardFinish ''''\<lparr>txNonce := 1\<rparr>))"

lemma recovery_steps:
  "Apply demo_sha watched_state (recovery_tx demo_b OpGuardStart demo_new) = Inr after_start"
  "Apply demo_sha after_start (recovery_tx demo_c OpGuardApprove demo_new) = Inr after_approve"
  "Apply demo_sha after_delay (recovery_tx demo_b OpGuardFinish ''''\<lparr>txNonce := 1\<rparr>) = Inr after_finish"
proof -
  have "\<not> isl (Apply demo_sha watched_state (recovery_tx demo_b OpGuardStart demo_new))" by code_simp
  then show "Apply demo_sha watched_state (recovery_tx demo_b OpGuardStart demo_new) = Inr after_start"
    by (simp add: after_start_def)
  have "\<not> isl (Apply demo_sha after_start (recovery_tx demo_c OpGuardApprove demo_new))" by code_simp
  then show "Apply demo_sha after_start (recovery_tx demo_c OpGuardApprove demo_new) = Inr after_approve"
    by (simp add: after_approve_def)
  have "\<not> isl (Apply demo_sha after_delay (recovery_tx demo_b OpGuardFinish ''''\<lparr>txNonce := 1\<rparr>))" by code_simp
  then show "Apply demo_sha after_delay (recovery_tx demo_b OpGuardFinish ''''\<lparr>txNonce := 1\<rparr>) = Inr after_finish"
    by (simp add: after_finish_def)
qed

lemma recovery_bodies:
  "checkBody (recovery_tx demo_b OpGuardStart demo_new) = None" "checkBody (recovery_tx demo_c OpGuardApprove demo_new) = None"
  "checkBody (recovery_tx demo_b OpGuardFinish ''''\<lparr>txNonce := 1\<rparr>) = None"
  by code_simp+

lemma watched_state_wf: "wf_state watched_state"
proof -
  have t: "total watched_state k = total demo_state k" "supplyOf watched_state k = supplyOf demo_state k" for k
    by (simp_all add: watched_state_def total_def acctTotal_def poolsTotal_def escrowsTotal_def supplyOf_def)
  have "wf_guard demo_a (demo_guard\<lparr>gPending := None\<rparr>)" using demo_neq by (simp add: wf_guard_def demo_guard_def)
  moreover have "stNow demo_state = 1" by code_simp
  then have "clock_ok watched_state" by (simp add: clock_ok_def watched_state_def sane_time_def)
  ultimately show ?thesis
    using demo_state_wf t by (simp add: wf_state_def conserved_def wf_accounts_def wf_pools_def wf_escrows_def wf_guards_def Get_def)
      (simp add: watched_state_def)
qed

theorem recovery_needs_quorum_and_delay_witness:
  "\<exists>h. accepted demo_sha watched_state h after_delay \<and> length (votesOn demo_a h) = 2 \<and>
     fmlookup (stRecoveredTo after_finish) demo_a = Some demo_new"
proof -
  let ?x = "recovery_tx demo_b OpGuardStart demo_new" and ?y = "recovery_tx demo_c OpGuardApprove demo_new"
  have now: "stNow after_approve = 1" by code_simp
  let ?h = "[(stNow watched_state, ?x), (stNow after_start, ?y)]"
  have "accepted demo_sha watched_state ([] @ [(stNow watched_state, ?x)]) after_start"
    by (rule accepted.tx [OF accepted.start recovery_bodies(1) recovery_steps(1)])
  from accepted.tx [OF this recovery_bodies(2) recovery_steps(2)]
  have "accepted demo_sha watched_state ?h after_approve" by simp
  from accepted.tick [OF this, of 3600001] have a: "accepted demo_sha watched_state ?h after_delay"
    by (simp add: now sane_time_def after_delay_def)
  have p: "\<forall>a g. fmlookup (stGuards watched_state) a = Some g \<longrightarrow> gPending g = None"
    by (simp add: watched_state_def)
  have f: "opOn demo_a [OpGuardFinish] (recovery_tx demo_b OpGuardFinish ''''\<lparr>txNonce := 1\<rparr>)"
    by (simp add: opOn_def recovery_tx_def)
  have v: "votesOn demo_a ?h = ?h" by (simp add: votesOn_def opOn_def recovery_tx_def)
  obtain new past recent where n: "?h = past @ recent" "recent \<noteq> []" "opOn demo_a [OpGuardStart] (snd (hd recent))"
    "\<forall>z\<in>snd ` set (votesOn demo_a recent). votedKey z = new" "fmlookup (stRecoveredTo after_finish) demo_a = Some new"
    using recovery_needs_quorum_and_delay [OF watched_state_wf p a recovery_bodies(3) recovery_steps(3) disjI1 [OF f]]
    unfolding Let_def by blast
  have "opOn demo_a [OpGuardStart, OpGuardApprove] z \<and> votedKey z = demo_new" if "z \<in> {?x, ?y}" for z
    using that by (auto simp: opOn_def votedKey_def recovery_tx_def)
  moreover have "snd (hd recent) \<in> {?x, ?y}" "hd recent \<in> set recent"
    using n(1,2) by (auto simp: Cons_eq_append_conv)
  ultimately have "new = demo_new" using n(4) by (fastforce simp: votesOn_def)
  then show ?thesis using a v n(5) by (intro exI [of _ ?h]) simp
qed

end
