(* ===== verification/Chain.thy ===== *)
theory Chain
  imports Genesis Merkle
begin

text \<open>
  The node's chain: node/chain/chain.go and snapshot.go. A chain holds the committed state, the
  blocks, the lookup indexes and the mempool; blocks are produced from the mempool, received
  from other nodes, or decided by CometBFT.

  SHA-256 (\<open>sha\<close>), Ed25519 (\<open>ed_verify\<close>, \<open>ed_sign\<close>), the genesis hash and the clock are
  arguments. \<open>logErr\<close> is the error, if any, of writing a block to the block log.
\<close>

subsection \<open>State\<close>

record TxLocation =
  tlHeight :: "64 word"
  tlIndex :: nat

record pendingTx =
  ptTx :: Tx
  ptAdded :: int

record Snapshot =
  snHeight :: "64 word"
  snBlockHash :: hash
  snState :: State

record Chain =
  chGenesis :: Genesis
  chState :: State
  chBlocks :: "Block list"
  chTxIndex :: "(hash, TxLocation) fmap"
  chByAddr :: "(addr, TxLocation list) fmap"
  chByPool :: "(hash, TxLocation list) fmap"
  chByEscrow :: "(hash, TxLocation list) fmap"
  chMempool :: "(hash, pendingTx) fmap"
  chSnapshotEvery :: int
  chReplayedFrom :: "64 word"
  chSnapshot :: "Snapshot option"

abbreviation MaxBlockTxs :: nat where "MaxBlockTxs \<equiv> 1000"
abbreviation MaxMempoolTxs :: nat where "MaxMempoolTxs \<equiv> 10000"
abbreviation MaxNonceAhead :: "64 word" where "MaxNonceAhead \<equiv> 16"
abbreviation MempoolTTL :: int where "MempoolTTL \<equiv> 600000"

record tipInfo =
  tiHeight :: "64 word"
  tiHash :: hash
  tiTime :: int

definition tipLocked :: "(bytes \<Rightarrow> hash) \<Rightarrow> (Genesis \<Rightarrow> hash) \<Rightarrow> Chain \<Rightarrow> tipInfo" where
  "tipLocked sha ghash c =
     (if chBlocks c = [] then \<lparr>tiHeight = 0, tiHash = ghash (chGenesis c), tiTime = gnTime (chGenesis c)\<rparr>
      else let h = bHeader (last (chBlocks c)) in \<lparr>tiHeight = hHeight h, tiHash = HeaderHash sha h, tiTime = hTime h\<rparr>)"

subsection \<open>The mempool\<close>

text \<open>Transactions of the mempool from one sender.\<close>

definition pendingOf :: "Chain \<Rightarrow> addr \<Rightarrow> Tx list" where
  "pendingOf c a = filter (\<lambda>t. txFrom t = a) (map (ptTx \<circ> snd) (sortedEntries (chMempool c)))"

definition setNow :: "int \<Rightarrow> Chain \<Rightarrow> Chain" where
  "setNow t c = c\<lparr>chState := (chState c)\<lparr>stNow := t\<rparr>\<rparr>"

definition isTooHigh :: "err \<Rightarrow> bool" where
  "isTooHigh e \<longleftrightarrow> e = ErrNonceTooHigh"

text \<open>Everything the sender would have to pay for: this transaction and its pending ones in the asset.\<close>

definition pendingNeed :: "Chain \<Rightarrow> Tx \<Rightarrow> amount" where
  "pendingNeed c tx =
     foldl (\<lambda>need t. if txAsset t = txAsset tx then need + Cost (chState c) t else need)
       (Cost (chState c) tx) (pendingOf c (txFrom tx))"

definition claimsPool :: "Tx \<Rightarrow> bool" where
  "claimsPool tx \<longleftrightarrow> (case txPool tx of None \<Rightarrow> False | Some op \<Rightarrow> poOp op = OpPoolClaim)"

definition Submit :: "(bytes \<Rightarrow> hash) \<Rightarrow> (bytes \<Rightarrow> bytes \<Rightarrow> bytes \<Rightarrow> bool) \<Rightarrow> (Genesis \<Rightarrow> hash) \<Rightarrow> int \<Rightarrow> Chain \<Rightarrow> Tx \<Rightarrow>
    Chain \<times> hash \<times> err option" where
  "Submit sha ed_verify ghash clock c tx =
     (case CheckStateless ed_verify (gnChainID (chGenesis c)) tx of Some e \<Rightarrow> (c, zeroHash, Some e)
      | None \<Rightarrow>
        let tid = ID sha tx; acc = Get (chState c) (txFrom tx) in
        if fmlookup (chMempool c) tid \<noteq> None \<or> fmlookup (chTxIndex c) tid \<noteq> None then (c, tid, Some ErrDuplicate)
        else if fcard (fmdom (chMempool c)) \<ge> MaxMempoolTxs then (c, tid, Some (Err ''mempool full, retry later''))
        else if txNonce tx \<ge> acNonce acc + MaxNonceAhead then (c, tid, Some ErrNonceTooHigh)
        else
          let c1 = setNow (max clock (wrap64 (tiTime (tipLocked sha ghash c) + 1))) c in
          case (case Check sha (chState c1) tx of None \<Rightarrow> None | Some e \<Rightarrow> if isTooHigh e then None else Some e) of
            Some e \<Rightarrow> (c1, tid, Some e)
          | None \<Rightarrow>
            if txNonce tx \<in> txNonce ` set (pendingOf c1 (txFrom tx))
            then (c1, tid, Some (Err ''a pending tx already uses this nonce''))
            else if \<not> claimsPool tx \<and> pendingNeed c1 tx > Balance (chState c1) (txFrom tx) (txAsset tx)
            then (c1, tid, Some ErrInsufficient)
            else (c1\<lparr>chMempool := fmupd tid \<lparr>ptTx = tx, ptAdded = clock\<rparr> (chMempool c1)\<rparr>, tid, None))"

definition CheckPending :: "(bytes \<Rightarrow> hash) \<Rightarrow> (bytes \<Rightarrow> bytes \<Rightarrow> bytes \<Rightarrow> bool) \<Rightarrow> (Genesis \<Rightarrow> hash) \<Rightarrow> int \<Rightarrow> Chain \<Rightarrow> Tx \<Rightarrow>
    Chain \<times> err option" where
  "CheckPending sha ed_verify ghash clock c tx =
     (case CheckStateless ed_verify (gnChainID (chGenesis c)) tx of Some e \<Rightarrow> (c, Some e)
      | None \<Rightarrow>
        if txNonce tx \<ge> acNonce (Get (chState c) (txFrom tx)) + MaxNonceAhead then (c, Some ErrNonceTooHigh)
        else
          let c1 = setNow (max clock (wrap64 (tiTime (tipLocked sha ghash c) + 1))) c in
          (c1, case Check sha (chState c1) tx of None \<Rightarrow> None | Some e \<Rightarrow> if isTooHigh e then None else Some e))"

definition Forget :: "hash \<Rightarrow> Chain \<Rightarrow> Chain" where
  "Forget tid c = c\<lparr>chMempool := fmdrop tid (chMempool c)\<rparr>"

subsection \<open>Verifying a block\<close>

definition runTx :: "(bytes \<Rightarrow> hash) \<Rightarrow> (bytes \<Rightarrow> bytes \<Rightarrow> bytes \<Rightarrow> bool) \<Rightarrow> string \<Rightarrow> State \<Rightarrow> Tx \<Rightarrow> err + State" where
  "runTx sha ed_verify chainID s tx =
     (case CheckStateless ed_verify chainID tx of Some e \<Rightarrow> Inl e | None \<Rightarrow> Apply sha s tx)"

fun runTxs :: "(bytes \<Rightarrow> hash) \<Rightarrow> (bytes \<Rightarrow> bytes \<Rightarrow> bytes \<Rightarrow> bool) \<Rightarrow> string \<Rightarrow> State \<Rightarrow> Tx list \<Rightarrow> err + State" where
  "runTxs sha ed_verify chainID s [] = Inr s"
| "runTxs sha ed_verify chainID s (tx # txs) =
     (case runTx sha ed_verify chainID s tx of Inl e \<Rightarrow> Inl (Wrap ''tx'' e)
      | Inr s' \<Rightarrow> runTxs sha ed_verify chainID s' txs)"

text \<open>The header checks of \<open>verify\<close>, in the order of its \<open>switch\<close>.\<close>

definition checkHeader :: "(bytes \<Rightarrow> hash) \<Rightarrow> Genesis \<Rightarrow> tipInfo \<Rightarrow> Block \<Rightarrow> err option" where
  "checkHeader sha g tip b =
     (let h = bHeader b; bft = BFT g in
      if hChainID h \<noteq> gnChainID g then Some (Err ''wrong chain_id'')
      else if hHeight h \<noteq> tiHeight tip + 1 then Some (Err ''height does not follow tip'')
      else if hPrevHash h \<noteq> tiHash tip then Some (Err ''prev_hash does not match tip'')
      else if hTime h < tiTime tip \<or> (\<not> bft \<and> hTime h = tiTime tip) then Some (Err ''block time must increase'')
      else if \<not> bft \<and> hProposer h \<noteq> gnProposer g then Some (Err ''proposer is not authorized'')
      else if length (bTxs b) > MaxBlockTxs \<or> (\<not> bft \<and> length (bTxs b) = 0)
      then Some (Err ''block must contain 1..1000 txs'')
      else if hTxRoot h \<noteq> TxRoot sha (bTxs b) then Some (Err ''tx_root mismatch'')
      else None)"

definition verify :: "(bytes \<Rightarrow> hash) \<Rightarrow> (bytes \<Rightarrow> bytes \<Rightarrow> bytes \<Rightarrow> bool) \<Rightarrow> (Genesis \<Rightarrow> hash) \<Rightarrow> Chain \<Rightarrow> Block \<Rightarrow> err + State" where
  "verify sha ed_verify ghash c b =
     (let g = chGenesis c in
      case checkHeader sha g (tipLocked sha ghash c) b of Some e \<Rightarrow> Inl e
      | None \<Rightarrow> (case (if BFT g then None else VerifySig ed_verify b) of Some e \<Rightarrow> Inl e
      | None \<Rightarrow> (case runTxs sha ed_verify (gnChainID g) ((chState c)\<lparr>stNow := hTime (bHeader b)\<rparr>) (bTxs b) of Inl e \<Rightarrow> Inl e
      | Inr next \<Rightarrow> (case Root sha next of Inl e \<Rightarrow> Inl e
      | Inr r \<Rightarrow> if r \<noteq> hStateRoot (bHeader b) then Inl (Err ''state_root mismatch'') else Inr next))))"

subsection \<open>Committing a block\<close>

definition addLoc :: "'k \<Rightarrow> TxLocation \<Rightarrow> ('k, TxLocation list) fmap \<Rightarrow> ('k, TxLocation list) fmap" where
  "addLoc k l m = fmupd k (getd [] m k @ [l]) m"

definition touched :: "Tx \<Rightarrow> addr list" where
  "touched tx =
     [txFrom tx] @ (if txTo tx \<noteq> '''' then [txTo tx] else []) @
     (case txEscrow tx of None \<Rightarrow> []
      | Some x \<Rightarrow> if eoOp x = OpEscrowCreate then [eoSeller x, eoArbiter x] else []) @
     (case txGuard tx of None \<Rightarrow> []
      | Some g \<Rightarrow> if goAccount g \<noteq> '''' then
          (if goAccount g \<noteq> txFrom tx then [goAccount g] else []) @ (if goNewOwner g \<noteq> '''' then [goNewOwner g] else [])
          else [])"

definition indexTx :: "(bytes \<Rightarrow> hash) \<Rightarrow> 64 word \<Rightarrow> nat \<times> Tx \<Rightarrow> Chain \<Rightarrow> Chain" where
  "indexTx sha height it c =
     (let tx = snd it; tid = ID sha tx; loc = \<lparr>tlHeight = height, tlIndex = fst it\<rparr> in
      c\<lparr>chTxIndex := fmupd tid loc (chTxIndex c),
        chByAddr := fold (\<lambda>a. addLoc a loc) (touched tx) (chByAddr c),
        chByEscrow := (case txEscrow tx of None \<Rightarrow> chByEscrow c
          | Some x \<Rightarrow> addLoc (if eoOp x = OpEscrowCreate then tid else eoID x) loc (chByEscrow c)),
        chByPool := (case txPool tx of None \<Rightarrow> chByPool c
          | Some p \<Rightarrow> addLoc (if poOp p = OpPoolCreate then tid else poID p) loc (chByPool c)),
        chMempool := fmdrop tid (chMempool c)\<rparr>)"

definition indexBlock :: "(bytes \<Rightarrow> hash) \<Rightarrow> Block \<Rightarrow> Chain \<Rightarrow> Chain" where
  "indexBlock sha b c = fold (indexTx sha (hHeight (bHeader b))) (enumerate 0 (bTxs b)) c"

definition pruneMempool :: "Chain \<Rightarrow> Chain" where
  "pruneMempool c =
     c\<lparr>chMempool := fmfilter (\<lambda>k. case fmlookup (chMempool c) k of None \<Rightarrow> True
         | Some p \<Rightarrow> \<not> txNonce (ptTx p) < acNonce (Get (chState c) (txFrom (ptTx p)))) (chMempool c)\<rparr>"

text \<open>\<open>maybeSnapshot\<close>, with the write succeeding; a failed write leaves the old snapshot.\<close>

definition maybeSnapshot :: "(bytes \<Rightarrow> hash) \<Rightarrow> Chain \<Rightarrow> Chain" where
  "maybeSnapshot sha c =
     (let h = length (chBlocks c) in
      if chSnapshotEvery c \<le> 0 \<or> h = 0 \<or> int h mod chSnapshotEvery c \<noteq> 0 then c
      else c\<lparr>chSnapshot := Some \<lparr>snHeight = of_nat h, snBlockHash = HeaderHash sha (bHeader (last (chBlocks c))),
                                snState = chState c\<rparr>\<rparr>)"

definition commit :: "(bytes \<Rightarrow> hash) \<Rightarrow> Block \<Rightarrow> State \<Rightarrow> Chain \<Rightarrow> Chain" where
  "commit sha b next c =
     maybeSnapshot sha (pruneMempool (indexBlock sha b (c\<lparr>chState := next, chBlocks := chBlocks c @ [b]\<rparr>)))"

definition AddBlock :: "(bytes \<Rightarrow> hash) \<Rightarrow> (bytes \<Rightarrow> bytes \<Rightarrow> bytes \<Rightarrow> bool) \<Rightarrow> (Genesis \<Rightarrow> hash) \<Rightarrow> err option \<Rightarrow> Chain \<Rightarrow> Block \<Rightarrow>
    Chain \<times> err option" where
  "AddBlock sha ed_verify ghash logErr c b =
     (case verify sha ed_verify ghash c b of Inl e \<Rightarrow> (c, Some e)
      | Inr next \<Rightarrow> (case logErr of Some e \<Rightarrow> (c, Some e) | None \<Rightarrow> (commit sha b next c, None)))"

subsection \<open>Producing a block\<close>

definition isExpired :: "int \<Rightarrow> pendingTx \<Rightarrow> bool" where
  "isExpired now p \<longleftrightarrow> now - ptAdded p > MempoolTTL"

definition dropExpired :: "int \<Rightarrow> Chain \<Rightarrow> Chain" where
  "dropExpired now c =
     c\<lparr>chMempool := fmfilter (\<lambda>k. case fmlookup (chMempool c) k of None \<Rightarrow> True | Some p \<Rightarrow> \<not> isExpired now p)
                     (chMempool c)\<rparr>"

text \<open>The pending transactions by sender, then nonce.\<close>

definition pendingSorted :: "Chain \<Rightarrow> Tx list" where
  "pendingSorted c = sort_key (\<lambda>t. (txFrom t, txNonce t)) (map (ptTx \<circ> snd) (sortedEntries (chMempool c)))"

fun produceLoop :: "(bytes \<Rightarrow> hash) \<Rightarrow> Tx list \<Rightarrow> State \<times> Tx list \<times> (hash, pendingTx) fmap \<Rightarrow>
    State \<times> Tx list \<times> (hash, pendingTx) fmap" where
  "produceLoop sha [] st = st"
| "produceLoop sha (tx # rest) (next, txs, pool) =
     (if length txs = MaxBlockTxs then (next, txs, pool)
      else case Apply sha next tx of
        Inr next' \<Rightarrow> produceLoop sha rest (next', txs @ [tx], pool)
      | Inl e \<Rightarrow> produceLoop sha rest (next, txs, if isTooHigh e then pool else fmdrop (ID sha tx) pool))"

definition newBlock :: "(bytes \<Rightarrow> hash) \<Rightarrow> string \<Rightarrow> 64 word \<Rightarrow> hash \<Rightarrow> int \<Rightarrow> hash \<Rightarrow> addr \<Rightarrow> Tx list \<Rightarrow> Block" where
  "newBlock sha chainID height prev t root proposer txs =
     \<lparr>bHeader = \<lparr>hChainID = chainID, hHeight = height, hPrevHash = prev, hTime = t, hTxRoot = TxRoot sha txs,
                 hStateRoot = root, hProposer = proposer\<rparr>, bTxs = txs, bSig = []\<rparr>"

definition Produce :: "(bytes \<Rightarrow> hash) \<Rightarrow> (bytes \<Rightarrow> bytes \<Rightarrow> bytes \<Rightarrow> bool) \<Rightarrow> ('k \<Rightarrow> bytes \<Rightarrow> bytes) \<Rightarrow> ('k \<Rightarrow> bytes) \<Rightarrow>
    (Genesis \<Rightarrow> hash) \<Rightarrow> err option \<Rightarrow> int \<Rightarrow> 'k \<Rightarrow> int \<Rightarrow> Chain \<Rightarrow> Chain \<times> (err + Block option)" where
  "Produce sha ed_verify ed_sign ed_pub ghash logErr now key nowMs c =
     (let c1 = dropExpired now c;
          tip = tipLocked sha ghash c;
          t = (if nowMs \<le> tiTime tip then wrap64 (tiTime tip + 1) else nowMs);
          (next, txs, pool) = produceLoop sha (pendingSorted c1) ((chState c1)\<lparr>stNow := t\<rparr>, [], chMempool c1);
          c2 = c1\<lparr>chMempool := pool\<rparr>
      in if txs = [] then (c2, Inr None)
         else case Root sha next of Inl e \<Rightarrow> (c2, Inl e)
         | Inr r \<Rightarrow>
           let b = SignBlock ed_sign key (newBlock sha (gnChainID (chGenesis c)) (tiHeight tip + 1) (tiHash tip) t r
                     (AddressFromPubKey (ed_pub key)) txs)
           in (case verify sha ed_verify ghash c2 b of Inl e \<Rightarrow> (c2, Inl (Wrap ''produced invalid block'' e))
              | Inr _ \<Rightarrow> (case logErr of Some e \<Rightarrow> (c2, Inl e) | None \<Rightarrow> (commit sha b next c2, Inr (Some b)))))"

subsection \<open>Blocks decided by CometBFT\<close>

text \<open>One transaction of a decided block; a failing one is skipped and its error recorded.\<close>

definition execOne :: "(bytes \<Rightarrow> hash) \<Rightarrow> (bytes \<Rightarrow> bytes \<Rightarrow> bytes \<Rightarrow> bool) \<Rightarrow> string \<Rightarrow> Tx option \<Rightarrow>
    State \<times> Tx list \<times> err option list \<Rightarrow> State \<times> Tx list \<times> err option list" where
  "execOne sha ed_verify chainID t st =
     (let (next, oks, errs) = st in
      case t of None \<Rightarrow> (next, oks, errs @ [Some (Err ''malformed transaction'')])
      | Some tx \<Rightarrow>
        if length oks = MaxBlockTxs then (next, oks, errs @ [Some (Err ''block full'')])
        else case runTx sha ed_verify chainID next tx of
          Inl e \<Rightarrow> (next, oks, errs @ [Some e])
        | Inr next' \<Rightarrow> (next', oks @ [tx], errs @ [None]))"

definition ExecuteDecided :: "(bytes \<Rightarrow> hash) \<Rightarrow> (bytes \<Rightarrow> bytes \<Rightarrow> bytes \<Rightarrow> bool) \<Rightarrow> (Genesis \<Rightarrow> hash) \<Rightarrow> Chain \<Rightarrow> 64 word \<Rightarrow>
    int \<Rightarrow> string \<Rightarrow> Tx option list \<Rightarrow> err + Block \<times> State \<times> err option list" where
  "ExecuteDecided sha ed_verify ghash c height timeMs proposer txs =
     (let tip = tipLocked sha ghash c;
          t = max timeMs (tiTime tip);
          (next, oks, errs) = fold (execOne sha ed_verify (gnChainID (chGenesis c))) txs ((chState c)\<lparr>stNow := t\<rparr>, [], [])
      in case Root sha next of Inl e \<Rightarrow> Inl e
         | Inr r \<Rightarrow> Inr (newBlock sha (gnChainID (chGenesis c)) height (tiHash tip) t r proposer oks, next, errs))"

definition CommitDecided :: "(bytes \<Rightarrow> hash) \<Rightarrow> err option \<Rightarrow> Block \<Rightarrow> State \<Rightarrow> Chain \<Rightarrow> Chain \<times> err option" where
  "CommitDecided sha logErr b next c =
     (if hHeight (bHeader b) \<noteq> of_nat (length (chBlocks c)) + 1 then (c, Some (Err ''commit height does not follow''))
      else case logErr of Some e \<Rightarrow> (c, Some e) | None \<Rightarrow> (commit sha b next c, None))"

subsection \<open>Opening a chain: snapshot and replay\<close>

definition loadSnapshot :: "(bytes \<Rightarrow> hash) \<Rightarrow> Snapshot option \<Rightarrow> Block list \<Rightarrow> err + Snapshot option" where
  "loadSnapshot sha file stored =
     (case file of None \<Rightarrow> Inr None
      | Some s \<Rightarrow>
        if snHeight s = 0 \<or> snHeight s > of_nat (length stored) then Inl (Err ''snapshot is beyond the block log'')
        else
          let h = bHeader (stored ! (unat (snHeight s) - 1)) in
          if HeaderHash sha h \<noteq> snBlockHash s then Inl (Err ''snapshot is from a different chain'')
          else case Root sha (snState s) of Inl e \<Rightarrow> Inl e
          | Inr r \<Rightarrow> if r \<noteq> hStateRoot h then Inl (Err ''snapshot state does not match the block's state root'')
                    else Inr (Some s))"

definition emptyChain :: "Genesis \<Rightarrow> State \<Rightarrow> Chain" where
  "emptyChain g s =
     \<lparr>chGenesis = g, chState = s, chBlocks = [], chTxIndex = fmempty, chByAddr = fmempty, chByPool = fmempty,
      chByEscrow = fmempty, chMempool = fmempty, chSnapshotEvery = 1000, chReplayedFrom = 0, chSnapshot = None\<rparr>"

fun openLoop :: "(bytes \<Rightarrow> hash) \<Rightarrow> (bytes \<Rightarrow> bytes \<Rightarrow> bytes \<Rightarrow> bool) \<Rightarrow> (Genesis \<Rightarrow> hash) \<Rightarrow> Snapshot option \<Rightarrow> Block list \<Rightarrow> Chain \<Rightarrow>
    err + Chain" where
  "openLoop sha ed_verify ghash snap [] c = Inr c"
| "openLoop sha ed_verify ghash snap (b # bs) c =
     (case snap of
        Some sn \<Rightarrow>
          if hHeight (bHeader b) \<le> snHeight sn
          then openLoop sha ed_verify ghash snap bs
                 (let c1 = indexBlock sha b (c\<lparr>chBlocks := chBlocks c @ [b]\<rparr>)
                  in if hHeight (bHeader b) = snHeight sn
                     then c1\<lparr>chState := snState sn, chReplayedFrom := snHeight sn\<rparr> else c1)
          else (case verify sha ed_verify ghash c b of Inl e \<Rightarrow> Inl (Wrap ''replay block'' e)
                | Inr next \<Rightarrow> openLoop sha ed_verify ghash snap bs (commit sha b next c))
      | None \<Rightarrow> (case verify sha ed_verify ghash c b of Inl e \<Rightarrow> Inl (Wrap ''replay block'' e)
                | Inr next \<Rightarrow> openLoop sha ed_verify ghash snap bs (commit sha b next c)))"

definition OpenChain :: "(bytes \<Rightarrow> hash) \<Rightarrow> (bytes \<Rightarrow> bytes \<Rightarrow> bytes \<Rightarrow> bool) \<Rightarrow> (Genesis \<Rightarrow> hash) \<Rightarrow> Genesis \<Rightarrow> Snapshot option \<Rightarrow>
    Block list \<Rightarrow> err + Chain" where
  "OpenChain sha ed_verify ghash g file stored =
     (case GenesisState g of Inl e \<Rightarrow> Inl e
      | Inr s \<Rightarrow>
        openLoop sha ed_verify ghash (case loadSnapshot sha file stored of Inl _ \<Rightarrow> None | Inr sn \<Rightarrow> sn) stored
          ((emptyChain g s)\<lparr>chSnapshot := file\<rparr>))"

subsection \<open>Queries\<close>

record HistoryEntry =
  heID :: hash
  heHeight :: "64 word"
  heTime :: int
  heTx :: Tx

text \<open>A committed transaction by its location, \<open>None\<close> where the code would panic.\<close>

definition blockAt :: "Chain \<Rightarrow> 64 word \<Rightarrow> Block option" where
  "blockAt c h = (if 0 < unat h \<and> unat h \<le> length (chBlocks c) then Some (chBlocks c ! (unat h - 1)) else None)"

definition txAt :: "Chain \<Rightarrow> TxLocation \<Rightarrow> Tx option" where
  "txAt c l =
     (case blockAt c (tlHeight l) of None \<Rightarrow> None
      | Some b \<Rightarrow> if tlIndex l < length (bTxs b) then Some (bTxs b ! tlIndex l) else None)"

definition LookupTx :: "Chain \<Rightarrow> hash \<Rightarrow> (Tx \<times> TxLocation option) option" where
  "LookupTx c tid =
     (case fmlookup (chTxIndex c) tid of
        Some loc \<Rightarrow> map_option (\<lambda>tx. (tx, Some loc)) (txAt c loc)
      | None \<Rightarrow> map_option (\<lambda>p. (ptTx p, None)) (fmlookup (chMempool c) tid))"

definition historyEntry :: "(bytes \<Rightarrow> hash) \<Rightarrow> Chain \<Rightarrow> TxLocation \<Rightarrow> HistoryEntry option" where
  "historyEntry sha c l =
     (case (blockAt c (tlHeight l), txAt c l) of
        (Some b, Some tx) \<Rightarrow> Some \<lparr>heID = ID sha tx, heHeight = hHeight (bHeader b), heTime = hTime (bHeader b), heTx = tx\<rparr>
      | _ \<Rightarrow> None)"

definition History :: "(bytes \<Rightarrow> hash) \<Rightarrow> Chain \<Rightarrow> addr \<Rightarrow> int \<Rightarrow> HistoryEntry option list" where
  "History sha c a limit = map (historyEntry sha c) (take (nat limit) (rev (getd [] (chByAddr c) a)))"

definition PoolHistory :: "(bytes \<Rightarrow> hash) \<Rightarrow> Chain \<Rightarrow> hash \<Rightarrow> HistoryEntry option list" where
  "PoolHistory sha c pid = map (historyEntry sha c) (getd [] (chByPool c) pid)"

definition EscrowHistory :: "(bytes \<Rightarrow> hash) \<Rightarrow> Chain \<Rightarrow> hash \<Rightarrow> HistoryEntry option list" where
  "EscrowHistory sha c eid = map (historyEntry sha c) (getd [] (chByEscrow c) eid)"

text \<open>\<open>Account\<close>: the next nonce a sender should use. The loop ends: the mempool is finite.\<close>

fun nextNonceFrom :: "nat \<Rightarrow> 64 word set \<Rightarrow> 64 word \<Rightarrow> 64 word" where
  "nextNonceFrom 0 used n = n"
| "nextNonceFrom (Suc k) used n = (if n \<in> used then nextNonceFrom k used (n + 1) else n)"

definition AccountInfo :: "Chain \<Rightarrow> addr \<Rightarrow> Account \<times> 64 word" where
  "AccountInfo c a =
     (let acc = Get (chState c) a; mine = pendingOf c a
      in (acc, nextNonceFrom (Suc (length mine)) (txNonce ` set mine) (acNonce acc)))"

definition Blocks :: "Chain \<Rightarrow> 64 word \<Rightarrow> int \<Rightarrow> Block list" where
  "Blocks c from limit =
     (let f = (if from = 0 then 1 else from) in take (nat limit) (drop (unat f - 1) (chBlocks c)))"

definition PoolsOf :: "Chain \<Rightarrow> addr \<Rightarrow> Pool list" where
  "PoolsOf c a =
     sort_key pName (filter (\<lambda>p. a \<in> set (pMembers p)) (map snd (sortedEntries (stPools (chState c)))))"

definition EscrowsOf :: "Chain \<Rightarrow> addr \<Rightarrow> Escrow list" where
  "EscrowsOf c a =
     sort_key (\<lambda>e. - eCreatedAt e)
       (filter (\<lambda>e. eBuyer e = a \<or> eSeller e = a \<or> eArbiter e = a) (map snd (sortedEntries (stEscrows (chState c)))))"

end
