(* ===== verification/Chain_Properties.thy ===== *)
theory Chain_Properties
  imports Chain
begin

text \<open>
  What the chain promises: whatever a node does (accept, produce or execute blocks, take in or
  drop transactions), the blocks it has committed replay from genesis to exactly the state it
  holds, and a snapshot it wrote holds a state on the way; decided blocks always pass verification on
  replay; and every index entry points at the transaction it names. This is the chain in memory: the
  log file, with what a failed append leaves in it, is the subject of Node\_Disk.
\<close>

subsection \<open>What verification looks at\<close>

definition same_ledger :: "State \<Rightarrow> State \<Rightarrow> bool" where
  "same_ledger s t \<longleftrightarrow> s\<lparr>stNow := 0\<rparr> = t\<lparr>stNow := 0\<rparr>"

definition same_chain :: "Chain \<Rightarrow> Chain \<Rightarrow> bool" where
  "same_chain c d \<longleftrightarrow> chGenesis c = chGenesis d \<and> chBlocks c = chBlocks d \<and> same_ledger (chState c) (chState d)"

lemma same_ledger_refl [simp]: "same_ledger s s"
  by (simp add: same_ledger_def)

lemma same_ledger_trans: "same_ledger s t \<Longrightarrow> same_ledger t u \<Longrightarrow> same_ledger s u"
  by (simp add: same_ledger_def)

lemma same_ledger_sym: "same_ledger s t \<Longrightarrow> same_ledger t s"
  by (simp add: same_ledger_def)

lemma same_ledger_now [simp]: "same_ledger (s\<lparr>stNow := t\<rparr>) s"
  by (simp add: same_ledger_def)

lemma same_ledger_set: "same_ledger s t \<Longrightarrow> s\<lparr>stNow := x\<rparr> = t\<lparr>stNow := x\<rparr>"
proof -
  assume "same_ledger s t"
  then have "(s\<lparr>stNow := 0\<rparr>)\<lparr>stNow := x\<rparr> = (t\<lparr>stNow := 0\<rparr>)\<lparr>stNow := x\<rparr>" by (simp add: same_ledger_def)
  then show ?thesis by simp
qed

lemma same_chain_refl [simp]: "same_chain c c"
  by (simp add: same_chain_def)

lemma same_chain_trans: "same_chain a b \<Longrightarrow> same_chain b c \<Longrightarrow> same_chain a c"
  using same_ledger_trans by (auto simp: same_chain_def)

lemma same_chain_sym: "same_chain a b \<Longrightarrow> same_chain b a"
  using same_ledger_sym by (auto simp: same_chain_def)

lemma tip_cong: "same_chain c d \<Longrightarrow> tipLocked sha ghash c = tipLocked sha ghash d"
  by (simp add: same_chain_def tipLocked_def)

lemma verify_cong: "same_chain c d \<Longrightarrow> verify sha ed_verify ghash c b = verify sha ed_verify ghash d b"
proof -
  assume s: "same_chain c d"
  then have g: "chGenesis c = chGenesis d" and n: "\<And>x. (chState c)\<lparr>stNow := x\<rparr> = (chState d)\<lparr>stNow := x\<rparr>"
    by (simp_all add: same_chain_def same_ledger_set)
  show ?thesis unfolding verify_def tip_cong [OF s] g n ..
qed

lemma indexTx_frame [simp]:
  "chGenesis (indexTx sha h it c) = chGenesis c" "chBlocks (indexTx sha h it c) = chBlocks c"
  "chState (indexTx sha h it c) = chState c" "chSnapshot (indexTx sha h it c) = chSnapshot c"
  "chSnapshotEvery (indexTx sha h it c) = chSnapshotEvery c"
  by (simp_all add: indexTx_def Let_def)

lemma indexBlock_frame [simp]:
  "chGenesis (indexBlock sha b c) = chGenesis c" "chBlocks (indexBlock sha b c) = chBlocks c"
  "chState (indexBlock sha b c) = chState c" "chSnapshot (indexBlock sha b c) = chSnapshot c"
  "chSnapshotEvery (indexBlock sha b c) = chSnapshotEvery c"
proof -
  have "chGenesis (fold (indexTx sha h) its c) = chGenesis c \<and> chBlocks (fold (indexTx sha h) its c) = chBlocks c \<and>
      chState (fold (indexTx sha h) its c) = chState c \<and> chSnapshot (fold (indexTx sha h) its c) = chSnapshot c \<and>
      chSnapshotEvery (fold (indexTx sha h) its c) = chSnapshotEvery c" for h its
    by (induction its arbitrary: c) simp_all
  then show "chGenesis (indexBlock sha b c) = chGenesis c" "chBlocks (indexBlock sha b c) = chBlocks c"
    "chState (indexBlock sha b c) = chState c" "chSnapshot (indexBlock sha b c) = chSnapshot c"
    "chSnapshotEvery (indexBlock sha b c) = chSnapshotEvery c"
    by (simp_all add: indexBlock_def)
qed

lemma commit_frame [simp]:
  "chGenesis (commit sha b next c) = chGenesis c" "chBlocks (commit sha b next c) = chBlocks c @ [b]"
  "chState (commit sha b next c) = next"
  by (simp_all add: commit_def maybeSnapshot_def pruneMempool_def Let_def)

lemma commit_cong: "same_chain c d \<Longrightarrow> same_chain (commit sha b next c) (commit sha b next d)"
  by (simp add: same_chain_def)

lemma openLoop_append:
  "openLoop sha ed_verify ghash None (bs @ [b]) c =
   (case openLoop sha ed_verify ghash None bs c of Inl e \<Rightarrow> Inl e
    | Inr c' \<Rightarrow> (case verify sha ed_verify ghash c' b of Inl e \<Rightarrow> Inl (Wrap ''replay block'' e)
               | Inr next \<Rightarrow> Inr (commit sha b next c')))"
  by (induction bs arbitrary: c) (simp_all split: sum.split)

subsection \<open>Chains that replay\<close>

definition replays :: "(bytes \<Rightarrow> hash) \<Rightarrow> (bytes \<Rightarrow> bytes \<Rightarrow> bytes \<Rightarrow> bool) \<Rightarrow> (Genesis \<Rightarrow> hash) \<Rightarrow> Chain \<Rightarrow> bool" where
  "replays sha ed_verify ghash c \<longleftrightarrow>
     (\<exists>s0 d. GenesisState (chGenesis c) = Inr s0 \<and>
        openLoop sha ed_verify ghash None (chBlocks c) (emptyChain (chGenesis c) s0) = Inr d \<and> same_chain c d)"

lemma replays_empty: "GenesisState g = Inr s0 \<Longrightarrow> replays sha ed_verify ghash (emptyChain g s0)"
  by (simp add: replays_def emptyChain_def)

lemma replays_same:
  assumes "replays sha ed_verify ghash c" and s: "same_chain c d"
  shows "replays sha ed_verify ghash d"
proof -
  obtain s0 e where "GenesisState (chGenesis c) = Inr s0" "same_chain c e"
    "openLoop sha ed_verify ghash None (chBlocks c) (emptyChain (chGenesis c) s0) = Inr e"
    using assms(1) by (auto simp: replays_def)
  moreover have "same_chain d e" using same_chain_trans [OF same_chain_sym [OF s]] calculation(2) .
  moreover have "chGenesis c = chGenesis d" "chBlocks c = chBlocks d" using s by (simp_all add: same_chain_def)
  ultimately show ?thesis unfolding replays_def by auto
qed

lemma replays_commit:
  assumes r: "replays sha ed_verify ghash c" and v: "verify sha ed_verify ghash c b = Inr next"
  shows "replays sha ed_verify ghash (commit sha b next c)"
proof -
  obtain s0 d where g: "GenesisState (chGenesis c) = Inr s0"
    and o: "openLoop sha ed_verify ghash None (chBlocks c) (emptyChain (chGenesis c) s0) = Inr d"
    and s: "same_chain c d" using r by (auto simp: replays_def)
  have "verify sha ed_verify ghash d b = Inr next" using v verify_cong [OF s] by simp
  then have "openLoop sha ed_verify ghash None (chBlocks c @ [b]) (emptyChain (chGenesis c) s0) =
      Inr (commit sha b next d)" using o by (simp add: openLoop_append)
  then show ?thesis using g commit_cong [OF s, of sha b "next"] by (auto simp: replays_def)
qed

subsection \<open>Decided blocks verify\<close>

lemma runTxs_append:
  "runTxs sha ed_verify chainID s (xs @ [tx]) =
   (case runTxs sha ed_verify chainID s xs of Inl e \<Rightarrow> Inl e
    | Inr s' \<Rightarrow> (case runTx sha ed_verify chainID s' tx of Inl e \<Rightarrow> Inl (Wrap ''tx'' e) | Inr s'' \<Rightarrow> Inr s''))"
  by (induction xs arbitrary: s) (simp_all split: sum.split)

lemma execOne_ok:
  assumes "fold (execOne sha ed_verify chainID) txs (s, [], []) = (next, oks, errs)"
  shows "runTxs sha ed_verify chainID s oks = Inr next" "length oks \<le> MaxBlockTxs"
    "length errs = length txs" "set oks \<subseteq> {tx. Some tx \<in> set txs}"
proof -
  let ?I = "\<lambda>(t, oks, errs :: err option list). runTxs sha ed_verify chainID s oks = Inr t \<and> length oks \<le> MaxBlockTxs \<and>
      set oks \<subseteq> {tx. Some tx \<in> set txs}"
  have "?I (fold (execOne sha ed_verify chainID) txs (s, [], []))"
  proof (rule fold_invariant [where P = ?I])
    fix t st assume "t \<in> set txs" "?I st"
    then show "?I (execOne sha ed_verify chainID t st)"
      by (cases st) (auto simp: execOne_def runTxs_append split: option.split sum.split)
  qed simp
  then show "runTxs sha ed_verify chainID s oks = Inr next" "length oks \<le> MaxBlockTxs"
    "set oks \<subseteq> {tx. Some tx \<in> set txs}" using assms by simp_all
  have "length (snd (snd (fold (execOne sha ed_verify chainID) ts (t, os, es)))) = length es + length ts" for ts t os es
  proof (induction ts arbitrary: t os es)
    case (Cons x xs)
    obtain t' os' es' where e: "execOne sha ed_verify chainID x (t, os, es) = (t', os', es')" by (cases "execOne sha ed_verify chainID x (t, os, es)")
    then have "length es' = Suc (length es)" by (auto simp: execOne_def split: option.splits sum.splits if_splits)
    then show ?case using Cons.IH [of t' os' es'] e by simp
  qed simp
  from this [of txs s "[]" "[]"] show "length errs = length txs" using assms by simp
qed

lemma ExecuteDecided_verifies:
  assumes bft: "BFT (chGenesis c)" and h: "height = tiHeight (tipLocked sha ghash c) + 1"
    and ex: "ExecuteDecided sha ed_verify ghash c height timeMs proposer txs = Inr (b, next, errs)"
  shows "verify sha ed_verify ghash c b = Inr next"
proof -
  let ?tip = "tipLocked sha ghash c"
  let ?t = "max timeMs (tiTime ?tip)"
  obtain oks r where f: "fold (execOne sha ed_verify (gnChainID (chGenesis c))) txs ((chState c)\<lparr>stNow := ?t\<rparr>, [], []) =
      (next, oks, errs)" and r: "Root sha next = Inr r"
    and b: "b = newBlock sha (gnChainID (chGenesis c)) height (tiHash ?tip) ?t r proposer oks"
    using ex by (auto simp: ExecuteDecided_def Let_def split: prod.splits sum.splits)
  note e = execOne_ok [OF f]
  show ?thesis
    using e r bft h unfolding b by (simp add: verify_def checkHeader_def newBlock_def Let_def)
qed

subsection \<open>Heights\<close>

definition heights_ok :: "Chain \<Rightarrow> bool" where
  "heights_ok c \<longleftrightarrow> (\<forall>i < length (chBlocks c). hHeight (bHeader (chBlocks c ! i)) = of_nat (i + 1))"

lemma tipHeight: "heights_ok c \<Longrightarrow> tiHeight (tipLocked sha ghash c) = of_nat (length (chBlocks c))"
  by (cases "chBlocks c" rule: rev_cases) (auto simp: heights_ok_def tipLocked_def Let_def nth_append)

lemma verify_header: "verify sha ed_verify ghash c b = Inr next \<Longrightarrow> checkHeader sha (chGenesis c) (tipLocked sha ghash c) b = None"
  by (auto simp: verify_def Let_def split: option.splits)

lemma verify_height: "verify sha ed_verify ghash c b = Inr next \<Longrightarrow> hHeight (bHeader b) = tiHeight (tipLocked sha ghash c) + 1"
  using verify_header [of sha ed_verify ghash c b "next"] by (auto simp: checkHeader_def Let_def split: if_splits)

lemma heights_commit:
  assumes "heights_ok c" "hHeight (bHeader b) = of_nat (length (chBlocks c)) + 1"
  shows "heights_ok (commit sha b next c)"
  using assms by (auto simp: heights_ok_def nth_append less_Suc_eq)

lemma openLoop_heights:
  "openLoop sha ed_verify ghash None bs c = Inr d \<Longrightarrow> heights_ok c \<Longrightarrow>
   heights_ok d \<and> chBlocks d = chBlocks c @ bs \<and> chGenesis d = chGenesis c"
proof (induction bs arbitrary: d rule: rev_induct)
  case Nil
  then show ?case by simp
next
  case (snoc b bs)
  from snoc.prems(1) obtain c' "next" where c': "openLoop sha ed_verify ghash None bs c = Inr c'"
    and v: "verify sha ed_verify ghash c' b = Inr next" and d: "d = commit sha b next c'"
    by (auto simp: openLoop_append split: sum.splits)
  have h: "heights_ok c'" "chBlocks c' = chBlocks c @ bs" "chGenesis c' = chGenesis c"
    using snoc.IH [OF c'] snoc.prems(2) by simp_all
  have "hHeight (bHeader b) = of_nat (length (chBlocks c')) + 1"
    using verify_height [OF v] tipHeight [OF h(1), of sha ghash] by simp
  then show ?case using heights_commit [OF h(1)] h by (simp add: d)
qed

lemma replays_heights: "replays sha ed_verify ghash c \<Longrightarrow> heights_ok c"
proof -
  assume "replays sha ed_verify ghash c"
  then obtain s0 d where o: "openLoop sha ed_verify ghash None (chBlocks c) (emptyChain (chGenesis c) s0) = Inr d"
    and s: "same_chain c d" by (auto simp: replays_def)
  have "heights_ok (emptyChain (chGenesis c) s0)" by (simp add: heights_ok_def emptyChain_def)
  then have "heights_ok d" using openLoop_heights [OF o] by simp
  then show "heights_ok c" using s by (simp add: heights_ok_def same_chain_def)
qed

subsection \<open>What a node does\<close>

inductive node_step :: "(bytes \<Rightarrow> hash) \<Rightarrow> (bytes \<Rightarrow> bytes \<Rightarrow> bytes \<Rightarrow> bool) \<Rightarrow> ('k \<Rightarrow> bytes \<Rightarrow> bytes) \<Rightarrow> ('k \<Rightarrow> bytes) \<Rightarrow>
    (Genesis \<Rightarrow> hash) \<Rightarrow> Chain \<Rightarrow> Chain \<Rightarrow> bool" for sha ed_verify ed_sign ed_pub ghash where
  submit: "node_step sha ed_verify ed_sign ed_pub ghash c (fst (Submit sha ed_verify ghash clock c tx))"
| checkPending: "node_step sha ed_verify ed_sign ed_pub ghash c (fst (CheckPending sha ed_verify ghash clock c tx))"
| forget: "node_step sha ed_verify ed_sign ed_pub ghash c (Forget tid c)"
| produce: "node_step sha ed_verify ed_sign ed_pub ghash c
    (fst (Produce sha ed_verify ed_sign ed_pub ghash logErr now key nowMs c))"
| addBlock: "node_step sha ed_verify ed_sign ed_pub ghash c (fst (AddBlock sha ed_verify ghash logErr c b))"
| decided: "BFT (chGenesis c0) \<Longrightarrow> same_chain c0 c \<Longrightarrow>
    ExecuteDecided sha ed_verify ghash c0 height timeMs proposer txs = Inr (b, next, errs) \<Longrightarrow>
    node_step sha ed_verify ed_sign ed_pub ghash c (fst (CommitDecided sha logErr b next c))"

inductive_cases node_stepE: "node_step sha ed_verify ed_sign ed_pub ghash c d"

text \<open>Apart from the mempool and the clock, a node either does nothing or commits a block that verifies.\<close>

definition keeps_core :: "Chain \<Rightarrow> Chain \<Rightarrow> bool" where
  "keeps_core c d \<longleftrightarrow> same_chain c d \<and> chTxIndex d = chTxIndex c \<and> chByAddr d = chByAddr c \<and>
     chByPool d = chByPool c \<and> chByEscrow d = chByEscrow c \<and> chSnapshot d = chSnapshot c \<and>
     chSnapshotEvery d = chSnapshotEvery c"

lemma keeps_core_refl [simp]: "keeps_core c c"
  by (simp add: keeps_core_def)

lemma Submit_core: "keeps_core c (fst (Submit sha ed_verify ghash clock c tx))"
  by (simp add: Submit_def Let_def keeps_core_def setNow_def same_chain_def same_ledger_def split: option.split)

lemma CheckPending_core: "keeps_core c (fst (CheckPending sha ed_verify ghash clock c tx))"
  by (simp add: CheckPending_def Let_def keeps_core_def setNow_def same_chain_def same_ledger_def split: option.split)

lemma Forget_core: "keeps_core c (Forget tid c)"
  by (simp add: Forget_def keeps_core_def same_chain_def)

lemma verify_state: "verify sha ed_verify ghash c b = Inr next \<Longrightarrow>
    runTxs sha ed_verify (gnChainID (chGenesis c)) ((chState c)\<lparr>stNow := hTime (bHeader b)\<rparr>) (bTxs b) = Inr next"
  by (auto simp: verify_def Let_def split: option.splits sum.splits if_splits)

lemma produceLoop_applied:
  assumes "produceLoop sha ts (s0, xs, pool) = (next, txs, pool')"
    and "ApplyAll sha s xs = Inr s0"
  shows "ApplyAll sha s txs = Inr next"
proof -
  have app: "ApplyAll sha s (ys @ [t]) = (case ApplyAll sha s ys of Inl e \<Rightarrow> Inl e | Inr u \<Rightarrow> Apply sha u t)"
    for s ys t by (induction ys arbitrary: s) (simp_all split: sum.split)
  show ?thesis
    using assms
  proof (induction ts arbitrary: s0 xs pool)
    case Nil
    then show ?case by simp
  next
    case (Cons t ts)
    show ?case
    proof (cases "length xs = MaxBlockTxs")
      case True
      then show ?thesis using Cons.prems by simp
    next
      case False
      show ?thesis
      proof (cases "Apply sha s0 t")
        case (Inl e)
        then show ?thesis using Cons.prems False by (auto intro: Cons.IH)
      next
        case (Inr s1)
        then have "produceLoop sha ts (s1, xs @ [t], pool) = (next, txs, pool')" using Cons.prems(1) False by simp
        moreover have "ApplyAll sha s (xs @ [t]) = Inr s1" using Cons.prems(2) Inr by (simp add: app)
        ultimately show ?thesis by (rule Cons.IH)
      qed
    qed
  qed
qed

lemma runTxs_ApplyAll: "runTxs sha ed_verify chainID s txs = Inr s' \<Longrightarrow> ApplyAll sha s txs = Inr s'"
  by (induction txs arbitrary: s) (auto simp: runTx_def split: sum.splits option.splits)

text \<open>\<open>Produce\<close> commits the state its block verifies to.\<close>

lemma Produce_core:
  "keeps_core c (fst (Produce sha ed_verify ed_sign ed_pub ghash logErr now key nowMs c)) \<or>
   (\<exists>c2 b next. keeps_core c c2 \<and> verify sha ed_verify ghash c2 b = Inr next \<and>
      fst (Produce sha ed_verify ed_sign ed_pub ghash logErr now key nowMs c) = commit sha b next c2)"
proof -
  let ?c1 = "dropExpired now c" and ?tip = "tipLocked sha ghash c"
  let ?t = "if nowMs \<le> tiTime ?tip then wrap64 (tiTime ?tip + 1) else nowMs"
  obtain "next" txs pool where l: "produceLoop sha (pendingSorted ?c1) ((chState ?c1)\<lparr>stNow := ?t\<rparr>, [], chMempool ?c1) = (next, txs, pool)"
    by (cases "produceLoop sha (pendingSorted ?c1) ((chState ?c1)\<lparr>stNow := ?t\<rparr>, [], chMempool ?c1)")
  define c2 where "c2 = ?c1\<lparr>chMempool := pool\<rparr>"
  have k: "keeps_core c c2" by (simp add: c2_def dropExpired_def keeps_core_def same_chain_def)
  show ?thesis
  proof (cases "fst (Produce sha ed_verify ed_sign ed_pub ghash logErr now key nowMs c) = c2")
    case True
    then show ?thesis using k by simp
  next
    case False
    then obtain r where r: "Root sha next = Inr r" and ne: "txs \<noteq> []"
      by (auto simp: Produce_def Let_def l c2_def split: if_splits sum.splits)
    define b where "b = SignBlock ed_sign key (newBlock sha (gnChainID (chGenesis c)) (tiHeight ?tip + 1) (tiHash ?tip) ?t r
                     (AddressFromPubKey (ed_pub key)) txs)"
    obtain next' where v: "verify sha ed_verify ghash c2 b = Inr next'"
      and p: "fst (Produce sha ed_verify ed_sign ed_pub ghash logErr now key nowMs c) = commit sha b next c2"
      using False r ne by (auto simp: Produce_def Let_def l c2_def b_def split: if_splits sum.splits option.splits)
    have "ApplyAll sha ((chState ?c1)\<lparr>stNow := ?t\<rparr>) txs = Inr next"
      by (rule produceLoop_applied [OF l]) simp
    moreover have "ApplyAll sha ((chState c2)\<lparr>stNow := hTime (bHeader b)\<rparr>) (bTxs b) = Inr next'"
      using runTxs_ApplyAll [OF verify_state [OF v]] .
    ultimately have "next' = next"
      by (simp add: c2_def b_def SignBlock_def newBlock_def)
    then show ?thesis using k v p by blast
  qed
qed

lemma node_step_core:
  assumes st: "node_step sha ed_verify ed_sign ed_pub ghash c d" and r: "replays sha ed_verify ghash c"
  shows "keeps_core c d \<or> (\<exists>c2 b next. keeps_core c c2 \<and> verify sha ed_verify ghash c2 b = Inr next \<and> d = commit sha b next c2)"
  using st
proof (cases rule: node_step.cases)
  case submit
  then show ?thesis using Submit_core by blast
next
  case checkPending
  then show ?thesis using CheckPending_core by blast
next
  case forget
  then show ?thesis using Forget_core by blast
next
  case (produce logErr now key nowMs)
  then show ?thesis using Produce_core [of c sha ed_verify ed_sign ed_pub ghash logErr now key nowMs] by simp
next
  case (addBlock logErr b)
  show ?thesis
  proof (cases "d = c")
    case False
    then obtain "next" where "verify sha ed_verify ghash c b = Inr next" "d = commit sha b next c"
      using addBlock by (auto simp: AddBlock_def split: sum.splits option.splits)
    then show ?thesis using keeps_core_refl by blast
  qed simp
next
  case (decided c0 height timeMs proposer txs b "next" errs logErr)
  show ?thesis
  proof (cases "d = c")
    case False
    then have h: "hHeight (bHeader b) = of_nat (length (chBlocks c)) + 1" and d: "d = commit sha b next c"
      using decided(1) by (auto simp: CommitDecided_def split: if_splits option.splits)
    have "hHeight (bHeader b) = height"
      using decided(4) by (auto simp: ExecuteDecided_def newBlock_def Let_def split: prod.splits sum.splits)
    moreover have "tiHeight (tipLocked sha ghash c0) = of_nat (length (chBlocks c))"
      using tipHeight [OF replays_heights [OF r], of sha ghash] tip_cong [OF decided(3), of sha ghash] by simp
    ultimately have "verify sha ed_verify ghash c0 b = Inr next"
      using ExecuteDecided_verifies [OF decided(2) _ decided(4)] h by simp
    then have "verify sha ed_verify ghash c b = Inr next" using verify_cong [OF decided(3)] by simp
    then show ?thesis using d keeps_core_refl by blast
  qed simp
qed

lemma node_step_replays:
  assumes "node_step sha ed_verify ed_sign ed_pub ghash c d" "replays sha ed_verify ghash c"
  shows "replays sha ed_verify ghash d"
  using node_step_core [OF assms]
proof
  assume "keeps_core c d"
  then show ?thesis using replays_same [OF assms(2)] by (simp add: keeps_core_def)
next
  assume "\<exists>c2 b next. keeps_core c c2 \<and> verify sha ed_verify ghash c2 b = Inr next \<and> d = commit sha b next c2"
  then obtain c2 b "next" where k: "keeps_core c c2" and v: "verify sha ed_verify ghash c2 b = Inr next"
    and d: "d = commit sha b next c2" by blast
  have "replays sha ed_verify ghash c2" using replays_same [OF assms(2)] k by (simp add: keeps_core_def)
  then show ?thesis unfolding d using v by (rule replays_commit)
qed

definition node_run :: "(bytes \<Rightarrow> hash) \<Rightarrow> (bytes \<Rightarrow> bytes \<Rightarrow> bytes \<Rightarrow> bool) \<Rightarrow> ('k \<Rightarrow> bytes \<Rightarrow> bytes) \<Rightarrow> ('k \<Rightarrow> bytes) \<Rightarrow>
    (Genesis \<Rightarrow> hash) \<Rightarrow> Chain \<Rightarrow> Chain \<Rightarrow> bool" where
  "node_run sha ed_verify ed_sign ed_pub ghash = (node_step sha ed_verify ed_sign ed_pub ghash)\<^sup>*\<^sup>*"

lemma node_run_replays:
  assumes "GenesisState g = Inr s0" "node_run sha ed_verify ed_sign ed_pub ghash (emptyChain g s0) c"
  shows "replays sha ed_verify ghash c \<and> chGenesis c = g"
  using assms(2) unfolding node_run_def
proof (induction rule: rtranclp_induct)
  case base
  then show ?case using replays_empty [OF assms(1)] by (simp add: emptyChain_def)
next
  case (step c d)
  have "chGenesis d = chGenesis c"
    using node_step_core [OF step.hyps(2)] step.IH by (auto simp: keeps_core_def same_chain_def)
  then show ?case using node_step_replays [OF step.hyps(2)] step.IH by simp
qed

text \<open>Replay does not look at the rest of the chain record.\<close>

lemma openLoop_cong:
  assumes "same_chain c d"
  shows "rel_sum (=) same_chain (openLoop sha ed_verify ghash None bs c) (openLoop sha ed_verify ghash None bs d)"
  using assms
proof (induction bs arbitrary: c d)
  case Nil
  then show ?case by simp
next
  case (Cons b bs)
  show ?case
  proof (cases "verify sha ed_verify ghash c b")
    case (Inl e)
    then show ?thesis using verify_cong [OF Cons.prems, of sha ed_verify ghash b] by simp
  next
    case (Inr "next")
    then show ?thesis
      using verify_cong [OF Cons.prems, of sha ed_verify ghash b] Cons.IH [OF commit_cong [OF Cons.prems]] by simp
  qed
qed

lemma openLoop_same:
  assumes "openLoop sha ed_verify ghash None bs c = Inr c'" "same_chain c d"
  obtains d' where "openLoop sha ed_verify ghash None bs d = Inr d'" "same_chain c' d'"
  using openLoop_cong [OF assms(2), of sha ed_verify ghash bs] assms(1)
  by (cases "openLoop sha ed_verify ghash None bs d") auto

lemma OpenChain_None:
  assumes "replays sha ed_verify ghash c"
  obtains d where "OpenChain sha ed_verify ghash (chGenesis c) None (chBlocks c) = Inr d" "same_chain c d"
proof -
  obtain s0 d where g: "GenesisState (chGenesis c) = Inr s0"
    and o: "openLoop sha ed_verify ghash None (chBlocks c) (emptyChain (chGenesis c) s0) = Inr d" and s: "same_chain c d"
    using assms by (auto simp: replays_def)
  have "(emptyChain (chGenesis c) s0)\<lparr>chSnapshot := None\<rparr> = emptyChain (chGenesis c) s0" by (simp add: emptyChain_def)
  then show thesis using that g o s by (simp add: OpenChain_def loadSnapshot_def)
qed

subsection \<open>The ledger of a chain\<close>

lemma Apply_now: "wf_state s \<Longrightarrow> checkBody tx = None \<Longrightarrow> Apply sha s tx = Inr s' \<Longrightarrow> stNow s' = stNow s"
proof -
  assume w: "wf_state s" and c: "checkBody tx = None" and a: "Apply sha s tx = Inr s'"
  obtain s1 where e: "effect sha s tx = Inr s1" and s': "s' = charge s1 tx (Cost s tx)" using Apply_Inr [OF a] by blast
  have "wf_parts s" using w by (simp add: wf_state_parts)
  then have "stNow s1 = stNow s" using effect_step [OF _ c e] by (simp add: rule_step_def same_rest_def)
  then show "stNow s' = stNow s" by (simp add: s' charge_def payFee_def)
qed

lemma CheckStateless_body: "CheckStateless ed_verify chainID tx = None \<Longrightarrow> checkBody tx = None"
  by (auto simp: CheckStateless_def split: if_splits option.splits)

lemma runTxs_wf:
  "runTxs sha ed_verify chainID s txs = Inr s' \<Longrightarrow> wf_state s \<Longrightarrow> wf_state s' \<and> stNow s' = stNow s"
proof (induction sha ed_verify chainID s txs rule: runTxs.induct)
  case (1 sha ed_verify chainID s)
  then show ?case by simp
next
  case (2 sha ed_verify chainID s tx txs)
  then obtain s1 where r: "runTx sha ed_verify chainID s tx = Inr s1" and rest: "runTxs sha ed_verify chainID s1 txs = Inr s'"
    by (auto split: sum.splits)
  have c: "checkBody tx = None" and a: "Apply sha s tx = Inr s1"
    using r CheckStateless_body [of ed_verify chainID tx] by (auto simp: runTx_def split: option.splits)
  show ?case
    using "2.IH" [OF r rest] Apply_wf_state [OF "2.prems"(2) c a] Apply_now [OF "2.prems"(2) c a] by simp
qed

definition chain_wf :: "(bytes \<Rightarrow> hash) \<Rightarrow> (Genesis \<Rightarrow> hash) \<Rightarrow> Chain \<Rightarrow> bool" where
  "chain_wf sha ghash c \<longleftrightarrow> wf_state ((chState c)\<lparr>stNow := tiTime (tipLocked sha ghash c)\<rparr>)"

lemma chain_wf_commit:
  assumes w: "chain_wf sha ghash c" and v: "verify sha ed_verify ghash c b = Inr next" and t: "hTime (bHeader b) < 2 ^ 62"
  shows "chain_wf sha ghash (commit sha b next c)"
proof -
  let ?tip = "tipLocked sha ghash c"
  let ?s = "(chState c)\<lparr>stNow := tiTime ?tip\<rparr>"
  have le: "tiTime ?tip \<le> hTime (bHeader b)"
    using verify_header [OF v] by (auto simp: checkHeader_def Let_def split: if_splits)
  have "sane_time (tiTime ?tip)" using w by (simp add: chain_wf_def wf_state_def clock_ok_def)
  then have "sane_time (hTime (bHeader b))" using le t by (simp add: sane_time_def)
  then have "wf_state (?s\<lparr>stNow := hTime (bHeader b)\<rparr>)"
    using w le unfolding chain_wf_def by (rule_tac tick_wf) simp_all
  then have w': "wf_state ((chState c)\<lparr>stNow := hTime (bHeader b)\<rparr>)" by simp
  have "wf_state next \<and> stNow next = hTime (bHeader b)" using runTxs_wf [OF verify_state [OF v] w'] by simp
  moreover have "tiTime (tipLocked sha ghash (commit sha b next c)) = hTime (bHeader b)" by (simp add: tipLocked_def Let_def)
  moreover have "next\<lparr>stNow := stNow next\<rparr> = next" by simp
  ultimately show ?thesis unfolding chain_wf_def commit_frame by metis
qed

lemma openLoop_wf:
  "openLoop sha ed_verify ghash None bs c = Inr d \<Longrightarrow> chain_wf sha ghash c \<Longrightarrow> \<forall>b\<in>set bs. hTime (bHeader b) < 2 ^ 62 \<Longrightarrow>
   chain_wf sha ghash d"
proof (induction bs arbitrary: c)
  case Nil
  then show ?case by simp
next
  case (Cons b bs)
  from Cons.prems(1) obtain "next" where v: "verify sha ed_verify ghash c b = Inr next"
    and o: "openLoop sha ed_verify ghash None bs (commit sha b next c) = Inr d" by (auto split: sum.splits)
  have "chain_wf sha ghash (commit sha b next c)" using Cons.prems(2,3) by (intro chain_wf_commit [OF _ v]) simp_all
  then show ?case using Cons.IH [OF o] Cons.prems(3) by simp
qed

lemma replays_wf:
  assumes r: "replays sha ed_verify ghash c" and t: "sane_time (gnTime (chGenesis c))"
    and b: "\<forall>b\<in>set (chBlocks c). hTime (bHeader b) < 2 ^ 62"
  shows "chain_wf sha ghash c"
proof -
  obtain s0 d where g: "GenesisState (chGenesis c) = Inr s0"
    and o: "openLoop sha ed_verify ghash None (chBlocks c) (emptyChain (chGenesis c) s0) = Inr d" and s: "same_chain c d"
    using r by (auto simp: replays_def)
  have "chain_wf sha ghash (emptyChain (chGenesis c) s0)"
    using GenesisState_wf [OF g t] by (simp add: chain_wf_def emptyChain_def tipLocked_def)
  then have "chain_wf sha ghash d" by (rule openLoop_wf [OF o _ b])
  then show ?thesis
    using s tip_cong [OF s, of sha ghash] same_ledger_set [of "chState c" "chState d"]
    by (simp add: chain_wf_def same_chain_def)
qed

subsection \<open>The indexes\<close>

text \<open>Every index entry points at a committed transaction; the id index at the one it names.\<close>

definition locs_ok :: "Chain \<Rightarrow> ('k, TxLocation list) fmap \<Rightarrow> bool" where
  "locs_ok c m \<longleftrightarrow> (\<forall>k. \<forall>l\<in>set (getd [] m k). txAt c l \<noteq> None)"

definition index_ok :: "(bytes \<Rightarrow> hash) \<Rightarrow> Chain \<Rightarrow> bool" where
  "index_ok sha c \<longleftrightarrow>
     (\<forall>tid l. fmlookup (chTxIndex c) tid = Some l \<longrightarrow> (\<exists>tx. txAt c l = Some tx \<and> ID sha tx = tid)) \<and>
     (\<forall>b\<in>set (chBlocks c). \<forall>tx\<in>set (bTxs b). fmlookup (chTxIndex c) (ID sha tx) \<noteq> None) \<and>
     locs_ok c (chByAddr c) \<and> locs_ok c (chByPool c) \<and> locs_ok c (chByEscrow c)"

lemma addLoc_ok: "locs_ok c m \<Longrightarrow> txAt c l \<noteq> None \<Longrightarrow> locs_ok c (addLoc k l m)"
  by (auto simp: locs_ok_def addLoc_def)

lemma addLocs_ok: "locs_ok c m \<Longrightarrow> txAt c l \<noteq> None \<Longrightarrow> locs_ok c (fold (\<lambda>a. addLoc a l) ks m)"
  by (induction ks arbitrary: m) (simp_all add: addLoc_ok)

lemma txAt_cong: "chBlocks c = chBlocks d \<Longrightarrow> txAt c l = txAt d l"
  by (simp add: txAt_def blockAt_def)

lemma locs_ok_cong: "chBlocks c = chBlocks d \<Longrightarrow> locs_ok c m = locs_ok d m"
  unfolding locs_ok_def using txAt_cong [of c d] by simp

lemma txAt_append: "txAt c l = Some tx \<Longrightarrow> chBlocks d = chBlocks c @ [b] \<Longrightarrow> txAt d l = Some tx"
  by (auto simp: txAt_def blockAt_def nth_append split: option.splits if_splits)

definition entries_ok :: "(bytes \<Rightarrow> hash) \<Rightarrow> Chain \<Rightarrow> Chain \<Rightarrow> bool" where
  "entries_ok sha ref c \<longleftrightarrow>
     (\<forall>tid l. fmlookup (chTxIndex c) tid = Some l \<longrightarrow> (\<exists>tx. txAt ref l = Some tx \<and> ID sha tx = tid)) \<and>
     locs_ok ref (chByAddr c) \<and> locs_ok ref (chByPool c) \<and> locs_ok ref (chByEscrow c)"

lemma indexTx_entries:
  assumes "entries_ok sha ref c" "txAt ref \<lparr>tlHeight = h, tlIndex = i\<rparr> = Some tx"
  shows "entries_ok sha ref (indexTx sha h (i, tx) c)"
  using assms by (auto simp: entries_ok_def indexTx_def Let_def intro!: addLoc_ok addLocs_ok split: option.split)

lemma indexTx_keeps:
  "fmlookup (chTxIndex (indexTx sha h it c)) k \<noteq> None \<longleftrightarrow> k = ID sha (snd it) \<or> fmlookup (chTxIndex c) k \<noteq> None"
  by (auto simp: indexTx_def Let_def)

lemma indexTxs_keeps:
  "fmlookup (chTxIndex (fold (indexTx sha h) its c)) k \<noteq> None \<longleftrightarrow>
   k \<in> ID sha ` snd ` set its \<or> fmlookup (chTxIndex c) k \<noteq> None"
proof (induction its arbitrary: c)
  case (Cons it its)
  show ?case using Cons.IH [of "indexTx sha h it c"] unfolding indexTx_keeps by auto
qed simp

lemma indexBlock_entries:
  assumes e: "entries_ok sha ref c" and at: "\<And>i. i < length (bTxs b) \<Longrightarrow>
      txAt ref \<lparr>tlHeight = hHeight (bHeader b), tlIndex = i\<rparr> = Some (bTxs b ! i)"
  shows "entries_ok sha ref (indexBlock sha b c)"
  unfolding indexBlock_def
proof (rule fold_invariant [where P = "entries_ok sha ref"])
  fix it d assume it: "it \<in> set (enumerate 0 (bTxs b))" and d: "entries_ok sha ref d"
  have "it = (fst it, bTxs b ! fst it)" "fst it < length (bTxs b)"
    using it unfolding in_set_enumerate_eq by (simp_all add: prod_eq_iff)
  then show "entries_ok sha ref (indexTx sha (hHeight (bHeader b)) it d)"
    using indexTx_entries [OF d at] by metis
qed (rule e)

lemma index_ok_entries:
  "index_ok sha c \<longleftrightarrow> entries_ok sha c c \<and> (\<forall>b\<in>set (chBlocks c). \<forall>tx\<in>set (bTxs b). fmlookup (chTxIndex c) (ID sha tx) \<noteq> None)"
  by (auto simp: index_ok_def entries_ok_def)

lemma entries_ok_cong:
  "chTxIndex c = chTxIndex d \<Longrightarrow> chByAddr c = chByAddr d \<Longrightarrow> chByPool c = chByPool d \<Longrightarrow> chByEscrow c = chByEscrow d \<Longrightarrow>
   entries_ok sha ref c = entries_ok sha ref d"
  by (simp add: entries_ok_def)

lemma index_ok_add:
  assumes ok: "index_ok sha c" and h: "hHeight (bHeader b) = of_nat (length (chBlocks c)) + 1"
    and n: "length (chBlocks c) + 1 < 2 ^ 64"
    and d: "chBlocks d = chBlocks c @ [b]" "chTxIndex d = chTxIndex (indexBlock sha b c)"
      "chByAddr d = chByAddr (indexBlock sha b c)" "chByPool d = chByPool (indexBlock sha b c)"
      "chByEscrow d = chByEscrow (indexBlock sha b c)"
  shows "index_ok sha d"
proof -
  have u: "unat (hHeight (bHeader b)) = length (chBlocks c) + 1"
    using unat_of_nat64 [OF n] by (simp add: h add.commute)
  have at: "txAt d \<lparr>tlHeight = hHeight (bHeader b), tlIndex = i\<rparr> = Some (bTxs b ! i)" if "i < length (bTxs b)" for i
    using that d(1) u by (simp add: txAt_def blockAt_def)
  have lc: "locs_ok d m" if m: "locs_ok c m" for m :: "(bytes, TxLocation list) fmap"
    unfolding locs_ok_def
  proof (intro allI ballI)
    fix k l assume "l \<in> set (getd [] m k)"
    then obtain tx where "txAt c l = Some tx" using m by (auto simp: locs_ok_def)
    then show "txAt d l \<noteq> None" using txAt_append [OF _ d(1)] by simp
  qed
  have "entries_ok sha d c"
    unfolding entries_ok_def
  proof (intro conjI allI impI)
    fix tid l assume "fmlookup (chTxIndex c) tid = Some l"
    then obtain tx where "txAt c l = Some tx" "ID sha tx = tid" using ok by (auto simp: index_ok_def)
    then show "\<exists>tx. txAt d l = Some tx \<and> ID sha tx = tid" using txAt_append [OF _ d(1)] by blast
  qed (use ok lc in \<open>simp_all add: index_ok_def\<close>)
  then have "entries_ok sha d (indexBlock sha b c)" using at by (rule indexBlock_entries)
  then have "entries_ok sha d d" using entries_ok_cong [of "indexBlock sha b c" d] d by simp
  moreover have "fmlookup (chTxIndex d) (ID sha tx) \<noteq> None" if "x \<in> set (chBlocks d)" "tx \<in> set (bTxs x)" for x tx
  proof -
    have "snd ` set (enumerate 0 (bTxs b)) = set (bTxs b)" by (metis list.set_map map_snd_enumerate)
    then show ?thesis
      unfolding d(2) indexBlock_def indexTxs_keeps using that ok d(1) by (auto simp: index_ok_def)
  qed
  ultimately show ?thesis by (simp add: index_ok_entries)
qed

lemma indexBlock_cong:
  assumes "chTxIndex c = chTxIndex d" "chByAddr c = chByAddr d" "chByPool c = chByPool d" "chByEscrow c = chByEscrow d"
  shows "chTxIndex (indexBlock sha b c) = chTxIndex (indexBlock sha b d) \<and>
    chByAddr (indexBlock sha b c) = chByAddr (indexBlock sha b d) \<and>
    chByPool (indexBlock sha b c) = chByPool (indexBlock sha b d) \<and>
    chByEscrow (indexBlock sha b c) = chByEscrow (indexBlock sha b d)"
proof -
  have "chTxIndex (fold (indexTx sha h) its c) = chTxIndex (fold (indexTx sha h) its d) \<and>
      chByAddr (fold (indexTx sha h) its c) = chByAddr (fold (indexTx sha h) its d) \<and>
      chByPool (fold (indexTx sha h) its c) = chByPool (fold (indexTx sha h) its d) \<and>
      chByEscrow (fold (indexTx sha h) its c) = chByEscrow (fold (indexTx sha h) its d)"
    if "chTxIndex c = chTxIndex d" "chByAddr c = chByAddr d" "chByPool c = chByPool d" "chByEscrow c = chByEscrow d"
    for h its c d
    using that
  proof (induction its arbitrary: c d)
    case (Cons it its)
    have "chTxIndex (indexTx sha h it c) = chTxIndex (indexTx sha h it d)"
      "chByAddr (indexTx sha h it c) = chByAddr (indexTx sha h it d)"
      "chByPool (indexTx sha h it c) = chByPool (indexTx sha h it d)"
      "chByEscrow (indexTx sha h it c) = chByEscrow (indexTx sha h it d)"
      using Cons.prems by (simp_all add: indexTx_def Let_def split: option.split)
    then show ?case using Cons.IH [of "indexTx sha h it c" "indexTx sha h it d"] by simp
  qed simp
  then show ?thesis using assms unfolding indexBlock_def .
qed

lemma commit_index:
  assumes "index_ok sha c" "hHeight (bHeader b) = of_nat (length (chBlocks c)) + 1" "length (chBlocks c) + 1 < 2 ^ 64"
  shows "index_ok sha (commit sha b next c)"
  using indexBlock_cong [of "c\<lparr>chState := next, chBlocks := chBlocks c @ [b]\<rparr>" c sha b]
  by (intro index_ok_add [OF assms]) (simp_all add: commit_def maybeSnapshot_def pruneMempool_def Let_def)

lemma index_ok_core:
  assumes "keeps_core c d" "index_ok sha c"
  shows "index_ok sha d"
proof -
  have b: "chBlocks c = chBlocks d" using assms(1) by (simp add: keeps_core_def same_chain_def)
  then show ?thesis
    using assms by (simp add: keeps_core_def index_ok_def locs_ok_cong [OF b] txAt_cong [OF b])
qed

lemma node_run_index:
  assumes g: "GenesisState g = Inr s0" and run: "node_run sha ed_verify ed_sign ed_pub ghash (emptyChain g s0) c"
  shows "length (chBlocks c) < 2 ^ 64 \<Longrightarrow> index_ok sha c"
  using run unfolding node_run_def
proof (induction rule: rtranclp_induct)
  case base
  show ?case by (simp add: index_ok_def emptyChain_def locs_ok_def)
next
  case (step c d)
  have r: "replays sha ed_verify ghash c"
    using node_run_replays [OF g step.hyps(1) [folded node_run_def]] by blast
  from node_step_core [OF step.hyps(2) r] show ?case
  proof
    assume k: "keeps_core c d"
    then show ?thesis using step.IH step.prems index_ok_core by (simp add: keeps_core_def same_chain_def)
  next
    assume "\<exists>c2 b next. keeps_core c c2 \<and> verify sha ed_verify ghash c2 b = Inr next \<and> d = commit sha b next c2"
    then obtain c2 b "next" where k: "keeps_core c c2" and v: "verify sha ed_verify ghash c2 b = Inr next"
      and d: "d = commit sha b next c2" by blast
    have n: "length (chBlocks c2) + 1 < 2 ^ 64" "chBlocks c2 = chBlocks c"
      using step.prems k by (simp_all add: d keeps_core_def same_chain_def)
    have "index_ok sha c2" using index_ok_core [OF k] step.IH n by simp
    moreover have "heights_ok c2" using replays_heights [OF r] n(2) by (simp add: heights_ok_def)
    then have "hHeight (bHeader b) = of_nat (length (chBlocks c2)) + 1"
      using verify_height [OF v] tipHeight by simp
    ultimately show ?thesis unfolding d using n(1) by (intro commit_index)
  qed
qed

lemma locs_ok_entries:
  assumes "locs_ok c m" "set ls \<subseteq> set (getd [] m k)"
  shows "None \<notin> set (map (historyEntry sha c) ls)"
proof -
  have "historyEntry sha c l \<noteq> None" if "l \<in> set ls" for l
  proof -
    have "txAt c l \<noteq> None" using assms that by (auto simp: locs_ok_def)
    then show ?thesis by (auto simp: historyEntry_def txAt_def split: option.splits)
  qed
  then show ?thesis by force
qed

subsection \<open>Snapshots\<close>

text \<open>A snapshot of the chain holds the state its first \<open>h\<close> blocks replay to.\<close>

definition snap_at :: "(bytes \<Rightarrow> hash) \<Rightarrow> (bytes \<Rightarrow> bytes \<Rightarrow> bytes \<Rightarrow> bool) \<Rightarrow> (Genesis \<Rightarrow> hash) \<Rightarrow> Genesis \<Rightarrow> Block list \<Rightarrow>
    Snapshot \<Rightarrow> nat \<Rightarrow> bool" where
  "snap_at sha ed_verify ghash g bs sn h \<longleftrightarrow>
     0 < h \<and> h \<le> length bs \<and> snHeight sn = of_nat h \<and>
     (\<exists>s0 d. GenesisState g = Inr s0 \<and>
        openLoop sha ed_verify ghash None (take h bs) (emptyChain g s0) = Inr d \<and> same_ledger (snState sn) (chState d))"

definition snap_ok :: "(bytes \<Rightarrow> hash) \<Rightarrow> (bytes \<Rightarrow> bytes \<Rightarrow> bytes \<Rightarrow> bool) \<Rightarrow> (Genesis \<Rightarrow> hash) \<Rightarrow> Chain \<Rightarrow> bool" where
  "snap_ok sha ed_verify ghash c \<longleftrightarrow>
     (case chSnapshot c of None \<Rightarrow> True
      | Some sn \<Rightarrow> \<exists>h. snap_at sha ed_verify ghash (chGenesis c) (chBlocks c) sn h)"

lemma snap_at_append: "snap_at sha ed_verify ghash g bs sn h \<Longrightarrow> snap_at sha ed_verify ghash g (bs @ [b]) sn h"
  by (auto simp: snap_at_def)

lemma commit_snapshot:
  "chSnapshot (commit sha b next c) = chSnapshot c \<or>
   (\<exists>sn. chSnapshot (commit sha b next c) = Some sn \<and> snHeight sn = of_nat (length (chBlocks c) + 1) \<and> snState sn = next)"
  by (simp add: commit_def maybeSnapshot_def pruneMempool_def Let_def)

lemma snap_ok_commit:
  assumes s: "snap_ok sha ed_verify ghash c" and r: "replays sha ed_verify ghash (commit sha b next c)"
  shows "snap_ok sha ed_verify ghash (commit sha b next c)"
  using commit_snapshot [of sha b "next" c]
proof
  assume "chSnapshot (commit sha b next c) = chSnapshot c"
  then show ?thesis using s snap_at_append by (fastforce simp: snap_ok_def split: option.splits)
next
  assume "\<exists>sn. chSnapshot (commit sha b next c) = Some sn \<and> snHeight sn = of_nat (length (chBlocks c) + 1) \<and> snState sn = next"
  then obtain sn where sn: "chSnapshot (commit sha b next c) = Some sn" "snHeight sn = of_nat (length (chBlocks c) + 1)"
    "snState sn = next" by blast
  obtain s0 d where "GenesisState (chGenesis c) = Inr s0"
    "openLoop sha ed_verify ghash None (chBlocks c @ [b]) (emptyChain (chGenesis c) s0) = Inr d" "same_ledger next (chState d)"
    using r by (auto simp: replays_def same_chain_def)
  then have "snap_at sha ed_verify ghash (chGenesis c) (chBlocks c @ [b]) sn (length (chBlocks c) + 1)"
    using sn by (simp add: snap_at_def)
  then show ?thesis using sn(1) by (auto simp: snap_ok_def)
qed

lemma node_run_snap:
  assumes g: "GenesisState g = Inr s0" and run: "node_run sha ed_verify ed_sign ed_pub ghash (emptyChain g s0) c"
  shows "snap_ok sha ed_verify ghash c"
  using run unfolding node_run_def
proof (induction rule: rtranclp_induct)
  case base
  show ?case by (simp add: snap_ok_def emptyChain_def)
next
  case (step c d)
  have r: "replays sha ed_verify ghash c"
    using node_run_replays [OF g step.hyps(1) [folded node_run_def]] by blast
  have core: "snap_ok sha ed_verify ghash c'" if "keeps_core c c'" for c'
    using step.IH that by (cases "chSnapshot c") (auto simp: keeps_core_def same_chain_def snap_ok_def)
  from node_step_core [OF step.hyps(2) r] show ?case
    using core node_step_replays [OF step.hyps(2) r] snap_ok_commit by metis
qed

text \<open>Opening with a snapshot: blocks up to it are only indexed, the rest is replayed as usual.\<close>

lemma openLoop_skip:
  assumes "\<forall>b\<in>set bs. hHeight (bHeader b) < snHeight sn"
  obtains c' where "openLoop sha ed_verify ghash (Some sn) (bs @ rest) c = openLoop sha ed_verify ghash (Some sn) rest c'"
    "chGenesis c' = chGenesis c" "chBlocks c' = chBlocks c @ bs" "chSnapshot c' = chSnapshot c"
  using assms
proof (induction bs arbitrary: c thesis)
  case Nil
  then show ?case by simp
next
  case (Cons b bs)
  let ?c1 = "indexBlock sha b (c\<lparr>chBlocks := chBlocks c @ [b]\<rparr>)"
  have b: "hHeight (bHeader b) < snHeight sn" and bs: "\<forall>b\<in>set bs. hHeight (bHeader b) < snHeight sn"
    using Cons.prems(2) by simp_all
  obtain c' where c': "openLoop sha ed_verify ghash (Some sn) (bs @ rest) ?c1 = openLoop sha ed_verify ghash (Some sn) rest c'"
    "chGenesis c' = chGenesis ?c1" "chBlocks c' = chBlocks ?c1 @ bs" "chSnapshot c' = chSnapshot ?c1"
    using Cons.IH [OF _ bs, of ?c1] by blast
  show ?case
    by (rule Cons.prems(1) [of c']) (use b c' in \<open>simp_all add: Let_def less_imp_le less_imp_neq\<close>)
qed

lemma openLoop_after:
  "\<forall>b\<in>set bs. hHeight (bHeader b) > snHeight sn \<Longrightarrow>
   openLoop sha ed_verify ghash (Some sn) bs c = openLoop sha ed_verify ghash None bs c"
  by (induction bs arbitrary: c) (auto simp: not_le split: sum.split)

lemma openLoop_split:
  "openLoop sha ed_verify ghash None (xs @ ys) c =
   (case openLoop sha ed_verify ghash None xs c of Inl e \<Rightarrow> Inl e | Inr d \<Rightarrow> openLoop sha ed_verify ghash None ys d)"
  by (induction xs arbitrary: c) (simp_all split: sum.split)

lemma snap_ok_new:
  assumes r: "replays sha ed_verify ghash (commit sha b next c)"
  shows "chSnapshot (commit sha b next c) = chSnapshot c \<or> snap_ok sha ed_verify ghash (commit sha b next c)"
proof -
  obtain s0 d where "GenesisState (chGenesis c) = Inr s0"
    "openLoop sha ed_verify ghash None (chBlocks c @ [b]) (emptyChain (chGenesis c) s0) = Inr d" "same_ledger next (chState d)"
    using r by (auto simp: replays_def same_chain_def)
  then have "snap_at sha ed_verify ghash (chGenesis c) (chBlocks c @ [b]) sn (length (chBlocks c) + 1)"
    if "snHeight sn = of_nat (length (chBlocks c) + 1)" "snState sn = next" for sn using that by (simp add: snap_at_def)
  then show ?thesis using commit_snapshot [of sha b "next" c] by (fastforce simp: snap_ok_def)
qed

lemma openLoop_snap:
  "openLoop sha ed_verify ghash None bs c = Inr d \<Longrightarrow> replays sha ed_verify ghash c \<Longrightarrow>
   replays sha ed_verify ghash d \<and> (chSnapshot d = chSnapshot c \<or> snap_ok sha ed_verify ghash d)"
proof (induction bs arbitrary: d rule: rev_induct)
  case (snoc b bs)
  from snoc.prems(1) obtain c' "next" where c': "openLoop sha ed_verify ghash None bs c = Inr c'"
    and v: "verify sha ed_verify ghash c' b = Inr next" and d: "d = commit sha b next c'"
    by (auto simp: openLoop_append split: sum.splits)
  have ih: "replays sha ed_verify ghash c'" "chSnapshot c' = chSnapshot c \<or> snap_ok sha ed_verify ghash c'"
    using snoc.IH [OF c' snoc.prems(2)] by simp_all
  have r: "replays sha ed_verify ghash d" unfolding d using ih(1) v by (rule replays_commit)
  then show ?case using ih(2) snap_ok_new [of sha ed_verify ghash b "next" c'] snap_ok_commit [of sha ed_verify ghash c' b "next"]
    unfolding d by metis
qed simp

lemma openLoop_snapshot:
  assumes g: "GenesisState g = Inr s0" and full: "openLoop sha ed_verify ghash None bs (emptyChain g s0) = Inr d"
    and sn: "snap_at sha ed_verify ghash g bs sn h" and n: "length bs < 2 ^ 64"
    and ht: "\<And>i. i < length bs \<Longrightarrow> hHeight (bHeader (bs ! i)) = of_nat (i + 1)"
    and c: "same_chain (emptyChain g s0) c"
  obtains e where "openLoop sha ed_verify ghash (Some sn) bs c = Inr e" "same_chain d e"
    "chSnapshot e = chSnapshot c \<or> snap_ok sha ed_verify ghash e"
proof -
  have h: "0 < h" "h \<le> length bs" "snHeight sn = of_nat h" using sn by (simp_all add: snap_at_def)
  obtain dh where dh: "openLoop sha ed_verify ghash None (take h bs) (emptyChain g s0) = Inr dh"
    and st: "same_ledger (snState sn) (chState dh)" using sn g by (auto simp: snap_at_def)
  have lt: "(of_nat a :: 64 word) < of_nat b \<longleftrightarrow> a < b" if "a \<le> length bs" "b \<le> length bs" for a b
    using that n unat_of_nat64 [of a] unat_of_nat64 [of b] by (simp add: word_less_nat_alt)
  let ?bh = "bs ! (h - Suc 0)"
  have parts: "bs = take (h - 1) bs @ ?bh # drop h bs"
    using h id_take_nth_drop [of "h - 1" bs] by simp
  have before: "\<forall>b\<in>set (take (h - 1) bs). hHeight (bHeader b) < snHeight sn"
  proof
    fix b assume "b \<in> set (take (h - 1) bs)"
    then obtain i where i: "i < h - 1" "i < length bs" "b = bs ! i" by (auto simp: in_set_conv_nth)
    then show "hHeight (bHeader b) < snHeight sn" using ht [OF i(2)] lt [of "i + 1" h] h by simp
  qed
  have after: "\<forall>b\<in>set (drop h bs). hHeight (bHeader b) > snHeight sn"
  proof
    fix b assume "b \<in> set (drop h bs)"
    then obtain i where "i < length bs - h" "b = drop h bs ! i" by (metis in_set_conv_nth length_drop)
    then have i: "h + i < length bs" "b = bs ! (h + i)" using h(2) by simp_all
    then show "hHeight (bHeader b) > snHeight sn" using ht [OF i(1)] lt [of h "h + i + 1"] h by simp
  qed
  have hh: "hHeight (bHeader ?bh) = snHeight sn" using ht [of "h - 1"] h by simp
  obtain c1 where c1: "openLoop sha ed_verify ghash (Some sn) (take (h - 1) bs @ ?bh # drop h bs) c =
      openLoop sha ed_verify ghash (Some sn) (?bh # drop h bs) c1"
    "chGenesis c1 = chGenesis c" "chBlocks c1 = chBlocks c @ take (h - 1) bs" "chSnapshot c1 = chSnapshot c"
    using openLoop_skip [OF before] by blast
  define c2 where "c2 = (indexBlock sha ?bh (c1\<lparr>chBlocks := chBlocks c1 @ [?bh]\<rparr>))\<lparr>chState := snState sn, chReplayedFrom := snHeight sn\<rparr>"
  have o: "openLoop sha ed_verify ghash (Some sn) bs c = openLoop sha ed_verify ghash None (drop h bs) c2"
    by (subst parts, subst c1(1)) (simp add: hh c2_def Let_def openLoop_after [OF after])
  have e: "chGenesis c = g" "chBlocks c = []" using c by (simp_all add: same_chain_def emptyChain_def)
  have "chBlocks c2 = take h bs" using h(1,2) take_Suc_conv_app_nth [of "h - 1" bs] by (simp add: c2_def c1(3) e)
  moreover have "heights_ok (emptyChain g s0)" by (simp add: heights_ok_def emptyChain_def)
  from openLoop_heights [OF dh this] have dh_blocks: "chBlocks dh = take h bs" "chGenesis dh = g" by (simp_all add: emptyChain_def)
  ultimately have s2: "same_chain dh c2"
    using st by (simp add: same_chain_def c2_def c1(2) e same_ledger_sym)
  have "openLoop sha ed_verify ghash None (drop h bs) dh = Inr d"
    using full openLoop_split [of sha ed_verify ghash "take h bs" "drop h bs" "emptyChain g s0"] dh by simp
  then obtain e where e: "openLoop sha ed_verify ghash None (drop h bs) c2 = Inr e" "same_chain d e"
    using openLoop_same [OF _ s2] by blast
  have "replays sha ed_verify ghash dh"
    using g dh dh_blocks by (simp add: replays_def)
  then have "replays sha ed_verify ghash c2" using s2 by (rule replays_same)
  moreover have "chSnapshot c2 = chSnapshot c" by (simp add: c2_def c1(4))
  ultimately have "chSnapshot e = chSnapshot c \<or> snap_ok sha ed_verify ghash e" using openLoop_snap [OF e(1)] by simp
  then show thesis using that e unfolding o by blast
qed

text \<open>Opening with any snapshot file that is a snapshot of these blocks, or none.\<close>

lemma OpenChain_file:
  assumes r: "replays sha ed_verify ghash c" and n: "file \<noteq> None \<Longrightarrow> length (chBlocks c) < 2 ^ 64"
    and fsn: "\<And>sn. file = Some sn \<Longrightarrow> \<exists>h. snap_at sha ed_verify ghash (chGenesis c) (chBlocks c) sn h"
  obtains d where "OpenChain sha ed_verify ghash (chGenesis c) file (chBlocks c) = Inr d" "same_chain c d"
    "snap_ok sha ed_verify ghash d"
proof -
  let ?g = "chGenesis c"
  obtain s0 d where g: "GenesisState ?g = Inr s0"
    and full: "openLoop sha ed_verify ghash None (chBlocks c) (emptyChain ?g s0) = Inr d" and s: "same_chain c d"
    using r by (auto simp: replays_def)
  let ?c0 = "(emptyChain ?g s0)\<lparr>chSnapshot := file\<rparr>"
  have c0: "same_chain (emptyChain ?g s0) ?c0" by (simp add: same_chain_def)
  have snap: "snap_ok sha ed_verify ghash e" if "same_chain d e" "chSnapshot e = file \<or> snap_ok sha ed_verify ghash e" for e
    using that fsn same_chain_trans [OF s that(1)] by (cases "file") (auto simp: snap_ok_def same_chain_def)
  show thesis
  proof (cases "case loadSnapshot sha file (chBlocks c) of Inl _ \<Rightarrow> None | Inr sn \<Rightarrow> sn")
    case None
    obtain e where e: "openLoop sha ed_verify ghash None (chBlocks c) ?c0 = Inr e" "same_chain d e"
      using openLoop_same [OF full c0] .
    have "chSnapshot e = file \<or> snap_ok sha ed_verify ghash e"
      using openLoop_snap [OF e(1) replays_same [OF replays_empty [OF g] c0]] by simp
    then show ?thesis
      using that [of e] e None g same_chain_trans [OF s e(2)] snap [OF e(2)] by (simp add: OpenChain_def)
  next
    case (Some sn)
    then have cs: "file = Some sn"
      by (auto simp: loadSnapshot_def Let_def split: option.splits sum.splits if_splits)
    obtain h where h: "snap_at sha ed_verify ghash ?g (chBlocks c) sn h" using fsn [OF cs] by blast
    have ht: "hHeight (bHeader (chBlocks c ! i)) = of_nat (i + 1)" if "i < length (chBlocks c)" for i
      using replays_heights [OF r] that by (simp add: heights_ok_def)
    obtain e where e: "openLoop sha ed_verify ghash (Some sn) (chBlocks c) ?c0 = Inr e" "same_chain d e"
      "chSnapshot e = chSnapshot ?c0 \<or> snap_ok sha ed_verify ghash e"
      using openLoop_snapshot [OF g full h n ht c0] cs by blast
    then show ?thesis
      using that [of e] Some g same_chain_trans [OF s e(2)] snap [OF e(2)] by (simp add: OpenChain_def)
  qed
qed

subsection \<open>A small chain to evaluate on\<close>

definition demo_verify :: "bytes \<Rightarrow> bytes \<Rightarrow> bytes \<Rightarrow> bool" where "demo_verify k m s \<longleftrightarrow> True"

definition demo_ghash :: "Genesis \<Rightarrow> hash" where "demo_ghash g = []"

definition demo_s0 :: State where "demo_s0 = projr (GenesisState demo_genesis)"

definition demo_c0 :: Chain where "demo_c0 = emptyChain demo_genesis demo_s0"

definition demo_stx :: Tx where "demo_stx = demo_tx\<lparr>txSig := replicate 64 (CHR ''s'')\<rparr>"

definition demo_next :: State where "demo_next = projr (Apply demo_sha (demo_s0\<lparr>stNow := 1000\<rparr>) demo_stx)"

lemma demo_s0: "GenesisState demo_genesis = Inr demo_s0"
proof -
  have "\<not> isl (GenesisState demo_genesis)" by code_simp
  then show ?thesis by (simp add: demo_s0_def)
qed

lemma demo_runTx: "runTx demo_sha demo_verify ''demo'' (demo_s0\<lparr>stNow := 1000\<rparr>) demo_stx = Inr demo_next"
proof -
  have "txChainID demo_stx = ''demo''" "Validate (txFrom demo_stx) = None" "length (txMemo demo_stx) = 0"
    "ValidAsset (txAsset demo_stx)" "checkBody demo_stx = None" "\<not> isl (PubKey (txFrom demo_stx))"
    "length (txSig demo_stx) = 64" by code_simp+
  then have "CheckStateless demo_verify ''demo'' demo_stx = None"
    by (auto simp: CheckStateless_def demo_verify_def split: sum.split)
  moreover have "\<not> isl (Apply demo_sha (demo_s0\<lparr>stNow := 1000\<rparr>) demo_stx)" by code_simp
  ultimately show ?thesis by (simp add: runTx_def demo_next_def)
qed

lemma demo_decided:
  obtains b where "ExecuteDecided demo_sha demo_verify demo_ghash demo_c0 1 1000 '''' [None, Some demo_stx] =
      Inr (b, demo_next, [Some (Err ''malformed transaction''), None])"
    "bTxs b = [demo_stx]" "hHeight (bHeader b) = 1" "hTime (bHeader b) = 1000"
proof -
  have "stPools demo_next = fmempty" by code_simp
  then obtain r where r: "Root demo_sha demo_next = Inr r" using Root_defined [of demo_sha demo_next] by auto
  have t: "tiTime (tipLocked demo_sha demo_ghash demo_c0) = 1" "chState demo_c0 = demo_s0" "gnChainID (chGenesis demo_c0) = ''demo''"
    by (simp_all add: demo_c0_def emptyChain_def tipLocked_def demo_genesis_def)
  show thesis
    by (rule that [of "newBlock demo_sha ''demo'' 1 (tiHash (tipLocked demo_sha demo_ghash demo_c0)) 1000 r '''' [demo_stx]"])
      (simp_all add: ExecuteDecided_def Let_def t r execOne_def demo_runTx newBlock_def)
qed

text \<open>The chain after that block.\<close>

definition demo_chain :: "Block \<Rightarrow> Chain" where
  "demo_chain b = commit demo_sha b demo_next demo_c0"

definition demo_sign :: "unit \<Rightarrow> bytes \<Rightarrow> bytes" where "demo_sign k m = []"
definition demo_pub :: "unit \<Rightarrow> bytes" where "demo_pub k = []"

lemma demo_run:
  obtains b where "node_run demo_sha demo_verify demo_sign demo_pub demo_ghash (emptyChain demo_genesis demo_s0) (demo_chain b)"
    "chBlocks (demo_chain b) = [b]" "bTxs b = [demo_stx]" "hHeight (bHeader b) = 1" "hTime (bHeader b) = 1000"
proof -
  obtain b where b: "ExecuteDecided demo_sha demo_verify demo_ghash demo_c0 1 1000 '''' [None, Some demo_stx] =
      Inr (b, demo_next, [Some (Err ''malformed transaction''), None])"
    "bTxs b = [demo_stx]" "hHeight (bHeader b) = 1" "hTime (bHeader b) = 1000" using demo_decided .
  have "BFT (chGenesis demo_c0)" by (simp add: demo_c0_def emptyChain_def demo_genesis_def BFT_def)
  from node_step.decided [OF this same_chain_refl b(1), of demo_sign demo_pub None]
  have "node_step demo_sha demo_verify demo_sign demo_pub demo_ghash demo_c0 (demo_chain b)"
    using b(3) by (simp add: CommitDecided_def demo_chain_def demo_c0_def emptyChain_def)
  then show thesis
    by (intro that [of b]) (simp_all add: b node_run_def demo_c0_def [symmetric] r_into_rtranclp, simp add: demo_chain_def demo_c0_def emptyChain_def)
qed

subsection \<open>Properties\<close>

text \<open>
  Decided blocks verify. A block executed for CometBFT at the next height, however many of its
  transactions were malformed or rejected, passes the verification replay and syncing run, with
  the same resulting state, and its error list has one entry per decided transaction.
\<close>

theorem decided_block_verifies:
  assumes "BFT (chGenesis c)" and "height = tiHeight (tipLocked sha ghash c) + 1"
    and "ExecuteDecided sha ed_verify ghash c height timeMs proposer txs = Inr (b, next, errs)"
  shows "verify sha ed_verify ghash c b = Inr next \<and> length errs = length txs \<and> set (bTxs b) \<subseteq> {tx. Some tx \<in> set txs}"
proof -
  obtain oks r where f: "fold (execOne sha ed_verify (gnChainID (chGenesis c))) txs
      ((chState c)\<lparr>stNow := max timeMs (tiTime (tipLocked sha ghash c))\<rparr>, [], []) = (next, oks, errs)" and b: "bTxs b = oks"
    using assms(3) by (auto simp: ExecuteDecided_def Let_def newBlock_def split: prod.splits sum.splits)
  show ?thesis using execOne_ok [OF f] ExecuteDecided_verifies [OF assms] b by simp
qed

theorem decided_block_verifies_witness:
  "\<exists>b. bTxs b = [demo_stx] \<and> verify demo_sha demo_verify demo_ghash demo_c0 b = Inr demo_next"
proof -
  obtain b where b: "ExecuteDecided demo_sha demo_verify demo_ghash demo_c0 1 1000 '''' [None, Some demo_stx] =
      Inr (b, demo_next, [Some (Err ''malformed transaction''), None])" "bTxs b = [demo_stx]" using demo_decided .
  have "BFT (chGenesis demo_c0)" "1 = tiHeight (tipLocked demo_sha demo_ghash demo_c0) + 1"
    by (simp_all add: demo_c0_def emptyChain_def demo_genesis_def BFT_def tipLocked_def)
  from decided_block_verifies [OF this b(1)] b(2) show ?thesis by blast
qed

text \<open>
  C4: lookups. In any state of a node with fewer than \<open>2^64\<close> blocks, every transaction of every
  committed block is found by its id, the answer has that id and a location, and no history query
  reads outside the blocks.
\<close>

theorem committed_tx_found:
  assumes "GenesisState g = Inr s0" and "node_run sha ed_verify ed_sign ed_pub ghash (emptyChain g s0) c"
    and "length (chBlocks c) < 2 ^ 64" and "b \<in> set (chBlocks c)" and "tx \<in> set (bTxs b)"
  shows "(\<exists>tx' l. LookupTx c (ID sha tx) = Some (tx', Some l) \<and> ID sha tx' = ID sha tx) \<and>
    None \<notin> set (History sha c a limit) \<and> None \<notin> set (PoolHistory sha c i) \<and> None \<notin> set (EscrowHistory sha c i)"
proof -
  have ok: "index_ok sha c" using node_run_index [OF assms(1,2,3)] .
  obtain l where l: "fmlookup (chTxIndex c) (ID sha tx) = Some l" using ok assms(4,5) by (fastforce simp: index_ok_def)
  obtain tx' where tx': "txAt c l = Some tx'" "ID sha tx' = ID sha tx" using ok l by (fastforce simp: index_ok_def)
  have lo: "locs_ok c (chByAddr c)" "locs_ok c (chByPool c)" "locs_ok c (chByEscrow c)"
    using ok by (simp_all add: index_ok_def)
  have "set (take (nat limit) (rev (getd [] (chByAddr c) a))) \<subseteq> set (getd [] (chByAddr c) a)"
    by (metis set_rev set_take_subset)
  then have "None \<notin> set (History sha c a limit)" unfolding History_def by (rule locs_ok_entries [OF lo(1)])
  moreover have "None \<notin> set (PoolHistory sha c i)" unfolding PoolHistory_def by (rule locs_ok_entries [OF lo(2) subset_refl])
  moreover have "None \<notin> set (EscrowHistory sha c i)" unfolding EscrowHistory_def by (rule locs_ok_entries [OF lo(3) subset_refl])
  ultimately show ?thesis using l tx' by (simp add: LookupTx_def)
qed

theorem committed_tx_found_witness: "\<exists>b tx' l. LookupTx (demo_chain b) (ID demo_sha demo_stx) = Some (tx', Some l)"
proof -
  obtain b where b: "node_run demo_sha demo_verify demo_sign demo_pub demo_ghash (emptyChain demo_genesis demo_s0) (demo_chain b)"
    "chBlocks (demo_chain b) = [b]" "bTxs b = [demo_stx]" by (rule demo_run)
  have "length (chBlocks (demo_chain b)) < 2 ^ 64" "b \<in> set (chBlocks (demo_chain b))" "demo_stx \<in> set (bTxs b)"
    using b(2,3) by simp_all
  from committed_tx_found [OF demo_s0 b(1) this] show ?thesis by blast
qed

text \<open>
  The node's books. At any point of a node's life, with sane block times, what accounts, pools
  and escrows hold of each asset equals the supply counter (modulo \<open>2^64\<close>), and pools, escrows
  and recovery setups are well formed.
\<close>

theorem node_books_balance:
  assumes "GenesisState g = Inr s0" and "node_run sha ed_verify ed_sign ed_pub ghash (emptyChain g s0) c"
    and "sane_time (gnTime g)" and "\<forall>b\<in>set (chBlocks c). hTime (bHeader b) < 2 ^ 62"
  shows "(\<forall>k. total (chState c) k = supplyOf (chState c) k) \<and> wf_pools (chState c) \<and> wf_escrows (chState c)"
proof -
  have r: "replays sha ed_verify ghash c" "chGenesis c = g" using node_run_replays [OF assms(1,2)] by simp_all
  let ?t = "tiTime (tipLocked sha ghash c)"
  have "chain_wf sha ghash c" using replays_wf [OF r(1)] assms(3,4) r(2) by simp
  then have w: "wf_state ((chState c)\<lparr>stNow := ?t\<rparr>)" by (simp add: chain_wf_def)
  have "total ((chState c)\<lparr>stNow := ?t\<rparr>) k = total (chState c) k" "supplyOf ((chState c)\<lparr>stNow := ?t\<rparr>) k = supplyOf (chState c) k" for k
    by (simp_all add: total_def acctTotal_def poolsTotal_def escrowsTotal_def supplyOf_def)
  then show ?thesis using w by (simp add: wf_state_def conserved_def wf_pools_def wf_escrows_def)
qed

theorem node_books_balance_witness: "\<exists>b. bTxs b = [demo_stx] \<and> total (chState (demo_chain b)) '''' = supplyOf (chState (demo_chain b)) ''''"
proof -
  obtain b where b: "node_run demo_sha demo_verify demo_sign demo_pub demo_ghash (emptyChain demo_genesis demo_s0) (demo_chain b)"
    "chBlocks (demo_chain b) = [b]" "bTxs b = [demo_stx]" "hTime (bHeader b) = 1000" by (rule demo_run)
  have "sane_time (gnTime demo_genesis)" "\<forall>x\<in>set (chBlocks (demo_chain b)). hTime (bHeader x) < 2 ^ 62"
    using b(2,4) by (simp_all add: demo_genesis_def sane_time_def)
  from node_books_balance [OF demo_s0 b(1) this] b(3) show ?thesis by blast
qed

end
