(* ===== verification/Block_Log.thy ===== *)
theory Block_Log
  imports Chain_Properties
begin

text \<open>
  The block log: node/chain/store.go, an append-only file with one JSON block per line. Opening
  reads complete lines, drops a torn last line and truncates the file there; appending writes one
  line and syncs it.

  The file is its bytes. \<open>encoding/json\<close> on blocks is the pair \<open>marshal\<close>, \<open>unmarshal\<close>; what the
  code relies on is \<open>json_lines\<close>: a marshalled block contains no newline, and unmarshalling it
  with its newline gives the block back. Reading and truncating the
  file are taken not to fail.
\<close>

subsection \<open>The log\<close>

definition NL :: char where "NL = CHR 0x0A"

text \<open>\<open>bufio.Reader.ReadBytes\<close> up to and with the newline; \<open>None\<close> when the file ends first.\<close>

definition readLine :: "bytes \<Rightarrow> (bytes \<times> bytes) option" where
  "readLine f =
     (if NL \<in> set f then Some (takeWhile (\<lambda>c. c \<noteq> NL) f @ [NL], tl (dropWhile (\<lambda>c. c \<noteq> NL) f)) else None)"

lemma readLine_shorter: "readLine f = Some (line, rest) \<Longrightarrow> length rest < length f"
proof -
  assume r: "readLine f = Some (line, rest)"
  then have nl: "NL \<in> set f" and rest: "rest = tl (dropWhile (\<lambda>c. c \<noteq> NL) f)" by (auto simp: readLine_def split: if_splits)
  from nl have "dropWhile (\<lambda>c. c \<noteq> NL) f \<noteq> []" by (simp add: dropWhile_eq_Nil_conv)
  then have "length rest < length (dropWhile (\<lambda>c. c \<noteq> NL) f)" by (simp add: rest)
  also have "\<dots> \<le> length f" by (rule length_dropWhile_le)
  finally show ?thesis .
qed

text \<open>The read loop: blocks read, bytes of good lines; \<open>good\<close> counts them, as the offset of errors does.\<close>

function readLoop :: "(bytes \<Rightarrow> 'b option) \<Rightarrow> bytes \<Rightarrow> 'b list \<Rightarrow> nat \<Rightarrow> err + 'b list \<times> nat" where
  "readLoop unmarshal f blocks good =
     (case readLine f of
        None \<Rightarrow> Inr (blocks, good)
      | Some (line, rest) \<Rightarrow>
        (case unmarshal line of
           None \<Rightarrow> Inl (Err ''blocklog corrupt'')
         | Some b \<Rightarrow> readLoop unmarshal rest (blocks @ [b]) (good + length line)))"
  by pat_completeness auto

termination by (relation "measure (\<lambda>(u, f, b, g). length f)") (auto dest: readLine_shorter)

declare readLoop.simps [simp del]

text \<open>\<open>openBlockLog\<close>: the blocks, and the file truncated after the last good line.\<close>

definition openBlockLog :: "(bytes \<Rightarrow> 'b option) \<Rightarrow> bytes \<Rightarrow> err + 'b list \<times> bytes" where
  "openBlockLog unmarshal f =
     (case readLoop unmarshal f [] 0 of Inl e \<Rightarrow> Inl e
      | Inr (blocks, good) \<Rightarrow> Inr (blocks, take good f))"

text \<open>\<open>append\<close>, when the write and the sync succeed; a write cut short leaves a prefix of the line.\<close>

definition appendLog :: "('b \<Rightarrow> bytes) \<Rightarrow> 'b \<Rightarrow> bytes \<Rightarrow> bytes" where
  "appendLog marshal b f = f @ marshal b @ [NL]"

definition tornAppend :: "('b \<Rightarrow> bytes) \<Rightarrow> nat \<Rightarrow> 'b \<Rightarrow> bytes \<Rightarrow> bytes" where
  "tornAppend marshal k b f = f @ take k (marshal b @ [NL])"

subsection \<open>Reading back what was written\<close>

definition json_lines :: "('b \<Rightarrow> bytes) \<Rightarrow> (bytes \<Rightarrow> 'b option) \<Rightarrow> 'b set \<Rightarrow> bool" where
  "json_lines marshal unmarshal B \<longleftrightarrow> (\<forall>b\<in>B. NL \<notin> set (marshal b) \<and> unmarshal (marshal b @ [NL]) = Some b)"

definition logOf :: "('b \<Rightarrow> bytes) \<Rightarrow> 'b list \<Rightarrow> bytes" where
  "logOf marshal bs = concat (map (\<lambda>b. marshal b @ [NL]) bs)"

lemma readLine_append: "NL \<notin> set l \<Longrightarrow> readLine (l @ NL # rest) = Some (l @ [NL], rest)"
proof -
  assume "NL \<notin> set l"
  then have "takeWhile (\<lambda>c. c \<noteq> NL) (l @ NL # rest) = l" "dropWhile (\<lambda>c. c \<noteq> NL) (l @ NL # rest) = NL # rest"
    by (induction l) auto
  then show ?thesis by (simp add: readLine_def)
qed

lemma readLoop_log:
  "json_lines marshal unmarshal (set bs) \<Longrightarrow> NL \<notin> set torn \<Longrightarrow>
   readLoop unmarshal (logOf marshal bs @ torn) acc good = Inr (acc @ bs, good + length (logOf marshal bs))"
proof (induction bs arbitrary: acc good)
  case Nil
  then show ?case by (simp add: readLoop.simps [of _ torn] logOf_def readLine_def)
next
  case (Cons b bs)
  have b: "NL \<notin> set (marshal b)" "unmarshal (marshal b @ [NL]) = Some b" and bs: "json_lines marshal unmarshal (set bs)"
    using Cons.prems(1) by (simp_all add: json_lines_def)
  have f: "logOf marshal (b # bs) @ torn = marshal b @ NL # (logOf marshal bs @ torn)" by (simp add: logOf_def)
  have "readLoop unmarshal (logOf marshal (b # bs) @ torn) acc good =
      readLoop unmarshal (logOf marshal bs @ torn) (acc @ [b]) (good + length (marshal b @ [NL]))"
    unfolding f by (subst readLoop.simps) (simp add: readLine_append b)
  also have "\<dots> = Inr (acc @ b # bs, good + length (logOf marshal (b # bs)))"
    using Cons.IH [OF bs Cons.prems(2), of "acc @ [b]"] by (simp add: logOf_def)
  finally show ?case .
qed

lemma open_log:
  "json_lines marshal unmarshal (set bs) \<Longrightarrow> NL \<notin> set torn \<Longrightarrow>
   openBlockLog unmarshal (logOf marshal bs @ torn) = Inr (bs, logOf marshal bs)"
  using readLoop_log [of marshal unmarshal bs torn "[]" 0] by (simp add: openBlockLog_def)

lemma append_log: "appendLog marshal b (logOf marshal bs) = logOf marshal (bs @ [b])"
  by (simp add: appendLog_def logOf_def)

text \<open>A crash while appending leaves all of the line or a torn one.\<close>

lemma torn_log:
  assumes "json_lines marshal unmarshal (insert b (set bs))"
  shows "openBlockLog unmarshal (tornAppend marshal k b (logOf marshal bs)) =
     (if k \<le> length (marshal b) then Inr (bs, logOf marshal bs) else Inr (bs @ [b], logOf marshal (bs @ [b])))"
proof (cases "k \<le> length (marshal b)")
  case True
  then have "NL \<notin> set (take k (marshal b @ [NL]))" "json_lines marshal unmarshal (set bs)"
    using assms by (auto simp: json_lines_def dest: in_set_takeD)
  with open_log [OF this(2,1)] True show ?thesis by (simp add: tornAppend_def)
next
  case False
  then have "tornAppend marshal k b (logOf marshal bs) = logOf marshal (bs @ [b]) @ []"
    by (simp add: tornAppend_def logOf_def)
  with open_log [of marshal unmarshal "bs @ [b]" "[]"] assms False show ?thesis by simp
qed

subsection \<open>Properties\<close>

text \<open>
  The log round trip. Opening a log written by any sequence of appends gives back exactly the
  blocks appended, in order, and leaves the file as it is.
\<close>

theorem log_roundtrip:
  assumes "json_lines marshal unmarshal (set bs)"
  shows "openBlockLog unmarshal (fold (appendLog marshal) bs []) = Inr (bs, fold (appendLog marshal) bs [])"
proof -
  have "fold (appendLog marshal) bs (logOf marshal as) = logOf marshal (as @ bs)" for as
    by (induction bs arbitrary: as) (simp_all add: append_log)
  from this [of "[]"] have "fold (appendLog marshal) bs [] = logOf marshal bs @ []" by (simp add: logOf_def)
  with open_log [OF assms, of "[]"] show ?thesis by simp
qed

definition toy_marshal :: "bool \<Rightarrow> bytes" where
  "toy_marshal b = (if b then ''t'' else ''f'')"

definition toy_unmarshal :: "bytes \<Rightarrow> bool option" where
  "toy_unmarshal x = (if x = ''t'' @ [NL] then Some True else if x = ''f'' @ [NL] then Some False else None)"

lemma toy_json: "json_lines toy_marshal toy_unmarshal B"
  by (simp add: json_lines_def toy_marshal_def toy_unmarshal_def NL_def)

theorem log_roundtrip_witness:
  "openBlockLog toy_unmarshal (''t'' @ [NL] @ ''f'' @ [NL]) = Inr ([True, False], ''t'' @ [NL] @ ''f'' @ [NL])"
  using log_roundtrip [OF toy_json, of "[True, False]"] by (simp add: appendLog_def toy_marshal_def)



end
