(* ===== verification/Node_Disk.thy ===== *)
theory Node_Disk
  imports Block_Log
begin

text \<open>
  The node together with its files: node/chain/chain.go over store.go. Every operation that
  commits a block first appends it to the block log. An append can fail after any number of bytes
  (a short write), or after all of them (the sync): the bytes stay in the file, the error goes to
  the caller, and the chain in memory is left as it was. Writing the snapshot can fail as well,
  which leaves the old one.

  What reopening the files gives is stated for a node that, after a failed append, appends nothing
  until it is restarted. The code does not stop by itself: the last theorem shows what a second
  append then does to the log.
\<close>

subsection \<open>Operations with their writes\<close>

record Node =
  ndChain :: Chain
  ndLog :: bytes
  ndFailed :: bool

text \<open>
  \<open>append\<close>, errors included: \<open>Some (k, e)\<close> is a write or sync that fails with \<open>e\<close> after \<open>k\<close> bytes of
  the line. \<open>ndFailed\<close> records that an append has failed since the log was opened.
\<close>

type_synonym fault = "(nat \<times> err) option"

definition appendBlock :: "('b \<Rightarrow> bytes) \<Rightarrow> fault \<Rightarrow> 'b \<Rightarrow> bytes \<Rightarrow> bytes \<times> err option" where
  "appendBlock marshal fault b f =
     (case fault of None \<Rightarrow> (appendLog marshal b f, None)
      | Some (k, e) \<Rightarrow> (tornAppend marshal k b f, Some e))"

text \<open>An operation that appends \<open>b\<close>: \<open>res\<close> gives the chain for each outcome of the append; \<open>lost\<close>
  says that the snapshot, if one was due, could not be written.\<close>

definition logged :: "(Block \<Rightarrow> bytes) \<Rightarrow> fault \<Rightarrow> bool \<Rightarrow> Block \<Rightarrow> (err option \<Rightarrow> Chain) \<Rightarrow> Node \<Rightarrow> Node" where
  "logged marshal fault lost b res n =
     (let (f, e) = appendBlock marshal fault b (ndLog n);
          c = (if lost then (res e)\<lparr>chSnapshot := chSnapshot (ndChain n)\<rparr> else res e)
      in \<lparr>ndChain = c, ndLog = f, ndFailed = (ndFailed n \<or> e \<noteq> None)\<rparr>)"

definition addBlockOn :: "(bytes \<Rightarrow> hash) \<Rightarrow> (bytes \<Rightarrow> bytes \<Rightarrow> bytes \<Rightarrow> bool) \<Rightarrow> (Genesis \<Rightarrow> hash) \<Rightarrow> (Block \<Rightarrow> bytes) \<Rightarrow>
    fault \<Rightarrow> bool \<Rightarrow> Block \<Rightarrow> Node \<Rightarrow> Node" where
  "addBlockOn sha ed_verify ghash marshal fault lost b n =
     (case AddBlock sha ed_verify ghash None (ndChain n) b of
        (c, Some _) \<Rightarrow> n\<lparr>ndChain := c\<rparr>
      | (_, None) \<Rightarrow> logged marshal fault lost b (\<lambda>e. fst (AddBlock sha ed_verify ghash e (ndChain n) b)) n)"

definition produceOn :: "(bytes \<Rightarrow> hash) \<Rightarrow> (bytes \<Rightarrow> bytes \<Rightarrow> bytes \<Rightarrow> bool) \<Rightarrow> ('k \<Rightarrow> bytes \<Rightarrow> bytes) \<Rightarrow> ('k \<Rightarrow> bytes) \<Rightarrow>
    (Genesis \<Rightarrow> hash) \<Rightarrow> (Block \<Rightarrow> bytes) \<Rightarrow> fault \<Rightarrow> bool \<Rightarrow> int \<Rightarrow> 'k \<Rightarrow> int \<Rightarrow> Node \<Rightarrow> Node" where
  "produceOn sha ed_verify ed_sign ed_pub ghash marshal fault lost now key nowMs n =
     (case Produce sha ed_verify ed_sign ed_pub ghash None now key nowMs (ndChain n) of
        (_, Inr (Some b)) \<Rightarrow>
          logged marshal fault lost b (\<lambda>e. fst (Produce sha ed_verify ed_sign ed_pub ghash e now key nowMs (ndChain n))) n
      | (c, _) \<Rightarrow> n\<lparr>ndChain := c\<rparr>)"

definition commitDecidedOn :: "(bytes \<Rightarrow> hash) \<Rightarrow> (Block \<Rightarrow> bytes) \<Rightarrow> fault \<Rightarrow> bool \<Rightarrow> Block \<Rightarrow> State \<Rightarrow> Node \<Rightarrow> Node" where
  "commitDecidedOn sha marshal fault lost b next n =
     (case CommitDecided sha None b next (ndChain n) of
        (c, Some _) \<Rightarrow> n\<lparr>ndChain := c\<rparr>
      | (_, None) \<Rightarrow> logged marshal fault lost b (\<lambda>e. fst (CommitDecided sha e b next (ndChain n))) n)"

text \<open>\<open>Open\<close>: the genesis state, the log (truncated after its last good line), then the replay.\<close>

definition OpenFiles :: "(bytes \<Rightarrow> hash) \<Rightarrow> (bytes \<Rightarrow> bytes \<Rightarrow> bytes \<Rightarrow> bool) \<Rightarrow> (Genesis \<Rightarrow> hash) \<Rightarrow> (bytes \<Rightarrow> Block option) \<Rightarrow>
    Genesis \<Rightarrow> Snapshot option \<Rightarrow> bytes \<Rightarrow> bytes \<times> (err + Chain)" where
  "OpenFiles sha ed_verify ghash unmarshal g file f =
     (case GenesisState g of Inl e \<Rightarrow> (f, Inl e)
      | Inr _ \<Rightarrow> (case openBlockLog unmarshal f of Inl e \<Rightarrow> (f, Inl e)
      | Inr (stored, f') \<Rightarrow> (f', OpenChain sha ed_verify ghash g file stored)))"

definition freshNode :: "Genesis \<Rightarrow> State \<Rightarrow> Node" where
  "freshNode g s0 = \<lparr>ndChain = emptyChain g s0, ndLog = [], ndFailed = False\<rparr>"

subsection \<open>The life of a node\<close>

text \<open>After a failed append only steps that leave the file alone are taken, until a restart.\<close>

definition stops :: "Node \<Rightarrow> Node \<Rightarrow> bool" where
  "stops n m \<longleftrightarrow> (ndFailed n \<longrightarrow> ndLog m = ndLog n)"

inductive disk_step :: "(bytes \<Rightarrow> hash) \<Rightarrow> (bytes \<Rightarrow> bytes \<Rightarrow> bytes \<Rightarrow> bool) \<Rightarrow> ('k \<Rightarrow> bytes \<Rightarrow> bytes) \<Rightarrow> ('k \<Rightarrow> bytes) \<Rightarrow>
    (Genesis \<Rightarrow> hash) \<Rightarrow> (Block \<Rightarrow> bytes) \<Rightarrow> (bytes \<Rightarrow> Block option) \<Rightarrow> Node \<Rightarrow> Node \<Rightarrow> bool"
  for sha ed_verify ed_sign ed_pub ghash marshal unmarshal where
  submit: "disk_step sha ed_verify ed_sign ed_pub ghash marshal unmarshal n
    (n\<lparr>ndChain := fst (Submit sha ed_verify ghash clock (ndChain n) tx)\<rparr>)"
| checkPending: "disk_step sha ed_verify ed_sign ed_pub ghash marshal unmarshal n
    (n\<lparr>ndChain := fst (CheckPending sha ed_verify ghash clock (ndChain n) tx)\<rparr>)"
| forget: "disk_step sha ed_verify ed_sign ed_pub ghash marshal unmarshal n (n\<lparr>ndChain := Forget tid (ndChain n)\<rparr>)"
| produce: "m = produceOn sha ed_verify ed_sign ed_pub ghash marshal fault lost now key nowMs n \<Longrightarrow> stops n m \<Longrightarrow>
    (\<forall>c b. Produce sha ed_verify ed_sign ed_pub ghash None now key nowMs (ndChain n) = (c, Inr (Some b)) \<longrightarrow>
       json_lines marshal unmarshal {b}) \<Longrightarrow>
    disk_step sha ed_verify ed_sign ed_pub ghash marshal unmarshal n m"
| addBlock: "m = addBlockOn sha ed_verify ghash marshal fault lost b n \<Longrightarrow> stops n m \<Longrightarrow> json_lines marshal unmarshal {b} \<Longrightarrow>
    disk_step sha ed_verify ed_sign ed_pub ghash marshal unmarshal n m"
| decided: "BFT (chGenesis c0) \<Longrightarrow> same_chain c0 (ndChain n) \<Longrightarrow>
    ExecuteDecided sha ed_verify ghash c0 height timeMs proposer txs = Inr (b, next, errs) \<Longrightarrow>
    m = commitDecidedOn sha marshal fault lost b next n \<Longrightarrow> stops n m \<Longrightarrow> json_lines marshal unmarshal {b} \<Longrightarrow>
    disk_step sha ed_verify ed_sign ed_pub ghash marshal unmarshal n m"
| reopen: "file = None \<or> file = chSnapshot (ndChain n) \<and> length (chBlocks (ndChain n)) + 1 < 2 ^ 64 \<Longrightarrow>
    OpenFiles sha ed_verify ghash unmarshal (chGenesis (ndChain n)) file (ndLog n) = (f, Inr c) \<Longrightarrow>
    disk_step sha ed_verify ed_sign ed_pub ghash marshal unmarshal n \<lparr>ndChain = c, ndLog = f, ndFailed = False\<rparr>"

definition disk_run :: "(bytes \<Rightarrow> hash) \<Rightarrow> (bytes \<Rightarrow> bytes \<Rightarrow> bytes \<Rightarrow> bool) \<Rightarrow> ('k \<Rightarrow> bytes \<Rightarrow> bytes) \<Rightarrow> ('k \<Rightarrow> bytes) \<Rightarrow>
    (Genesis \<Rightarrow> hash) \<Rightarrow> (Block \<Rightarrow> bytes) \<Rightarrow> (bytes \<Rightarrow> Block option) \<Rightarrow> Node \<Rightarrow> Node \<Rightarrow> bool" where
  "disk_run sha ed_verify ed_sign ed_pub ghash marshal unmarshal =
     (disk_step sha ed_verify ed_sign ed_pub ghash marshal unmarshal)\<^sup>*\<^sup>*"

subsection \<open>What a step does to chain and file\<close>

text \<open>Nothing is appended; or a block that verifies is, and the append fails or succeeds.\<close>

lemma Produce_outcome:
  assumes "Produce sha ed_verify ed_sign ed_pub ghash None now key nowMs c = (c', Inr (Some b))"
  shows "\<exists>c2 next. keeps_core c c2 \<and> verify sha ed_verify ghash c2 b = Inr next \<and>
    (\<forall>e. fst (Produce sha ed_verify ed_sign ed_pub ghash e now key nowMs c) = (if e = None then commit sha b next c2 else c2))"
proof -
  let ?c1 = "dropExpired now c" and ?tip = "tipLocked sha ghash c"
  let ?t = "if nowMs \<le> tiTime ?tip then wrap64 (tiTime ?tip + 1) else nowMs"
  obtain "next" txs pool where l: "produceLoop sha (pendingSorted ?c1) ((chState ?c1)\<lparr>stNow := ?t\<rparr>, [], chMempool ?c1) = (next, txs, pool)"
    by (cases "produceLoop sha (pendingSorted ?c1) ((chState ?c1)\<lparr>stNow := ?t\<rparr>, [], chMempool ?c1)")
  define c2 where "c2 = ?c1\<lparr>chMempool := pool\<rparr>"
  have k: "keeps_core c c2" by (simp add: c2_def dropExpired_def keeps_core_def same_chain_def)
  obtain r where r: "Root sha next = Inr r" and ne: "txs \<noteq> []"
    using assms by (auto simp: Produce_def Let_def l split: if_splits sum.splits)
  define b0 where "b0 = SignBlock ed_sign key (newBlock sha (gnChainID (chGenesis c)) (tiHeight ?tip + 1) (tiHash ?tip) ?t r
                     (AddressFromPubKey (ed_pub key)) txs)"
  have p: "Produce sha ed_verify ed_sign ed_pub ghash e now key nowMs c =
      (case verify sha ed_verify ghash c2 b0 of Inl x \<Rightarrow> (c2, Inl (Wrap ''produced invalid block'' x))
       | Inr _ \<Rightarrow> (case e of Some x \<Rightarrow> (c2, Inl x) | None \<Rightarrow> (commit sha b0 next c2, Inr (Some b0))))" for e
    using ne r by (simp add: Produce_def Let_def l c2_def b0_def [symmetric] split: sum.split option.split)
  obtain next' where v: "verify sha ed_verify ghash c2 b0 = Inr next'" and b: "b0 = b"
    using assms unfolding p by (auto split: sum.splits)
  have "ApplyAll sha ((chState ?c1)\<lparr>stNow := ?t\<rparr>) txs = Inr next"
    by (rule produceLoop_applied [OF l]) simp
  moreover have "ApplyAll sha ((chState c2)\<lparr>stNow := hTime (bHeader b0)\<rparr>) (bTxs b0) = Inr next'"
    using runTxs_ApplyAll [OF verify_state [OF v]] .
  ultimately have "next' = next"
    by (simp add: c2_def b0_def SignBlock_def newBlock_def)
  then show ?thesis using k v b by (intro exI [of _ c2] exI [of _ "next"]) (simp add: p split: option.split)
qed

lemma Produce_quiet:
  assumes "Produce sha ed_verify ed_sign ed_pub ghash None now key nowMs c = (c', r)" "\<forall>b. r \<noteq> Inr (Some b)"
  shows "keeps_core c c'"
proof -
  let ?c1 = "dropExpired now c" and ?tip = "tipLocked sha ghash c"
  let ?t = "if nowMs \<le> tiTime ?tip then wrap64 (tiTime ?tip + 1) else nowMs"
  obtain "next" txs pool where l: "produceLoop sha (pendingSorted ?c1) ((chState ?c1)\<lparr>stNow := ?t\<rparr>, [], chMempool ?c1) = (next, txs, pool)"
    by (cases "produceLoop sha (pendingSorted ?c1) ((chState ?c1)\<lparr>stNow := ?t\<rparr>, [], chMempool ?c1)")
  have "c' = ?c1\<lparr>chMempool := pool\<rparr>"
    using assms by (auto simp: Produce_def Let_def l split: if_splits sum.splits)
  then show ?thesis by (simp add: dropExpired_def keeps_core_def same_chain_def)
qed

text \<open>The three outcomes of an operation on the node.\<close>

definition quiet :: "Node \<Rightarrow> Node \<Rightarrow> bool" where
  "quiet n m \<longleftrightarrow> keeps_core (ndChain n) (ndChain m) \<and> ndLog m = ndLog n \<and> ndFailed m = ndFailed n"

definition append_failed :: "(bytes \<Rightarrow> hash) \<Rightarrow> (bytes \<Rightarrow> bytes \<Rightarrow> bytes \<Rightarrow> bool) \<Rightarrow> (Genesis \<Rightarrow> hash) \<Rightarrow> (Block \<Rightarrow> bytes) \<Rightarrow>
    nat \<Rightarrow> Block \<Rightarrow> Node \<Rightarrow> Node \<Rightarrow> bool" where
  "append_failed sha ed_verify ghash marshal k b n m \<longleftrightarrow>
     keeps_core (ndChain n) (ndChain m) \<and> (\<exists>next. verify sha ed_verify ghash (ndChain n) b = Inr next) \<and>
     ndLog m = tornAppend marshal k b (ndLog n) \<and> ndFailed m"

definition appended :: "(bytes \<Rightarrow> hash) \<Rightarrow> (bytes \<Rightarrow> bytes \<Rightarrow> bytes \<Rightarrow> bool) \<Rightarrow> (Genesis \<Rightarrow> hash) \<Rightarrow> (Block \<Rightarrow> bytes) \<Rightarrow>
    Block \<Rightarrow> Node \<Rightarrow> Node \<Rightarrow> bool" where
  "appended sha ed_verify ghash marshal b n m \<longleftrightarrow>
     (\<exists>c2 next lost. keeps_core (ndChain n) c2 \<and> verify sha ed_verify ghash c2 b = Inr next \<and>
        ndChain m = (let c = commit sha b next c2 in if lost then c\<lparr>chSnapshot := chSnapshot (ndChain n)\<rparr> else c)) \<and>
     ndLog m = appendLog marshal b (ndLog n) \<and> ndFailed m = ndFailed n"

lemma keeps_core_verify:
  "keeps_core c d \<Longrightarrow> verify sha ed_verify ghash c b = verify sha ed_verify ghash d b"
  by (simp add: keeps_core_def verify_cong)

lemma logged_outcome:
  assumes k: "keeps_core (ndChain n) c2" and v: "verify sha ed_verify ghash c2 b = Inr next"
    and res: "\<And>e. res e = (if e = None then commit sha b next c2 else c2)"
  shows "(\<exists>k. append_failed sha ed_verify ghash marshal k b n (logged marshal fault lost b res n)) \<or>
    appended sha ed_verify ghash marshal b n (logged marshal fault lost b res n)"
proof (cases fault)
  case None
  then have "appended sha ed_verify ghash marshal b n (logged marshal fault lost b res n)"
    using k v unfolding appended_def
    by (intro conjI exI [of _ c2] exI [of _ "next"] exI [of _ lost]) (simp_all add: logged_def appendBlock_def res Let_def)
  then show ?thesis ..
next
  case (Some p)
  moreover have "keeps_core (ndChain n) (if lost then c2\<lparr>chSnapshot := chSnapshot (ndChain n)\<rparr> else c2)"
    using k by (auto simp: keeps_core_def same_chain_def)
  ultimately have "append_failed sha ed_verify ghash marshal (fst p) b n (logged marshal fault lost b res n)"
    using v keeps_core_verify [OF k, of sha ed_verify ghash b]
    by (cases p) (auto simp: append_failed_def logged_def appendBlock_def res)
  then show ?thesis by blast
qed

lemma addBlockOn_outcome:
  "quiet n (addBlockOn sha ed_verify ghash marshal fault lost b n) \<or>
   (\<exists>k. append_failed sha ed_verify ghash marshal k b n (addBlockOn sha ed_verify ghash marshal fault lost b n)) \<or>
   appended sha ed_verify ghash marshal b n (addBlockOn sha ed_verify ghash marshal fault lost b n)"
proof (cases "verify sha ed_verify ghash (ndChain n) b")
  case (Inl e)
  then show ?thesis by (simp add: addBlockOn_def AddBlock_def quiet_def)
next
  case (Inr "next")
  then have res: "fst (AddBlock sha ed_verify ghash e (ndChain n) b) = (if e = None then commit sha b next (ndChain n) else ndChain n)" for e
    by (simp add: AddBlock_def split: option.split)
  have "addBlockOn sha ed_verify ghash marshal fault lost b n =
      logged marshal fault lost b (\<lambda>e. fst (AddBlock sha ed_verify ghash e (ndChain n) b)) n"
    by (simp add: addBlockOn_def AddBlock_def Inr)
  then show ?thesis using logged_outcome [OF keeps_core_refl Inr res] by metis
qed

lemma produceOn_outcome:
  assumes m: "m = produceOn sha ed_verify ed_sign ed_pub ghash marshal fault lost now key nowMs n"
  shows "quiet n m \<or>
   (\<exists>c b. Produce sha ed_verify ed_sign ed_pub ghash None now key nowMs (ndChain n) = (c, Inr (Some b)) \<and>
      ((\<exists>k. append_failed sha ed_verify ghash marshal k b n m) \<or> appended sha ed_verify ghash marshal b n m))"
proof -
  obtain c r where p: "Produce sha ed_verify ed_sign ed_pub ghash None now key nowMs (ndChain n) = (c, r)"
    by (cases "Produce sha ed_verify ed_sign ed_pub ghash None now key nowMs (ndChain n)")
  show ?thesis
  proof (cases "\<exists>b. r = Inr (Some b)")
    case True
    then obtain b where r: "r = Inr (Some b)" by blast
    obtain c2 "next" where c2: "keeps_core (ndChain n) c2" "verify sha ed_verify ghash c2 b = Inr next"
      "\<And>e. fst (Produce sha ed_verify ed_sign ed_pub ghash e now key nowMs (ndChain n)) =
          (if e = None then commit sha b next c2 else c2)"
      using Produce_outcome [OF p [unfolded r]] by blast
    have "m = logged marshal fault lost b
        (\<lambda>e. fst (Produce sha ed_verify ed_sign ed_pub ghash e now key nowMs (ndChain n))) n"
      by (simp add: m produceOn_def p r)
    then show ?thesis using logged_outcome [OF c2] p r by metis
  next
    case False
    then have "keeps_core (ndChain n) c" using Produce_quiet [OF p] by blast
    moreover have "m = n\<lparr>ndChain := c\<rparr>" using False by (auto simp: m produceOn_def p split: sum.split option.split)
    ultimately show ?thesis by (simp add: quiet_def)
  qed
qed

lemma decided_verifies:
  assumes r: "replays sha ed_verify ghash c" and "BFT (chGenesis c0)" and s: "same_chain c0 c"
    and ex: "ExecuteDecided sha ed_verify ghash c0 height timeMs proposer txs = Inr (b, next, errs)"
    and h: "hHeight (bHeader b) = of_nat (length (chBlocks c)) + 1"
  shows "verify sha ed_verify ghash c b = Inr next"
proof -
  have "hHeight (bHeader b) = height"
    using ex by (auto simp: ExecuteDecided_def newBlock_def Let_def split: prod.splits sum.splits)
  moreover have "tiHeight (tipLocked sha ghash c0) = of_nat (length (chBlocks c))"
    using tipHeight [OF replays_heights [OF r], of sha ghash] tip_cong [OF s, of sha ghash] by simp
  ultimately have "verify sha ed_verify ghash c0 b = Inr next"
    using ExecuteDecided_verifies [OF assms(2) _ ex] h by simp
  then show ?thesis using verify_cong [OF s] by simp
qed

lemma commitDecidedOn_outcome:
  assumes r: "replays sha ed_verify ghash (ndChain n)" and "BFT (chGenesis c0)" "same_chain c0 (ndChain n)"
    and "ExecuteDecided sha ed_verify ghash c0 height timeMs proposer txs = Inr (b, next, errs)"
    and m: "m = commitDecidedOn sha marshal fault lost b next n"
  shows "quiet n m \<or> (\<exists>k. append_failed sha ed_verify ghash marshal k b n m) \<or> appended sha ed_verify ghash marshal b n m"
proof (cases "hHeight (bHeader b) = of_nat (length (chBlocks (ndChain n))) + 1")
  case False
  then show ?thesis by (simp add: m commitDecidedOn_def CommitDecided_def quiet_def)
next
  case True
  note v = decided_verifies [OF assms(1-4) True]
  have res: "fst (CommitDecided sha e b next (ndChain n)) = (if e = None then commit sha b next (ndChain n) else ndChain n)" for e
    using True by (simp add: CommitDecided_def split: option.split)
  have "m = logged marshal fault lost b (\<lambda>e. fst (CommitDecided sha e b next (ndChain n))) n"
    using True by (simp add: m commitDecidedOn_def CommitDecided_def)
  then show ?thesis using logged_outcome [OF keeps_core_refl v res] by metis
qed

subsection \<open>What the file holds\<close>

definition disk_ok :: "(bytes \<Rightarrow> hash) \<Rightarrow> (bytes \<Rightarrow> bytes \<Rightarrow> bytes \<Rightarrow> bool) \<Rightarrow> (Genesis \<Rightarrow> hash) \<Rightarrow> (Block \<Rightarrow> bytes) \<Rightarrow>
    (bytes \<Rightarrow> Block option) \<Rightarrow> Genesis \<Rightarrow> Node \<Rightarrow> bool" where
  "disk_ok sha ed_verify ghash marshal unmarshal g n \<longleftrightarrow>
     replays sha ed_verify ghash (ndChain n) \<and> chGenesis (ndChain n) = g \<and> snap_ok sha ed_verify ghash (ndChain n) \<and>
     json_lines marshal unmarshal (set (chBlocks (ndChain n))) \<and>
     (if ndFailed n
      then \<exists>b next k. verify sha ed_verify ghash (ndChain n) b = Inr next \<and> json_lines marshal unmarshal {b} \<and>
             ndLog n = tornAppend marshal k b (logOf marshal (chBlocks (ndChain n)))
      else ndLog n = logOf marshal (chBlocks (ndChain n)))"

lemma json_lines_add:
  "json_lines marshal unmarshal {b} \<Longrightarrow> json_lines marshal unmarshal B \<Longrightarrow> json_lines marshal unmarshal (insert b B)"
  by (auto simp: json_lines_def)

lemma keeps_core_ok:
  assumes "keeps_core c d"
  shows "replays sha ed_verify ghash c \<Longrightarrow> replays sha ed_verify ghash d" "chGenesis d = chGenesis c" "chBlocks d = chBlocks c"
    "snap_ok sha ed_verify ghash c \<Longrightarrow> snap_ok sha ed_verify ghash d"
  using assms replays_same by (auto simp: keeps_core_def same_chain_def snap_ok_def split: option.splits)

lemma quiet_ok: "quiet n m \<Longrightarrow> disk_ok sha ed_verify ghash marshal unmarshal g n \<Longrightarrow> disk_ok sha ed_verify ghash marshal unmarshal g m"
  unfolding quiet_def disk_ok_def
  using keeps_core_ok keeps_core_verify [of "ndChain n" "ndChain m"] by (metis (no_types, lifting))

lemma append_failed_ok:
  assumes m: "append_failed sha ed_verify ghash marshal k b n m" and st: "stops n m" and j: "json_lines marshal unmarshal {b}"
    and ok: "disk_ok sha ed_verify ghash marshal unmarshal g n"
  shows "disk_ok sha ed_verify ghash marshal unmarshal g m"
proof -
  have k: "keeps_core (ndChain n) (ndChain m)" and f: "ndFailed m"
    and l: "ndLog m = tornAppend marshal k b (ndLog n)" using m by (simp_all add: append_failed_def)
  note v = keeps_core_verify [OF k, of sha ed_verify ghash]
  have "\<exists>b next k. verify sha ed_verify ghash (ndChain m) b = Inr next \<and> json_lines marshal unmarshal {b} \<and>
      ndLog m = tornAppend marshal k b (logOf marshal (chBlocks (ndChain m)))"
  proof (cases "ndFailed n")
    case True
    then have "ndLog m = ndLog n" using st by (simp add: stops_def)
    then show ?thesis using ok True v keeps_core_ok(3) [OF k] by (simp add: disk_ok_def)
  next
    case False
    then show ?thesis using ok m j l v keeps_core_ok(3) [OF k] by (auto simp: disk_ok_def append_failed_def)
  qed
  then show ?thesis using ok f keeps_core_ok [OF k] by (simp add: disk_ok_def)
qed

lemma appended_ok:
  assumes m: "appended sha ed_verify ghash marshal b n m" and st: "stops n m" and j: "json_lines marshal unmarshal {b}"
    and ok: "disk_ok sha ed_verify ghash marshal unmarshal g n"
  shows "disk_ok sha ed_verify ghash marshal unmarshal g m"
proof -
  obtain c2 "next" lost where k: "keeps_core (ndChain n) c2" and v: "verify sha ed_verify ghash c2 b = Inr next"
    and c: "ndChain m = (let c = commit sha b next c2 in if lost then c\<lparr>chSnapshot := chSnapshot (ndChain n)\<rparr> else c)"
    and l: "ndLog m = appendLog marshal b (ndLog n)" "ndFailed m = ndFailed n" using m by (auto simp: appended_def)
  have nf: "\<not> ndFailed n" using st l by (auto simp: stops_def appendLog_def)
  let ?d = "commit sha b next c2"
  have r: "replays sha ed_verify ghash ?d"
    using replays_commit [OF keeps_core_ok(1) [OF k] v] ok by (simp add: disk_ok_def)
  have s: "snap_ok sha ed_verify ghash ?d"
    using snap_ok_commit [OF keeps_core_ok(4) [OF k] r] ok by (simp add: disk_ok_def)
  have s': "snap_ok sha ed_verify ghash (?d\<lparr>chSnapshot := chSnapshot (ndChain n)\<rparr>)"
    using ok keeps_core_ok(2,3) [OF k] snap_at_append by (fastforce simp: disk_ok_def snap_ok_def split: option.splits)
  have core: "replays sha ed_verify ghash (ndChain m)" "chGenesis (ndChain m) = g" "snap_ok sha ed_verify ghash (ndChain m)"
    "chBlocks (ndChain m) = chBlocks (ndChain n) @ [b]"
    using r s s' ok keeps_core_ok(2,3) [OF k] replays_same [OF r, of "?d\<lparr>chSnapshot := chSnapshot (ndChain n)\<rparr>"]
    by (auto simp: c Let_def disk_ok_def same_chain_def)
  have "json_lines marshal unmarshal (insert b (set (chBlocks (ndChain n))))"
    by (rule json_lines_add [OF j]) (use ok in \<open>simp add: disk_ok_def\<close>)
  then show ?thesis using core ok nf l by (simp add: disk_ok_def append_log)
qed

subsection \<open>Reopening\<close>

text \<open>The chain the file stands for: the node's own, or with the one block whose append failed.\<close>

definition stands_for :: "(bytes \<Rightarrow> hash) \<Rightarrow> (bytes \<Rightarrow> bytes \<Rightarrow> bytes \<Rightarrow> bool) \<Rightarrow> (Genesis \<Rightarrow> hash) \<Rightarrow> Node \<Rightarrow> Chain \<Rightarrow> bool" where
  "stands_for sha ed_verify ghash n c \<longleftrightarrow>
     c = ndChain n \<or>
     ndFailed n \<and> (\<exists>b next. verify sha ed_verify ghash (ndChain n) b = Inr next \<and> c = commit sha b next (ndChain n))"

lemma disk_contents:
  assumes ok: "disk_ok sha ed_verify ghash marshal unmarshal g n"
  obtains c where "stands_for sha ed_verify ghash n c" "openBlockLog unmarshal (ndLog n) = Inr (chBlocks c, logOf marshal (chBlocks c))"
    "replays sha ed_verify ghash c" "chGenesis c = g" "json_lines marshal unmarshal (set (chBlocks c))"
    "\<And>sn. chSnapshot (ndChain n) = Some sn \<Longrightarrow> \<exists>h. snap_at sha ed_verify ghash (chGenesis c) (chBlocks c) sn h"
    "length (chBlocks c) \<le> length (chBlocks (ndChain n)) + 1"
proof -
  let ?c = "ndChain n"
  have r: "replays sha ed_verify ghash ?c" and g: "chGenesis ?c = g" and j: "json_lines marshal unmarshal (set (chBlocks ?c))"
    and s: "snap_ok sha ed_verify ghash ?c" using ok by (simp_all add: disk_ok_def)
  have sn: "\<exists>h. snap_at sha ed_verify ghash (chGenesis ?c) (chBlocks ?c) sn h" if "chSnapshot ?c = Some sn" for sn
    using s that by (simp add: snap_ok_def)
  note own = that [of ?c, OF _ _ r g j sn]
  show thesis
  proof (cases "ndFailed n")
    case False
    then have "ndLog n = logOf marshal (chBlocks ?c) @ []" using ok by (simp add: disk_ok_def)
    then show ?thesis using open_log [OF j, of "[]"] by (intro own) (simp_all add: stands_for_def)
  next
    case True
    then obtain b "next" k where v: "verify sha ed_verify ghash ?c b = Inr next" and jb: "json_lines marshal unmarshal {b}"
      and l: "ndLog n = tornAppend marshal k b (logOf marshal (chBlocks ?c))" using ok by (auto simp: disk_ok_def)
    have j': "json_lines marshal unmarshal (insert b (set (chBlocks ?c)))" by (rule json_lines_add [OF jb j])
    note t = torn_log [OF j', of k]
    show ?thesis
    proof (cases "k \<le> length (marshal b)")
      case True
      then show ?thesis using t l by (intro own) (simp_all add: stands_for_def)
    next
      case False
      let ?d = "commit sha b next ?c"
      have "stands_for sha ed_verify ghash n ?d" using v \<open>ndFailed n\<close> by (auto simp: stands_for_def)
      moreover have "\<exists>h. snap_at sha ed_verify ghash (chGenesis ?d) (chBlocks ?d) sn h" if "chSnapshot ?c = Some sn" for sn
        using sn [OF that] snap_at_append by fastforce
      ultimately show ?thesis
        using t l False replays_commit [OF r v] g j' by (intro that [of ?d]) simp_all
    qed
  qed
qed

lemma Open_ok:
  assumes ok: "disk_ok sha ed_verify ghash marshal unmarshal g n"
  obtains c where "stands_for sha ed_verify ghash n c"
    "\<And>file. file = None \<or> file = chSnapshot (ndChain n) \<and> length (chBlocks (ndChain n)) + 1 < 2 ^ 64 \<Longrightarrow>
      \<exists>d. OpenFiles sha ed_verify ghash unmarshal g file (ndLog n) = (logOf marshal (chBlocks c), Inr d) \<and>
        same_chain c d \<and> disk_ok sha ed_verify ghash marshal unmarshal g \<lparr>ndChain = d, ndLog = logOf marshal (chBlocks c), ndFailed = False\<rparr>"
proof -
  obtain c where c: "stands_for sha ed_verify ghash n c" "openBlockLog unmarshal (ndLog n) = Inr (chBlocks c, logOf marshal (chBlocks c))"
    and r: "replays sha ed_verify ghash c" and g: "chGenesis c = g" and j: "json_lines marshal unmarshal (set (chBlocks c))"
    and sn: "\<And>sn. chSnapshot (ndChain n) = Some sn \<Longrightarrow> \<exists>h. snap_at sha ed_verify ghash (chGenesis c) (chBlocks c) sn h"
    and le: "length (chBlocks c) \<le> length (chBlocks (ndChain n)) + 1"
    using disk_contents [OF ok] by blast
  obtain s0 where s0: "GenesisState g = Inr s0" using r g by (auto simp: replays_def)
  show thesis
  proof (rule that [OF c(1)])
    fix snap assume f: "snap = None \<or> snap = chSnapshot (ndChain n) \<and> length (chBlocks (ndChain n)) + 1 < 2 ^ 64"
    have "snap \<noteq> None \<Longrightarrow> length (chBlocks c) < 2 ^ 64" using f le by auto
    moreover have "\<exists>h. snap_at sha ed_verify ghash (chGenesis c) (chBlocks c) x h" if "snap = Some x" for x
      using f that sn by auto
    ultimately obtain d where d: "OpenChain sha ed_verify ghash (chGenesis c) snap (chBlocks c) = Inr d" "same_chain c d"
      "snap_ok sha ed_verify ghash d" using OpenChain_file [OF r] by metis
    have "disk_ok sha ed_verify ghash marshal unmarshal g \<lparr>ndChain = d, ndLog = logOf marshal (chBlocks c), ndFailed = False\<rparr>"
      using d(3) replays_same [OF r d(2)] d(2) g j by (simp add: disk_ok_def same_chain_def)
    then show "\<exists>d. OpenFiles sha ed_verify ghash unmarshal g snap (ndLog n) = (logOf marshal (chBlocks c), Inr d) \<and>
        same_chain c d \<and> disk_ok sha ed_verify ghash marshal unmarshal g \<lparr>ndChain = d, ndLog = logOf marshal (chBlocks c), ndFailed = False\<rparr>"
      using d g s0 c(2) by (auto simp: OpenFiles_def)
  qed
qed

lemma disk_step_ok:
  assumes st: "disk_step sha ed_verify ed_sign ed_pub ghash marshal unmarshal n m"
    and ok: "disk_ok sha ed_verify ghash marshal unmarshal g n"
  shows "disk_ok sha ed_verify ghash marshal unmarshal g m"
  using st
proof (cases rule: disk_step.cases)
  case (submit clock tx)
  then have "quiet n m" by (simp add: quiet_def Submit_core)
  then show ?thesis using ok by (rule quiet_ok)
next
  case (checkPending clock tx)
  then have "quiet n m" by (simp add: quiet_def CheckPending_core)
  then show ?thesis using ok by (rule quiet_ok)
next
  case (forget tid)
  then have "quiet n m" by (simp add: quiet_def Forget_core)
  then show ?thesis using ok by (rule quiet_ok)
next
  case (produce fault lost now key nowMs)
  from produceOn_outcome [OF produce(1)] show ?thesis
    using quiet_ok [OF _ ok] append_failed_ok [OF _ produce(2) _ ok] appended_ok [OF _ produce(2) _ ok] produce(3) by metis
next
  case (addBlock fault lost b)
  from addBlockOn_outcome [of n sha ed_verify ghash marshal fault lost b, folded addBlock(1)] show ?thesis
    using quiet_ok [OF _ ok] append_failed_ok [OF _ addBlock(2,3) ok] appended_ok [OF _ addBlock(2,3) ok] by metis
next
  case (decided c0 height timeMs proposer txs b "next" errs fault lost)
  have "replays sha ed_verify ghash (ndChain n)" using ok by (simp add: disk_ok_def)
  from commitDecidedOn_outcome [OF this decided(1-4)] show ?thesis
    using quiet_ok [OF _ ok] append_failed_ok [OF _ decided(5,6) ok] appended_ok [OF _ decided(5,6) ok] by metis
next
  case (reopen "file" f c)
  have g: "chGenesis (ndChain n) = g" using ok by (simp add: disk_ok_def)
  from Open_ok [OF ok] show ?thesis using reopen unfolding g by (metis Pair_inject sum.inject(2))
qed

lemma disk_run_ok:
  assumes "GenesisState g = Inr s0" and "disk_run sha ed_verify ed_sign ed_pub ghash marshal unmarshal (freshNode g s0) n"
  shows "disk_ok sha ed_verify ghash marshal unmarshal g n"
  using assms(2) unfolding disk_run_def
proof (induction rule: rtranclp_induct)
  case base
  then show ?case using replays_empty [OF assms(1), of sha ed_verify ghash]
    by (simp add: disk_ok_def freshNode_def snap_ok_def emptyChain_def json_lines_def logOf_def)
next
  case (step n m)
  then show ?case by (blast intro: disk_step_ok)
qed

subsection \<open>Appending after a failed append\<close>

lemma readLoop_corrupt:
  "json_lines marshal unmarshal (set bs) \<Longrightarrow> NL \<notin> set l \<Longrightarrow> unmarshal (l @ [NL]) = None \<Longrightarrow>
   readLoop unmarshal (logOf marshal bs @ l @ NL # rest) acc good = Inl (Err ''blocklog corrupt'')"
proof (induction bs arbitrary: acc good)
  case Nil
  then show ?case by (subst readLoop.simps) (simp add: logOf_def readLine_append)
next
  case (Cons b bs)
  have b: "NL \<notin> set (marshal b)" "unmarshal (marshal b @ [NL]) = Some b" and bs: "json_lines marshal unmarshal (set bs)"
    using Cons.prems(1) by (simp_all add: json_lines_def)
  have f: "logOf marshal (b # bs) @ l @ NL # rest = marshal b @ NL # (logOf marshal bs @ l @ NL # rest)" by (simp add: logOf_def)
  show ?case unfolding f
    by (subst readLoop.simps) (simp add: readLine_append b Cons.IH [OF bs Cons.prems(2,3)])
qed

lemma same_block_twice:
  assumes r: "replays sha ed_verify ghash c" and v: "verify sha ed_verify ghash c b = Inr next"
  shows "\<exists>e. OpenChain sha ed_verify ghash (chGenesis c) None (chBlocks c @ [b, b]) = Inl e"
proof -
  let ?g = "chGenesis c"
  obtain s0 d where g: "GenesisState ?g = Inr s0"
    and o: "openLoop sha ed_verify ghash None (chBlocks c) (emptyChain ?g s0) = Inr d" and s: "same_chain c d"
    using r by (auto simp: replays_def)
  let ?d = "commit sha b next d"
  have vd: "verify sha ed_verify ghash d b = Inr next" using v verify_cong [OF s, of sha ed_verify ghash b] by simp
  obtain e where e: "verify sha ed_verify ghash ?d b = Inl e"
  proof (cases "verify sha ed_verify ghash ?d b")
    case (Inr "next'")
    then have "hHeight (bHeader b) = hHeight (bHeader b) + 1"
      using verify_height [OF Inr] by (simp add: tipLocked_def Let_def)
    then show ?thesis by simp
  qed
  have "(emptyChain ?g s0)\<lparr>chSnapshot := None\<rparr> = emptyChain ?g s0" by (simp add: emptyChain_def)
  moreover have "openLoop sha ed_verify ghash None (chBlocks c @ [b]) (emptyChain ?g s0) = Inr ?d"
    using o vd by (simp add: openLoop_append)
  then have "openLoop sha ed_verify ghash None ((chBlocks c @ [b]) @ [b]) (emptyChain ?g s0) = Inl (Wrap ''replay block'' e)"
    using e by (simp only: openLoop_append sum.case)
  ultimately show ?thesis using g by (simp add: OpenChain_def loadSnapshot_def)
qed

lemma addBlockOn_verified:
  assumes "verify sha ed_verify ghash (ndChain n) b = Inr next"
  shows "addBlockOn sha ed_verify ghash marshal fault lost b n =
    (let c = commit sha b next (ndChain n) in
     case fault of
       None \<Rightarrow> \<lparr>ndChain = (if lost then c\<lparr>chSnapshot := chSnapshot (ndChain n)\<rparr> else c), ndLog = appendLog marshal b (ndLog n),
                ndFailed = ndFailed n\<rparr>
     | Some (k, e) \<Rightarrow> \<lparr>ndChain = ndChain n, ndLog = tornAppend marshal k b (ndLog n), ndFailed = True\<rparr>)"
  using assms by (cases fault) (auto simp: addBlockOn_def AddBlock_def logged_def appendBlock_def Let_def)

subsection \<open>Properties\<close>

text \<open>
  C2: restart. Whatever a node did since its genesis, with appends and snapshots that failed
  and restarts in between, as long as it wrote nothing to the log after a failed append before
  restarting, opening its log file without a snapshot succeeds and leaves the file as the log of the
  blocks opened. It gives exactly the blocks and the ledger the node had or, after a failed append,
  possibly one block more: the verified block whose append failed, with the ledger after it.
\<close>

theorem reopen_recovers:
  assumes "GenesisState g = Inr s0"
    and "disk_run sha ed_verify ed_sign ed_pub ghash marshal unmarshal (freshNode g s0) n"
  shows "\<exists>d. OpenFiles sha ed_verify ghash unmarshal g None (ndLog n) = (logOf marshal (chBlocks d), Inr d) \<and>
    (chBlocks d = chBlocks (ndChain n) \<and> same_ledger (chState d) (chState (ndChain n)) \<or>
     ndFailed n \<and> (\<exists>b next. verify sha ed_verify ghash (ndChain n) b = Inr next \<and>
       chBlocks d = chBlocks (ndChain n) @ [b] \<and> same_ledger (chState d) next))"
proof -
  obtain c d where c: "stands_for sha ed_verify ghash n c"
    and d: "OpenFiles sha ed_verify ghash unmarshal g None (ndLog n) = (logOf marshal (chBlocks c), Inr d)" "same_chain c d"
    using Open_ok [OF disk_run_ok [OF assms]] by metis
  have b: "chBlocks d = chBlocks c" "same_ledger (chState d) (chState c)"
    using d(2) by (simp_all add: same_chain_def same_ledger_sym)
  then show ?thesis using d(1) c by (intro exI [of _ d]) (auto simp: stands_for_def)
qed

text \<open>
  C3: restart from a snapshot. Under the same conditions, and with fewer than \<open>2^64\<close> blocks,
  opening the log with the snapshot file the node last managed to write gives the same blocks and
  the same ledger as replaying the whole log from genesis, and at least the blocks the node had.
\<close>

theorem reopen_from_snapshot:
  assumes "GenesisState g = Inr s0"
    and "disk_run sha ed_verify ed_sign ed_pub ghash marshal unmarshal (freshNode g s0) n"
    and "length (chBlocks (ndChain n)) + 1 < 2 ^ 64"
  shows "\<exists>f d d0. OpenFiles sha ed_verify ghash unmarshal g (chSnapshot (ndChain n)) (ndLog n) = (f, Inr d) \<and>
    OpenFiles sha ed_verify ghash unmarshal g None (ndLog n) = (f, Inr d0) \<and>
    chBlocks d = chBlocks d0 \<and> same_ledger (chState d) (chState d0) \<and>
    (chBlocks d = chBlocks (ndChain n) \<and> same_ledger (chState d) (chState (ndChain n)) \<or>
     ndFailed n \<and> (\<exists>b. chBlocks d = chBlocks (ndChain n) @ [b]))"
proof -
  obtain c d d0 where c: "stands_for sha ed_verify ghash n c"
    and d: "OpenFiles sha ed_verify ghash unmarshal g (chSnapshot (ndChain n)) (ndLog n) = (logOf marshal (chBlocks c), Inr d)" "same_chain c d"
    and d0: "OpenFiles sha ed_verify ghash unmarshal g None (ndLog n) = (logOf marshal (chBlocks c), Inr d0)" "same_chain c d0"
    using Open_ok [OF disk_run_ok [OF assms(1,2)]] assms(3) by metis
  have "same_chain d d0" by (rule same_chain_trans [OF same_chain_sym [OF d(2)] d0(2)])
  then have "chBlocks d = chBlocks d0 \<and> same_ledger (chState d) (chState d0)" by (simp add: same_chain_def)
  moreover have "chBlocks d = chBlocks c" "same_ledger (chState d) (chState c)"
    using d(2) by (simp_all add: same_chain_def same_ledger_sym)
  then have "chBlocks d = chBlocks (ndChain n) \<and> same_ledger (chState d) (chState (ndChain n)) \<or>
      ndFailed n \<and> (\<exists>b. chBlocks d = chBlocks (ndChain n) @ [b])"
    using c by (auto simp: stands_for_def)
  ultimately show ?thesis using d(1) d0(1) by blast
qed

text \<open>
  Appending after a failed append. If the log write of a verified block fails (part of the line
  was written, or all of it and the sync failed), the node keeps running, and the same block,
  asked for again as a replica does, is then verified, appended and committed. The node holds the
  block, but it can never be restarted: the log now holds a torn line inside, or the block twice.
  (That a torn line followed by a whole one is not JSON is the hypothesis on \<open>unmarshal\<close>.)
\<close>

theorem retry_after_failed_append:
  assumes "GenesisState g = Inr s0"
    and "disk_run sha ed_verify ed_sign ed_pub ghash marshal unmarshal (freshNode g s0) n" and "\<not> ndFailed n"
    and "verify sha ed_verify ghash (ndChain n) b = Inr next" and "json_lines marshal unmarshal {b}"
    and "0 < k" and "k \<le> length (marshal b) \<Longrightarrow> unmarshal (take k (marshal b) @ marshal b @ [NL]) = None"
  shows "let n1 = addBlockOn sha ed_verify ghash marshal (Some (k, e)) False b n;
             n2 = addBlockOn sha ed_verify ghash marshal None False b n1
         in ndChain n1 = ndChain n \<and> chBlocks (ndChain n2) = chBlocks (ndChain n) @ [b] \<and>
            (\<exists>err. snd (OpenFiles sha ed_verify ghash unmarshal g None (ndLog n2)) = Inl err)"
proof -
  define n1 where "n1 = addBlockOn sha ed_verify ghash marshal (Some (k, e)) False b n"
  define n2 where "n2 = addBlockOn sha ed_verify ghash marshal None False b n1"
  have n1: "n1 = \<lparr>ndChain = ndChain n, ndLog = tornAppend marshal k b (ndLog n), ndFailed = True\<rparr>"
    by (simp add: n1_def addBlockOn_verified [OF assms(4)] Let_def)
  have n2: "ndChain n2 = commit sha b next (ndChain n)" "ndLog n2 = appendLog marshal b (tornAppend marshal k b (ndLog n))"
    using assms(4) by (simp_all add: n2_def n1 addBlockOn_verified Let_def)
  have ok: "replays sha ed_verify ghash (ndChain n)" "chGenesis (ndChain n) = g"
    "json_lines marshal unmarshal (set (chBlocks (ndChain n)))" "ndLog n = logOf marshal (chBlocks (ndChain n))"
    using disk_run_ok [OF assms(1,2)] assms(3) by (simp_all add: disk_ok_def)
  have "\<exists>err. snd (OpenFiles sha ed_verify ghash unmarshal g None (ndLog n2)) = Inl err"
  proof (cases "k \<le> length (marshal b)")
    case True
    have "NL \<notin> set (take k (marshal b) @ marshal b)" using assms(5) by (auto simp: json_lines_def dest: in_set_takeD)
    from readLoop_corrupt [OF ok(3) this, of "[]" "[]" 0] assms(7) True
    have "openBlockLog unmarshal (ndLog n2) = Inl (Err ''blocklog corrupt'')"
      by (simp add: openBlockLog_def n2 ok(4) appendLog_def tornAppend_def)
    then show ?thesis by (simp add: OpenFiles_def assms(1))
  next
    case False
    then have f: "ndLog n2 = logOf marshal (chBlocks (ndChain n) @ [b, b]) @ []"
      by (simp add: n2 ok(4) appendLog_def tornAppend_def logOf_def)
    have "json_lines marshal unmarshal (set (chBlocks (ndChain n) @ [b, b]))" using ok(3) assms(5) by (auto simp: json_lines_def)
    from open_log [OF this, of "[]"] have "openBlockLog unmarshal (ndLog n2) = Inr (chBlocks (ndChain n) @ [b, b], ndLog n2)"
      by (simp add: f)
    then show ?thesis using same_block_twice [OF ok(1) assms(4)] ok(2) by (auto simp: OpenFiles_def assms(1))
  qed
  moreover have "ndChain n1 = ndChain n" "chBlocks (ndChain n2) = chBlocks (ndChain n) @ [b]" by (simp_all add: n1 n2)
  ultimately show ?thesis unfolding Let_def n1_def n2_def by blast
qed

subsection \<open>A node whose first append is cut short\<close>

definition demo_line :: "Block \<Rightarrow> bytes" where "demo_line b = ''block''"

definition demo_parse :: "Block \<Rightarrow> bytes \<Rightarrow> Block option" where
  "demo_parse b l = (if l = ''block'' @ [NL] then Some b else None)"

lemma demo_json: "json_lines demo_line (demo_parse b) {b}"
  by (simp add: json_lines_def demo_line_def demo_parse_def NL_def)

lemma demo_disk_run:
  obtains b where "bTxs b = [demo_stx]" "verify demo_sha demo_verify demo_ghash demo_c0 b = Inr demo_next"
    "disk_run demo_sha demo_verify demo_sign demo_pub demo_ghash demo_line (demo_parse b)
       (freshNode demo_genesis demo_s0) \<lparr>ndChain = demo_c0, ndLog = ''blo'', ndFailed = True\<rparr>"
    "disk_run demo_sha demo_verify demo_sign demo_pub demo_ghash demo_line (demo_parse b)
       (freshNode demo_genesis demo_s0) \<lparr>ndChain = demo_chain b, ndLog = ''block'' @ [NL], ndFailed = False\<rparr>"
proof -
  obtain b where b: "ExecuteDecided demo_sha demo_verify demo_ghash demo_c0 1 1000 '''' [None, Some demo_stx] =
      Inr (b, demo_next, [Some (Err ''malformed transaction''), None])"
    "bTxs b = [demo_stx]" "hHeight (bHeader b) = 1" using demo_decided .
  let ?step = "disk_step demo_sha demo_verify demo_sign demo_pub demo_ghash demo_line (demo_parse b)"
  let ?n0 = "freshNode demo_genesis demo_s0"
  let ?n1 = "\<lparr>ndChain = demo_c0, ndLog = ''blo'', ndFailed = True\<rparr>"
  let ?n2 = "\<lparr>ndChain = demo_chain b, ndLog = ''block'' @ [NL], ndFailed = False\<rparr>"
  have n0: "?n0 = \<lparr>ndChain = demo_c0, ndLog = [], ndFailed = False\<rparr>" by (simp add: freshNode_def demo_c0_def)
  have bft: "BFT (chGenesis demo_c0)" by (simp add: demo_c0_def emptyChain_def demo_genesis_def BFT_def)
  have e: "chBlocks demo_c0 = []" "chGenesis demo_c0 = demo_genesis" by (simp_all add: demo_c0_def emptyChain_def)
  have "1 = tiHeight (tipLocked demo_sha demo_ghash demo_c0) + 1" by (simp add: tipLocked_def e)
  from ExecuteDecided_verifies [OF bft this b(1)] have v: "verify demo_sha demo_verify demo_ghash demo_c0 b = Inr demo_next" .
  have c1: "?n1 = commitDecidedOn demo_sha demo_line (Some (3, Err ''short write'')) False b demo_next ?n0"
    by (simp add: n0 commitDecidedOn_def CommitDecided_def b(3) e logged_def appendBlock_def tornAppend_def demo_line_def)
  have c2: "?n2 = commitDecidedOn demo_sha demo_line None False b demo_next ?n0"
    by (simp add: n0 commitDecidedOn_def CommitDecided_def b(3) e logged_def appendBlock_def appendLog_def demo_line_def demo_chain_def)
  have st: "stops ?n0 m" for m by (simp add: stops_def n0)
  have same: "same_chain demo_c0 (ndChain ?n0)" by (simp add: n0)
  have s1: "?step ?n0 ?n1" by (rule disk_step.decided [OF bft same b(1) c1 st demo_json])
  have s3: "?step ?n0 ?n2" by (rule disk_step.decided [OF bft same b(1) c2 st demo_json])
  have "openBlockLog (demo_parse b) ''blo'' = Inr ([], [])"
    by (simp add: openBlockLog_def readLoop.simps readLine_def NL_def)
  moreover have "OpenChain demo_sha demo_verify demo_ghash demo_genesis None [] = Inr demo_c0"
    by (simp add: OpenChain_def demo_s0 loadSnapshot_def demo_c0_def emptyChain_def)
  ultimately have o: "OpenFiles demo_sha demo_verify demo_ghash (demo_parse b) (chGenesis (ndChain ?n1)) None (ndLog ?n1) = ([], Inr demo_c0)"
    by (simp add: OpenFiles_def demo_s0 e)
  have "?step ?n1 ?n0" using disk_step.reopen [OF _ o] unfolding n0 by simp
  then have "?step\<^sup>*\<^sup>* ?n0 ?n1" "?step\<^sup>*\<^sup>* ?n0 ?n2" using s1 s3 by (auto intro: rtranclp.rtrancl_into_rtrancl)
  then show thesis using that [of b] b(2) v by (simp add: disk_run_def)
qed

theorem reopen_recovers_witness:
  "\<exists>b d. bTxs b = [demo_stx] \<and> chBlocks d = [b] \<and>
     OpenFiles demo_sha demo_verify demo_ghash (demo_parse b) demo_genesis None (''block'' @ [NL]) = (''block'' @ [NL], Inr d)"
proof -
  obtain b where b: "bTxs b = [demo_stx]" and r: "disk_run demo_sha demo_verify demo_sign demo_pub demo_ghash demo_line (demo_parse b)
       (freshNode demo_genesis demo_s0) \<lparr>ndChain = demo_chain b, ndLog = ''block'' @ [NL], ndFailed = False\<rparr>"
    by (rule demo_disk_run)
  have c: "chBlocks (demo_chain b) = [b]" by (simp add: demo_chain_def demo_c0_def emptyChain_def)
  from reopen_recovers [OF demo_s0 r] c b show ?thesis by (auto simp: logOf_def demo_line_def)
qed

theorem reopen_from_snapshot_witness:
  "\<exists>b f d. bTxs b = [demo_stx] \<and>
     OpenFiles demo_sha demo_verify demo_ghash (demo_parse b) demo_genesis (chSnapshot demo_c0) ''blo'' = (f, Inr d)"
proof -
  obtain b where b: "bTxs b = [demo_stx]" and r: "disk_run demo_sha demo_verify demo_sign demo_pub demo_ghash demo_line (demo_parse b)
       (freshNode demo_genesis demo_s0) \<lparr>ndChain = demo_c0, ndLog = ''blo'', ndFailed = True\<rparr>"
    by (rule demo_disk_run)
  have "length (chBlocks (ndChain \<lparr>ndChain = demo_c0, ndLog = ''blo'', ndFailed = True\<rparr>)) + 1 < 2 ^ 64"
    by (simp add: demo_c0_def emptyChain_def)
  from reopen_from_snapshot [OF demo_s0 r this] b show ?thesis by auto
qed

theorem retry_after_failed_append_witness:
  "\<exists>b err. bTxs b = [demo_stx] \<and>
     snd (OpenFiles demo_sha demo_verify demo_ghash (demo_parse b) demo_genesis None (''bloblock'' @ [NL])) = Inl err"
proof -
  obtain b where b: "bTxs b = [demo_stx]" and v: "verify demo_sha demo_verify demo_ghash demo_c0 b = Inr demo_next"
    by (rule demo_disk_run)
  let ?n0 = "freshNode demo_genesis demo_s0"
  have r: "disk_run demo_sha demo_verify demo_sign demo_pub demo_ghash demo_line (demo_parse b) ?n0 ?n0" by (simp add: disk_run_def)
  have n0: "ndChain ?n0 = demo_c0" "\<not> ndFailed ?n0" "ndLog ?n0 = []" by (simp_all add: freshNode_def demo_c0_def)
  have v0: "verify demo_sha demo_verify demo_ghash (ndChain ?n0) b = Inr demo_next" using v n0(1) by simp
  have j: "demo_parse b (take 3 (demo_line b) @ demo_line b @ [NL]) = None" by (simp add: demo_parse_def demo_line_def)
  have k: "(0 :: nat) < 3" by simp
  from retry_after_failed_append [OF demo_s0 r n0(2) v0 demo_json k j] v0 b n0 show ?thesis
    by (auto simp: Let_def addBlockOn_verified appendLog_def tornAppend_def demo_line_def)
qed

end
