(* ===== verification/Node_Queries.thy ===== *)
theory Node_Queries
  imports Chain_Properties
begin

text \<open>
  The summaries a node publishes: Status, Counts and Recovery of node/chain/chain.go and Stats of
  node/chain/stats.go. Each reads the committed state under the lock and changes nothing; the
  loops over Go maps are taken in the order of the keys, and every counter they fill is a sum, so
  the order does not matter.

  The lemmas relate the published totals to the ledger: what Stats and Counts report as held in
  escrow is exactly what the escrows hold.
\<close>

subsection \<open>Single values\<close>

definition Height :: "Chain \<Rightarrow> 64 word" where
  "Height c = of_nat (length (chBlocks c))"

definition StateRoot :: "(bytes \<Rightarrow> hash) \<Rightarrow> Chain \<Rightarrow> err + hash" where
  "StateRoot sha c = Root sha (chState c)"

definition PoolAt :: "Chain \<Rightarrow> hash \<Rightarrow> Pool option" where
  "PoolAt c pid = fmlookup (stPools (chState c)) pid"

definition EscrowAt :: "Chain \<Rightarrow> hash \<Rightarrow> Escrow option" where
  "EscrowAt c eid = fmlookup (stEscrows (chState c)) eid"

record AssetStatus =
  asDef :: AssetDef
  asSupply :: amount

definition assetStatus :: "State \<Rightarrow> AssetStatus list" where
  "assetStatus s = map (\<lambda>e. \<lparr>asDef = snd e, asSupply = getd 0 (stAssetSupply s) (fst e)\<rparr>) (sortedEntries (stAssetDefs s))"

record Status =
  ssChainID :: string
  ssHeight :: "64 word"
  ssTipHash :: hash
  ssTipTime :: int
  ssStateRoot :: hash
  ssSupply :: amount
  ssBurned :: amount
  ssMinFee :: amount
  ssAssets :: "AssetStatus list"
  ssAccounts :: nat
  ssMempoolSize :: nat
  ssProposer :: addr

definition StatusOf :: "(bytes \<Rightarrow> hash) \<Rightarrow> (Genesis \<Rightarrow> hash) \<Rightarrow> Chain \<Rightarrow> err + Status" where
  "StatusOf sha ghash c =
     (let tip = tipLocked sha ghash c; s = chState c in
      case Root sha s of Inl e \<Rightarrow> Inl e
      | Inr r \<Rightarrow> Inr \<lparr>ssChainID = gnChainID (chGenesis c), ssHeight = tiHeight tip, ssTipHash = tiHash tip,
          ssTipTime = tiTime tip, ssStateRoot = r, ssSupply = stSupply s, ssBurned = stBurned s, ssMinFee = stMinFee s,
          ssAssets = assetStatus s, ssAccounts = fcard (fmdom (stAccounts s)), ssMempoolSize = fcard (fmdom (chMempool c)),
          ssProposer = gnProposer (chGenesis c)\<rparr>)"

subsection \<open>Counts\<close>

text \<open>\<open>m[k] += v\<close> on a Go map.\<close>

definition addTo :: "string \<Rightarrow> amount \<Rightarrow> (string, amount) fmap \<Rightarrow> (string, amount) fmap" where
  "addTo k v m = fmupd k (getd 0 m k + v) m"

record Counts =
  cnTxsTotal :: nat
  cnPools :: nat
  cnPoolsActive :: nat
  cnEscrows :: nat
  cnEscrowsOpen :: nat
  cnEscrowsDispute :: nat
  cnEscrowLocked :: "(string, amount) fmap"

definition countPool :: "Pool \<Rightarrow> Counts \<Rightarrow> Counts" where
  "countPool p n = (if pStatus p = PoolActive then n\<lparr>cnPoolsActive := cnPoolsActive n + 1\<rparr> else n)"

definition countEscrow :: "Escrow \<Rightarrow> Counts \<Rightarrow> Counts" where
  "countEscrow e n =
     (let n1 = (if Open e then n\<lparr>cnEscrowsOpen := cnEscrowsOpen n + 1,
                                 cnEscrowLocked := addTo (eAsset e) (eBalance e) (cnEscrowLocked n)\<rparr> else n)
      in if eStatus e = EscrowDisputed then n1\<lparr>cnEscrowsDispute := cnEscrowsDispute n1 + 1\<rparr> else n1)"

definition CountsOf :: "Chain \<Rightarrow> Counts" where
  "CountsOf c =
     (let s = chState c;
          n0 = \<lparr>cnTxsTotal = fcard (fmdom (chTxIndex c)), cnPools = fcard (fmdom (stPools s)), cnPoolsActive = 0,
                cnEscrows = fcard (fmdom (stEscrows s)), cnEscrowsOpen = 0, cnEscrowsDispute = 0, cnEscrowLocked = fmempty\<rparr>
      in fold countEscrow (map snd (sortedEntries (stEscrows s)))
           (fold countPool (map snd (sortedEntries (stPools s))) n0))"

subsection \<open>Stats\<close>

record EscrowStats =
  esTotal :: nat
  esOpen :: nat
  esCompleted :: nat
  esRefunded :: nat
  esDisputed :: nat
  esResolved :: nat
  esHeld :: "(string, amount) fmap"
  esToSellers :: "(string, amount) fmap"
  esToBuyers :: "(string, amount) fmap"
  esArbiterFee :: "(string, amount) fmap"

record CircleStats =
  csTotal :: nat
  csActive :: nat
  csCompleted :: nat
  csMembers :: nat
  csPayouts :: nat
  csPaidOut :: "(string, amount) fmap"
  csSaving :: "(string, amount) fmap"
  csMissed :: int
  csOnTime :: int

definition countStatus :: "EscrowStatus \<Rightarrow> EscrowStats \<Rightarrow> EscrowStats" where
  "countStatus st n =
     (case st of
        EscrowCompleted \<Rightarrow> n\<lparr>esCompleted := esCompleted n + 1\<rparr>
      | EscrowRefunded \<Rightarrow> n\<lparr>esRefunded := esRefunded n + 1\<rparr>
      | EscrowResolved \<Rightarrow> n\<lparr>esResolved := esResolved n + 1, esDisputed := esDisputed n + 1\<rparr>
      | EscrowDisputed \<Rightarrow> n\<lparr>esDisputed := esDisputed n + 1\<rparr>
      | _ \<Rightarrow> n)"

definition statEscrow :: "Escrow \<Rightarrow> EscrowStats \<Rightarrow> EscrowStats" where
  "statEscrow x n =
     (let n1 = countStatus (eStatus x) (n\<lparr>esTotal := esTotal n + 1\<rparr>);
          n2 = (if Open x then n1\<lparr>esOpen := esOpen n1 + 1, esHeld := addTo (eAsset x) (eBalance x) (esHeld n1)\<rparr> else n1);
          n3 = n2\<lparr>esToSellers := addTo (eAsset x) (ePaidSeller x) (esToSellers n2),
                  esToBuyers := addTo (eAsset x) (ePaidBuyer x) (esToBuyers n2)\<rparr>
      in if eArbiterFee x > 0 then n3\<lparr>esArbiterFee := addTo (eAsset x) (eArbiterFee x) (esArbiterFee n3)\<rparr> else n3)"

definition noEscrows :: EscrowStats where
  "noEscrows = \<lparr>esTotal = 0, esOpen = 0, esCompleted = 0, esRefunded = 0, esDisputed = 0, esResolved = 0,
     esHeld = fmempty, esToSellers = fmempty, esToBuyers = fmempty, esArbiterFee = fmempty\<rparr>"

definition noCircles :: CircleStats where
  "noCircles = \<lparr>csTotal = 0, csActive = 0, csCompleted = 0, csMembers = 0, csPayouts = 0,
     csPaidOut = fmempty, csSaving = fmempty, csMissed = 0, csOnTime = 0\<rparr>"

text \<open>The pots collected: what each collector was recorded as paid, or full pots where none is recorded.\<close>

definition paidOutOf :: "Pool \<Rightarrow> (string, amount) fmap \<Rightarrow> (string, amount) fmap" where
  "paidOutOf x m =
     (case pPaidOut x of
        None \<Rightarrow> addTo (pAsset x) (Pot x * of_nat (pRound x)) m
      | Some ps \<Rightarrow> fold (\<lambda>j m. if pClaimed x ! j then addTo (pAsset x) (ps ! j) m else m) [0..<length ps] m)"

definition statCircle :: "Pool \<Rightarrow> CircleStats \<Rightarrow> CircleStats" where
  "statCircle x n =
     (if pStatus x = PoolCancelled then n
      else
        let n1 = n\<lparr>csTotal := csTotal n + 1, csMembers := csMembers n + length (pMembers x),
                   csActive := csActive n + (if pStatus x = PoolActive then 1 else 0),
                   csCompleted := csCompleted n + (if pStatus x = PoolDone then 1 else 0),
                   csSaving := addTo (pAsset x) (pBalance x + Held x) (csSaving n)\<rparr>
        in if pMode x = PoolGoal then n1
           else
             let missed = int (sum_list (case pDefaults x of None \<Rightarrow> [] | Some ds \<Rightarrow> ds))
             in n1\<lparr>csPayouts := csPayouts n1 + pRound x, csPaidOut := paidOutOf x (csPaidOut n1),
                   csMissed := csMissed n1 + missed,
                   csOnTime := csOnTime n1 + max 0 (int (pRound x * length (pMembers x)) - missed)\<rparr>)"

definition Stats :: "Chain \<Rightarrow> EscrowStats \<times> CircleStats" where
  "Stats c =
     (fold statEscrow (map snd (sortedEntries (stEscrows (chState c)))) noEscrows,
      fold statCircle (map snd (sortedEntries (stPools (chState c)))) noCircles)"

subsection \<open>Recovery\<close>

record GuardRequest =
  grAccount :: addr
  grNewOwner :: addr
  grApprovals :: nat
  grThreshold :: int
  grApproved :: bool
  grReadyAt :: int

record RecoveryInfo =
  riGuardianship :: "Guardianship option"
  riRecoveredTo :: addr
  riGuarding :: "addr list"
  riRequests :: "GuardRequest list"

definition requestOf :: "State \<Rightarrow> addr \<Rightarrow> addr \<Rightarrow> GuardRequest option" where
  "requestOf s a acct =
     (case fmlookup (stGuards s) acct of None \<Rightarrow> None
      | Some g \<Rightarrow> (case gPending g of None \<Rightarrow> None
        | Some r \<Rightarrow> Some \<lparr>grAccount = acct, grNewOwner = rNewOwner r, grApprovals = length (rApprovals r),
            grThreshold = gThreshold g, grApproved = a \<in> set (rApprovals r), grReadyAt = rReadyAt r\<rparr>))"

definition RecoveryOf :: "Chain \<Rightarrow> addr \<Rightarrow> RecoveryInfo" where
  "RecoveryOf c a =
     (let s = chState c; accts = GuardedBy s a
      in \<lparr>riGuardianship = fmlookup (stGuards s) a, riRecoveredTo = getd '''' (stRecoveredTo s) a, riGuarding = accts,
          riRequests = List.map_filter (requestOf s a) accts\<rparr>)"

subsection \<open>Published totals\<close>

lemma sum_entries: "sum_list (map f (map snd (sortedEntries m))) = fmsum f m"
proof -
  have "sum_list (map f (map snd (sortedEntries m))) = (\<Sum>k\<leftarrow>sorted_list_of_fset (fmdom m). f (the (fmlookup m k)))"
    by (simp add: sortedEntries_def comp_def)
  also have "\<dots> = (\<Sum>k\<in>set (sorted_list_of_fset (fmdom m)). f (the (fmlookup m k)))"
    by (rule sum_list_distinct_conv_sum_set) (simp add: sorted_list_of_fset.rep_eq)
  also have "\<dots> = fmsum f m" by (simp add: fmsum_def sorted_list_of_fset.rep_eq fmdom'_alt_def)
  finally show ?thesis .
qed

lemma getd_addTo [simp]: "getd 0 (addTo k v m) j = getd 0 m j + (if j = k then v else 0)"
  by (simp add: addTo_def)

lemma countStatus_held [simp]: "esHeld (countStatus st n) = esHeld n"
  by (simp add: countStatus_def split: EscrowStatus.split)

lemma held_fold:
  "getd 0 (esHeld (fold statEscrow es n)) k =
   getd 0 (esHeld n) k + sum_list (map (\<lambda>e. if Open e \<and> eAsset e = k then eBalance e else 0) es)"
  by (induction es arbitrary: n) (auto simp: statEscrow_def Let_def add.assoc)

lemma locked_fold:
  "getd 0 (cnEscrowLocked (fold countEscrow es n)) k =
   getd 0 (cnEscrowLocked n) k + sum_list (map (\<lambda>e. if Open e \<and> eAsset e = k then eBalance e else 0) es)"
  by (induction es arbitrary: n) (auto simp: countEscrow_def Let_def add.assoc)

lemma countPools_locked: "cnEscrowLocked (fold countPool ps n) = cnEscrowLocked n"
  by (induction ps arbitrary: n) (simp_all add: countPool_def)

text \<open>
  Published escrow totals. For every asset, what Stats reports as held and what Counts reports
  as locked in escrow is exactly what all escrows of a well-formed ledger hold, closed ones
  included: nothing is held that the scoreboard does not show.
\<close>

theorem stats_held_is_all_escrowed:
  assumes "wf_escrows (chState c)"
  shows "getd 0 (esHeld (fst (Stats c))) k = escrowsTotal (chState c) k \<and>
    getd 0 (cnEscrowLocked (CountsOf c)) k = escrowsTotal (chState c) k"
proof -
  let ?f = "\<lambda>e. if Open e \<and> eAsset e = k then eBalance e else 0"
  have closed: "\<not> Open e \<Longrightarrow> eBalance e = 0" if "fmlookup (stEscrows (chState c)) i = Some e" for i e
    using assms that by (auto simp: wf_escrows_def wf_escrow_def)
  have "fmsum ?f (stEscrows (chState c)) = escrowsTotal (chState c) k"
    unfolding escrowsTotal_def by (rule fmsum_cong) (use closed in auto)
  then show ?thesis
    by (simp add: Stats_def CountsOf_def Let_def held_fold locked_fold countPools_locked noEscrows_def sum_entries [symmetric] del: map_map)
qed

theorem stats_held_is_all_escrowed_witness: "getd 0 (esHeld (fst (Stats demo_c0))) '''' = escrowsTotal demo_s0 ''''"
proof -
  have "wf_state (demo_s0\<lparr>stNow := 1\<rparr>)" by (rule GenesisState_wf [OF demo_s0]) (simp add: sane_time_def)
  then have "wf_escrows (chState demo_c0)" by (simp add: wf_state_def wf_escrows_def demo_c0_def emptyChain_def)
  from stats_held_is_all_escrowed [OF this] show ?thesis by (simp add: demo_c0_def emptyChain_def)
qed

lemma set_GuardedBy: "acct \<in> set (GuardedBy s a) \<longleftrightarrow> (\<exists>g. fmlookup (stGuards s) acct = Some g \<and> a \<in> set (gGuardians g))"
  by (auto simp: GuardedBy_def sorted_list_of_fset.rep_eq fmlookup_dom_iff)

lemma requestOf_Some: "requestOf s a acct = Some q \<longleftrightarrow>
    (\<exists>g r. fmlookup (stGuards s) acct = Some g \<and> gPending g = Some r \<and>
      q = \<lparr>grAccount = acct, grNewOwner = rNewOwner r, grApprovals = length (rApprovals r), grThreshold = gThreshold g,
        grApproved = a \<in> set (rApprovals r), grReadyAt = rReadyAt r\<rparr>)"
  by (auto simp: requestOf_def split: option.split)

text \<open>
  Recovery requests. What a node tells a key it can act on as guardian is exactly the pending
  recoveries of accounts that name it, each with the true number of approvals, and marked approved
  exactly if this key approved it.
\<close>

theorem recovery_requests_exact:
  "set (riRequests (RecoveryOf c a)) =
   {\<lparr>grAccount = acct, grNewOwner = rNewOwner r, grApprovals = length (rApprovals r), grThreshold = gThreshold g,
     grApproved = a \<in> set (rApprovals r), grReadyAt = rReadyAt r\<rparr> | acct g r.
     fmlookup (stGuards (chState c)) acct = Some g \<and> a \<in> set (gGuardians g) \<and> gPending g = Some r}"
proof -
  have mf: "set (List.map_filter f xs) = {y. \<exists>x\<in>set xs. f x = Some y}" for f :: "'x \<Rightarrow> 'y option" and xs
    by (induction xs) (auto simp: List.map_filter_def)
  show ?thesis
    by (simp only: RecoveryOf_def Let_def RecoveryInfo.select_convs mf set_GuardedBy Bex_def)
      (auto simp: requestOf_Some)
qed

end
