(* ===== verification/Abci.thy ===== *)
theory Abci
  imports Node_Queries
begin

text \<open>
  The CometBFT application: node/abci/app.go. CometBFT checks transactions for its mempool, asks
  for a proposal, and hands each decided block to FinalizeBlock, which executes it and returns the
  app hash; Commit then persists it.

  \<open>unmarshal\<close> is \<open>encoding/json\<close> on a transaction. A request is the record of the fields the
  code reads. The int64 sizes of a proposal are integers: they stay below the limit CometBFT gives.
\<close>

subsection \<open>The application\<close>

record decided =
  dcBlock :: Block
  dcState :: State

record Application =
  apC :: Chain
  apPending :: "decided option"

definition codeOK :: nat where "codeOK = 0"
definition codeBadTx :: nat where "codeBadTx = 1"
definition codeRejected :: nat where "codeRejected = 2"
definition maxTxBytes :: nat where "maxTxBytes = 65536"

definition DecodeTx :: "(bytes \<Rightarrow> Tx option) \<Rightarrow> bytes \<Rightarrow> err + Tx" where
  "DecodeTx unmarshal b =
     (if length b > maxTxBytes then Inl (Err ''transaction too large'')
      else case unmarshal b of None \<Rightarrow> Inl (Err ''malformed transaction'') | Some tx \<Rightarrow> Inr tx)"

text \<open>The height as int64 and, above genesis, the app hash.\<close>

definition Info :: "(bytes \<Rightarrow> hash) \<Rightarrow> Application \<Rightarrow> err + int \<times> hash option" where
  "Info sha a =
     (let h = Height (apC a) in
      if h > 0 then (case StateRoot sha (apC a) of Inl e \<Rightarrow> Inl e | Inr r \<Rightarrow> Inr (sint h, Some r))
      else Inr (sint h, None))"

definition CheckTx :: "(bytes \<Rightarrow> hash) \<Rightarrow> (bytes \<Rightarrow> bytes \<Rightarrow> bytes \<Rightarrow> bool) \<Rightarrow> (Genesis \<Rightarrow> hash) \<Rightarrow> (bytes \<Rightarrow> Tx option) \<Rightarrow>
    int \<Rightarrow> Application \<Rightarrow> bytes \<Rightarrow> Application \<times> nat \<times> err option" where
  "CheckTx sha ed_verify ghash unmarshal clock a raw =
     (case DecodeTx unmarshal raw of Inl e \<Rightarrow> (a, codeBadTx, Some e)
      | Inr tx \<Rightarrow>
        (case CheckPending sha ed_verify ghash clock (apC a) tx of
           (c, Some e) \<Rightarrow> (a\<lparr>apC := c\<rparr>, codeRejected, Some e)
         | (c, None) \<Rightarrow> (a\<lparr>apC := c\<rparr>, codeOK, None)))"

fun prepareLoop :: "int \<Rightarrow> bytes list \<Rightarrow> bytes list \<Rightarrow> int \<Rightarrow> bytes list" where
  "prepareLoop maxBytes [] out used = out"
| "prepareLoop maxBytes (tx # txs) out used =
     (if used + int (length tx) > maxBytes \<or> length out = MaxBlockTxs then out
      else prepareLoop maxBytes txs (out @ [tx]) (used + int (length tx)))"

definition PrepareProposal :: "int \<Rightarrow> bytes list \<Rightarrow> bytes list" where
  "PrepareProposal maxBytes txs = prepareLoop maxBytes txs [] 0"

definition ProcessProposal :: "bytes list \<Rightarrow> bool" where
  "ProcessProposal txs = True"

record FinalizeReq =
  frHeight :: int
  frTimeMs :: int
  frProposerAddress :: bytes
  frTxs :: "bytes list"

record ExecTxResult =
  xrCode :: nat
  xrLog :: "err option"
  xrData :: bytes

definition txOf :: "err + Tx \<Rightarrow> Tx option" where
  "txOf r = (case r of Inl e \<Rightarrow> None | Inr tx \<Rightarrow> Some tx)"

definition execResult :: "(bytes \<Rightarrow> hash) \<Rightarrow> err + Tx \<Rightarrow> err option \<Rightarrow> ExecTxResult" where
  "execResult sha dec e =
     (case dec of Inl d \<Rightarrow> \<lparr>xrCode = codeBadTx, xrLog = Some d, xrData = []\<rparr>
      | Inr tx \<Rightarrow> (case e of Some x \<Rightarrow> \<lparr>xrCode = codeRejected, xrLog = Some x, xrData = []\<rparr>
                 | None \<Rightarrow> \<lparr>xrCode = codeOK, xrLog = None, xrData = ID sha tx\<rparr>))"

definition FinalizeBlock :: "(bytes \<Rightarrow> hash) \<Rightarrow> (bytes \<Rightarrow> bytes \<Rightarrow> bytes \<Rightarrow> bool) \<Rightarrow> (Genesis \<Rightarrow> hash) \<Rightarrow>
    (bytes \<Rightarrow> Tx option) \<Rightarrow> Application \<Rightarrow> FinalizeReq \<Rightarrow> err + Application \<times> ExecTxResult list \<times> hash" where
  "FinalizeBlock sha ed_verify ghash unmarshal a req =
     (let decs = map (DecodeTx unmarshal) (frTxs req) in
      case ExecuteDecided sha ed_verify ghash (apC a) (word_of_int (frHeight req)) (frTimeMs req)
             (hex_encode (frProposerAddress req)) (map txOf decs) of
        Inl e \<Rightarrow> Inl e
      | Inr (b, next, errs) \<Rightarrow>
          Inr (a\<lparr>apPending := Some \<lparr>dcBlock = b, dcState = next\<rparr>\<rparr>, map2 (execResult sha) decs errs, hStateRoot (bHeader b)))"

definition Commit :: "(bytes \<Rightarrow> hash) \<Rightarrow> err option \<Rightarrow> Application \<Rightarrow> Application \<times> err option" where
  "Commit sha logErr a =
     (case apPending a of None \<Rightarrow> (a\<lparr>apPending := None\<rparr>, None)
      | Some p \<Rightarrow>
        (case CommitDecided sha logErr (dcBlock p) (dcState p) (apC a) of
           (c, Some e) \<Rightarrow> (a\<lparr>apC := c, apPending := None\<rparr>, Some (Wrap ''commit block'' e))
         | (c, None) \<Rightarrow> (a\<lparr>apC := c, apPending := None\<rparr>, None)))"

subsection \<open>Replicas\<close>

text \<open>What CometBFT calls on a node; \<open>runCalls\<close> collects the answers to decided blocks.\<close>

datatype AbciCall = CheckCall int bytes | FinalizeCall FinalizeReq | CommitCall

definition isCheck :: "AbciCall \<Rightarrow> bool" where
  "isCheck x = (case x of CheckCall t raw \<Rightarrow> True | _ \<Rightarrow> False)"

lemma isCheck_simps [simp]: "isCheck (CheckCall t raw)" "\<not> isCheck (FinalizeCall req)" "\<not> isCheck CommitCall"
  by (simp_all add: isCheck_def)

fun runCalls :: "(bytes \<Rightarrow> hash) \<Rightarrow> (bytes \<Rightarrow> bytes \<Rightarrow> bytes \<Rightarrow> bool) \<Rightarrow> (Genesis \<Rightarrow> hash) \<Rightarrow> (bytes \<Rightarrow> Tx option) \<Rightarrow>
    AbciCall list \<Rightarrow> Application \<Rightarrow> (err + ExecTxResult list \<times> hash) list \<times> Application" where
  "runCalls sha ed_verify ghash unmarshal [] a = ([], a)"
| "runCalls sha ed_verify ghash unmarshal (CheckCall t raw # cs) a =
     runCalls sha ed_verify ghash unmarshal cs (fst (CheckTx sha ed_verify ghash unmarshal t a raw))"
| "runCalls sha ed_verify ghash unmarshal (FinalizeCall req # cs) a =
     (case FinalizeBlock sha ed_verify ghash unmarshal a req of
        Inl e \<Rightarrow> ([Inl e], a)
      | Inr (a', rs, h) \<Rightarrow>
          (let (out, z) = runCalls sha ed_verify ghash unmarshal cs a' in (Inr (rs, h) # out, z)))"
| "runCalls sha ed_verify ghash unmarshal (CommitCall # cs) a =
     runCalls sha ed_verify ghash unmarshal cs (fst (Commit sha None a))"

definition same_app :: "Application \<Rightarrow> Application \<Rightarrow> bool" where
  "same_app a b \<longleftrightarrow> same_chain (apC a) (apC b) \<and> apPending a = apPending b"

lemma same_app_refl [simp]: "same_app a a"
  by (simp add: same_app_def)

lemma same_app_sym: "same_app a b \<Longrightarrow> same_app b a"
  by (simp add: same_app_def same_chain_sym)

lemma same_app_trans: "same_app a b \<Longrightarrow> same_app b c \<Longrightarrow> same_app a c"
  using same_chain_trans by (auto simp: same_app_def)

lemma ExecuteDecided_cong:
  assumes s: "same_chain c d"
  shows "ExecuteDecided sha ed_verify ghash c h t p txs = ExecuteDecided sha ed_verify ghash d h t p txs"
proof -
  have g: "chGenesis c = chGenesis d" and n: "\<And>x. (chState c)\<lparr>stNow := x\<rparr> = (chState d)\<lparr>stNow := x\<rparr>"
    using s by (simp_all add: same_chain_def same_ledger_set)
  show ?thesis unfolding ExecuteDecided_def tip_cong [OF s] g n ..
qed

lemma CheckTx_same: "same_app a (fst (CheckTx sha ed_verify ghash unmarshal t a raw))"
proof (cases "DecodeTx unmarshal raw")
  case (Inl e)
  then show ?thesis by (simp add: CheckTx_def)
next
  case (Inr tx)
  obtain c e where p: "CheckPending sha ed_verify ghash t (apC a) tx = (c, e)" by (cases "CheckPending sha ed_verify ghash t (apC a) tx")
  then have "same_chain (apC a) c" using CheckPending_core [of "apC a" sha ed_verify ghash t tx] by (simp add: keeps_core_def)
  then show ?thesis using Inr p by (cases e) (simp_all add: CheckTx_def same_app_def)
qed

lemma Finalize_same:
  assumes "same_app a b"
  shows "rel_sum (=) (rel_prod same_app (=)) (FinalizeBlock sha ed_verify ghash unmarshal a req)
           (FinalizeBlock sha ed_verify ghash unmarshal b req)"
  using assms ExecuteDecided_cong [of "apC a" "apC b" sha ed_verify ghash]
  by (simp add: FinalizeBlock_def same_app_def Let_def split: sum.split)

lemma Commit_same:
  assumes "same_app a b"
  shows "same_app (fst (Commit sha None a)) (fst (Commit sha None b))"
proof (cases "apPending a")
  case None
  then show ?thesis using assms by (simp add: Commit_def same_app_def)
next
  case (Some p)
  have s: "same_chain (apC a) (apC b)" and q: "apPending b = Some p" using assms Some by (simp_all add: same_app_def)
  have "length (chBlocks (apC a)) = length (chBlocks (apC b))" using s by (simp add: same_chain_def)
  then show ?thesis
    using s q Some commit_cong [OF s] by (auto simp: Commit_def CommitDecided_def same_app_def)
qed

lemma runCalls_checks:
  assumes "same_app a b"
  shows "fst (runCalls sha ed_verify ghash unmarshal cs a) =
      fst (runCalls sha ed_verify ghash unmarshal (filter (\<lambda>x. \<not> isCheck x) cs) b) \<and>
    same_app (snd (runCalls sha ed_verify ghash unmarshal cs a))
      (snd (runCalls sha ed_verify ghash unmarshal (filter (\<lambda>x. \<not> isCheck x) cs) b))"
  using assms
proof (induction cs arbitrary: a b)
  case Nil
  then show ?case by simp
next
  case (Cons x cs)
  show ?case
  proof (cases x)
    case (CheckCall t raw)
    have "same_app (fst (CheckTx sha ed_verify ghash unmarshal t a raw)) b"
      using same_app_trans [OF same_app_sym [OF CheckTx_same] Cons.prems] .
    from Cons.IH [OF this] show ?thesis by (simp add: CheckCall)
  next
    case (FinalizeCall req)
    have f: "\<not> isCheck x" by (simp add: FinalizeCall)
    note s = Finalize_same [OF Cons.prems, of sha ed_verify ghash unmarshal req]
    show ?thesis
    proof (cases "FinalizeBlock sha ed_verify ghash unmarshal a req")
      case (Inl e)
      with s have "FinalizeBlock sha ed_verify ghash unmarshal b req = Inl e"
        by (cases "FinalizeBlock sha ed_verify ghash unmarshal b req") auto
      with Inl show ?thesis using Cons.prems by (simp add: FinalizeCall)
    next
      case (Inr r)
      obtain a' o' where r: "r = (a', o')" by (cases r)
      from s Inr r obtain b' where b': "FinalizeBlock sha ed_verify ghash unmarshal b req = Inr (b', o')" "same_app a' b'"
        by (cases "FinalizeBlock sha ed_verify ghash unmarshal b req") auto
      from Cons.IH [OF b'(2)] Inr r b'(1) show ?thesis
        by (cases o') (simp add: FinalizeCall split_beta)
    qed
  next
    case CommitCall
    from Cons.IH [OF Commit_same [OF Cons.prems]] show ?thesis by (simp add: CommitCall)
  qed
qed

lemma sint_small: "n < 2 ^ 63 \<Longrightarrow> sint (of_nat n :: 64 word) = int n"
  using sint_sbintrunc' [of "int n", where 'a = 64] by (simp add: signed_take_bit_int_eq_self)

subsection \<open>Properties\<close>

text \<open>
  C19: validators agree. Two nodes that hold the same blocks and ledger, and are given the same
  sequence of decided blocks and commits, return the same results and the same app hashes for every
  block, whatever transactions each was asked to check in between and whatever their mempools and
  clocks, and end with the same blocks and ledger.
\<close>

theorem validators_agree:
  assumes "same_chain c d"
    and "filter (\<lambda>x. \<not> isCheck x) xs = filter (\<lambda>x. \<not> isCheck x) ys"
  shows "fst (runCalls sha ed_verify ghash unmarshal xs \<lparr>apC = c, apPending = None\<rparr>) =
      fst (runCalls sha ed_verify ghash unmarshal ys \<lparr>apC = d, apPending = None\<rparr>) \<and>
    same_app (snd (runCalls sha ed_verify ghash unmarshal xs \<lparr>apC = c, apPending = None\<rparr>))
      (snd (runCalls sha ed_verify ghash unmarshal ys \<lparr>apC = d, apPending = None\<rparr>))"
proof -
  let ?a = "\<lparr>apC = c, apPending = None\<rparr>" and ?b = "\<lparr>apC = d, apPending = None\<rparr>"
  let ?r = "runCalls sha ed_verify ghash unmarshal" and ?f = "filter (\<lambda>x. \<not> isCheck x)"
  have s: "same_app ?a ?b" using assms(1) by (simp add: same_app_def)
  note x = runCalls_checks [OF s, of sha ed_verify ghash unmarshal xs]
  note y = runCalls_checks [OF same_app_refl, of sha ed_verify ghash unmarshal ys ?b]
  have "fst (?r xs ?a) = fst (?r ys ?b)" unfolding conjunct1 [OF x] conjunct1 [OF y] assms(2) ..
  moreover have "same_app (snd (?r xs ?a)) (snd (?r ys ?b))"
    using same_app_trans [OF conjunct2 [OF x] same_app_sym [OF conjunct2 [OF y, folded assms(2)]]] .
  ultimately show ?thesis ..
qed

definition demo_req :: FinalizeReq where
  "demo_req = \<lparr>frHeight = 1, frTimeMs = 1000, frProposerAddress = [], frTxs = [''junk'', ''tx'']\<rparr>"

definition demo_unmarshal :: "bytes \<Rightarrow> Tx option" where
  "demo_unmarshal b = (if b = ''tx'' then Some demo_stx else None)"

theorem validators_agree_witness:
  "fst (runCalls demo_sha demo_verify demo_ghash demo_unmarshal [FinalizeCall demo_req, CommitCall] \<lparr>apC = demo_c0, apPending = None\<rparr>) =
   fst (runCalls demo_sha demo_verify demo_ghash demo_unmarshal [CheckCall 5 ''tx'', FinalizeCall demo_req, CheckCall 7 ''tx'', CommitCall]
     \<lparr>apC = Forget [] demo_c0, apPending = None\<rparr>)"
proof -
  have s: "same_chain demo_c0 (Forget [] demo_c0)" by (simp add: Forget_def same_chain_def)
  have f: "filter (\<lambda>x. \<not> isCheck x) [FinalizeCall demo_req, CommitCall] =
      filter (\<lambda>x. \<not> isCheck x) [CheckCall 5 ''tx'', FinalizeCall demo_req, CheckCall 7 ''tx'', CommitCall]" by simp
  from validators_agree [OF s f] show ?thesis by blast
qed

text \<open>
  The app hash. When CometBFT's next block is finalized and committed, the application reports
  the new height, the app hash it returned for the block is the root of the state it committed, and
  the block it stored passes verification; a second Commit changes nothing.
\<close>

theorem finalized_block_commits:
  assumes "BFT (chGenesis (apC a))" and "heights_ok (apC a)" and "frHeight req = int (length (chBlocks (apC a))) + 1"
    and "length (chBlocks (apC a)) + 1 < 2 ^ 63"
    and "FinalizeBlock sha ed_verify ghash unmarshal a req = Inr (a', rs, h)"
  shows "\<exists>z b. Commit sha None a' = (z, None) \<and> Info sha z = Inr (frHeight req, Some h) \<and>
    chBlocks (apC z) = chBlocks (apC a) @ [b] \<and> verify sha ed_verify ghash (apC a) b = Inr (chState (apC z)) \<and>
    length rs = length (frTxs req) \<and> Commit sha None z = (z, None)"
proof -
  let ?c = "apC a" and ?n = "length (chBlocks (apC a))"
  let ?decs = "map (DecodeTx unmarshal) (frTxs req)"
  obtain b "next" errs where ex: "ExecuteDecided sha ed_verify ghash ?c (word_of_int (frHeight req)) (frTimeMs req)
      (hex_encode (frProposerAddress req)) (map txOf ?decs) = Inr (b, next, errs)"
    and a': "a' = a\<lparr>apPending := Some \<lparr>dcBlock = b, dcState = next\<rparr>\<rparr>" and h: "h = hStateRoot (bHeader b)"
    and rs: "rs = map2 (execResult sha) ?decs errs"
    using assms(5) by (auto simp: FinalizeBlock_def Let_def split: sum.splits prod.splits)
  have ht: "(word_of_int (frHeight req) :: 64 word) = of_nat ?n + 1" using assms(3) by simp
  then have tip: "word_of_int (frHeight req) = tiHeight (tipLocked sha ghash ?c) + 1" using tipHeight [OF assms(2)] by simp
  have v: "verify sha ed_verify ghash ?c b = Inr next" by (rule ExecuteDecided_verifies [OF assms(1) tip ex])
  have bh: "hHeight (bHeader b) = of_nat ?n + 1" and root: "Root sha next = Inr (hStateRoot (bHeader b))"
    and le: "length errs = length (map txOf ?decs)"
    using ex ht execOne_ok(3) by (auto simp: ExecuteDecided_def Let_def newBlock_def split: prod.splits sum.splits)
  let ?z = "a\<lparr>apC := commit sha b next ?c, apPending := None\<rparr>"
  have c: "Commit sha None a' = (?z, None)" by (simp add: a' Commit_def CommitDecided_def bh)
  have hz: "Height (apC ?z) = of_nat (?n + 1)" by (simp add: Height_def)
  have "sint (of_nat (?n + 1) :: 64 word) = int (?n + 1)" using assms(4) by (rule sint_small)
  moreover have "(0 :: 64 word) < of_nat (?n + 1)"
    using assms(4) unat_of_nat64 [of "?n + 1"] by (simp add: word_less_nat_alt)
  ultimately have "Info sha ?z = Inr (frHeight req, Some h)"
    using root assms(3) unfolding Info_def hz StateRoot_def by (simp add: h Let_def)
  moreover have "Commit sha None ?z = (?z, None)" by (simp add: Commit_def)
  moreover have "length rs = length (frTxs req)" using le by (simp add: rs)
  ultimately show ?thesis using c v by (intro exI [of _ ?z] exI [of _ b]) simp
qed

theorem finalized_block_commits_witness:
  "\<exists>a' rs h z. FinalizeBlock demo_sha demo_verify demo_ghash demo_unmarshal \<lparr>apC = demo_c0, apPending = None\<rparr> demo_req = Inr (a', rs, h) \<and>
     Commit demo_sha None a' = (z, None) \<and> Info demo_sha z = Inr (1, Some h) \<and> length rs = 2"
proof -
  let ?a = "\<lparr>apC = demo_c0, apPending = None\<rparr>"
  obtain b where "ExecuteDecided demo_sha demo_verify demo_ghash demo_c0 1 1000 '''' [None, Some demo_stx] =
      Inr (b, demo_next, [Some (Err ''malformed transaction''), None])" using demo_decided .
  then obtain a' rs h where f: "FinalizeBlock demo_sha demo_verify demo_ghash demo_unmarshal ?a demo_req = Inr (a', rs, h)"
    by (simp add: FinalizeBlock_def demo_req_def demo_unmarshal_def DecodeTx_def maxTxBytes_def txOf_def hex_encode_def)
  have "BFT (chGenesis (apC ?a))" "heights_ok (apC ?a)" "frHeight demo_req = int (length (chBlocks (apC ?a))) + 1"
    "length (chBlocks (apC ?a)) + 1 < 2 ^ 63"
    by (simp_all add: demo_c0_def emptyChain_def demo_genesis_def BFT_def heights_ok_def demo_req_def)
  from finalized_block_commits [OF this f] obtain z where
    "Commit demo_sha None a' = (z, None)" "Info demo_sha z = Inr (frHeight demo_req, Some h)"
    "length rs = length (frTxs demo_req)" by blast
  then show ?thesis using f by (intro exI [of _ a'] exI [of _ rs] exI [of _ h] exI [of _ z]) (simp add: demo_req_def)
qed

lemma prepareLoop_spec:
  assumes "0 \<le> used" "used \<le> maxBytes" "length out \<le> MaxBlockTxs"
  shows "\<exists>k\<le>length txs. prepareLoop maxBytes txs out used = out @ take k txs \<and>
    used + sum_list (map (int \<circ> length) (take k txs)) \<le> maxBytes \<and> length out + k \<le> MaxBlockTxs \<and>
    (k < length txs \<longrightarrow> length out + k = MaxBlockTxs \<or>
       used + sum_list (map (int \<circ> length) (take (Suc k) txs)) > maxBytes)"
  using assms
proof (induction txs arbitrary: out used)
  case Nil
  then show ?case by simp
next
  case (Cons t txs)
  show ?case
  proof (cases "used + int (length t) > maxBytes \<or> length out = MaxBlockTxs")
    case True
    with Cons.prems show ?thesis by (intro exI [of _ 0]) auto
  next
    case False
    have a: "0 \<le> used + int (length t)" and b: "used + int (length t) \<le> maxBytes" using False Cons.prems by simp_all
    have "length out \<noteq> MaxBlockTxs" using False by blast
    then have c: "length (out @ [t]) \<le> MaxBlockTxs" using Cons.prems(3) by simp
    from Cons.IH [OF a b c] obtain k where k: "k \<le> length txs"
      "prepareLoop maxBytes txs (out @ [t]) (used + int (length t)) = (out @ [t]) @ take k txs"
      "used + int (length t) + sum_list (map (int \<circ> length) (take k txs)) \<le> maxBytes"
      "length (out @ [t]) + k \<le> MaxBlockTxs"
      "k < length txs \<longrightarrow> length (out @ [t]) + k = MaxBlockTxs \<or>
         used + int (length t) + sum_list (map (int \<circ> length) (take (Suc k) txs)) > maxBytes" by blast
    have "prepareLoop maxBytes (t # txs) out used = out @ take (Suc k) (t # txs)" using False k(2) by simp
    moreover have "used + sum_list (map (int \<circ> length) (take (Suc k) (t # txs))) \<le> maxBytes"
      using k(3) by (simp add: add.assoc)
    moreover have "length out + Suc k \<le> MaxBlockTxs" using k(4) by simp
    moreover have "Suc k < length (t # txs) \<longrightarrow> length out + Suc k = MaxBlockTxs \<or>
        used + sum_list (map (int \<circ> length) (take (Suc (Suc k)) (t # txs))) > maxBytes"
      using k(5) by (simp add: add.assoc)
    moreover have "Suc k \<le> length (t # txs)" using k(1) by simp
    ultimately show ?thesis by blast
  qed
qed

text \<open>
  Proposals. A proposal is a prefix of the mempool's transactions in their order, has at most
  1000 transactions, fits the byte limit CometBFT gives (if that is not negative), and stops early
  only when the next transaction would break one of the limits.
\<close>

theorem proposal_fits:
  assumes "0 \<le> maxBytes"
  shows "\<exists>k\<le>length txs. PrepareProposal maxBytes txs = take k txs \<and> k \<le> MaxBlockTxs \<and>
    sum_list (map (int \<circ> length) (PrepareProposal maxBytes txs)) \<le> maxBytes \<and>
    (k < length txs \<longrightarrow> k = MaxBlockTxs \<or> sum_list (map (int \<circ> length) (take (Suc k) txs)) > maxBytes)"
proof -
  from prepareLoop_spec [of 0 maxBytes "[]" txs] assms obtain k where "k \<le> length txs"
    "prepareLoop maxBytes txs [] 0 = take k txs" "sum_list (map (int \<circ> length) (take k txs)) \<le> maxBytes" "k \<le> MaxBlockTxs"
    "k < length txs \<longrightarrow> k = MaxBlockTxs \<or> sum_list (map (int \<circ> length) (take (Suc k) txs)) > maxBytes" 
    unfolding append_Nil add_0 list.size by blast
  then show ?thesis unfolding PrepareProposal_def by metis
qed

theorem proposal_fits_witness:
  "\<exists>k\<le>length [''ab'', ''c'', ''de'']. PrepareProposal 4 [''ab'', ''c'', ''de''] = take k [''ab'', ''c'', ''de'']"
proof -
  have "(0::int) \<le> 4" by simp
  from proposal_fits [OF this, of "[''ab'', ''c'', ''de'']"] show ?thesis by blast
qed

end
