(* ===== verification/Mnemonic.thy ===== *)
theory Mnemonic
  imports Encoding_Properties
begin

unbundle bit_operations_syntax

text \<open>
  Recovery phrases: node/mnemonic/mnemonic.go. A 32-byte seed and the first byte of its SHA-256
  make a 264-bit number, written as 24 words of 11 bits.

  The word list is the embedded file english.txt, a parameter here: 2048 different words of
  lower-case letters. \<open>big.Int\<close> is \<open>nat\<close>, and the \<open>strings\<close> functions are those on ASCII text.
\<close>

subsection \<open>The code\<close>

text \<open>White space of \<open>strings.Fields\<close>, and its words.\<close>

definition is_space :: "char \<Rightarrow> bool" where
  "is_space c = (let n = of_char c :: nat in (9 \<le> n \<and> n \<le> 13) \<or> n = 32)"

fun fieldsFrom :: "string \<Rightarrow> string \<Rightarrow> string list" where
  "fieldsFrom w [] = (if w = [] then [] else [w])"
| "fieldsFrom w (c # s) =
     (if is_space c then (if w = [] then [] else [w]) @ fieldsFrom [] s else fieldsFrom (w @ [c]) s)"

definition Fields :: "string \<Rightarrow> string list" where
  "Fields s = fieldsFrom [] s"

fun joinSpace :: "string list \<Rightarrow> string" where
  "joinSpace [] = []"
| "joinSpace [w] = w"
| "joinSpace (w # ws) = w @ CHR '' '' # joinSpace ws"

text \<open>\<open>SetBytes\<close> and \<open>FillBytes\<close>: big-endian.\<close>

definition setBytes :: "bytes \<Rightarrow> nat" where
  "setBytes bs = foldl (\<lambda>n c. n * 256 + of_char c) 0 bs"

fun fillBytes :: "nat \<Rightarrow> nat \<Rightarrow> bytes" where
  "fillBytes 0 n = []"
| "fillBytes (Suc k) n = fillBytes k (n div 256) @ [char_of (n mod 256)]"

text \<open>The word list and its index: the last position of a word, as the map keeps the last entry.\<close>

fun wordIndexFrom :: "nat \<Rightarrow> string list \<Rightarrow> string \<Rightarrow> nat option" where
  "wordIndexFrom i [] w = None"
| "wordIndexFrom i (v # vs) w =
     (case wordIndexFrom (i + 1) vs w of Some j \<Rightarrow> Some j | None \<Rightarrow> if v = w then Some i else None)"

definition wordIndex :: "string list \<Rightarrow> string \<Rightarrow> nat option" where
  "wordIndex words w = wordIndexFrom 0 words w"

text \<open>The loops of Encode, from the last word down, and of Decode.\<close>

fun encodeLoop :: "string list \<Rightarrow> nat \<Rightarrow> nat \<Rightarrow> string list" where
  "encodeLoop words 0 n = []"
| "encodeLoop words (Suc i) n = encodeLoop words i (drop_bit 11 n) @ [words ! (n AND 2047)]"

definition Encode :: "(bytes \<Rightarrow> hash) \<Rightarrow> string list \<Rightarrow> bytes \<Rightarrow> err + string" where
  "Encode sha words seed =
     (if length seed \<noteq> 32 then Inl (Err ''seed must be 32 bytes'')
      else Inr (joinSpace (encodeLoop words 24 (setBytes (seed @ [hd (sha seed)])))))"

fun decodeLoop :: "string list \<Rightarrow> nat \<Rightarrow> string list \<Rightarrow> err + nat" where
  "decodeLoop words n [] = Inr n"
| "decodeLoop words n (w # ws) =
     (case wordIndex words w of
        None \<Rightarrow> Inl (Err ''word is not in the word list'')
      | Some v \<Rightarrow> decodeLoop words (push_bit 11 n OR v) ws)"

definition Decode :: "(bytes \<Rightarrow> hash) \<Rightarrow> string list \<Rightarrow> string \<Rightarrow> err + bytes" where
  "Decode sha words phrase =
     (let ws = Fields (map to_lower phrase) in
      if length ws \<noteq> 24 then Inl (Err ''expected 24 words'')
      else case decodeLoop words 0 ws of Inl e \<Rightarrow> Inl e
      | Inr n \<Rightarrow>
          (let buf = fillBytes 33 n; seed = take 32 buf in
           if hd (sha seed) \<noteq> buf ! 32 then Inl (Err ''checksum mismatch: check the words and their order'')
           else Inr seed))"

subsection \<open>Words and numbers\<close>

definition word_list :: "string list \<Rightarrow> bool" where
  "word_list words \<longleftrightarrow> length words = 2048 \<and> distinct words \<and>
     (\<forall>w\<in>set words. w \<noteq> [] \<and> (\<forall>c\<in>set w. \<not> is_space c \<and> to_lower c = c))"

lemma wordIndexFrom_Some:
  "wordIndexFrom i words w = Some j \<Longrightarrow> i \<le> j \<and> j < i + length words \<and> words ! (j - i) = w"
proof (induction words arbitrary: i)
  case Nil
  then show ?case by simp
next
  case (Cons v vs)
  show ?case
  proof (cases "wordIndexFrom (i + 1) vs w")
    case None
    then show ?thesis using Cons.prems by (auto split: if_splits)
  next
    case (Some k)
    then have "k = j" using Cons.prems by simp
    with Cons.IH [of "i + 1"] Some have "i + 1 \<le> j" "j < i + 1 + length vs" "vs ! (j - (i + 1)) = w" by simp_all
    moreover have "j - i = Suc (j - (i + 1))" using \<open>i + 1 \<le> j\<close> by simp
    ultimately show ?thesis by simp
  qed
qed

lemma wordIndexFrom_nth: "distinct words \<Longrightarrow> k < length words \<Longrightarrow> wordIndexFrom i words (words ! k) = Some (i + k)"
proof (induction words arbitrary: i k)
  case Nil
  then show ?case by simp
next
  case (Cons v vs)
  show ?case
  proof (cases k)
    case 0
    have "wordIndexFrom (i + 1) vs v = None"
    proof (rule ccontr)
      assume "wordIndexFrom (i + 1) vs v \<noteq> None"
      then obtain j where j: "wordIndexFrom (i + 1) vs v = Some j" by blast
      from wordIndexFrom_Some [OF j] have "v = vs ! (j - (i + 1))" "j - (i + 1) < length vs" by auto
      then have "v \<in> set vs" by simp
      with Cons.prems(1) show False by simp
    qed
    then show ?thesis by (simp add: 0)
  next
    case (Suc m)
    with Cons.IH [of m "i + 1"] Cons.prems show ?thesis by simp
  qed
qed

lemma wordIndex_Some: "wordIndex words w = Some j \<Longrightarrow> j < length words \<and> words ! j = w"
  using wordIndexFrom_Some [of 0 words w j] by (simp add: wordIndex_def)

lemma wordIndex_nth: "distinct words \<Longrightarrow> k < length words \<Longrightarrow> wordIndex words (words ! k) = Some k"
  using wordIndexFrom_nth [of words k 0] by (simp add: wordIndex_def)

lemma shift_or: "v < 2048 \<Longrightarrow> push_bit 11 n OR v = n * 2048 + (v :: nat)"
proof -
  assume v: "v < 2048"
  have t: "take_bit 11 v = v" using v by (simp add: take_bit_nat_eq_self)
  have "push_bit 11 n AND v = 0"
    by (rule bit_eqI) (metis bit_and_iff bit_push_bit_iff bit_take_bit_iff bit_0_eq bot_apply leD t bot_bool_def)
  then show ?thesis by (simp add: disjunctive_add_eq_or [symmetric] push_bit_eq_mult)
qed

lemma low_bits: "n AND 2047 = n mod (2048 :: nat)"
proof -
  have "n AND mask 11 = n mod 2048" by (simp only: take_bit_eq_mask [symmetric] take_bit_eq_mod) simp
  then show ?thesis by (simp add: mask_eq_exp_minus_1)
qed

lemma split_bits: "drop_bit 11 n = n div (2048 :: nat)"
  by (simp add: drop_bit_eq_div)

subsection \<open>Bytes\<close>

lemma setBytes_snoc: "setBytes (bs @ [c]) = setBytes bs * 256 + of_char c"
  by (simp add: setBytes_def)

lemma setBytes_bound: "setBytes bs < 256 ^ length bs"
proof (induction bs rule: rev_induct)
  case Nil
  then show ?case by (simp add: setBytes_def)
next
  case (snoc c bs)
  have "setBytes bs * 256 + of_char c < (setBytes bs + 1) * 256" by simp
  also have "\<dots> \<le> 256 ^ length bs * 256" using snoc by (intro mult_le_mono1) simp
  finally show ?case by (simp add: setBytes_snoc mult.commute)
qed

lemma length_fillBytes [simp]: "length (fillBytes k n) = k"
  by (induction k arbitrary: n) simp_all

lemma fill_set: "fillBytes (length bs) (setBytes bs) = bs"
proof (induction bs rule: rev_induct)
  case Nil
  then show ?case by simp
next
  case (snoc c bs)
  have "of_char c < (256 :: nat)" by simp
  then show ?case using snoc by (simp add: setBytes_snoc)
qed

lemma set_fill: "n < 256 ^ k \<Longrightarrow> setBytes (fillBytes k n) = n"
proof (induction k arbitrary: n)
  case 0
  then show ?case by (simp add: setBytes_def)
next
  case (Suc k)
  then have "n div 256 < 256 ^ k" by (simp add: less_mult_imp_div_less mult.commute)
  with Suc.IH show ?case by (simp add: setBytes_snoc)
qed

subsection \<open>Phrases\<close>

lemma fields_word: "\<forall>c\<in>set v. \<not> is_space c \<Longrightarrow> fieldsFrom w (v @ s) = fieldsFrom (w @ v) s"
  by (induction v arbitrary: w) simp_all

lemma Fields_join:
  assumes "\<forall>w\<in>set ws. w \<noteq> [] \<and> (\<forall>c\<in>set w. \<not> is_space c)"
  shows "Fields (joinSpace ws) = ws"
  using assms
proof (induction ws rule: joinSpace.induct)
  case 1
  then show ?case by (simp add: Fields_def)
next
  case (2 w)
  then show ?case using fields_word [of w "[]" "[]"] by (simp add: Fields_def)
next
  case (3 w v ws)
  have "is_space (CHR '' '')" by (simp add: is_space_def)
  then show ?case using 3 fields_word [of w "[]"] by (simp add: Fields_def)
qed

lemma lower_join: "\<forall>w\<in>set ws. \<forall>c\<in>set w. to_lower c = c \<Longrightarrow> map to_lower (joinSpace ws) = joinSpace ws"
proof (induction ws rule: joinSpace.induct)
  case (3 w v ws)
  have "to_lower (CHR '' '') = CHR '' ''" by (simp add: to_lower_def)
  then show ?case using 3 by (simp add: map_idI)
qed (simp_all add: map_idI)

lemma encodeLoop_words: "length words = 2048 \<Longrightarrow> set (encodeLoop words k n) \<subseteq> set words"
  by (induction k arbitrary: n) (auto simp: low_bits)

lemma length_encodeLoop [simp]: "length (encodeLoop words k n) = k"
  by (induction k arbitrary: n) simp_all

lemma decodeLoop_append:
  "decodeLoop words m (xs @ ys) = (case decodeLoop words m xs of Inl e \<Rightarrow> Inl e | Inr n \<Rightarrow> decodeLoop words n ys)"
  by (induction xs arbitrary: m) (simp_all split: option.split)

lemma decode_encode:
  assumes "word_list words"
  shows "decodeLoop words m (encodeLoop words k n) = Inr (m * 2048 ^ k + n mod 2048 ^ k)"
proof (induction k arbitrary: n)
  case 0
  then show ?case by simp
next
  case (Suc k)
  have "wordIndex words (words ! (n mod 2048)) = Some (n mod 2048)"
    using assms by (intro wordIndex_nth) (simp_all add: word_list_def)
  moreover have "(m * 2048 ^ k + n div 2048 mod 2048 ^ k) * 2048 + n mod 2048 = m * 2048 ^ Suc k + n mod 2048 ^ Suc k"
    using mod_mult2_eq [of n 2048 "2048 ^ k"] by (simp add: algebra_simps)
  ultimately show ?case
    by (simp only: encodeLoop.simps decodeLoop_append Suc.IH split_bits low_bits sum.case decodeLoop.simps option.case
        shift_or mod_less_divisor zero_less_numeral)
qed

lemma encode_decode:
  assumes "length words = 2048" and "decodeLoop words 0 ws = Inr n"
  shows "encodeLoop words (length ws) n = ws \<and> n < 2048 ^ length ws"
  using assms(2)
proof (induction ws arbitrary: n rule: rev_induct)
  case Nil
  then show ?case by simp
next
  case (snoc w ws)
  then obtain m v where m: "decodeLoop words 0 ws = Inr m" and v: "wordIndex words w = Some v" and n: "n = push_bit 11 m OR v"
    by (auto simp: decodeLoop_append split: sum.splits option.splits)
  from wordIndex_Some [OF v] assms(1) have v2: "v < 2048" "words ! v = w" by simp_all
  from n v2(1) have n2: "n = m * 2048 + v" by (simp add: shift_or)
  then have "n div 2048 = m" "n mod 2048 = v" using v2(1) by simp_all
  moreover have "m < 2048 ^ length ws" using snoc.IH [OF m] by blast
  then have "m * 2048 + v < 2048 ^ length ws * 2048" using v2(1) by simp
  ultimately show ?case using snoc.IH [OF m] v2(2) n2 by (simp add: split_bits low_bits)
qed

text \<open>What is encoded decodes, in whatever case and spacing it is typed.\<close>

lemma Decode_Encode:
  assumes "word_list words" and "Encode sha words seed = Inr p" and "Fields (map to_lower typed) = Fields p"
  shows "Decode sha words typed = Inr seed"
proof -
  let ?b = "seed @ [hd (sha seed)]"
  let ?ws = "encodeLoop words 24 (setBytes ?b)"
  have l: "length seed = 32" and p: "p = joinSpace ?ws" using assms(2) by (auto simp: Encode_def split: if_splits)
  have "set ?ws \<subseteq> set words" using assms by (intro encodeLoop_words) (simp add: word_list_def)
  then have "\<forall>w\<in>set ?ws. w \<noteq> [] \<and> (\<forall>c\<in>set w. \<not> is_space c \<and> to_lower c = c)"
    using assms(1) unfolding word_list_def by blast
  then have f: "Fields (map to_lower typed) = ?ws" unfolding assms(3) p by (intro Fields_join) simp
  have "setBytes ?b < 256 ^ 33" using setBytes_bound [of ?b] l by simp
  then have "setBytes ?b mod 2048 ^ 24 = setBytes ?b" by simp
  then have d: "decodeLoop words 0 ?ws = Inr (setBytes ?b)" using decode_encode [OF assms(1), of 0 24 "setBytes ?b"] by simp
  have b: "fillBytes 33 (setBytes ?b) = ?b" using fill_set [of ?b] l by simp
  show ?thesis by (simp add: Decode_def l f d b Let_def nth_append del: encodeLoop.simps)
qed

lemma Fields_Encode:
  assumes "word_list words" and "Encode sha words seed = Inr p"
  shows "Fields (map to_lower p) = Fields p"
proof -
  let ?ws = "encodeLoop words 24 (setBytes (seed @ [hd (sha seed)]))"
  have p: "p = joinSpace ?ws" using assms(2) by (auto simp: Encode_def split: if_splits)
  have "set ?ws \<subseteq> set words" using assms by (intro encodeLoop_words) (simp add: word_list_def)
  then have "\<forall>w\<in>set ?ws. w \<noteq> [] \<and> (\<forall>c\<in>set w. \<not> is_space c \<and> to_lower c = c)"
    using assms(1) unfolding word_list_def by blast
  then show ?thesis unfolding p using lower_join [of ?ws] by simp
qed

subsection \<open>Property\<close>

text \<open>
  C38: recovery phrases. Every 32-byte seed has a phrase, and the phrase decodes to that seed; and
  whatever phrase is accepted, in any case and spacing, gives a 32-byte seed whose own phrase is
  those very words: two different phrases are never accepted for one seed.
\<close>

theorem mnemonic_roundtrip:
  assumes "word_list words"
  shows "(length seed = 32 \<longrightarrow> (\<exists>p. Encode sha words seed = Inr p \<and> Decode sha words p = Inr seed)) \<and>
    (Decode sha words phrase = Inr seed \<longrightarrow>
       length seed = 32 \<and> Encode sha words seed = Inr (joinSpace (Fields (map to_lower phrase))))"
proof (intro conjI impI)
  assume l: "length seed = 32"
  then obtain p where p: "Encode sha words seed = Inr p" by (simp add: Encode_def)
  show "\<exists>p. Encode sha words seed = Inr p \<and> Decode sha words p = Inr seed"
    using p Decode_Encode [OF assms p Fields_Encode [OF assms p]] by blast
next
  assume a: "Decode sha words phrase = Inr seed"
  let ?ws = "Fields (map to_lower phrase)"
  from a obtain n where n: "length ?ws = 24" "decodeLoop words 0 ?ws = Inr n" "seed = take 32 (fillBytes 33 n)"
    "hd (sha seed) = fillBytes 33 n ! 32"
    by (auto simp: Decode_def Let_def split: if_splits sum.splits)
  have l: "length words = 2048" using assms by (simp add: word_list_def)
  from encode_decode [OF l n(2)] n(1) have e: "encodeLoop words 24 n = ?ws" "n < 2048 ^ 24" by simp_all
  then have "n < 256 ^ 33" by simp
  moreover have "seed @ [hd (sha seed)] = fillBytes 33 n"
    using take_Suc_conv_app_nth [of 32 "fillBytes 33 n"] unfolding n(4) by (simp add: n(3))
  ultimately have "setBytes (seed @ [hd (sha seed)]) = n" using set_fill [of n 33] by simp
  moreover show "length seed = 32" by (simp add: n(3))
  ultimately show "Encode sha words seed = Inr (joinSpace ?ws)" by (simp add: Encode_def e(1) del: encodeLoop.simps)
qed

definition toy_words :: "string list" where
  "toy_words = map (\<lambda>i. replicate (Suc i) (CHR ''a'')) [0..<2048]"

lemma toy_word_list: "word_list toy_words"
proof -
  have "distinct toy_words"
    unfolding toy_words_def distinct_map by (auto intro!: inj_onI dest: arg_cong [where f = length])
  moreover have "\<forall>w\<in>set toy_words. w \<noteq> [] \<and> (\<forall>c\<in>set w. \<not> is_space c \<and> to_lower c = c)"
    unfolding toy_words_def by (auto simp: is_space_def to_lower_def)
  ultimately show ?thesis by (simp add: word_list_def toy_words_def)
qed

theorem mnemonic_roundtrip_witness:
  "\<exists>p. Encode (\<lambda>s. ''check'') toy_words (replicate 32 (CHR ''k'')) = Inr p \<and>
     Decode (\<lambda>s. ''check'') toy_words p = Inr (replicate 32 (CHR ''k''))"
  using mnemonic_roundtrip [OF toy_word_list, of "replicate 32 (CHR ''k'')"] by simp

end
