(* ===== verification/Key_Files.thy ===== *)
theory Key_Files
  imports Mnemonic
begin

text \<open>
  Keys on disk: node/keys/keys.go. A key file is the JSON of an address and a hex seed, written once
  with mode 0600 and refused when other users could read it.

  A file system is a map from paths to files, a file its permission bits and its bytes. The Ed25519
  functions (\<open>newKey\<close> from a seed, \<open>seedOf\<close>, \<open>pubOf\<close>) and JSON are parameters.
\<close>

subsection \<open>The code\<close>

record KeyFile =
  kfAddress :: addr
  kfSeed :: string

record File =
  fiMode :: nat
  fiContent :: bytes

type_synonym FileSystem = "(string, File) fmap"

definition TrimSpace :: "string \<Rightarrow> string" where
  "TrimSpace s = rev (dropWhile is_space (rev (dropWhile is_space s)))"

definition keyAddress :: "('k \<Rightarrow> bytes) \<Rightarrow> 'k \<Rightarrow> addr" where
  "keyAddress pubOf priv = AddressFromPubKey (pubOf priv)"

definition SeedHex :: "('k \<Rightarrow> bytes) \<Rightarrow> 'k \<Rightarrow> string" where
  "SeedHex seedOf priv = hex_encode (seedOf priv)"

definition FromSeedHex :: "(bytes \<Rightarrow> 'k) \<Rightarrow> string \<Rightarrow> err + 'k" where
  "FromSeedHex newKey s =
     (case hex_decode (TrimSpace s) of
        None \<Rightarrow> Inl (Err ''seed must be 64 hex characters'')
      | Some seed \<Rightarrow> if length seed \<noteq> 32 then Inl (Err ''seed must be 64 hex characters'') else Inr (newKey seed))"

text \<open>\<open>Write\<close> with \<open>O_EXCL\<close>; a failing write leaves a part of the text in the new file.\<close>

definition WriteKey :: "('k \<Rightarrow> bytes) \<Rightarrow> ('k \<Rightarrow> bytes) \<Rightarrow> (KeyFile \<Rightarrow> bytes) \<Rightarrow> (nat \<times> err) option \<Rightarrow> string \<Rightarrow> 'k \<Rightarrow> FileSystem \<Rightarrow>
    FileSystem \<times> err option" where
  "WriteKey seedOf pubOf marshal fault path priv fs =
     (let data = marshal \<lparr>kfAddress = keyAddress pubOf priv, kfSeed = SeedHex seedOf priv\<rparr> @ [CHR 0x0A] in
      if fmlookup fs path \<noteq> None then (fs, Some (Err ''file exists''))
      else case fault of
        Some (n, e) \<Rightarrow> (fmupd path \<lparr>fiMode = 384, fiContent = take n data\<rparr> fs, Some e)
      | None \<Rightarrow> (fmupd path \<lparr>fiMode = 384, fiContent = data\<rparr> fs, None))"

text \<open>\<open>Generate\<close>, with the key the random source gave or its error.\<close>

definition GenerateKey :: "('k \<Rightarrow> bytes) \<Rightarrow> ('k \<Rightarrow> bytes) \<Rightarrow> (KeyFile \<Rightarrow> bytes) \<Rightarrow> (nat \<times> err) option \<Rightarrow> err + 'k \<Rightarrow> string \<Rightarrow> FileSystem \<Rightarrow>
    FileSystem \<times> (err + 'k \<times> err option)" where
  "GenerateKey seedOf pubOf marshal fault rnd path fs =
     (case rnd of Inl e \<Rightarrow> (fs, Inl e)
      | Inr priv \<Rightarrow> (let (fs', e) = WriteKey seedOf pubOf marshal fault path priv fs in (fs', Inr (priv, e))))"

definition LoadKey :: "(bytes \<Rightarrow> 'k) \<Rightarrow> ('k \<Rightarrow> bytes) \<Rightarrow> (bytes \<Rightarrow> KeyFile option) \<Rightarrow> string \<Rightarrow> FileSystem \<Rightarrow> err + 'k" where
  "LoadKey newKey pubOf unmarshal path fs =
     (case fmlookup fs path of None \<Rightarrow> Inl (Err ''no such file'')
      | Some f \<Rightarrow>
          if fiMode f AND 63 \<noteq> 0 then Inl (Err ''key file is readable by other users'')
          else case unmarshal (fiContent f) of None \<Rightarrow> Inl (Err ''key file: malformed'')
          | Some kf \<Rightarrow>
            (case FromSeedHex newKey (kfSeed kf) of Inl e \<Rightarrow> Inl (Wrap ''key file'' e)
             | Inr priv \<Rightarrow>
                 if keyAddress pubOf priv \<noteq> kfAddress kf then Inl (Err ''key file address does not match seed'')
                 else Inr priv))"

text \<open>\<open>Resolve\<close>: the environment variable first, then the file, else no key.\<close>

definition ResolveKey :: "(bytes \<Rightarrow> 'k) \<Rightarrow> ('k \<Rightarrow> bytes) \<Rightarrow> (bytes \<Rightarrow> KeyFile option) \<Rightarrow> string \<Rightarrow> string \<Rightarrow> FileSystem \<Rightarrow> err + 'k option" where
  "ResolveKey newKey pubOf unmarshal path env fs =
     (if env \<noteq> '''' then (case FromSeedHex newKey env of Inl e \<Rightarrow> Inl (Wrap ''environment'' e) | Inr k \<Rightarrow> Inr (Some k))
      else if path = '''' then Inr None
      else map_sum id Some (LoadKey newKey pubOf unmarshal path fs))"

subsection \<open>What was written is read back\<close>

lemma hexdigit_no_space: "n < 16 \<Longrightarrow> \<not> is_space (hexdigit n)"
  by (simp add: is_space_def hexdigit_def)

lemma hex_no_space: "c \<in> set (hex_encode bs) \<Longrightarrow> \<not> is_space c"
proof (induction bs)
  case Nil
  then show ?case by (simp add: hex_encode_def)
next
  case (Cons b bs)
  then show ?case using hexdigit_no_space nibbles by (auto simp: hex_encode_def)
qed

lemma dropWhile_none: "(\<And>c. c \<in> set s \<Longrightarrow> \<not> P c) \<Longrightarrow> dropWhile P s = s"
  by (cases s) auto

lemma TrimSpace_hex: "TrimSpace (hex_encode bs) = hex_encode bs"
proof -
  have "dropWhile is_space (hex_encode bs) = hex_encode bs" by (rule dropWhile_none) (rule hex_no_space)
  moreover have "dropWhile is_space (rev (hex_encode bs)) = rev (hex_encode bs)" by (rule dropWhile_none) (auto dest: hex_no_space)
  ultimately show ?thesis by (simp add: TrimSpace_def)
qed

lemma FromSeedHex_SeedHex:
  "newKey (seedOf k) = k \<Longrightarrow> length (seedOf k) = 32 \<Longrightarrow> FromSeedHex newKey (SeedHex seedOf k) = Inr k"
  by (simp add: FromSeedHex_def SeedHex_def TrimSpace_hex)

text \<open>
  A key written without error is the key loaded, from a file other users cannot read; and no file that
  was there before changes, whether the write succeeds or not.
\<close>

lemma key_file_roundtrip:
  assumes "\<And>kf. unmarshal (marshal kf @ [CHR 0x0A]) = Some kf" and "newKey (seedOf k) = k" and "length (seedOf k) = 32"
  shows "(WriteKey seedOf pubOf marshal None path k fs = (fs', None) \<longrightarrow> LoadKey newKey pubOf unmarshal path fs' = Inr k) \<and>
    (\<forall>fault p f. fmlookup fs p = Some f \<longrightarrow> fmlookup (fst (WriteKey seedOf pubOf marshal fault path k fs)) p = Some f)"
proof (intro conjI impI allI)
  assume "WriteKey seedOf pubOf marshal None path k fs = (fs', None)"
  then have "fs' = fmupd path \<lparr>fiMode = 384, fiContent = marshal \<lparr>kfAddress = keyAddress pubOf k, kfSeed = SeedHex seedOf k\<rparr> @ [CHR 0x0A]\<rparr> fs"
    by (auto simp: WriteKey_def Let_def split: if_splits)
  then show "LoadKey newKey pubOf unmarshal path fs' = Inr k"
    using assms FromSeedHex_SeedHex [of newKey seedOf k] by (simp add: LoadKey_def)
next
  fix fault p f
  assume "fmlookup fs p = Some f"
  then show "fmlookup (fst (WriteKey seedOf pubOf marshal fault path k fs)) p = Some f"
    by (auto simp: WriteKey_def Let_def split: option.split prod.split)
qed

end
