(* ===== verification/Json_Store.thy ===== *)
theory Json_Store
  imports Prelude
begin

text \<open>
  A value kept in memory and written to a JSON file by atomic replace: node/jsonstore/jsonstore.go.
  The file is represented by the value it decodes to (\<open>None\<close>: no file); a failed write, at whatever
  step before the rename, leaves it as it was. \<open>Update\<close> changes the value in place, so what its
  function did stays in memory even when the write fails.
\<close>

record 'a Store =
  soData :: 'a
  soDisk :: "'a option"

text \<open>\<open>Open\<close>: what reading and decoding the file gave, or \<open>None\<close> when there is none.\<close>

definition OpenStore :: "(err + 'a) option \<Rightarrow> 'a \<Rightarrow> err + 'a Store" where
  "OpenStore file start =
     (case file of None \<Rightarrow> Inr \<lparr>soData = start, soDisk = None\<rparr>
      | Some (Inl e) \<Rightarrow> Inl e
      | Some (Inr v) \<Rightarrow> Inr \<lparr>soData = v, soDisk = Some v\<rparr>)"

definition WriteAtomic :: "err option \<Rightarrow> 'a \<Rightarrow> 'a option \<Rightarrow> 'a option \<times> err option" where
  "WriteAtomic fault v disk = (case fault of Some e \<Rightarrow> (disk, Some e) | None \<Rightarrow> (Some v, None))"

definition Update :: "err option \<Rightarrow> ('a \<Rightarrow> 'a \<times> err option) \<Rightarrow> 'a Store \<Rightarrow> 'a Store \<times> err option" where
  "Update fault fn s =
     (case fn (soData s) of
        (v, Some e) \<Rightarrow> (s\<lparr>soData := v\<rparr>, Some e)
      | (v, None) \<Rightarrow>
          (let (disk, we) = WriteAtomic fault v (soDisk s) in (s\<lparr>soData := v, soDisk := disk\<rparr>, we)))"

text \<open>A restart: the value the file holds, or the empty one.\<close>

definition reopen :: "'a \<Rightarrow> 'a Store \<Rightarrow> 'a Store" where
  "reopen start s = (case soDisk s of None \<Rightarrow> s\<lparr>soData := start\<rparr> | Some v \<Rightarrow> s\<lparr>soData := v\<rparr>)"

lemma reopen_OpenStore: "OpenStore (map_option Inr (soDisk s)) start = Inr (reopen start s)"
  by (simp add: OpenStore_def reopen_def split: option.split)

lemma Update_data [simp]: "soData (fst (Update fault fn s)) = fst (fn (soData s))"
  by (simp add: Update_def WriteAtomic_def split: prod.split option.split)

lemma Update_saved:
  assumes "snd (Update fault fn s) = None"
  shows "soDisk (fst (Update fault fn s)) = Some (soData (fst (Update fault fn s)))"
  using assms by (auto simp: Update_def WriteAtomic_def split: prod.splits option.splits)

lemma Update_failed:
  assumes "snd (Update fault fn s) \<noteq> None"
  shows "soDisk (fst (Update fault fn s)) = soDisk s"
  using assms by (auto simp: Update_def WriteAtomic_def split: prod.splits option.splits)

lemma Update_disk:
  "soDisk (fst (Update fault fn s)) = soDisk s \<or> soDisk (fst (Update fault fn s)) = Some (soData (fst (Update fault fn s)))"
  using Update_saved [of fault fn s] Update_failed [of fault fn s] by blast

lemma Update_None_snd: "Update fault fn s = (s', None) \<Longrightarrow> soData s' = fst (fn (soData s)) \<and> snd (fn (soData s)) = None"
  by (cases "snd (fn (soData s))") (auto simp: Update_def split_beta Let_def)

text \<open>What holds of every entry of a map, in memory and in the file.\<close>

definition store_all :: "('k \<Rightarrow> 'v \<Rightarrow> bool) \<Rightarrow> ('k, 'v) fmap Store \<Rightarrow> bool" where
  "store_all P s \<longleftrightarrow> (\<forall>k v. fmlookup (soData s) k = Some v \<longrightarrow> P k v) \<and>
     (\<forall>m k v. soDisk s = Some m \<longrightarrow> fmlookup m k = Some v \<longrightarrow> P k v)"

lemma store_allD: "store_all P s \<Longrightarrow> fmlookup (soData s) k = Some v \<Longrightarrow> P k v"
  by (simp add: store_all_def)

lemma store_all_Update:
  assumes "store_all P s" and "\<And>k v. fmlookup (fst (fn (soData s))) k = Some v \<Longrightarrow> P k v"
  shows "store_all P (fst (Update fault fn s))"
  using Update_disk [of fault fn s] assms unfolding store_all_def by auto

lemma store_all_reopen: "store_all P s \<Longrightarrow> store_all P (reopen fmempty s)"
  by (auto simp: store_all_def reopen_def split: option.split)

lemma store_all_empty: "store_all P \<lparr>soData = fmempty, soDisk = None\<rparr>"
  by (simp add: store_all_def)

end
