(* ===== verification/Signed_Requests.thy ===== *)
theory Signed_Requests
  imports Amounts Encoding_Properties
begin

text \<open>
  Wallet-signed HTTP requests: node/reqauth/reqauth.go. A wallet signs the method, the path, the
  time and the SHA-256 of the body; the service checks the signature under the key of the address
  the request names, and the time against its own clock.

  A request is the record of the headers and fields the code reads; \<open>rqBody\<close> is what reading the
  body gives. Clocks are in nanoseconds. SHA-256 and Ed25519 are parameters, as in the ledger.
\<close>

subsection \<open>The code\<close>

definition newline :: char where "newline = CHR 0x0A"

definition maxSkew :: int where "maxSkew = 5 * 60 * 1000000000"

text \<open>The verb \<open>%d\<close> of an \<open>int64\<close>, and \<open>strconv.ParseInt(s, 10, 64)\<close>.\<close>

definition showInt :: "int \<Rightarrow> string" where
  "showInt n = (if n < 0 then CHR ''-'' # showNat (nat (- n)) else showNat (nat n))"

definition ParseInt :: "string \<Rightarrow> int option" where
  "ParseInt s =
     (let neg = s \<noteq> [] \<and> hd s = CHR ''-'';
          t = (if s \<noteq> [] \<and> (hd s = CHR ''-'' \<or> hd s = CHR ''+'') then tl s else s)
      in if \<not> digits t then None
         else if neg then (if dval t \<le> 2 ^ 63 then Some (- int (dval t)) else None)
         else if dval t < 2 ^ 63 then Some (int (dval t)) else None)"

definition RequestMessage :: "(bytes \<Rightarrow> hash) \<Rightarrow> string \<Rightarrow> string \<Rightarrow> int \<Rightarrow> bytes \<Rightarrow> string" where
  "RequestMessage sha method path ts body =
     ''orpay/req/v1'' @ newline # method @ newline # path @ newline # showInt ts @ newline # hex_encode (sha body)"

record Request =
  rqMethod :: string
  rqPath :: string
  rqAddress :: string
  rqTime :: string
  rqSig :: string
  rqBody :: "err + bytes"

text \<open>Reading through \<open>http.MaxBytesReader\<close>.\<close>

definition readBody :: "nat \<Rightarrow> Request \<Rightarrow> err + bytes" where
  "readBody limit r =
     (case rqBody r of Inl e \<Rightarrow> Inl e
      | Inr b \<Rightarrow> if length b > limit then Inl (Err ''http: request body too large'') else Inr b)"

definition verifyRequest :: "(bytes \<Rightarrow> hash) \<Rightarrow> (bytes \<Rightarrow> bytes \<Rightarrow> bytes \<Rightarrow> bool) \<Rightarrow> int \<Rightarrow> nat \<Rightarrow> Request \<Rightarrow> err + addr \<times> bytes" where
  "verifyRequest sha ed_verify now limit r =
     (case PubKey (rqAddress r) of
        Inl _ \<Rightarrow> Inl (Err ''missing or invalid X-ORP-Address'')
      | Inr pub \<Rightarrow>
        (case ParseInt (rqTime r) of
           None \<Rightarrow> Inl (Err ''missing X-ORP-Time'')
         | Some ts \<Rightarrow>
             (let skew = now - ts * 1000000 in
              if skew > maxSkew \<or> skew < - maxSkew
              then Inl (Err ''request time is too far from server time; check your clock'')
              else case hex_decode (rqSig r) of
                None \<Rightarrow> Inl (Err ''invalid X-ORP-Sig'')
              | Some sig \<Rightarrow>
                (case readBody limit r of
                   Inl e \<Rightarrow> Inl e
                 | Inr body \<Rightarrow>
                     if ed_verify pub (RequestMessage sha (rqMethod r) (rqPath r) ts body) sig
                     then Inr (rqAddress r, body)
                     else Inl (Err ''signature does not match address'')))))"

text \<open>The wrapper: the handler runs with the caller's address and the body, or the answer is 401.\<close>

definition SignedN :: "(bytes \<Rightarrow> hash) \<Rightarrow> (bytes \<Rightarrow> bytes \<Rightarrow> bytes \<Rightarrow> bool) \<Rightarrow> int \<Rightarrow> nat \<Rightarrow> (addr \<Rightarrow> bytes \<Rightarrow> 'r) \<Rightarrow> Request \<Rightarrow> err + 'r" where
  "SignedN sha ed_verify now limit next r =
     (case verifyRequest sha ed_verify now limit r of
        Inl e \<Rightarrow> Inl e
      | Inr (a, body) \<Rightarrow> Inr (next a body))"

definition Signed :: "(bytes \<Rightarrow> hash) \<Rightarrow> (bytes \<Rightarrow> bytes \<Rightarrow> bytes \<Rightarrow> bool) \<Rightarrow> int \<Rightarrow> (addr \<Rightarrow> bytes \<Rightarrow> 'r) \<Rightarrow> Request \<Rightarrow> err + 'r" where
  "Signed sha ed_verify now next r = SignedN sha ed_verify now (16 * 1024) next r"

subsection \<open>Reading the signed message\<close>

lemma showNat_inject: "showNat m = showNat n \<Longrightarrow> m = n"
  using dval_showNat by metis

lemma showNat_chars: "c \<in> set (showNat n) \<Longrightarrow> is_digit c"
  using dval_showNat [of n] by (auto simp: digits_def list_all_iff)

lemma showInt_newline: "newline \<notin> set (showInt n)"
  using showNat_chars [of newline] by (auto simp: showInt_def newline_def is_digit_def)

lemma showInt_inject: "showInt m = showInt n \<Longrightarrow> m = n"
proof -
  have minus: "CHR ''-'' \<notin> set (showNat k)" for k
    using showNat_chars [of "CHR ''-''" k] by (auto simp: is_digit_def)
  assume "showInt m = showInt n"
  then show ?thesis
    using minus by (cases "m < 0"; cases "n < 0") (auto simp: showInt_def dest: showNat_inject, (metis list.set_intros(1))+)
qed

text \<open>Two texts with the same first line, or the same last line, up to a separator.\<close>

lemma first_line: "c \<notin> set a \<Longrightarrow> c \<notin> set b \<Longrightarrow> a @ c # x = b @ c # y \<longleftrightarrow> a = b \<and> x = y"
proof (induction a arbitrary: b)
  case Nil
  then show ?case by (cases b) auto
next
  case (Cons d a)
  then show ?case by (cases b) auto
qed

lemma last_line: "c \<notin> set x \<Longrightarrow> c \<notin> set y \<Longrightarrow> a @ c # x = b @ c # y \<longleftrightarrow> a = b \<and> x = y"
proof -
  assume x: "c \<notin> set x" and y: "c \<notin> set y"
  have "a @ c # x = b @ c # y \<longleftrightarrow> rev x @ c # rev a = rev y @ c # rev b"
    by (metis rev_append rev_rev_ident rev.simps(2) append.assoc append_Cons append_Nil)
  then show ?thesis using first_line [of c "rev x" "rev y" "rev a" "rev b"] x y by auto
qed

lemma length_hex_encode [simp]: "length (hex_encode bs) = 2 * length bs"
  by (induction bs) (simp_all add: hex_encode_def)

lemma hex_encode_inject: "hex_encode x = hex_encode y \<Longrightarrow> x = y"
  by (metis hex_decode_encode option.inject)

lemma RequestMessage_inject:
  assumes "RequestMessage sha m p t b = RequestMessage sha m' p' t' b'"
    and "newline \<notin> set m" and "newline \<notin> set m'" and "length (sha b) = length (sha b')"
  shows "m = m' \<and> p = p' \<and> t = t' \<and> sha b = sha b'"
proof -
  have mp: "m = m'" "p @ newline # showInt t @ newline # hex_encode (sha b) = p' @ newline # showInt t' @ newline # hex_encode (sha b')"
    using assms(1) unfolding RequestMessage_def by (simp_all add: first_line [OF assms(2,3)])
  then have "(p @ newline # showInt t @ [newline]) @ hex_encode (sha b) = (p' @ newline # showInt t' @ [newline]) @ hex_encode (sha b')"
    by simp
  then have h: "p @ newline # showInt t @ [newline] = p' @ newline # showInt t' @ [newline]" "hex_encode (sha b) = hex_encode (sha b')"
    using assms(4) unfolding append_eq_append_conv [OF disjI2, of "hex_encode (sha b)" "hex_encode (sha b')", unfolded length_hex_encode, OF arg_cong [where f = "(*) 2", OF assms(4)]]
    by simp_all
  then have "p @ newline # showInt t = p' @ newline # showInt t'"
    by (metis append.assoc append_Cons append1_eq_conv)
  then show ?thesis using mp(1) h(2) last_line [OF showInt_newline showInt_newline] showInt_inject hex_encode_inject by blast
qed

lemma verifyRequest_Inr:
  assumes "verifyRequest sha ed_verify now limit r = Inr (a, body)"
  obtains pub ts sig where "a = rqAddress r" "PubKey a = Inr pub" "ParseInt (rqTime r) = Some ts" "hex_decode (rqSig r) = Some sig"
    "\<bar>now - ts * 1000000\<bar> \<le> maxSkew" "rqBody r = Inr body" "length body \<le> limit"
    "ed_verify pub (RequestMessage sha (rqMethod r) (rqPath r) ts body) sig"
proof -
  obtain pub where pub: "PubKey (rqAddress r) = Inr pub" using assms by (auto simp: verifyRequest_def split: sum.splits)
  obtain ts where ts: "ParseInt (rqTime r) = Some ts" using assms pub by (auto simp: verifyRequest_def split: option.splits)
  have skew: "\<not> (now - ts * 1000000 > maxSkew \<or> now - ts * 1000000 < - maxSkew)"
    using assms pub ts by (auto simp: verifyRequest_def Let_def split: if_splits)
  obtain sig where sig: "hex_decode (rqSig r) = Some sig"
    using assms pub ts skew by (auto simp: verifyRequest_def Let_def split: option.splits if_splits)
  obtain b where b: "readBody limit r = Inr b"
    using assms pub ts skew sig by (auto simp: verifyRequest_def Let_def split: sum.splits if_splits)
  have e: "ed_verify pub (RequestMessage sha (rqMethod r) (rqPath r) ts b) sig \<and> rqAddress r = a \<and> b = body"
    using assms pub ts skew sig b by (simp add: verifyRequest_def Let_def split: if_splits)
  have "rqBody r = Inr b \<and> length b \<le> limit" using b by (auto simp: readBody_def split: sum.splits if_splits)
  moreover have "\<bar>now - ts * 1000000\<bar> \<le> maxSkew" using skew by linarith
  moreover have "b = body" "rqAddress r = a" "ed_verify pub (RequestMessage sha (rqMethod r) (rqPath r) ts b) sig" using e by blast+
  ultimately show ?thesis using that [of pub ts sig] pub ts sig by simp
qed

subsection \<open>Property\<close>

text \<open>
  C37: signed requests. A request is accepted only with a signature that verifies, under the key of
  the address it names, over exactly its method, path, time and body (no other method without a line
  break, path, time or body has the same signed message, unless SHA-256 collides on the two bodies),
  within five minutes of the server's clock; and ten minutes later the same request is refused.
\<close>

theorem signed_request_authentic:
  assumes "verifyRequest sha ed_verify now limit r = Inr (a, body)"
  shows "\<exists>pub ts sig. a = rqAddress r \<and> PubKey a = Inr pub \<and> rqBody r = Inr body \<and> length body \<le> limit \<and>
    ed_verify pub (RequestMessage sha (rqMethod r) (rqPath r) ts body) sig \<and> \<bar>now - ts * 1000000\<bar> \<le> maxSkew \<and>
    (\<forall>m p t b. newline \<notin> set m \<and> newline \<notin> set (rqMethod r) \<and> length (sha b) = length (sha body) \<and> inj_on sha {b, body} \<and>
       RequestMessage sha m p t b = RequestMessage sha (rqMethod r) (rqPath r) ts body \<longrightarrow>
       m = rqMethod r \<and> p = rqPath r \<and> t = ts \<and> b = body) \<and>
    (\<forall>later. later > now + 2 * maxSkew \<longrightarrow> (\<forall>x. verifyRequest sha ed_verify later limit r \<noteq> Inr x))"
proof -
  obtain pub ts sig where v: "a = rqAddress r" "PubKey a = Inr pub" "ParseInt (rqTime r) = Some ts"
    "\<bar>now - ts * 1000000\<bar> \<le> maxSkew" "rqBody r = Inr body" "length body \<le> limit"
    "ed_verify pub (RequestMessage sha (rqMethod r) (rqPath r) ts body) sig"
    using verifyRequest_Inr [OF assms] by metis
  have "m = rqMethod r \<and> p = rqPath r \<and> t = ts \<and> b = body"
    if h: "newline \<notin> set m" "newline \<notin> set (rqMethod r)" "length (sha b) = length (sha body)" "inj_on sha {b, body}"
      "RequestMessage sha m p t b = RequestMessage sha (rqMethod r) (rqPath r) ts body" for m p t b
    using RequestMessage_inject [OF h(5,1,2,3)] inj_onD [OF h(4)] by blast
  moreover have "verifyRequest sha ed_verify later limit r \<noteq> Inr x" if "later > now + 2 * maxSkew" for later x
  proof
    assume "verifyRequest sha ed_verify later limit r = Inr x"
    then obtain t where "ParseInt (rqTime r) = Some t" "\<bar>later - t * 1000000\<bar> \<le> maxSkew"
      using verifyRequest_Inr [of sha ed_verify later limit r "fst x" "snd x"] by (metis prod.collapse)
    then show False using v(3,4) that by simp
  qed
  ultimately show ?thesis using v by (intro exI [of _ pub] exI [of _ ts] exI [of _ sig]) blast
qed

definition toy_request :: Request where
  "toy_request = \<lparr>rqMethod = ''POST'', rqPath = ''/pay/withdrawals'', rqAddress = replicate 64 (CHR ''A''),
     rqTime = ''2'', rqSig = ''00'', rqBody = Inr ''{}''\<rparr>"

lemma hex_decode_upper: "hex_decode (replicate (2 * n) (CHR ''A'')) = Some (replicate n (char_of (170 :: nat)))"
  by (induction n) (simp_all add: hexval_def)

lemma toy_PubKey: "PubKey (replicate 64 (CHR ''A'')) = Inr (replicate 32 (char_of (170 :: nat)))"
  using hex_decode_upper [of 32] by (simp add: PubKey_def)

lemma toy_ParseInt: "ParseInt ''2'' = Some 2" "hex_decode ''00'' = Some [char_of (0 :: nat)]"
  by (simp_all add: ParseInt_def digits_def is_digit_def dval_def hexval_def)

lemma toy_request_accepted:
  "verifyRequest (\<lambda>x. x) (\<lambda>pub m sig. True) 1000 9 toy_request = Inr (replicate 64 (CHR ''A''), ''{}'')"
  by (simp add: verifyRequest_def toy_request_def toy_PubKey toy_ParseInt readBody_def maxSkew_def del: hex_decode.simps)

theorem signed_request_authentic_witness:
  "(\<exists>pub ts. PubKey (rqAddress toy_request) = Inr pub \<and> rqBody toy_request = Inr ''{}'' \<and> \<bar>1000 - ts * 1000000\<bar> \<le> maxSkew) \<and>
   (\<forall>x. verifyRequest (\<lambda>x. x) (\<lambda>pub m sig. True) (1001 + 2 * maxSkew) 9 toy_request \<noteq> Inr x)"
proof -
  have later: "(1001 :: int) + 2 * maxSkew > 1000 + 2 * maxSkew" by simp
  have rest: "rqAddress toy_request = replicate 64 (CHR ''A'')" by (simp add: toy_request_def)
  show ?thesis using signed_request_authentic [OF toy_request_accepted] later unfolding rest by blast
qed

end
