(* ===== verification/Node_Api.thy ===== *)
theory Node_Api
  imports Node_Queries Signed_Requests
begin

text \<open>
  The node's HTTP API and its Go client: node/api/api.go and node/client/client.go. Each handler
  checks its path values, asks the chain and answers a status code with a value or an error; the
  client turns anything but 200 into an error. The JSON text itself, routing and the CORS headers
  are left out: a response is the status and the value the handler encodes.
\<close>

subsection \<open>Handlers\<close>

type_synonym 'a response = "nat \<times> (err + 'a)"

definition writeErr :: "nat \<Rightarrow> err \<Rightarrow> 'a response" where
  "writeErr status e = (status, Inl e)"

definition writeJSON :: "nat \<Rightarrow> 'a \<Rightarrow> 'a response" where
  "writeJSON status v = (status, Inr v)"

text \<open>\<open>strconv.Atoi\<close> is \<open>ParseInt\<close> on a 64-bit machine; a missing parameter is the empty string.\<close>

definition queryInt :: "string \<Rightarrow> int \<Rightarrow> int \<Rightarrow> int" where
  "queryInt v def mx = (case ParseInt v of None \<Rightarrow> def | Some n \<Rightarrow> if n \<le> 0 then def else min n mx)"

definition ParseUint64 :: "string \<Rightarrow> 64 word option" where
  "ParseUint64 s = (if digits s then ParseUint s else None)"

text \<open>The value \<open>ParseUint\<close> returns beside an error: 0, or the largest when out of range.\<close>

definition uintValue :: "string \<Rightarrow> 64 word" where
  "uintValue s = (if digits s then (case ParseUint s of Some v \<Rightarrow> v | None \<Rightarrow> - 1) else 0)"

definition apiStatus :: "(bytes \<Rightarrow> hash) \<Rightarrow> (Genesis \<Rightarrow> hash) \<Rightarrow> Chain \<Rightarrow> Status response" where
  "apiStatus sha ghash c = (case StatusOf sha ghash c of Inl e \<Rightarrow> (500, Inl e) | Inr s \<Rightarrow> writeJSON 200 s)"

definition apiGenesis :: "Chain \<Rightarrow> Genesis response" where
  "apiGenesis c = writeJSON 200 (chGenesis c)"

record AccountReply =
  arAddress :: addr
  arBalance :: amount
  arBalanceOrp :: string
  arNonce :: "64 word"
  arNextNonce :: "64 word"
  arAssets :: "(string, amount) fmap"

definition apiAccount :: "Chain \<Rightarrow> addr \<Rightarrow> AccountReply response" where
  "apiAccount c a =
     (case Validate a of Some e \<Rightarrow> writeErr 400 e
      | None \<Rightarrow>
          (let (acc, next) = AccountInfo c a in
           writeJSON 200 \<lparr>arAddress = a, arBalance = acBalance acc, arBalanceOrp = FormatAmount (acBalance acc),
             arNonce = acNonce acc, arNextNonce = next, arAssets = acAssets acc\<rparr>))"

definition apiHistory :: "(bytes \<Rightarrow> hash) \<Rightarrow> Chain \<Rightarrow> addr \<Rightarrow> string \<Rightarrow> HistoryEntry option list response" where
  "apiHistory sha c a limit =
     (case Validate a of Some e \<Rightarrow> writeErr 400 e
      | None \<Rightarrow> writeJSON 200 (History sha c a (queryInt limit 50 500)))"

text \<open>\<open>blocks\<close>, after any wait; a request that waited in vain is answered with no blocks.\<close>

definition apiBlocks :: "Chain \<Rightarrow> string \<Rightarrow> string \<Rightarrow> string \<Rightarrow> bool \<Rightarrow> Block list response" where
  "apiBlocks c from limit wait timedOut =
     (let f = uintValue from in
      if queryInt wait 0 60 > 0 \<and> f > Height c \<and> timedOut then writeJSON 200 []
      else writeJSON 200 (Blocks c f (queryInt limit 100 500)))"

definition apiBlock :: "(bytes \<Rightarrow> hash) \<Rightarrow> Chain \<Rightarrow> string \<Rightarrow> (hash \<times> Block) response" where
  "apiBlock sha c height =
     (case ParseUint64 height of None \<Rightarrow> writeErr 400 (Err ''height must be a number'')
      | Some h \<Rightarrow>
        (case blockAt c h of None \<Rightarrow> writeErr 404 (Err ''block not found'')
         | Some b \<Rightarrow> writeJSON 200 (HeaderHash sha (bHeader b), b)))"

definition apiTx :: "Chain \<Rightarrow> string \<Rightarrow> (hash \<times> string \<times> TxLocation option \<times> Tx) response" where
  "apiTx c s =
     (case ParseHash s of Inl e \<Rightarrow> writeErr 400 e
      | Inr tid \<Rightarrow>
        (case LookupTx c tid of None \<Rightarrow> writeErr 404 (Err ''tx not found'')
         | Some (tx, loc) \<Rightarrow> writeJSON 200 (tid, if loc = None then ''pending'' else ''committed'', loc, tx)))"

text \<open>\<open>submit\<close>: the body decoded from JSON, or the decoder's error.\<close>

definition apiSubmit :: "(bytes \<Rightarrow> hash) \<Rightarrow> (bytes \<Rightarrow> bytes \<Rightarrow> bytes \<Rightarrow> bool) \<Rightarrow> (Genesis \<Rightarrow> hash) \<Rightarrow> int \<Rightarrow> Chain \<Rightarrow> err + Tx \<Rightarrow>
    Chain \<times> (hash \<times> string) response" where
  "apiSubmit sha ed_verify ghash clock c body =
     (case body of Inl e \<Rightarrow> (c, writeErr 400 e)
      | Inr tx \<Rightarrow>
        (case Submit sha ed_verify ghash clock c tx of
           (c', tid, None) \<Rightarrow> (c', writeJSON 202 (tid, ''pending''))
         | (c', tid, Some e) \<Rightarrow>
             (c', if e = ErrDuplicate then writeJSON 200 (tid, ''duplicate'') else writeErr 422 e)))"

definition apiPool :: "(bytes \<Rightarrow> hash) \<Rightarrow> Chain \<Rightarrow> string \<Rightarrow> (Pool \<times> amount \<times> HistoryEntry option list) response" where
  "apiPool sha c s =
     (case ParseHash s of Inl e \<Rightarrow> writeErr 400 e
      | Inr pid \<Rightarrow>
        (case PoolAt c pid of None \<Rightarrow> writeErr 404 (Err ''pool not found'')
         | Some p \<Rightarrow> writeJSON 200 (p, Pot p, PoolHistory sha c pid)))"

definition apiAccountPools :: "Chain \<Rightarrow> addr \<Rightarrow> Pool list response" where
  "apiAccountPools c a = (case Validate a of Some e \<Rightarrow> writeErr 400 e | None \<Rightarrow> writeJSON 200 (PoolsOf c a))"

definition apiEscrow :: "(bytes \<Rightarrow> hash) \<Rightarrow> Chain \<Rightarrow> string \<Rightarrow> (Escrow \<times> HistoryEntry option list) response" where
  "apiEscrow sha c s =
     (case ParseHash s of Inl e \<Rightarrow> writeErr 400 e
      | Inr eid \<Rightarrow>
        (case EscrowAt c eid of None \<Rightarrow> writeErr 404 (Err ''escrow not found'')
         | Some x \<Rightarrow> writeJSON 200 (x, EscrowHistory sha c eid)))"

definition apiAccountEscrows :: "Chain \<Rightarrow> addr \<Rightarrow> Escrow list response" where
  "apiAccountEscrows c a = (case Validate a of Some e \<Rightarrow> writeErr 400 e | None \<Rightarrow> writeJSON 200 (EscrowsOf c a))"

definition apiRecovery :: "Chain \<Rightarrow> addr \<Rightarrow> RecoveryInfo response" where
  "apiRecovery c a = (case Validate a of Some e \<Rightarrow> writeErr 400 e | None \<Rightarrow> writeJSON 200 (RecoveryOf c a))"

subsection \<open>The client\<close>

abbreviation ErrNotFound :: err where "ErrNotFound \<equiv> Err ''not found on this chain''"

text \<open>\<open>GetJSON\<close>: \<open>Inl\<close> when the node could not be reached, else its response.\<close>

definition GetJSON :: "err + 'a response \<Rightarrow> err + 'a" where
  "GetJSON resp =
     (case resp of Inl e \<Rightarrow> Inl (Wrap ''node unreachable'' e)
      | Inr (status, v) \<Rightarrow>
          if status = 404 then Inl ErrNotFound
          else if status \<noteq> 200 then Inl (Err ''node returned an error status'')
          else v)"

definition ClientHistory :: "(bytes \<Rightarrow> hash) \<Rightarrow> err + Chain \<Rightarrow> addr \<Rightarrow> err + HistoryEntry option list" where
  "ClientHistory sha net a = GetJSON (case net of Inl e \<Rightarrow> Inl e | Inr c \<Rightarrow> Inr (apiHistory sha c a ''500''))"

definition ClientAccount :: "err + Chain \<Rightarrow> addr \<Rightarrow> err + AccountReply" where
  "ClientAccount net a = GetJSON (case net of Inl e \<Rightarrow> Inl e | Inr c \<Rightarrow> Inr (apiAccount c a))"

definition ClientStatus :: "(bytes \<Rightarrow> hash) \<Rightarrow> (Genesis \<Rightarrow> hash) \<Rightarrow> err + Chain \<Rightarrow> err + Status" where
  "ClientStatus sha ghash net = GetJSON (case net of Inl e \<Rightarrow> Inl e | Inr c \<Rightarrow> Inr (apiStatus sha ghash c))"

text \<open>\<open>Submit\<close>: the id the node reports; the reply may be lost after the node took the transaction.\<close>

definition ClientSubmit :: "err + (hash \<times> string) response \<Rightarrow> err + hash" where
  "ClientSubmit resp =
     (case resp of Inl e \<Rightarrow> Inl (Wrap ''node unreachable'' e)
      | Inr (status, Inl e) \<Rightarrow> Inl (Wrap ''node rejected tx'' e)
      | Inr (status, Inr (tid, _)) \<Rightarrow> Inr tid)"

text \<open>
  \<open>SignAndSubmit\<close> fills in chain id, sender, nonce and, unless the transaction mints or sets one,
  the asset's minimum fee. The answers of the node's three calls are arguments; the transaction
  that was sent, if it came to that, is returned with the reply.
\<close>

definition feeFor :: "Status \<Rightarrow> string \<Rightarrow> amount" where
  "feeFor st asset = foldl (\<lambda>f a. if adSymbol (asDef a) = asset then adMinFee (asDef a) else f) (ssMinFee st) (ssAssets st)"

definition prepareTx :: "Status \<Rightarrow> addr \<Rightarrow> AccountReply \<Rightarrow> Tx \<Rightarrow> Tx" where
  "prepareTx st from acc tx =
     (let tx1 = tx\<lparr>txChainID := ssChainID st, txFrom := from, txNonce := arNextNonce acc\<rparr>
      in if txFee tx = 0 \<and> txKind tx \<noteq> KindMint then tx1\<lparr>txFee := feeFor st (txAsset tx)\<rparr> else tx1)"

definition SignAndSubmit :: "(Tx \<Rightarrow> Tx) \<Rightarrow> addr \<Rightarrow> err + Status \<Rightarrow> (addr \<Rightarrow> err + AccountReply) \<Rightarrow> (Tx \<Rightarrow> err + hash) \<Rightarrow> Tx \<Rightarrow>
    (err + hash) \<times> Tx option" where
  "SignAndSubmit sign from status account submit tx =
     (case status of Inl e \<Rightarrow> (Inl e, None)
      | Inr st \<Rightarrow>
        (case account from of Inl e \<Rightarrow> (Inl e, None)
         | Inr acc \<Rightarrow> (let t = sign (prepareTx st from acc tx) in (submit t, Some t))))"

end
