(* ===== verification/Gateway.thy ===== *)
theory Gateway
  imports Json_Store Node_Api
begin

text \<open>
  The naira gateway: apps/gateway/main.go. It mints the NGN asset for collections a payment provider
  confirms, and pays naira out for NGN burned on the chain.

  The gateway's state is its two stores, of deposits and of withdrawals, and the cache of bank lists.
  Providers and the node are outside: their answers at the moment of a call are the functions of a
  \<open>World\<close>, one for each moment at which the code asks. What a handler did outside, the transactions
  it sent to the node and the payouts it ordered, is the list of effects it returns.

  Times are in nanoseconds, kobo amounts are \<open>int64\<close>. Log lines, JSON and HTTP headers are left out.
\<close>

subsection \<open>Providers: apps/gateway/provider.go\<close>

datatype PayStatus = StatusSuccess | StatusPending | StatusFailed

record Collection =
  clStatus :: PayStatus
  clRef :: string
  clGrossKobo :: int
  clFeeKobo :: int
  clCurrency :: string

record Bank =
  bkName :: string
  bkCode :: string

record WebhookEvent =
  weKind :: string
  weRef :: string
  weStatus :: "PayStatus option"

text \<open>The interface as a record of its methods; the metadata of a collection is a list of pairs.\<close>

record Provider =
  pvName :: string
  pvTestMode :: bool
  pvStartCollection :: "string \<Rightarrow> int \<Rightarrow> string \<Rightarrow> string \<Rightarrow> (string \<times> string) list \<Rightarrow> err + string"
  pvVerifyCollection :: "string \<Rightarrow> err + Collection"
  pvGrossUp :: "int \<Rightarrow> int"
  pvBanks :: "err + Bank list option"
  pvResolveAccount :: "string \<Rightarrow> string \<Rightarrow> err + string"
  pvPayout :: "int \<Rightarrow> string \<Rightarrow> string \<Rightarrow> string \<Rightarrow> string \<Rightarrow> string \<Rightarrow> err + PayStatus"
  pvPayoutStatus :: "string \<Rightarrow> err + PayStatus"
  pvBalanceKobo :: "err + int"
  pvParseWebhook :: "(string \<Rightarrow> string) \<Rightarrow> bytes \<Rightarrow> err + WebhookEvent"

subsection \<open>State\<close>

datatype DepositStatus = DepPending | DepMinted | DepFailed

record Deposit =
  dpReference :: string
  dpKind :: string
  dpProvider :: string
  dpAddress :: addr
  dpInvoice :: string
  dpNet :: amount
  dpChargedKb :: int
  dpStatus :: DepositStatus
  dpMintTx :: "hash option"
  dpError :: string
  dpCreatedAt :: int
  dpMintedAt :: int

datatype WithdrawalStatus = AwaitingBurn | Processing | Paid | Refunded | Expired

record Withdrawal =
  wdID :: string
  wdAddress :: addr
  wdAmount :: amount
  wdFee :: amount
  wdPayoutKobo :: int
  wdBankCode :: string
  wdBankName :: string
  wdAccountNumber :: string
  wdAccountName :: string
  wdProvider :: string
  wdStatus :: WithdrawalStatus
  wdBurnTx :: "hash option"
  wdRefundTx :: "hash option"
  wdError :: string
  wdCreatedAt :: int
  wdUpdatedAt :: int

record Config =
  cfPublicURL :: string
  cfAsset :: string
  cfDefaultProvider :: string
  cfIssuer :: addr
  cfWithdrawFee :: amount

record Gateway =
  gwDeposits :: "(string, Deposit) fmap Store"
  gwWithdrawals :: "(string, Withdrawal) fmap Store"
  gwBanks :: "(string, Bank list option \<times> int) fmap"

text \<open>What the outside answers at a moment; \<open>wFault\<close> is a failure of writing the store's file.\<close>

record World =
  wNow :: int
  wProviders :: "string \<Rightarrow> Provider option"
  wStatus :: "err + Status"
  wAccount :: "addr \<Rightarrow> err + AccountReply"
  wHistory :: "addr \<Rightarrow> err + HistoryEntry list"
  wSubmit :: "Tx \<Rightarrow> err + hash"
  wFault :: "err option"

datatype Effect = SentTx Tx | PaidOut string int string string string string

definition microPerKobo :: amount where "microPerKobo = 10000"

definition toMicro :: "int \<Rightarrow> amount" where
  "toMicro kobo = word_of_int kobo * microPerKobo"

definition toKobo :: "amount \<Rightarrow> int" where
  "toKobo m = uint (m div microPerKobo)"

definition seconds :: "int \<Rightarrow> int" where
  "seconds n = n * 1000000000"

definition orDefault :: "string \<Rightarrow> string \<Rightarrow> string" where
  "orDefault s def = (if s = '''' then def else s)"

definition providerFor :: "Config \<Rightarrow> World \<Rightarrow> string \<Rightarrow> err + Provider \<times> string" where
  "providerFor cf w name =
     (let n = (if name = '''' then cfDefaultProvider cf else name) in
      case wProviders w n of None \<Rightarrow> Inl (Err ''payment provider is not available'')
      | Some p \<Rightarrow> Inr (p, n))"

text \<open>A restart of the process: the stores are read back from their files.\<close>

definition restart :: "Gateway \<Rightarrow> Gateway" where
  "restart g = \<lparr>gwDeposits = reopen fmempty (gwDeposits g), gwWithdrawals = reopen fmempty (gwWithdrawals g), gwBanks = fmempty\<rparr>"

subsection \<open>Deposits\<close>

definition depositAt :: "Gateway \<Rightarrow> string \<Rightarrow> Deposit option" where
  "depositAt g ref = fmlookup (soData (gwDeposits g)) ref"

definition setDeposit :: "World \<Rightarrow> string \<Rightarrow> (Deposit \<Rightarrow> Deposit) \<Rightarrow> Gateway \<Rightarrow> Gateway" where
  "setDeposit w ref fn g =
     g\<lparr>gwDeposits := fst (Update (wFault w)
         (\<lambda>m. (case fmlookup m ref of None \<Rightarrow> m | Some d \<Rightarrow> fmupd ref (fn d) m, None)) (gwDeposits g))\<rparr>"

definition failDeposit :: "string \<Rightarrow> Deposit \<Rightarrow> Deposit" where
  "failDeposit msg d = d\<lparr>dpStatus := DepFailed, dpError := msg\<rparr>"

definition markMinted :: "World \<Rightarrow> hash \<Rightarrow> Deposit \<Rightarrow> Deposit" where
  "markMinted w tid d = d\<lparr>dpStatus := DepMinted, dpMintTx := Some tid, dpMintedAt := wNow w\<rparr>"

definition hasSuffix :: "string \<Rightarrow> string \<Rightarrow> bool" where
  "hasSuffix s t \<longleftrightarrow> length t \<le> length s \<and> drop (length s - length t) s = t"

definition isMintFor :: "Config \<Rightarrow> string \<Rightarrow> Tx \<Rightarrow> bool" where
  "isMintFor cf ref tx \<longleftrightarrow> txKind tx = KindMint \<and> txFrom tx = cfIssuer cf \<and> hasSuffix (txMemo tx) (''ref:'' @ ref)"

definition findMint :: "Config \<Rightarrow> World \<Rightarrow> addr \<Rightarrow> string \<Rightarrow> hash option" where
  "findMint cf w to ref =
     (case wHistory w to of Inl e \<Rightarrow> None
      | Inr h \<Rightarrow> map_option heID (find (\<lambda>e. isMintFor cf ref (heTx e)) h))"

text \<open>The transaction the gateway asks the node client to send.\<close>

definition mintTx :: "Config \<Rightarrow> addr \<Rightarrow> amount \<Rightarrow> string \<Rightarrow> Tx" where
  "mintTx cf to amount memo =
     \<lparr>txChainID = '''', txFrom = '''', txTo = to, txAmount = amount, txFee = 0, txNonce = 0, txMemo = memo,
      txKind = KindMint, txAsset = cfAsset cf, txPool = None, txEscrow = None, txGuard = None, txSig = []\<rparr>"

definition sendMint :: "(Tx \<Rightarrow> Tx) \<Rightarrow> Config \<Rightarrow> World \<Rightarrow> addr \<Rightarrow> amount \<Rightarrow> string \<Rightarrow> (err + hash) \<times> Effect list" where
  "sendMint sign cf w to amount memo =
     (case SignAndSubmit sign (cfIssuer cf) (wStatus w) (wAccount w) (wSubmit w) (mintTx cf to amount memo) of
        (r, None) \<Rightarrow> (r, []) | (r, Some t) \<Rightarrow> (r, [SentTx t]))"

definition depositMemo :: "Deposit \<Rightarrow> string \<Rightarrow> string" where
  "depositMemo d ref = (if dpKind d = ''invoice'' then ''inv:'' @ dpInvoice d else ''paystack:'' @ ref) @ '' ref:'' @ ref"

definition mintDeposit :: "(Tx \<Rightarrow> Tx) \<Rightarrow> Config \<Rightarrow> World \<Rightarrow> string \<Rightarrow> Deposit \<Rightarrow> Collection \<Rightarrow> Gateway \<Rightarrow> Gateway \<times> Effect list" where
  "mintDeposit sign cf w ref d tx g =
     (let received = toMicro (wrap64 (clGrossKobo tx - clFeeKobo tx)) in
      if clCurrency tx \<noteq> ''NGN'' \<or> clRef tx \<noteq> ref \<or> received < dpNet d
      then (setDeposit w ref (failDeposit ''amount mismatch'') g, [])
      else case findMint cf w (dpAddress d) ref of
        Some tid \<Rightarrow> (setDeposit w ref (markMinted w tid) g, [])
      | None \<Rightarrow>
          (case sendMint sign cf w (dpAddress d) (dpNet d) (depositMemo d ref) of
             (Inl e, eff) \<Rightarrow> (g, eff)
           | (Inr tid, eff) \<Rightarrow> (setDeposit w ref (markMinted w tid) g, eff)))"

definition settleDeposit :: "(Tx \<Rightarrow> Tx) \<Rightarrow> Config \<Rightarrow> World \<Rightarrow> string \<Rightarrow> Gateway \<Rightarrow> Gateway \<times> Effect list" where
  "settleDeposit sign cf w ref g =
     (case depositAt g ref of None \<Rightarrow> (g, [])
      | Some d \<Rightarrow>
        if dpStatus d \<noteq> DepPending then (g, [])
        else case providerFor cf w (orDefault (dpProvider d) ''paystack'') of Inl e \<Rightarrow> (g, [])
        | Inr (p, _) \<Rightarrow>
          (case pvVerifyCollection p ref of Inl e \<Rightarrow> (g, [])
           | Inr tx \<Rightarrow>
             (case clStatus tx of
                StatusSuccess \<Rightarrow> mintDeposit sign cf w ref d tx g
              | StatusFailed \<Rightarrow> (setDeposit w ref (failDeposit ''payment failed'') g, [])
              | StatusPending \<Rightarrow>
                  if wNow w - dpCreatedAt d > seconds (48 * 3600)
                  then (setDeposit w ref (failDeposit ''payment was not completed'') g, [])
                  else (g, []))))"

text \<open>\<open>getDeposit\<close>: a pending deposit is settled before it is shown.\<close>

definition getDeposit :: "(Tx \<Rightarrow> Tx) \<Rightarrow> Config \<Rightarrow> World \<Rightarrow> string \<Rightarrow> Gateway \<Rightarrow> Gateway \<times> Effect list \<times> Deposit option response" where
  "getDeposit sign cf w ref g =
     (case depositAt g ref of None \<Rightarrow> (g, [], writeErr 404 (Err ''deposit not found''))
      | Some d \<Rightarrow>
        if dpStatus d = DepPending
        then (let (g', eff) = settleDeposit sign cf w ref g in
              (g', eff, writeJSON 200 (depositAt g' ref)))
        else (g, [], writeJSON 200 (Some d)))"

subsection \<open>Requests that start a collection\<close>

text \<open>The regular expressions \<open>^[^@\s]+@[^@\s]+\.[^@\s]+$\<close> and \<open>^\d{10}$\<close>.\<close>

definition re_space :: "char \<Rightarrow> bool" where
  "re_space c = (let n = of_char c :: nat in n = 9 \<or> n = 10 \<or> n = 12 \<or> n = 13 \<or> n = 32)"

definition emailRe :: "string \<Rightarrow> bool" where
  "emailRe s =
     (let user = takeWhile (\<lambda>c. c \<noteq> CHR ''@'') s; host = tl (dropWhile (\<lambda>c. c \<noteq> CHR ''@'') s)
      in CHR ''@'' \<in> set s \<and> CHR ''@'' \<notin> set host \<and> \<not> list_ex re_space s \<and> user \<noteq> [] \<and>
         CHR ''.'' \<in> set (butlast (tl host)))"

definition acctRe :: "string \<Rightarrow> bool" where
  "acctRe s \<longleftrightarrow> length s = 10 \<and> list_all is_digit s"

record CheckoutReply =
  crReference :: string
  crAuthorizationUrl :: string
  crProvider :: string
  crAmount :: amount
  crChargeKobo :: int
  crFeeKobo :: int

definition startCheckout :: "Config \<Rightarrow> World \<Rightarrow> Deposit \<Rightarrow> string \<Rightarrow> string \<Rightarrow> Gateway \<Rightarrow> Gateway \<times> CheckoutReply response" where
  "startCheckout cf w d0 email callback g =
     (case providerFor cf w (dpProvider d0) of Inl e \<Rightarrow> (g, writeErr 400 e)
      | Inr (p, _) \<Rightarrow>
          (let d = d0\<lparr>dpChargedKb := pvGrossUp p (toKobo (dpNet d0))\<rparr> in
           case pvStartCollection p email (dpChargedKb d) (dpReference d) callback
               [(''kind'', dpKind d), (''address'', dpAddress d), (''invoice'', dpInvoice d)] of
             Inl e \<Rightarrow> (g, writeErr 502 e)
           | Inr url \<Rightarrow>
               (let (st, we) = Update (wFault w) (\<lambda>m. (fmupd (dpReference d) d m, None)) (gwDeposits g); g' = g\<lparr>gwDeposits := st\<rparr> in
                case we of Some e \<Rightarrow> (g', writeErr 500 e)
                | None \<Rightarrow> (g', writeJSON 201 \<lparr>crReference = dpReference d, crAuthorizationUrl = url, crProvider = dpProvider d,
                    crAmount = dpNet d, crChargeKobo = dpChargedKb d, crFeeKobo = wrap64 (dpChargedKb d - toKobo (dpNet d))\<rparr>))))"

definition newDeposit :: "string \<Rightarrow> string \<Rightarrow> string \<Rightarrow> addr \<Rightarrow> string \<Rightarrow> amount \<Rightarrow> int \<Rightarrow> Deposit" where
  "newDeposit ref kind prov to invoice net now =
     \<lparr>dpReference = ref, dpKind = kind, dpProvider = prov, dpAddress = to, dpInvoice = invoice, dpNet = net, dpChargedKb = 0,
      dpStatus = DepPending, dpMintTx = None, dpError = '''', dpCreatedAt = now, dpMintedAt = 0\<rparr>"

text \<open>\<open>createDeposit\<close> on the decoded body; \<open>rnd\<close> is \<open>randHex(10)\<close>, \<open>caller\<close> the signing address.\<close>

definition createDeposit :: "Config \<Rightarrow> World \<Rightarrow> string \<Rightarrow> addr \<Rightarrow> string \<Rightarrow> string \<Rightarrow> string \<Rightarrow> Gateway \<Rightarrow>
    Gateway \<times> CheckoutReply response" where
  "createDeposit cf w rnd caller amount email prov g =
     (case ParseAmount amount of
        Inl e \<Rightarrow> (g, writeErr 400 (Err ''amount out of range''))
      | Inr net \<Rightarrow>
          if net < 100 * Unit \<or> net > 10000000 * Unit \<or> net mod microPerKobo \<noteq> 0
          then (g, writeErr 400 (Err ''amount out of range''))
          else if \<not> emailRe email then (g, writeErr 400 (Err ''enter a valid email for your Paystack receipt''))
          else case providerFor cf w prov of Inl e \<Rightarrow> (g, writeErr 400 e)
          | Inr (_, name) \<Rightarrow>
              (let ref = ''dep_'' @ rnd in
               startCheckout cf w (newDeposit ref ''deposit'' name caller '''' net (wNow w)) email
                 (cfPublicURL cf @ ''/?deposit='' @ ref) g))"

text \<open>\<open>payInvoiceByCard\<close>: the backend's answer about the checkout is an argument.\<close>

record InvoiceView =
  ivID :: string
  ivMerchant :: addr
  ivAmount :: amount
  ivAsset :: string
  ivStatus :: string

definition payInvoiceByCard :: "Config \<Rightarrow> World \<Rightarrow> string \<Rightarrow> string \<Rightarrow> string \<Rightarrow> err + InvoiceView option \<Rightarrow> Gateway \<Rightarrow>
    Gateway \<times> CheckoutReply response" where
  "payInvoiceByCard cf w rnd email prov backend g =
     (if \<not> emailRe email then (g, writeErr 400 (Err ''enter a valid email for your receipt''))
      else case backend of Inl e \<Rightarrow> (g, writeErr 502 e)
      | Inr None \<Rightarrow> (g, writeErr 404 (Err ''checkout not found''))
      | Inr (Some iv) \<Rightarrow>
          if ivStatus iv \<noteq> ''pending'' \<or> ivAsset iv \<noteq> cfAsset cf \<or> ivAmount iv mod microPerKobo \<noteq> 0
          then (g, writeErr 400 (Err ''this checkout cannot be paid by card''))
          else case providerFor cf w prov of Inl e \<Rightarrow> (g, writeErr 400 e)
          | Inr (_, name) \<Rightarrow>
              (let ref = ''inv_'' @ rnd in
               startCheckout cf w (newDeposit ref ''invoice'' name (ivMerchant iv) (ivID iv) (ivAmount iv) (wNow w)) email
                 (cfPublicURL cf @ ''/?invoice='' @ ivID iv @ ''&card='' @ ref) g))"

subsection \<open>Withdrawals\<close>

definition wdMemo :: "Withdrawal \<Rightarrow> string" where
  "wdMemo wd = ''wd:'' @ wdID wd"

definition setWithdrawal :: "World \<Rightarrow> string \<Rightarrow> (Withdrawal \<Rightarrow> Withdrawal) \<Rightarrow> Gateway \<Rightarrow> Gateway" where
  "setWithdrawal w wid fn g =
     g\<lparr>gwWithdrawals := fst (Update (wFault w)
         (\<lambda>m. (case fmlookup m wid of None \<Rightarrow> m | Some x \<Rightarrow> fmupd wid ((fn x)\<lparr>wdUpdatedAt := wNow w\<rparr>) m, None))
         (gwWithdrawals g))\<rparr>"

text \<open>\<open>banks\<close>: a provider's list, cached for a day (\<open>None\<close> is a nil list).\<close>

definition banks :: "Config \<Rightarrow> World \<Rightarrow> string \<Rightarrow> Gateway \<Rightarrow> Gateway \<times> (err + Bank list option)" where
  "banks cf w name g =
     (case providerFor cf w name of Inl e \<Rightarrow> (g, Inl e)
      | Inr (p, n) \<Rightarrow>
        (case (case fmlookup (gwBanks g) n of
                 Some (Some l, at) \<Rightarrow> if wNow w - at > seconds (24 * 3600) then None else Some l
               | _ \<Rightarrow> None) of
           Some l \<Rightarrow> (g, Inr (Some l))
         | None \<Rightarrow>
             (case pvBanks p of Inl e \<Rightarrow> (g, Inl e)
              | Inr l \<Rightarrow> (g\<lparr>gwBanks := fmupd n (l, wNow w) (gwBanks g)\<rparr>, Inr l))))"

definition resolveBank :: "Config \<Rightarrow> World \<Rightarrow> string \<Rightarrow> string \<Rightarrow> string \<Rightarrow> string response" where
  "resolveBank cf w acct code prov =
     (if \<not> acctRe acct \<or> code = '''' then writeErr 400 (Err ''enter a 10-digit account number and choose a bank'')
      else case providerFor cf w prov of Inl e \<Rightarrow> writeErr 400 e
      | Inr (p, _) \<Rightarrow>
        (case pvResolveAccount p acct code of Inl e \<Rightarrow> writeErr 400 (Err ''could not verify that account'')
         | Inr name \<Rightarrow> writeJSON 200 name))"

definition bankName :: "err + Bank list option \<Rightarrow> string \<Rightarrow> string" where
  "bankName r code =
     (case r of Inr (Some l) \<Rightarrow> foldl (\<lambda>n b. if bkCode b = code then bkName b else n) code l | _ \<Rightarrow> code)"

definition createWithdrawal :: "Config \<Rightarrow> World \<Rightarrow> string \<Rightarrow> addr \<Rightarrow> string \<Rightarrow> string \<Rightarrow> string \<Rightarrow> string \<Rightarrow> Gateway \<Rightarrow>
    Gateway \<times> Withdrawal response" where
  "createWithdrawal cf w rnd caller amount code acct prov g =
     (case ParseAmount amount of
        Inl e \<Rightarrow> (g, writeErr 400 (Err ''minimum withdrawal''))
      | Inr amt \<Rightarrow>
          if amt mod microPerKobo \<noteq> 0 \<or> amt < cfWithdrawFee cf + 100 * Unit
          then (g, writeErr 400 (Err ''minimum withdrawal''))
          else if \<not> acctRe acct then (g, writeErr 400 (Err ''account number must be 10 digits''))
          else case providerFor cf w prov of Inl e \<Rightarrow> (g, writeErr 400 e)
          | Inr (p, pname) \<Rightarrow>
            (case pvResolveAccount p acct code of Inl e \<Rightarrow> (g, writeErr 400 (Err ''could not verify that bank account''))
             | Inr name \<Rightarrow>
                 (let (g1, list) = banks cf w pname g;
                      wd = \<lparr>wdID = rnd, wdAddress = caller, wdAmount = amt, wdFee = cfWithdrawFee cf,
                            wdPayoutKobo = toKobo (amt - cfWithdrawFee cf), wdBankCode = code, wdBankName = bankName list code,
                            wdAccountNumber = acct, wdAccountName = name, wdProvider = pname, wdStatus = AwaitingBurn,
                            wdBurnTx = None, wdRefundTx = None, wdError = '''', wdCreatedAt = wNow w, wdUpdatedAt = wNow w\<rparr>;
                      (st, we) = Update (wFault w) (\<lambda>m. (fmupd rnd wd m, None)) (gwWithdrawals g1);
                      g2 = g1\<lparr>gwWithdrawals := st\<rparr>
                  in case we of Some e \<Rightarrow> (g2, writeErr 500 e) | None \<Rightarrow> (g2, writeJSON 201 wd))))"

definition listWithdrawals :: "Gateway \<Rightarrow> addr \<Rightarrow> Withdrawal list" where
  "listWithdrawals g me = filter (\<lambda>wd. wdAddress wd = me) (map snd (sortedEntries (soData (gwWithdrawals g))))"

text \<open>\<open>refund\<close>; reading a withdrawal that does not exist is a nil dereference.\<close>

definition refundRef :: "string \<Rightarrow> string" where
  "refundRef wid = ''refund-'' @ wid"

definition markRefunded :: "hash \<Rightarrow> string \<Rightarrow> Withdrawal \<Rightarrow> Withdrawal" where
  "markRefunded tid reason x = x\<lparr>wdStatus := Refunded, wdRefundTx := Some tid, wdError := reason\<rparr>"

definition refund :: "(Tx \<Rightarrow> Tx) \<Rightarrow> Config \<Rightarrow> World \<Rightarrow> string \<Rightarrow> string \<Rightarrow> Gateway \<Rightarrow> err + Gateway \<times> Effect list" where
  "refund sign cf w wid reason g =
     (case fmlookup (soData (gwWithdrawals g)) wid of None \<Rightarrow> Inl (Panic ''nil withdrawal'')
      | Some wd \<Rightarrow>
        if wdStatus wd = Refunded \<or> wdStatus wd = Paid then Inr (g, [])
        else case findMint cf w (wdAddress wd) (refundRef (wdID wd)) of
          Some tid \<Rightarrow> Inr (setWithdrawal w wid (markRefunded tid reason) g, [])
        | None \<Rightarrow>
            (case sendMint sign cf w (wdAddress wd) (wdAmount wd) (''withdrawal refund ref:'' @ refundRef (wdID wd)) of
               (Inl e, eff) \<Rightarrow> Inr (setWithdrawal w wid (\<lambda>x. x\<lparr>wdError := ''refund pending''\<rparr>) g, eff)
             | (Inr tid, eff) \<Rightarrow> Inr (setWithdrawal w wid (markRefunded tid reason) g, eff)))"

definition settleFailedPayout :: "(Tx \<Rightarrow> Tx) \<Rightarrow> Config \<Rightarrow> World \<Rightarrow> Provider \<Rightarrow> string \<Rightarrow> string \<Rightarrow> Gateway \<Rightarrow> err + Gateway \<times> Effect list" where
  "settleFailedPayout sign cf w p wid reason g =
     (case pvPayoutStatus p wid of
        Inr st \<Rightarrow> if st \<noteq> StatusFailed then Inr (g, []) else refund sign cf w wid reason g
      | Inl e \<Rightarrow> refund sign cf w wid reason g)"


subsection \<open>The watcher\<close>

definition isTodo :: "int \<Rightarrow> Withdrawal \<Rightarrow> bool" where
  "isTodo now wd \<longleftrightarrow>
     wdStatus wd = AwaitingBurn \<or> (wdStatus wd = Expired \<and> now - wdCreatedAt wd < seconds (7 * 24 * 3600))"

definition isInFlight :: "int \<Rightarrow> Withdrawal \<Rightarrow> bool" where
  "isInFlight now wd \<longleftrightarrow> wdStatus wd = Processing \<and> now - wdUpdatedAt wd > seconds 60"

definition isBurnFor :: "Config \<Rightarrow> Withdrawal \<Rightarrow> Tx \<Rightarrow> bool" where
  "isBurnFor cf wd tx \<longleftrightarrow> txKind tx = KindBurn \<and> txFrom tx = wdAddress wd \<and> txAsset tx = cfAsset cf \<and>
     txMemo tx = wdMemo wd \<and> txAmount tx = wdAmount wd"

text \<open>
  One withdrawal of the pass, given the history of its address; \<open>w'\<close> is the world by the time a
  failed payout is looked into.
\<close>

definition payOne :: "(Tx \<Rightarrow> Tx) \<Rightarrow> Config \<Rightarrow> World \<Rightarrow> World \<Rightarrow> HistoryEntry list \<Rightarrow> Withdrawal \<Rightarrow> Gateway \<Rightarrow>
    err + Gateway \<times> Effect list" where
  "payOne sign cf w w' h wd g =
     (let burns = filter (\<lambda>e. isBurnFor cf wd (heTx e)) h in
      if burns = [] then
        Inr (if wdStatus wd = AwaitingBurn \<and> wNow w - wdCreatedAt wd > seconds (30 * 60)
             then setWithdrawal w (wdID wd) (\<lambda>x. x\<lparr>wdStatus := Expired\<rparr>) g else g, [])
      else
        (let g1 = setWithdrawal w (wdID wd) (\<lambda>x. x\<lparr>wdStatus := Processing, wdBurnTx := Some (heID (last burns))\<rparr>) g in
         case providerFor cf w (orDefault (wdProvider wd) ''paystack'') of
           Inl e \<Rightarrow> refund sign cf w' (wdID wd) ''payment provider is not available'' g1
         | Inr (p, n) \<Rightarrow>
             (let paid = PaidOut n (wdPayoutKobo wd) (wdAccountName wd) (wdAccountNumber wd) (wdBankCode wd) (wdID wd) in
              case pvPayout p (wdPayoutKobo wd) (wdAccountName wd) (wdAccountNumber wd) (wdBankCode wd) (wdID wd) ''ORPay withdrawal'' of
                Inr StatusSuccess \<Rightarrow> Inr (setWithdrawal w (wdID wd) (\<lambda>x. x\<lparr>wdStatus := Paid\<rparr>) g1, [paid])
              | Inr StatusPending \<Rightarrow> Inr (g1, [paid])
              | _ \<Rightarrow>
                  (case settleFailedPayout sign cf w' p (wdID wd) ''payout failed'' g1 of
                     Inl e \<Rightarrow> Inl e | Inr (g2, eff) \<Rightarrow> Inr (g2, paid # eff)))))"

text \<open>
  The loop over the withdrawals to pay. \<open>ws\<close> and \<open>ws'\<close> give the world at each withdrawal's turn; a
  history that cannot be read ends the whole pass (\<open>False\<close>).
\<close>

fun processTodo :: "(Tx \<Rightarrow> Tx) \<Rightarrow> Config \<Rightarrow> (string \<Rightarrow> World) \<Rightarrow> (string \<Rightarrow> World) \<Rightarrow> Withdrawal list \<Rightarrow> Gateway \<Rightarrow>
    err + Gateway \<times> Effect list \<times> bool" where
  "processTodo sign cf ws ws' [] g = Inr (g, [], True)"
| "processTodo sign cf ws ws' (wd # rest) g =
     (let w = ws (wdID wd); w' = ws' (wdID wd) in
      case wHistory w (wdAddress wd) of Inl e \<Rightarrow> Inr (g, [], False)
      | Inr h \<Rightarrow>
        (case payOne sign cf w w' h wd g of Inl e \<Rightarrow> Inl e
         | Inr (g1, eff) \<Rightarrow>
           (case processTodo sign cf ws ws' rest g1 of Inl e \<Rightarrow> Inl e
            | Inr (g2, effs, ok) \<Rightarrow> Inr (g2, eff @ effs, ok))))"

definition pollOne :: "(Tx \<Rightarrow> Tx) \<Rightarrow> Config \<Rightarrow> World \<Rightarrow> Withdrawal \<Rightarrow> Gateway \<Rightarrow> err + Gateway \<times> Effect list" where
  "pollOne sign cf w wd g =
     (case providerFor cf w (orDefault (wdProvider wd) ''paystack'') of Inl e \<Rightarrow> Inr (g, [])
      | Inr (p, _) \<Rightarrow>
        (case pvPayoutStatus p (wdID wd) of
           Inr StatusSuccess \<Rightarrow> Inr (setWithdrawal w (wdID wd) (\<lambda>x. x\<lparr>wdStatus := Paid\<rparr>) g, [])
         | Inr StatusFailed \<Rightarrow> refund sign cf w (wdID wd) ''bank transfer failed'' g
         | _ \<Rightarrow> Inr (g, [])))"

fun pollAll :: "(Tx \<Rightarrow> Tx) \<Rightarrow> Config \<Rightarrow> (string \<Rightarrow> World) \<Rightarrow> Withdrawal list \<Rightarrow> Gateway \<Rightarrow> err + Gateway \<times> Effect list" where
  "pollAll sign cf ws [] g = Inr (g, [])"
| "pollAll sign cf ws (wd # rest) g =
     (case pollOne sign cf (ws (wdID wd)) wd g of Inl e \<Rightarrow> Inl e
      | Inr (g1, eff) \<Rightarrow>
        (case pollAll sign cf ws rest g1 of Inl e \<Rightarrow> Inl e | Inr (g2, effs) \<Rightarrow> Inr (g2, eff @ effs)))"

text \<open>A pass; \<open>order\<close> lists the keys of the withdrawal map in the order Go iterates over it.\<close>

definition snapshotOf :: "Gateway \<Rightarrow> string list \<Rightarrow> Withdrawal list" where
  "snapshotOf g order = map (\<lambda>i. the (fmlookup (soData (gwWithdrawals g)) i))
     (filter (\<lambda>i. fmlookup (soData (gwWithdrawals g)) i \<noteq> None) order)"

definition processWithdrawals :: "(Tx \<Rightarrow> Tx) \<Rightarrow> Config \<Rightarrow> int \<Rightarrow> string list \<Rightarrow> (string \<Rightarrow> World) \<Rightarrow> (string \<Rightarrow> World) \<Rightarrow> Gateway \<Rightarrow>
    err + Gateway \<times> Effect list" where
  "processWithdrawals sign cf now order ws ws' g =
     (case processTodo sign cf ws ws' (filter (isTodo now) (snapshotOf g order)) g of
        Inl e \<Rightarrow> Inl e
      | Inr (g1, eff, False) \<Rightarrow> Inr (g1, eff)
      | Inr (g1, eff, True) \<Rightarrow>
          (case pollAll sign cf ws (filter (isInFlight now) (snapshotOf g order)) g1 of
             Inl e \<Rightarrow> Inl e | Inr (g2, effs) \<Rightarrow> Inr (g2, eff @ effs)))"

fun settleAll :: "(Tx \<Rightarrow> Tx) \<Rightarrow> Config \<Rightarrow> (string \<Rightarrow> World) \<Rightarrow> string list \<Rightarrow> Gateway \<Rightarrow> Gateway \<times> Effect list" where
  "settleAll sign cf ws [] g = (g, [])"
| "settleAll sign cf ws (r # rs) g =
     (let (g1, eff) = settleDeposit sign cf (ws r) r g; (g2, effs) = settleAll sign cf ws rs g1 in (g2, eff @ effs))"

definition isWaiting :: "int \<Rightarrow> Gateway \<Rightarrow> string \<Rightarrow> bool" where
  "isWaiting now g r =
     (case depositAt g r of None \<Rightarrow> False
      | Some d \<Rightarrow> dpStatus d = DepPending \<and> now - dpCreatedAt d < seconds (48 * 3600))"

definition watchTick :: "(Tx \<Rightarrow> Tx) \<Rightarrow> Config \<Rightarrow> int \<Rightarrow> string list \<Rightarrow> string list \<Rightarrow> (string \<Rightarrow> World) \<Rightarrow> (string \<Rightarrow> World) \<Rightarrow> Gateway \<Rightarrow>
    err + Gateway \<times> Effect list" where
  "watchTick sign cf now refs order ws ws' g =
     (let (g1, eff) = settleAll sign cf ws (filter (isWaiting now g) refs) g in
      case processWithdrawals sign cf now order ws ws' g1 of Inl e \<Rightarrow> Inl e
      | Inr (g2, effs) \<Rightarrow> Inr (g2, eff @ effs))"

subsection \<open>Webhooks and the reserve\<close>

definition handleEvent :: "(Tx \<Rightarrow> Tx) \<Rightarrow> Config \<Rightarrow> World \<Rightarrow> Provider \<Rightarrow> WebhookEvent \<Rightarrow> Gateway \<Rightarrow> err + Gateway \<times> Effect list" where
  "handleEvent sign cf w p ev g =
     (if weKind ev = ''collection'' \<and> weStatus ev = Some StatusSuccess then Inr (settleDeposit sign cf w (weRef ev) g)
      else if weKind ev = ''payout'' \<and> weStatus ev = Some StatusSuccess
      then Inr (setWithdrawal w (weRef ev) (\<lambda>x. if wdStatus x = Processing then x\<lparr>wdStatus := Paid\<rparr> else x) g, [])
      else if weKind ev = ''payout'' \<and> weStatus ev = Some StatusFailed
      then settleFailedPayout sign cf w p (weRef ev) ''bank transfer failed'' g
      else Inr (g, []))"

definition webhook :: "(Tx \<Rightarrow> Tx) \<Rightarrow> Config \<Rightarrow> World \<Rightarrow> string \<Rightarrow> (string \<Rightarrow> string) \<Rightarrow> bytes \<Rightarrow> Gateway \<Rightarrow>
    (err + Gateway \<times> Effect list) \<times> unit response" where
  "webhook sign cf w prov header body g =
     (case wProviders w prov of None \<Rightarrow> (Inr (g, []), writeErr 404 (Err ''unknown provider''))
      | Some p \<Rightarrow>
          if length body > 1048576 then (Inr (g, []), writeErr 400 (Err ''http: request body too large''))
          else case pvParseWebhook p header body of Inl e \<Rightarrow> (Inr (g, []), writeErr 401 e)
          | Inr ev \<Rightarrow> (handleEvent sign cf w p ev g, (200, Inr ())))"

text \<open>\<open>reserve\<close>; \<open>ps\<close> lists the configured providers. The coverage ratio, a float, is left out.\<close>

record Reserve =
  rvSupply :: amount
  rvTotal :: int
  rvOwed :: int
  rvReserve :: amount
  rvFullyBacked :: bool

fun sumBalances :: "Provider list \<Rightarrow> int \<Rightarrow> err + int" where
  "sumBalances [] bal = Inr bal"
| "sumBalances (p # ps) bal =
     (case pvBalanceKobo p of Inl e \<Rightarrow> Inl (Wrap ''balance'' e) | Inr b \<Rightarrow> sumBalances ps (wrap64 (bal + b)))"

definition owedKobo :: "Gateway \<Rightarrow> int" where
  "owedKobo g =
     foldl (\<lambda>a wd. if wdStatus wd = Processing then wrap64 (a + wdPayoutKobo wd) else a) 0
       (map snd (sortedEntries (soData (gwWithdrawals g))))"

definition supplyOfAsset :: "string \<Rightarrow> AssetStatus list \<Rightarrow> amount" where
  "supplyOfAsset asset as = foldl (\<lambda>s a. if adSymbol (asDef a) = asset then asSupply a else s) 0 as"

definition reserveReport :: "Config \<Rightarrow> World \<Rightarrow> Provider list \<Rightarrow> Gateway \<Rightarrow> Reserve response" where
  "reserveReport cf w ps g =
     (case wStatus w of Inl e \<Rightarrow> writeErr 502 e
      | Inr st \<Rightarrow>
        (case sumBalances ps 0 of Inl e \<Rightarrow> writeErr 502 e
         | Inr bal \<Rightarrow>
             (let supply = supplyOfAsset (cfAsset cf) (ssAssets st); owed = owedKobo g; available = toMicro (wrap64 (bal - owed))
              in writeJSON 200 \<lparr>rvSupply = supply, rvTotal = bal, rvOwed = owed, rvReserve = available,
                   rvFullyBacked = (available \<ge> supply)\<rparr>)))"

end
