(* ===== verification/Gateway_Properties.thy ===== *)
theory Gateway_Properties
  imports Gateway
begin

text \<open>
  What the gateway guarantees, over any run in which the node and the providers answer as they like:
  a mint for a payment and a refund for a withdrawal happen once unless the node's history hides the
  first, a payout is ordered once, and each only for money that came in. And what it does not guarantee: three ways its error handling fails.
\<close>

subsection \<open>Frames\<close>

lemma setDeposit_frame [simp]:
  "gwWithdrawals (setDeposit w ref fn g) = gwWithdrawals g" "gwBanks (setDeposit w ref fn g) = gwBanks g"
  by (simp_all add: setDeposit_def)

lemma setWithdrawal_frame [simp]:
  "gwDeposits (setWithdrawal w wid fn g) = gwDeposits g" "gwBanks (setWithdrawal w wid fn g) = gwBanks g"
  by (simp_all add: setWithdrawal_def)

abbreviation "deps g \<equiv> soData (gwDeposits g)"
abbreviation "wds g \<equiv> soData (gwWithdrawals g)"

lemma deps_setDeposit: "deps (setDeposit w ref fn g) = (case fmlookup (deps g) ref of None \<Rightarrow> deps g | Some d \<Rightarrow> fmupd ref (fn d) (deps g))"
  by (simp add: setDeposit_def)

lemma wds_setWithdrawal: "wds (setWithdrawal w wid fn g) =
    (case fmlookup (wds g) wid of None \<Rightarrow> wds g | Some x \<Rightarrow> fmupd wid ((fn x)\<lparr>wdUpdatedAt := wNow w\<rparr>) (wds g))"
  by (simp add: setWithdrawal_def)

text \<open>Files that hold what memory holds: so it stays while writes succeed, and then a restart loses nothing.\<close>

definition saved :: "Gateway \<Rightarrow> bool" where
  "saved g \<longleftrightarrow> soDisk (gwDeposits g) = Some (deps g) \<and> soDisk (gwWithdrawals g) = Some (wds g)"

lemma Update_None: "fault = None \<Longrightarrow> snd (fn (soData s)) = None \<Longrightarrow> soDisk (fst (Update fault fn s)) = Some (fst (fn (soData s)))"
  by (cases "fn (soData s)") (simp add: Update_def WriteAtomic_def)

lemma saved_setDeposit: "saved g \<Longrightarrow> wFault w = None \<Longrightarrow> saved (setDeposit w ref fn g)"
  by (simp add: saved_def setDeposit_def Update_None)

lemma saved_setWithdrawal: "saved g \<Longrightarrow> wFault w = None \<Longrightarrow> saved (setWithdrawal w wid fn g)"
  by (simp add: saved_def setWithdrawal_def Update_None)

lemma restart_saved:
  assumes "saved g"
  shows "deps (restart g) = deps g" "wds (restart g) = wds g" "saved (restart g)"
  using assms by (simp_all add: saved_def restart_def reopen_def)

subsection \<open>References\<close>

text \<open>The references the gateway makes: 20 hexadecimal characters after a prefix.\<close>

definition good_ref :: "string \<Rightarrow> bool" where
  "good_ref r \<longleftrightarrow> (\<exists>h. length h = 20 \<and> (r = ''dep_'' @ h \<or> r = ''inv_'' @ h \<or> r = refundRef h))"

lemma hasSuffix_iff: "hasSuffix s t \<longleftrightarrow> (\<exists>m. s = m @ t)"
proof
  assume "hasSuffix s t"
  then have "s = take (length s - length t) s @ t" unfolding hasSuffix_def by (metis append_take_drop_id)
  then show "\<exists>m. s = m @ t" ..
qed (auto simp: hasSuffix_def)

lemma append_suffix_same: "length t = length u \<Longrightarrow> m @ t = k @ u \<longleftrightarrow> m = k \<and> t = u"
  by (simp add: append_eq_append_conv)

text \<open>A memo ends with one reference only.\<close>

lemma ref_unique:
  assumes "good_ref r" and "good_ref q" and "hasSuffix (m @ ''ref:'' @ r) (''ref:'' @ q)"
  shows "q = r"
proof -
  obtain k where k: "m @ ''ref:'' @ r = k @ ''ref:'' @ q" using assms(3) by (auto simp: hasSuffix_iff)
  obtain h where h: "length h = 20" "r = ''dep_'' @ h \<or> r = ''inv_'' @ h \<or> r = ''refund-'' @ h"
    using assms(1) by (auto simp: good_ref_def refundRef_def)
  obtain j where j: "length j = 20" "q = ''dep_'' @ j \<or> q = ''inv_'' @ j \<or> q = ''refund-'' @ j"
    using assms(2) by (auto simp: good_ref_def refundRef_def)
  from h(2) j(2) consider "length r = length q" | "length r = 24" "q = ''refund-'' @ j" | "r = ''refund-'' @ h" "length q = 24"
    using h(1) j(1) by auto
  then show ?thesis
  proof cases
    case 1
    then show ?thesis using k append_suffix_same [of "''ref:'' @ r" "''ref:'' @ q" m k] by simp
  next
    case 2
    have "rev (m @ ''ref:'' @ r) ! 27 = CHR ''r''" using 2(1) by (simp add: nth_append)
    moreover have "rev (k @ ''ref:'' @ q) ! 27 = CHR '':''" using j(1) by (simp add: 2(2) nth_append)
    ultimately have False unfolding k by simp
    then show ?thesis ..
  next
    case 3
    have "rev (k @ ''ref:'' @ q) ! 27 = CHR ''r''" using 3(2) by (simp add: nth_append)
    moreover have "rev (m @ ''ref:'' @ r) ! 27 = CHR '':''" using h(1) by (simp add: 3(1) nth_append)
    ultimately have False unfolding k by simp
    then show ?thesis ..
  qed
qed

subsection \<open>Minting\<close>

text \<open>Signing changes the signature only.\<close>

definition signs :: "(Tx \<Rightarrow> Tx) \<Rightarrow> bool" where
  "signs sign \<longleftrightarrow> (\<forall>t. \<exists>s. sign t = t\<lparr>txSig := s\<rparr>)"

fun sentTxs :: "Effect list \<Rightarrow> Tx list" where
  "sentTxs [] = []"
| "sentTxs (SentTx t # es) = t # sentTxs es"
| "sentTxs (PaidOut n k a b c i # es) = sentTxs es"

fun payoutIds :: "Effect list \<Rightarrow> string list" where
  "payoutIds [] = []"
| "payoutIds (SentTx t # es) = payoutIds es"
| "payoutIds (PaidOut n k a b c i # es) = i # payoutIds es"

text \<open>The mint for a reference, an address and an amount.\<close>

definition mints :: "Config \<Rightarrow> string \<Rightarrow> addr \<Rightarrow> amount \<Rightarrow> Tx \<Rightarrow> bool" where
  "mints cf r to amount t \<longleftrightarrow> txKind t = KindMint \<and> txFrom t = cfIssuer cf \<and> txAsset t = cfAsset cf \<and> txTo t = to \<and>
     txAmount t = amount \<and> (\<exists>m. txMemo t = m @ ''ref:'' @ r)"

lemma sendMint_cases:
  assumes "signs sign"
  shows "(\<exists>e. sendMint sign cf w to amount (m @ ''ref:'' @ r) = (Inl e, [])) \<or>
    (\<exists>t res. sendMint sign cf w to amount (m @ ''ref:'' @ r) = (res, [SentTx t]) \<and> mints cf r to amount t \<and> res = wSubmit w t)"
proof (cases "wStatus w")
  case (Inl e)
  then show ?thesis by (simp add: sendMint_def SignAndSubmit_def)
next
  case (Inr st)
  show ?thesis
  proof (cases "wAccount w (cfIssuer cf)")
    case (Inl e)
    then show ?thesis using Inr by (simp add: sendMint_def SignAndSubmit_def)
  next
    case (Inr acc)
    let ?t = "prepareTx st (cfIssuer cf) acc (mintTx cf to amount (m @ ''ref:'' @ r))"
    obtain s where s: "sign ?t = ?t\<lparr>txSig := s\<rparr>" using assms unfolding signs_def by blast
    have "mints cf r to amount (sign ?t)" unfolding s by (simp add: mints_def prepareTx_def mintTx_def Let_def)
    then show ?thesis using Inr \<open>wStatus w = Inr st\<close> by (simp add: sendMint_def SignAndSubmit_def Let_def)
  qed
qed

text \<open>
  What the node shows of the mints it took. \<open>findMint\<close> sees nothing when the history cannot be read,
  and a history lists only committed transactions, and only the last 500 of an address. So every mint
  is recorded with the earlier ones that were hidden at the moment it was looked for.
\<close>

definition shown :: "World \<Rightarrow> Tx \<Rightarrow> bool" where
  "shown w t \<longleftrightarrow> (\<exists>h. wHistory w (txTo t) = Inr h \<and> t \<in> heTx ` set h)"

definition taken :: "World \<Rightarrow> (Tx \<times> Tx list) list \<Rightarrow> Tx list \<Rightarrow> (Tx \<times> Tx list) list" where
  "taken w M T = map (\<lambda>t. (t, filter (\<lambda>t0. \<not> shown w t0) (map fst M))) T"

lemma taken_Nil [simp]: "taken w M [] = []"
  by (simp add: taken_def)

lemma findMint_shown:
  assumes "shown w t" and "isMintFor cf r t"
  shows "findMint cf w (txTo t) r \<noteq> None"
proof -
  obtain h e where h: "wHistory w (txTo t) = Inr h" "e \<in> set h" "heTx e = t"
    using assms(1) by (auto simp: shown_def)
  then have "find (\<lambda>e. isMintFor cf r (heTx e)) h \<noteq> None" using assms(2) by (auto simp: find_None_iff)
  then show ?thesis using h(1) by (auto simp: findMint_def)
qed

text \<open>The references a gateway may still mint for, with the address each is bound to.\<close>

definition bound :: "Gateway \<Rightarrow> string \<Rightarrow> addr \<Rightarrow> bool" where
  "bound g r a \<longleftrightarrow> good_ref r \<and>
     ((\<exists>d. fmlookup (deps g) r = Some d \<and> dpAddress d = a \<and> r \<noteq> refundRef (drop 7 r)) \<or>
      (\<exists>x. fmlookup (wds g) (drop 7 r) = Some x \<and> wdAddress x = a \<and> r = refundRef (drop 7 r)))"

lemma bound_unique: "bound g r a \<Longrightarrow> bound g r b \<Longrightarrow> a = b"
  by (auto simp: bound_def)

text \<open>The names in the stores are the records' own, and good references.\<close>

definition named :: "Gateway \<Rightarrow> bool" where
  "named g \<longleftrightarrow> (\<forall>r d. fmlookup (deps g) r = Some d \<longrightarrow> (\<exists>h. length h = 20 \<and> (r = ''dep_'' @ h \<or> r = ''inv_'' @ h))) \<and>
     (\<forall>i x. fmlookup (wds g) i = Some x \<longrightarrow> wdID x = i \<and> length i = 20)"

text \<open>
  Mints taken so far: each for a bound reference, and a later one for the same reference only where
  the earlier was hidden.
\<close>

definition once :: "Config \<Rightarrow> Tx \<times> Tx list \<Rightarrow> Tx \<times> Tx list \<Rightarrow> bool" where
  "once cf x y \<longleftrightarrow> (\<forall>r. good_ref r \<longrightarrow> isMintFor cf r (fst x) \<longrightarrow> isMintFor cf r (fst y) \<longrightarrow> fst x \<in> set (snd y))"

definition minted_ok :: "Config \<Rightarrow> Gateway \<Rightarrow> (Tx \<times> Tx list) list \<Rightarrow> bool" where
  "minted_ok cf g M \<longleftrightarrow> (\<forall>x\<in>set M. \<exists>r a n. bound g r a \<and> mints cf r a n (fst x)) \<and> sorted_wrt (once cf) M"

lemma mints_isMintFor: "mints cf r a n t \<Longrightarrow> isMintFor cf r t"
  by (auto simp: mints_def isMintFor_def hasSuffix_iff)

lemma mints_only: "mints cf r a n t \<Longrightarrow> good_ref r \<Longrightarrow> good_ref q \<Longrightarrow> isMintFor cf q t \<Longrightarrow> q = r"
  using ref_unique by (auto simp: mints_def isMintFor_def)

text \<open>What was already minted for a reference that a lookup does not find is hidden.\<close>

lemma none_minted:
  assumes ok: "minted_ok cf g M" and "bound g r a" and "findMint cf w a r = None" and x: "x \<in> set M" "isMintFor cf r (fst x)"
  shows "\<not> shown w (fst x)"
proof
  assume sh: "shown w (fst x)"
  obtain q b n where q: "bound g q b" "mints cf q b n (fst x)" using ok x(1) unfolding minted_ok_def by blast
  have "good_ref r" "good_ref q" using assms(2) q(1) by (simp_all add: bound_def)
  then have "r = q" using mints_only [OF q(2)] x(2) by blast
  then have "b = a" using bound_unique assms(2) q(1) by blast
  then have "txTo (fst x) = a" using q(2) by (simp add: mints_def)
  then show False using findMint_shown [OF sh x(2)] assms(3) by simp
qed

lemma minted_ok_add:
  assumes ok: "minted_ok cf g M" and "bound g r a" and "mints cf r a n t"
    and hid: "\<And>x. x \<in> set M \<Longrightarrow> isMintFor cf r (fst x) \<Longrightarrow> \<not> shown w (fst x)"
  shows "minted_ok cf g (M @ taken w M [t])"
proof -
  have "once cf x (t, filter (\<lambda>t0. \<not> shown w t0) (map fst M))" if x: "x \<in> set M" for x
    unfolding once_def
  proof (intro allI impI)
    fix q assume q: "good_ref q" "isMintFor cf q (fst x)" "isMintFor cf q (fst (t, filter (\<lambda>t0. \<not> shown w t0) (map fst M)))"
    then have "q = r" using mints_only [OF assms(3)] assms(2) by (auto simp: bound_def)
    then show "fst x \<in> set (snd (t, filter (\<lambda>t0. \<not> shown w t0) (map fst M)))" using hid [OF x] q(2) x by simp
  qed
  then show ?thesis using assms(1-3) by (auto simp: minted_ok_def taken_def sorted_wrt_append)
qed

text \<open>While nothing is hidden there is at most one.\<close>

lemma at_most_one:
  assumes "sorted_wrt (once cf) M"
  shows "(\<forall>x\<in>set M. snd x = []) \<longrightarrow> (\<forall>r. good_ref r \<longrightarrow> length (filter (\<lambda>x. isMintFor cf r (fst x)) M) \<le> 1)"
  using assms by (induction M) (fastforce simp: once_def filter_empty_conv)+

text \<open>States in which every reference keeps its address.\<close>

definition keeps_bound :: "Gateway \<Rightarrow> Gateway \<Rightarrow> bool" where
  "keeps_bound g g' \<longleftrightarrow> (\<forall>r a. bound g r a \<longrightarrow> bound g' r a)"

lemma minted_ok_mono: "minted_ok cf g M \<Longrightarrow> keeps_bound g g' \<Longrightarrow> minted_ok cf g' M"
  unfolding minted_ok_def keeps_bound_def by blast

subsection \<open>Steps keep the stores in order\<close>

definition started :: "Gateway \<Rightarrow> string \<Rightarrow> bool" where
  "started g i \<longleftrightarrow> (\<exists>x. fmlookup (wds g) i = Some x \<and> wdStatus x \<noteq> AwaitingBurn \<and> wdStatus x \<noteq> Expired)"

definition in_order :: "Gateway \<Rightarrow> bool" where
  "in_order g \<longleftrightarrow> saved g \<and> named g"

definition progress :: "Gateway \<Rightarrow> Gateway \<Rightarrow> bool" where
  "progress g g' \<longleftrightarrow> in_order g' \<and> keeps_bound g g' \<and> (\<forall>i. started g i \<longrightarrow> started g' i)"

lemma progress_refl [simp]: "in_order g \<Longrightarrow> progress g g"
  by (simp add: progress_def keeps_bound_def)

lemma progress_trans: "progress g g' \<Longrightarrow> progress g' g'' \<Longrightarrow> progress g g''"
  by (auto simp: progress_def keeps_bound_def)

lemma progress_order: "progress g g' \<Longrightarrow> in_order g'"
  by (simp add: progress_def)

lemma progress_setDeposit:
  assumes "in_order g" and "wFault w = None" and "\<And>d. dpAddress (fn d) = dpAddress d"
  shows "progress g (setDeposit w ref fn g)"
proof -
  have "named (setDeposit w ref fn g)"
    using assms(1) by (auto simp: named_def in_order_def deps_setDeposit split: option.splits if_splits)
  moreover have "keeps_bound g (setDeposit w ref fn g)"
    using assms(3) by (auto simp: keeps_bound_def bound_def deps_setDeposit split: option.splits)
  ultimately show ?thesis using assms saved_setDeposit by (simp add: progress_def in_order_def started_def)
qed

lemma progress_setWithdrawal:
  assumes "in_order g" and "wFault w = None" and "\<And>x. wdAddress (fn x) = wdAddress x" and "\<And>x. wdID (fn x) = wdID x"
    and "\<And>x. fmlookup (wds g) wid = Some x \<Longrightarrow> wdStatus x \<noteq> AwaitingBurn \<Longrightarrow> wdStatus x \<noteq> Expired \<Longrightarrow>
      wdStatus (fn x) \<noteq> AwaitingBurn \<and> wdStatus (fn x) \<noteq> Expired"
  shows "progress g (setWithdrawal w wid fn g)"
proof -
  let ?g = "setWithdrawal w wid fn g"
  have look: "fmlookup (wds ?g) i = (if i = wid then map_option (\<lambda>x. (fn x)\<lparr>wdUpdatedAt := wNow w\<rparr>) (fmlookup (wds g) wid)
      else fmlookup (wds g) i)" for i
    by (simp add: wds_setWithdrawal split: option.split)
  have "named ?g" using assms(1,4) by (auto simp: named_def in_order_def look)
  moreover have "keeps_bound g ?g" using assms(3) by (auto simp: keeps_bound_def bound_def look)
  moreover have "started g i \<Longrightarrow> started ?g i" for i using assms(5) by (auto simp: started_def look)
  ultimately show ?thesis using assms(1,2) saved_setWithdrawal by (simp add: progress_def in_order_def)
qed

lemma progress_restart: "in_order g \<Longrightarrow> progress g (restart g)"
  using restart_saved [of g]
  by (simp add: progress_def in_order_def named_def keeps_bound_def bound_def started_def)

text \<open>What a handler does outside: at most one mint, for a bound reference whose earlier mints are all hidden.\<close>

definition mints_safely :: "Config \<Rightarrow> Gateway \<Rightarrow> World \<Rightarrow> (Tx \<times> Tx list) list \<Rightarrow> Effect list \<Rightarrow> bool" where
  "mints_safely cf g w M eff \<longleftrightarrow> sentTxs eff = [] \<or>
     (\<exists>t r a n. sentTxs eff = [t] \<and> bound g r a \<and> mints cf r a n t \<and> (\<forall>x\<in>set M. isMintFor cf r (fst x) \<longrightarrow> \<not> shown w (fst x)))"

lemma mints_safely_ok:
  assumes "minted_ok cf g M" and "mints_safely cf g w M eff" and "T = [] \<or> T = sentTxs eff"
  shows "minted_ok cf g (M @ taken w M T)"
  using assms minted_ok_add unfolding mints_safely_def by (metis append_Nil2 taken_Nil)

lemma mints_safely_nil [simp]: "mints_safely cf g w M []"
  by (simp add: mints_safely_def)

lemma send_safely:
  assumes "signs sign" and "minted_ok cf g M" and "bound g r a" and "findMint cf w a r = None"
    and "sendMint sign cf w a n (m @ ''ref:'' @ r) = (res, eff)"
  shows "mints_safely cf g w M eff \<and> payoutIds eff = []"
proof -
  consider "eff = []" | t where "eff = [SentTx t]" "mints cf r a n t"
    using sendMint_cases [OF assms(1), of cf w a n m r] assms(5) by auto
  then show ?thesis
  proof cases
    case 2
    then show ?thesis using none_minted [OF assms(2-4)] assms(3) unfolding mints_safely_def by (metis list.distinct(1) payoutIds.simps(1,2) sentTxs.simps(1,2))
  qed simp
qed

lemma bound_deposit: "in_order g \<Longrightarrow> fmlookup (deps g) ref = Some d \<Longrightarrow> bound g ref (dpAddress d)"
proof -
  assume g: "in_order g" and d: "fmlookup (deps g) ref = Some d"
  then obtain h where h: "length h = 20" "ref = ''dep_'' @ h \<or> ref = ''inv_'' @ h" by (auto simp: in_order_def named_def)
  then have "ref \<noteq> refundRef x" for x by (auto simp: refundRef_def)
  then show ?thesis using h d by (auto simp: bound_def good_ref_def)
qed

lemma bound_withdrawal: "in_order g \<Longrightarrow> fmlookup (wds g) wid = Some x \<Longrightarrow> bound g (refundRef wid) (wdAddress x)"
  by (auto simp: in_order_def named_def bound_def good_ref_def refundRef_def)

lemma depositMemo_ref: "\<exists>m. depositMemo d ref = m @ ''ref:'' @ ref"
  by (intro exI [of _ "(if dpKind d = ''invoice'' then ''inv:'' @ dpInvoice d else ''paystack:'' @ ref) @ '' ''"]) (simp add: depositMemo_def)

lemma mintDeposit_ok:
  assumes s: "signs sign" and g: "in_order g" and M: "minted_ok cf g M" and w: "wFault w = None"
    and d: "fmlookup (deps g) ref = Some d" and r: "mintDeposit sign cf w ref d tx g = (g', eff)"
  shows "progress g g' \<and> mints_safely cf g w M eff \<and> payoutIds eff = []"
proof -
  have f: "progress g (setDeposit w ref (failDeposit msg) g)" "progress g (setDeposit w ref (markMinted w tid) g)" for msg tid
    by (rule progress_setDeposit [OF g w], simp add: failDeposit_def markMinted_def)+
  obtain m where m: "depositMemo d ref = m @ ''ref:'' @ ref" using depositMemo_ref by blast
  obtain res e where p: "sendMint sign cf w (dpAddress d) (dpNet d) (depositMemo d ref) = (res, e)" by fastforce
  note safe = send_safely [OF s M bound_deposit [OF g d] _ p [unfolded m]]
  show ?thesis
    using r p f g safe by (auto simp: mintDeposit_def Let_def split: if_splits option.splits sum.splits)
qed

lemma settleDeposit_ok:
  assumes "signs sign" and g: "in_order g" and "minted_ok cf g M" and w: "wFault w = None"
    and r: "settleDeposit sign cf w ref g = (g', eff)"
  shows "progress g g' \<and> mints_safely cf g w M eff \<and> payoutIds eff = []"
proof -
  have f: "progress g (setDeposit w ref (failDeposit msg) g)" for msg
    by (rule progress_setDeposit [OF g w], simp add: failDeposit_def)
  have m: "mintDeposit sign cf w ref d tx g = (g', eff) \<Longrightarrow> fmlookup (deps g) ref = Some d \<Longrightarrow> ?thesis" for d tx
    using mintDeposit_ok [OF assms(1-4)] by blast
  show ?thesis
    using r f g m by (auto simp: settleDeposit_def depositAt_def split: option.splits if_splits sum.splits prod.splits PayStatus.splits)
qed

lemma refund_ok:
  assumes s: "signs sign" and g: "in_order g" and M: "minted_ok cf g M" and w: "wFault w = None"
    and r: "refund sign cf w wid reason g = Inr (g', eff)"
  shows "progress g g' \<and> mints_safely cf g w M eff \<and> payoutIds eff = []"
proof -
  obtain x where x: "fmlookup (wds g) wid = Some x" using r by (auto simp: refund_def split: option.splits)
  have i: "wdID x = wid" using g x by (auto simp: in_order_def named_def)
  have f: "progress g (setWithdrawal w wid (markRefunded tid reason) g)" "progress g (setWithdrawal w wid (\<lambda>x. x\<lparr>wdError := e\<rparr>) g)" for tid e
    by (rule progress_setWithdrawal [OF g w]; simp add: markRefunded_def)+
  obtain res e where p: "sendMint sign cf w (wdAddress x) (wdAmount x) (''withdrawal refund ref:'' @ refundRef wid) = (res, e)" by fastforce
  then have p': "sendMint sign cf w (wdAddress x) (wdAmount x) (''withdrawal refund '' @ ''ref:'' @ refundRef wid) = (res, e)" by simp
  note safe = send_safely [OF s M bound_withdrawal [OF g x] _ p']
  show ?thesis using r p f g safe by (auto simp: refund_def x i split: if_splits option.splits sum.splits)
qed

lemma settleFailedPayout_ok:
  assumes "signs sign" and "in_order g" and "minted_ok cf g M" and "wFault w = None"
    and "settleFailedPayout sign cf w p wid reason g = Inr (g', eff)"
  shows "progress g g' \<and> mints_safely cf g w M eff \<and> payoutIds eff = []"
  using assms(5) refund_ok [OF assms(1-4)] assms(2) by (auto simp: settleFailedPayout_def split: sum.splits if_splits)

lemma pollOne_ok:
  assumes "signs sign" and g: "in_order g" and "minted_ok cf g M" and w: "wFault w = None"
    and r: "pollOne sign cf w wd g = Inr (g', eff)"
  shows "progress g g' \<and> mints_safely cf g w M eff \<and> payoutIds eff = []"
proof -
  have f: "progress g (setWithdrawal w (wdID wd) (\<lambda>x. x\<lparr>wdStatus := Paid\<rparr>) g)"
    by (rule progress_setWithdrawal [OF g w]) simp_all
  show ?thesis
    using r f g refund_ok [OF assms(1-4)]
    by (auto simp: pollOne_def split: sum.splits prod.splits PayStatus.splits)
qed

lemma handleEvent_ok:
  assumes "signs sign" and g: "in_order g" and "minted_ok cf g M" and w: "wFault w = None"
    and r: "handleEvent sign cf w p ev g = Inr (g', eff)"
  shows "progress g g' \<and> mints_safely cf g w M eff \<and> payoutIds eff = []"
proof -
  have f: "progress g (setWithdrawal w (weRef ev) (\<lambda>x. if wdStatus x = Processing then x\<lparr>wdStatus := Paid\<rparr> else x) g)"
    by (rule progress_setWithdrawal [OF g w]) simp_all
  show ?thesis
    using r f g settleDeposit_ok [OF assms(1-4)] settleFailedPayout_ok [OF assms(1-4)]
    by (auto simp: handleEvent_def split: if_splits)
qed

lemma startCheckout_ok:
  assumes "in_order g" and "wFault w = None" and "dpReference d = ''dep_'' @ h \<or> dpReference d = ''inv_'' @ h" and "length h = 20"
    and "fmlookup (deps g) (dpReference d) = None"
  shows "progress g (fst (startCheckout cf w d email cb g))"
proof -
  let ?st = "\<lambda>d. fst (Update None (\<lambda>m. (fmupd (dpReference d) d m, None)) (gwDeposits g))"
  have "progress g (g\<lparr>gwDeposits := ?st (d\<lparr>dpChargedKb := k\<rparr>)\<rparr>)" for k
    using assms by (auto simp: progress_def in_order_def saved_def named_def keeps_bound_def bound_def started_def Update_None)
  then show ?thesis using assms(1,2) by (simp add: startCheckout_def Let_def split_beta split: sum.split option.split)
qed

lemma createDeposit_ok:
  assumes "in_order g" and "wFault w = None" and "length rnd = 20" and "fmlookup (deps g) (''dep_'' @ rnd) = None"
  shows "progress g (fst (createDeposit cf w rnd caller amount email prov g))"
  using assms startCheckout_ok [OF assms(1,2), of "newDeposit (''dep_'' @ rnd) k n c i a t" rnd for k n c i a t]
  by (auto simp: createDeposit_def newDeposit_def Let_def split: sum.split)

lemma payInvoiceByCard_ok:
  assumes "in_order g" and "wFault w = None" and "length rnd = 20" and "fmlookup (deps g) (''inv_'' @ rnd) = None"
  shows "progress g (fst (payInvoiceByCard cf w rnd email prov backend g))"
  using assms startCheckout_ok [OF assms(1,2), of "newDeposit (''inv_'' @ rnd) k n c i a t" rnd for k n c i a t]
  by (auto simp: payInvoiceByCard_def newDeposit_def Let_def split: sum.split option.split)

lemma banks_frame [simp]: "gwDeposits (fst (banks cf w n g)) = gwDeposits g" "gwWithdrawals (fst (banks cf w n g)) = gwWithdrawals g"
  by (auto simp: banks_def split: sum.split option.split)

lemma createWithdrawal_ok:
  assumes "in_order g" and "wFault w = None" and "length rnd = 20" and "fmlookup (wds g) rnd = None"
  shows "progress g (fst (createWithdrawal cf w rnd caller amount code acct prov g))"
proof -
  have "progress g (g'\<lparr>gwWithdrawals := fst (Update None (\<lambda>m. (fmupd rnd x m, None)) (gwWithdrawals g))\<rparr>)"
    if "gwDeposits g' = gwDeposits g" "wdID x = rnd" for g' x
    using assms that by (auto simp: progress_def in_order_def saved_def named_def keeps_bound_def bound_def started_def Update_None)
  then show ?thesis using assms(1,2)
    by (auto simp: createWithdrawal_def Let_def split_beta split: sum.split option.split)
qed

text \<open>The state of a withdrawal's turn once its burn was found, before the payout is ordered.\<close>

definition processing :: "Config \<Rightarrow> World \<Rightarrow> HistoryEntry list \<Rightarrow> Withdrawal \<Rightarrow> Gateway \<Rightarrow> Gateway" where
  "processing cf w h wd g = setWithdrawal w (wdID wd)
     (\<lambda>x. x\<lparr>wdStatus := Processing, wdBurnTx := Some (heID (last (filter (\<lambda>e. isBurnFor cf wd (heTx e)) h)))\<rparr>) g"

lemma processing_ok:
  assumes "in_order g" and "wFault w = None" and "fmlookup (wds g) (wdID wd) = Some wd"
  shows "progress g (processing cf w h wd g)" "started (processing cf w h wd g) (wdID wd)"
proof -
  show "progress g (processing cf w h wd g)"
    unfolding processing_def by (rule progress_setWithdrawal [OF assms(1,2)]) simp_all
  show "started (processing cf w h wd g) (wdID wd)"
    using assms(3) by (simp add: started_def processing_def wds_setWithdrawal)
qed

text \<open>A turn pays nothing, or orders one payout of the amount quoted, when the history shows the burn.\<close>

definition pays :: "Config \<Rightarrow> HistoryEntry list \<Rightarrow> Withdrawal \<Rightarrow> Effect list \<Rightarrow> bool" where
  "pays cf h wd eff \<longleftrightarrow> payoutIds eff = [] \<or>
     (payoutIds eff = [wdID wd] \<and> (\<exists>e\<in>set h. isBurnFor cf wd (heTx e)) \<and>
      (\<exists>n. PaidOut n (wdPayoutKobo wd) (wdAccountName wd) (wdAccountNumber wd) (wdBankCode wd) (wdID wd) \<in> set eff))"

lemma payOne_ok:
  assumes s: "signs sign" and g: "in_order g" and M: "minted_ok cf g M"
    and w: "wFault w = None" "wFault w' = None" and wd: "fmlookup (wds g) (wdID wd) = Some wd"
    and r: "payOne sign cf w w' h wd g = Inr (g', eff)"
  shows "progress g g' \<and> (sentTxs eff = [] \<or> mints_safely cf (processing cf w h wd g) w' M eff) \<and> pays cf h wd eff \<and>
    (payoutIds eff \<noteq> [] \<longrightarrow> started g' (wdID wd))"
proof (cases "filter (\<lambda>e. isBurnFor cf wd (heTx e)) h = []")
  case True
  have "progress g (setWithdrawal w (wdID wd) (\<lambda>x. x\<lparr>wdStatus := Expired\<rparr>) g)" if "wdStatus wd = AwaitingBurn"
    by (rule progress_setWithdrawal [OF g w(1)]) (use wd that in auto)
  then show ?thesis using r g True by (auto simp: payOne_def Let_def pays_def)
next
  case False
  then have burn: "\<exists>e\<in>set h. isBurnFor cf wd (heTx e)" by (auto simp: filter_empty_conv)
  let ?g1 = "processing cf w h wd g"
  let ?reason = "''payment provider is not available''"
  note p1 = processing_ok [OF g w(1) wd, of cf h]
  have g1: "in_order ?g1" and M1: "minted_ok cf ?g1 M"
    using p1(1) M by (auto simp: progress_def intro: minted_ok_mono)
  have st: "progress ?g1 g2 \<Longrightarrow> progress g g2 \<and> started g2 (wdID wd)" for g2
    using p1 progress_trans [of g ?g1 g2] by (simp add: progress_def)
  note ref = refund_ok [OF s g1 M1 w(2)] and fail = settleFailedPayout_ok [OF s g1 M1 w(2)]
  have paid: "progress ?g1 (setWithdrawal w (wdID wd) (\<lambda>x. x\<lparr>wdStatus := Paid\<rparr>) ?g1)"
    by (rule progress_setWithdrawal [OF g1 w(1)]) simp_all
  show ?thesis
  proof (cases "providerFor cf w (orDefault (wdProvider wd) ''paystack'')")
    case (Inl e)
    then have "refund sign cf w' (wdID wd) ?reason ?g1 = Inr (g', eff)"
      using r False by (simp add: payOne_def processing_def Let_def)
    from ref [OF this] st show ?thesis by (simp add: pays_def)
  next
    case (Inr q)
    obtain p n where q: "q = (p, n)" by fastforce
    let ?po = "pvPayout p (wdPayoutKobo wd) (wdAccountName wd) (wdAccountNumber wd) (wdBankCode wd) (wdID wd) ''ORPay withdrawal''"
    let ?paid = "PaidOut n (wdPayoutKobo wd) (wdAccountName wd) (wdAccountNumber wd) (wdBankCode wd) (wdID wd)"
    have cases: "g' = setWithdrawal w (wdID wd) (\<lambda>x. x\<lparr>wdStatus := Paid\<rparr>) ?g1 \<and> eff = [?paid] \<or> g' = ?g1 \<and> eff = [?paid] \<or>
      (\<exists>p' e. settleFailedPayout sign cf w' p' (wdID wd) ''payout failed'' ?g1 = Inr (g', e) \<and> eff = ?paid # e)"
      using r False Inr q
      by (cases ?po)
        (auto simp: payOne_def processing_def Let_def split: PayStatus.splits sum.splits)
    then show ?thesis
    proof (elim disjE exE conjE)
      fix p' e assume e: "settleFailedPayout sign cf w' p' (wdID wd) ''payout failed'' ?g1 = Inr (g', e)" "eff = ?paid # e"
      from fail [OF e(1)] have f: "progress ?g1 g'" "mints_safely cf ?g1 w' M e" "payoutIds e = []" by blast+
      from f(2) have "mints_safely cf ?g1 w' M eff" by (simp add: e(2) mints_safely_def)
      moreover have "pays cf h wd eff" using burn f(3) e(2) unfolding pays_def by auto
      ultimately show ?thesis using st [OF f(1)] by blast
    qed (use burn st [OF paid] st [OF progress_refl [OF g1]] in \<open>auto simp: pays_def\<close>)
  qed
qed

subsection \<open>Runs\<close>

text \<open>
  A run of the gateway: its state, the mints the node took, the payouts it ordered. The node may take
  what it is sent or not, whatever it replies, and the process may crash after any handler has acted
  outside and before it recorded it; then it restarts from its files.

  The node's histories are whatever they are: unreadable, late, cut off at 500 entries. Each mint
  taken carries the earlier ones they hid when it was looked for. Files are written without error,
  and random identifiers are new.
\<close>

inductive gw_step :: "(Tx \<Rightarrow> Tx) \<Rightarrow> Config \<Rightarrow> Gateway \<times> (Tx \<times> Tx list) list \<times> string list \<Rightarrow> Gateway \<times> (Tx \<times> Tx list) list \<times> string list \<Rightarrow> bool"
  for sign cf where
  deposit: "wFault w = None \<Longrightarrow> length rnd = 20 \<Longrightarrow> fmlookup (deps g) (''dep_'' @ rnd) = None \<Longrightarrow>
    gw_step sign cf (g, M, P) (fst (createDeposit cf w rnd caller amount email prov g), M, P)"
| card: "wFault w = None \<Longrightarrow> length rnd = 20 \<Longrightarrow> fmlookup (deps g) (''inv_'' @ rnd) = None \<Longrightarrow>
    gw_step sign cf (g, M, P) (fst (payInvoiceByCard cf w rnd email prov backend g), M, P)"
| withdrawal: "wFault w = None \<Longrightarrow> length rnd = 20 \<Longrightarrow> fmlookup (wds g) rnd = None \<Longrightarrow>
    gw_step sign cf (g, M, P) (fst (createWithdrawal cf w rnd caller amount code acct prov g), M, P)"
| settle: "wFault w = None \<Longrightarrow> settleDeposit sign cf w ref g = (g', eff) \<Longrightarrow>
    T = [] \<or> T = sentTxs eff \<Longrightarrow> z = g' \<or> z = restart g \<Longrightarrow> gw_step sign cf (g, M, P) (z, M @ taken w M T, P)"
| hook: "wFault w = None \<Longrightarrow> handleEvent sign cf w p ev g = Inr (g', eff) \<Longrightarrow>
    T = [] \<or> T = sentTxs eff \<Longrightarrow> z = g' \<or> z = restart g \<Longrightarrow> gw_step sign cf (g, M, P) (z, M @ taken w M T, P)"
| poll: "wFault w = None \<Longrightarrow> pollOne sign cf w wd g = Inr (g', eff) \<Longrightarrow>
    T = [] \<or> T = sentTxs eff \<Longrightarrow> z = g' \<or> z = restart g \<Longrightarrow> gw_step sign cf (g, M, P) (z, M @ taken w M T, P)"
| pay: "wFault w = None \<Longrightarrow> wFault w' = None \<Longrightarrow> fmlookup (wds g) (wdID wd) = Some wd \<Longrightarrow>
    isTodo now wd \<Longrightarrow> wHistory w (wdAddress wd) = Inr h \<Longrightarrow> payOne sign cf w w' h wd g = Inr (g', eff) \<Longrightarrow>
    T = [] \<or> T = sentTxs eff \<Longrightarrow>
    z = g' \<or> eff \<noteq> [] \<and> z = restart (processing cf w h wd g) \<Longrightarrow>
    gw_step sign cf (g, M, P) (z, M @ taken w' M T, P @ payoutIds eff)"
| restart: "gw_step sign cf (g, M, P) (restart g, M, P)"

definition gw_ok :: "Config \<Rightarrow> Gateway \<times> (Tx \<times> Tx list) list \<times> string list \<Rightarrow> bool" where
  "gw_ok cf s \<longleftrightarrow> (case s of (g, M, P) \<Rightarrow>
     in_order g \<and> minted_ok cf g M \<and> distinct P \<and> (\<forall>i\<in>set P. started g i))"

lemma gw_ok_progress:
  assumes "gw_ok cf (g, M, P)" and "progress g z" and "minted_ok cf g (M @ N)"
  shows "gw_ok cf (z, M @ N, P)"
  using assms minted_ok_mono by (auto simp: gw_ok_def progress_def)

lemma handler_ok:
  assumes ok: "gw_ok cf (g, M, P)" and p: "progress g g' \<and> mints_safely cf g w M eff \<and> payoutIds eff = []"
    and T: "T = [] \<or> T = sentTxs eff" and z: "z = g' \<or> z = restart g"
  shows "gw_ok cf (z, M @ taken w M T, P)"
proof -
  have g: "in_order g" "minted_ok cf g M" using ok by (simp_all add: gw_ok_def)
  have "progress g z" using z p progress_restart [OF g(1)] by blast
  then show ?thesis using gw_ok_progress [OF ok] mints_safely_ok [OF g(2) _ T] p by blast
qed

lemma gw_step_ok:
  assumes s: "signs sign" and step: "gw_step sign cf x y" and ok: "gw_ok cf x"
  shows "gw_ok cf y"
  using step ok
proof (cases rule: gw_step.cases)
  case (deposit w rnd g M P caller amount email prov)
  from ok deposit(1) have o: "gw_ok cf (g, M, P)" by simp
  then have g: "in_order g" "minted_ok cf g M" by (simp_all add: gw_ok_def)
  from gw_ok_progress [OF o createDeposit_ok [OF g(1) deposit(3,4,5)], of "[]"] g(2) deposit(2) show ?thesis by simp
next
  case (card w rnd g M P email prov backend)
  from ok card(1) have o: "gw_ok cf (g, M, P)" by simp
  then have g: "in_order g" "minted_ok cf g M" by (simp_all add: gw_ok_def)
  from gw_ok_progress [OF o payInvoiceByCard_ok [OF g(1) card(3,4,5)], of "[]"] g(2) card(2) show ?thesis by simp
next
  case (withdrawal w rnd g M P caller amount code acct prov)
  from ok withdrawal(1) have o: "gw_ok cf (g, M, P)" by simp
  then have g: "in_order g" "minted_ok cf g M" by (simp_all add: gw_ok_def)
  from gw_ok_progress [OF o createWithdrawal_ok [OF g(1) withdrawal(3,4,5)], of "[]"] g(2) withdrawal(2) show ?thesis by simp
next
  case (settle w ref g g' eff T z M P)
  from ok settle(1) have o: "gw_ok cf (g, M, P)" by simp
  then have "in_order g" "minted_ok cf g M" by (simp_all add: gw_ok_def)
  from handler_ok [OF o settleDeposit_ok [OF s this settle(3,4)] settle(5,6)] settle(2) show ?thesis by simp
next
  case (hook w p ev g g' eff T z M P)
  from ok hook(1) have o: "gw_ok cf (g, M, P)" by simp
  then have "in_order g" "minted_ok cf g M" by (simp_all add: gw_ok_def)
  from handler_ok [OF o handleEvent_ok [OF s this hook(3,4)] hook(5,6)] hook(2) show ?thesis by simp
next
  case (poll w wd g g' eff T z M P)
  from ok poll(1) have o: "gw_ok cf (g, M, P)" by simp
  then have "in_order g" "minted_ok cf g M" by (simp_all add: gw_ok_def)
  from handler_ok [OF o pollOne_ok [OF s this poll(3,4)] poll(5,6)] poll(2) show ?thesis by simp
next
  case (pay w w' g wd now h g' eff T z M P)
  from ok pay(1) have o: "in_order g" "minted_ok cf g M" "distinct P" "\<forall>i\<in>set P. started g i" by (simp_all add: gw_ok_def)
  let ?g1 = "processing cf w h wd g"
  note r = payOne_ok [OF s o(1,2) pay(3,4,5,8)]
  note p1 = processing_ok [OF o(1) pay(3,5), of cf h]
  have g1: "in_order ?g1" and "progress ?g1 (restart ?g1)" using p1(1) progress_restart by (simp_all add: progress_def)
  then have z: "progress g z \<and> (payoutIds eff \<noteq> [] \<longrightarrow> started z (wdID wd))"
    using pay(10) r p1 progress_trans [of g ?g1] by (auto simp: progress_def)
  have "minted_ok cf z (M @ taken w' M T)"
  proof (cases "T = []")
    case True
    then show ?thesis using o(2) z by (auto simp: progress_def intro: minted_ok_mono)
  next
    case False
    then have T: "T = sentTxs eff" "mints_safely cf ?g1 w' M eff" using pay(9) r by auto
    have m1: "minted_ok cf ?g1 M" using o(2) p1(1) by (auto simp: progress_def intro: minted_ok_mono)
    obtain t r' a n where t: "sentTxs eff = [t]" "bound ?g1 r' a" "mints cf r' a n t" "\<And>x. x \<in> set M \<Longrightarrow> isMintFor cf r' (fst x) \<Longrightarrow> \<not> shown w' (fst x)"
      using T False by (force simp: mints_safely_def)
    have same: "bound g r' a" using t(2) pay(5)
      by (auto simp: bound_def processing_def wds_setWithdrawal split: option.splits if_splits)
    from minted_ok_add [OF o(2) same t(3,4)] show ?thesis
      using z minted_ok_mono by (auto simp: T(1) t(1) progress_def)
  qed
  moreover have "\<not> started g (wdID wd)" using pay(5,6) by (auto simp: started_def isTodo_def)
  then have "distinct (P @ payoutIds eff) \<and> (\<forall>i\<in>set (P @ payoutIds eff). started z i)"
    using o(3,4) r z by (auto simp: pays_def progress_def)
  ultimately show ?thesis using z pay(2) by (simp add: gw_ok_def progress_def)
next
  case (restart g M P)
  from ok restart(1) have o: "gw_ok cf (g, M, P)" by simp
  then have g: "in_order g" "minted_ok cf g M" by (simp_all add: gw_ok_def)
  from gw_ok_progress [OF o progress_restart [OF g(1)], of "[]"] g(2) restart(2) show ?thesis by simp
qed

definition emptyGateway :: Gateway where
  "emptyGateway = \<lparr>gwDeposits = \<lparr>soData = fmempty, soDisk = Some fmempty\<rparr>, gwWithdrawals = \<lparr>soData = fmempty, soDisk = Some fmempty\<rparr>,
     gwBanks = fmempty\<rparr>"

lemma gw_ok_empty: "gw_ok cf (emptyGateway, [], [])"
  by (simp add: gw_ok_def emptyGateway_def in_order_def saved_def named_def minted_ok_def)

lemma gw_run_ok: "signs sign \<Longrightarrow> (gw_step sign cf)\<^sup>*\<^sup>* x y \<Longrightarrow> gw_ok cf x \<Longrightarrow> gw_ok cf y"
  by (erule rtranclp_induct) (auto intro: gw_step_ok)

lemma toMicro_eq: "toMicro x = word_of_int (x * 10000)"
  by (simp add: toMicro_def microPerKobo_def)

lemma uint_toMicro: "0 \<le> x \<Longrightarrow> x * 10000 < 2 ^ 64 \<Longrightarrow> uint (toMicro x) = x * 10000"
  unfolding toMicro_eq uint_word_of_int by simp

lemma uint_toMicro_wrap: "uint (toMicro (wrap64 x)) = x * 10000 mod 2 ^ 64"
proof -
  have "(wrap64 x * 10000) mod 2 ^ 64 = ((wrap64 x mod 2 ^ 64) * 10000) mod 2 ^ 64" by (simp only: mod_mult_left_eq)
  also have "wrap64 x mod 2 ^ 64 = x mod 2 ^ 64" by (simp add: wrap64_def mod_diff_left_eq)
  also have "((x mod 2 ^ 64) * 10000) mod 2 ^ 64 = x * 10000 mod 2 ^ 64" by (simp only: mod_mult_left_eq)
  finally show ?thesis unfolding toMicro_eq uint_word_of_int by simp
qed

text \<open>A negative amount of kobo becomes a huge one.\<close>

lemma uint_toMicro_neg: "x < 0 \<Longrightarrow> - (2 ^ 64) \<le> x * 10000 \<Longrightarrow> uint (toMicro x) = 2 ^ 64 + x * 10000"
proof -
  assume x: "x < 0" "- (2 ^ 64) \<le> x * 10000"
  have "x * 10000 mod 2 ^ 64 = (x * 10000 + 2 ^ 64) mod 2 ^ 64" by simp
  also have "\<dots> = x * 10000 + 2 ^ 64" using x by (intro mod_pos_pos_trivial) simp_all
  finally show ?thesis unfolding toMicro_eq uint_word_of_int by simp
qed

subsection \<open>A small gateway to run\<close>

definition toy_sign :: "Tx \<Rightarrow> Tx" where "toy_sign t = t\<lparr>txSig := ''s''\<rparr>"

definition toy_config :: Config where
  "toy_config = \<lparr>cfPublicURL = ''u'', cfAsset = ''NGN'', cfDefaultProvider = ''paystack'', cfIssuer = ''issuer'', cfWithdrawFee = 50 * Unit\<rparr>"

definition toy_provider :: Provider where
  "toy_provider = \<lparr>pvName = ''paystack'', pvTestMode = True, pvStartCollection = (\<lambda>e k r c m. Inr ''url''),
     pvVerifyCollection = (\<lambda>r. Inr \<lparr>clStatus = StatusSuccess, clRef = r, clGrossKobo = 10000, clFeeKobo = 0, clCurrency = ''NGN''\<rparr>),
     pvGrossUp = (\<lambda>k. k), pvBanks = Inr (Some []), pvResolveAccount = (\<lambda>a b. Inr ''name''),
     pvPayout = (\<lambda>k n a b r s. Inl (Err ''timeout'')), pvPayoutStatus = (\<lambda>r. Inl (Err ''timeout'')), pvBalanceKobo = Inr 0,
     pvParseWebhook = (\<lambda>h b. Inl (Err ''invalid signature''))\<rparr>"

definition toy_status :: Status where
  "toy_status = \<lparr>ssChainID = ''demo'', ssHeight = 1, ssTipHash = [], ssTipTime = 0, ssStateRoot = [], ssSupply = 0, ssBurned = 0,
     ssMinFee = 0, ssAssets = [\<lparr>asDef = \<lparr>adSymbol = ''NGN'', adName = ''Naira'', adIssuer = ''issuer'', adMinFee = 0, adDecimals = 2\<rparr>,
       asSupply = 5 * Unit\<rparr>], ssAccounts = 1, ssMempoolSize = 0, ssProposer = ''p''\<rparr>"

definition toy_world :: "HistoryEntry list \<Rightarrow> World" where
  "toy_world h = \<lparr>wNow = 0, wProviders = (\<lambda>n. Some toy_provider), wStatus = Inr toy_status,
     wAccount = (\<lambda>a. Inr \<lparr>arAddress = a, arBalance = 0, arBalanceOrp = ''0'', arNonce = 3, arNextNonce = 3, arAssets = fmempty\<rparr>),
     wHistory = (\<lambda>a. Inr h), wSubmit = (\<lambda>t. Inr ''id''), wFault = None\<rparr>"

lemma toy_signs: "signs toy_sign"
  unfolding signs_def toy_sign_def by blast

definition toy_rnd :: string where "toy_rnd = ''0123456789abcdef0123''"

definition toy_ref :: string where "toy_ref = ''dep_'' @ toy_rnd"

definition toy_deposited :: Gateway where
  "toy_deposited = fst (createDeposit toy_config (toy_world []) toy_rnd ''alice'' ''100'' ''a@b.c'' '''' emptyGateway)"

definition toy_entry :: "Tx \<Rightarrow> HistoryEntry" where
  "toy_entry t = \<lparr>heID = ''id'', heHeight = 1, heTime = 0, heTx = t\<rparr>"

definition toy_mint :: "Effect list" where
  "toy_mint = snd (settleDeposit toy_sign toy_config (toy_world []) toy_ref toy_deposited)"

lemma toy_parse: "ParseAmount ''100'' = Inr (100 * Unit)"
proof -
  have "replicate 6 (CHR ''0'') = ''000000''" by (simp add: eval_nat_numeral)
  then show ?thesis
    by (simp add: ParseAmount_def Let_def digits_def is_digit_def ParseUint_def dval_def Unit_def word_less_nat_alt unat_div)
qed

lemma toy_email: "emailRe ''a@b.c''"
  by (simp add: emailRe_def re_space_def Let_def)

definition toy_dep :: Deposit where
  "toy_dep = (newDeposit toy_ref ''deposit'' ''paystack'' ''alice'' '''' (100 * Unit) 0)\<lparr>dpChargedKb := 10000\<rparr>"

lemma toy_deposit: "depositAt toy_deposited toy_ref = Some toy_dep"
  by (simp add: toy_deposited_def createDeposit_def toy_parse toy_email startCheckout_def providerFor_def toy_world_def toy_provider_def
      toy_config_def toy_dep_def newDeposit_def depositAt_def Unit_def microPerKobo_def toKobo_def Let_def split_beta Update_def
      WriteAtomic_def emptyGateway_def word_less_nat_alt toy_ref_def)

lemma toy_mint_sent: "\<exists>t. toy_mint = [SentTx t]"
  by (simp add: toy_mint_def settleDeposit_def toy_deposit toy_dep_def newDeposit_def providerFor_def orDefault_def toy_world_def
      toy_provider_def toy_config_def mintDeposit_def toMicro_def wrap64_def microPerKobo_def Unit_def findMint_def sendMint_def
      SignAndSubmit_def toy_status_def Let_def)

lemma toy_wfault: "wFault (toy_world h) = None"
  by (simp add: toy_world_def)

subsection \<open>Properties\<close>

text \<open>
  C33: money moves once. Take any run of the gateway, with handlers interrupted by crashes, replies
  lost, webhooks and passes in any order, and node histories that fail, lag or are cut off. Every mint
  the node takes is for a payment or withdrawal on record and goes to its address. A second mint for
  the same reference is taken only where the node's history of the address, at the moment the gateway
  looked for the first, did not show it; so while histories show the mints taken there is at most one
  for each reference. And each withdrawal is ordered to be paid out at most once, whatever the histories
  show. What this rests on: files are written without error, and new random identifiers are not in use.
\<close>

theorem money_moves_once:
  assumes "signs sign" and "(gw_step sign cf)\<^sup>*\<^sup>* (emptyGateway, [], []) (g, M, P)"
  shows "(\<forall>x\<in>set M. \<exists>r a n. bound g r a \<and> mints cf r a n (fst x)) \<and>
    (\<forall>r i j. good_ref r \<longrightarrow> i < j \<longrightarrow> j < length M \<longrightarrow> isMintFor cf r (fst (M ! i)) \<longrightarrow> isMintFor cf r (fst (M ! j)) \<longrightarrow>
       fst (M ! i) \<in> set (snd (M ! j))) \<and>
    ((\<forall>x\<in>set M. snd x = []) \<longrightarrow> (\<forall>r. good_ref r \<longrightarrow> length (filter (\<lambda>x. isMintFor cf r (fst x)) M) \<le> 1)) \<and>
    distinct P \<and> (\<forall>i\<in>set P. started g i)"
proof -
  have ok: "gw_ok cf (g, M, P)" by (rule gw_run_ok [OF assms gw_ok_empty])
  then have M: "\<forall>x\<in>set M. \<exists>r a n. bound g r a \<and> mints cf r a n (fst x)" "sorted_wrt (once cf) M"
    by (simp_all add: gw_ok_def minted_ok_def)
  have two: "fst (M ! i) \<in> set (snd (M ! j))"
    if "good_ref r" "i < j" "j < length M" "isMintFor cf r (fst (M ! i))" "isMintFor cf r (fst (M ! j))" for r i j
    using sorted_wrt_nth_less [OF M(2) that(2,3)] that(1,4,5) by (simp add: once_def)
  show ?thesis using ok M(1) two at_most_one [OF M(2)] unfolding gw_ok_def by simp
qed

theorem money_moves_once_witness:
  "\<exists>g M P. (gw_step toy_sign toy_config)\<^sup>*\<^sup>* (emptyGateway, [], []) (g, M, P) \<and> M \<noteq> [] \<and>
     length (filter (\<lambda>x. isMintFor toy_config toy_ref (fst x)) M) \<le> 1"
proof -
  let ?ref = toy_ref and ?g1 = toy_deposited
  let ?w1 = "toy_world []" and ?w2 = "toy_world (map toy_entry (sentTxs toy_mint))"
  obtain g' e1 where s1: "settleDeposit toy_sign toy_config ?w1 ?ref ?g1 = (g', e1)" by fastforce
  then have e1: "e1 = toy_mint" by (simp add: toy_mint_def)
  obtain g2 e2 where s2: "settleDeposit toy_sign toy_config ?w2 ?ref (restart ?g1) = (g2, e2)" by fastforce
  let ?M1 = "[] @ taken ?w1 [] (sentTxs toy_mint)"
  let ?M2 = "?M1 @ taken ?w2 ?M1 (sentTxs e2)"
  have "gw_step toy_sign toy_config (emptyGateway, [], []) (?g1, [], [])"
    unfolding toy_deposited_def by (rule gw_step.deposit) (simp_all add: toy_wfault toy_rnd_def emptyGateway_def)
  moreover have "gw_step toy_sign toy_config (?g1, [], []) (restart ?g1, ?M1, [])"
    by (rule gw_step.settle [OF toy_wfault s1 [unfolded e1]]) simp_all
  moreover have "gw_step toy_sign toy_config (restart ?g1, ?M1, []) (g2, ?M2, [])"
    by (rule gw_step.settle [OF toy_wfault s2]) simp_all
  ultimately have run: "(gw_step toy_sign toy_config)\<^sup>*\<^sup>* (emptyGateway, [], []) (g2, ?M2, [])"
    by (meson converse_rtranclp_into_rtranclp rtranclp.rtrancl_refl)
  have "good_ref ?ref" unfolding good_ref_def by (intro exI [of _ toy_rnd]) (simp add: toy_rnd_def toy_ref_def)
  moreover have "\<forall>x\<in>set ?M2. snd x = []"
    by (auto simp: taken_def shown_def toy_world_def toy_entry_def filter_empty_conv image_iff)
  ultimately have "length (filter (\<lambda>x. isMintFor toy_config toy_ref (fst x)) ?M2) \<le> 1"
    using money_moves_once [OF toy_signs run] by blast
  moreover obtain t where "toy_mint = [SentTx t]" using toy_mint_sent ..
  then have "sentTxs toy_mint = [t]" by (metis sentTxs.simps(1,2))
  then have "?M2 \<noteq> []" by (simp add: taken_def)
  ultimately show ?thesis using run by blast
qed

text \<open>
  C34: no naira, no NGN. Settling a deposit sends nothing, or exactly one mint, of the deposit's own
  amount to its own address, for a deposit still pending, and only after its provider confirmed a
  successful naira collection under its very reference. What the provider kept after fees covers the
  amount in the code's arithmetic modulo \<open>2^64\<close>; so it covers it in unbounded arithmetic when that net
  is not negative and below \<open>2^64\<close> micro-units. A fee above the gross makes the net a huge number,
  which covers any deposit up to it.
\<close>

theorem mint_is_backed:
  assumes "signs sign" and "settleDeposit sign cf w ref g = (g', eff)" and "eff \<noteq> []"
  shows "\<exists>d p n tx t. depositAt g ref = Some d \<and> dpStatus d = DepPending \<and> eff = [SentTx t] \<and> mints cf ref (dpAddress d) (dpNet d) t \<and>
    providerFor cf w (orDefault (dpProvider d) ''paystack'') = Inr (p, n) \<and> pvVerifyCollection p ref = Inr tx \<and>
    clStatus tx = StatusSuccess \<and> clRef tx = ref \<and> clCurrency tx = ''NGN'' \<and>
    uint (dpNet d) \<le> (clGrossKobo tx - clFeeKobo tx) * 10000 mod 2 ^ 64 \<and>
    (0 \<le> clGrossKobo tx - clFeeKobo tx \<longrightarrow> (clGrossKobo tx - clFeeKobo tx) * 10000 < 2 ^ 64 \<longrightarrow>
       uint (dpNet d) \<le> (clGrossKobo tx - clFeeKobo tx) * 10000)"
proof -
  obtain d where d: "depositAt g ref = Some d" "dpStatus d = DepPending"
    using assms(2,3) by (auto simp: settleDeposit_def split: option.splits if_splits)
  obtain p n where p: "providerFor cf w (orDefault (dpProvider d) ''paystack'') = Inr (p, n)"
    using assms(2,3) d by (auto simp: settleDeposit_def split: sum.splits)
  obtain tx where tx: "pvVerifyCollection p ref = Inr tx"
    using assms(2,3) d p by (auto simp: settleDeposit_def split: sum.splits)
  have st: "clStatus tx = StatusSuccess" and m: "mintDeposit sign cf w ref d tx g = (g', eff)"
    using assms(2,3) d p tx by (auto simp: settleDeposit_def split: PayStatus.splits if_splits)
  let ?x = "clGrossKobo tx - clFeeKobo tx"
  have ok: "clCurrency tx = ''NGN''" "clRef tx = ref" "dpNet d \<le> toMicro (wrap64 ?x)" and f: "findMint cf w (dpAddress d) ref = None"
    using m assms(3) by (auto simp: mintDeposit_def Let_def split: if_splits option.splits)
  obtain k where k: "depositMemo d ref = k @ ''ref:'' @ ref" using depositMemo_ref by blast
  obtain res e where s: "sendMint sign cf w (dpAddress d) (dpNet d) (depositMemo d ref) = (res, e)" by fastforce
  have "e = eff" using m ok f s by (auto simp: mintDeposit_def Let_def not_less split: sum.splits if_splits)
  then obtain t where t: "eff = [SentTx t]" "mints cf ref (dpAddress d) (dpNet d) t"
    using sendMint_cases [OF assms(1), of cf w "dpAddress d" "dpNet d" k ref] s assms(3) unfolding k by auto
  have m: "uint (dpNet d) \<le> ?x * 10000 mod 2 ^ 64"
    using ok(3) uint_toMicro_wrap [of ?x] by (simp add: word_le_def)
  then have "uint (dpNet d) \<le> ?x * 10000" if "0 \<le> ?x" "?x * 10000 < 2 ^ 64"
    using that by simp
  then show ?thesis using d p tx st ok t m by blast
qed

theorem mint_is_backed_witness: "\<exists>t. toy_mint = [SentTx t] \<and> txAmount t = 100 * Unit \<and> txTo t = ''alice''"
proof -
  obtain g' where s: "settleDeposit toy_sign toy_config (toy_world []) toy_ref toy_deposited = (g', toy_mint)"
    unfolding toy_mint_def by (metis prod.collapse)
  have n: "toy_mint \<noteq> []" using toy_mint_sent by auto
  from mint_is_backed [OF toy_signs s n] obtain d t where d: "depositAt toy_deposited toy_ref = Some d"
    and t: "toy_mint = [SentTx t]" "mints toy_config toy_ref (dpAddress d) (dpNet d) t" by blast
  have "d = toy_dep" using d by (simp add: toy_deposit)
  then have "txAmount t = 100 * Unit \<and> txTo t = ''alice''" using t(2) by (simp add: mints_def toy_dep_def newDeposit_def)
  with t(1) show ?thesis by blast
qed

text \<open>What a refund sends.\<close>

lemma refund_effects:
  assumes "signs sign" and "fmlookup (wds g) wid = Some x" and "wdID x = wid" and "refund sign cf w wid reason g = Inr (g', e)"
  shows "e = map SentTx (sentTxs e) \<and> length (sentTxs e) \<le> 1 \<and>
    (\<forall>t\<in>set (sentTxs e). mints cf (refundRef wid) (wdAddress x) (wdAmount x) t)"
proof -
  obtain res e' where p: "sendMint sign cf w (wdAddress x) (wdAmount x) (''withdrawal refund '' @ ''ref:'' @ refundRef wid) = (res, e')"
    by fastforce
  have "e' = [] \<or> (\<exists>t. e' = [SentTx t] \<and> mints cf (refundRef wid) (wdAddress x) (wdAmount x) t)"
    using sendMint_cases [OF assms(1), of cf w "wdAddress x" "wdAmount x" "''withdrawal refund ''" "refundRef wid"] unfolding p by auto
  moreover have p': "sendMint sign cf w (wdAddress x) (wdAmount x) (''withdrawal refund ref:'' @ refundRef wid) = (res, e')"
    using p by simp
  have "e = [] \<or> e = e'"
    using assms(4) unfolding refund_def assms(2) option.case assms(3) p'
    by (cases res; cases "findMint cf w (wdAddress x) (refundRef wid)") (simp_all split: if_splits)
  ultimately show ?thesis by auto
qed

text \<open>What a turn does outside: at most one payout, then a refund or nothing.\<close>

lemma payOne_effects:
  assumes "payOne sign cf w w' h wd g = Inr (g', eff)" and "filter (\<lambda>e. isBurnFor cf wd (heTx e)) h \<noteq> []"
  shows "\<exists>n outs e. eff = outs @ e \<and> length outs \<le> 1 \<and> set outs \<subseteq>
      {PaidOut n (wdPayoutKobo wd) (wdAccountName wd) (wdAccountNumber wd) (wdBankCode wd) (wdID wd)} \<and>
      (e = [] \<or> (\<exists>reason g2. refund sign cf w' (wdID wd) reason (processing cf w h wd g) = Inr (g2, e)))"
proof (cases "providerFor cf w (orDefault (wdProvider wd) ''paystack'')")
  case (Inl x)
  then have "refund sign cf w' (wdID wd) ''payment provider is not available'' (processing cf w h wd g) = Inr (g', eff)"
    using assms by (simp add: payOne_def processing_def Let_def)
  then show ?thesis by (intro exI [of _ "''''"] exI [of _ "[]"] exI [of _ eff]) auto
next
  case (Inr q)
  obtain p n where q: "q = (p, n)" by fastforce
  let ?po = "pvPayout p (wdPayoutKobo wd) (wdAccountName wd) (wdAccountNumber wd) (wdBankCode wd) (wdID wd) ''ORPay withdrawal''"
  let ?paid = "PaidOut n (wdPayoutKobo wd) (wdAccountName wd) (wdAccountNumber wd) (wdBankCode wd) (wdID wd)"
  have fail: "\<exists>g2. e = [] \<or> refund sign cf w' (wdID wd) reason (processing cf w h wd g) = Inr (g2, e)"
    if "settleFailedPayout sign cf w' p (wdID wd) reason (processing cf w h wd g) = Inr (g', e)" for p reason e
    using that by (auto simp: settleFailedPayout_def split: sum.splits if_splits)
  have "eff = [?paid] \<or> (\<exists>p' e. settleFailedPayout sign cf w' p' (wdID wd) ''payout failed'' (processing cf w h wd g) = Inr (g', e) \<and> eff = ?paid # e)"
    using assms Inr q
    by (cases ?po)
      (auto simp: payOne_def processing_def Let_def split: PayStatus.splits sum.splits)
  then obtain e where "eff = [?paid] @ e" "e = [] \<or> (\<exists>reason g2. refund sign cf w' (wdID wd) reason (processing cf w h wd g) = Inr (g2, e))"
    using fail by fastforce
  then show ?thesis by (intro exI [of _ n] exI [of _ "[?paid]"] exI [of _ e]) simp
qed

text \<open>
  C35: no burn, no payout. A withdrawal's turn does nothing outside unless its address's history shows
  a burn of exactly its amount, in the asset, with its memo, sent by its owner; then it orders at
  most one payout, of the quoted naira to the quoted bank account under the withdrawal's own id, and
  sends at most one refund, of exactly the amount burned, to the withdrawal's address.
\<close>

theorem payout_needs_burn:
  assumes "signs sign" and "payOne sign cf w w' h wd g = Inr (g', eff)" and "fmlookup (wds g) (wdID wd) = Some wd" and "eff \<noteq> []"
  shows "(\<exists>e\<in>set h. txKind (heTx e) = KindBurn \<and> txFrom (heTx e) = wdAddress wd \<and> txAsset (heTx e) = cfAsset cf \<and>
      txMemo (heTx e) = wdMemo wd \<and> txAmount (heTx e) = wdAmount wd) \<and>
    (\<exists>n outs. eff = outs @ map SentTx (sentTxs eff) \<and> length outs \<le> 1 \<and> set outs \<subseteq>
       {PaidOut n (wdPayoutKobo wd) (wdAccountName wd) (wdAccountNumber wd) (wdBankCode wd) (wdID wd)}) \<and>
    length (sentTxs eff) \<le> 1 \<and> (\<forall>t\<in>set (sentTxs eff). mints cf (refundRef (wdID wd)) (wdAddress wd) (wdAmount wd) t)"
proof -
  let ?g1 = "processing cf w h wd g"
  have b: "filter (\<lambda>e. isBurnFor cf wd (heTx e)) h \<noteq> []" using assms(2,4) by (auto simp: payOne_def Let_def)
  then have burn: "\<exists>e\<in>set h. isBurnFor cf wd (heTx e)" by (auto simp: filter_empty_conv)
  obtain x where x: "fmlookup (wds ?g1) (wdID wd) = Some x" "wdID x = wdID wd" "wdAddress x = wdAddress wd" "wdAmount x = wdAmount wd"
    using assms(3) by (simp add: processing_def wds_setWithdrawal)
  obtain n outs e where e: "eff = outs @ e" "length outs \<le> 1"
    "set outs \<subseteq> {PaidOut n (wdPayoutKobo wd) (wdAccountName wd) (wdAccountNumber wd) (wdBankCode wd) (wdID wd)}"
    and r: "e = [] \<or> (\<exists>reason g2. refund sign cf w' (wdID wd) reason ?g1 = Inr (g2, e))"
    using payOne_effects [OF assms(2) b] by blast
  have m: "e = map SentTx (sentTxs e) \<and> length (sentTxs e) \<le> 1 \<and>
      (\<forall>t\<in>set (sentTxs e). mints cf (refundRef (wdID wd)) (wdAddress wd) (wdAmount wd) t)"
    using r refund_effects [OF assms(1) x(1,2)] unfolding x(3,4) by fastforce
  have "sentTxs (outs @ e) = sentTxs e" using e(2,3) by (cases outs) auto
  then have s: "sentTxs eff = sentTxs e" by (simp add: e(1))
  show ?thesis unfolding s
    using burn e m unfolding isBurnFor_def by blast
qed

definition toy_wid :: string where "toy_wid = ''fedcba9876543210fedc''"

definition toy_withdrawal :: "addr \<Rightarrow> Withdrawal" where
  "toy_withdrawal a = \<lparr>wdID = toy_wid, wdAddress = a, wdAmount = 150 * Unit, wdFee = 50 * Unit, wdPayoutKobo = 10000,
     wdBankCode = ''044'', wdBankName = ''Bank'', wdAccountNumber = ''0123456789'', wdAccountName = ''name'', wdProvider = ''paystack'',
     wdStatus = AwaitingBurn, wdBurnTx = None, wdRefundTx = None, wdError = '''', wdCreatedAt = 0, wdUpdatedAt = 0\<rparr>"

definition toy_gateway :: "addr \<Rightarrow> Gateway" where
  "toy_gateway a = emptyGateway\<lparr>gwWithdrawals := \<lparr>soData = fmupd toy_wid (toy_withdrawal a) fmempty, soDisk = Some (fmupd toy_wid (toy_withdrawal a) fmempty)\<rparr>\<rparr>"

definition toy_burn :: "addr \<Rightarrow> Tx" where
  "toy_burn a = (mintTx toy_config '''' (150 * Unit) (wdMemo (toy_withdrawal a)))\<lparr>txFrom := a, txKind := KindBurn\<rparr>"

lemma toy_lookup: "fmlookup (wds (toy_gateway a)) (wdID (toy_withdrawal a)) = Some (toy_withdrawal a)"
  by (simp add: toy_gateway_def toy_withdrawal_def)

lemma toy_isBurn: "isBurnFor toy_config (toy_withdrawal a) (toy_burn a)"
  by (simp add: isBurnFor_def toy_burn_def mintTx_def toy_withdrawal_def wdMemo_def)

text \<open>The provider's reply to the payout order is lost, and so is the one to the question about it.\<close>

definition toy_turn :: "err + Gateway \<times> Effect list" where
  "toy_turn = payOne toy_sign toy_config (toy_world []) (toy_world []) [toy_entry (toy_burn ''alice'')] (toy_withdrawal ''alice'') (toy_gateway ''alice'')"

lemma toy_turn_paid: "\<exists>g' n e. toy_turn = Inr (g', PaidOut n 10000 ''name'' ''0123456789'' ''044'' toy_wid # e)"
proof -
  let ?g1 = "processing toy_config (toy_world []) [toy_entry (toy_burn ''alice'')] (toy_withdrawal ''alice'') (toy_gateway ''alice'')"
  have "fmlookup (wds ?g1) toy_wid \<noteq> None" by (simp add: processing_def wds_setWithdrawal toy_gateway_def toy_withdrawal_def)
  then obtain g2 e where r: "refund toy_sign toy_config (toy_world []) toy_wid ''payout failed'' ?g1 = Inr (g2, e)"
    by (fastforce simp: refund_def split: if_splits option.splits sum.splits prod.splits)
  have "wProviders (toy_world []) n = Some toy_provider" for n by (simp add: toy_world_def)
  moreover have "pvPayout toy_provider k n a b r s = Inl (Err ''timeout'')" "pvPayoutStatus toy_provider r = Inl (Err ''timeout'')" for k n a b r s
    by (simp_all add: toy_provider_def)
  ultimately have "toy_turn = Inr (g2, PaidOut ''paystack'' 10000 ''name'' ''0123456789'' ''044'' toy_wid # e)"
    using r toy_isBurn [of "''alice''"] unfolding toy_turn_def payOne_def
    by (simp add: toy_entry_def processing_def providerFor_def orDefault_def settleFailedPayout_def toy_withdrawal_def Let_def)
  then show ?thesis by blast
qed

theorem payout_needs_burn_witness:
  "\<exists>g' eff. toy_turn = Inr (g', eff) \<and> (\<forall>t\<in>set (sentTxs eff). txAmount t = 150 * Unit)"
proof -
  obtain g' eff where t: "toy_turn = Inr (g', eff)" "eff \<noteq> []" using toy_turn_paid by blast
  from payout_needs_burn [OF toy_signs t(1) [unfolded toy_turn_def] toy_lookup t(2)]
  have "\<forall>t\<in>set (sentTxs eff). txAmount t = 150 * Unit" by (auto simp: mints_def toy_withdrawal_def)
  with t(1) show ?thesis by blast
qed

text \<open>
  C36: a lost reply pays twice. The provider may carry out a payout although its reply was lost. When
  the question about it gets no answer either, the gateway takes that for "no such payout": it mints
  the whole amount back and closes the withdrawal as refunded, with the payout order already sent.
\<close>

theorem lost_reply_refunds:
  assumes "signs sign" and "fmlookup (wds g) (wdID wd) = Some wd" and "isTodo now wd" and "b \<in> set h" and "isBurnFor cf wd (heTx b)"
    and "providerFor cf w (orDefault (wdProvider wd) ''paystack'') = Inr (p, n)"
    and "pvPayout p (wdPayoutKobo wd) (wdAccountName wd) (wdAccountNumber wd) (wdBankCode wd) (wdID wd) ''ORPay withdrawal'' = Inl lost"
    and "pvPayoutStatus p (wdID wd) = Inl unreachable"
    and "findMint cf w' (wdAddress wd) (refundRef (wdID wd)) = None"
    and "wStatus w' = Inr st" and "wAccount w' (cfIssuer cf) = Inr acc" and "\<And>t. wSubmit w' t = Inr tid"
  shows "\<exists>g' t x. payOne sign cf w w' h wd g = Inr (g',
      [PaidOut n (wdPayoutKobo wd) (wdAccountName wd) (wdAccountNumber wd) (wdBankCode wd) (wdID wd), SentTx t]) \<and>
    mints cf (refundRef (wdID wd)) (wdAddress wd) (wdAmount wd) t \<and>
    fmlookup (wds g') (wdID wd) = Some x \<and> wdStatus x = Refunded"
proof -
  let ?g1 = "processing cf w h wd g"
  have bs: "filter (\<lambda>e. isBurnFor cf wd (heTx e)) h \<noteq> []" using assms(4,5) by (auto simp: filter_empty_conv)
  obtain y where y: "fmlookup (wds ?g1) (wdID wd) = Some y" "wdID y = wdID wd" "wdAddress y = wdAddress wd"
    "wdAmount y = wdAmount wd" "wdStatus y = Processing"
    using assms(2) by (simp add: processing_def wds_setWithdrawal)
  obtain t where t: "sendMint sign cf w' (wdAddress wd) (wdAmount wd) (''withdrawal refund ref:'' @ refundRef (wdID wd)) = (Inr tid, [SentTx t])"
    "mints cf (refundRef (wdID wd)) (wdAddress wd) (wdAmount wd) t"
    using sendMint_cases [OF assms(1), of cf w' "wdAddress wd" "wdAmount wd" "''withdrawal refund ''" "refundRef (wdID wd)"] assms(10-12)
    by (auto simp: sendMint_def SignAndSubmit_def Let_def)
  have r: "refund sign cf w' (wdID wd) ''payout failed'' ?g1 =
      Inr (setWithdrawal w' (wdID wd) (markRefunded tid ''payout failed'') ?g1, [SentTx t])"
    unfolding refund_def y(1) option.case y(2-5) assms(9) t(1) by simp
  then have "payOne sign cf w w' h wd g = Inr (setWithdrawal w' (wdID wd) (markRefunded tid ''payout failed'') ?g1,
      [PaidOut n (wdPayoutKobo wd) (wdAccountName wd) (wdAccountNumber wd) (wdBankCode wd) (wdID wd), SentTx t])"
    using bs assms(6-8) by (simp add: payOne_def processing_def settleFailedPayout_def Let_def)
  moreover have "fmlookup (wds (setWithdrawal w' (wdID wd) (markRefunded tid ''payout failed'') ?g1)) (wdID wd) =
      Some ((markRefunded tid ''payout failed'' y)\<lparr>wdUpdatedAt := wNow w'\<rparr>)"
    by (simp add: wds_setWithdrawal y(1))
  ultimately show ?thesis using t(2) by (auto simp: markRefunded_def)
qed

theorem lost_reply_refunds_witness:
  "\<exists>g' t. toy_turn = Inr (g', [PaidOut ''paystack'' 10000 ''name'' ''0123456789'' ''044'' toy_wid, SentTx t]) \<and>
     txAmount t = 150 * Unit \<and> txTo t = ''alice''"
proof -
  let ?wd = "toy_withdrawal ''alice''" and ?w = "toy_world []"
  have a: "isTodo 0 ?wd" "providerFor toy_config ?w (orDefault (wdProvider ?wd) ''paystack'') = Inr (toy_provider, ''paystack'')"
    "wStatus ?w = Inr toy_status"
    "findMint toy_config ?w (wdAddress ?wd) (refundRef (wdID ?wd)) = None" "wSubmit ?w t = Inr ''id''"
    "wAccount ?w (cfIssuer toy_config) = Inr \<lparr>arAddress = ''issuer'', arBalance = 0, arBalanceOrp = ''0'', arNonce = 3, arNextNonce = 3, arAssets = fmempty\<rparr>" for t
    by (simp_all add: isTodo_def toy_withdrawal_def providerFor_def orDefault_def toy_world_def findMint_def toy_config_def)
  have p: "pvPayout toy_provider k n a b r s = Inl (Err ''timeout'')" "pvPayoutStatus toy_provider r = Inl (Err ''timeout'')" for k n a b r s
    by (simp_all add: toy_provider_def)
  have burn: "toy_entry (toy_burn ''alice'') \<in> set [toy_entry (toy_burn ''alice'')]" "isBurnFor toy_config ?wd (heTx (toy_entry (toy_burn ''alice'')))"
    using toy_isBurn by (simp_all add: toy_entry_def)
  from lost_reply_refunds [OF toy_signs toy_lookup a(1) burn a(2) p(1) p(2) a(4) a(3) a(6) a(5)]
  show ?thesis unfolding toy_turn_def [symmetric] by (auto simp: mints_def toy_withdrawal_def)
qed

text \<open>
  One odd address stops all payouts. Signed requests are accepted from any spelling of an address
  that decodes to the key, but the node answers history requests only for its lower-case form. While
  a withdrawal of another spelling waits for its burn, its history cannot be read, and a pass that
  comes to it ends there: whatever else waits behind it, or is in flight, is not looked at, and the
  withdrawal itself never expires.
\<close>

theorem odd_address_stalls_payouts:
  assumes "Validate (wdAddress wd) \<noteq> None" and "fmlookup (wds g) wid = Some wd" and "wdStatus wd = AwaitingBurn" and "wdID wd = wid"
    and "wHistory (ws wid) (wdAddress wd) = map_sum id (map the) (ClientHistory sha net (wdAddress wd))"
  shows "processWithdrawals sign cf now (wid # rest) ws ws' g = Inr (g, [])"
proof -
  obtain e where e: "ClientHistory sha net (wdAddress wd) = Inl e"
    using assms(1) by (cases net) (auto simp: ClientHistory_def GetJSON_def apiHistory_def writeErr_def)
  have "filter (isTodo now) (snapshotOf g (wid # rest)) = wd # filter (isTodo now) (snapshotOf g rest)"
    using assms(2,3) by (simp add: snapshotOf_def isTodo_def)
  then show ?thesis using assms(4,5) e by (simp add: processWithdrawals_def)
qed

theorem odd_address_stalls_payouts_witness:
  "verifyRequest (\<lambda>x. x) (\<lambda>pub m sig. True) 1000 9 toy_request = Inr (replicate 64 (CHR ''A''), ''{}'') \<and>
   processWithdrawals toy_sign toy_config 0 [toy_wid]
     (\<lambda>i. (toy_world [])\<lparr>wHistory := \<lambda>a. map_sum id (map the) (ClientHistory (\<lambda>x. x) (Inr demo_c0) a)\<rparr>) (\<lambda>i. toy_world [])
     (toy_gateway (replicate 64 (CHR ''A''))) = Inr (toy_gateway (replicate 64 (CHR ''A'')), [])"
proof -
  let ?a = "replicate 64 (CHR ''A'')"
  have "to_lower (CHR ''A'') \<noteq> CHR ''A''" by code_simp
  then have "map to_lower ?a \<noteq> ?a" by (simp add: map_replicate)
  then have "Validate ?a \<noteq> None" unfolding Validate_def by auto
  then have v: "Validate (wdAddress (toy_withdrawal ?a)) \<noteq> None" by (simp add: toy_withdrawal_def)
  have s: "fmlookup (wds (toy_gateway ?a)) toy_wid = Some (toy_withdrawal ?a)" "wdStatus (toy_withdrawal ?a) = AwaitingBurn"
    "wdID (toy_withdrawal ?a) = toy_wid"
    using toy_lookup [of ?a] by (simp_all add: toy_withdrawal_def)
  show ?thesis
    by (rule conjI [OF toy_request_accepted odd_address_stalls_payouts [OF v s]]) simp
qed

text \<open>
  The reserve report. The report says "fully backed" exactly when the naira at the providers
  less the payouts in flight cover the supply, as long as that difference is not negative. When more
  is in flight than the providers hold, the difference wraps around to an enormous reserve, and the
  report says "fully backed" for every supply below it.
\<close>

theorem reserve_report_exact:
  assumes "wStatus w = Inr st" and "sumBalances ps 0 = Inr bal" and "\<bar>(bal - owedKobo g) * 10000\<bar> < 2 ^ 63"
  shows "\<exists>r. reserveReport cf w ps g = (200, Inr r) \<and> rvSupply r = supplyOfAsset (cfAsset cf) (ssAssets st) \<and>
    (if 0 \<le> bal - owedKobo g
     then uint (rvReserve r) = (bal - owedKobo g) * 10000 \<and> (rvFullyBacked r \<longleftrightarrow> uint (rvSupply r) \<le> (bal - owedKobo g) * 10000)
     else uint (rvReserve r) = 2 ^ 64 - (owedKobo g - bal) * 10000 \<and>
       (rvFullyBacked r \<longleftrightarrow> uint (rvSupply r) \<le> 2 ^ 64 - (owedKobo g - bal) * 10000))"
proof -
  let ?x = "bal - owedKobo g"
  have w: "wrap64 ?x = ?x" using assms(3) by (intro wrap64_id) simp_all
  let ?r = "\<lparr>rvSupply = supplyOfAsset (cfAsset cf) (ssAssets st), rvTotal = bal, rvOwed = owedKobo g, rvReserve = toMicro ?x,
    rvFullyBacked = (toMicro ?x \<ge> supplyOfAsset (cfAsset cf) (ssAssets st))\<rparr>"
  have "reserveReport cf w ps g = (200, Inr ?r)" using assms(1,2) w by (simp add: reserveReport_def writeJSON_def Let_def)
  moreover have "uint (toMicro ?x) = (if 0 \<le> ?x then ?x * 10000 else 2 ^ 64 - (owedKobo g - bal) * 10000)"
    using assms(3) uint_toMicro [of ?x] uint_toMicro_neg [of ?x] by (simp add: algebra_simps)
  ultimately show ?thesis by (intro exI [of _ ?r]) (simp add: word_le_def)
qed

theorem reserve_report_exact_witness:
  "\<exists>r. reserveReport toy_config (toy_world []) [toy_provider]
      (emptyGateway\<lparr>gwWithdrawals := \<lparr>soData = fmupd toy_wid ((toy_withdrawal ''alice'')\<lparr>wdStatus := Processing\<rparr>) fmempty, soDisk = None\<rparr>\<rparr>) =
      (200, Inr r) \<and> rvFullyBacked r \<and> uint (rvReserve r) = 2 ^ 64 - 100000000"
proof -
  let ?g = "emptyGateway\<lparr>gwWithdrawals := \<lparr>soData = fmupd toy_wid ((toy_withdrawal ''alice'')\<lparr>wdStatus := Processing\<rparr>) fmempty, soDisk = None\<rparr>\<rparr>"
  have "sortedEntries (fmupd k v fmempty) = [(k, v)]" for k :: string and v :: Withdrawal
    by (simp add: sortedEntries_def sorted_list_of_fset.rep_eq)
  then have o: "owedKobo ?g = 10000" by (simp add: owedKobo_def wrap64_def toy_withdrawal_def)
  have st: "wStatus (toy_world []) = Inr toy_status" by (simp add: toy_world_def)
  have b: "sumBalances [toy_provider] 0 = Inr 0" by (simp add: toy_provider_def wrap64_def)
  have "\<bar>(0 - owedKobo ?g) * 10000\<bar> < 2 ^ 63" by (simp add: o)
  from reserve_report_exact [OF st b this, of toy_config] obtain r where r: "reserveReport toy_config (toy_world []) [toy_provider] ?g = (200, Inr r)"
    "rvSupply r = supplyOfAsset (cfAsset toy_config) (ssAssets toy_status)" "uint (rvReserve r) = 2 ^ 64 - 100000000"
    "rvFullyBacked r \<longleftrightarrow> uint (rvSupply r) \<le> 2 ^ 64 - 100000000"
    unfolding o by auto
  have "uint (rvSupply r) = 5000000" unfolding r(2) by (simp add: supplyOfAsset_def toy_config_def toy_status_def Unit_def)
  then show ?thesis using r by auto
qed

end
