(* ===== verification/Payment_Rails.thy ===== *)
theory Payment_Rails
  imports Gateway "HOL-Library.Signed_Division"
begin

text \<open>
  The two payment providers: apps/gateway/paystack.go and apps/gateway/flutterwave.go. An API record
  holds what the provider's HTTP API answers to each request, already decoded from JSON; the adapters
  turn it into the gateway's \<open>Provider\<close>. HMAC-SHA512, the JSON decoding of a webhook, and float64
  rounding between naira and kobo (Flutterwave) are parameters.
\<close>

subsection \<open>Replies\<close>

text \<open>
  A reply is a network error, or a status code with the decoded envelope if it is JSON: whether it
  says success, its message, and its data if they have the expected form.
\<close>

type_synonym 'a reply = "err + nat \<times> (bool \<times> string \<times> 'a option) option"

definition doRequest :: "'a reply \<Rightarrow> err + 'a" where
  "doRequest r =
     (case r of Inl e \<Rightarrow> Inl (Wrap ''unreachable'' e)
      | Inr (code, None) \<Rightarrow> Inl (Err ''bad response'')
      | Inr (code, Some (ok, msg, data)) \<Rightarrow>
          if \<not> ok \<or> code \<ge> 300 then Inl (Err msg)
          else case data of None \<Rightarrow> Inl (Err ''json: cannot unmarshal'') | Some v \<Rightarrow> Inr v)"

subsection \<open>Paystack\<close>

record PsTransaction =
  ptStatus :: string
  ptReference :: string
  ptAmount :: int
  ptFees :: int
  ptCurrency :: string

record PsApi =
  paInitialize :: "string \<Rightarrow> int \<Rightarrow> string \<Rightarrow> string \<Rightarrow> (string \<times> string) list \<Rightarrow> string reply"
  paVerify :: "string \<Rightarrow> PsTransaction reply"
  paBanks :: "Bank list reply"
  paResolve :: "string \<Rightarrow> string \<Rightarrow> string reply"
  paRecipient :: "string \<Rightarrow> string \<Rightarrow> string \<Rightarrow> string reply"
  paTransfer :: "int \<Rightarrow> string \<Rightarrow> string \<Rightarrow> string \<Rightarrow> string reply"
  paTransferStatus :: "string \<Rightarrow> string reply"
  paBalance :: "(string \<times> int) list reply"

definition psVerifyCollection :: "PsApi \<Rightarrow> string \<Rightarrow> err + Collection" where
  "psVerifyCollection api ref =
     (case doRequest (paVerify api ref) of Inl e \<Rightarrow> Inl e
      | Inr tx \<Rightarrow> Inr \<lparr>clStatus =
            (if ptStatus tx = ''success'' then StatusSuccess
             else if ptStatus tx \<in> {''failed'', ''reversed'', ''abandoned''} then StatusFailed else StatusPending),
          clRef = ptReference tx, clGrossKobo = ptAmount tx, clFeeKobo = ptFees tx, clCurrency = ptCurrency tx\<rparr>)"

definition psPayout :: "PsApi \<Rightarrow> int \<Rightarrow> string \<Rightarrow> string \<Rightarrow> string \<Rightarrow> string \<Rightarrow> string \<Rightarrow> err + PayStatus" where
  "psPayout api kobo name acct bank ref reason =
     (case doRequest (paRecipient api name acct bank) of Inl e \<Rightarrow> Inl e
      | Inr recipient \<Rightarrow>
        (case doRequest (paTransfer api kobo recipient ref reason) of Inl e \<Rightarrow> Inl e
         | Inr st \<Rightarrow>
             if st = ''success'' then Inr StatusSuccess
             else if st = ''otp'' then Inl (Err ''Paystack requires OTP for transfers; disable it in the dashboard'')
             else Inr StatusPending))"

definition psPayoutStatus :: "PsApi \<Rightarrow> string \<Rightarrow> err + PayStatus" where
  "psPayoutStatus api ref =
     (case doRequest (paTransferStatus api ref) of Inl e \<Rightarrow> Inl e
      | Inr st \<Rightarrow>
          Inr (if st = ''success'' then StatusSuccess
               else if st = ''failed'' \<or> st = ''reversed'' then StatusFailed else StatusPending))"

definition psBalance :: "PsApi \<Rightarrow> err + int" where
  "psBalance api =
     (case doRequest (paBalance api) of Inl e \<Rightarrow> Inl e
      | Inr out \<Rightarrow>
        (case find (\<lambda>b. fst b = ''NGN'') out of
           Some b \<Rightarrow> Inr (snd b) | None \<Rightarrow> Inl (Err ''no NGN balance on this Paystack account'')))"

text \<open>\<open>validSignature\<close>: the header is the hex HMAC-SHA512 of the body under the secret key.\<close>

definition validSignature :: "(bytes \<Rightarrow> bytes \<Rightarrow> bytes) \<Rightarrow> bytes \<Rightarrow> bytes \<Rightarrow> string \<Rightarrow> bool" where
  "validSignature hmac secret body header \<longleftrightarrow> hex_decode header = Some (hmac secret body)"

definition psParseWebhook :: "(bytes \<Rightarrow> bytes \<Rightarrow> bytes) \<Rightarrow> (bytes \<Rightarrow> err + string \<times> string) \<Rightarrow> bytes \<Rightarrow> (string \<Rightarrow> string) \<Rightarrow> bytes \<Rightarrow>
    err + WebhookEvent" where
  "psParseWebhook hmac decode secret header body =
     (if \<not> validSignature hmac secret body (header ''x-paystack-signature'') then Inl (Err ''invalid signature'')
      else case decode body of Inl e \<Rightarrow> Inl e
      | Inr (event, ref) \<Rightarrow>
          Inr (if event = ''charge.success'' then \<lparr>weKind = ''collection'', weRef = ref, weStatus = Some StatusSuccess\<rparr>
               else if event = ''transfer.success'' then \<lparr>weKind = ''payout'', weRef = ref, weStatus = Some StatusSuccess\<rparr>
               else if event = ''transfer.failed'' \<or> event = ''transfer.reversed''
               then \<lparr>weKind = ''payout'', weRef = ref, weStatus = Some StatusFailed\<rparr>
               else \<lparr>weKind = '''', weRef = ref, weStatus = None\<rparr>))"

text \<open>\<open>grossUp\<close>, in \<open>int64\<close> arithmetic.\<close>

definition ceilDiv :: "int \<Rightarrow> int" where
  "ceilDiv x = wrap64 (wrap64 (x * 1000) + 984) sdiv 985"

definition grossUp :: "int \<Rightarrow> int" where
  "grossUp net =
     (let gross0 = ceilDiv net;
          gross = (if gross0 \<ge> 250000 then ceilDiv (wrap64 (net + 10000)) else gross0)
      in if wrap64 (gross - net) > 200000 then wrap64 (net + 200000) else gross)"

definition paystack :: "(bytes \<Rightarrow> bytes \<Rightarrow> bytes) \<Rightarrow> (bytes \<Rightarrow> err + string \<times> string) \<Rightarrow> bytes \<Rightarrow> PsApi \<Rightarrow> Provider" where
  "paystack hmac decode secret api =
     \<lparr>pvName = ''paystack'', pvTestMode = (take 8 secret = ''sk_test_''),
      pvStartCollection = (\<lambda>email kobo ref cb meta. doRequest (paInitialize api email kobo ref cb meta)),
      pvVerifyCollection = psVerifyCollection api, pvGrossUp = grossUp,
      pvBanks = map_sum id Some (doRequest (paBanks api)),
      pvResolveAccount = (\<lambda>acct code. doRequest (paResolve api acct code)),
      pvPayout = psPayout api, pvPayoutStatus = psPayoutStatus api, pvBalanceKobo = psBalance api,
      pvParseWebhook = psParseWebhook hmac decode secret\<rparr>"

subsection \<open>Flutterwave\<close>

record 'f FlwTransaction =
  ftStatus :: string
  ftTxRef :: string
  ftAmount :: 'f
  ftAppFee :: 'f
  ftCurrency :: string

record 'f FlwApi =
  faPayments :: "string \<Rightarrow> 'f \<Rightarrow> string \<Rightarrow> string \<Rightarrow> (string \<times> string) list \<Rightarrow> string reply"
  faVerify :: "string \<Rightarrow> 'f FlwTransaction reply"
  faBanks :: "Bank list option reply"
  faResolve :: "string \<Rightarrow> string \<Rightarrow> string reply"
  faTransfer :: "'f \<Rightarrow> string \<Rightarrow> string \<Rightarrow> string \<Rightarrow> string \<Rightarrow> string \<Rightarrow> string reply"
  faTransfers :: "string \<Rightarrow> string list reply"
  faBalance :: "'f reply"

definition to_upper :: "char \<Rightarrow> char" where
  "to_upper c = (let n = of_char c :: nat in if 97 \<le> n \<and> n \<le> 122 then char_of (n - 32) else c)"

definition normalizeFlwTransfer :: "string \<Rightarrow> PayStatus" where
  "normalizeFlwTransfer s =
     (let u = map to_upper s in
      if u = ''SUCCESSFUL'' then StatusSuccess else if u = ''FAILED'' then StatusFailed else StatusPending)"

definition flwVerifyCollection :: "('f \<Rightarrow> int) \<Rightarrow> 'f FlwApi \<Rightarrow> string \<Rightarrow> err + Collection" where
  "flwVerifyCollection nairaToKobo api ref =
     (case doRequest (faVerify api ref) of Inl e \<Rightarrow> Inl e
      | Inr tx \<Rightarrow>
          (let l = map to_lower (ftStatus tx) in
           Inr \<lparr>clStatus = (if l = ''successful'' then StatusSuccess else if l = ''failed'' \<or> l = ''cancelled'' then StatusFailed
                  else StatusPending),
             clRef = ftTxRef tx, clGrossKobo = nairaToKobo (ftAmount tx), clFeeKobo = nairaToKobo (ftAppFee tx),
             clCurrency = ftCurrency tx\<rparr>))"

definition flwGrossUp :: "int \<Rightarrow> int" where
  "flwGrossUp net =
     (let gross = wrap64 (wrap64 (net * 1000) + 985) sdiv 986
      in if wrap64 (gross - net) > 200000 then wrap64 (net + 200000) else gross)"

definition flwPayout :: "(int \<Rightarrow> 'f) \<Rightarrow> 'f FlwApi \<Rightarrow> int \<Rightarrow> string \<Rightarrow> string \<Rightarrow> string \<Rightarrow> string \<Rightarrow> string \<Rightarrow> err + PayStatus" where
  "flwPayout koboToNaira api kobo name acct bank ref reason =
     map_sum id normalizeFlwTransfer (doRequest (faTransfer api (koboToNaira kobo) name acct bank ref reason))"

definition flwPayoutStatus :: "'f FlwApi \<Rightarrow> string \<Rightarrow> err + PayStatus" where
  "flwPayoutStatus api ref =
     (case doRequest (faTransfers api ref) of Inl e \<Rightarrow> Inl e
      | Inr [] \<Rightarrow> Inl (Err ''transfer not found'')
      | Inr (s # _) \<Rightarrow> Inr (normalizeFlwTransfer s))"

text \<open>The decoded webhook is its event, transaction reference, reference and status.\<close>

definition flwParseWebhook :: "(bytes \<Rightarrow> err + string \<times> string \<times> string \<times> string) \<Rightarrow> string \<Rightarrow> (string \<Rightarrow> string) \<Rightarrow> bytes \<Rightarrow>
    err + WebhookEvent" where
  "flwParseWebhook decode secretHash header body =
     (if secretHash = '''' \<or> header ''verif-hash'' \<noteq> secretHash then Inl (Err ''invalid signature'')
      else case decode body of Inl e \<Rightarrow> Inl e
      | Inr (event, txRef, ref, status) \<Rightarrow>
          Inr (if event = ''charge.completed''
               then \<lparr>weKind = ''collection'', weRef = txRef,
                     weStatus = Some (if map to_lower status = ''successful'' then StatusSuccess else StatusPending)\<rparr>
               else if event = ''transfer.completed''
               then \<lparr>weKind = ''payout'', weRef = ref, weStatus = Some (normalizeFlwTransfer status)\<rparr>
               else \<lparr>weKind = '''', weRef = '''', weStatus = None\<rparr>))"

text \<open>\<open>strings.Contains(secret, "_TEST")\<close>.\<close>

fun containsStr :: "string \<Rightarrow> string \<Rightarrow> bool" where
  "containsStr [] t = (t = [])"
| "containsStr (c # s) t = (take (length t) (c # s) = t \<or> containsStr s t)"

definition flutterwave :: "(int \<Rightarrow> 'f) \<Rightarrow> ('f \<Rightarrow> int) \<Rightarrow> (bytes \<Rightarrow> err + string \<times> string \<times> string \<times> string) \<Rightarrow> bytes \<Rightarrow> string \<Rightarrow> 'f FlwApi \<Rightarrow>
    Provider" where
  "flutterwave koboToNaira nairaToKobo decode secret secretHash api =
     \<lparr>pvName = ''flutterwave'', pvTestMode = containsStr secret ''_TEST'',
      pvStartCollection = (\<lambda>email kobo ref cb meta. doRequest (faPayments api email (koboToNaira kobo) ref cb meta)),
      pvVerifyCollection = flwVerifyCollection nairaToKobo api, pvGrossUp = flwGrossUp,
      pvBanks = doRequest (faBanks api),
      pvResolveAccount = (\<lambda>acct code. doRequest (faResolve api acct code)),
      pvPayout = flwPayout koboToNaira api, pvPayoutStatus = flwPayoutStatus api,
      pvBalanceKobo = map_sum id nairaToKobo (doRequest (faBalance api)),
      pvParseWebhook = flwParseWebhook decode secretHash\<rparr>"

subsection \<open>Property\<close>

lemma toKobo_range: "0 \<le> toKobo m \<and> toKobo m \<le> 1844674407370955"
proof -
  have "uint m \<le> 18446744073709551615" using uint_bounded [of m] by simp
  then have "uint m div 10000 \<le> 18446744073709551615 div 10000" by (rule zdiv_mono1) simp
  then show ?thesis by (simp add: toKobo_def microPerKobo_def uint_div pos_imp_zdiv_nonneg_iff)
qed

text \<open>Rounding up: the quotient times the divisor is the product, or less than the divisor above it.\<close>

lemma round_up:
  fixes y k :: int
  assumes "0 < k"
  shows "y \<le> k * ((y + (k - 1)) div k)" "k * ((y + (k - 1)) div k) \<le> y + (k - 1)"
proof -
  have "k * ((y + (k - 1)) div k) = y + (k - 1) - (y + (k - 1)) mod k" by (rule minus_mod_eq_mult_div [symmetric])
  moreover have "0 \<le> (y + (k - 1)) mod k" "(y + (k - 1)) mod k < k" using assms by simp_all
  ultimately show "y \<le> k * ((y + (k - 1)) div k)" "k * ((y + (k - 1)) div k) \<le> y + (k - 1)" by linarith+
qed

lemma ceilDiv_bounds:
  assumes "0 \<le> x" and "x \<le> 1844674407380955"
  shows "1000 * x \<le> 985 * ceilDiv x" "985 * ceilDiv x \<le> 1000 * x + 984"
proof -
  have "ceilDiv x = (1000 * x + (985 - 1)) div 985"
    using assms by (simp add: ceilDiv_def wrap64_id signed_divide_int_def mult.commute)
  then show "1000 * x \<le> 985 * ceilDiv x" "985 * ceilDiv x \<le> 1000 * x + 984"
    using round_up [of 985 "1000 * x"] by simp_all
qed

lemma grossUp_covers:
  assumes "0 \<le> n" and "n \<le> 1844674407370955"
  shows "n \<le> grossUp n \<and> grossUp n \<le> n + 200000 \<and>
    (1000 * (grossUp n - n) \<ge> 15 * grossUp n + (if grossUp n \<ge> 250000 then 1000 * 10000 else 0) \<or> grossUp n - n = 200000)"
proof -
  define a where "a = ceilDiv n"
  define b where "b = ceilDiv (n + 10000)"
  have a: "1000 * n \<le> 985 * a" "985 * a \<le> 1000 * n + 984" and b: "1000 * (n + 10000) \<le> 985 * b" "985 * b \<le> 1000 * (n + 10000) + 984"
    using ceilDiv_bounds [of n] ceilDiv_bounds [of "n + 10000"] assms by (simp_all add: a_def b_def)
  define c where "c = (if a \<ge> 250000 then b else a)"
  have c: "0 \<le> c - n" "c - n < 2 ^ 63" using a b assms by (auto simp: c_def)
  have g: "grossUp n = (if c - n > 200000 then n + 200000 else c)"
  proof -
    have w: "wrap64 (n + 10000) = n + 10000" "wrap64 (n + 200000) = n + 200000" "wrap64 (c - n) = c - n"
      using assms c by (simp_all add: wrap64_id)
    show ?thesis unfolding grossUp_def Let_def w(1) a_def [symmetric] b_def [symmetric] c_def [symmetric] w(2,3) ..
  qed
  show ?thesis
  proof (cases "c - n > 200000")
    case True
    then show ?thesis using g by simp
  next
    case False
    have "1000 * (c - n) \<ge> 15 * c + (if c \<ge> 250000 then 1000 * 10000 else 0)"
    proof (cases "a \<ge> 250000")
      case True
      then show ?thesis using b by (simp add: c_def)
    next
      case False
      then show ?thesis using a by (simp add: c_def)
    qed
    then show ?thesis using False g c by simp
  qed
qed

lemma flwGrossUp_covers:
  assumes "0 \<le> n" and "n \<le> 1844674407370955"
  shows "n \<le> flwGrossUp n \<and> flwGrossUp n \<le> n + 200000 \<and> (1000 * (flwGrossUp n - n) \<ge> 14 * flwGrossUp n \<or> flwGrossUp n - n = 200000)"
proof -
  define c where "c = (1000 * n + (986 - 1)) div 986"
  have c: "1000 * n \<le> 986 * c" "986 * c \<le> 1000 * n + 985" using round_up [of 986 "1000 * n"] by (simp_all add: c_def)
  have "wrap64 (wrap64 (n * 1000) + 985) sdiv 986 = c"
    using assms by (simp add: c_def wrap64_id signed_divide_int_def mult.commute)
  then have "flwGrossUp n = (if c - n > 200000 then n + 200000 else c)"
    using assms c by (simp add: flwGrossUp_def wrap64_id Let_def)
  moreover have "n \<le> c" using c assms by linarith
  ultimately show ?thesis using c by auto
qed

text \<open>
  The customer pays the fee. For any amount of NGN, what is charged leaves the whole amount after
  the provider's published fee: for Paystack 1.5 percent, plus 100 naira from 2500 naira on, at most
  2000 naira; for Flutterwave 1.4 percent, at most 2000 naira. And neither charges more than 2000
  naira on top.
\<close>

theorem gross_up_covers_fee:
  shows "(let net = toKobo m; g = grossUp net in
      net \<le> g \<and> g \<le> net + 200000 \<and>
      (1000 * (g - net) \<ge> 15 * g + (if g \<ge> 250000 then 1000 * 10000 else 0) \<or> g - net = 200000)) \<and>
    (let net = toKobo m; g = flwGrossUp net in
      net \<le> g \<and> g \<le> net + 200000 \<and> (1000 * (g - net) \<ge> 14 * g \<or> g - net = 200000))"
  using grossUp_covers [of "toKobo m"] flwGrossUp_covers [of "toKobo m"] toKobo_range [of m] by (simp add: Let_def)

end
