(* ===== verification/Orpay_Directory.thy ===== *)
theory Orpay_Directory
  imports Key_Files Json_Store Node_Api
begin

text \<open>
  Usernames and six-word sign-in of the orPay backend: apps/orpay/backend/directory.go and signin.go.
  The directory keeps a map from names to addresses in a JSON store and, beside it, the reverse map,
  rebuilt on start. A wallet's sign-in record counts wrong guesses and locks itself.

  Handlers take the decoded body; \<open>fault\<close> says whether writing the file fails, \<open>now\<close> is the server's
  clock in nanoseconds, \<open>Ed25519\<close> and SHA-256 are parameters. \<open>strings.ToLower\<close> is that of ASCII text.
\<close>

subsection \<open>The directory\<close>

definition is_lower :: "char \<Rightarrow> bool" where
  "is_lower c = (let n = of_char c :: nat in 97 \<le> n \<and> n \<le> 122)"

text \<open>The regular expression \<open>^[a-z0-9_]{3,20}$\<close>.\<close>

definition usernameRe :: "string \<Rightarrow> bool" where
  "usernameRe s \<longleftrightarrow> 3 \<le> length s \<and> length s \<le> 20 \<and> list_all (\<lambda>c. is_lower c \<or> is_digit c \<or> c = CHR ''_'') s"

definition RegisterMessage :: "string \<Rightarrow> addr \<Rightarrow> string" where
  "RegisterMessage name a = ''orpay/register/v1'' @ newline # name @ newline # a"

record Directory =
  drStore :: "(string, addr) fmap Store"
  drByAddr :: "(addr, string) fmap"

abbreviation drUsers :: "Directory \<Rightarrow> (string, addr) fmap" where
  "drUsers d \<equiv> soData (drStore d)"

text \<open>\<open>openDirectory\<close>; \<open>order\<close> is the order in which Go ranges over the names.\<close>

definition reverseMap :: "(string, addr) fmap \<Rightarrow> string list \<Rightarrow> (addr, string) fmap" where
  "reverseMap users order =
     foldl (\<lambda>m n. case fmlookup users n of None \<Rightarrow> m | Some a \<Rightarrow> fmupd a n m) fmempty order"

definition openDirectory :: "(err + (string, addr) fmap) option \<Rightarrow> string list \<Rightarrow> err + Directory" where
  "openDirectory file order =
     (case OpenStore file fmempty of Inl e \<Rightarrow> Inl e
      | Inr st \<Rightarrow> Inr \<lparr>drStore = st, drByAddr = reverseMap (soData st) order\<rparr>)"

text \<open>An update of both maps under the store's lock.\<close>

definition updateDirectory :: "err option \<Rightarrow> (Directory \<Rightarrow> (string, addr) fmap \<times> (addr, string) fmap \<times> err option) \<Rightarrow> Directory \<Rightarrow> Directory \<times> err option" where
  "updateDirectory fault fn d =
     (case fn d of (users, byaddr, e) \<Rightarrow>
        (let (st, e') = Update fault (\<lambda>_. (users, e)) (drStore d) in (\<lparr>drStore = st, drByAddr = byaddr\<rparr>, e')))"

definition claimStep :: "string \<Rightarrow> addr \<Rightarrow> Directory \<Rightarrow> (string, addr) fmap \<times> (addr, string) fmap \<times> err option" where
  "claimStep name a d =
     (case fmlookup (drUsers d) name of
        Some owner \<Rightarrow> (drUsers d, drByAddr d, if owner = a then None else Some (Err ''name is taken''))
      | None \<Rightarrow>
        (case fmlookup (drByAddr d) a of
           Some existing \<Rightarrow> (drUsers d, drByAddr d, Some (Err ''this wallet already has a name''))
         | None \<Rightarrow> (fmupd name a (drUsers d), fmupd a name (drByAddr d), None)))"

definition claim :: "err option \<Rightarrow> string \<Rightarrow> addr \<Rightarrow> Directory \<Rightarrow> Directory \<times> err option" where
  "claim fault name a d = updateDirectory fault (claimStep name a) d"

definition byName :: "Directory \<Rightarrow> string \<Rightarrow> addr option" where
  "byName d name = fmlookup (drUsers d) name"

definition byAddress :: "Directory \<Rightarrow> addr \<Rightarrow> string option" where
  "byAddress d a = fmlookup (drByAddr d) a"

definition trimPrefix :: "char \<Rightarrow> string \<Rightarrow> string" where
  "trimPrefix c s = (if s \<noteq> [] \<and> hd s = c then tl s else s)"

definition resolveRef :: "Directory \<Rightarrow> string \<Rightarrow> err + addr" where
  "resolveRef d ref0 =
     (let ref = TrimSpace ref0 in
      if Validate ref = None then Inr ref
      else case byName d (map to_lower (trimPrefix (CHR ''@'') ref)) of
        Some a \<Rightarrow> Inr a
      | None \<Rightarrow> Inl (Err ''no such user''))"

definition register :: "(bytes \<Rightarrow> bytes \<Rightarrow> bytes \<Rightarrow> bool) \<Rightarrow> err option \<Rightarrow> string \<Rightarrow> addr \<Rightarrow> string \<Rightarrow> Directory \<Rightarrow> Directory \<times> (string \<times> addr) response" where
  "register ed_verify fault username a sig d =
     (let name = map to_lower username in
      if \<not> usernameRe name then (d, writeErr 400 (Err ''username must be 3-20 characters: a-z, 0-9, _''))
      else case PubKey a of Inl e \<Rightarrow> (d, writeErr 400 e)
      | Inr pub \<Rightarrow>
        (case hex_decode sig of None \<Rightarrow> (d, writeErr 401 (Err ''signature does not match address''))
         | Some s \<Rightarrow>
           if \<not> ed_verify pub (RegisterMessage name a) s then (d, writeErr 401 (Err ''signature does not match address''))
           else case claim fault name a d of
             (d', Some e) \<Rightarrow> (d', writeErr 409 e)
           | (d', None) \<Rightarrow> (d', writeJSON 201 (name, a))))"

definition resolve :: "Directory \<Rightarrow> string \<Rightarrow> (string \<times> addr) response" where
  "resolve d path =
     (let name = map to_lower (trimPrefix (CHR ''@'') path) in
      case byName d name of None \<Rightarrow> writeErr 404 (Err ''no such user'') | Some a \<Rightarrow> writeJSON 200 (name, a))"

definition lookup :: "Directory \<Rightarrow> addr \<Rightarrow> (string option \<times> addr) response" where
  "lookup d a = writeJSON 200 (byAddress d a, a)"

text \<open>
  The part of \<open>migrateIdentity\<close> (phone.go) that moves a username to a wallet's new key. The error of
  the update is not looked at.
\<close>

definition migrateStep :: "addr \<Rightarrow> addr \<Rightarrow> Directory \<Rightarrow> (string, addr) fmap \<times> (addr, string) fmap \<times> err option" where
  "migrateStep old me d =
     (case fmlookup (drByAddr d) old of None \<Rightarrow> (drUsers d, drByAddr d, None)
      | Some name \<Rightarrow>
        if fmlookup (drByAddr d) me \<noteq> None then (drUsers d, drByAddr d, None)
        else (fmupd name me (drUsers d), fmupd me name (fmdrop old (drByAddr d)), None))"

definition migrateName :: "err option \<Rightarrow> addr \<Rightarrow> addr \<Rightarrow> Directory \<Rightarrow> Directory" where
  "migrateName fault old me d = fst (updateDirectory fault (migrateStep old me) d)"

subsection \<open>One name, one wallet\<close>

text \<open>The two maps are inverse to each other, and the file gives no wallet two names.\<close>

definition one_name :: "(string, addr) fmap \<Rightarrow> bool" where
  "one_name users \<longleftrightarrow> (\<forall>m n a. fmlookup users m = Some a \<longrightarrow> fmlookup users n = Some a \<longrightarrow> m = n)"

definition dir_ok :: "Directory \<Rightarrow> bool" where
  "dir_ok d \<longleftrightarrow>
     (\<forall>n a. fmlookup (drUsers d) n = Some a \<longleftrightarrow> fmlookup (drByAddr d) a = Some n) \<and>
     (\<forall>users. soDisk (drStore d) = Some users \<longrightarrow> one_name users)"

lemma dir_ok_one_name: "dir_ok d \<Longrightarrow> one_name (drUsers d)"
  unfolding dir_ok_def one_name_def by (metis option.inject)

lemma updateDirectory_users [simp]:
  "drUsers (fst (updateDirectory fault fn d)) = fst (fn d)"
  "drByAddr (fst (updateDirectory fault fn d)) = fst (snd (fn d))"
  by (simp_all add: updateDirectory_def split_beta Let_def)

lemma updateDirectory_ok:
  assumes "dir_ok d"
    and "\<And>n a. fmlookup (fst (fn d)) n = Some a \<longleftrightarrow> fmlookup (fst (snd (fn d))) a = Some n"
  shows "dir_ok (fst (updateDirectory fault fn d))"
proof -
  have "one_name (fst (fn d))" unfolding one_name_def using assms(2) by (metis option.inject)
  moreover have "soDisk (drStore (fst (updateDirectory fault fn d))) = soDisk (drStore d) \<or>
      soDisk (drStore (fst (updateDirectory fault fn d))) = Some (fst (fn d))"
    using Update_disk [of fault "\<lambda>_. (fst (fn d), snd (snd (fn d)))" "drStore d"]
    by (simp add: updateDirectory_def split_beta Let_def)
  ultimately show ?thesis using assms unfolding dir_ok_def by auto
qed

lemma claim_ok: "dir_ok d \<Longrightarrow> dir_ok (fst (claim fault name a d))"
  unfolding claim_def by (rule updateDirectory_ok)
    (auto simp: dir_ok_def claimStep_def split: option.splits, metis option.distinct(1))

lemma claim_success:
  assumes "claim fault name a d = (d', None)"
  shows "byName d' name = Some a"
proof -
  have "snd (snd (claimStep name a d)) = None"
    using assms by (cases "snd (snd (claimStep name a d))") (auto simp: claim_def updateDirectory_def Update_def split_beta Let_def)
  moreover have "drUsers d' = fst (claimStep name a d)"
    using assms updateDirectory_users(1) [of fault "claimStep name a" d] by (simp add: claim_def)
  ultimately show ?thesis by (auto simp: byName_def claimStep_def split: option.splits if_splits)
qed

lemma migrateName_ok: "dir_ok d \<Longrightarrow> dir_ok (migrateName fault old me d)"
  unfolding migrateName_def by (rule updateDirectory_ok)
    (auto simp: dir_ok_def migrateStep_def split: option.splits if_splits, metis option.inject)

lemma reverseMap_lookup:
  assumes "one_name users"
  shows "fmlookup (reverseMap users order) a = Some n \<longleftrightarrow> n \<in> set order \<and> fmlookup users n = Some a"
proof (induction order rule: rev_induct)
  case Nil
  then show ?case by (simp add: reverseMap_def)
next
  case (snoc m order)
  then show ?case using assms
    by (cases "fmlookup users m") (auto simp: reverseMap_def one_name_def)
qed

lemma openDirectory_ok:
  assumes "\<And>v. file = Some (Inr v) \<Longrightarrow> one_name v" and "openDirectory file order = Inr d" and "set order = fmdom' (drUsers d)"
  shows "dir_ok d"
proof -
  have one: "one_name (drUsers d)" and disk: "\<And>v. soDisk (drStore d) = Some v \<Longrightarrow> one_name v"
    and rev: "drByAddr d = reverseMap (drUsers d) order"
    using assms(1,2) by (auto simp: openDirectory_def OpenStore_def one_name_def split: option.splits sum.splits)
  show ?thesis unfolding dir_ok_def rev reverseMap_lookup [OF one] assms(3)
    using disk by (auto simp: fmlookup_dom'_iff)
qed

text \<open>What a server does with the directory: registrations, recoveries, and restarts from the file.\<close>

inductive dir_step :: "Directory \<Rightarrow> Directory \<Rightarrow> bool" where
  step_claim: "dir_step d (fst (claim fault name a d))"
| step_migrate: "dir_step d (migrateName fault old me d)"
| step_restart: "openDirectory (map_option Inr (soDisk (drStore d))) order = Inr d' \<Longrightarrow> set order = fmdom' (drUsers d') \<Longrightarrow> dir_step d d'"

lemma dir_step_ok: "dir_step d d' \<Longrightarrow> dir_ok d \<Longrightarrow> dir_ok d'"
proof (induction rule: dir_step.induct)
  case (step_restart d order d')
  have "one_name v" if "map_option Inr (soDisk (drStore d)) = Some (Inr v)" for v
    using that step_restart.prems by (auto simp: dir_ok_def)
  then show ?case using openDirectory_ok [OF _ step_restart.hyps] by blast
qed (simp_all add: claim_ok migrateName_ok)

lemma dir_run_ok: "dir_step\<^sup>*\<^sup>* d d' \<Longrightarrow> dir_ok d \<Longrightarrow> dir_ok d'"
  by (induction rule: rtranclp_induct) (blast intro: dir_step_ok)+

definition empty_directory :: Directory where
  "empty_directory = \<lparr>drStore = \<lparr>soData = fmempty, soDisk = None\<rparr>, drByAddr = fmempty\<rparr>"

lemma empty_directory_ok: "dir_ok empty_directory"
  by (simp add: dir_ok_def empty_directory_def)

subsection \<open>Properties\<close>

lemma to_lower_username:
  assumes "usernameRe s"
  shows "map to_lower s = s" and "list_all (\<lambda>c. \<not> is_space c) s" and "hd s \<noteq> CHR ''@''"
proof -
  have one: "to_lower c = c \<and> \<not> is_space c \<and> c \<noteq> CHR ''@''" if "is_lower c \<or> is_digit c \<or> c = CHR ''_''" for c
    using that by (auto simp: is_lower_def is_digit_def to_lower_def is_space_def Let_def)
  have chars: "list_all (\<lambda>c. is_lower c \<or> is_digit c \<or> c = CHR ''_'') s" and ne: "s \<noteq> []"
    using assms by (auto simp: usernameRe_def)
  show "map to_lower s = s" using chars one by (auto simp: list_all_iff intro: map_idI)
  show "list_all (\<lambda>c. \<not> is_space c) s" using chars one by (auto simp: list_all_iff)
  show "hd s \<noteq> CHR ''@''" using chars one ne by (auto simp: list_all_iff hd_in_set)
qed

lemma hex_decode_length: "hex_decode s = Some b \<Longrightarrow> length s = 2 * length b"
  by (induction s arbitrary: b rule: hex_decode.induct) (auto split: option.splits)

lemma TrimSpace_none: "list_all (\<lambda>c. \<not> is_space c) s \<Longrightarrow> TrimSpace s = s"
proof -
  assume "list_all (\<lambda>c. \<not> is_space c) s"
  then have s: "\<And>c. c \<in> set s \<Longrightarrow> \<not> is_space c" by (simp add: list_all_iff)
  have "dropWhile is_space s = s" "dropWhile is_space (rev s) = rev s"
    using s by (auto intro: dropWhile_none)
  then show ?thesis by (simp add: TrimSpace_def)
qed

text \<open>
  C29: usernames. Whatever registrations, recoveries, failing writes and restarts a server goes through,
  a name belongs to one wallet and a wallet has one name; a registration never takes a name from its
  owner, and a recovery moves only the names of the recovered wallet, to its new key.
\<close>

theorem usernames_one_to_one:
  assumes "dir_step\<^sup>*\<^sup>* empty_directory d"
  shows "(byName d n = Some a \<longleftrightarrow> byAddress d a = Some n) \<and>
    (byName d n = Some a \<longrightarrow> (\<forall>fault m b. byName (fst (claim fault m b d)) n = Some a)) \<and>
    (\<forall>fault old me. byName d n = Some a \<and> byName (migrateName fault old me d) n \<noteq> Some a \<longrightarrow>
       a = old \<and> byName (migrateName fault old me d) n = Some me)"
proof -
  have ok: "dir_ok d" using dir_run_ok [OF assms empty_directory_ok] .
  then have inv: "fmlookup (drUsers d) n = Some a \<longleftrightarrow> fmlookup (drByAddr d) a = Some n" for n a
    unfolding dir_ok_def by blast
  have "byName (fst (claim fault m b d)) n = Some a" if "byName d n = Some a" for fault m b
    using that by (auto simp: byName_def claim_def claimStep_def split: option.splits)
  moreover have "a = old \<and> byName (migrateName fault old me d) n = Some me"
    if "byName d n = Some a" "byName (migrateName fault old me d) n \<noteq> Some a" for fault old me
  proof (cases "fmlookup (drByAddr d) old")
    case None
    then show ?thesis using that by (simp add: byName_def migrateName_def migrateStep_def)
  next
    case (Some name)
    then have "fmlookup (drUsers d) name = Some old" using inv by blast
    then show ?thesis using that Some by (auto simp: byName_def migrateName_def migrateStep_def split: if_splits)
  qed
  moreover have "byName d n = Some a \<longleftrightarrow> byAddress d a = Some n" unfolding byName_def byAddress_def by (rule inv)
  ultimately show ?thesis by blast
qed

text \<open>A registered name is found, with or without the at sign, in any case.\<close>

theorem registered_name_resolves:
  assumes "register ed_verify fault username a sig d = (d', st, Inr (name, a'))"
  shows "a' = a \<and> name = map to_lower username \<and> byName d' name = Some a \<and>
    resolveRef d' (CHR ''@'' # name) = Inr a \<and> resolveRef d' name = Inr a \<and>
    resolve d' (CHR ''@'' # username) = (200, Inr (name, a))"
proof -
  from assms have re: "usernameRe (map to_lower username)"
    by (auto simp: register_def writeErr_def Let_def split: if_splits)
  with assms obtain pub s where ok: "PubKey a = Inr pub" "hex_decode sig = Some s" "ed_verify pub (RegisterMessage (map to_lower username) a) s"
    by (cases "PubKey a"; cases "hex_decode sig"; cases "ed_verify (projr (PubKey a)) (RegisterMessage (map to_lower username) a) (the (hex_decode sig))")
      (simp_all add: register_def writeErr_def Let_def)
  obtain d1 e where cl: "claim fault (map to_lower username) a d = (d1, e)" by fastforce
  have "register ed_verify fault username a sig d =
      (case e of Some x \<Rightarrow> (d1, writeErr 409 x) | None \<Rightarrow> (d1, writeJSON 201 (map to_lower username, a)))"
    using re ok cl by (simp add: register_def Let_def)
  then have c: "claim fault (map to_lower username) a d = (d', None)" "name = map to_lower username" "a' = a"
    using assms cl by (cases e; simp add: writeErr_def writeJSON_def)+
  then have by_name: "byName d' name = Some a" using claim_success by simp
  have low: "map to_lower name = name" and sp: "list_all (\<lambda>c. \<not> is_space c) name" and at: "hd name \<noteq> CHR ''@''"
    using to_lower_username [OF re] c(2) by simp_all
  have at_sp: "list_all (\<lambda>c. \<not> is_space c) (CHR ''@'' # name)" using sp by (simp add: is_space_def)
  have short: "length name \<le> 20" using re c(2) by (simp add: usernameRe_def)
  have "Validate (CHR ''@'' # name) \<noteq> None"
  proof -
    have "hex_decode (CHR ''@'' # name) = None" by (cases name) (simp_all add: hexval_def)
    then show ?thesis by (auto simp: Validate_def PubKey_def)
  qed
  moreover have "Validate name \<noteq> None"
  proof
    assume "Validate name = None"
    then obtain b where "hex_decode name = Some b" "length b = 32"
      by (auto simp: Validate_def PubKey_def split: if_splits option.splits sum.splits)
    then show False using short hex_decode_length [of name b] by simp
  qed
  moreover have "trimPrefix (CHR ''@'') name = name" "trimPrefix (CHR ''@'') (CHR ''@'' # name) = name"
    "trimPrefix (CHR ''@'') (CHR ''@'' # username) = username"
    using at by (simp_all add: trimPrefix_def)
  ultimately have "resolveRef d' (CHR ''@'' # name) = Inr a" "resolveRef d' name = Inr a" "resolve d' (CHR ''@'' # username) = (200, Inr (name, a))"
    using by_name low c(2) unfolding resolveRef_def resolve_def writeJSON_def TrimSpace_none [OF sp] TrimSpace_none [OF at_sp]
    by (auto simp: Let_def simp del: map_map list.map_comp)
  then show ?thesis using c(2,3) by_name by blast
qed

text \<open>Two wallets claim names; the first is recovered to a third key.\<close>

definition toy_directory :: Directory where
  "toy_directory = migrateName None ''k1'' ''k3'' (fst (claim None ''bola'' ''k2'' (fst (claim None ''ada'' ''k1'' empty_directory))))"

lemma toy_directory_run: "dir_step\<^sup>*\<^sup>* empty_directory toy_directory"
  unfolding toy_directory_def
  by (meson dir_step.step_claim dir_step.step_migrate rtranclp.rtrancl_into_rtrancl rtranclp.rtrancl_refl)

lemma toy_directory_names: "byName toy_directory ''ada'' = Some ''k3''" "byName toy_directory ''bola'' = Some ''k2''"
  by (simp_all add: toy_directory_def byName_def migrateName_def migrateStep_def claim_def claimStep_def
      empty_directory_def updateDirectory_users)

theorem usernames_one_to_one_witness:
  "byAddress toy_directory ''k3'' = Some ''ada'' \<and> byName (fst (claim None ''ada'' ''k9'' toy_directory)) ''ada'' = Some ''k3''"
  using usernames_one_to_one [OF toy_directory_run, of "''ada''" "''k3''"] toy_directory_names by blast

end
