(* ===== verification/Orpay_Signin.thy ===== *)
theory Orpay_Signin
  imports Orpay_Directory
begin

text \<open>
  Six-word sign-in of the orPay backend: apps/orpay/backend/signin.go. The service keeps, per wallet,
  an encrypted key and the hash of a login token, and hands the encrypted key to whoever presents the
  token, counting wrong tokens and locking the record for longer each time.
\<close>

subsection \<open>The code\<close>

record SignIn =
  siSalt :: string
  siIV :: string
  siCT :: string
  siAuthHash :: string
  siFails :: int
  siLockedTil :: int
  siUpdatedAt :: int

type_synonym SignIns = "(addr, SignIn) fmap"

text \<open>The regular expression \<open>^[0-9a-f]+$\<close>.\<close>

definition hexRe :: "string \<Rightarrow> bool" where
  "hexRe s \<longleftrightarrow> s \<noteq> [] \<and> list_all (\<lambda>c. let n = of_char c :: nat in (48 \<le> n \<and> n \<le> 57) \<or> (97 \<le> n \<and> n \<le> 102)) s"

definition authHash :: "(bytes \<Rightarrow> hash) \<Rightarrow> string \<Rightarrow> string" where
  "authHash sha auth = hex_encode (sha (''orpay-signin|'' @ auth))"

definition fieldOk :: "string \<times> nat \<times> nat \<Rightarrow> bool" where
  "fieldOk v \<longleftrightarrow> fst (snd v) \<le> length (fst v) \<and> length (fst v) \<le> snd (snd v) \<and> hexRe (fst v)"

definition setSignIn :: "(bytes \<Rightarrow> hash) \<Rightarrow> err option \<Rightarrow> int \<Rightarrow> Directory \<Rightarrow> addr \<Rightarrow> string \<Rightarrow> string \<Rightarrow> string \<Rightarrow> string \<Rightarrow> SignIns Store \<Rightarrow>
    SignIns Store \<times> bool response" where
  "setSignIn sha fault now d me salt iv ct auth s =
     (if \<not> list_all fieldOk [(salt, 32, 32), (iv, 24, 24), (ct, 64, 200), (auth, 64, 64)]
      then (s, writeErr 400 (Err ''invalid sign-in data''))
      else if byAddress d me = None then (s, writeErr 400 (Err ''claim a @username first: you sign in with it''))
      else case Update fault (\<lambda>m. (fmupd me \<lparr>siSalt = salt, siIV = iv, siCT = ct, siAuthHash = authHash sha auth,
                 siFails = 0, siLockedTil = zeroTime, siUpdatedAt = now\<rparr> m, None)) s of
        (s', Some e) \<Rightarrow> (s', writeErr 500 e)
      | (s', None) \<Rightarrow> (s', writeJSON 200 True))"

definition deleteSignIn :: "err option \<Rightarrow> addr \<Rightarrow> SignIns Store \<Rightarrow> SignIns Store \<times> bool response" where
  "deleteSignIn fault me s = (fst (Update fault (\<lambda>m. (fmdrop me m, None)) s), writeJSON 200 False)"

definition signInStatus :: "addr \<Rightarrow> SignIns Store \<Rightarrow> bool response" where
  "signInStatus me s = writeJSON 200 (fmlookup (soData s) me \<noteq> None)"

definition signInFor :: "Directory \<Rightarrow> string \<Rightarrow> err + addr" where
  "signInFor d name =
     (case byName d (trimPrefix (CHR ''@'') (map to_lower (TrimSpace name))) of
        None \<Rightarrow> Inl (Err ''no ORPay user with that @username'')
      | Some a \<Rightarrow> Inr a)"

definition signInSalt :: "Directory \<Rightarrow> string \<Rightarrow> SignIns Store \<Rightarrow> string response" where
  "signInSalt d username s =
     (case signInFor d username of Inl e \<Rightarrow> writeErr 404 e
      | Inr a \<Rightarrow>
        (case fmlookup (soData s) a of None \<Rightarrow> writeErr 404 (Err ''six-word sign-in is not set up for this wallet'')
         | Some r \<Rightarrow> writeJSON 200 (siSalt r)))"

text \<open>How long the \<open>n\<close>-th wrong token in a row locks the record, from the fifth on.\<close>

definition lockFor :: "int \<Rightarrow> int" where
  "lockFor fails = min (wrap64 (15 * minute * 2 ^ nat (min (fails - 5) 6))) (24 * hour)"

text \<open>The update of \<open>openSignIn\<close>: the record found, or the status and error it answers with.\<close>

definition openStep :: "(bytes \<Rightarrow> hash) \<Rightarrow> string \<Rightarrow> int \<Rightarrow> addr \<Rightarrow> SignIns \<Rightarrow> SignIns \<times> (nat \<times> err + SignIn)" where
  "openStep sha auth now a m =
     (case fmlookup m a of
        None \<Rightarrow> (m, Inl (404, Err ''six-word sign-in is not set up for this wallet''))
      | Some r \<Rightarrow>
          if now < siLockedTil r then (m, Inl (429, Err ''too many wrong attempts''))
          else if siAuthHash r \<noteq> authHash sha auth
          then (let f = siFails r + 1;
                    r' = (if f \<ge> 5 then r\<lparr>siFails := f, siLockedTil := now + lockFor f\<rparr> else r\<lparr>siFails := f\<rparr>)
                in (fmupd a r' m, Inl (401, Err ''those words don't match this @username'')))
          else (let r' = r\<lparr>siFails := 0, siLockedTil := zeroTime\<rparr> in (fmupd a r' m, Inr r')))"

text \<open>
  When the update itself succeeds but the file cannot be written, the handler answers with its status
  variable still 0, which \<open>http\<close> refuses with a panic.
\<close>

definition openSignIn :: "(bytes \<Rightarrow> hash) \<Rightarrow> err option \<Rightarrow> int \<Rightarrow> Directory \<Rightarrow> string \<Rightarrow> string \<Rightarrow> SignIns Store \<Rightarrow>
    SignIns Store \<times> (addr \<times> string \<times> string \<times> string) response" where
  "openSignIn sha fault now d username auth s =
     (case signInFor d username of Inl e \<Rightarrow> (s, writeErr 404 e)
      | Inr a \<Rightarrow>
        (let (m', out) = openStep sha auth now a (soData s);
             (s', e) = Update fault (\<lambda>_. (m', case out of Inl (_, e) \<Rightarrow> Some e | Inr _ \<Rightarrow> None)) s
         in case e of
              Some e \<Rightarrow> (s', writeErr (case out of Inl (st, _) \<Rightarrow> st | Inr _ \<Rightarrow> 0) e)
            | None \<Rightarrow> (case out of Inl (st, e) \<Rightarrow> (s', writeErr st e)
                       | Inr r \<Rightarrow> (s', writeJSON 200 (a, siSalt r, siIV r, siCT r)))))"

subsection \<open>Guessing\<close>

text \<open>The times at which an attempt in a run had its token compared and found wrong.\<close>

fun wrongGuesses :: "(bytes \<Rightarrow> hash) \<Rightarrow> addr \<Rightarrow> (int \<times> string) list \<Rightarrow> SignIns \<Rightarrow> int list" where
  "wrongGuesses sha a [] m = []"
| "wrongGuesses sha a ((now, auth) # rest) m =
     (case openStep sha auth now a m of
        (m', Inl (st, _)) \<Rightarrow> if st = 401 then now # wrongGuesses sha a rest m' else wrongGuesses sha a rest m'
      | (m', Inr _) \<Rightarrow> wrongGuesses sha a rest m')"

lemma lockFor_range: "5 \<le> f \<Longrightarrow> 15 * minute \<le> lockFor f \<and> lockFor f \<le> 16 * hour"
  and lockFor_late: "11 \<le> f \<Longrightarrow> lockFor f = 16 * hour"
proof -
  have pow: "1 \<le> p \<and> p \<le> 64" if "p = (2 :: int) ^ nat (min (f - 5) 6)" for p f
    using power_increasing [of "nat (min (f - 5) 6)" 6 "2 :: int"] that by simp
  have val: "lockFor f = 15 * minute * p" if "p = 2 ^ nat (min (f - 5) 6)" for p f
    using pow [OF that] unfolding lockFor_def that [symmetric] by (subst wrap64_id) (simp_all add: minute_def hour_def)
  show "15 * minute \<le> lockFor f \<and> lockFor f \<le> 16 * hour" if "5 \<le> f"
    using val [OF refl, of f] pow [OF refl, of f] by (simp add: minute_def hour_def)
  show "lockFor f = 16 * hour" if "11 \<le> f"
    using val [OF refl, of f] that by (simp add: minute_def hour_def min_def)
qed

text \<open>All guesses wrong, the clock not running backwards: each guess past the tenth costs sixteen hours.\<close>

lemma wrongGuesses_time:
  assumes "fmlookup m a = Some r" and "0 \<le> siFails r"
    and "\<forall>x\<in>set tries. authHash sha (snd x) \<noteq> siAuthHash r"
    and "sorted (map fst tries)" and "\<forall>x\<in>set tries. t0 \<le> fst x \<and> fst x \<le> t1"
    and "wrongGuesses sha a tries m \<noteq> []"
  shows "max t0 (siLockedTil r) + 16 * hour * max 0 (siFails r + int (length (wrongGuesses sha a tries m)) - 1 - max (siFails r) 10) \<le> t1"
  using assms
proof (induction tries arbitrary: m r t0)
  case Nil
  then show ?case by simp
next
  case (Cons x tries)
  obtain now auth where x: "x = (now, auth)" by (cases x)
  have later: "\<forall>x\<in>set tries. now \<le> fst x \<and> fst x \<le> t1" and sorted: "sorted (map fst tries)"
    and t: "t0 \<le> now" "now \<le> t1" using Cons.prems(4,5) x by auto
  show ?case
  proof (cases "now < siLockedTil r")
    case True
    then have g: "wrongGuesses sha a (x # tries) m = wrongGuesses sha a tries m"
      using Cons.prems(1) x by (simp add: openStep_def)
    have "max now (siLockedTil r) + 16 * hour * max 0 (siFails r + int (length (wrongGuesses sha a tries m)) - 1 - max (siFails r) 10) \<le> t1"
      using Cons.prems g later sorted by (intro Cons.IH) auto
    then show ?thesis using t unfolding g by simp
  next
    case False
    define f where "f = siFails r + 1"
    define r' where "r' = (if f \<ge> 5 then r\<lparr>siFails := f, siLockedTil := now + lockFor f\<rparr> else r\<lparr>siFails := f\<rparr>)"
    have g: "wrongGuesses sha a (x # tries) m = now # wrongGuesses sha a tries (fmupd a r' m)"
      using False Cons.prems(1,3) x by (auto simp: openStep_def r'_def f_def Let_def)
    have r': "siFails r' = f" "siAuthHash r' = siAuthHash r" "f \<ge> 11 \<Longrightarrow> siLockedTil r' = now + 16 * hour"
      by (simp_all add: r'_def lockFor_late)
    show ?thesis
    proof (cases "wrongGuesses sha a tries (fmupd a r' m) = []")
      case True
      then show ?thesis using False t unfolding g by simp
    next
      case nonempty: False
      have "max now (siLockedTil r') + 16 * hour * max 0 (f + int (length (wrongGuesses sha a tries (fmupd a r' m))) - 1 - max f 10) \<le> t1"
        using Cons.IH [of "fmupd a r' m" r' now] nonempty later sorted Cons.prems(2,3) r' by (simp add: f_def)
      moreover have "0 < length (wrongGuesses sha a tries (fmupd a r' m))" using nonempty by simp
      ultimately show ?thesis using False t r'(3) Cons.prems(2) unfolding g f_def
        by (cases "siFails r + 1 \<ge> 11") (simp_all add: max_def hour_def minute_def split: if_splits)
    qed
  qed
qed

subsection \<open>Properties\<close>

text \<open>
  Guessing a sign-in token. While the server runs, whoever does not know the token gets at most
  eleven tokens compared, plus one for every sixteen hours, whatever they send and when; and no lock
  lasts longer than sixteen hours (the day that caps it is never reached).
\<close>

theorem signin_guesses_bounded:
  assumes "fmlookup m a = Some r" and "siFails r = 0"
    and "\<forall>x\<in>set tries. authHash sha (snd x) \<noteq> siAuthHash r"
    and "sorted (map fst tries)" and "\<forall>x\<in>set tries. t0 \<le> fst x \<and> fst x \<le> t1" and "t0 \<le> t1"
  shows "int (length (wrongGuesses sha a tries m)) \<le> 11 + (t1 - t0) div (16 * hour) \<and>
    (\<forall>f. 5 \<le> f \<longrightarrow> lockFor f \<le> 16 * hour)"
proof -
  have "int (length (wrongGuesses sha a tries m)) \<le> 11 + (t1 - t0) div (16 * hour)"
  proof (cases "wrongGuesses sha a tries m = []")
    case True
    have "0 \<le> (t1 - t0) div (16 * hour)" using assms(6) by (intro div_int_pos_iff [THEN iffD2]) (simp add: hour_def minute_def)
    then show ?thesis using True by simp
  next
    case False
    let ?n = "int (length (wrongGuesses sha a tries m))"
    have "16 * hour * max 0 (?n - 11) \<le> t1 - t0"
      using wrongGuesses_time [OF assms(1) _ assms(3-5) False] assms(2) by simp
    then have "max 0 (?n - 11) \<le> (t1 - t0) div (16 * hour)"
      using zdiv_mono1 [of "16 * hour * max 0 (?n - 11)" "t1 - t0" "16 * hour"] by (simp add: hour_def minute_def)
    then show ?thesis by simp
  qed
  then show ?thesis using lockFor_range by blast
qed

lemma openSignIn_wrong:
  assumes "signInFor d username = Inr a" and "\<And>r. fmlookup (soData s) a = Some r \<Longrightarrow> siAuthHash r \<noteq> authHash sha auth"
  shows "soDisk (fst (openSignIn sha fault now d username auth s)) = soDisk s"
    and "soData (fst (openSignIn sha fault now d username auth s)) = fst (openStep sha auth now a (soData s))"
proof -
  have "\<exists>m' st e. openStep sha auth now a (soData s) = (m', Inl (st, e))"
  proof (cases "fmlookup (soData s) a")
    case (Some r)
    then show ?thesis using assms(2) [OF Some] by (cases "now < siLockedTil r") (simp_all add: openStep_def Let_def)
  qed (simp add: openStep_def)
  then obtain m' st e where "openStep sha auth now a (soData s) = (m', Inl (st, e))" by blast
  then show "soDisk (fst (openSignIn sha fault now d username auth s)) = soDisk s"
    and "soData (fst (openSignIn sha fault now d username auth s)) = fst (openStep sha auth now a (soData s))"
    using assms(1) by (simp_all add: openSignIn_def Update_def Let_def)
qed

text \<open>
  Wrong guesses are not saved. The update of a wrong attempt returns an error, so the store is not
  written: after any run of wrong attempts a restart forgets them all, lock included.
\<close>

theorem restart_forgets_guesses:
  assumes "signInFor d username = Inr a" and "soDisk s = Some (soData s)" and "fmlookup (soData s) a = Some r"
    and "\<forall>x\<in>set tries. authHash sha (snd x) \<noteq> siAuthHash r"
  shows "reopen fmempty (foldl (\<lambda>s (now, auth). fst (openSignIn sha fault now d username auth s)) s tries) = s"
proof -
  have "soDisk (foldl (\<lambda>s (now, auth). fst (openSignIn sha fault now d username auth s)) s tries) = soDisk s"
    if "fmlookup (soData s) a = Some r'" "siAuthHash r' = siAuthHash r" for r' s
    using that assms(4)
  proof (induction tries arbitrary: s r')
    case Nil
    then show ?case by simp
  next
    case (Cons x tries)
    obtain now auth where x: "x = (now, auth)" by (cases x)
    let ?s = "fst (openSignIn sha fault now d username auth s)"
    have wrong: "\<And>r. fmlookup (soData s) a = Some r \<Longrightarrow> siAuthHash r \<noteq> authHash sha auth" using Cons.prems x by auto
    have step: "soDisk ?s = soDisk s" "soData ?s = fst (openStep sha auth now a (soData s))"
      using openSignIn_wrong [OF assms(1)] wrong by blast+
    obtain r'' where "fmlookup (soData ?s) a = Some r''" "siAuthHash r'' = siAuthHash r"
      using Cons.prems(1,2) wrong [OF Cons.prems(1)] by (cases "now < siLockedTil r'") (auto simp: step(2) openStep_def Let_def)
    then show ?case using Cons.IH [of ?s r''] Cons.prems(3) step(1) x by simp
  qed
  then show ?thesis using assms(2,3) by (simp add: reopen_def)
qed

definition toy_signin :: SignIn where
  "toy_signin = \<lparr>siSalt = ''s'', siIV = ''i'', siCT = ''c'', siAuthHash = ''h'', siFails = 0, siLockedTil = zeroTime, siUpdatedAt = 0\<rparr>"

lemma toy_signin_wrong: "authHash (\<lambda>x. ''z'') guess \<noteq> siAuthHash toy_signin"
  by (simp add: authHash_def toy_signin_def hex_encode_def)

theorem signin_guesses_bounded_witness:
  "length (wrongGuesses (\<lambda>x. ''z'') ''k1'' (replicate 30 (0, ''guess'')) (fmupd ''k1'' toy_signin fmempty)) \<le> 11"
  using signin_guesses_bounded [of "fmupd ''k1'' toy_signin fmempty" "''k1''" toy_signin "replicate 30 (0, ''guess'')" "\<lambda>x. ''z''" 0 0]
    toy_signin_wrong [of "''guess''"] by (simp add: toy_signin_def sorted_replicate)

theorem restart_forgets_guesses_witness:
  "siLockedTil (the (fmlookup (soData (reopen fmempty (foldl (\<lambda>s (now, auth). fst (openSignIn (\<lambda>x. ''z'') None now toy_directory ''@bola'' auth s))
     \<lparr>soData = fmupd ''k2'' toy_signin fmempty, soDisk = Some (fmupd ''k2'' toy_signin fmempty)\<rparr> (replicate 9 (0, ''guess''))))) ''k2'')) = zeroTime"
proof -
  have "signInFor toy_directory ''@bola'' = Inr ''k2''"
    using toy_directory_names by (simp add: signInFor_def TrimSpace_def is_space_def to_lower_def trimPrefix_def)
  then show ?thesis
    using restart_forgets_guesses [of toy_directory "''@bola''" "''k2''"
        "\<lparr>soData = fmupd ''k2'' toy_signin fmempty, soDisk = Some (fmupd ''k2'' toy_signin fmempty)\<rparr>" toy_signin "replicate 9 (0, ''guess'')" "\<lambda>x. ''z''" None]
      toy_signin_wrong [of "''guess''"] by (simp add: toy_signin_def)
qed

end
