(* ===== verification/Orpay_Phones.thy ===== *)
theory Orpay_Phones
  imports Orpay_Signin
begin

text \<open>
  Phone numbers and guardian recovery in the orPay backend: apps/orpay/backend/phone.go. A number is
  linked to a wallet, or a recovery started for it, with a six-digit code sent by SMS; codes expire, are
  used once and allow five guesses. After a recovery the number and the name follow the wallet to its
  new key.

  HMAC, the SMS sender, random values and the node's answers are parameters. Each store update is
  atomic; a handler that makes two is their composition.
\<close>

subsection \<open>Numbers\<close>

text \<open>The regular expression \<open>^\+[1-9]\d{9,14}$\<close>.\<close>

definition phoneRe :: "string \<Rightarrow> bool" where
  "phoneRe s \<longleftrightarrow> 11 \<le> length s \<and> length s \<le> 16 \<and> hd s = CHR ''+'' \<and> list_all is_digit (tl s) \<and> hd (tl s) \<noteq> CHR ''0''"

definition startsWith :: "string \<Rightarrow> string \<Rightarrow> bool" where
  "startsWith p s \<longleftrightarrow> take (length p) s = p"

definition normalizePhone :: "string \<Rightarrow> err + string" where
  "normalizePhone raw =
     (let p1 = filter (\<lambda>c. c \<notin> {CHR '' '', CHR ''-'', CHR ''('', CHR '')''}) (TrimSpace raw);
          p2 = (if startsWith ''0'' p1 \<and> length p1 = 11 then ''+234'' @ tl p1 else p1);
          p3 = (if startsWith ''234'' p2 then CHR ''+'' # p2 else p2)
      in if phoneRe p3 then Inr p3 else Inl (Err ''enter a phone number like 0803 123 4567 or +2348031234567''))"

text \<open>The bullet is three bytes of UTF-8.\<close>

definition maskPhone :: "string \<Rightarrow> string" where
  "maskPhone p =
     (if length p < 8 then p
      else take 4 p @ concat (replicate (length p - 8) [CHR 0xE2, CHR 0x80, CHR 0xA2]) @ drop (length p - 4) p)"

subsection \<open>State\<close>

record Otp =
  opPhone :: string
  opPurpose :: string
  opAddress :: addr
  opCodeHash :: string
  opExpires :: int
  opTries :: int

record RecoveryRequest =
  rrID :: string
  rrAccount :: addr
  rrNewOwner :: addr
  rrPhone :: string
  rrCreatedAt :: int

record PhoneData =
  pdPhones :: "(string, addr) fmap"
  pdOTPs :: "(string, Otp) fmap"
  pdRequests :: "(string, RecoveryRequest) fmap"
  pdSent :: "(string, int list) fmap"

definition codeHash :: "(bytes \<Rightarrow> bytes \<Rightarrow> bytes) \<Rightarrow> bytes \<Rightarrow> string \<Rightarrow> string" where
  "codeHash hmac secret code = hex_encode (hmac secret (''otp|'' @ code))"

subsection \<open>Codes\<close>

text \<open>
  The update of \<open>startPhone\<close>. \<open>slices.DeleteFunc\<close> works in place: when there were too many sends, the
  list keeps its length with zero times at its end.
\<close>

definition sendStep :: "int \<Rightarrow> string \<Rightarrow> string \<Rightarrow> string \<Rightarrow> addr \<Rightarrow> string \<Rightarrow> PhoneData \<Rightarrow> PhoneData \<times> err option" where
  "sendStep now oid phone purpose a hash d =
     (let sent = getd [] (pdSent d) phone;
          recent = filter (\<lambda>t. \<not> subTime now t > hour) sent
      in if length recent \<ge> 5
         then (d\<lparr>pdSent := fmupd phone (recent @ replicate (length sent - length recent) zeroTime) (pdSent d)\<rparr>,
               Some (Err ''too many codes sent to this number; try again in an hour''))
         else (d\<lparr>pdSent := fmupd phone (recent @ [now]) (pdSent d),
                 pdOTPs := fmupd oid \<lparr>opPhone = phone, opPurpose = purpose, opAddress = a, opCodeHash = hash,
                     opExpires = now + 10 * minute, opTries = 0\<rparr>
                   (fmfilter (\<lambda>k. \<not> now > opExpires (the (fmlookup (pdOTPs d) k))) (pdOTPs d))\<rparr>, None))"

text \<open>\<open>startPhone\<close>: \<open>oid\<close> and the number \<open>n\<close> below a million are random, \<open>sms\<close> sends a text.\<close>

definition startPhone :: "(bytes \<Rightarrow> bytes \<Rightarrow> bytes) \<Rightarrow> bytes \<Rightarrow> (string \<Rightarrow> string \<Rightarrow> err option) \<Rightarrow> bool \<Rightarrow> err option \<Rightarrow> int \<Rightarrow> string \<Rightarrow> nat \<Rightarrow>
    string \<Rightarrow> string \<Rightarrow> addr \<Rightarrow> PhoneData Store \<Rightarrow> PhoneData Store \<times> (string \<times> string \<times> string option) response" where
  "startPhone hmac secret sms devOTP fault now oid n raw purpose a s =
     (case normalizePhone raw of Inl e \<Rightarrow> (s, writeErr 400 e)
      | Inr phone \<Rightarrow>
        if purpose = ''recover'' \<and> fmlookup (pdPhones (soData s)) phone = None
        then (s, writeErr 404 (Err ''no wallet is linked to this number''))
        else (let code = pad6 n in
          case Update fault (sendStep now oid phone purpose a (codeHash hmac secret code)) s of
            (s', Some e) \<Rightarrow> (s', writeErr 429 e)
          | (s', None) \<Rightarrow>
            (case sms phone (''Your ORPay code is '' @ code @ ''. It expires in 10 minutes. Never share it.'') of
               Some e \<Rightarrow> (s', writeErr 502 (Wrap ''could not send SMS'' e))
             | None \<Rightarrow> (s', writeJSON 201 (oid, maskPhone phone, if devOTP then Some code else None)))))"

text \<open>\<open>checkOTP\<close> verifies and consumes a code.\<close>

definition otpStep :: "(bytes \<Rightarrow> bytes \<Rightarrow> bytes) \<Rightarrow> bytes \<Rightarrow> int \<Rightarrow> string \<Rightarrow> string \<Rightarrow> string \<Rightarrow> PhoneData \<Rightarrow> PhoneData \<times> (err + Otp)" where
  "otpStep hmac secret now oid code purpose d =
     (case fmlookup (pdOTPs d) oid of
        None \<Rightarrow> (d, Inl (Err ''this code has expired; request a new one''))
      | Some o1 \<Rightarrow>
        if opPurpose o1 \<noteq> purpose \<or> now > opExpires o1 then (d, Inl (Err ''this code has expired; request a new one''))
        else (let o2 = o1\<lparr>opTries := opTries o1 + 1\<rparr> in
          if opTries o2 > 5 then (d\<lparr>pdOTPs := fmdrop oid (pdOTPs d)\<rparr>, Inl (Err ''too many wrong codes; request a new one''))
          else if opCodeHash o2 \<noteq> codeHash hmac secret (TrimSpace code)
          then (d\<lparr>pdOTPs := fmupd oid o2 (pdOTPs d)\<rparr>, Inl (Err ''wrong code''))
          else (d\<lparr>pdOTPs := fmdrop oid (pdOTPs d)\<rparr>, Inr o2)))"

definition checkOTP :: "(bytes \<Rightarrow> bytes \<Rightarrow> bytes) \<Rightarrow> bytes \<Rightarrow> err option \<Rightarrow> int \<Rightarrow> string \<Rightarrow> string \<Rightarrow> string \<Rightarrow> PhoneData Store \<Rightarrow> PhoneData Store \<times> (err + Otp)" where
  "checkOTP hmac secret fault now oid code purpose s =
     (let (d, out) = otpStep hmac secret now oid code purpose (soData s);
          (s', e) = Update fault (\<lambda>_. (d, case out of Inl e \<Rightarrow> Some e | Inr _ \<Rightarrow> None)) s
      in (s', case e of Some e \<Rightarrow> Inl e | None \<Rightarrow> out))"

subsection \<open>Linking a number\<close>

definition linkStep :: "string \<Rightarrow> addr \<Rightarrow> PhoneData \<Rightarrow> PhoneData \<times> err option" where
  "linkStep phone me d =
     (case fmlookup (pdPhones d) phone of
        Some owner \<Rightarrow>
          if owner \<noteq> me then (d, Some (Err ''this number is linked to another wallet''))
          else (d\<lparr>pdPhones := fmupd phone me (fmfilter (\<lambda>p. fmlookup (pdPhones d) p \<noteq> Some me) (pdPhones d))\<rparr>, None)
      | None \<Rightarrow> (d\<lparr>pdPhones := fmupd phone me (fmfilter (\<lambda>p. fmlookup (pdPhones d) p \<noteq> Some me) (pdPhones d))\<rparr>, None))"

definition verifyLink :: "(bytes \<Rightarrow> bytes \<Rightarrow> bytes) \<Rightarrow> bytes \<Rightarrow> err option \<Rightarrow> err option \<Rightarrow> int \<Rightarrow> addr \<Rightarrow> string \<Rightarrow> string \<Rightarrow> PhoneData Store \<Rightarrow>
    PhoneData Store \<times> string response" where
  "verifyLink hmac secret fault1 fault2 now me oid code s =
     (case checkOTP hmac secret fault1 now oid code ''link'' s of
        (s1, Inl e) \<Rightarrow> (s1, writeErr 400 e)
      | (s1, Inr o1) \<Rightarrow>
        if opAddress o1 \<noteq> me then (s1, writeErr 403 (Err ''this code was for a different wallet''))
        else case Update fault2 (linkStep (opPhone o1) me) s1 of
          (s2, Some e) \<Rightarrow> (s2, writeErr 409 e)
        | (s2, None) \<Rightarrow> (s2, writeJSON 200 (maskPhone (opPhone o1))))"

subsection \<open>Recovery\<close>

record RecoverReply =
  rvAccount :: addr
  rvNewOwner :: addr
  rvGuardians :: "addr list"
  rvThreshold :: int
  rvDelaySecs :: int

text \<open>\<open>verifyRecover\<close>: the node's recovery record of an account is an argument; the last component is who is notified.\<close>

definition verifyRecover :: "(bytes \<Rightarrow> bytes \<Rightarrow> bytes) \<Rightarrow> bytes \<Rightarrow> err option \<Rightarrow> err option \<Rightarrow> int \<Rightarrow> (addr \<Rightarrow> err + RecoveryInfo) \<Rightarrow> string \<Rightarrow>
    string \<Rightarrow> string \<Rightarrow> addr \<Rightarrow> PhoneData Store \<Rightarrow> PhoneData Store \<times> RecoverReply response \<times> addr list" where
  "verifyRecover hmac secret fault1 fault2 now node rnd oid code newOwner s =
     (case Validate newOwner of Some e \<Rightarrow> (s, writeErr 400 (Wrap ''new key'' e), [])
      | None \<Rightarrow>
        (case checkOTP hmac secret fault1 now oid code ''recover'' s of
           (s1, Inl e) \<Rightarrow> (s1, writeErr 400 e, [])
         | (s1, Inr o1) \<Rightarrow>
           (let account = getd '''' (pdPhones (soData s1)) (opPhone o1);
                refused = (s1, writeErr 409 (Err ''this wallet has no guardians set up, so it cannot be recovered this way''), [])
            in case node account of Inl e \<Rightarrow> refused
               | Inr info \<Rightarrow>
                 (case riGuardianship info of None \<Rightarrow> refused
                  | Some g \<Rightarrow>
                    (let rr = \<lparr>rrID = ''rec_'' @ rnd, rrAccount = account, rrNewOwner = newOwner, rrPhone = opPhone o1, rrCreatedAt = now\<rparr>;
                         s2 = fst (Update fault2 (\<lambda>d. (d\<lparr>pdRequests := fmupd (rrID rr) rr (pdRequests d)\<rparr>, None)) s1)
                     in (s2, writeJSON 201 \<lparr>rvAccount = account, rvNewOwner = newOwner, rvGuardians = gGuardians g,
                           rvThreshold = gThreshold g, rvDelaySecs = gDelaySecs g\<rparr>, gGuardians g @ [account]))))))"

text \<open>\<open>guardianRequests\<close>, ranging over the requests in \<open>order\<close>; an unreachable node counts as guarding nobody.\<close>

definition guardianRequests :: "int \<Rightarrow> err + RecoveryInfo \<Rightarrow> (addr \<Rightarrow> string) \<Rightarrow> string list \<Rightarrow> PhoneData Store \<Rightarrow> (RecoveryRequest \<times> string \<times> string) list response" where
  "guardianRequests now info nameOrShort order s =
     (let guarding = (case info of Inl _ \<Rightarrow> [] | Inr i \<Rightarrow> riGuarding i)
      in writeJSON 200 (map (\<lambda>rr. (rr, maskPhone (rrPhone rr), nameOrShort (rrAccount rr)))
           (filter (\<lambda>rr. rrAccount rr \<in> set guarding \<and> subTime now (rrCreatedAt rr) < 14 * 24 * hour)
             (List.map_filter (fmlookup (pdRequests (soData s))) order))))"

definition resolvePhone :: "Directory \<Rightarrow> string \<Rightarrow> PhoneData Store \<Rightarrow> (addr \<times> string option) response" where
  "resolvePhone d raw s =
     (case normalizePhone raw of Inl e \<Rightarrow> writeErr 400 e
      | Inr phone \<Rightarrow>
        (let a = getd '''' (pdPhones (soData s)) phone in
         if a = '''' then writeErr 404 (Err ''no ORPay wallet uses this number'')
         else writeJSON 200 (a, byAddress d a)))"

text \<open>\<open>migrateIdentity\<close>: number, sign-in record and name, each in its own store.\<close>

definition movePhones :: "addr \<Rightarrow> addr \<Rightarrow> PhoneData \<Rightarrow> PhoneData" where
  "movePhones old me d = d\<lparr>pdPhones := fmmap (\<lambda>a. if a = old then me else a) (pdPhones d)\<rparr>"

definition migrateIdentity :: "err option \<Rightarrow> err option \<Rightarrow> err option \<Rightarrow> err + RecoveryInfo \<Rightarrow> addr \<Rightarrow> addr \<Rightarrow>
    PhoneData Store \<times> SignIns Store \<times> Directory \<Rightarrow> (PhoneData Store \<times> SignIns Store \<times> Directory) \<times> string option response" where
  "migrateIdentity f1 f2 f3 info me old w =
     (case w of (ps, ss, d) \<Rightarrow>
       (case info of Inl e \<Rightarrow> (w, writeErr 403 (Err ''the chain does not show this wallet recovered to you''))
        | Inr i \<Rightarrow>
          if riRecoveredTo i \<noteq> me then (w, writeErr 403 (Err ''the chain does not show this wallet recovered to you''))
          else ((fst (Update f1 (\<lambda>d. (movePhones old me d, None)) ps),
                 fst (Update f2 (\<lambda>m. (fmdrop old m, None)) ss), migrateName f3 old me d),
                writeJSON 200 (if byAddress d me = None then byAddress d old else None))))"

definition myPhone :: "addr \<Rightarrow> string list \<Rightarrow> PhoneData Store \<Rightarrow> string response" where
  "myPhone me order s =
     writeJSON 200 (maskPhone (foldl (\<lambda>phone p. if fmlookup (pdPhones (soData s)) p = Some me then p else phone) '''' order))"

subsection \<open>Guessing codes\<close>

text \<open>A run of \<open>checkOTP\<close> calls, with the outcomes of those for one code.\<close>

fun checkRun :: "(bytes \<Rightarrow> bytes \<Rightarrow> bytes) \<Rightarrow> bytes \<Rightarrow> string \<Rightarrow> (err option \<times> int \<times> string \<times> string \<times> string) list \<Rightarrow> PhoneData Store \<Rightarrow> (err + Otp) list" where
  "checkRun hmac secret oid [] s = []"
| "checkRun hmac secret oid ((fault, now, oid', code, purpose) # rest) s =
     (let out = snd (otpStep hmac secret now oid' code purpose (soData s));
          outs = checkRun hmac secret oid rest (fst (checkOTP hmac secret fault now oid' code purpose s))
      in if oid' = oid then out # outs else outs)"

text \<open>The outcomes for which the code itself was compared.\<close>

definition compared :: "err + Otp \<Rightarrow> bool" where
  "compared out \<longleftrightarrow> \<not> isl out \<or> out = Inl (Err ''wrong code'')"

lemma checkOTP_data [simp]:
  "soData (fst (checkOTP hmac secret fault now oid code purpose s)) = fst (otpStep hmac secret now oid code purpose (soData s))"
  by (simp add: checkOTP_def split_beta Let_def)

lemma otpStep_other: "oid' \<noteq> oid \<Longrightarrow> fmlookup (pdOTPs (fst (otpStep hmac secret now oid' code purpose d))) oid = fmlookup (pdOTPs d) oid"
  by (auto simp: otpStep_def Let_def split: option.split)

lemma otpStep_outcomes:
  obtains (same) e where "e \<noteq> Err ''wrong code''" "snd (otpStep hmac secret now oid code purpose d) = Inl e" "fst (otpStep hmac secret now oid code purpose d) = d"
  | (used) "fmlookup (pdOTPs (fst (otpStep hmac secret now oid code purpose d))) oid = None"
      "compared (snd (otpStep hmac secret now oid code purpose d)) \<Longrightarrow> \<exists>o1. fmlookup (pdOTPs d) oid = Some o1 \<and> opTries o1 < 5"
  | (wrong) o1 where "fmlookup (pdOTPs d) oid = Some o1" "opTries o1 < 5" "snd (otpStep hmac secret now oid code purpose d) = Inl (Err ''wrong code'')"
      "fmlookup (pdOTPs (fst (otpStep hmac secret now oid code purpose d))) oid = Some (o1\<lparr>opTries := opTries o1 + 1\<rparr>)"
proof (cases "fmlookup (pdOTPs d) oid")
  case None
  then show ?thesis by (intro same [of "Err ''this code has expired; request a new one''"]) (simp_all add: otpStep_def)
next
  case (Some o1)
  show ?thesis
  proof (cases "opPurpose o1 \<noteq> purpose \<or> now > opExpires o1")
    case True
    then show ?thesis using Some by (intro same [of "Err ''this code has expired; request a new one''"]) (simp_all add: otpStep_def)
  next
    case False
    show ?thesis
    proof (cases "opTries o1 + 1 > 5")
      case True
      then show ?thesis using Some False by (intro used) (simp_all add: otpStep_def compared_def Let_def)
    next
      case few: False
      show ?thesis
      proof (cases "opCodeHash o1 = codeHash hmac secret (TrimSpace code)")
        case True
        then show ?thesis using Some False few by (intro used) (simp_all add: otpStep_def Let_def)
      next
        case wr: False
        then show ?thesis using Some False few by (intro wrong [OF Some]) (simp_all add: otpStep_def Let_def)
      qed
    qed
  qed
qed

lemma checkRun_none:
  "fmlookup (pdOTPs (soData s)) oid = None \<Longrightarrow> filter compared (checkRun hmac secret oid tries s) = []"
proof (induction tries arbitrary: s)
  case Nil
  then show ?case by simp
next
  case (Cons x tries)
  obtain fault now oid' code purpose where x: "x = (fault, now, oid', code, purpose)" by (cases x)
  have "fmlookup (pdOTPs (fst (otpStep hmac secret now oid' code purpose (soData s)))) oid = None"
    using Cons.prems by (cases "oid' = oid") (simp_all add: otpStep_other, simp add: otpStep_def)
  moreover have "\<not> compared (snd (otpStep hmac secret now oid code purpose (soData s)))"
    using Cons.prems by (simp add: otpStep_def compared_def)
  ultimately show ?case using Cons.IH x by (cases "oid' = oid") (simp_all add: Let_def)
qed

lemma checkRun_bound:
  assumes "fmlookup (pdOTPs (soData s)) oid = Some o1" and "0 \<le> opTries o1"
  shows "int (length (filter compared (checkRun hmac secret oid tries s))) \<le> max 0 (5 - opTries o1) \<and>
    length (filter (\<lambda>x. \<not> isl x) (checkRun hmac secret oid tries s)) \<le> 1"
  using assms
proof (induction tries arbitrary: s o1)
  case Nil
  then show ?case by simp
next
  case (Cons x tries)
  obtain fault now oid' code purpose where x: "x = (fault, now, oid', code, purpose)" by (cases x)
  let ?s = "fst (checkOTP hmac secret fault now oid' code purpose s)"
  have none: "filter (\<lambda>x. \<not> isl x) (checkRun hmac secret oid tries t) = []" if "fmlookup (pdOTPs (soData t)) oid = None" for t
    using checkRun_none [OF that, of hmac secret tries] by (auto simp: filter_empty_conv compared_def)
  show ?case
  proof (cases "oid' = oid")
    case False
    then show ?thesis using Cons.IH [of ?s o1] Cons.prems x by (simp add: otpStep_other)
  next
    case True
    show ?thesis
    proof (cases rule: otpStep_outcomes [of hmac secret now oid code purpose "soData s"])
      case (same e)
      then show ?thesis using Cons.IH [of ?s o1] Cons.prems x True by (simp add: compared_def)
    next
      case used
      then show ?thesis using checkRun_none [of ?s oid hmac secret tries] none [of ?s] Cons.prems x True
        by (cases "compared (snd (otpStep hmac secret now oid code purpose (soData s)))") auto
    next
      case (wrong o2)
      then show ?thesis using Cons.IH [of ?s "o1\<lparr>opTries := opTries o1 + 1\<rparr>"] Cons.prems x True
        by (simp add: compared_def)
    qed
  qed
qed

subsection \<open>Properties\<close>

text \<open>
  C30: an SMS code. Whoever tries codes against one that was sent, in any way, gets at most five of them
  compared and at most one accepted, while the server runs.
\<close>

theorem otp_guesses_bounded:
  assumes "fmlookup (pdOTPs (soData s)) oid = Some o1" and "opTries o1 = 0"
  shows "length (filter compared (checkRun hmac secret oid tries s)) \<le> 5 \<and>
    length (filter (\<lambda>x. \<not> isl x) (checkRun hmac secret oid tries s)) \<le> 1"
  using checkRun_bound [OF assms(1), of hmac secret tries] assms(2) by simp

lemma otpStep_Inr:
  assumes "otpStep hmac secret now oid code purpose d = (d', Inr o2)"
  shows "\<exists>o1. fmlookup (pdOTPs d) oid = Some o1 \<and> opPurpose o1 = purpose \<and> now \<le> opExpires o1 \<and> opTries o1 < 5 \<and>
    opCodeHash o1 = codeHash hmac secret (TrimSpace code) \<and> o2 = o1\<lparr>opTries := opTries o1 + 1\<rparr> \<and>
    d' = d\<lparr>pdOTPs := fmdrop oid (pdOTPs d)\<rparr>"
  using assms by (auto simp: otpStep_def Let_def split: option.splits if_splits)

lemma checkOTP_Inr:
  assumes "checkOTP hmac secret fault now oid code purpose s = (s', Inr o2)"
  shows "otpStep hmac secret now oid code purpose (soData s) = (soData s', Inr o2)"
proof -
  obtain d out where o: "otpStep hmac secret now oid code purpose (soData s) = (d, out)" by (cases "otpStep hmac secret now oid code purpose (soData s)")
  have "soData s' = d" using checkOTP_data [of hmac secret fault now oid code purpose s] assms o by simp
  moreover have "out = Inr o2" using assms o by (cases out) (auto simp: checkOTP_def Update_def split_beta Let_def split: option.splits)
  ultimately show ?thesis using o by simp
qed

text \<open>
  C31: linking a number. A number is linked to a wallet only with the code that was sent to that number
  for that wallet, in time and within five tries, and not while it is another wallet's; afterwards it
  is the wallet's only number, the code is spent, and no other wallet's number changed.
\<close>

theorem phone_link_needs_code:
  assumes "verifyLink hmac secret fault1 fault2 now me oid code s = (s', 200, out)"
  shows "\<exists>o1. fmlookup (pdOTPs (soData s)) oid = Some o1 \<and> opPurpose o1 = ''link'' \<and> opAddress o1 = me \<and>
    now \<le> opExpires o1 \<and> opTries o1 < 5 \<and> opCodeHash o1 = codeHash hmac secret (TrimSpace code) \<and>
    fmlookup (pdPhones (soData s)) (opPhone o1) \<in> {None, Some me} \<and>
    fmlookup (pdOTPs (soData s')) oid = None \<and>
    (\<forall>p. fmlookup (pdPhones (soData s')) p = Some me \<longleftrightarrow> p = opPhone o1) \<and>
    (\<forall>p a. a \<noteq> me \<longrightarrow> fmlookup (pdPhones (soData s')) p = Some a \<longleftrightarrow> fmlookup (pdPhones (soData s)) p = Some a)"
proof -
  obtain s1 r where c: "checkOTP hmac secret fault1 now oid code ''link'' s = (s1, r)" by fastforce
  obtain o2 where r: "r = Inr o2" using assms c by (cases r) (auto simp: verifyLink_def writeErr_def)
  obtain o1 where o1: "fmlookup (pdOTPs (soData s)) oid = Some o1" "opPurpose o1 = ''link''" "now \<le> opExpires o1" "opTries o1 < 5"
    "opCodeHash o1 = codeHash hmac secret (TrimSpace code)" "o2 = o1\<lparr>opTries := opTries o1 + 1\<rparr>"
    and d1: "soData s1 = (soData s)\<lparr>pdOTPs := fmdrop oid (pdOTPs (soData s))\<rparr>"
    using otpStep_Inr [OF checkOTP_Inr [OF c [unfolded r]]] by blast
  have me: "opAddress o1 = me" using assms c r o1(6) by (auto simp: verifyLink_def writeErr_def split: if_splits)
  obtain s2 e where u: "Update fault2 (linkStep (opPhone o1) me) s1 = (s2, e)" by fastforce
  have e: "e = None" "s' = s2"
    using assms c r o1(6) me u by (cases e; simp add: verifyLink_def writeErr_def writeJSON_def)+
  have d2: "soData s' = fst (linkStep (opPhone o1) me (soData s1))" "snd (linkStep (opPhone o1) me (soData s1)) = None"
    using Update_None_snd [OF u [unfolded e(1)]] e(2) by auto
  have p1: "pdPhones (soData s1) = pdPhones (soData s)" by (simp add: d1)
  have free: "fmlookup (pdPhones (soData s)) (opPhone o1) \<in> {None, Some me}"
    using d2(2) by (auto simp: linkStep_def p1 split: option.splits if_splits)
  then have "soData s' = (soData s1)\<lparr>pdPhones := fmupd (opPhone o1) me (fmfilter (\<lambda>p. fmlookup (pdPhones (soData s)) p \<noteq> Some me) (pdPhones (soData s)))\<rparr>"
    using d2(1) unfolding linkStep_def p1 by auto
  then show ?thesis using o1 me free by (intro exI [of _ o1]) (auto simp: d1 split: if_splits)
qed

text \<open>
  Moving a wallet's number after a recovery does not look whether the new key already has one: then
  the wallet has two.
\<close>

theorem recovery_gives_second_number:
  assumes "riRecoveredTo i = me" and "fmlookup (pdPhones (soData ps)) p = Some old" and "fmlookup (pdPhones (soData ps)) q = Some me"
    and "migrateIdentity f1 f2 f3 (Inr i) me old (ps, ss, d) = ((ps', ss', d'), out)"
  shows "fmlookup (pdPhones (soData ps')) p = Some me \<and> fmlookup (pdPhones (soData ps')) q = Some me"
  using assms by (auto simp: migrateIdentity_def movePhones_def)

definition toy_otp :: Otp where
  "toy_otp = \<lparr>opPhone = ''+2348031234567'', opPurpose = ''link'', opAddress = ''k1'', opCodeHash = '''', opExpires = 600, opTries = 0\<rparr>"

definition toy_phones :: "PhoneData Store" where
  "toy_phones = \<lparr>soData = \<lparr>pdPhones = fmempty, pdOTPs = fmupd ''otp_1'' toy_otp fmempty, pdRequests = fmempty, pdSent = fmempty\<rparr>, soDisk = None\<rparr>"

lemma toy_phones_otp: "fmlookup (pdOTPs (soData toy_phones)) ''otp_1'' = Some toy_otp"
  by (simp add: toy_phones_def)

theorem otp_guesses_bounded_witness:
  "length (filter compared (checkRun (\<lambda>k x. x) '''' ''otp_1'' (replicate 20 (None, 5, ''otp_1'', ''123456'', ''link'')) toy_phones)) \<le> 5"
  using otp_guesses_bounded [OF toy_phones_otp, of "\<lambda>k x. x" "''''"] by (simp add: toy_otp_def)

lemma toy_link: "verifyLink (\<lambda>k x. []) '''' None None 5 ''k1'' ''otp_1'' ''123456'' toy_phones =
    (fst (verifyLink (\<lambda>k x. []) '''' None None 5 ''k1'' ''otp_1'' ''123456'' toy_phones), 200,
     snd (snd (verifyLink (\<lambda>k x. []) '''' None None 5 ''k1'' ''otp_1'' ''123456'' toy_phones)))"
  by (simp add: verifyLink_def checkOTP_def otpStep_def toy_phones_def toy_otp_def codeHash_def hex_encode_def Update_def
      WriteAtomic_def linkStep_def writeJSON_def Let_def)

theorem phone_link_needs_code_witness:
  "fmlookup (pdPhones (soData (fst (verifyLink (\<lambda>k x. []) '''' None None 5 ''k1'' ''otp_1'' ''123456'' toy_phones)))) ''+2348031234567'' = Some ''k1''"
proof -
  obtain o1 where o1: "fmlookup (pdOTPs (soData toy_phones)) ''otp_1'' = Some o1"
    and rest: "fmlookup (pdPhones (soData (fst (verifyLink (\<lambda>k x. []) '''' None None 5 ''k1'' ''otp_1'' ''123456'' toy_phones)))) (opPhone o1) = Some ''k1''"
    using phone_link_needs_code [OF toy_link] by blast
  have "opPhone o1 = ''+2348031234567''" using o1 unfolding toy_phones_otp by (auto simp: toy_otp_def)
  then show ?thesis using rest by metis
qed

end
