(* ===== verification/Orpay_Apps.thy ===== *)
theory Orpay_Apps
  imports Orpay_Phones
begin

text \<open>
  Partner apps of the orPay backend: apps/orpay/backend/apps.go and the checks of webhooks.go. A company
  asks for access with its wallet, an admin reviews it, the owner issues API keys (only a hash is kept)
  and changes settings; a server-to-server request is authenticated by its key.

  What the code takes from the Go library and cannot be written down here (regular expressions over
  Unicode classes, URL parsing, case folding, DNS) is a record of functions.
\<close>

subsection \<open>State\<close>

datatype AppStatus = AppPending | AppApproved | AppRejected | AppSuspended

record App =
  apID :: string
  apName :: string
  apWebsite :: string
  apContact :: string
  apDescription :: string
  apOwner :: addr
  apSettlement :: addr
  apStatus :: AppStatus
  apWebhookURL :: string
  apBrandName :: string
  apBrandColor :: string
  apLogoType :: string
  apLogoSource :: string
  apLogoAt :: int
  apEscrowPolicy :: string
  apArbiterAddr :: addr
  apCreatedAt :: int
  apReviewedAt :: int
  apReviewNote :: string
  apKeyHash :: string
  apKeyPrefix :: string
  apWebhookSecret :: string

type_synonym Apps = "(string, App) fmap"

text \<open>\<open>lbParseURL\<close> gives scheme, host and host name; \<open>lbPublic\<close> is \<open>publicIP\<close>'s test of an address.\<close>

record Lib =
  lbNameRe :: "string \<Rightarrow> bool"
  lbEqualFold :: "string \<Rightarrow> string \<Rightarrow> bool"
  lbParseURL :: "string \<Rightarrow> (string \<times> string \<times> string) option"
  lbLookupIP :: "string \<Rightarrow> err + string list"
  lbPublic :: "string \<Rightarrow> bool"

definition Arbiter :: "App \<Rightarrow> addr" where
  "Arbiter a = (if apArbiterAddr a \<noteq> '''' then apArbiterAddr a else apOwner a)"

record PublicApp =
  paID :: string
  paName :: string
  paWebsite :: string
  paStatus :: AppStatus
  paBrandName :: string
  paBrandColor :: string
  paHasLogo :: bool

definition publicView :: "App \<Rightarrow> PublicApp" where
  "publicView a = \<lparr>paID = apID a, paName = apName a, paWebsite = apWebsite a, paStatus = apStatus a,
     paBrandName = (if apBrandName a = '''' then apName a else apBrandName a), paBrandColor = apBrandColor a,
     paHasLogo = (apLogoType a \<noteq> '''' \<and> apStatus a = AppApproved)\<rparr>"

definition forOwner :: "App \<Rightarrow> App" where
  "forOwner a = a\<lparr>apKeyHash := ''''\<rparr>"

text \<open>The regular expression \<open>^#[0-9a-fA-F]{6}$\<close>.\<close>

definition colorRe :: "string \<Rightarrow> bool" where
  "colorRe s \<longleftrightarrow> length s = 7 \<and> hd s = CHR ''#'' \<and> list_all (\<lambda>c. hexval c \<noteq> None) (tl s)"

definition hashKey :: "(bytes \<Rightarrow> hash) \<Rightarrow> string \<Rightarrow> string" where
  "hashKey sha k = hex_encode (sha k)"

definition validURL :: "Lib \<Rightarrow> string \<Rightarrow> bool \<Rightarrow> err option" where
  "validURL lib raw requireHTTPS =
     (case lbParseURL lib raw of None \<Rightarrow> Some (Err ''is not a valid URL'')
      | Some (scheme, host, _) \<Rightarrow>
        if host = '''' \<or> (scheme \<noteq> ''https'' \<and> scheme \<noteq> ''http'') then Some (Err ''is not a valid URL'')
        else if requireHTTPS \<and> scheme \<noteq> ''https'' then Some (Err ''must use https'')
        else None)"

definition checkWebhookURL :: "Lib \<Rightarrow> bool \<Rightarrow> string \<Rightarrow> err option" where
  "checkWebhookURL lib privateHooks raw =
     (case validURL lib raw (\<not> privateHooks) of Some e \<Rightarrow> Some e
      | None \<Rightarrow>
        if privateHooks then None
        else (case lbLookupIP lib (snd (snd (the (lbParseURL lib raw)))) of
          Inl e \<Rightarrow> Some (Err ''webhook host does not resolve'')
        | Inr ips \<Rightarrow> if list_all (lbPublic lib) ips then None else Some (Err ''webhook must point to a public address'')))"

subsection \<open>Asking for access and review\<close>

record AppInput =
  aiName :: string
  aiWebsite :: string
  aiContact :: string
  aiDescription :: string
  aiSettlement :: addr

text \<open>\<open>requestApp\<close>; \<open>order\<close> is how Go ranges over the apps.\<close>

definition requestApp :: "Lib \<Rightarrow> err option \<Rightarrow> int \<Rightarrow> string \<Rightarrow> string list \<Rightarrow> addr \<Rightarrow> AppInput \<Rightarrow> Apps Store \<Rightarrow> Apps Store \<times> App response" where
  "requestApp lib fault now rnd order owner i s =
     (let name = TrimSpace (aiName i) in
      if \<not> lbNameRe lib name then (s, writeErr 400 (Err ''app name must be 2-40 letters, numbers, spaces or .&'-''))
      else if validURL lib (aiWebsite i) False \<noteq> None then (s, writeErr 400 (Err ''enter your website, e.g. https://yourapp.com''))
      else if CHR ''@'' \<notin> set (aiContact i) \<or> length (aiContact i) > 120 then (s, writeErr 400 (Err ''enter a contact email''))
      else if length (aiDescription i) > 1000 then (s, writeErr 400 (Err ''description is too long''))
      else case (if aiSettlement i = '''' then None else Validate (aiSettlement i)) of
        Some e \<Rightarrow> (s, writeErr 400 (Wrap ''settlement address'' e))
      | None \<Rightarrow>
        (let app = \<lparr>apID = ''app_'' @ rnd, apName = name, apWebsite = aiWebsite i, apContact = aiContact i, apDescription = aiDescription i,
               apOwner = owner, apSettlement = (if aiSettlement i = '''' then owner else aiSettlement i), apStatus = AppPending,
               apWebhookURL = '''', apBrandName = '''', apBrandColor = '''', apLogoType = '''', apLogoSource = '''', apLogoAt = zeroTime, apEscrowPolicy = '''',
               apArbiterAddr = '''', apCreatedAt = now, apReviewedAt = zeroTime, apReviewNote = '''', apKeyHash = '''', apKeyPrefix = '''',
               apWebhookSecret = ''''\<rparr>
         in case Update fault (\<lambda>m. if list_ex (\<lambda>k. case fmlookup m k of None \<Rightarrow> False | Some a \<Rightarrow> lbEqualFold lib (apName a) name) order
                  then (m, Some (Err ''an app with this name already exists'')) else (fmupd (apID app) app m, None)) s of
              (s', Some e) \<Rightarrow> (s', writeErr 409 e)
            | (s', None) \<Rightarrow> (s', writeJSON 201 (forOwner app))))"

definition listApps :: "addr list \<Rightarrow> string list \<Rightarrow> addr \<Rightarrow> Apps Store \<Rightarrow> (App list \<times> bool) response" where
  "listApps admins order me s =
     (let admin = me \<in> set admins;
          mine = filter (\<lambda>a. admin \<or> apOwner a = me) (List.map_filter (fmlookup (soData s)) order);
          shown = map (\<lambda>a. if apOwner a \<noteq> me then (forOwner a)\<lparr>apWebhookSecret := ''''\<rparr> else forOwner a) mine
      in writeJSON 200 (sort_key (\<lambda>a. - apCreatedAt a) shown, admin))"

definition publicApp :: "string \<Rightarrow> Apps Store \<Rightarrow> PublicApp response" where
  "publicApp aid s =
     (case fmlookup (soData s) aid of None \<Rightarrow> writeErr 404 (Err ''app not found'') | Some a \<Rightarrow> writeJSON 200 (publicView a))"

definition decisionStatus :: "string \<Rightarrow> AppStatus option" where
  "decisionStatus d = (if d = ''approve'' then Some AppApproved else if d = ''reject'' then Some AppRejected
     else if d = ''suspend'' then Some AppSuspended else None)"

definition reviewApp :: "addr list \<Rightarrow> err option \<Rightarrow> int \<Rightarrow> string \<Rightarrow> string \<Rightarrow> addr \<Rightarrow> string \<Rightarrow> string \<Rightarrow> Apps Store \<Rightarrow> Apps Store \<times> App response" where
  "reviewApp admins fault now rnd aid me decision note0 s =
     (if me \<notin> set admins then (s, writeErr 403 (Err ''only admins can review apps''))
      else case decisionStatus decision of None \<Rightarrow> (s, writeErr 400 (Err ''decision must be approve, reject or suspend''))
      | Some status \<Rightarrow>
        (case Update fault (\<lambda>m. case fmlookup m aid of None \<Rightarrow> (m, Some (Err ''app not found''))
                | Some a \<Rightarrow>
                  (let a1 = a\<lparr>apStatus := status, apReviewNote := note0, apReviewedAt := now\<rparr>;
                       a2 = (if status = AppApproved \<and> apWebhookSecret a1 = '''' then a1\<lparr>apWebhookSecret := ''whsec_'' @ rnd\<rparr> else a1)
                   in (fmupd aid a2 m, None))) s of
           (s', Some e) \<Rightarrow> (s', writeErr 404 e)
         | (s', None) \<Rightarrow> (s', writeJSON 200 ((the (fmlookup (soData s') aid))\<lparr>apKeyHash := '''', apWebhookSecret := ''''\<rparr>))))"

subsection \<open>The owner's operations\<close>

definition ownedApp :: "err option \<Rightarrow> string \<Rightarrow> addr \<Rightarrow> (App \<Rightarrow> App \<times> err option) \<Rightarrow> Apps Store \<Rightarrow> Apps Store \<times> err option" where
  "ownedApp fault aid me fn s =
     Update fault (\<lambda>m. case fmlookup m aid of None \<Rightarrow> (m, Some (Err ''app not found''))
       | Some a \<Rightarrow> if apOwner a \<noteq> me then (m, Some (Err ''app not found''))
                   else (case fn a of (a', e) \<Rightarrow> (fmupd aid a' m, e))) s"

definition rotateFn :: "(bytes \<Rightarrow> hash) \<Rightarrow> string \<Rightarrow> App \<Rightarrow> App \<times> err option" where
  "rotateFn sha key a =
     (if apStatus a \<noteq> AppApproved then (a, Some (Err ''keys are issued after approval''))
      else (a\<lparr>apKeyHash := hashKey sha key, apKeyPrefix := take 14 key\<rparr>, None))"

definition rotateKey :: "(bytes \<Rightarrow> hash) \<Rightarrow> err option \<Rightarrow> string \<Rightarrow> string \<Rightarrow> addr \<Rightarrow> Apps Store \<Rightarrow> Apps Store \<times> string response" where
  "rotateKey sha fault rnd aid me s =
     (let key = ''orp_sk_'' @ rnd in
      case ownedApp fault aid me (rotateFn sha key) s of
        (s', Some e) \<Rightarrow> (s', writeErr 400 e)
      | (s', None) \<Rightarrow> (s', writeJSON 201 key))"

record AppUpdate =
  auWebhookURL :: "string option"
  auSettlement :: "addr option"
  auArbiter :: "addr option"
  auBrandName :: "string option"
  auPolicy :: "string option"
  auWebsite :: "string option"
  auBrandColor :: "string option"

text \<open>
  \<open>updateApp\<close> changes the app in place, setting by setting, and returns at the first that is wrong.
\<close>

fun runSteps :: "(App \<Rightarrow> App \<times> err option) list \<Rightarrow> App \<Rightarrow> App \<times> err option" where
  "runSteps [] a = (a, None)"
| "runSteps (f # fs) a = (case f a of (a', Some e) \<Rightarrow> (a', Some e) | (a', None) \<Rightarrow> runSteps fs a')"

definition updateSteps :: "Lib \<Rightarrow> bool \<Rightarrow> AppUpdate \<Rightarrow> (App \<Rightarrow> App \<times> err option) list" where
  "updateSteps lib privateHooks u =
     [\<lambda>a. (case auWebhookURL u of None \<Rightarrow> (a, None)
        | Some url \<Rightarrow> (case (if url = '''' then None else checkWebhookURL lib privateHooks url) of
            Some e \<Rightarrow> (a, Some e) | None \<Rightarrow> (a\<lparr>apWebhookURL := url\<rparr>, None))),
      \<lambda>a. (case auWebsite u of None \<Rightarrow> (a, None)
        | Some site \<Rightarrow> if site = apWebsite a then (a, None)
            else if validURL lib site False \<noteq> None then (a, Some (Err ''enter your website, e.g. https://yourapp.com''))
            else (a\<lparr>apWebsite := site\<rparr>, None)),
      \<lambda>a. (case auPolicy u of None \<Rightarrow> (a, None)
        | Some p \<Rightarrow> if length p > 4000 then (a, Some (Err ''policy must be at most 4000 characters''))
            else (a\<lparr>apEscrowPolicy := TrimSpace p\<rparr>, None)),
      \<lambda>a. (case auBrandName u of None \<Rightarrow> (a, None)
        | Some b \<Rightarrow> (let n = TrimSpace b in
            if n \<noteq> '''' \<and> \<not> lbNameRe lib n then (a, Some (Err ''brand name must be 2-40 letters, numbers, spaces or .&'-''))
            else (a\<lparr>apBrandName := n\<rparr>, None))),
      \<lambda>a. (case auBrandColor u of None \<Rightarrow> (a, None)
        | Some c \<Rightarrow> if c \<noteq> '''' \<and> \<not> colorRe c then (a, Some (Err ''brand colour must look like #1a73e8''))
            else (a\<lparr>apBrandColor := map to_lower c\<rparr>, None)),
      \<lambda>a. (case auArbiter u of None \<Rightarrow> (a, None)
        | Some x \<Rightarrow> (case (if x = '''' then None else Validate x) of
            Some e \<Rightarrow> (a, Some (Wrap ''arbiter address'' e)) | None \<Rightarrow> (a\<lparr>apArbiterAddr := x\<rparr>, None))),
      \<lambda>a. (case auSettlement u of None \<Rightarrow> (a, None)
        | Some x \<Rightarrow> (case Validate x of
            Some e \<Rightarrow> (a, Some (Wrap ''settlement address'' e)) | None \<Rightarrow> (a\<lparr>apSettlement := x\<rparr>, None)))]"

definition updateApp :: "Lib \<Rightarrow> bool \<Rightarrow> err option \<Rightarrow> string \<Rightarrow> addr \<Rightarrow> AppUpdate \<Rightarrow> Apps Store \<Rightarrow> Apps Store \<times> App response" where
  "updateApp lib privateHooks fault aid me u s =
     (case ownedApp fault aid me (runSteps (updateSteps lib privateHooks u)) s of
        (s', Some e) \<Rightarrow> (s', writeErr 400 e)
      | (s', None) \<Rightarrow> (s', writeJSON 200 (forOwner (the (fmlookup (soData s') aid)))))"

subsection \<open>API keys\<close>

text \<open>The key of an \<open>Authorization\<close> header.\<close>

definition bearerKey :: "string \<Rightarrow> string option" where
  "bearerKey h =
     (if take 7 h = ''Bearer '' \<and> take 7 (drop 7 h) = ''orp_sk_'' then Some (drop 7 h) else None)"

text \<open>The app whose key has this hash; of several the one ranged over last.\<close>

definition appByHash :: "string list \<Rightarrow> Apps \<Rightarrow> string \<Rightarrow> App option" where
  "appByHash order m h =
     foldl (\<lambda>r k. case fmlookup m k of None \<Rightarrow> r | Some a \<Rightarrow> if apKeyHash a \<noteq> '''' \<and> apKeyHash a = h then Some a else r) None order"

definition apiKeyAuth :: "(bytes \<Rightarrow> hash) \<Rightarrow> string list \<Rightarrow> Apps Store \<Rightarrow> string \<Rightarrow> App response" where
  "apiKeyAuth sha order s header =
     (case bearerKey header of None \<Rightarrow> writeErr 401 (Err ''missing API key (Authorization: Bearer orp_sk_...)'')
      | Some key \<Rightarrow>
        (case appByHash order (soData s) (hashKey sha key) of
           None \<Rightarrow> writeErr 401 (Err ''invalid API key'')
         | Some app \<Rightarrow> if apStatus app \<noteq> AppApproved then writeErr 403 (Err ''app is not approved'') else writeJSON 200 app))"

subsection \<open>Properties\<close>

lemma appByHash_snoc:
  "appByHash (order @ [k]) m h =
     (case fmlookup m k of None \<Rightarrow> appByHash order m h
      | Some a \<Rightarrow> if apKeyHash a \<noteq> '''' \<and> apKeyHash a = h then Some a else appByHash order m h)"
  by (simp add: appByHash_def split: option.split)

lemma appByHash_Some:
  "appByHash order m h = Some app \<Longrightarrow> \<exists>k\<in>set order. fmlookup m k = Some app \<and> apKeyHash app = h \<and> h \<noteq> ''''"
proof (induction order rule: rev_induct)
  case Nil
  then show ?case by (simp add: appByHash_def)
next
  case (snoc k order)
  show ?case
  proof (cases "appByHash order m h = Some app")
    case True
    then show ?thesis using snoc.IH by auto
  next
    case False
    then show ?thesis using snoc.prems unfolding appByHash_snoc by (auto split: option.splits if_splits)
  qed
qed

lemma appByHash_None: "appByHash order m h = None \<Longrightarrow> k \<in> set order \<Longrightarrow> fmlookup m k = Some a \<Longrightarrow> apKeyHash a \<noteq> h \<or> h = ''''"
proof (induction order rule: rev_induct)
  case (snoc j order)
  then show ?case unfolding appByHash_snoc by (cases "fmlookup m j") (auto split: if_splits)
qed simp

lemma apiKeyAuth_Inr:
  assumes "apiKeyAuth sha order s header = (st, Inr app)"
  shows "\<exists>key aid. bearerKey header = Some key \<and> fmlookup (soData s) aid = Some app \<and> apStatus app = AppApproved \<and>
    apKeyHash app = hashKey sha key \<and> apKeyHash app \<noteq> ''''"
proof -
  obtain key where key: "bearerKey header = Some key" using assms by (cases "bearerKey header") (auto simp: apiKeyAuth_def writeErr_def)
  obtain a where a: "appByHash order (soData s) (hashKey sha key) = Some a"
    using assms key by (cases "appByHash order (soData s) (hashKey sha key)") (auto simp: apiKeyAuth_def writeErr_def)
  have "a = app" "apStatus app = AppApproved"
    using assms key a by (auto simp: apiKeyAuth_def writeErr_def writeJSON_def split: if_splits)
  then show ?thesis using key appByHash_Some [OF a] by auto
qed

lemma ownedApp_None:
  assumes "ownedApp fault aid me fn s = (s', None)"
  shows "\<exists>a. fmlookup (soData s) aid = Some a \<and> apOwner a = me \<and> snd (fn a) = None \<and> soData s' = fmupd aid (fst (fn a)) (soData s)"
  using Update_None_snd [OF assms [unfolded ownedApp_def]] by (auto split: option.splits if_splits prod.splits)

lemma rotateKey_Inr:
  assumes "rotateKey sha fault rnd aid me s = (s', st, Inr key)"
  shows "key = ''orp_sk_'' @ rnd \<and> (\<exists>a. fmlookup (soData s) aid = Some a \<and> apOwner a = me \<and> apStatus a = AppApproved \<and>
    soData s' = fmupd aid (a\<lparr>apKeyHash := hashKey sha key, apKeyPrefix := take 14 key\<rparr>) (soData s))"
proof -
  obtain s1 e where o: "ownedApp fault aid me (rotateFn sha (''orp_sk_'' @ rnd)) s = (s1, e)" by fastforce
  then have e: "e = None" "s1 = s'" "key = ''orp_sk_'' @ rnd"
    using assms by (cases e; simp add: rotateKey_def writeErr_def writeJSON_def)+
  obtain a where "fmlookup (soData s) aid = Some a" "apOwner a = me" "snd (rotateFn sha key a) = None"
    "soData s' = fmupd aid (fst (rotateFn sha key a)) (soData s)"
    using ownedApp_None [OF o [unfolded e(1)]] e by blast
  then show ?thesis using e(3) by (auto simp: rotateFn_def split: if_splits)
qed

text \<open>
  API keys. A request passes only as an approved app whose stored hash is the hash of the key in its
  header. A key is issued only to the owner of an approved app, and from then on it is the one key that
  passes as that app: the key before it no longer does, unless SHA-256 collides on the two.
\<close>

theorem api_key_replaced:
  assumes "rotateKey sha fault rnd aid me s = (s', st, Inr key)"
    and "apiKeyAuth sha order s' header = (st', Inr app)"
    and "\<forall>k a. fmlookup (soData s') k = Some a \<longrightarrow> apID a = k"
  shows "apStatus app = AppApproved \<and> apKeyHash app \<noteq> '''' \<and> (\<exists>a. fmlookup (soData s) aid = Some a \<and> apOwner a = me \<and> apStatus a = AppApproved) \<and>
    (\<exists>k. bearerKey header = Some k \<and> apKeyHash app = hashKey sha k \<and>
      (apID app = aid \<and> inj_on sha {k, key} \<longrightarrow> k = key))"
proof -
  obtain a where a: "fmlookup (soData s) aid = Some a" "apOwner a = me" "apStatus a = AppApproved"
    and s': "soData s' = fmupd aid (a\<lparr>apKeyHash := hashKey sha key, apKeyPrefix := take 14 key\<rparr>) (soData s)"
    using rotateKey_Inr [OF assms(1)] by blast
  obtain k j where k: "bearerKey header = Some k" "fmlookup (soData s') j = Some app" "apStatus app = AppApproved"
    "apKeyHash app = hashKey sha k" "apKeyHash app \<noteq> ''''"
    using apiKeyAuth_Inr [OF assms(2)] by blast
  have "k = key" if "apID app = aid" "inj_on sha {k, key}"
  proof -
    have "j = aid" using assms(3) k(2) that(1) by blast
    then have "app = a\<lparr>apKeyHash := hashKey sha key, apKeyPrefix := take 14 key\<rparr>" using k(2) s' by simp
    then have "hashKey sha k = hashKey sha key" using k(4) by simp
    then have "sha k = sha key" unfolding hashKey_def by (rule hex_encode_inject)
    then show ?thesis using inj_onD [OF that(2), of k key] by simp
  qed
  then show ?thesis using a k by blast
qed

text \<open>
  A refused change of settings. An update whose settlement address is wrong is answered with an
  error, but what comes before it in the update has been changed in memory, and the next successful
  update of any app writes it to the file.
\<close>

theorem refused_update_changes:
  assumes "fmlookup (soData s) aid = Some a" and "apOwner a = me"
    and "url = '''' \<or> checkWebhookURL lib privateHooks url = None" and "Validate bad = Some e"
    and "u = \<lparr>auWebhookURL = Some url, auSettlement = Some bad, auArbiter = None, auBrandName = None, auPolicy = None,
               auWebsite = None, auBrandColor = None\<rparr>"
  shows "updateApp lib privateHooks fault aid me u s =
      (s\<lparr>soData := fmupd aid (a\<lparr>apWebhookURL := url\<rparr>) (soData s)\<rparr>, writeErr 400 (Wrap ''settlement address'' e)) \<and>
    (\<forall>fault' rnd other a'. other \<noteq> aid \<longrightarrow> fmlookup (soData s) other = Some a' \<longrightarrow> apStatus a' = AppApproved \<longrightarrow>
       (let s' = fst (rotateKey sha None rnd other (apOwner a') (fst (updateApp lib privateHooks fault aid me u s)))
        in map_option (\<lambda>m. map_option apWebhookURL (fmlookup m aid)) (soDisk s') = Some (Some url)))"
proof -
  have "runSteps (updateSteps lib privateHooks u) a = (a\<lparr>apWebhookURL := url\<rparr>, Some (Wrap ''settlement address'' e))"
    using assms(3-5) by (auto simp: updateSteps_def)
  then have first: "updateApp lib privateHooks fault aid me u s =
      (s\<lparr>soData := fmupd aid (a\<lparr>apWebhookURL := url\<rparr>) (soData s)\<rparr>, writeErr 400 (Wrap ''settlement address'' e))"
    using assms(1,2) by (simp add: updateApp_def ownedApp_def Update_def)
  show ?thesis
    unfolding first by (auto simp: rotateKey_def ownedApp_def rotateFn_def Update_def WriteAtomic_def Let_def writeJSON_def split: option.splits)
qed

definition toy_app :: "string \<Rightarrow> addr \<Rightarrow> App" where
  "toy_app aid owner = \<lparr>apID = aid, apName = ''Gabis'', apWebsite = '''', apContact = '''', apDescription = '''', apOwner = owner, apSettlement = owner,
     apStatus = AppApproved, apWebhookURL = '''', apBrandName = '''', apBrandColor = '''', apLogoType = '''', apLogoSource = '''', apLogoAt = zeroTime,
     apEscrowPolicy = '''', apArbiterAddr = '''', apCreatedAt = 0, apReviewedAt = 0, apReviewNote = '''', apKeyHash = ''6f'', apKeyPrefix = '''',
     apWebhookSecret = ''whsec''\<rparr>"

definition toy_apps :: "Apps Store" where
  "toy_apps = \<lparr>soData = fmupd ''app_1'' (toy_app ''app_1'' ''k1'') (fmupd ''app_2'' (toy_app ''app_2'' ''k2'') fmempty), soDisk = None\<rparr>"

definition toy_rotated :: "Apps Store" where
  "toy_rotated = fst (rotateKey (\<lambda>x. x) None ''9'' ''app_1'' ''k1'' toy_apps)"

lemma toy_rotateKey: "rotateKey (\<lambda>x. x) None ''9'' ''app_1'' ''k1'' toy_apps = (toy_rotated, 201, Inr ''orp_sk_9'')"
  by (simp add: toy_rotated_def rotateKey_def ownedApp_def rotateFn_def toy_apps_def toy_app_def Update_def WriteAtomic_def writeJSON_def Let_def)

lemma toy_rotated_data: "soData toy_rotated = fmupd ''app_1'' ((toy_app ''app_1'' ''k1'')\<lparr>apKeyHash := hashKey (\<lambda>x. x) ''orp_sk_9'', apKeyPrefix := ''orp_sk_9''\<rparr>) (soData toy_apps)"
  using rotateKey_Inr [OF toy_rotateKey] by (auto simp: toy_apps_def)

lemma toy_apiKeyAuth: "apiKeyAuth (\<lambda>x. x) [''app_1'', ''app_2''] toy_rotated ''Bearer orp_sk_9'' = (200, Inr (the (fmlookup (soData toy_rotated) ''app_1'')))"
proof -
  have len: "length (hashKey (\<lambda>x. x) ''orp_sk_9'') = 16" by (simp add: hashKey_def)
  have "hashKey (\<lambda>x. x) ''orp_sk_9'' \<noteq> ''6f''" using arg_cong [of _ _ length] len by fastforce
  moreover have "hashKey (\<lambda>x. x) ''orp_sk_9'' \<noteq> ''''" using len by auto
  ultimately show ?thesis
    by (simp add: apiKeyAuth_def bearerKey_def appByHash_def toy_rotated_data writeJSON_def) (simp add: toy_apps_def toy_app_def writeJSON_def)
qed

theorem api_key_replaced_witness:
  "bearerKey ''Bearer orp_sk_9'' = Some ''orp_sk_9'' \<and> apStatus (the (fmlookup (soData toy_rotated) ''app_1'')) = AppApproved \<and>
   apKeyHash (the (fmlookup (soData toy_rotated) ''app_1'')) = hashKey (\<lambda>x. x) ''orp_sk_9''"
proof -
  have ids: "\<forall>k a. fmlookup (soData toy_rotated) k = Some a \<longrightarrow> apID a = k"
    unfolding toy_rotated_data by (auto simp: toy_apps_def toy_app_def split: if_splits)
  have "bearerKey ''Bearer orp_sk_9'' = Some ''orp_sk_9''" by (simp add: bearerKey_def)
  then show ?thesis using api_key_replaced [OF toy_rotateKey toy_apiKeyAuth ids] by simp
qed

theorem refused_update_changes_witness:
  "apWebhookURL (the (fmlookup (soData (fst (updateApp \<lparr>lbNameRe = \<lambda>_. True, lbEqualFold = (=), lbParseURL = \<lambda>u. Some (''https'', u, u), lbLookupIP = \<lambda>_. Inr [], lbPublic = \<lambda>_. True\<rparr> False
      None ''app_1'' ''k1'' \<lparr>auWebhookURL = Some ''https://a.b'', auSettlement = Some ''nobody'', auArbiter = None, auBrandName = None, auPolicy = None,
               auWebsite = None, auBrandColor = None\<rparr> toy_apps))) ''app_1'')) = ''https://a.b''"
proof -
  let ?lib = "\<lparr>lbNameRe = \<lambda>_. True, lbEqualFold = (=), lbParseURL = \<lambda>u. Some (''https'', u, u), lbLookupIP = \<lambda>_. Inr [], lbPublic = \<lambda>_. True\<rparr>"
  have "checkWebhookURL ?lib False ''https://a.b'' = None" by (simp add: checkWebhookURL_def validURL_def)
  moreover have "Validate ''nobody'' = Some (Err ''invalid address'')" by (simp add: Validate_def PubKey_def hexval_def to_lower_def)
  moreover have "fmlookup (soData toy_apps) ''app_1'' = Some (toy_app ''app_1'' ''k1'')" "apOwner (toy_app ''app_1'' ''k1'') = ''k1''"
    by (simp_all add: toy_apps_def toy_app_def)
  ultimately show ?thesis
    using refused_update_changes [of toy_apps "''app_1''" "toy_app ''app_1'' ''k1''" "''k1''" "''https://a.b''" ?lib False "''nobody''"
        "Err ''invalid address''" _ None, OF _ _ _ _ refl] by (simp add: writeErr_def)
qed

end
