(* ===== verification/Orpay_Circles.thy ===== *)
theory Orpay_Circles
  imports Orpay_Phones
begin

text \<open>
  Circle invitations and reminders in the orPay backend: apps/orpay/backend/invites.go and nudge.go. An
  organiser opens a draft, people join it, and the organiser creates the circle on-chain with the joined
  members and reports it; the report is checked against the chain. A reminder is sent to those who have
  not paid the round, at most every six hours.

  Handlers take the decoded body and the signing caller; random values, the clock, failing writes and the
  node's answers are parameters.
\<close>

subsection \<open>Drafts\<close>

datatype DraftStatus = DraftOpen | DraftStarted | DraftCancelled

record PoolDraft =
  dfID :: string
  dfOrganizer :: addr
  dfName :: string
  dfAsset :: string
  dfContribution :: amount
  dfRoundSecs :: int
  dfDeposit :: amount
  dfMode :: string
  dfInsuranceBps :: "32 word"
  dfTarget :: amount
  dfSlots :: int
  dfMembers :: "addr list"
  dfStatus :: DraftStatus
  dfPoolID :: string
  dfCreatedAt :: int

record DraftInput =
  diName :: string
  diAsset :: string
  diContribution :: amount
  diRoundSecs :: int
  diDeposit :: amount
  diMode :: string
  diInsuranceBps :: "32 word"
  diTarget :: amount
  diSlots :: int

type_synonym Drafts = "(string, PoolDraft) fmap"

definition emptyTx :: Tx where
  "emptyTx = \<lparr>txChainID = '''', txFrom = '''', txTo = '''', txAmount = 0, txFee = 0, txNonce = 0, txMemo = '''', txKind = '''',
     txAsset = '''', txPool = None, txEscrow = None, txGuard = None, txSig = []\<rparr>"

definition createOp :: "string \<Rightarrow> addr list \<Rightarrow> amount \<Rightarrow> int \<Rightarrow> amount \<Rightarrow> string \<Rightarrow> 32 word \<Rightarrow> amount \<Rightarrow> PoolOp" where
  "createOp name members contribution roundSecs deposit mode bps target =
     \<lparr>poOp = OpPoolCreate, poID = zeroHash, poName = name, poMembers = members, poContribution = contribution, poRoundSecs = roundSecs,
      poDeposit = deposit, poMode = mode, poInsuranceBps = bps, poTarget = target, poOther = ''''\<rparr>"

text \<open>The transaction \<open>createDraft\<close> checks the options with: a circle of the caller and an all-zero address.\<close>

definition probeTx :: "addr \<Rightarrow> string \<Rightarrow> DraftInput \<Rightarrow> Tx" where
  "probeTx me name i =
     emptyTx\<lparr>txFrom := me, txPool := Some (createOp name [me, replicate 64 (CHR ''0'')] (diContribution i) (diRoundSecs i) (diDeposit i)
       (diMode i) (diInsuranceBps i) (diTarget i))\<rparr>"

definition CheckPool :: "Tx \<Rightarrow> err option" where
  "CheckPool tx = (case txPool tx of None \<Rightarrow> Some (Panic ''nil pool'') | Some p \<Rightarrow> checkPoolOp tx p)"

definition createDraft :: "err option \<Rightarrow> int \<Rightarrow> string \<Rightarrow> addr \<Rightarrow> DraftInput \<Rightarrow> Drafts Store \<Rightarrow> Drafts Store \<times> PoolDraft response" where
  "createDraft fault now rnd me i s =
     (let name = TrimSpace (diName i) in
      if name = '''' \<or> length name > 64 then (s, writeErr 400 (Err ''pool name must be 1-64 characters''))
      else if diContribution i = 0 then (s, writeErr 400 (Err ''contribution must be positive''))
      else if diSlots i < 2 \<or> diSlots i > 50 then (s, writeErr 400 (Err ''a pool needs 2-50 members''))
      else if \<not> ValidAsset (diAsset i) then (s, writeErr 400 (Err ''invalid currency''))
      else case CheckPool (probeTx me name i) of Some e \<Rightarrow> (s, writeErr 400 e)
      | None \<Rightarrow>
        (let d = \<lparr>dfID = ''ajo_'' @ rnd, dfOrganizer = me, dfName = name, dfAsset = diAsset i, dfContribution = diContribution i,
               dfRoundSecs = diRoundSecs i, dfDeposit = diDeposit i, dfMode = diMode i, dfInsuranceBps = diInsuranceBps i,
               dfTarget = diTarget i, dfSlots = diSlots i, dfMembers = [me], dfStatus = DraftOpen, dfPoolID = '''', dfCreatedAt = now\<rparr>
         in case Update fault (\<lambda>m. (fmupd (dfID d) d m, None)) s of
              (s', Some e) \<Rightarrow> (s', writeErr 500 e)
            | (s', None) \<Rightarrow> (s', writeJSON 201 d)))"

definition draftAt :: "string \<Rightarrow> Drafts Store \<Rightarrow> PoolDraft option" where
  "draftAt did s = fmlookup (soData s) did"

text \<open>\<open>myDrafts\<close>, ranging over the drafts in \<open>order\<close>.\<close>

definition myDrafts :: "addr \<Rightarrow> string list \<Rightarrow> Drafts Store \<Rightarrow> PoolDraft list response" where
  "myDrafts me order s =
     writeJSON 200 (filter (\<lambda>d. dfStatus d = DraftOpen \<and> me \<in> set (dfMembers d)) (List.map_filter (fmlookup (soData s)) order))"

definition getDraft :: "string \<Rightarrow> Drafts Store \<Rightarrow> PoolDraft response" where
  "getDraft did s = (case draftAt did s of None \<Rightarrow> writeErr 404 (Err ''invite not found'') | Some d \<Rightarrow> writeJSON 200 d)"

definition changeDraft :: "err option \<Rightarrow> string \<Rightarrow> (PoolDraft \<Rightarrow> err + PoolDraft) \<Rightarrow> Drafts Store \<Rightarrow> Drafts Store \<times> PoolDraft response" where
  "changeDraft fault did fn s =
     (case Update fault (\<lambda>m. case fmlookup m did of None \<Rightarrow> (m, Some (Err ''invite not found''))
             | Some d \<Rightarrow> (case fn d of Inl e \<Rightarrow> (m, Some e) | Inr d' \<Rightarrow> (fmupd did d' m, None))) s of
        (s', Some e) \<Rightarrow> (s', writeErr 400 e)
      | (s', None) \<Rightarrow> (s', writeJSON 200 (the (fmlookup (soData s') did))))"

definition joinFn :: "addr \<Rightarrow> PoolDraft \<Rightarrow> err + PoolDraft" where
  "joinFn me d =
     (if dfStatus d \<noteq> DraftOpen then Inl (Err ''this pool has already started'')
      else if me \<in> set (dfMembers d) then Inr d
      else if int (length (dfMembers d)) \<ge> dfSlots d then Inl (Err ''this pool is full'')
      else Inr (d\<lparr>dfMembers := dfMembers d @ [me]\<rparr>))"

definition leaveFn :: "addr \<Rightarrow> PoolDraft \<Rightarrow> err + PoolDraft" where
  "leaveFn me d =
     (if dfStatus d \<noteq> DraftOpen then Inl (Err ''this pool has already started'')
      else if me = dfOrganizer d then Inl (Err ''the organiser cannot leave; start or abandon the pool instead'')
      else Inr (d\<lparr>dfMembers := filter (\<lambda>a. a \<noteq> me) (dfMembers d)\<rparr>))"

definition orderFn :: "addr \<Rightarrow> addr list \<Rightarrow> PoolDraft \<Rightarrow> err + PoolDraft" where
  "orderFn me members d =
     (if me \<noteq> dfOrganizer d \<or> dfStatus d \<noteq> DraftOpen then Inl (Err ''only the organiser can change the order before the pool starts'')
      else if sort members \<noteq> sort (dfMembers d) then Inl (Err ''the new order must list exactly the joined members'')
      else Inr (d\<lparr>dfMembers := members\<rparr>))"

definition removeFn :: "addr \<Rightarrow> addr \<Rightarrow> PoolDraft \<Rightarrow> err + PoolDraft" where
  "removeFn me member d =
     (if me \<noteq> dfOrganizer d then Inl (Err ''only the organiser can remove members'')
      else if dfStatus d \<noteq> DraftOpen then Inl (Err ''the pool has already started'')
      else if member = dfOrganizer d then Inl (Err ''the organiser cannot be removed'')
      else Inr (d\<lparr>dfMembers := filter (\<lambda>a. a \<noteq> member) (dfMembers d)\<rparr>))"

definition deleteFn :: "addr \<Rightarrow> PoolDraft \<Rightarrow> err + PoolDraft" where
  "deleteFn me d =
     (if me \<noteq> dfOrganizer d then Inl (Err ''only the organiser can delete this circle'')
      else if dfStatus d \<noteq> DraftOpen then Inl (Err ''this circle has already started'')
      else Inr (d\<lparr>dfStatus := DraftCancelled\<rparr>))"

text \<open>\<open>startedDraft\<close> compares the draft with the circle the node reports under the id given.\<close>

definition matchesDraft :: "Pool \<Rightarrow> PoolDraft \<Rightarrow> bool" where
  "matchesDraft p d \<longleftrightarrow> pMembers p = dfMembers d \<and> pContribution p = dfContribution d \<and> pAsset p = dfAsset d \<and>
     pRoundSecs p = dfRoundSecs d \<and> pDeposit p = dfDeposit d \<and> pMode p = dfMode d \<and> pInsuranceBps p = dfInsuranceBps d \<and>
     pTarget p = dfTarget d"

definition startFn :: "addr \<Rightarrow> string \<Rightarrow> Pool \<Rightarrow> PoolDraft \<Rightarrow> err + PoolDraft" where
  "startFn me pid p d =
     (if me \<noteq> dfOrganizer d \<or> pCreator p \<noteq> me then Inl (Err ''only the organiser can start the pool'')
      else if dfStatus d \<noteq> DraftOpen then Inl (Err ''already started'')
      else if \<not> matchesDraft p d then Inl (Err ''the on-chain pool does not match this invite'')
      else Inr (d\<lparr>dfStatus := DraftStarted, dfPoolID := pid\<rparr>))"

definition joinDraft :: "err option \<Rightarrow> string \<Rightarrow> addr \<Rightarrow> Drafts Store \<Rightarrow> Drafts Store \<times> PoolDraft response" where
  "joinDraft fault did me s = changeDraft fault did (joinFn me) s"

definition leaveDraft :: "err option \<Rightarrow> string \<Rightarrow> addr \<Rightarrow> Drafts Store \<Rightarrow> Drafts Store \<times> PoolDraft response" where
  "leaveDraft fault did me s = changeDraft fault did (leaveFn me) s"

definition orderDraft :: "err option \<Rightarrow> string \<Rightarrow> addr \<Rightarrow> addr list \<Rightarrow> Drafts Store \<Rightarrow> Drafts Store \<times> PoolDraft response" where
  "orderDraft fault did me members s = changeDraft fault did (orderFn me members) s"

definition removeFromDraft :: "err option \<Rightarrow> string \<Rightarrow> addr \<Rightarrow> addr \<Rightarrow> Drafts Store \<Rightarrow> Drafts Store \<times> PoolDraft response" where
  "removeFromDraft fault did me member s = changeDraft fault did (removeFn me member) s"

definition deleteDraft :: "err option \<Rightarrow> string \<Rightarrow> addr \<Rightarrow> Drafts Store \<Rightarrow> Drafts Store \<times> PoolDraft response" where
  "deleteDraft fault did me s = changeDraft fault did (deleteFn me) s"

definition startedDraft :: "err option \<Rightarrow> (string \<Rightarrow> err + Pool) \<Rightarrow> string \<Rightarrow> addr \<Rightarrow> string \<Rightarrow> Drafts Store \<Rightarrow> Drafts Store \<times> PoolDraft response" where
  "startedDraft fault node did me pid s =
     (case node pid of Inl e \<Rightarrow> (s, writeErr 400 (Err ''pool not found on-chain''))
      | Inr p \<Rightarrow> changeDraft fault did (startFn me pid p) s)"

subsection \<open>Reminders\<close>

text \<open>\<open>money\<close> and \<open>nameOrShort\<close> of push.go, with the UTF-8 bytes of the naira sign and the ellipsis.\<close>

definition money :: "amount \<Rightarrow> string \<Rightarrow> string" where
  "money amt asset =
     (if asset = ''NGN'' then [CHR 0xE2, CHR 0x82, CHR 0xA6] @ FormatAmount amt else FormatAmount amt @ '' '' @ AssetName asset)"

definition nameOrShort :: "Directory \<Rightarrow> addr \<Rightarrow> string" where
  "nameOrShort d a = (case byAddress d a of Some n \<Rightarrow> CHR ''@'' # n | None \<Rightarrow> take 6 a @ [CHR 0xE2, CHR 0x80, CHR 0xA6])"

text \<open>The numbers known of those who have not paid; of two numbers of one wallet the one ranged over last.\<close>

definition phonesOf :: "addr list \<Rightarrow> string list \<Rightarrow> (string, addr) fmap \<Rightarrow> (addr, string) fmap" where
  "phonesOf unpaid order phones =
     foldl (\<lambda>m ph. case fmlookup phones ph of None \<Rightarrow> m | Some a \<Rightarrow> if a \<in> set unpaid then fmupd a ph m else m) fmempty order"

text \<open>
  \<open>nudgePool\<close>: the answer is how many were reminded and how many by SMS; the last component is who is
  reminded with what text.
\<close>

definition nudgePool :: "Directory \<Rightarrow> PhoneData Store \<Rightarrow> (string \<Rightarrow> string \<Rightarrow> err option) \<Rightarrow> int \<Rightarrow> err + Pool \<Rightarrow> string list \<Rightarrow> string \<Rightarrow> addr \<Rightarrow>
    (string, int) fmap \<Rightarrow> (string, int) fmap \<times> (nat \<times> nat) response \<times> (addr \<times> string) list" where
  "nudgePool d ps sms now node order pid me nudged =
     (case node of Inl e \<Rightarrow> (nudged, writeErr 404 (Err ''pool not found''), [])
      | Inr p \<Rightarrow>
        if pCreator p \<noteq> me then (nudged, writeErr 403 (Err ''only the organiser can send reminders''), [])
        else if pStatus p \<noteq> PoolActive then (nudged, writeErr 409 (Err ''reminders are for active circles''), [])
        else if (case fmlookup nudged pid of None \<Rightarrow> False | Some t \<Rightarrow> subTime now t < 6 * hour)
        then (nudged, writeErr 429 (Err ''reminders were sent''), [])
        else (let unpaid = map fst (filter (\<lambda>(m, paid). \<not> paid) (zip (pMembers p) (pPaid p)));
                  text = nameOrShort d (pCreator p) @ '' reminds you: your '' @ money (pContribution p) (pAsset p) @ '' payment for '' @
                    pName p @ '' is due. Open ORPay to pay.'';
                  phones = phonesOf unpaid order (pdPhones (soData ps));
                  texted = filter (\<lambda>a. case fmlookup phones a of None \<Rightarrow> False | Some ph \<Rightarrow> sms ph text = None) unpaid
              in (fmupd pid now nudged, writeJSON 200 (length unpaid, length texted), map (\<lambda>a. (a, text)) unpaid)))"

subsection \<open>The drafts a server can hold\<close>

definition optionsOf :: "PoolDraft \<Rightarrow> DraftInput" where
  "optionsOf d = \<lparr>diName = dfName d, diAsset = dfAsset d, diContribution = dfContribution d, diRoundSecs = dfRoundSecs d,
     diDeposit = dfDeposit d, diMode = dfMode d, diInsuranceBps = dfInsuranceBps d, diTarget = dfTarget d, diSlots = dfSlots d\<rparr>"

definition draft_ok :: "PoolDraft \<Rightarrow> bool" where
  "draft_ok d \<longleftrightarrow> distinct (dfMembers d) \<and> dfOrganizer d \<in> set (dfMembers d) \<and> int (length (dfMembers d)) \<le> dfSlots d \<and>
     dfSlots d \<le> 50 \<and> ValidAsset (dfAsset d) \<and> CheckPool (probeTx (dfOrganizer d) (dfName d) (optionsOf d)) = None"

definition drafts_ok :: "Drafts Store \<Rightarrow> bool" where
  "drafts_ok s \<longleftrightarrow> store_all (\<lambda>_. draft_ok) s"

lemma changeDraft_ok:
  assumes "drafts_ok s" and "\<And>d d'. draft_ok d \<Longrightarrow> fn d = Inr d' \<Longrightarrow> draft_ok d'"
  shows "drafts_ok (fst (changeDraft fault did fn s))"
proof -
  let ?up = "\<lambda>m. case fmlookup m did of None \<Rightarrow> (m, Some (Err ''invite not found''))
             | Some d \<Rightarrow> (case fn d of Inl e \<Rightarrow> (m, Some e) | Inr d' \<Rightarrow> (fmupd did d' m, None))"
  have "fst (changeDraft fault did fn s) = fst (Update fault ?up s)"
    by (simp add: changeDraft_def split: prod.split option.split)
  moreover have "draft_ok v" if "fmlookup (fst (?up (soData s))) k = Some v" for k v
    using that assms store_allD [of "\<lambda>_. draft_ok" s] unfolding drafts_ok_def
    by (auto split: option.splits sum.splits if_splits)
  then have "drafts_ok (fst (Update fault ?up s))"
    using assms(1) unfolding drafts_ok_def by (intro store_all_Update) blast+
  ultimately show ?thesis by simp
qed

lemma mset_length_eq: "sort xs = sort ys \<Longrightarrow> mset xs = mset ys"
  by (metis mset_sort)

lemma draft_functions_ok:
  assumes "draft_ok d"
  shows "joinFn me d = Inr d' \<Longrightarrow> draft_ok d'" and "leaveFn me d = Inr d' \<Longrightarrow> draft_ok d'"
    and "orderFn me members d = Inr d' \<Longrightarrow> draft_ok d'" and "removeFn me member d = Inr d' \<Longrightarrow> draft_ok d'"
    and "deleteFn me d = Inr d' \<Longrightarrow> draft_ok d'" and "startFn me pid p d = Inr d' \<Longrightarrow> draft_ok d'"
proof -
  have len: "int (length (filter P (dfMembers d))) \<le> dfSlots d" for P
    using assms length_filter_le [of P "dfMembers d"] unfolding draft_ok_def by linarith
  show "joinFn me d = Inr d' \<Longrightarrow> draft_ok d'"
    using assms by (auto simp: joinFn_def draft_ok_def optionsOf_def split: if_splits)
  show "leaveFn me d = Inr d' \<Longrightarrow> draft_ok d'"
    using assms len by (auto simp: leaveFn_def draft_ok_def optionsOf_def split: if_splits)
  show "removeFn me member d = Inr d' \<Longrightarrow> draft_ok d'"
    using assms len by (auto simp: removeFn_def draft_ok_def optionsOf_def split: if_splits)
  show "deleteFn me d = Inr d' \<Longrightarrow> draft_ok d'"
    using assms by (auto simp: deleteFn_def draft_ok_def optionsOf_def split: if_splits)
  show "startFn me pid p d = Inr d' \<Longrightarrow> draft_ok d'"
    using assms by (auto simp: startFn_def draft_ok_def optionsOf_def split: if_splits)
  show "draft_ok d'" if o: "orderFn me members d = Inr d'"
  proof -
    have m: "mset members = mset (dfMembers d)" and d': "d' = d\<lparr>dfMembers := members\<rparr>"
      using o mset_length_eq [of members "dfMembers d"] by (auto simp: orderFn_def split: if_splits)
    have "distinct members = distinct (dfMembers d)" "set members = set (dfMembers d)" "length members = length (dfMembers d)"
      using mset_eq_imp_distinct_iff [OF m] mset_eq_setD [OF m] mset_eq_length [OF m] by auto
    then show ?thesis using assms unfolding d' draft_ok_def optionsOf_def by simp
  qed
qed

lemma createDraft_ok: "drafts_ok s \<Longrightarrow> drafts_ok (fst (createDraft fault now rnd me i s))"
proof -
  assume s: "drafts_ok s"
  let ?d = "\<lparr>dfID = ''ajo_'' @ rnd, dfOrganizer = me, dfName = TrimSpace (diName i), dfAsset = diAsset i, dfContribution = diContribution i,
               dfRoundSecs = diRoundSecs i, dfDeposit = diDeposit i, dfMode = diMode i, dfInsuranceBps = diInsuranceBps i,
               dfTarget = diTarget i, dfSlots = diSlots i, dfMembers = [me], dfStatus = DraftOpen, dfPoolID = '''', dfCreatedAt = now\<rparr>"
  show ?thesis
  proof (cases "draft_ok ?d")
    case True
    have "fst (createDraft fault now rnd me i s) = s \<or>
        fst (createDraft fault now rnd me i s) = fst (Update fault (\<lambda>m. (fmupd (''ajo_'' @ rnd) ?d m, None)) s)"
      by (simp add: createDraft_def Let_def split: option.split prod.split)
    moreover have "drafts_ok (fst (Update fault (\<lambda>m. (fmupd (''ajo_'' @ rnd) ?d m, None)) s))"
    proof -
      have "draft_ok v" if "fmlookup (fmupd (''ajo_'' @ rnd) ?d (soData s)) k = Some v" for k v
        using that True store_allD [OF s [unfolded drafts_ok_def]] by (cases "k = ''ajo_'' @ rnd") auto
      then show ?thesis using s unfolding drafts_ok_def by (intro store_all_Update) (simp_all del: fmupd_lookup)
    qed
    ultimately show ?thesis using s by metis
  next
    case False
    have "CheckPool (probeTx me (TrimSpace (diName i)) (optionsOf ?d)) = CheckPool (probeTx me (TrimSpace (diName i)) i)"
      by (simp add: probeTx_def optionsOf_def)
    then have "diSlots i < 2 \<or> diSlots i > 50 \<or> \<not> ValidAsset (diAsset i) \<or> CheckPool (probeTx me (TrimSpace (diName i)) i) \<noteq> None"
      using False by (auto simp: draft_ok_def)
    then have "fst (createDraft fault now rnd me i s) = s"
      by (auto simp: createDraft_def Let_def)
    then show ?thesis using s by simp
  qed
qed

text \<open>What happens to the drafts: requests of anyone, with writes that may fail, and restarts.\<close>

inductive draft_step :: "Drafts Store \<Rightarrow> Drafts Store \<Rightarrow> bool" where
  create: "draft_step s (fst (createDraft fault now rnd me i s))"
| join: "draft_step s (fst (joinDraft fault did me s))"
| leave: "draft_step s (fst (leaveDraft fault did me s))"
| order: "draft_step s (fst (orderDraft fault did me members s))"
| remove: "draft_step s (fst (removeFromDraft fault did me member s))"
| delete: "draft_step s (fst (deleteDraft fault did me s))"
| start: "draft_step s (fst (startedDraft fault node did me pid s))"
| restart: "draft_step s (reopen fmempty s)"

lemma draft_step_ok: "draft_step s s' \<Longrightarrow> drafts_ok s \<Longrightarrow> drafts_ok s'"
proof (induction rule: draft_step.induct)
  case (start s fault node did me pid)
  then show ?case
    by (cases "node pid") (auto simp: startedDraft_def intro: changeDraft_ok draft_functions_ok)
next
  case (restart s)
  then show ?case unfolding drafts_ok_def by (rule store_all_reopen)
qed (auto simp: joinDraft_def leaveDraft_def orderDraft_def removeFromDraft_def deleteDraft_def
    intro: createDraft_ok changeDraft_ok draft_functions_ok)

lemma draft_run_ok: "draft_step\<^sup>*\<^sup>* s s' \<Longrightarrow> drafts_ok s \<Longrightarrow> drafts_ok s'"
  by (induction rule: rtranclp_induct) (blast intro: draft_step_ok)+

definition no_drafts :: "Drafts Store" where
  "no_drafts = \<lparr>soData = fmempty, soDisk = None\<rparr>"

lemma no_drafts_ok: "drafts_ok no_drafts"
  unfolding drafts_ok_def no_drafts_def by (rule store_all_empty)

subsection \<open>Properties\<close>

lemma checkMembers_None:
  "checkMembers seen ms = None \<longleftrightarrow> list_all (\<lambda>m. Validate m = None) ms \<and> distinct ms \<and> set ms \<inter> set seen = {}"
  by (induction seen ms rule: checkMembers.induct) (auto split: option.splits)

text \<open>The transaction that creates the circle of a draft.\<close>

definition draftTx :: "PoolDraft \<Rightarrow> Tx" where
  "draftTx d = emptyTx\<lparr>txFrom := dfOrganizer d, txAsset := dfAsset d, txPool := Some (createOp (dfName d) (dfMembers d) (dfContribution d)
     (dfRoundSecs d) (dfDeposit d) (dfMode d) (dfInsuranceBps d) (dfTarget d))\<rparr>"

lemma probe_options:
  assumes "CheckPool (probeTx me name i) = None"
  shows "name \<noteq> '''' \<and> length name \<le> 64 \<and> diContribution i \<noteq> 0 \<and> \<not> diContribution i > 18446744073709551615 div 2 \<and>
    \<not> (diRoundSecs i \<noteq> 0 \<and> (diRoundSecs i < 3600 \<or> diRoundSecs i > 366 * 24 * 3600)) \<and>
    \<not> diDeposit i > diContribution i * 2 \<and> \<not> (diDeposit i \<noteq> 0 \<and> diRoundSecs i = 0) \<and>
    \<not> (diMode i \<in> {PoolRotation, PoolLottery, PoolBidding} \<and> diTarget i \<noteq> 0) \<and> \<not> (diMode i = PoolGoal \<and> diTarget i = 0) \<and>
    \<not> (diMode i = PoolGoal \<and> (diDeposit i \<noteq> 0 \<or> diInsuranceBps i \<noteq> 0)) \<and> diMode i \<in> {PoolRotation, PoolLottery, PoolBidding, PoolGoal} \<and>
    \<not> diInsuranceBps i > 1000"
  using assms unfolding CheckPool_def probeTx_def createOp_def emptyTx_def checkPoolOp_def checkPoolCreate_def Let_def
  by (simp split: if_splits option.splits)

text \<open>That transaction as the organiser sends it.\<close>

definition sentDraft :: "PoolDraft \<Rightarrow> string \<Rightarrow> 64 word \<Rightarrow> amount \<Rightarrow> string \<Rightarrow> bytes \<Rightarrow> Tx" where
  "sentDraft d chainID nonce fee memo sig =
     (draftTx d)\<lparr>txChainID := chainID, txNonce := nonce, txFee := fee, txMemo := memo, txSig := sig\<rparr>"

lemma indexFrom_mem: "a \<in> set ms \<Longrightarrow> \<exists>i. indexFrom k ms a = Some i"
  by (induction ms arbitrary: k) auto

lemma sentDraft_accepted:
  assumes pool: "CheckPool (draftTx d) = None" and asset: "ValidAsset (dfAsset d)" and v: "Validate (dfOrganizer d) = None"
    and mem: "dfOrganizer d \<in> set (dfMembers d)"
    and sig: "length memo \<le> 256" "PubKey (dfOrganizer d) = Inr pub" "length sig = 64"
      "ed_verify pub (SignBytes (sentDraft d chainID nonce fee memo sig)) sig"
  shows "CheckStateless ed_verify chainID (sentDraft d chainID nonce fee memo sig) = None"
    and "precheck s (sentDraft d chainID nonce fee memo sig) = None \<Longrightarrow>
      fmlookup (stPools s) (ID sha (sentDraft d chainID nonce fee memo sig)) = None \<Longrightarrow>
      \<exists>s'. Apply sha s (sentDraft d chainID nonce fee memo sig) = Inr s'"
proof -
  let ?tx = "sentDraft d chainID nonce fee memo sig"
  obtain op where op: "txPool ?tx = Some op" "poOp op = OpPoolCreate" "poMembers op = dfMembers d" "checkPoolOp (draftTx d) op = None"
    using pool by (auto simp: sentDraft_def draftTx_def createOp_def CheckPool_def)
  have f: "txFrom ?tx = dfOrganizer d" "txAsset ?tx = dfAsset d" "txGuard ?tx = None" "txEscrow ?tx = None" "txKind ?tx = ''''"
    "txChainID ?tx = chainID" "txMemo ?tx = memo" "txSig ?tx = sig"
    by (simp_all add: sentDraft_def draftTx_def emptyTx_def)
  have same: "txTo ?tx = txTo (draftTx d)" "txAmount ?tx = txAmount (draftTx d)" "txFrom ?tx = txFrom (draftTx d)"
    by (simp_all add: sentDraft_def)
  have "checkPoolOp ?tx op = checkPoolOp (draftTx d) op"
    unfolding checkPoolOp_def checkPoolCreate_def same ..
  then have "checkBody ?tx = None" using op f by (simp add: checkBody_def)
  then show "CheckStateless ed_verify chainID ?tx = None"
    using f asset v sig by (simp add: CheckStateless_def)
  obtain i where "indexFrom 0 (dfMembers d) (dfOrganizer d) = Some i" using indexFrom_mem [OF mem] by blast
  then show "precheck s ?tx = None \<Longrightarrow> fmlookup (stPools s) (ID sha ?tx) = None \<Longrightarrow> \<exists>s'. Apply sha s ?tx = Inr s'"
    using op f by (simp add: Apply_def effect_def poolOp_def Let_def)
qed

text \<open>
  C28: invitations. Whatever people do with an invitation, and whatever fails or restarts, its members are
  distinct, no more than its slots and include the organiser. Once there are two of them, each member's address is in
  the canonical form, and the contributions of all of them do not overflow, the organiser's signed creation of the circle
  passes all the stateless checks of the chain, and on the ledger nothing can stop it but a circle already under its id and
  the checks before the rule: that the currency was issued (an invitation may name one that never was), the fee, the nonce
  and the funds.
\<close>

theorem drafts_fit_chain:
  assumes "draft_step\<^sup>*\<^sup>* no_drafts s" and "fmlookup (soData s) did = Some d"
  shows "distinct (dfMembers d) \<and> dfOrganizer d \<in> set (dfMembers d) \<and> int (length (dfMembers d)) \<le> dfSlots d \<and>
    (2 \<le> length (dfMembers d) \<and> (\<forall>m\<in>set (dfMembers d). Validate m = None) \<and>
     unat (dfContribution d) * length (dfMembers d) < 2 ^ 64 \<longrightarrow>
     (\<forall>chainID nonce fee memo sig pub. let tx = sentDraft d chainID nonce fee memo sig in
        length memo \<le> 256 \<and> PubKey (dfOrganizer d) = Inr pub \<and> length sig = 64 \<and> ed_verify pub (SignBytes tx) sig \<longrightarrow>
        CheckStateless ed_verify chainID tx = None \<and>
        (\<forall>led. precheck led tx = None \<and> fmlookup (stPools led) (ID sha tx) = None \<longrightarrow> (\<exists>led'. Apply sha led tx = Inr led'))))"
proof -
  have ok: "draft_ok d" using draft_run_ok [OF assms(1) no_drafts_ok] assms(2) store_allD unfolding drafts_ok_def by fast
  have opts: "CheckPool (probeTx (dfOrganizer d) (dfName d) (optionsOf d)) = None" using ok by (simp add: draft_ok_def)
  note o = probe_options [OF opts, unfolded optionsOf_def DraftInput.select_convs]
  let ?n = "length (dfMembers d)" and ?c = "dfContribution d"
  have "CheckPool (draftTx d) = None"
    if two: "2 \<le> ?n" and valid: "\<forall>m\<in>set (dfMembers d). Validate m = None" and fits: "unat ?c * ?n < 2 ^ 64"
  proof -
    have n: "?n \<le> 50" using ok by (auto simp: draft_ok_def)
    then have un: "unat (of_nat ?n :: 64 word) = ?n" by (simp add: unat_of_nat)
    have cn: "unat (?c * of_nat ?n) = unat ?c * ?n" using fits un by (simp add: unat_word_ariths)
    have two_c: "unat ?c * 2 \<le> unat ?c * ?n" using two by simp
    have "unat ?c * 2 < 2 ^ 64" using le_less_trans [OF two_c fits] .
    then have c2: "unat (?c * 2) = unat ?c * 2" by (simp add: unat_word_ariths)
    have "\<not> dfDeposit d > ?c * 2" using o by blast
    then have "unat (dfDeposit d) \<le> unat ?c * ?n" using two_c c2 by (simp only: word_less_nat_alt not_less)
    then have dep: "\<not> dfDeposit d > ?c * of_nat ?n" by (simp only: word_less_nat_alt not_less cn)
    have quot: "\<not> ?c > 18446744073709551615 div of_nat ?n"
    proof -
      have "unat ?c \<le> 18446744073709551615 div ?n" proof -
        have "0 < ?n" using two by linarith
        moreover have "unat ?c * ?n \<le> 18446744073709551615" using fits by simp
        ultimately
        show ?thesis by (simp only: less_eq_div_iff_mult_less_eq)
      qed
      then show ?thesis by (simp add: word_less_nat_alt unat_div un)
    qed
    have members: "checkMembers [] (dfMembers d) = None" using valid ok by (simp add: checkMembers_None draft_ok_def list_all_iff)
    have sender: "dfOrganizer d \<in> set (dfMembers d)" using ok by (simp add: draft_ok_def)
    show ?thesis unfolding CheckPool_def draftTx_def createOp_def emptyTx_def checkPoolOp_def checkPoolCreate_def Let_def
      using o n two dep quot members sender by simp
  qed
  note pool = this
  have org: "dfOrganizer d \<in> set (dfMembers d)" "ValidAsset (dfAsset d)" using ok by (simp_all add: draft_ok_def)
  have "CheckStateless ed_verify chainID (sentDraft d chainID nonce fee memo sig) = None \<and>
      (\<forall>led. precheck led (sentDraft d chainID nonce fee memo sig) = None \<and>
         fmlookup (stPools led) (ID sha (sentDraft d chainID nonce fee memo sig)) = None \<longrightarrow>
         (\<exists>led'. Apply sha led (sentDraft d chainID nonce fee memo sig) = Inr led'))"
    if "2 \<le> ?n" "\<forall>m\<in>set (dfMembers d). Validate m = None" "unat ?c * ?n < 2 ^ 64"
      "length memo \<le> 256" "PubKey (dfOrganizer d) = Inr pub" "length sig = 64"
      "ed_verify pub (SignBytes (sentDraft d chainID nonce fee memo sig)) sig" for chainID nonce fee memo sig pub
  proof -
    have v: "Validate (dfOrganizer d) = None" using that(2) org(1) by blast
    note a = sentDraft_accepted [of d memo pub sig ed_verify chainID nonce fee, OF pool [OF that(1-3)] org(2) v org(1) that(4-7)]
    show ?thesis using a by blast
  qed
  then show ?thesis using ok by (simp add: draft_ok_def Let_def)
qed

text \<open>
  The options are not checked exactly as the chain will. The probe has two members: a circle of five
  with a deposit of three contributions is refused although the chain takes it, and one whose
  contribution is too large for fifty members is accepted although the chain refuses it.
\<close>

definition rich_options :: "amount \<Rightarrow> amount \<Rightarrow> DraftInput" where
  "rich_options contribution deposit = \<lparr>diName = ''ajo'', diAsset = '''', diContribution = contribution, diRoundSecs = 86400, diDeposit = deposit,
     diMode = '''', diInsuranceBps = 0, diTarget = 0, diSlots = 50\<rparr>"

definition key_of :: "char \<Rightarrow> addr" where
  "key_of c = replicate 64 c"

lemma Validate_key: "hexval c = Some k \<Longrightarrow> to_lower c = c \<Longrightarrow> Validate (key_of c) = None"
  using PubKey_replicate [of c k] by (simp add: Validate_def key_of_def)

lemma Validate_keys: "c \<in> set ''0123456789abcdef'' \<Longrightarrow> Validate (key_of c) = None"
  by (rule Validate_key [of c "the (hexval c)"]) (auto simp: hexval_def to_lower_def)

theorem probe_not_exact:
  "CheckPool (probeTx (key_of (CHR ''a'')) ''ajo'' (rich_options 1 3)) = Some (Err ''deposit is larger than a whole pot'') \<and>
   checkPoolOp (emptyTx\<lparr>txFrom := key_of (CHR ''a'')\<rparr>)
     (createOp ''ajo'' (map key_of ''abcde'') 1 86400 3 '''' 0 0) = None \<and>
   CheckPool (probeTx (key_of (CHR ''a'')) ''ajo'' (rich_options 9000000000000000000 0)) = None \<and>
   checkPoolOp (emptyTx\<lparr>txFrom := key_of (CHR ''a'')\<rparr>)
     (createOp ''ajo'' (map key_of ''abc'') 9000000000000000000 86400 0 '''' 0 0) = Some (Err ''contribution too large'')"
proof -
  have eq: "key_of c = key_of e \<longleftrightarrow> c = e" for c e by (simp add: key_of_def)
  have probe: "checkMembers [] [key_of (CHR ''a''), replicate 64 (CHR ''0'')] = None"
    using Validate_keys [of "CHR ''a''"] Validate_keys [of "CHR ''0''"] eq [of "CHR ''a''" "CHR ''0''"]
    by (simp add: checkMembers_None) (simp add: key_of_def)
  have five: "checkMembers [] (map key_of ''abcde'') = None" and three: "checkMembers [] (map key_of ''abc'') = None"
    by (simp_all add: checkMembers_None Validate_keys eq)
  show ?thesis
    unfolding CheckPool_def probeTx_def createOp_def emptyTx_def checkPoolOp_def checkPoolCreate_def rich_options_def Let_def
    using probe five three by (simp add: del: checkMembers.simps)
qed

definition toy_drafts :: "Drafts Store" where
  "toy_drafts = fst (joinDraft None ''ajo_1'' (key_of (CHR ''b'')) (fst (createDraft None 0 ''1'' (key_of (CHR ''a'')) (rich_options 10 0) no_drafts)))"

definition toy_draft :: PoolDraft where
  "toy_draft = \<lparr>dfID = ''ajo_1'', dfOrganizer = key_of (CHR ''a''), dfName = ''ajo'', dfAsset = '''', dfContribution = 10, dfRoundSecs = 86400,
     dfDeposit = 0, dfMode = '''', dfInsuranceBps = 0, dfTarget = 0, dfSlots = 50, dfMembers = [key_of (CHR ''a''), key_of (CHR ''b'')],
     dfStatus = DraftOpen, dfPoolID = '''', dfCreatedAt = 0\<rparr>"

lemma toy_drafts_run: "draft_step\<^sup>*\<^sup>* no_drafts toy_drafts"
  unfolding toy_drafts_def
  by (meson draft_step.create draft_step.join rtranclp.rtrancl_into_rtrancl rtranclp.rtrancl_refl)

lemma toy_drafts_lookup: "fmlookup (soData toy_drafts) ''ajo_1'' = Some toy_draft"
proof -
  have "CheckPool (probeTx (key_of (CHR ''a'')) ''ajo'' (rich_options 10 0)) = None"
  proof -
    have "checkMembers [] [key_of (CHR ''a''), replicate 64 (CHR ''0'')] = None"
      using Validate_keys [of "CHR ''a''"] Validate_keys [of "CHR ''0''"]
      by (simp add: checkMembers_None) (simp add: key_of_def)
    then show ?thesis
      unfolding CheckPool_def probeTx_def createOp_def emptyTx_def checkPoolOp_def checkPoolCreate_def rich_options_def Let_def
      by (simp del: checkMembers.simps)
  qed
  moreover have "TrimSpace ''ajo'' = ''ajo''" by (rule TrimSpace_none) (simp add: is_space_def)
  moreover have "key_of (CHR ''b'') \<noteq> key_of (CHR ''a'')" by (simp add: key_of_def)
  ultimately show ?thesis
    by (simp add: toy_drafts_def createDraft_def joinDraft_def changeDraft_def joinFn_def no_drafts_def Update_def WriteAtomic_def
        toy_draft_def rich_options_def ValidAsset_def writeJSON_def Let_def)
qed

theorem drafts_fit_chain_witness:
  "CheckStateless (\<lambda>_ _ _. True) ''demo'' (sentDraft toy_draft ''demo'' 0 0 '''' (replicate 64 (CHR ''s''))) = None"
proof -
  have "PubKey (dfOrganizer toy_draft) = Inr pub \<Longrightarrow>
      CheckStateless (\<lambda>_ _ _. True) ''demo'' (sentDraft toy_draft ''demo'' 0 0 '''' (replicate 64 (CHR ''s''))) = None" for pub
    using drafts_fit_chain [OF toy_drafts_run toy_drafts_lookup, of "\<lambda>_ _ _. True"] Validate_keys [of "CHR ''a''"] Validate_keys [of "CHR ''b''"]
    by (simp add: toy_draft_def Let_def)
  moreover have "\<exists>pub. PubKey (dfOrganizer toy_draft) = Inr pub"
    using PubKey_replicate [of "CHR ''a''"] by (simp add: toy_draft_def key_of_def hexval_def)
  ultimately show ?thesis by blast
qed

end
