(* ===== verification/Orpay_Invoices.thy ===== *)
theory Orpay_Invoices
  imports Orpay_Apps Orpay_Circles
begin

text \<open>
  Checkouts of the orPay backend: apps/orpay/backend/invoices.go, and the webhook deliveries of
  webhooks.go. An app creates an invoice; the customer pays on-chain with the memo \<open>inv:<id>\<close>; a watcher
  reads the merchant's history, marks the invoice paid or expired, and tells the app by webhook, with
  retries.

  \<open>node\<close> is what the node answers for an address (newest entry first); \<open>order\<close> is an order in which Go
  ranges over the invoices.
\<close>

subsection \<open>Invoices\<close>

datatype InvoiceStatus = InvoicePending | InvoicePaid | InvoiceExpired

record Invoice =
  inID :: string
  inAppID :: string
  inMerchant :: addr
  inAmount :: amount
  inAsset :: string
  inDescription :: string
  inReference :: string
  inReturnURL :: string
  inStatus :: InvoiceStatus
  inCreatedAt :: int
  inExpiresAt :: int
  inPaidAt :: int
  inPaidTx :: string
  inPaidBy :: addr
  inHeight :: "64 word"
  inHookPending :: bool
  inHookTries :: nat
  inHookNextAt :: int

type_synonym Invoices = "(string, Invoice) fmap"

definition Memo :: "string \<Rightarrow> string" where
  "Memo iid = ''inv:'' @ iid"

text \<open>\<open>strings.ToUpper\<close> on ASCII text.\<close>

definition upper :: "char \<Rightarrow> char" where
  "upper c = (if is_lower c then char_of (of_char c - 32 :: nat) else c)"

text \<open>\<open>checkoutAsset\<close>; the node is asked only for an issued asset.\<close>

definition checkoutAsset :: "string \<Rightarrow> err + Status \<Rightarrow> string \<Rightarrow> err + string" where
  "checkoutAsset dflt status currency =
     (let c = map upper (TrimSpace currency) in
      if c = '''' then Inr dflt
      else if c = ''ORP'' then Inr ''''
      else if \<not> ValidAsset c then Inl (Err ''unknown currency'')
      else case status of Inl e \<Rightarrow> Inl e
      | Inr st \<Rightarrow> if list_ex (\<lambda>a. adSymbol (asDef a) = c) (ssAssets st) then Inr c
                  else Inl (Err ''currency is not available on this network''))"

record CheckoutInput =
  ciAmount :: string
  ciCurrency :: string
  ciDescription :: string
  ciReference :: string
  ciReturnURL :: string
  ciExpiresIn :: int

definition newInvoice :: "string \<Rightarrow> App \<Rightarrow> CheckoutInput \<Rightarrow> amount \<Rightarrow> string \<Rightarrow> int \<Rightarrow> int \<Rightarrow> Invoice" where
  "newInvoice rnd app i amt asset mins now =
     \<lparr>inID = rnd, inAppID = apID app, inMerchant = apSettlement app, inAmount = amt, inAsset = asset,
      inDescription = ciDescription i, inReference = ciReference i, inReturnURL = ciReturnURL i,
      inStatus = InvoicePending, inCreatedAt = now, inExpiresAt = now + mins * minute,
      inPaidAt = zeroTime, inPaidTx = '''', inPaidBy = '''', inHeight = 0,
      inHookPending = False, inHookTries = 0, inHookNextAt = zeroTime\<rparr>"

definition createCheckout :: "Lib \<Rightarrow> string \<Rightarrow> err + Status \<Rightarrow> err option \<Rightarrow> int \<Rightarrow> string \<Rightarrow> App \<Rightarrow> CheckoutInput \<Rightarrow> Invoices Store \<Rightarrow>
    Invoices Store \<times> Invoice response" where
  "createCheckout lib dflt status fault now rnd app i s =
     (case ParseAmount (ciAmount i) of Inl _ \<Rightarrow> (s, writeErr 400 (Err ''amount must be a positive decimal string''))
      | Inr amt \<Rightarrow>
        if amt = 0 then (s, writeErr 400 (Err ''amount must be a positive decimal string''))
        else case checkoutAsset dflt status (ciCurrency i) of Inl e \<Rightarrow> (s, writeErr 400 e)
        | Inr asset \<Rightarrow>
          if length (ciDescription i) > 140 \<or> length (ciReference i) > 100
          then (s, writeErr 400 (Err ''description max 140 chars, reference max 100''))
          else case (if ciReturnURL i = '''' then None else validURL lib (ciReturnURL i) False) of Some e \<Rightarrow> (s, writeErr 400 e)
          | None \<Rightarrow>
            (let mins = (if ciExpiresIn i = 0 then 60 else ciExpiresIn i) in
             if mins < 1 \<or> mins > 7 * 24 * 60 then (s, writeErr 400 (Err ''expires_in_minutes must be 1-10080''))
             else (let iv = newInvoice rnd app i amt asset mins now
                   in case Update fault (\<lambda>m. (fmupd (inID iv) iv m, None)) s of
                        (s', Some e) \<Rightarrow> (s', writeErr 500 e)
                      | (s', None) \<Rightarrow> (s', writeJSON 201 iv))))"

definition invoiceAt :: "string \<Rightarrow> Invoices Store \<Rightarrow> Invoice option" where
  "invoiceAt iid s = fmlookup (soData s) iid"

definition getInvoice :: "string \<Rightarrow> Invoices Store \<Rightarrow> Invoice response" where
  "getInvoice iid s = (case invoiceAt iid s of None \<Rightarrow> writeErr 404 (Err ''invoice not found'') | Some iv \<Rightarrow> writeJSON 200 iv)"

definition getCheckout :: "App \<Rightarrow> string \<Rightarrow> Invoices Store \<Rightarrow> Invoice response" where
  "getCheckout app iid s =
     (case invoiceAt iid s of None \<Rightarrow> writeErr 404 (Err ''invoice not found'')
      | Some iv \<Rightarrow> if inAppID iv \<noteq> apID app then writeErr 404 (Err ''invoice not found'') else writeJSON 200 iv)"

definition listCheckouts :: "App \<Rightarrow> InvoiceStatus option \<Rightarrow> string list \<Rightarrow> Invoices Store \<Rightarrow> Invoice list response" where
  "listCheckouts app status order s =
     writeJSON 200 (take 200 (sort_key (\<lambda>iv. - inCreatedAt iv)
       (filter (\<lambda>iv. inAppID iv = apID app \<and> (status = None \<or> status = Some (inStatus iv)))
         (List.map_filter (fmlookup (soData s)) order))))"

subsection \<open>Watching for payments\<close>

text \<open>The payments to a merchant under a memo, oldest first; a memo may go on after a space.\<close>

definition memoKey :: "string \<Rightarrow> string" where
  "memoKey memo = takeWhile (\<lambda>c. c \<noteq> CHR '' '') memo"

definition paymentsFor :: "addr \<Rightarrow> HistoryEntry list \<Rightarrow> string \<Rightarrow> HistoryEntry list" where
  "paymentsFor merchant hist key =
     filter (\<lambda>e. txTo (heTx e) = merchant \<and> txKind (heTx e) \<noteq> KindBurn \<and> startsWith ''inv:'' (txMemo (heTx e)) \<and>
       memoKey (txMemo (heTx e)) = key) (rev hist)"

definition firstCovering :: "HistoryEntry list \<Rightarrow> amount \<Rightarrow> string \<Rightarrow> HistoryEntry option" where
  "firstCovering ps amt asset = find (\<lambda>p. txAsset (heTx p) = asset \<and> txAmount (heTx p) \<ge> amt) ps"

definition settleInvoice :: "HistoryEntry list \<Rightarrow> int \<Rightarrow> Invoice \<Rightarrow> Invoice" where
  "settleInvoice hist now iv =
     (if inStatus iv \<noteq> InvoicePending then iv
      else case firstCovering (paymentsFor (inMerchant iv) hist (Memo (inID iv))) (inAmount iv) (inAsset iv) of
        Some p \<Rightarrow> iv\<lparr>inStatus := InvoicePaid, inPaidAt := heTime p * 1000000, inPaidTx := HashString (heID p), inPaidBy := txFrom (heTx p),
                    inHeight := heHeight p, inHookPending := True, inHookTries := 0, inHookNextAt := now\<rparr>
      | None \<Rightarrow> if now > inExpiresAt iv
                then iv\<lparr>inStatus := InvoiceExpired, inHookPending := True, inHookTries := 0, inHookNextAt := now\<rparr>
                else iv)"

text \<open>One merchant's update: the invoices that were pending when the check began.\<close>

definition settleMerchant :: "err option \<Rightarrow> string list \<Rightarrow> HistoryEntry list \<Rightarrow> int \<Rightarrow> Invoices Store \<Rightarrow> Invoices Store" where
  "settleMerchant fault ids hist now s =
     fst (Update fault (\<lambda>m. (foldl (\<lambda>m iid. case fmlookup m iid of None \<Rightarrow> m | Some iv \<Rightarrow> fmupd iid (settleInvoice hist now iv) m) m ids, None)) s)"

definition pendingOf :: "addr \<Rightarrow> string list \<Rightarrow> Invoices \<Rightarrow> string list" where
  "pendingOf merchant order m =
     filter (\<lambda>iid. case fmlookup m iid of None \<Rightarrow> False | Some iv \<Rightarrow> inStatus iv = InvoicePending \<and> inMerchant iv = merchant) order"

fun settleAllMerchants :: "(addr \<Rightarrow> err option) \<Rightarrow> (addr \<Rightarrow> err + HistoryEntry list) \<Rightarrow> (addr \<Rightarrow> int) \<Rightarrow> (addr \<times> string list) list \<Rightarrow> Invoices Store \<Rightarrow>
    Invoices Store \<times> err option" where
  "settleAllMerchants fault node now [] s = (s, None)"
| "settleAllMerchants fault node now ((merchant, ids) # rest) s =
     (case node merchant of
        Inl e \<Rightarrow> (case settleAllMerchants fault node now rest s of (s', e') \<Rightarrow> (s', if e' = None then Some e else e'))
      | Inr hist \<Rightarrow> settleAllMerchants fault node now rest (settleMerchant (fault merchant) ids hist (now merchant) s))"

text \<open>\<open>checkInvoices\<close>: \<open>merchants\<close> is how Go ranges over the merchants that have pending invoices.\<close>

definition checkInvoices :: "(addr \<Rightarrow> err option) \<Rightarrow> (addr \<Rightarrow> err + HistoryEntry list) \<Rightarrow> (addr \<Rightarrow> int) \<Rightarrow> addr list \<Rightarrow> string list \<Rightarrow> Invoices Store \<Rightarrow>
    Invoices Store \<times> err option" where
  "checkInvoices fault node now merchants order s =
     settleAllMerchants fault node now (map (\<lambda>a. (a, pendingOf a order (soData s))) merchants) s"

subsection \<open>Webhooks\<close>

definition hookBackoff :: "int list" where
  "hookBackoff = [0, 10 * second, minute, 5 * minute, 30 * minute, 2 * hour, 6 * hour, 12 * hour]"

definition SignWebhook :: "(bytes \<Rightarrow> bytes \<Rightarrow> bytes) \<Rightarrow> string \<Rightarrow> int \<Rightarrow> bytes \<Rightarrow> string" where
  "SignWebhook hmac secret ts body =
     ''t='' @ showInt ts @ '',v1='' @ hex_encode (hmac secret (showInt ts @ ''.'' @ body))"

text \<open>What a delivery does to the invoice: \<open>out\<close> is the error of posting to \<open>url\<close>.\<close>

definition hookResult :: "string \<Rightarrow> err option \<Rightarrow> int \<Rightarrow> Invoice \<Rightarrow> Invoice" where
  "hookResult url out now iv =
     (if out = None \<or> url = '''' then iv\<lparr>inHookPending := False\<rparr>
      else if inHookTries iv + 1 \<ge> length hookBackoff then iv\<lparr>inHookTries := inHookTries iv + 1, inHookPending := False\<rparr>
      else iv\<lparr>inHookTries := inHookTries iv + 1, inHookNextAt := now + hookBackoff ! (inHookTries iv + 1)\<rparr>)"

definition hookTarget :: "Apps \<Rightarrow> string \<Rightarrow> string \<times> string" where
  "hookTarget apps aid = (case fmlookup apps aid of None \<Rightarrow> ('''', '''') | Some a \<Rightarrow> (apWebhookURL a, apWebhookSecret a))"

definition hookDue :: "int \<Rightarrow> Invoice \<Rightarrow> bool" where
  "hookDue now iv \<longleftrightarrow> inHookPending iv \<and> \<not> now < inHookNextAt iv"

text \<open>
  \<open>deliverWebhooks\<close>: the jobs are those due in the order ranged over; \<open>post\<close> is the error of posting an
  invoice to a URL under a secret, \<open>later\<close> the clock after each delivery.
\<close>

fun deliverJobs :: "(string \<Rightarrow> string \<Rightarrow> Invoice \<Rightarrow> err option) \<Rightarrow> (string \<Rightarrow> err option) \<Rightarrow> (string \<Rightarrow> int) \<Rightarrow> (Invoice \<times> string \<times> string) list \<Rightarrow>
    Invoices Store \<Rightarrow> Invoices Store" where
  "deliverJobs post fault later [] s = s"
| "deliverJobs post fault later ((iv, url, secret) # rest) s =
     (let out = (if url = '''' then Some (Err ''no webhook URL configured'') else post url secret iv);
          s' = fst (Update (fault (inID iv)) (\<lambda>m. (case fmlookup m (inID iv) of None \<Rightarrow> m
                 | Some cur \<Rightarrow> fmupd (inID iv) (hookResult url out (later (inID iv)) cur) m, None)) s)
      in deliverJobs post fault later rest s')"

definition deliverWebhooks :: "(string \<Rightarrow> string \<Rightarrow> Invoice \<Rightarrow> err option) \<Rightarrow> (string \<Rightarrow> err option) \<Rightarrow> int \<Rightarrow> (string \<Rightarrow> int) \<Rightarrow> Apps \<Rightarrow> string list \<Rightarrow>
    Invoices Store \<Rightarrow> Invoices Store" where
  "deliverWebhooks post fault now later apps order s =
     deliverJobs post fault later (map (\<lambda>iv. (iv, hookTarget apps (inAppID iv)))
       (filter (hookDue now) (List.map_filter (fmlookup (soData s)) order))) s"

subsection \<open>What pays an invoice\<close>

text \<open>A payment on the chain is the invoice's: to its merchant, under its memo, in its asset, of at least its amount.\<close>

definition pays :: "HistoryEntry \<Rightarrow> Invoice \<Rightarrow> bool" where
  "pays e iv \<longleftrightarrow> txTo (heTx e) = inMerchant iv \<and> txKind (heTx e) \<noteq> KindBurn \<and> memoKey (txMemo (heTx e)) = Memo (inID iv) \<and>
     txAsset (heTx e) = inAsset iv \<and> inAmount iv \<le> txAmount (heTx e)"

definition records :: "HistoryEntry \<Rightarrow> Invoice \<Rightarrow> bool" where
  "records e iv \<longleftrightarrow> inPaidTx iv = HashString (heID e) \<and> inPaidBy iv = txFrom (heTx e) \<and> inHeight iv = heHeight e"

definition inv_ok :: "HistoryEntry set \<Rightarrow> string \<Rightarrow> Invoice \<Rightarrow> bool" where
  "inv_ok H iid iv \<longleftrightarrow> inID iv = iid \<and> (inStatus iv = InvoicePaid \<longrightarrow> (\<exists>e\<in>H. pays e iv \<and> records e iv))"

lemma firstCovering_Some:
  assumes "firstCovering (paymentsFor merchant hist key) amt asset = Some p"
  shows "p \<in> set hist \<and> txTo (heTx p) = merchant \<and> txKind (heTx p) \<noteq> KindBurn \<and> memoKey (txMemo (heTx p)) = key \<and>
    txAsset (heTx p) = asset \<and> amt \<le> txAmount (heTx p)"
proof -
  have "p \<in> set (paymentsFor merchant hist key)" "txAsset (heTx p) = asset \<and> txAmount (heTx p) \<ge> amt"
    using assms by (auto simp: firstCovering_def find_Some_iff)
  then show ?thesis by (simp add: paymentsFor_def)
qed

lemma settleInvoice_ok: "inv_ok H iid iv \<Longrightarrow> set hist \<subseteq> H \<Longrightarrow> inv_ok H iid (settleInvoice hist now iv)"
  using firstCovering_Some [of "inMerchant iv" hist "Memo (inID iv)" "inAmount iv" "inAsset iv"]
  by (auto simp: settleInvoice_def inv_ok_def pays_def records_def split: option.split)

lemma settleInvoice_final: "inStatus iv \<noteq> InvoicePending \<Longrightarrow> settleInvoice hist now iv = iv"
  by (simp add: settleInvoice_def)

lemma settle_fold_lookup:
  "fmlookup (foldl (\<lambda>m iid. case fmlookup m iid of None \<Rightarrow> m | Some iv \<Rightarrow> fmupd iid (f iv) m) m ids) k =
     (case fmlookup m k of None \<Rightarrow> None | Some iv \<Rightarrow> Some ((f ^^ count_list ids k) iv))"
proof (induction ids arbitrary: m)
  case Nil
  then show ?case by (simp split: option.split)
next
  case (Cons i ids)
  then show ?case by (cases "fmlookup m i") (auto simp: funpow_swap1 split: option.split)
qed

lemma funpow_ok: "P x \<Longrightarrow> (\<And>y. P y \<Longrightarrow> P (f y)) \<Longrightarrow> P ((f ^^ n) x)"
  by (induction n) auto

lemma settleMerchant_ok:
  assumes "store_all (inv_ok H) s" and "set hist \<subseteq> H"
  shows "store_all (inv_ok H) (settleMerchant fault ids hist now s)"
  unfolding settleMerchant_def
proof (rule store_all_Update [OF assms(1)])
  fix k v
  assume v: "fmlookup (fst (foldl (\<lambda>m iid. case fmlookup m iid of None \<Rightarrow> m | Some iv \<Rightarrow> fmupd iid (settleInvoice hist now iv) m) (soData s) ids, None :: err option)) k = Some v"
  then obtain iv where "fmlookup (soData s) k = Some iv" "v = (settleInvoice hist now ^^ count_list ids k) iv"
    by (auto simp: settle_fold_lookup split: option.splits)
  moreover have "inv_ok H k ((settleInvoice hist now ^^ count_list ids k) iv)"
    using store_allD [OF assms(1) calculation(1)] settleInvoice_ok [OF _ assms(2)] by (rule funpow_ok)
  ultimately show "inv_ok H k v" by simp
qed

lemma settleMerchant_final:
  assumes "fmlookup (soData s) k = Some iv" and "inStatus iv \<noteq> InvoicePending"
  shows "fmlookup (soData (settleMerchant fault ids hist now s)) k = Some iv"
proof -
  have "(settleInvoice hist now ^^ n) iv = iv" for n
    using assms(2) by (induction n) (simp_all add: settleInvoice_final)
  then show ?thesis using assms(1) by (simp add: settleMerchant_def settle_fold_lookup)
qed

lemma settleAllMerchants_ok:
  assumes "store_all (inv_ok H) s" and "\<And>a hist. node a = Inr hist \<Longrightarrow> set hist \<subseteq> H"
  shows "store_all (inv_ok H) (fst (settleAllMerchants fault node now ms s))"
  using assms(1)
proof (induction ms arbitrary: s)
  case (Cons x ms)
  obtain a ids where x: "x = (a, ids)" by (cases x)
  show ?case
  proof (cases "node a")
    case (Inl e)
    then show ?thesis using Cons x by (simp add: split_beta)
  next
    case (Inr hist)
    then show ?thesis using Cons x settleMerchant_ok [OF Cons.prems assms(2) [OF Inr]] by simp
  qed
qed simp

lemma settleAllMerchants_final:
  "fmlookup (soData s) k = Some iv \<Longrightarrow> inStatus iv \<noteq> InvoicePending \<Longrightarrow>
    fmlookup (soData (fst (settleAllMerchants fault node now ms s))) k = Some iv"
proof (induction ms arbitrary: s)
  case (Cons x ms)
  then show ?case by (cases x; cases "node (fst x)") (auto simp: split_beta settleMerchant_final)
qed simp

lemma hookResult_frame [simp]:
  "inStatus (hookResult url out now iv) = inStatus iv" "inID (hookResult url out now iv) = inID iv"
  "inPaidTx (hookResult url out now iv) = inPaidTx iv" "inPaidBy (hookResult url out now iv) = inPaidBy iv"
  "inHeight (hookResult url out now iv) = inHeight iv" "inMerchant (hookResult url out now iv) = inMerchant iv"
  "inAmount (hookResult url out now iv) = inAmount iv" "inAsset (hookResult url out now iv) = inAsset iv"
  by (simp_all add: hookResult_def)

lemma hookResult_ok: "inv_ok H k iv \<Longrightarrow> inv_ok H k (hookResult url out now iv)"
  by (auto simp: inv_ok_def pays_def records_def)

lemma deliverJobs_ok: "store_all (inv_ok H) s \<Longrightarrow> store_all (inv_ok H) (deliverJobs post fault later jobs s)"
proof (induction jobs arbitrary: s)
  case (Cons x jobs)
  obtain iv url secret where x: "x = (iv, url, secret)" by (cases x)
  have "store_all (inv_ok H) (fst (Update (fault (inID iv)) (\<lambda>m. (case fmlookup m (inID iv) of None \<Rightarrow> m
      | Some cur \<Rightarrow> fmupd (inID iv) (hookResult url out (later (inID iv)) cur) m, None)) s))" for out
    using Cons.prems by (rule store_all_Update) (auto dest: store_allD [OF Cons.prems] split: option.splits if_splits intro: hookResult_ok)
  then show ?case using Cons.IH x by (simp add: Let_def)
qed simp

lemma fst_case_result [simp]:
  "fst (case u of (s', e) \<Rightarrow> (case e of None \<Rightarrow> (s', g s') | Some x \<Rightarrow> (s', f s' x))) = fst u"
  by (simp split: prod.split option.split)

lemma createCheckout_ok:
  assumes "store_all (inv_ok H) s"
  shows "store_all (inv_ok H) (fst (createCheckout lib dflt status fault now rnd app i s))"
proof -
  have upd: "store_all (inv_ok H) (fst (Update fault (\<lambda>m. (fmupd (inID (newInvoice rnd app i amt asset mins now)) (newInvoice rnd app i amt asset mins now) m, None)) s))"
    for amt asset mins
    using assms by (rule store_all_Update)
      (use store_allD [OF assms] in \<open>auto simp: inv_ok_def newInvoice_def split: if_splits\<close>)
  show ?thesis
    unfolding createCheckout_def Let_def
    using assms upd by (simp split: sum.split option.split)
qed

text \<open>The backend against a chain whose entries are \<open>H\<close>; answers may be incomplete or missing.\<close>

inductive inv_step :: "HistoryEntry set \<Rightarrow> Invoices Store \<Rightarrow> Invoices Store \<Rightarrow> bool" for H where
  create: "inv_step H s (fst (createCheckout lib dflt status fault now rnd app i s))"
| check: "(\<And>a hist. node a = Inr hist \<Longrightarrow> set hist \<subseteq> H) \<Longrightarrow> inv_step H s (fst (checkInvoices fault' node now' merchants order s))"
| deliver: "inv_step H s (deliverWebhooks post fault'' now later apps order s)"
| restart: "inv_step H s (reopen fmempty s)"

lemma inv_step_ok: "inv_step H s s' \<Longrightarrow> store_all (inv_ok H) s \<Longrightarrow> store_all (inv_ok H) s'"
  by (induction rule: inv_step.induct)
    (simp_all add: checkInvoices_def deliverWebhooks_def createCheckout_ok settleAllMerchants_ok deliverJobs_ok store_all_reopen)

lemma inv_run_ok: "(inv_step H)\<^sup>*\<^sup>* s s' \<Longrightarrow> store_all (inv_ok H) s \<Longrightarrow> store_all (inv_ok H) s'"
  by (induction rule: rtranclp_induct) (blast intro: inv_step_ok)+

subsection \<open>Properties\<close>

text \<open>An invoice but for the progress of its webhook.\<close>

definition settled :: "Invoice \<Rightarrow> Invoice" where
  "settled iv = iv\<lparr>inHookPending := False, inHookTries := 0, inHookNextAt := 0\<rparr>"

lemma settled_hookResult [simp]: "settled (hookResult url out now iv) = settled iv"
  by (simp add: settled_def hookResult_def)

lemma settled_fields:
  assumes "settled iv' = settled iv"
  shows "inStatus iv' = inStatus iv" "inID iv' = inID iv" "inAppID iv' = inAppID iv"
proof -
  have "inStatus (settled iv') = inStatus (settled iv)" "inID (settled iv') = inID (settled iv)"
    "inAppID (settled iv') = inAppID (settled iv)" using assms by simp_all
  then show "inStatus iv' = inStatus iv" "inID iv' = inID iv" "inAppID iv' = inAppID iv" by (simp_all add: settled_def)
qed

text \<open>What the server does to its invoices while it runs and no new invoice draws the id \<open>iid\<close>.\<close>

inductive work_step :: "string \<Rightarrow> Invoices Store \<Rightarrow> Invoices Store \<Rightarrow> bool" for iid where
  create: "rnd \<noteq> iid \<Longrightarrow> work_step iid s (fst (createCheckout lib dflt status fault now rnd app i s))"
| check: "work_step iid s (fst (checkInvoices fault' node now' merchants order s))"
| deliver: "work_step iid s (deliverWebhooks post fault'' now later apps order s)"

lemma createCheckout_other:
  assumes "rnd \<noteq> k"
  shows "fmlookup (soData (fst (createCheckout lib dflt status fault now rnd app i s))) k = fmlookup (soData s) k"
proof -
  have "fmlookup (soData (fst (Update fault (\<lambda>m. (fmupd (inID (newInvoice rnd app i amt asset mins now)) (newInvoice rnd app i amt asset mins now) m, None)) s))) k =
      fmlookup (soData s) k" for amt asset mins
    using assms by (simp add: newInvoice_def)
  then show ?thesis unfolding createCheckout_def Let_def by (simp split: sum.split option.split)
qed

lemma deliverJobs_settled:
  assumes "fmlookup (soData s) k = Some iv"
  shows "\<exists>iv'. fmlookup (soData (deliverJobs post fault later jobs s)) k = Some iv' \<and> settled iv' = settled iv"
  using assms
proof (induction jobs arbitrary: s iv)
  case (Cons x jobs)
  obtain v url secret where x: "x = (v, url, secret)" by (cases x)
  define out where "out = (if url = '''' then Some (Err ''no webhook URL configured'') else post url secret v)"
  define s' where "s' = fst (Update (fault (inID v)) (\<lambda>m. (case fmlookup m (inID v) of None \<Rightarrow> m
      | Some cur \<Rightarrow> fmupd (inID v) (hookResult url out (later (inID v)) cur) m, None)) s)"
  have "\<exists>iv1. fmlookup (soData s') k = Some iv1 \<and> settled iv1 = settled iv"
    using Cons.prems by (auto simp: s'_def split: option.split)
  then obtain iv1 where iv1: "fmlookup (soData s') k = Some iv1" "settled iv1 = settled iv" by blast
  from Cons.IH [OF iv1(1)] show ?case using iv1(2) by (simp add: x s'_def [symmetric] out_def [symmetric] Let_def)
qed simp

lemma work_step_settled:
  assumes "work_step iid s s'" and "fmlookup (soData s) iid = Some iv" and "inStatus iv \<noteq> InvoicePending"
  shows "\<exists>iv'. fmlookup (soData s') iid = Some iv' \<and> settled iv' = settled iv"
  using assms
proof (induction rule: work_step.induct)
  case (create rnd s lib dflt status fault now app i)
  then show ?case by (simp add: createCheckout_other)
next
  case (check s fault' node now' merchants order)
  then show ?case by (simp add: checkInvoices_def settleAllMerchants_final)
next
  case (deliver s post fault'' now later apps order)
  then show ?case by (simp add: deliverWebhooks_def deliverJobs_settled)
qed

lemma work_run_settled:
  assumes "(work_step iid)\<^sup>*\<^sup>* s s'" and "fmlookup (soData s) iid = Some iv" and "inStatus iv \<noteq> InvoicePending"
  shows "\<exists>iv'. fmlookup (soData s') iid = Some iv' \<and> settled iv' = settled iv"
  using assms(1)
proof (induction rule: rtranclp_induct)
  case base
  then show ?case using assms(2) by simp
next
  case (step y z)
  then show ?case using work_step_settled [OF step.hyps(2)] settled_fields(1) assms(3) by metis
qed

text \<open>
  C25: paid invoices. Whatever the backend does, with failing writes, unreachable nodes and restarts, an
  invoice it holds as paid has a payment on the chain to its merchant, under its memo, in its asset and
  of at least its amount, the one it records; and no such payment counts for two invoices. However long the server goes
  on creating other invoices, checking and delivering webhooks, the invoice stays paid, with the same payment and everything
  else but the progress of its webhook. (A restart goes back to the file, which lacks the payment if its write failed.)
\<close>

theorem paid_invoice_is_backed:
  assumes "(inv_step H)\<^sup>*\<^sup>* \<lparr>soData = fmempty, soDisk = None\<rparr> s"
    and "fmlookup (soData s) iid = Some iv" and "inStatus iv = InvoicePaid"
  shows "(\<exists>e\<in>H. pays e iv \<and> records e iv) \<and>
    (\<forall>e iid' iv'. pays e iv \<and> fmlookup (soData s) iid' = Some iv' \<and> pays e iv' \<longrightarrow> iid' = iid) \<and>
    (\<forall>s'. (work_step iid)\<^sup>*\<^sup>* s s' \<longrightarrow> (\<exists>iv'. fmlookup (soData s') iid = Some iv' \<and> settled iv' = settled iv))"
proof -
  have ok: "store_all (inv_ok H) s" by (rule inv_run_ok [OF assms(1) store_all_empty])
  have iv: "inv_ok H iid iv" by (rule store_allD [OF ok assms(2)])
  have "iid' = iid" if "pays e iv" "fmlookup (soData s) iid' = Some iv'" "pays e iv'" for e iid' iv'
    using iv store_allD [OF ok that(2)] that(1,3) by (auto simp: inv_ok_def pays_def Memo_def)
  moreover have "\<exists>iv'. fmlookup (soData s') iid = Some iv' \<and> settled iv' = settled iv" if "(work_step iid)\<^sup>*\<^sup>* s s'" for s'
    using work_run_settled [OF that assms(2)] assms(3) by simp
  ultimately show ?thesis using iv assms(3) by (auto simp: inv_ok_def)
qed

subsection \<open>The schedule of a webhook\<close>

text \<open>A pass of \<open>deliverWebhooks\<close>: what posting answers, the writes, the clock before and after, the order.\<close>

record Pass =
  dpPost :: "string \<Rightarrow> string \<Rightarrow> Invoice \<Rightarrow> err option"
  dpFault :: "string \<Rightarrow> err option"
  dpNow :: int
  dpLater :: "string \<Rightarrow> int"
  dpOrder :: "string list"

definition runPass :: "Apps \<Rightarrow> Pass \<Rightarrow> Invoices Store \<Rightarrow> Invoices Store" where
  "runPass apps p s = deliverWebhooks (dpPost p) (dpFault p) (dpNow p) (dpLater p) apps (dpOrder p) s"

text \<open>
  The tries made for an invoice: the clock of the pass, the clock after the try, whether it failed.
\<close>

fun tries :: "Apps \<Rightarrow> string \<Rightarrow> Pass list \<Rightarrow> Invoices Store \<Rightarrow> (int \<times> int \<times> bool) list" where
  "tries apps iid [] s = []"
| "tries apps iid (p # ps) s =
     (case fmlookup (soData s) iid of
        None \<Rightarrow> tries apps iid ps (runPass apps p s)
      | Some iv \<Rightarrow>
          if hookDue (dpNow p) iv
          then (let (url, secret) = hookTarget apps (inAppID iv)
                in (dpNow p, dpLater p iid, dpPost p url secret iv \<noteq> None)) # tries apps iid ps (runPass apps p s)
          else tries apps iid ps (runPass apps p s))"

definition keyed :: "Invoices Store \<Rightarrow> bool" where
  "keyed s \<longleftrightarrow> (\<forall>k iv. fmlookup (soData s) k = Some iv \<longrightarrow> inID iv = k)"

lemma keyed_jobs:
  assumes "keyed s" and "distinct order"
  defines "ivs \<equiv> List.map_filter (fmlookup (soData s)) order"
  shows "distinct (map inID ivs)" and "\<And>iv. iv \<in> set ivs \<longleftrightarrow> (inID iv \<in> set order \<and> fmlookup (soData s) (inID iv) = Some iv)"
proof -
  have key: "inID iv = k" if "fmlookup (soData s) k = Some iv" for k iv using assms(1) that by (simp add: keyed_def)
  have "map inID ivs = filter (\<lambda>k. fmlookup (soData s) k \<noteq> None) order"
    unfolding ivs_def using key by (induction order) (auto simp: List.map_filter_simps split: option.split)
  then show "distinct (map inID ivs)" using assms(2) by simp
  have "set (List.map_filter (fmlookup (soData s)) xs) = {y. \<exists>x\<in>set xs. fmlookup (soData s) x = Some y}" for xs
    by (induction xs) (auto simp: List.map_filter_simps split: option.splits)
  then have "iv \<in> set ivs \<longleftrightarrow> (\<exists>k\<in>set order. fmlookup (soData s) k = Some iv)" for iv unfolding ivs_def by simp
  then show "iv \<in> set ivs \<longleftrightarrow> (inID iv \<in> set order \<and> fmlookup (soData s) (inID iv) = Some iv)" for iv
    using key by blast
qed

lemma deliverJobs_other:
  "k \<notin> inID ` fst ` set jobs \<Longrightarrow> fmlookup (soData (deliverJobs post fault later jobs s)) k = fmlookup (soData s) k"
  by (induction jobs arbitrary: s) (auto simp: Let_def split: option.split)

lemma deliverJobs_hit:
  assumes "distinct (map (inID \<circ> fst) jobs)" and "(iv, url, secret) \<in> set jobs" and "fmlookup (soData s) (inID iv) = Some cur" and "url \<noteq> ''''"
  shows "fmlookup (soData (deliverJobs post fault later jobs s)) (inID iv) = Some (hookResult url (post url secret iv) (later (inID iv)) cur)"
  using assms
proof (induction jobs arbitrary: s)
  case (Cons x jobs)
  obtain v u c where x: "x = (v, u, c)" by (cases x)
  show ?case
  proof (cases "x = (iv, url, secret)")
    case True
    then have "inID iv \<notin> inID ` fst ` set jobs" using Cons.prems(1) by (auto simp: image_image)
    then show ?thesis using Cons.prems True by (simp add: Let_def deliverJobs_other)
  next
    case False
    then have j: "(iv, url, secret) \<in> set jobs" using Cons.prems(2) by simp
    then have "inID iv \<in> set (map (inID \<circ> fst) jobs)" by force
    moreover have "inID v \<notin> set (map (inID \<circ> fst) jobs)" using Cons.prems(1) x by simp
    ultimately have "inID v \<noteq> inID iv" by metis
    then show ?thesis using Cons.IH [OF _ j] Cons.prems x by (simp add: Let_def split: option.split)
  qed
qed simp

text \<open>One pass: an invoice that is due is tried once, any other is left alone.\<close>

lemma runPass_lookup:
  assumes k: "keyed s" and l: "fmlookup (soData s) iid = Some iv" and o: "distinct (dpOrder p)" "iid \<in> set (dpOrder p)"
    and u: "hookTarget apps (inAppID iv) = (url, secret)" "url \<noteq> ''''"
  shows "fmlookup (soData (runPass apps p s)) iid =
    Some (if hookDue (dpNow p) iv then hookResult url (dpPost p url secret iv) (dpLater p iid) iv else iv)"
proof -
  have id: "inID iv = iid" using k l by (simp add: keyed_def)
  let ?ivs = "List.map_filter (fmlookup (soData s)) (dpOrder p)"
  let ?jobs = "map (\<lambda>iv. (iv, hookTarget apps (inAppID iv))) (filter (hookDue (dpNow p)) ?ivs)"
  note j = keyed_jobs [OF k o(1)]
  have d: "distinct (map (inID \<circ> fst) ?jobs)"
    using j(1) by (simp add: o_def distinct_map_filter)
  show ?thesis
  proof (cases "hookDue (dpNow p) iv")
    case True
    then have "(iv, url, secret) \<in> set ?jobs" using j(2) [of iv] l o(2) id u by (auto simp: image_iff)
    from deliverJobs_hit [OF d this, of s iv] l id u True show ?thesis by (simp add: runPass_def deliverWebhooks_def)
  next
    case False
    have "iid \<notin> inID ` fst ` set ?jobs"
    proof
      assume "iid \<in> inID ` fst ` set ?jobs"
      then obtain v where "v \<in> set ?ivs" "hookDue (dpNow p) v" "inID v = iid" by auto
      then have "v = iv" using j(2) [of v] l by simp
      then show False using False \<open>hookDue (dpNow p) v\<close> by simp
    qed
    then show ?thesis using l False by (simp add: runPass_def deliverWebhooks_def deliverJobs_other)
  qed
qed

lemma deliverJobs_keyed: "keyed s \<Longrightarrow> keyed (deliverJobs post fault later jobs s)"
proof (induction jobs arbitrary: s)
  case (Cons x jobs)
  obtain v u c where x: "x = (v, u, c)" by (cases x)
  show ?case unfolding x deliverJobs.simps Let_def
    by (rule Cons.IH) (use Cons.prems in \<open>auto simp: keyed_def split: option.split\<close>)
qed simp

lemma tries_append: "tries apps iid (ps @ qs) s = tries apps iid ps s @ tries apps iid qs (fold (runPass apps) ps s)"
  by (induction ps arbitrary: s) (simp_all split: option.split)

lemma keyed_run: "keyed s \<Longrightarrow> keyed (fold (runPass apps) ps s)"
  by (induction ps arbitrary: s) (simp_all add: runPass_def deliverWebhooks_def deliverJobs_keyed)

text \<open>The schedule an invoice has kept after the tries \<open>ts\<close>; it began waiting until \<open>at\<close>.\<close>

definition on_schedule :: "int \<Rightarrow> (int \<times> int \<times> bool) list \<Rightarrow> Invoice \<Rightarrow> bool" where
  "on_schedule at ts iv \<longleftrightarrow>
     length ts \<le> 8 \<and> inHookTries iv = length (filter (snd \<circ> snd) ts) \<and>
     (inHookPending iv \<longleftrightarrow> length ts < 8 \<and> (\<forall>t\<in>set ts. snd (snd t))) \<and>
     (inHookPending iv \<longrightarrow> inHookNextAt iv = (if ts = [] then at else fst (snd (last ts)) + hookBackoff ! length ts)) \<and>
     (\<forall>j. Suc j < length ts \<longrightarrow> snd (snd (ts ! j)) \<and> fst (snd (ts ! j)) + hookBackoff ! Suc j \<le> fst (ts ! Suc j))"

lemma on_schedule_try:
  assumes sch: "on_schedule at ts iv" and due: "hookDue now iv" and url: "url \<noteq> ''''"
  shows "on_schedule at (ts @ [(now, later, out \<noteq> None)]) (hookResult url out later iv)"
proof -
  have p: "inHookPending iv" "inHookNextAt iv \<le> now" using due by (simp_all add: hookDue_def)
  then have len: "length ts < 8" and failed: "\<forall>t\<in>set ts. snd (snd t)" using sch by (simp_all add: on_schedule_def)
  then have tr: "inHookTries iv = length ts" using sch by (simp add: on_schedule_def filter_id_conv)
  have b: "length hookBackoff = 8" by (simp add: hookBackoff_def)
  have gap: "fst (snd (ts ! j)) + hookBackoff ! Suc j \<le> now" if "Suc j = length ts" for j
  proof -
    have "ts \<noteq> []" "length ts - 1 = j" using that by auto
    then have "ts \<noteq> []" "last ts = ts ! j" using last_conv_nth [of ts] by simp_all
    then show ?thesis using sch p that by (simp add: on_schedule_def)
  qed
  have old: "snd (snd (ts ! j)) \<and> fst (snd (ts ! j)) + hookBackoff ! Suc j \<le> fst (ts ! Suc j)" if "Suc j < length ts" for j
    using sch that by (simp add: on_schedule_def)
  have steps: "snd (snd ((ts @ [x]) ! j)) \<and> fst (snd ((ts @ [x]) ! j)) + hookBackoff ! Suc j \<le> fst ((ts @ [x]) ! Suc j)"
    if "Suc j < length (ts @ [x])" "fst x = now" for j x
    using that old [of j] gap [of j] failed nth_mem [of j ts] by (cases "Suc j = length ts") (auto simp: nth_append)
  show ?thesis unfolding on_schedule_def
    using len tr failed b url p steps [of _ "(now, later, out \<noteq> None)"]
    by (auto simp: hookResult_def filter_id_conv)
qed

text \<open>
  C26: webhook deliveries end, and keep their times. Take an invoice whose webhook is to be delivered to an app with a
  webhook address, and let any passes of \<open>deliverWebhooks\<close> run, each over all invoices. Nothing but the webhook's progress
  changes. The invoice is tried at exactly those passes at which it is due: at most eight times; it waits on exactly while
  fewer than eight tries were made and all of them failed (so it is given up only after eight failures); the failures are
  counted; after the k-th failure the next try is set to exactly the backoff of k after it; and every try
  but the first follows a failed one and comes no earlier than that.
\<close>

theorem webhook_retries_end:
  assumes "keyed s" and "fmlookup (soData s) iid = Some iv" and "inHookPending iv" and "inHookTries iv = 0"
    and "hookTarget apps (inAppID iv) = (url, secret)" and "url \<noteq> ''''"
    and "\<forall>p\<in>set ps. distinct (dpOrder p) \<and> iid \<in> set (dpOrder p)"
  shows "\<exists>iv'. fmlookup (soData (fold (runPass apps) ps s)) iid = Some iv' \<and> settled iv' = settled iv \<and>
    (let ts = tries apps iid ps s in
     length ts \<le> 8 \<and> inHookTries iv' = length (filter (\<lambda>(now, later, failed). failed) ts) \<and>
     (inHookPending iv' \<longleftrightarrow> length ts < 8 \<and> (\<forall>(now, later, failed)\<in>set ts. failed)) \<and>
     (inHookPending iv' \<longrightarrow> inHookNextAt iv' = (if ts = [] then inHookNextAt iv else fst (snd (last ts)) + hookBackoff ! length ts)) \<and>
     (\<forall>j. Suc j < length ts \<longrightarrow> snd (snd (ts ! j)) \<and> fst (snd (ts ! j)) + hookBackoff ! Suc j \<le> fst (ts ! Suc j)))"
proof -
  have "\<exists>iv'. fmlookup (soData (fold (runPass apps) ps s)) iid = Some iv' \<and> settled iv' = settled iv \<and>
      on_schedule (inHookNextAt iv) (tries apps iid ps s) iv'"
    using assms(7)
  proof (induction ps rule: rev_induct)
    case Nil
    then show ?case using assms(2-4) by (simp add: on_schedule_def)
  next
    case (snoc p ps)
    let ?s = "fold (runPass apps) ps s"
    obtain v where v: "fmlookup (soData ?s) iid = Some v" "settled v = settled iv" "on_schedule (inHookNextAt iv) (tries apps iid ps s) v"
      using snoc by auto
    have t: "hookTarget apps (inAppID v) = (url, secret)" using assms(5) settled_fields(3) [OF v(2)] by simp
    have o: "distinct (dpOrder p)" "iid \<in> set (dpOrder p)" using snoc.prems by simp_all
    note l = runPass_lookup [OF keyed_run [OF assms(1)] v(1) o t assms(6)]
    show ?case
    proof (cases "hookDue (dpNow p) v")
      case True
      have "tries apps iid (ps @ [p]) s = tries apps iid ps s @ [(dpNow p, dpLater p iid, dpPost p url secret v \<noteq> None)]"
        using True by (simp add: tries_append v(1) t)
      then show ?thesis using l True v(2) on_schedule_try [OF v(3) True assms(6), of "dpLater p iid" "dpPost p url secret v"] by simp
    next
      case False
      then have "tries apps iid (ps @ [p]) s = tries apps iid ps s" by (simp add: tries_append v(1))
      then show ?thesis using l False v by simp
    qed
  qed
  then show ?thesis unfolding on_schedule_def Let_def by (simp add: case_prod_unfold comp_def)
qed

definition toy_payment :: HistoryEntry where
  "toy_payment = \<lparr>heID = '''', heHeight = 7, heTime = 1, heTx = emptyTx\<lparr>txFrom := ''k9'', txTo := ''k1'', txAmount := 5000000, txMemo := ''inv:9 thanks''\<rparr>\<rparr>"

definition toy_order :: CheckoutInput where
  "toy_order = \<lparr>ciAmount = ''5'', ciCurrency = '''', ciDescription = '''', ciReference = '''', ciReturnURL = '''', ciExpiresIn = 0\<rparr>"

definition toy_invoice :: Invoice where
  "toy_invoice = newInvoice ''9'' (toy_app ''app_1'' ''k1'') toy_order 5000000 '''' 60 0"

definition toy_lib :: Lib where
  "toy_lib = \<lparr>lbNameRe = \<lambda>_. True, lbEqualFold = (=), lbParseURL = \<lambda>u. Some (''https'', u, u), lbLookupIP = \<lambda>_. Inr [], lbPublic = \<lambda>_. True\<rparr>"

definition toy_created :: "Invoices Store" where
  "toy_created = fst (createCheckout toy_lib '''' (Inl (Err '''')) None 0 ''9'' (toy_app ''app_1'' ''k1'') toy_order \<lparr>soData = fmempty, soDisk = None\<rparr>)"

definition toy_checked :: "Invoices Store" where
  "toy_checked = fst (checkInvoices (\<lambda>_. None) (\<lambda>_. Inr [toy_payment]) (\<lambda>_. 3) [''k1''] [''9''] toy_created)"

lemma toy_checked_run: "(inv_step {toy_payment})\<^sup>*\<^sup>* \<lparr>soData = fmempty, soDisk = None\<rparr> toy_checked"
proof -
  have "inv_step {toy_payment} \<lparr>soData = fmempty, soDisk = None\<rparr> toy_created"
    unfolding toy_created_def by (rule inv_step.create)
  moreover have "inv_step {toy_payment} toy_created toy_checked"
    unfolding toy_checked_def by (rule inv_step.check) auto
  ultimately show ?thesis by (meson rtranclp.rtrancl_into_rtrancl rtranclp.rtrancl_refl)
qed

lemma toy_amount: "ParseAmount ''5'' = Inr 5000000"
proof -
  have "replicate 6 (CHR ''0'') = ''000000''" by (simp add: eval_nat_numeral)
  then show ?thesis by (simp add: ParseAmount_def ParseUint_def digits_def dval_def is_digit_def Unit_def Let_def)
qed

lemma toy_created_data: "soData toy_created = fmupd ''9'' toy_invoice fmempty"
  by (simp add: toy_created_def createCheckout_def toy_order_def toy_amount checkoutAsset_def TrimSpace_def toy_invoice_def
      newInvoice_def Update_def WriteAtomic_def Let_def writeJSON_def)

lemma toy_checked_paid: "fmlookup (soData toy_checked) ''9'' = Some (settleInvoice [toy_payment] 3 toy_invoice)"
  by (simp add: toy_checked_def checkInvoices_def pendingOf_def toy_created_data settleMerchant_def)
    (simp add: toy_invoice_def newInvoice_def toy_app_def)

theorem paid_invoice_is_backed_witness:
  "inStatus (the (fmlookup (soData toy_checked) ''9'')) = InvoicePaid \<and> pays toy_payment (the (fmlookup (soData toy_checked) ''9''))"
proof -
  have "inStatus (settleInvoice [toy_payment] 3 toy_invoice) = InvoicePaid"
    by (simp add: settleInvoice_def toy_invoice_def newInvoice_def toy_app_def firstCovering_def paymentsFor_def toy_payment_def
        startsWith_def memoKey_def Memo_def emptyTx_def)
  then show ?thesis using paid_invoice_is_backed [OF toy_checked_run toy_checked_paid] toy_checked_paid by simp
qed

definition toy_pass :: "int \<Rightarrow> Pass" where
  "toy_pass t = \<lparr>dpPost = \<lambda>_ _ _. Some (Err ''down''), dpFault = \<lambda>_. None, dpNow = t, dpLater = \<lambda>_. t + 1, dpOrder = [''9'']\<rparr>"

definition toy_hook :: "Invoices Store" where
  "toy_hook = \<lparr>soData = fmupd ''9'' (toy_invoice\<lparr>inHookPending := True\<rparr>) fmempty, soDisk = None\<rparr>"

theorem webhook_retries_end_witness:
  "\<exists>iv'. fmlookup (soData (fold (runPass (fmupd ''app_1'' (toy_app ''app_1'' ''k1''\<lparr>apWebhookURL := ''https://a.b''\<rparr>) fmempty))
       [toy_pass 5, toy_pass 6] toy_hook)) ''9'' = Some iv' \<and> settled iv' = settled toy_invoice"
proof -
  let ?apps = "fmupd ''app_1'' (toy_app ''app_1'' ''k1''\<lparr>apWebhookURL := ''https://a.b''\<rparr>) fmempty"
  let ?iv = "toy_invoice\<lparr>inHookPending := True\<rparr>"
  have f: "inID toy_invoice = ''9''" "inAppID toy_invoice = ''app_1''" "inHookTries toy_invoice = 0" "\<not> inHookPending toy_invoice"
    by (simp_all add: toy_invoice_def newInvoice_def toy_app_def)
  have k: "keyed toy_hook" "fmlookup (soData toy_hook) ''9'' = Some ?iv" by (auto simp: keyed_def toy_hook_def f)
  have i: "inHookPending ?iv" "inHookTries ?iv = 0" by (simp_all add: f)
  have t: "hookTarget ?apps (inAppID ?iv) = (''https://a.b'', apWebhookSecret (toy_app ''app_1'' ''k1''))" by (simp add: hookTarget_def f)
  have u: "''https://a.b'' \<noteq> ''''" by simp
  have o: "\<forall>p\<in>set [toy_pass 5, toy_pass 6]. distinct (dpOrder p) \<and> ''9'' \<in> set (dpOrder p)" by (simp add: toy_pass_def)
  obtain iv' where "fmlookup (soData (fold (runPass ?apps) [toy_pass 5, toy_pass 6] toy_hook)) ''9'' = Some iv'" "settled iv' = settled ?iv"
    using webhook_retries_end [OF k i t u o] by blast
  moreover have "settled ?iv = settled toy_invoice" by (simp add: settled_def)
  ultimately show ?thesis by (intro exI [of _ iv'] conjI) simp_all
qed

end
