(* ===== verification/Orpay_Escrows.thy ===== *)
theory Orpay_Escrows
  imports Orpay_Invoices "HOL-Library.Sublist"
begin

text \<open>
  Escrow requests of the orPay backend: apps/orpay/backend/escrows.go and escrowlinks.go, the terms of
  escrowchat.go and the parcel updates of courier.go. An app, or a person by a link, asks a buyer to lock
  funds; the buyer creates the escrow on-chain with the request's id as its reference; a watcher links
  the request to that escrow, follows it, and queues a webhook event for every change it sees.

  An escrow as the node reports it is the ledger's record. A view shown to apps is the request without
  its events, with the public view of its app.
\<close>

subsection \<open>Requests\<close>

datatype RequestStatus = EscrowAwaiting | EscrowLinked | EscrowNoFund | EscrowCancel | EscrowMissing

record Milestone =
  miLabel :: string
  miAmount :: amount

record Delivery =
  dlCourier :: string
  dlRef :: string
  dlState :: string
  dlDetail :: string
  dlAt :: int

record EscrowCore =
  erID :: string
  erAppID :: string
  erSeller :: addr
  erArbiter :: addr
  erAsset :: string
  erMilestones :: "Milestone list"
  erShipByDays :: int
  erReviewDays :: int
  erDescription :: string
  erReference :: string
  erReturnURL :: string
  erPolicy :: string
  erTermsHash :: string
  erStatus :: RequestStatus
  erCreatedAt :: int
  erExpiresAt :: int
  erEscrowID :: string
  erChain :: "Escrow option"
  erKind :: string
  erChecklist :: "string list"
  erArbiterBps :: "32 word"
  erDelivery :: "Delivery option"

record HookEvent =
  hkType :: string
  hkData :: "EscrowCore \<times> PublicApp option"
  hkAt :: int
  hkTries :: nat
  hkNextAt :: int

record EscrowRequest = EscrowCore +
  erEvents :: "HookEvent list"

type_synonym Requests = "(string, EscrowRequest) fmap"

definition requestTotal :: "EscrowRequest \<Rightarrow> amount" where
  "requestTotal r = sum_list (map miAmount (erMilestones r))"

definition escrowView :: "Apps \<Rightarrow> EscrowRequest \<Rightarrow> EscrowCore \<times> PublicApp option" where
  "escrowView apps er = (EscrowCore.truncate er, map_option publicView (fmlookup apps (erAppID er)))"

definition escrowKinds :: "string set" where
  "escrowKinds = {'''', ''goods'', ''service'', ''rent''}"

subsection \<open>Terms\<close>

record Terms =
  tmText :: string
  tmCreatedAt :: int

definition storeTerms :: "(bytes \<Rightarrow> hash) \<Rightarrow> err option \<Rightarrow> int \<Rightarrow> string \<Rightarrow> (string, Terms) fmap Store \<Rightarrow> (string, Terms) fmap Store \<times> (err + string)" where
  "storeTerms sha fault now raw s =
     (let text = TrimSpace raw in
      if text = '''' \<or> length text > 4000 then (s, Inl (Err ''terms must be 1-4000 characters''))
      else (let h = hex_encode (sha text);
                (s', e) = Update fault (\<lambda>m. (if fmlookup m h = None then fmupd h \<lparr>tmText = text, tmCreatedAt = now\<rparr> m else m, None)) s
            in (s', case e of Some e \<Rightarrow> Inl e | None \<Rightarrow> Inr h)))"

definition getTerms :: "string \<Rightarrow> (string, Terms) fmap Store \<Rightarrow> Terms response" where
  "getTerms h s = (case fmlookup (soData s) h of None \<Rightarrow> writeErr 404 (Err ''terms not found'') | Some t \<Rightarrow> writeJSON 200 t)"

subsection \<open>Making a request\<close>

record EscrowInput =
  eiSeller :: string
  eiArbiter :: string
  eiCurrency :: string
  eiMilestones :: "(string \<times> string) list"
  eiShipByDays :: int
  eiReviewDays :: int
  eiDescription :: string
  eiReference :: string
  eiReturnURL :: string
  eiFundWithinH :: int
  eiPolicy :: string
  eiKind :: string
  eiChecklist :: "string list"

definition amountOk :: "string \<Rightarrow> amount \<Rightarrow> bool" where
  "amountOk asset amt \<longleftrightarrow> amt \<noteq> 0 \<and> \<not> (asset = ''NGN'' \<and> amt mod 10000 \<noteq> 0)"

text \<open>The milestones, numbered from \<open>i\<close>: pairs of a label and an amount as text.\<close>

fun readMilestones :: "string \<Rightarrow> nat \<Rightarrow> (string \<times> string) list \<Rightarrow> err + Milestone list" where
  "readMilestones asset i [] = Inr []"
| "readMilestones asset i ((label0, text) # ms) =
     (case ParseAmount text of Inl _ \<Rightarrow> Inl (Err ''milestone amount must be a positive decimal string'')
      | Inr amt \<Rightarrow>
        if \<not> amountOk asset amt then Inl (Err ''milestone amount must be a positive decimal string'')
        else (let trimmed = TrimSpace label0;
                  label = (if trimmed = '''' then ''Milestone '' @ showNat (i + 1) else trimmed)
              in if length label > 80 then Inl (Err ''milestone label too long'')
                 else (case readMilestones asset (i + 1) ms of Inl e \<Rightarrow> Inl e
                       | Inr rest \<Rightarrow> Inr (\<lparr>miLabel = label, miAmount = amt\<rparr> # rest))))"

definition orDays :: "int \<Rightarrow> int \<Rightarrow> int" where
  "orDays n d = (if n = 0 then d else n)"

definition readChecklist :: "string list \<Rightarrow> string list" where
  "readChecklist cs = filter (\<lambda>c. c \<noteq> '''') (map TrimSpace cs)"

text \<open>The \<open>switch\<close> over the remaining fields.\<close>

definition checkFields :: "EscrowInput \<Rightarrow> err option" where
  "checkFields i =
     (let ship = orDays (eiShipByDays i) 14; review = orDays (eiReviewDays i) 3; fund = orDays (eiFundWithinH i) 72;
          checklist = readChecklist (eiChecklist i)
      in if ship < 1 \<or> ship > 365 then Some (Err ''ship_by_days must be 1-365'')
         else if review < 1 \<or> review > 90 then Some (Err ''review_days must be 1-90'')
         else if fund < 1 \<or> fund > 30 * 24 then Some (Err ''fund_within_hours must be 1-720'')
         else if length (eiDescription i) > 280 \<or> length (eiReference i) > 100 then Some (Err ''description max 280 chars, reference max 100'')
         else if eiKind i \<notin> escrowKinds then Some (Err ''kind must be goods, service or rent'')
         else if length checklist > 20 \<or> list_ex (\<lambda>c. length c > 120) checklist then Some (Err ''checklist: up to 20 items of 120 characters'')
         else None)"

text \<open>
  \<open>newEscrowRequest\<close>: \<open>fee\<close> is what the arbiter asks (\<open>arbiterFee\<close>), \<open>rnd\<close> random; the terms, when there are
  any, are stored before the request.
\<close>

definition newRequest :: "string \<Rightarrow> string \<Rightarrow> addr \<Rightarrow> addr \<Rightarrow> string \<Rightarrow> Milestone list \<Rightarrow> string \<Rightarrow> string \<Rightarrow> 32 word \<Rightarrow> int \<Rightarrow> EscrowInput \<Rightarrow> EscrowRequest" where
  "newRequest rnd appID seller arbiter asset ms policy terms fee now i =
     \<lparr>erID = ''esr_'' @ rnd, erAppID = appID, erSeller = seller, erArbiter = arbiter, erAsset = asset, erMilestones = ms,
      erShipByDays = orDays (eiShipByDays i) 14, erReviewDays = orDays (eiReviewDays i) 3, erDescription = eiDescription i,
      erReference = eiReference i, erReturnURL = eiReturnURL i, erPolicy = policy, erTermsHash = terms, erStatus = EscrowAwaiting,
      erCreatedAt = now, erExpiresAt = now + orDays (eiFundWithinH i) 72 * hour, erEscrowID = '''', erChain = None, erKind = eiKind i,
      erChecklist = readChecklist (eiChecklist i), erArbiterBps = fee, erDelivery = None, erEvents = []\<rparr>"

text \<open>What \<open>newEscrowRequest\<close> checks of the input, in order: arbiter, currency, milestones, the other fields, the return URL.\<close>

definition readInput :: "Lib \<Rightarrow> Directory \<Rightarrow> string \<Rightarrow> err + Status \<Rightarrow> addr \<Rightarrow> addr \<Rightarrow> EscrowInput \<Rightarrow> err + addr \<times> string \<times> Milestone list" where
  "readInput lib d dflt status seller arbiter0 i =
     (case (if eiArbiter i = '''' then Inr arbiter0 else resolveRef d (eiArbiter i)) of
        Inl e \<Rightarrow> Inl (Wrap ''arbiter'' e)
      | Inr arbiter \<Rightarrow>
        if arbiter = '''' then Inl (Err ''no arbiter available: choose one'')
        else if arbiter = seller then Inl (Err ''the arbiter must be independent of the seller'')
        else case checkoutAsset dflt status (eiCurrency i) of Inl e \<Rightarrow> Inl e
        | Inr asset \<Rightarrow>
          if length (eiMilestones i) = 0 \<or> length (eiMilestones i) > 10 then Inl (Err ''give 1-10 milestones'')
          else case readMilestones asset 0 (eiMilestones i) of Inl e \<Rightarrow> Inl e
          | Inr ms \<Rightarrow>
            (case checkFields i of Some e \<Rightarrow> Inl e
             | None \<Rightarrow>
               (case (if eiReturnURL i = '''' then None else validURL lib (eiReturnURL i) False) of
                  Some e \<Rightarrow> Inl e | None \<Rightarrow> Inr (arbiter, asset, ms))))"

definition policyOf :: "string \<Rightarrow> EscrowInput \<Rightarrow> string" where
  "policyOf defaultPolicy i = (let trimmed = TrimSpace (eiPolicy i) in if trimmed = '''' then defaultPolicy else trimmed)"

definition storePolicy :: "(bytes \<Rightarrow> hash) \<Rightarrow> err option \<Rightarrow> int \<Rightarrow> string \<Rightarrow> (string, Terms) fmap Store \<Rightarrow> (string, Terms) fmap Store \<times> (err + string)" where
  "storePolicy sha fault now policy t =
     (if policy = '''' then (t, Inr '''')
      else (case storeTerms sha fault now policy t of (t', Inl e) \<Rightarrow> (t', Inl (Wrap ''policy'' e)) | (t', Inr h) \<Rightarrow> (t', Inr h)))"

definition storeRequest :: "err option \<Rightarrow> EscrowRequest \<Rightarrow> Requests Store \<Rightarrow> Requests Store \<times> err option" where
  "storeRequest fault er s = Update fault (\<lambda>m. (fmupd (erID er) er m, None)) s"

definition newEscrowRequest :: "(bytes \<Rightarrow> hash) \<Rightarrow> Lib \<Rightarrow> Directory \<Rightarrow> string \<Rightarrow> err + Status \<Rightarrow> (addr \<Rightarrow> 32 word) \<Rightarrow> err option \<Rightarrow> err option \<Rightarrow> int \<Rightarrow> string \<Rightarrow>
    string \<Rightarrow> addr \<Rightarrow> addr \<Rightarrow> string \<Rightarrow> EscrowInput \<Rightarrow> (string, Terms) fmap Store \<times> Requests Store \<Rightarrow>
    ((string, Terms) fmap Store \<times> Requests Store) \<times> (err + EscrowRequest)" where
  "newEscrowRequest sha lib d dflt status fee faultT fault now rnd appID seller arbiter0 defaultPolicy i ts =
     (case readInput lib d dflt status seller arbiter0 i of Inl e \<Rightarrow> (ts, Inl e)
      | Inr (arbiter, asset, ms) \<Rightarrow>
        (let policy = policyOf defaultPolicy i in
         case storePolicy sha faultT now policy (fst ts) of (t', Inl e) \<Rightarrow> ((t', snd ts), Inl e)
         | (t', Inr h) \<Rightarrow>
           (let er = newRequest rnd appID seller arbiter asset ms policy h (fee arbiter) now i
            in case storeRequest fault er (snd ts) of
                 (s', Some e) \<Rightarrow> ((t', s'), Inl e)
               | (s', None) \<Rightarrow> ((t', s'), Inr er))))"

definition requestAt :: "string \<Rightarrow> Requests Store \<Rightarrow> EscrowRequest option" where
  "requestAt rid s = fmlookup (soData s) rid"

definition getEscrowRequest :: "Apps \<Rightarrow> string \<Rightarrow> Requests Store \<Rightarrow> (EscrowCore \<times> PublicApp option) response" where
  "getEscrowRequest apps rid s =
     (case requestAt rid s of None \<Rightarrow> writeErr 404 (Err ''escrow request not found'') | Some er \<Rightarrow> writeJSON 200 (escrowView apps er))"

definition getAppEscrow :: "Apps \<Rightarrow> App \<Rightarrow> string \<Rightarrow> Requests Store \<Rightarrow> (EscrowCore \<times> PublicApp option) response" where
  "getAppEscrow apps app rid s =
     (case requestAt rid s of None \<Rightarrow> writeErr 404 (Err ''escrow not found'')
      | Some er \<Rightarrow> if erAppID er \<noteq> apID app then writeErr 404 (Err ''escrow not found'') else writeJSON 200 (escrowView apps er))"

text \<open>\<open>cancelAppEscrow\<close> and \<open>cancelEscrowLink\<close> differ in whose request it may be, and in what they answer otherwise.\<close>

abbreviation errNotFound :: err where "errNotFound \<equiv> Err ''not found''"

definition cancelRequest :: "(EscrowRequest \<Rightarrow> bool) \<Rightarrow> string \<Rightarrow> string \<Rightarrow> Apps \<Rightarrow> err option \<Rightarrow> string \<Rightarrow> Requests Store \<Rightarrow>
    Requests Store \<times> (EscrowCore \<times> PublicApp option) response" where
  "cancelRequest mine missing busy apps fault rid s =
     (case Update fault (\<lambda>m. case fmlookup m rid of None \<Rightarrow> (m, Some errNotFound)
             | Some er \<Rightarrow> if \<not> mine er then (m, Some errNotFound)
                 else if erStatus er \<noteq> EscrowAwaiting then (m, Some (Err busy))
                 else (fmupd rid (er\<lparr>erStatus := EscrowCancel\<rparr>) m, None)) s of
        (s', Some e) \<Rightarrow> (s', if e = errNotFound then writeErr 404 (Err missing) else writeErr 409 e)
      | (s', None) \<Rightarrow> (s', writeJSON 200 (escrowView apps (the (fmlookup (soData s') rid)))))"

definition cancelAppEscrow :: "App \<Rightarrow> Apps \<Rightarrow> err option \<Rightarrow> string \<Rightarrow> Requests Store \<Rightarrow> Requests Store \<times> (EscrowCore \<times> PublicApp option) response" where
  "cancelAppEscrow app = cancelRequest (\<lambda>er. erAppID er = apID app) ''escrow not found'' ''only unfunded escrows can be cancelled''"

definition cancelEscrowLink :: "addr \<Rightarrow> Apps \<Rightarrow> err option \<Rightarrow> string \<Rightarrow> Requests Store \<Rightarrow> Requests Store \<times> (EscrowCore \<times> PublicApp option) response" where
  "cancelEscrowLink me = cancelRequest (\<lambda>er. erAppID er = '''' \<and> erSeller er = me) ''escrow link not found''
     ''only links nobody has paid yet can be cancelled''"

definition listAppEscrows :: "Apps \<Rightarrow> App \<Rightarrow> string list \<Rightarrow> Requests Store \<Rightarrow> (EscrowCore \<times> PublicApp option) list response" where
  "listAppEscrows apps app order s =
     writeJSON 200 (map (escrowView apps) (take 200 (sort_key (\<lambda>er. - erCreatedAt er)
       (filter (\<lambda>er. erAppID er = apID app) (List.map_filter (fmlookup (soData s)) order)))))"

definition myEscrowLinks :: "Apps \<Rightarrow> addr \<Rightarrow> string list \<Rightarrow> Requests Store \<Rightarrow> (EscrowCore \<times> PublicApp option) list response" where
  "myEscrowLinks apps me order s =
     writeJSON 200 (map (escrowView apps) (take 50 (sort_key (\<lambda>er. - erCreatedAt er)
       (filter (\<lambda>er. erAppID er = '''' \<and> erSeller er = me) (List.map_filter (fmlookup (soData s)) order)))))"

text \<open>\<open>createEscrowRequest\<close>, by an app, and \<open>createEscrowLink\<close>, by a person with a username.\<close>

definition createEscrowRequest :: "(bytes \<Rightarrow> hash) \<Rightarrow> Lib \<Rightarrow> Directory \<Rightarrow> string \<Rightarrow> err + Status \<Rightarrow> (addr \<Rightarrow> 32 word) \<Rightarrow> err option \<Rightarrow> err option \<Rightarrow> int \<Rightarrow>
    string \<Rightarrow> Apps \<Rightarrow> App \<Rightarrow> EscrowInput \<Rightarrow> (string, Terms) fmap Store \<times> Requests Store \<Rightarrow>
    ((string, Terms) fmap Store \<times> Requests Store) \<times> (EscrowCore \<times> PublicApp option) response" where
  "createEscrowRequest sha lib d dflt status fee faultT fault now rnd apps app i ts =
     (case resolveRef d (eiSeller i) of Inl e \<Rightarrow> (ts, writeErr 400 (Wrap ''seller'' e))
      | Inr seller \<Rightarrow>
        (case newEscrowRequest sha lib d dflt status fee faultT fault now rnd (apID app) seller (Arbiter app) (apEscrowPolicy app) i ts of
           (ts', Inl e) \<Rightarrow> (ts', writeErr 400 e)
         | (ts', Inr er) \<Rightarrow> (ts', writeJSON 201 (escrowView apps er))))"

definition createEscrowLink :: "(bytes \<Rightarrow> hash) \<Rightarrow> Lib \<Rightarrow> Directory \<Rightarrow> string \<Rightarrow> err + Status \<Rightarrow> (addr \<Rightarrow> 32 word) \<Rightarrow> err option \<Rightarrow> err option \<Rightarrow> int \<Rightarrow>
    string \<Rightarrow> Apps \<Rightarrow> (addr \<Rightarrow> addr) \<Rightarrow> addr \<Rightarrow> EscrowInput \<Rightarrow> (string, Terms) fmap Store \<times> Requests Store \<Rightarrow>
    ((string, Terms) fmap Store \<times> Requests Store) \<times> (EscrowCore \<times> PublicApp option) response" where
  "createEscrowLink sha lib d dflt status fee faultT fault now rnd apps defaultArbiter me i ts =
     (case byAddress d me of None \<Rightarrow> (ts, writeErr 400 (Err ''claim a @username first so buyers can see who they are paying''))
      | Some _ \<Rightarrow>
        (case newEscrowRequest sha lib d dflt status fee faultT fault now rnd '''' me (defaultArbiter me) '''' i ts of
           (ts', Inl e) \<Rightarrow> (ts', writeErr 400 e)
         | (ts', Inr er) \<Rightarrow> (ts', writeJSON 201 (escrowView apps er))))"

subsection \<open>Following the escrow on the chain\<close>

text \<open>What the node answers: the escrows of an account, the memo of the transaction that created one, one by its id.\<close>

record EscrowNode =
  ndEscrowsOf :: "addr \<Rightarrow> err + Escrow list"
  ndMemo :: "hash \<Rightarrow> err + string"
  ndEscrow :: "string \<Rightarrow> err + Escrow"

definition statusText :: "EscrowStatus \<Rightarrow> string" where
  "statusText st = (case st of EscrowFunded \<Rightarrow> ''funded'' | EscrowDispatched \<Rightarrow> ''dispatched'' | EscrowDisputed \<Rightarrow> ''disputed''
     | EscrowCompleted \<Rightarrow> ''completed'' | EscrowRefunded \<Rightarrow> ''refunded'' | EscrowResolved \<Rightarrow> ''resolved'')"

definition isOpen :: "EscrowStatus \<Rightarrow> bool" where
  "isOpen st \<longleftrightarrow> st = EscrowFunded \<or> st = EscrowDispatched \<or> st = EscrowDisputed"

definition fundsRequest :: "EscrowRequest \<Rightarrow> Escrow \<Rightarrow> bool" where
  "fundsRequest er e \<longleftrightarrow> eRef e = erID er \<and> eArbiter e = erArbiter er \<and> eAsset e = erAsset er \<and> eArbiterBps e = erArbiterBps er \<and>
     eMilestones e = map miAmount (erMilestones er)"

fun findIn :: "(hash \<Rightarrow> err + string) \<Rightarrow> EscrowRequest \<Rightarrow> Escrow list \<Rightarrow> err + Escrow option" where
  "findIn memo er [] = Inr None"
| "findIn memo er (e # es) =
     (if \<not> fundsRequest er e then findIn memo er es
      else if erTermsHash er = '''' then Inr (Some e)
      else case memo (eID e) of Inl x \<Rightarrow> Inl x
        | Inr m \<Rightarrow> if m \<noteq> ''terms:'' @ erTermsHash er then findIn memo er es else Inr (Some e))"

definition findFunding :: "EscrowNode \<Rightarrow> EscrowRequest \<Rightarrow> err + Escrow option" where
  "findFunding nd er = (case ndEscrowsOf nd (erSeller er) of Inl x \<Rightarrow> Inl x | Inr es \<Rightarrow> findIn (ndMemo nd) er es)"

text \<open>\<open>escrowEvents\<close>: what changed between two observations; before the first, a funded escrow nothing happened to.\<close>

definition escrowEvents :: "Escrow option \<Rightarrow> Escrow \<Rightarrow> string list" where
  "escrowEvents prev cur =
     (let (released, dispatched, status) = (case prev of None \<Rightarrow> (0, 0, EscrowFunded) | Some p \<Rightarrow> (eReleased p, eDispatchedAt p, eStatus p)) in
      (if prev = None then [''escrow.funded''] else []) @
      (if dispatched = 0 \<and> eDispatchedAt cur \<noteq> 0 then [''escrow.dispatched''] else []) @
      replicate (eReleased cur - released) ''escrow.milestone_released'' @
      (if status \<noteq> EscrowDisputed \<and> eStatus cur = EscrowDisputed then [''escrow.disputed''] else []) @
      (if status \<noteq> eStatus cur \<and> eStatus cur \<in> {EscrowCompleted, EscrowRefunded, EscrowResolved}
       then [''escrow.'' @ statusText (eStatus cur)] else []))"

definition queueEscrowEvent :: "Apps \<Rightarrow> int \<Rightarrow> EscrowRequest \<Rightarrow> string \<Rightarrow> EscrowRequest" where
  "queueEscrowEvent apps now er typ =
     er\<lparr>erEvents := erEvents er @ [\<lparr>hkType = typ, hkData = escrowView apps er, hkAt = now, hkTries = 0, hkNextAt = now\<rparr>]\<rparr>"

text \<open>The update \<open>checkEscrows\<close> makes for one request, with what it found on the chain.\<close>

definition observe :: "Apps \<Rightarrow> int \<Rightarrow> Escrow option \<Rightarrow> EscrowRequest \<Rightarrow> EscrowRequest" where
  "observe apps now chain cur =
     (case chain of
        None \<Rightarrow> if erStatus cur = EscrowAwaiting \<and> now > erExpiresAt cur
                then queueEscrowEvent apps now (cur\<lparr>erStatus := EscrowNoFund\<rparr>) ''escrow.expired''
                else cur
      | Some c \<Rightarrow>
        (let cur1 = (if erEscrowID cur = '''' then cur\<lparr>erEscrowID := HashString (eID c), erStatus := EscrowLinked\<rparr> else cur)
         in (foldl (queueEscrowEvent apps now) cur1 (escrowEvents (erChain cur1) c))\<lparr>erChain := Some c\<rparr>))"

definition watched :: "EscrowRequest \<Rightarrow> bool" where
  "watched er \<longleftrightarrow> erStatus er = EscrowAwaiting \<or>
     (erStatus er = EscrowLinked \<and> (case erChain er of None \<Rightarrow> True | Some e \<Rightarrow> isOpen (eStatus e)))"

definition updateRequest :: "err option \<Rightarrow> string \<Rightarrow> (EscrowRequest \<Rightarrow> EscrowRequest) \<Rightarrow> Requests Store \<Rightarrow> Requests Store" where
  "updateRequest fault rid f s =
     fst (Update fault (\<lambda>m. (case fmlookup m rid of None \<Rightarrow> m | Some cur \<Rightarrow> fmupd rid (f cur) m, None)) s)"

definition lookUp :: "EscrowNode \<Rightarrow> EscrowRequest \<Rightarrow> err + Escrow option" where
  "lookUp nd er = (if erEscrowID er = '''' then findFunding nd er else map_sum id Some (ndEscrow nd (erEscrowID er)))"

definition checkOne :: "Apps \<Rightarrow> EscrowNode \<Rightarrow> err option \<Rightarrow> int \<Rightarrow> EscrowRequest \<Rightarrow> Requests Store \<Rightarrow> Requests Store \<times> err option" where
  "checkOne apps nd fault now er s =
     (case lookUp nd er of
        Inl x \<Rightarrow> if erEscrowID er \<noteq> '''' \<and> x = ErrNotFound
                 then (updateRequest fault (erID er) (\<lambda>cur. cur\<lparr>erStatus := EscrowMissing\<rparr>) s, None)
                 else (s, Some x)
      | Inr chain \<Rightarrow> (updateRequest fault (erID er) (observe apps now chain) s, None))"

text \<open>The error returned is that of the last request that had one.\<close>

fun checkEach :: "Apps \<Rightarrow> EscrowNode \<Rightarrow> (string \<Rightarrow> err option) \<Rightarrow> (string \<Rightarrow> int) \<Rightarrow> EscrowRequest list \<Rightarrow> Requests Store \<Rightarrow> Requests Store \<times> err option" where
  "checkEach apps nd fault now [] s = (s, None)"
| "checkEach apps nd fault now (er # rest) s =
     (case checkOne apps nd (fault (erID er)) (now (erID er)) er s of
        (s1, e) \<Rightarrow> (case checkEach apps nd fault now rest s1 of (s2, e2) \<Rightarrow> (s2, if e2 = None then e else e2)))"

definition checkEscrows :: "Apps \<Rightarrow> EscrowNode \<Rightarrow> (string \<Rightarrow> err option) \<Rightarrow> (string \<Rightarrow> int) \<Rightarrow> string list \<Rightarrow> Requests Store \<Rightarrow> Requests Store \<times> err option" where
  "checkEscrows apps nd fault now order s =
     checkEach apps nd fault now (filter watched (List.map_filter (fmlookup (soData s)) order)) s"

subsection \<open>Delivering the events\<close>

text \<open>The head of the queue after an attempt: sent, given up, or to be tried again.\<close>

definition afterPost :: "string \<Rightarrow> err option \<Rightarrow> int \<Rightarrow> EscrowRequest \<Rightarrow> EscrowRequest" where
  "afterPost url out now er =
     (case erEvents er of [] \<Rightarrow> er
      | h # rest \<Rightarrow>
        if out = None \<or> url = '''' then er\<lparr>erEvents := rest\<rparr>
        else if hkTries h + 1 \<ge> length hookBackoff then er\<lparr>erEvents := rest\<rparr>
        else er\<lparr>erEvents := h\<lparr>hkTries := hkTries h + 1, hkNextAt := now + hookBackoff ! (hkTries h + 1)\<rparr> # rest\<rparr>)"

definition eventDue :: "int \<Rightarrow> EscrowRequest \<Rightarrow> bool" where
  "eventDue now er \<longleftrightarrow> (case erEvents er of [] \<Rightarrow> False | h # _ \<Rightarrow> \<not> now < hkNextAt h)"

definition deliverEscrowEvents :: "(string \<Rightarrow> string \<Rightarrow> HookEvent \<Rightarrow> err option) \<Rightarrow> (string \<Rightarrow> err option) \<Rightarrow> int \<Rightarrow> (string \<Rightarrow> int) \<Rightarrow> Apps \<Rightarrow> string list \<Rightarrow>
    Requests Store \<Rightarrow> Requests Store" where
  "deliverEscrowEvents post fault now later apps order s =
     foldl (\<lambda>s er. let (url, secret) = hookTarget apps (erAppID er);
                      out = (if url = '''' then Some (Err ''no webhook URL configured'') else post url secret (hd (erEvents er)))
                  in updateRequest (fault (erID er)) (erID er) (afterPost url out (later (erID er))) s)
       s (filter (eventDue now) (List.map_filter (fmlookup (soData s)) order))"

subsection \<open>Parcels\<close>

definition contains :: "string \<Rightarrow> string \<Rightarrow> bool" where
  "contains s sub \<longleftrightarrow> list_ex (startsWith sub) (suffixes s)"

definition normaliseState :: "string \<Rightarrow> string" where
  "normaliseState s0 =
     (let s = map to_lower (map (\<lambda>c. if c = CHR ''-'' then CHR ''_'' else c) s0) in
      if contains s ''deliver'' \<and> \<not> contains s ''out'' then ''delivered''
      else if contains s ''out_for'' \<or> contains s ''out for'' then ''out_for_delivery''
      else if contains s ''fail'' \<or> contains s ''return'' then ''failed''
      else if contains s ''pre'' then ''pre_transit''
      else ''in_transit'')"

text \<open>\<open>strings.Cut\<close>: what precedes and what follows the first occurrence of the separator.\<close>

fun cutAt :: "string \<Rightarrow> string \<Rightarrow> (string \<times> string) option" where
  "cutAt sep [] = (if sep = [] then Some ([], []) else None)"
| "cutAt sep (c # cs) =
     (if startsWith sep (c # cs) then Some ([], drop (length sep) (c # cs))
      else map_option (\<lambda>(a, b). (c # a, b)) (cutAt sep cs))"

text \<open>The separator is a middle dot between spaces, in UTF-8.\<close>

definition midDot :: string where
  "midDot = [CHR '' '', CHR 0xC2, CHR 0xB7, CHR '' '']"

definition splitTracking :: "string \<Rightarrow> string \<times> string" where
  "splitTracking note = (case cutAt midDot note of Some (c, r) \<Rightarrow> (c, TrimSpace r) | None \<Rightarrow> ('''', TrimSpace note))"

definition parcelOf :: "Lib \<Rightarrow> string \<Rightarrow> string \<Rightarrow> EscrowRequest \<Rightarrow> bool" where
  "parcelOf lib courier ref er \<longleftrightarrow>
     (case erChain er of None \<Rightarrow> False
      | Some e \<Rightarrow> (let (c, r) = splitTracking (eTracking e) in r \<noteq> '''' \<and> r = ref \<and> lbEqualFold lib c courier))"

text \<open>
  \<open>recordDelivery\<close>: the first matching request in the order ranged over. The result is that request, when
  there is one, and whether buyer and seller are told.
\<close>

definition recordDelivery :: "Lib \<Rightarrow> err option \<Rightarrow> int \<Rightarrow> string \<Rightarrow> string \<Rightarrow> string \<Rightarrow> string \<Rightarrow> string list \<Rightarrow> Requests Store \<Rightarrow>
    Requests Store \<times> (EscrowRequest \<times> bool) option" where
  "recordDelivery lib fault now courier ref state detail order s =
     (case find (parcelOf lib courier ref) (List.map_filter (fmlookup (soData s)) order) of
        None \<Rightarrow> (fst (Update fault (\<lambda>m. (m, None)) s), None)
      | Some er \<Rightarrow>
        (let changed = (case erDelivery er of None \<Rightarrow> True | Some dl \<Rightarrow> dlState dl \<noteq> state);
             (c, r) = splitTracking (eTracking (the (erChain er)));
             er' = er\<lparr>erDelivery := Some \<lparr>dlCourier = c, dlRef = r, dlState = state, dlDetail = detail, dlAt = now\<rparr>\<rparr>
         in (fst (Update fault (\<lambda>m. (fmupd (erID er) er' m, None)) s), Some (er', changed \<and> state = ''delivered''))))"

text \<open>The names couriers go by in the webhook's path.\<close>

definition courierName :: "string \<Rightarrow> string" where
  "courierName name =
     (let n = map to_lower name in
      if n = ''gig'' then ''GIG Logistics'' else if n = ''kwik'' then ''Kwik''
      else if n = ''dhl'' then ''DHL'' else if n = ''bolt'' then ''Bolt Send'' else name)"

text \<open>
  \<open>courierWebhook\<close>: \<open>secret\<close> is what the environment holds for the courier, \<open>parse\<close> reads the body as
  tracking number, status and detail.
\<close>

definition courierWebhook :: "(bytes \<Rightarrow> bytes \<Rightarrow> bytes) \<Rightarrow> Lib \<Rightarrow> (bytes \<Rightarrow> (string \<times> string \<times> string) option) \<Rightarrow> err option \<Rightarrow> int \<Rightarrow> string \<Rightarrow> string \<Rightarrow>
    bytes \<Rightarrow> string \<Rightarrow> string list \<Rightarrow> Requests Store \<Rightarrow> Requests Store \<times> bool response" where
  "courierWebhook hmac lib parse fault now secret name body0 sig order s =
     (if secret = '''' then (s, writeErr 404 (Err ''unknown courier''))
      else let body = take (64 * 1024) body0 in
        if hex_encode (hmac secret body) \<noteq> sig then (s, writeErr 401 (Err ''bad signature''))
        else case parse body of None \<Rightarrow> (s, writeErr 400 (Err ''send tracking and status''))
        | Some (tracking, status, detail) \<Rightarrow>
          if tracking = '''' then (s, writeErr 400 (Err ''send tracking and status''))
          else (case recordDelivery lib fault now (courierName name) tracking (normaliseState status) detail order s of
                  (s', hit) \<Rightarrow> (s', writeJSON 200 (hit \<noteq> None))))"

text \<open>One round of \<open>watchDeliveries\<close>: \<open>track\<close> is a courier's interface, when there is one.\<close>

definition parcelsToTrack :: "(string \<Rightarrow> (string \<Rightarrow> err + string \<times> string) option) \<Rightarrow> EscrowRequest list \<Rightarrow> (string \<times> string) list" where
  "parcelsToTrack track ers =
     List.map_filter (\<lambda>er. case erChain er of None \<Rightarrow> None
       | Some e \<Rightarrow> if eStatus e \<noteq> EscrowDispatched \<or> (case erDelivery er of None \<Rightarrow> False | Some dl \<Rightarrow> dlState dl = ''delivered'') then None
           else (let (c, r) = splitTracking (eTracking e) in if r \<noteq> '''' \<and> track c \<noteq> None then Some (c, r) else None)) ers"

definition watchDeliveries :: "Lib \<Rightarrow> (string \<Rightarrow> (string \<Rightarrow> err + string \<times> string) option) \<Rightarrow> err option \<Rightarrow> int \<Rightarrow> string list \<Rightarrow> Requests Store \<Rightarrow> Requests Store" where
  "watchDeliveries lib track fault now order s =
     foldl (\<lambda>s (c, r). case the (track c) r of Inl _ \<Rightarrow> s
              | Inr (state, detail) \<Rightarrow> fst (recordDelivery lib fault now c r state detail order s))
       s (parcelsToTrack track (List.map_filter (fmlookup (soData s)) order))"

subsection \<open>Every change is told once\<close>

text \<open>A step the ledger makes on an open escrow, and runs of such steps.\<close>

inductive chain_step :: "Escrow \<Rightarrow> Escrow \<Rightarrow> bool" where
  step: "Open e \<Longrightarrow> 0 < stNow s \<Longrightarrow> escrowStep s tx op e = Inr (s', e') \<Longrightarrow> chain_step e e'"

inductive_cases chain_stepE: "chain_step e e'"

lemma pay_snd_keeps:
  "eReleased (snd (pay to amt se)) = eReleased (snd se)" "eDispatchedAt (snd (pay to amt se)) = eDispatchedAt (snd se)"
  "eMilestones (snd (pay to amt se)) = eMilestones (snd se)" "eStatus (snd (pay to amt se)) = eStatus (snd se)"
  by (simp_all add: pay_def Let_def split_beta)

lemma pay_keeps:
  assumes "pay to amt se = (s', e')"
  shows "eReleased e' = eReleased (snd se)" and "eDispatchedAt e' = eDispatchedAt (snd se)"
    and "eMilestones e' = eMilestones (snd se)" and "eStatus e' = eStatus (snd se)"
  using pay_snd_keeps [of to amt se] assms by simp_all

text \<open>What a step keeps, as the watcher sees it.\<close>

definition onward :: "Escrow \<Rightarrow> Escrow \<Rightarrow> bool" where
  "onward e e' \<longleftrightarrow> eReleased e \<le> eReleased e' \<and> (eDispatchedAt e \<noteq> 0 \<longrightarrow> eDispatchedAt e' \<noteq> 0) \<and>
     (eStatus e = EscrowDisputed \<longrightarrow> eStatus e' = EscrowDisputed \<or> \<not> Open e') \<and> (\<not> Open e \<longrightarrow> e' = e)"

lemma onward_refl: "onward e e"
  by (simp add: onward_def)

lemma onward_trans: "onward a b \<Longrightarrow> onward b c \<Longrightarrow> onward a c"
  unfolding onward_def by (metis order_trans)

lemma chain_step_onward:
  assumes "chain_step e e'" and "wf_escrow e"
  shows "onward e e' \<and> wf_escrow e'"
proof -
  from assms(1) obtain s tx op s' where op: "Open e" "0 < stNow s" and st: "escrowStep s tx op e = Inr (s', e')"
    by (rule chain_stepE)
  have "eReleased e < length (eMilestones e)" using assms(2) op(1) by (simp add: wf_escrow_def)
  then have "eReleased e \<le> eReleased e' \<and> (eDispatchedAt e \<noteq> 0 \<longrightarrow> eDispatchedAt e' \<noteq> 0) \<and>
     (eStatus e = EscrowDisputed \<longrightarrow> eStatus e' = EscrowDisputed \<or> \<not> Open e')"
    using st op(2) unfolding escrowStep_def escrowDispatch_def escrowRelease_def escrowDispute_def escrowResolve_def
      escrowRefund_def escrowClaim_def Open_def
    by (auto simp: Let_def pay_keeps pay_snd_keeps split: if_splits prod.splits)
  then show ?thesis using op(1) escrowStep_ok(1) [OF assms(2) op(1) st] by (simp add: onward_def)
qed

lemma chain_run_onward:
  assumes "chain_step\<^sup>*\<^sup>* e e'" and "wf_escrow e"
  shows "onward e e' \<and> wf_escrow e'"
  using assms
proof (induction rule: rtranclp_induct)
  case base
  then show ?case by (simp add: onward_refl)
next
  case (step y z)
  then show ?case using chain_step_onward onward_trans by blast
qed

definition finalEvent :: "EscrowStatus \<Rightarrow> string list" where
  "finalEvent st = (if isOpen st then [] else [''escrow.'' @ statusText st])"

text \<open>The events of a request whose escrow was last seen as \<open>e\<close>.\<close>

definition told :: "Escrow \<Rightarrow> string list \<Rightarrow> bool" where
  "told e evs \<longleftrightarrow> evs \<noteq> [] \<and> hd evs = ''escrow.funded'' \<and> count_list evs ''escrow.funded'' = 1 \<and>
     count_list evs ''escrow.dispatched'' = (if eDispatchedAt e \<noteq> 0 then 1 else 0) \<and>
     count_list evs ''escrow.milestone_released'' = eReleased e \<and>
     count_list evs ''escrow.disputed'' \<le> 1 \<and> (eStatus e = EscrowDisputed \<longrightarrow> count_list evs ''escrow.disputed'' = 1) \<and>
     (Open e \<and> eStatus e \<noteq> EscrowDisputed \<longrightarrow> count_list evs ''escrow.disputed'' = 0) \<and>
     filter (\<lambda>t. t \<in> {''escrow.completed'', ''escrow.refunded'', ''escrow.resolved''}) evs = finalEvent (eStatus e) \<and>
     (\<not> Open e \<longrightarrow> last evs = ''escrow.'' @ statusText (eStatus e))"

lemma count_replicate: "count_list (replicate n x) y = (if x = y then n else 0)"
  by (induction n) auto

lemma filter_replicate_none: "\<not> P x \<Longrightarrow> filter P (replicate n x) = []"
  by (induction n) auto

lemma told_first:
  assumes "wf_escrow e"
  shows "told e (escrowEvents None e)"
  by (cases "eStatus e")
    (simp_all add: told_def escrowEvents_def count_replicate filter_replicate_none finalEvent_def isOpen_def Open_def statusText_def)

lemma told_next:
  assumes "told e evs" and "onward e e'"
  shows "told e' (evs @ escrowEvents (Some e) e')"
proof (cases "Open e")
  case False
  then have "e' = e" using assms(2) by (simp add: onward_def)
  then show ?thesis using assms(1) by (simp add: escrowEvents_def)
next
  case True
  have m: "eReleased e + (eReleased e' - eReleased e) = eReleased e'" using assms(2) by (simp add: onward_def)
  show ?thesis
    using assms True m
    by (cases "eStatus e"; cases "eStatus e'")
      (simp_all add: told_def onward_def escrowEvents_def count_replicate filter_replicate_none finalEvent_def isOpen_def Open_def statusText_def)
qed

lemma queue_fold:
  "map hkType (erEvents (foldl (queueEscrowEvent apps now) er evs)) = map hkType (erEvents er) @ evs"
  "erChain (foldl (queueEscrowEvent apps now) er evs) = erChain er"
  by (induction evs arbitrary: er) (simp_all add: queueEscrowEvent_def)

lemma observe_events:
  "map hkType (erEvents (observe apps now (Some c) er)) = map hkType (erEvents er) @ escrowEvents (erChain er) c"
  "erChain (observe apps now (Some c) er) = Some c"
  by (simp_all add: observe_def Let_def queue_fold)

subsection \<open>What links a request to an escrow\<close>


lemma queue_fold_record:
  "\<exists>evs'. foldl (queueEscrowEvent apps now) er evs = er\<lparr>erEvents := evs'\<rparr>"
proof (induction evs arbitrary: er)
  case Nil
  have "er = er\<lparr>erEvents := erEvents er\<rparr>" by simp
  then show ?case by (metis foldl_Nil)
next
  case (Cons t evs)
  from Cons.IH obtain evs' where
    e: "foldl (queueEscrowEvent apps now) (queueEscrowEvent apps now er t) evs = (queueEscrowEvent apps now er t)\<lparr>erEvents := evs'\<rparr>"
    by blast
  have "(queueEscrowEvent apps now er t)\<lparr>erEvents := evs'\<rparr> = er\<lparr>erEvents := evs'\<rparr>" by (simp add: queueEscrowEvent_def)
  then show ?case using e by (intro exI [of _ evs']) (simp only: foldl_Cons)
qed

lemma findIn_Some:
  "findIn memo er es = Inr (Some e) \<Longrightarrow> e \<in> set es \<and> fundsRequest er e \<and>
     (erTermsHash er \<noteq> '''' \<longrightarrow> memo (eID e) = Inr (''terms:'' @ erTermsHash er))"
  by (induction es) (auto split: if_splits sum.splits)

text \<open>
  The chain: \<open>H\<close> holds every state its escrows go through, \<open>memo\<close> the memos of the transactions that created
  them. What an escrow was made with does not change; who holds its roles does, when an account is recovered
  and the ledger renames it. A node tells of nothing else; it reads an id in either case of letters.
\<close>

definition same_terms :: "Escrow \<Rightarrow> Escrow \<Rightarrow> bool" where
  "same_terms c c' \<longleftrightarrow> eID c' = eID c \<and> eRef c' = eRef c \<and> eAsset c' = eAsset c \<and>
     eMilestones c' = eMilestones c \<and> eArbiterBps c' = eArbiterBps c"

definition party :: "Escrow \<Rightarrow> addr set" where
  "party e = {eBuyer e, eSeller e, eArbiter e}"

definition honest :: "Escrow set \<Rightarrow> (hash \<Rightarrow> string) \<Rightarrow> EscrowNode \<Rightarrow> bool" where
  "honest H memo nd \<longleftrightarrow>
     (\<forall>a es. ndEscrowsOf nd a = Inr es \<longrightarrow> set es \<subseteq> {e \<in> H. a \<in> party e}) \<and>
     (\<forall>h m. ndMemo nd h = Inr m \<longrightarrow> m = memo h) \<and>
     (\<forall>x e. ndEscrow nd x = Inr e \<longrightarrow> e \<in> H \<and> ParseHash x = Inr (eID e))"

lemma ParseHash_HashString: "ParseHash (HashString h) = Inr k \<Longrightarrow> k = h"
  by (simp add: ParseHash_def HashString_def split: if_splits)

definition ledger_escrows :: "Escrow set \<Rightarrow> bool" where
  "ledger_escrows H \<longleftrightarrow> (\<forall>c\<in>H. HashString (eID c) \<noteq> '''' \<and> (\<forall>c'\<in>H. HashString (eID c') = HashString (eID c) \<longrightarrow> same_terms c c'))"

text \<open>
  An escrow on the request's terms, seen at some time with its arbiter and its seller among the parties.
\<close>

definition on_terms :: "EscrowRequest \<Rightarrow> Escrow \<Rightarrow> bool" where
  "on_terms er e \<longleftrightarrow> eRef e = erID er \<and> eAsset e = erAsset er \<and> eArbiterBps e = erArbiterBps er \<and>
     eMilestones e = map miAmount (erMilestones er)"

definition linked_to :: "Escrow set \<Rightarrow> (hash \<Rightarrow> string) \<Rightarrow> EscrowRequest \<Rightarrow> Escrow \<Rightarrow> bool" where
  "linked_to H memo er c \<longleftrightarrow> erEscrowID er = HashString (eID c) \<and> on_terms er c \<and>
     (\<exists>c0\<in>H. eID c0 = eID c \<and> fundsRequest er c0 \<and> erSeller er \<in> party c0) \<and>
     (erTermsHash er \<noteq> '''' \<longrightarrow> memo (eID c) = ''terms:'' @ erTermsHash er)"

definition req_ok :: "Escrow set \<Rightarrow> (hash \<Rightarrow> string) \<Rightarrow> string \<Rightarrow> EscrowRequest \<Rightarrow> bool" where
  "req_ok H memo k er \<longleftrightarrow> erID er = k \<and> (erEscrowID er = '''' \<longrightarrow> erChain er = None) \<and> (erEscrowID er \<noteq> '''' \<longrightarrow> erChain er \<noteq> None) \<and>
     (erStatus er = EscrowLinked \<longrightarrow> erChain er \<noteq> None) \<and> (\<forall>c. erChain er = Some c \<longrightarrow> c \<in> H \<and> linked_to H memo er c)"

text \<open>The part of a request \<open>req_ok\<close> reads.\<close>

lemma linked_to_same [simp]:
  "linked_to H memo (er\<lparr>erEvents := x\<rparr>) c = linked_to H memo er c" "linked_to H memo (er\<lparr>erDelivery := y\<rparr>) c = linked_to H memo er c"
  "linked_to H memo (er\<lparr>erStatus := st\<rparr>) c = linked_to H memo er c" "linked_to H memo (er\<lparr>erChain := z\<rparr>) c = linked_to H memo er c"
  by (simp_all add: linked_to_def on_terms_def fundsRequest_def)

lemma req_ok_events [simp]: "req_ok H memo k (er\<lparr>erEvents := x\<rparr>) = req_ok H memo k er"
  by (simp add: req_ok_def)

lemma req_ok_delivery [simp]: "req_ok H memo k (er\<lparr>erDelivery := x\<rparr>) = req_ok H memo k er"
  by (simp add: req_ok_def)

lemma req_ok_status: "req_ok H memo k er \<Longrightarrow> st \<noteq> EscrowLinked \<Longrightarrow> req_ok H memo k (er\<lparr>erStatus := st\<rparr>)"
  by (simp add: req_ok_def)

lemma linked_to_terms: "linked_to H memo er c \<Longrightarrow> same_terms c c' \<Longrightarrow> linked_to H memo er c'"
  by (simp add: linked_to_def same_terms_def on_terms_def)

lemma lookUp_found:
  assumes "honest H memo nd" and "lookUp nd er = Inr (Some c)" and "erEscrowID er = ''''"
  shows "c \<in> H \<and> linked_to H memo (er\<lparr>erEscrowID := HashString (eID c)\<rparr>) c"
proof -
  obtain es where es: "ndEscrowsOf nd (erSeller er) = Inr es" "findIn (ndMemo nd) er es = Inr (Some c)"
    using assms(2,3) by (auto simp: lookUp_def findFunding_def split: sum.splits)
  note f = findIn_Some [OF es(2)]
  have "set es \<subseteq> {e \<in> H. erSeller er \<in> party e}" using assms(1) es(1) unfolding honest_def by blast
  then have "c \<in> H \<and> erSeller er \<in> party c" using f by blast
  moreover have "erTermsHash er \<noteq> '''' \<longrightarrow> memo (eID c) = ''terms:'' @ erTermsHash er"
    using f assms(1) unfolding honest_def by metis
  moreover have "fundsRequest (er\<lparr>erEscrowID := HashString (eID c)\<rparr>) c" "on_terms (er\<lparr>erEscrowID := HashString (eID c)\<rparr>) c"
    using f by (simp_all add: fundsRequest_def on_terms_def)
  ultimately show ?thesis by (auto simp: linked_to_def)
qed

lemma lookUp_linked:
  assumes "lookUp nd er = Inr chain" and "erEscrowID er \<noteq> ''''"
  shows "\<exists>c. chain = Some c \<and> ndEscrow nd (erEscrowID er) = Inr c"
  using assms by (cases "ndEscrow nd (erEscrowID er)") (auto simp: lookUp_def)

text \<open>The request once linked, before its events.\<close>

definition linkUp :: "Escrow \<Rightarrow> EscrowRequest \<Rightarrow> EscrowRequest" where
  "linkUp c er = (if erEscrowID er = '''' then er\<lparr>erEscrowID := HashString (eID c), erStatus := EscrowLinked\<rparr> else er)"

lemma observe_linkUp: "\<exists>evs. observe apps now (Some c) er = (linkUp c er)\<lparr>erEvents := evs, erChain := Some c\<rparr>"
proof -
  obtain evs where "foldl (queueEscrowEvent apps now) (linkUp c er) (escrowEvents (erChain (linkUp c er)) c) = (linkUp c er)\<lparr>erEvents := evs\<rparr>"
    using queue_fold_record by blast
  then have "observe apps now (Some c) er = ((linkUp c er)\<lparr>erEvents := evs\<rparr>)\<lparr>erChain := Some c\<rparr>"
    by (simp only: observe_def option.case Let_def linkUp_def)
  then show ?thesis by auto
qed

lemma linkUp_ok:
  assumes "honest H memo nd" and "ledger_escrows H" and "req_ok H memo k er" and "lookUp nd er = Inr (Some c)"
  shows "c \<in> H \<and> linked_to H memo (linkUp c er) c"
proof (cases "erEscrowID er = ''''")
  case True
  have "linkUp c er = (er\<lparr>erEscrowID := HashString (eID c)\<rparr>)\<lparr>erStatus := EscrowLinked\<rparr>" using True by (simp add: linkUp_def)
  then show ?thesis using lookUp_found [OF assms(1,4) True] by (simp only: linked_to_same)
next
  case False
  then obtain c0 where c0: "erChain er = Some c0" "c0 \<in> H" "linked_to H memo er c0"
    using assms(3) unfolding req_ok_def by blast
  have "ndEscrow nd (erEscrowID er) = Inr c" using lookUp_linked [OF assms(4) False] by blast
  then have c: "c \<in> H" "ParseHash (erEscrowID er) = Inr (eID c)" using assms(1) unfolding honest_def by blast+
  have "erEscrowID er = HashString (eID c0)" using c0(3) unfolding linked_to_def by blast
  then have "HashString (eID c) = HashString (eID c0)" using c(2) ParseHash_HashString [of "eID c0" "eID c"] by simp
  then have "same_terms c0 c" using assms(2) c c0(2) unfolding ledger_escrows_def by metis
  then show ?thesis using c(1) linked_to_terms [OF c0(3)] False unfolding linkUp_def by simp
qed

lemma observe_ok:
  assumes "honest H memo nd" and "ledger_escrows H" and "req_ok H memo k er" and "lookUp nd er = Inr chain"
  shows "req_ok H memo k (observe apps now chain er)"
proof (cases chain)
  case None
  then show ?thesis using assms(3) by (simp add: observe_def queueEscrowEvent_def req_ok_status)
next
  case (Some c)
  define er1 where "er1 = linkUp c er"
  have c: "c \<in> H" "linked_to H memo er1 c" using linkUp_ok [OF assms(1-3)] assms(4) Some unfolding er1_def by blast+
  obtain evs where o: "observe apps now chain er = er1\<lparr>erEvents := evs, erChain := Some c\<rparr>"
    using observe_linkUp [of apps now c er] Some unfolding er1_def by blast
  have "erID er1 = k" using assms(3) by (simp add: er1_def linkUp_def req_ok_def)
  moreover have "erEscrowID er1 \<noteq> ''''" using assms(2) c unfolding ledger_escrows_def linked_to_def by metis
  moreover have "linked_to H memo (er1\<lparr>erEvents := evs, erChain := Some c\<rparr>) c"
    using c(2) by simp
  ultimately show ?thesis unfolding o req_ok_def using c(1) by simp
qed

subsection \<open>The invariant of the store\<close>

lemma updateRequest_data:
  "soData (updateRequest fault rid f s) =
     (case fmlookup (soData s) rid of None \<Rightarrow> soData s | Some cur \<Rightarrow> fmupd rid (f cur) (soData s))"
  by (simp add: updateRequest_def)

lemma updateRequest_all:
  assumes "store_all P s" and "\<And>cur. fmlookup (soData s) rid = Some cur \<Longrightarrow> P rid cur \<Longrightarrow> P rid (f cur)"
  shows "store_all P (updateRequest fault rid f s)"
  unfolding updateRequest_def
proof (rule store_all_Update [OF assms(1)])
  fix k v
  assume "fmlookup (fst (case fmlookup (soData s) rid of None \<Rightarrow> soData s | Some cur \<Rightarrow> fmupd rid (f cur) (soData s), None)) k = Some v"
  then show "P k v" using assms store_allD [OF assms(1)] by (auto split: option.splits if_splits)
qed

lemma in_map_filter: "y \<in> set (List.map_filter f xs) \<Longrightarrow> \<exists>x\<in>set xs. f x = Some y"
  by (induction xs) (auto simp: List.map_filter_simps split: option.splits)

lemma foldl_preserves: "P s \<Longrightarrow> (\<And>s x. P s \<Longrightarrow> P (g s x)) \<Longrightarrow> P (foldl g s xs)"
  by (induction xs arbitrary: s) simp_all

lemma checkOne_ok:
  assumes "honest H memo nd" and "ledger_escrows H" and "store_all (req_ok H memo) s" and "fmlookup (soData s) (erID er) = Some er"
  shows "store_all (req_ok H memo) (fst (checkOne apps nd fault now er s))"
proof (cases "lookUp nd er")
  case (Inl x)
  then show ?thesis using assms(3) by (simp add: checkOne_def updateRequest_all req_ok_status)
next
  case (Inr chain)
  have "req_ok H memo (erID er) (observe apps now chain cur)"
    if "fmlookup (soData s) (erID er) = Some cur" "req_ok H memo (erID er) cur" for cur
    using observe_ok [OF assms(1,2) that(2)] Inr assms(4) that(1) by simp
  then show ?thesis using assms(3) Inr by (simp add: checkOne_def updateRequest_all)
qed

lemma checkOne_other:
  assumes "k \<noteq> erID er"
  shows "fmlookup (soData (fst (checkOne apps nd fault now er s))) k = fmlookup (soData s) k"
  using assms unfolding checkOne_def by (auto simp: updateRequest_data split: sum.split option.split)

lemma checkEach_ok:
  assumes "honest H memo nd" and "ledger_escrows H"
  shows "store_all (req_ok H memo) s \<Longrightarrow> distinct (map erID todo) \<Longrightarrow> (\<And>er. er \<in> set todo \<Longrightarrow> fmlookup (soData s) (erID er) = Some er) \<Longrightarrow>
    store_all (req_ok H memo) (fst (checkEach apps nd fault now todo s))"
proof (induction todo arbitrary: s)
  case Nil
  then show ?case by simp
next
  case (Cons er todo)
  let ?s = "fst (checkOne apps nd (fault (erID er)) (now (erID er)) er s)"
  have "fmlookup (soData ?s) (erID x) = Some x" if "x \<in> set todo" for x
  proof -
    have "erID x \<noteq> erID er" using Cons.prems(2) image_eqI [OF refl that, of erID] by auto
    then show ?thesis using checkOne_other Cons.prems(3) [of x] that by simp
  qed
  moreover have "store_all (req_ok H memo) ?s"
    by (rule checkOne_ok [OF assms Cons.prems(1)]) (rule Cons.prems(3), simp)
  moreover have "distinct (map erID todo)" using Cons.prems(2) by simp
  ultimately have "store_all (req_ok H memo) (fst (checkEach apps nd fault now todo ?s))" using Cons.IH by blast
  then show ?case by (simp add: split_beta)
qed

lemma snapshot_ids:
  assumes "store_all (req_ok H memo) s" and "distinct order"
  defines "ers \<equiv> List.map_filter (fmlookup (soData s)) order"
  shows "distinct (map erID ers)" and "\<And>er. er \<in> set ers \<Longrightarrow> fmlookup (soData s) (erID er) = Some er"
proof -
  have key: "erID er = k" if "fmlookup (soData s) k = Some er" for k er
    using store_allD [OF assms(1) that] by (simp add: req_ok_def)
  show "fmlookup (soData s) (erID er) = Some er" if "er \<in> set ers" for er
    using in_map_filter [of er "fmlookup (soData s)" order] that key unfolding ers_def by auto
  have "map erID ers = filter (\<lambda>k. fmlookup (soData s) k \<noteq> None) order"
    unfolding ers_def using key by (induction order) (auto simp: List.map_filter_simps split: option.split)
  then show "distinct (map erID ers)" using assms(2) by simp
qed

lemma checkEscrows_ok:
  assumes "honest H memo nd" and "ledger_escrows H" and "store_all (req_ok H memo) s" and "distinct order"
  shows "store_all (req_ok H memo) (fst (checkEscrows apps nd fault now order s))"
  unfolding checkEscrows_def
  by (rule checkEach_ok [OF assms(1-3)])
    (use snapshot_ids [OF assms(3,4)] in \<open>auto simp: distinct_map_filter\<close>)

lemma afterPost_ok: "req_ok H memo k er \<Longrightarrow> req_ok H memo k (afterPost url out now er)"
  by (simp add: afterPost_def split: list.split)

lemma deliverEscrowEvents_ok:
  assumes "store_all (req_ok H memo) s"
  shows "store_all (req_ok H memo) (deliverEscrowEvents post fault now later apps order s)"
  unfolding deliverEscrowEvents_def
  by (rule foldl_preserves [where P = "store_all (req_ok H memo)", OF assms])
    (simp add: Let_def split_beta updateRequest_all afterPost_ok)

lemma recordDelivery_ok:
  assumes "store_all (req_ok H memo) s"
  shows "store_all (req_ok H memo) (fst (recordDelivery lib fault now courier ref state detail order s))"
proof (cases "find (parcelOf lib courier ref) (List.map_filter (fmlookup (soData s)) order)")
  case None
  then show ?thesis using assms store_allD [OF assms] by (auto simp: recordDelivery_def intro!: store_all_Update)
next
  case (Some er)
  then have "er \<in> set (List.map_filter (fmlookup (soData s)) order)" by (auto simp: find_Some_iff)
  then obtain k where k: "fmlookup (soData s) k = Some er" using in_map_filter by fast
  then have "req_ok H memo (erID er) er" using store_allD [OF assms k] by (simp add: req_ok_def)
  then show ?thesis using assms store_allD [OF assms] Some
    by (auto simp: recordDelivery_def Let_def split_beta intro!: store_all_Update split: if_splits)
qed

lemma cancelRequest_ok:
  assumes "store_all (req_ok H memo) s"
  shows "store_all (req_ok H memo) (fst (cancelRequest mine missing busy apps fault rid s))"
proof -
  have "store_all (req_ok H memo) (fst (Update fault (\<lambda>m. case fmlookup m rid of None \<Rightarrow> (m, Some e0)
             | Some er \<Rightarrow> if \<not> mine er then (m, Some e0)
                 else if erStatus er \<noteq> EscrowAwaiting then (m, Some e1)
                 else (fmupd rid (er\<lparr>erStatus := EscrowCancel\<rparr>) m, None)) s))" for e0 e1
    using assms store_allD [OF assms]
    by (auto intro!: store_all_Update req_ok_status split: option.splits if_splits)
  then show ?thesis by (auto simp: cancelRequest_def Let_def split_beta fst_case_result split: option.split)
qed

text \<open>An accepted request holds what was asked for.\<close>

definition asked :: "Directory \<Rightarrow> string \<Rightarrow> err + Status \<Rightarrow> (addr \<Rightarrow> 32 word) \<Rightarrow> int \<Rightarrow> string \<Rightarrow> string \<Rightarrow> addr \<Rightarrow> EscrowInput \<Rightarrow> EscrowRequest \<Rightarrow> bool" where
  "asked d dflt status fee now rnd appID seller i er \<longleftrightarrow>
     (\<exists>arbiter asset ms policy h. er = newRequest rnd appID seller arbiter asset ms policy h (fee arbiter) now i \<and>
        arbiter \<noteq> seller \<and> checkoutAsset dflt status (eiCurrency i) = Inr asset \<and> readMilestones asset 0 (eiMilestones i) = Inr ms \<and>
        length (eiMilestones i) \<noteq> 0 \<and> length (eiMilestones i) \<le> 10 \<and> checkFields i = None)"

lemma readInput_Inr:
  assumes "readInput lib d dflt status seller arbiter0 i = Inr (arbiter, asset, ms)"
  shows "arbiter \<noteq> seller \<and> checkoutAsset dflt status (eiCurrency i) = Inr asset \<and> readMilestones asset 0 (eiMilestones i) = Inr ms \<and>
    length (eiMilestones i) \<noteq> 0 \<and> length (eiMilestones i) \<le> 10 \<and> checkFields i = None"
proof -
  define arb where "arb = (if eiArbiter i = '''' then Inr arbiter0 else resolveRef d (eiArbiter i))"
  show ?thesis using assms unfolding readInput_def arb_def [symmetric]
    by (auto split: sum.splits option.splits if_splits)
qed

lemma newEscrowRequest_stored:
  "(snd (fst (newEscrowRequest sha lib d dflt status fee faultT fault now rnd appID seller arbiter0 defaultPolicy i (t, s))) = s \<and>
      isl (snd (newEscrowRequest sha lib d dflt status fee faultT fault now rnd appID seller arbiter0 defaultPolicy i (t, s)))) \<or>
   (\<exists>er. snd (fst (newEscrowRequest sha lib d dflt status fee faultT fault now rnd appID seller arbiter0 defaultPolicy i (t, s))) =
           fst (storeRequest fault er s) \<and> asked d dflt status fee now rnd appID seller i er \<and>
         (\<forall>er'. snd (newEscrowRequest sha lib d dflt status fee faultT fault now rnd appID seller arbiter0 defaultPolicy i (t, s)) = Inr er' \<longrightarrow> er' = er))"
proof (cases "readInput lib d dflt status seller arbiter0 i")
  case (Inl e)
  then show ?thesis by (simp add: newEscrowRequest_def)
next
  case (Inr v)
  obtain arbiter asset ms where v: "v = (arbiter, asset, ms)" by (cases v)
  note i = readInput_Inr [OF Inr [unfolded v]]
  obtain t' h where p: "storePolicy sha faultT now (policyOf defaultPolicy i) t = (t', h)" by fastforce
  show ?thesis
  proof (cases h)
    case (Inl e)
    then show ?thesis using Inr v p by (simp add: newEscrowRequest_def)
  next
    case (Inr h')
    define er where "er = newRequest rnd appID seller arbiter asset ms (policyOf defaultPolicy i) h' (fee arbiter) now i"
    obtain s' r where st: "storeRequest fault er s = (s', r)" by fastforce
    have "asked d dflt status fee now rnd appID seller i er" using i by (auto simp: asked_def er_def)
    then show ?thesis using \<open>readInput lib d dflt status seller arbiter0 i = Inr v\<close> v p Inr st
      by (cases r) (auto simp: newEscrowRequest_def er_def Let_def)
  qed
qed

lemma newEscrowRequest_ok:
  assumes "store_all (req_ok H memo) s"
  shows "store_all (req_ok H memo) (snd (fst (newEscrowRequest sha lib d dflt status fee faultT fault now rnd appID seller arbiter0 defaultPolicy i (t, s))))"
proof -
  have "store_all (req_ok H memo) (fst (storeRequest fault er s))" if "asked d dflt status fee now rnd appID seller i er" for er
  proof -
    have "req_ok H memo (erID er) er" using that by (auto simp: asked_def newRequest_def req_ok_def)
    then show ?thesis unfolding storeRequest_def
      using assms store_allD [OF assms] by (auto intro!: store_all_Update split: if_splits)
  qed
  then show ?thesis
    using assms newEscrowRequest_stored [of sha lib d dflt status fee faultT fault now rnd appID seller arbiter0 defaultPolicy i t s]
    by metis
qed

text \<open>
  What the backend does to its requests, against a chain of escrows \<open>H\<close>: the node may be unreachable or
  leave entries out; Go ranges over a map in an order without repetition.
\<close>

inductive es_step :: "Escrow set \<Rightarrow> (hash \<Rightarrow> string) \<Rightarrow> Requests Store \<Rightarrow> Requests Store \<Rightarrow> bool" for H memo where
  create: "es_step H memo s (snd (fst (newEscrowRequest sha lib d dflt status fee faultT fault now rnd appID seller arbiter0 defaultPolicy i (t, s))))"
| cancel: "es_step H memo s (fst (cancelRequest mine missing busy apps fault rid s))"
| check: "honest H memo nd \<Longrightarrow> distinct order \<Longrightarrow> es_step H memo s (fst (checkEscrows apps nd fault' now' order s))"
| deliver: "es_step H memo s (deliverEscrowEvents post fault' now later apps order s)"
| parcel: "es_step H memo s (fst (recordDelivery lib fault now courier ref state detail order s))"
| restart: "es_step H memo s (reopen fmempty s)"

lemma es_step_ok: "es_step H memo s s' \<Longrightarrow> ledger_escrows H \<Longrightarrow> store_all (req_ok H memo) s \<Longrightarrow> store_all (req_ok H memo) s'"
proof (induction rule: es_step.induct)
  case (create s sha lib d dflt status fee faultT fault now rnd appID seller arbiter0 defaultPolicy i t)
  then show ?case by (simp only: newEscrowRequest_ok)
next
  case (check nd order s apps fault' now')
  then show ?case by (simp only: checkEscrows_ok)
qed (simp_all only: cancelRequest_ok deliverEscrowEvents_ok recordDelivery_ok store_all_reopen)

lemma es_run_ok:
  assumes "(es_step H memo)\<^sup>*\<^sup>* s s'" and "ledger_escrows H" and "store_all (req_ok H memo) s"
  shows "store_all (req_ok H memo) s'"
  using assms(1,3) by (induction rule: rtranclp_induct) (use assms(2) es_step_ok in blast)+

subsection \<open>Properties\<close>

text \<open>
  C23: escrow events are complete. The watcher sees the escrow only now and then, as the chain moves on.
  Whenever it looks, the events it has queued begin with the funding, tell of every milestone released
  and of the dispatch exactly once, of a dispute at most once, and, exactly when the escrow is closed,
  end with how it was closed.
\<close>

theorem escrow_events_complete:
  assumes "checkEscrowOp tx op = None" and "eoOp op = OpEscrowCreate"
    and "obs \<noteq> []" and "chain_step\<^sup>*\<^sup>* (newEscrow s tx op eid) (snd (hd obs))" and "successively chain_step\<^sup>*\<^sup>* (map snd obs)"
    and "erEvents er = []" and "erChain er = None"
  shows "told (snd (last obs)) (map hkType (erEvents (foldl (\<lambda>r (now, c). observe apps now (Some c) r) er obs)))"
proof -
  have w0: "wf_escrow (newEscrow s tx op eid)" by (rule newEscrow_wf [OF assms(1,2)])
  let ?after = "foldl (\<lambda>r (now, c). observe apps now (Some c) r) er"
  have "told (snd (last obs)) (map hkType (erEvents (?after obs))) \<and> erChain (?after obs) = Some (snd (last obs)) \<and> wf_escrow (snd (last obs))"
    using assms(3-5)
  proof (induction obs rule: rev_induct)
    case Nil
    then show ?case by simp
  next
    case (snoc o1 obs)
    obtain now c where o1: "o1 = (now, c)" by (cases o1)
    show ?case
    proof (cases "obs = []")
      case True
      then have "wf_escrow c" using chain_run_onward [OF _ w0] snoc.prems(2) o1 by simp
      then show ?thesis using True o1 assms(6,7) told_first by (simp add: observe_events)
    next
      case False
      have s: "successively chain_step\<^sup>*\<^sup>* (map snd obs)" "chain_step\<^sup>*\<^sup>* (snd (last obs)) c"
        using snoc.prems(3) False o1 by (simp_all add: successively_append_iff last_map)
      have ih: "told (snd (last obs)) (map hkType (erEvents (?after obs)))" "erChain (?after obs) = Some (snd (last obs))" "wf_escrow (snd (last obs))"
        using snoc.IH False snoc.prems(2) s(1) by simp_all
      have "onward (snd (last obs)) c \<and> wf_escrow c" by (rule chain_run_onward [OF s(2) ih(3)])
      then show ?thesis using ih(2) o1 told_next [OF ih(1)] by (simp add: observe_events)
    qed
  qed
  then show ?thesis by blast
qed

text \<open>
  The escrows of a ledger. An escrow lives from its creation through the steps of the escrow rules and
  the renamings of recovered accounts; \<open>lives N\<close> are all states of the escrows created as the ones in \<open>N\<close>.
\<close>

inductive life_step :: "Escrow \<Rightarrow> Escrow \<Rightarrow> bool" where
  rules: "Open e \<Longrightarrow> wf_escrow e \<Longrightarrow> escrowStep s tx op e = Inr (s', e') \<Longrightarrow> life_step e e'"
| renamed: "life_step e (renameEscrow old new e)"

definition lives :: "Escrow set \<Rightarrow> Escrow set" where
  "lives N = {e. \<exists>n\<in>N. life_step\<^sup>*\<^sup>* n e}"

lemma pay_ref: "eRef (snd (pay to amt se)) = eRef (snd se)"
  by (simp add: pay_def Let_def split_beta)

lemma escrowStep_ref: "escrowStep s tx op e = Inr (s', e') \<Longrightarrow> eRef e' = eRef e"
  by (auto simp: escrowStep_def escrowDispatch_def escrowRelease_def escrowClaim_def escrowDispute_def escrowRefund_def
      escrowResolve_def Let_def pay_ref split_beta split: if_splits)

lemma life_step_terms: "life_step e e' \<Longrightarrow> same_terms e e'"
proof (induction rule: life_step.induct)
  case (rules e s tx op s' e')
  then show ?case using escrowStep_ok(2) [OF rules(2,1,3)] escrowStep_ref [OF rules(3)]
    by (simp add: same_terms_def emoves_def escrow_fixed_def)
next
  case (renamed e old new)
  then show ?case by (simp add: same_terms_def renameEscrow_def)
qed

lemma same_terms_trans: "same_terms a b \<Longrightarrow> same_terms b c \<Longrightarrow> same_terms a c"
  by (simp add: same_terms_def)

lemma same_terms_sym: "same_terms a b \<Longrightarrow> same_terms b a"
  by (simp add: same_terms_def)

lemma life_terms: "life_step\<^sup>*\<^sup>* n e \<Longrightarrow> same_terms n e"
  by (induction rule: rtranclp_induct) (auto simp: same_terms_def dest: life_step_terms)

text \<open>So the condition on \<open>H\<close> holds of every ledger, as its escrows have different ids.\<close>

lemma ledger_escrows_lives:
  assumes "\<And>n n'. n \<in> N \<Longrightarrow> n' \<in> N \<Longrightarrow> eID n' = eID n \<Longrightarrow> n' = n" and "\<And>n. n \<in> N \<Longrightarrow> eID n \<noteq> []"
  shows "ledger_escrows (lives N)"
  unfolding ledger_escrows_def
proof (intro ballI conjI impI)
  fix c assume "c \<in> lives N"
  then obtain n where n: "n \<in> N" "same_terms n c" using life_terms by (auto simp: lives_def)
  then have id: "eID c = eID n" by (simp add: same_terms_def)
  then show "HashString (eID c) \<noteq> ''''" using assms(2) [OF n(1)] by (cases "eID n") (simp_all add: HashString_def hex_encode_def)
  fix c' assume "c' \<in> lives N" and h: "HashString (eID c') = HashString (eID c)"
  then obtain n' where n': "n' \<in> N" "same_terms n' c'" using life_terms by (auto simp: lives_def)
  have "eID c' = eID c" using h unfolding HashString_def by (rule hex_encode_inject)
  then have "n' = n" using assms(1) [OF n(1) n'(1)] n'(2) id by (simp add: same_terms_def)
  then show "same_terms c c'" using n(2) n'(2) same_terms_trans same_terms_sym by blast
qed


text \<open>The create operation with a request's terms, as the buyer's wallet fills it in.\<close>

definition fundOp :: "EscrowRequest \<Rightarrow> int \<Rightarrow> EscrowOp" where
  "fundOp er shipBy =
     \<lparr>eoOp = OpEscrowCreate, eoID = zeroHash, eoSeller = erSeller er, eoArbiter = erArbiter er, eoMilestones = map miAmount (erMilestones er),
      eoShipBy = shipBy, eoReviewSecs = erReviewDays er * 24 * 3600, eoRef = erID er, eoToSeller = 0, eoArbiterBps = erArbiterBps er\<rparr>"

lemma readMilestones_ok:
  "readMilestones asset n xs = Inr ms \<Longrightarrow> length ms = length xs \<and> (\<forall>m\<in>set (map miAmount ms). m \<noteq> 0)"
proof (induction asset n xs arbitrary: ms rule: readMilestones.induct)
  case (2 asset n label0 txt0 xs)
  obtain amt where a: "ParseAmount txt0 = Inr amt" "amountOk asset amt"
    using "2.prems" by (auto split: sum.splits if_splits)
  obtain m rest where ms: "ms = m # rest" "miAmount m = amt" and r: "readMilestones asset (n + 1) xs = Inr rest"
    using "2.prems" a by (cases "readMilestones asset (n + 1) xs") (auto simp: Let_def split: if_splits)
  have "length (if TrimSpace label0 = '''' then ''Milestone '' @ showNat (n + 1) else TrimSpace label0) \<le> 80"
    using "2.prems" a by (auto simp: Let_def split: if_splits)
  then have "length rest = length xs \<and> (\<forall>m\<in>set (map miAmount rest). m \<noteq> 0)" using "2.IH" [OF a(1) _ refl refl _ r] a(2) by simp
  then show ?case using ms a(2) by (simp add: amountOk_def)
qed simp

lemma checkMilestones_fit:
  "\<forall>m\<in>set ms. m \<noteq> 0 \<Longrightarrow> checkMilestones acc ms = None \<longleftrightarrow> unat acc + sum_list (map unat ms) < 2 ^ 64"
proof (induction ms arbitrary: acc)
  case Nil
  then show ?case using unsigned_less [of acc] by simp
next
  case (Cons m ms)
  show ?case
  proof (cases "unat acc + unat m < 2 ^ 64")
    case True
    then have u: "unat (acc + m) = unat acc + unat m" by (rule unat_add64)
    then have "\<not> acc + m < acc" by (simp add: word_less_nat_alt)
    then show ?thesis using Cons u by (simp add: add.assoc)
  next
    case False
    then have "unat (acc + m) = unat acc + unat m - 2 ^ 64" by (simp add: unat_plus_if_size word_size)
    then have "acc + m < acc" using unsigned_less [of m, where ?'a = nat] False by (simp add: word_less_nat_alt)
    then show ?thesis using False by simp
  qed
qed

lemma asked_bounds:
  assumes "asked d dflt status fee now rnd appID seller i er"
  shows "erSeller er = seller" "erArbiter er \<noteq> seller" "erArbiterBps er = fee (erArbiter er)" "erID er = ''esr_'' @ rnd"
    "0 < length (erMilestones er)" "length (erMilestones er) \<le> 10" "\<forall>m\<in>set (map miAmount (erMilestones er)). m \<noteq> 0"
    "1 \<le> erReviewDays er" "erReviewDays er \<le> 90" "erEscrowID er = ''''"
proof -
  obtain arbiter asset ms policy h where er: "er = newRequest rnd appID seller arbiter asset ms policy h (fee arbiter) now i"
    and a: "arbiter \<noteq> seller" "readMilestones asset 0 (eiMilestones i) = Inr ms" "length (eiMilestones i) \<noteq> 0" "length (eiMilestones i) \<le> 10"
      "checkFields i = None"
    using assms unfolding asked_def by blast
  have review: "1 \<le> orDays (eiReviewDays i) 3 \<and> orDays (eiReviewDays i) 3 \<le> 90"
    using a(5) by (simp add: checkFields_def Let_def not_less split: if_splits)
  note m = readMilestones_ok [OF a(2)]
  show "erSeller er = seller" "erArbiter er \<noteq> seller" "erArbiterBps er = fee (erArbiter er)" "erID er = ''esr_'' @ rnd"
    "0 < length (erMilestones er)" "length (erMilestones er) \<le> 10" "\<forall>m\<in>set (map miAmount (erMilestones er)). m \<noteq> 0"
    "1 \<le> erReviewDays er" "erReviewDays er \<le> 90" "erEscrowID er = ''''"
    using a m review unfolding er by (auto simp: newRequest_def)
qed

lemma findIn_finds:
  assumes "e \<in> set es" and "fundsRequest er e" and "\<forall>h. \<not> isl (memo h)" and "erTermsHash er \<noteq> '''' \<longrightarrow> memo (eID e) = Inr (''terms:'' @ erTermsHash er)"
  shows "\<exists>c. findIn memo er es = Inr (Some c)"
  using assms(1)
proof (induction es)
  case (Cons x es)
  show ?case
  proof (cases "x = e")
    case True
    then show ?thesis using assms(2,4) by (simp split: sum.split)
  next
    case False
    then have ih: "\<exists>c. findIn memo er es = Inr (Some c)" using Cons by simp
    show ?thesis using ih assms(3) by (cases "memo (eID x)") (auto dest: spec [of _ "eID x"])
  qed
qed simp


text \<open>
  Self-funded requests. The watcher does not compare sellers: an escrow the seller itself creates as
  the buyer, with another account as the seller, links its request, and the app that asked for the escrow is told
  that it is funded.
\<close>

theorem self_funded_request:
  assumes "ndEscrowsOf nd (erSeller er) = Inr [newEscrow s tx ((fundOp er shipBy)\<lparr>eoSeller := other\<rparr>) eid]"
    and "ndMemo nd eid = Inr (''terms:'' @ erTermsHash er)" and "erEscrowID er = ''''" and "erChain er = None"
    and "txFrom tx = erSeller er" and "txAsset tx = erAsset er" and "other \<noteq> erSeller er"
  shows "\<exists>c. lookUp nd er = Inr (Some c) \<and> eBuyer c = erSeller er \<and> eSeller c \<noteq> erSeller er \<and>
    map hkType (erEvents (observe apps now (Some c) er)) = map hkType (erEvents er) @ [''escrow.funded'']"
proof -
  let ?c = "newEscrow s tx ((fundOp er shipBy)\<lparr>eoSeller := other\<rparr>) eid"
  have "fundsRequest er ?c" "eID ?c = eid" using assms(6) by (simp_all add: fundsRequest_def newEscrow_def fundOp_def)
  then have "lookUp nd er = Inr (Some ?c)" using assms(1-3) by (simp add: lookUp_def findFunding_def)
  moreover have "eBuyer ?c = erSeller er" "eSeller ?c \<noteq> erSeller er" using assms(5,7) by (simp_all add: newEscrow_def fundOp_def)
  moreover have "escrowEvents None ?c = [''escrow.funded'']" by (simp add: escrowEvents_def newEscrow_def)
  ultimately show ?thesis using assms(4) observe_events(1) [of apps now ?c er] by auto
qed

text \<open>
  Parcels. A courier's update whose status says that delivery failed is read as a delivery: a signed
  report of it marks the parcel delivered, and it is no longer followed.
\<close>

theorem failed_delivery_reads_delivered:
  assumes "secret \<noteq> ''''" and "hex_encode (hmac secret (take 65536 body)) = sig" and "parse (take 65536 body) = Some (ref, ''failed_delivery'', detail)"
    and "fmlookup (soData s) (erID er) = Some er" and "erChain er = Some e" and "splitTracking (eTracking e) = (courierName name, ref)"
    and "ref \<noteq> ''''" and "lbEqualFold lib (courierName name) (courierName name)"
  shows "\<exists>dl. fmlookup (soData (fst (courierWebhook hmac lib parse fault now secret name body sig [erID er] s))) (erID er) =
      Some (er\<lparr>erDelivery := Some dl\<rparr>) \<and> dlState dl = ''delivered'' \<and> parcelsToTrack track [er\<lparr>erDelivery := Some dl\<rparr>] = []"
proof -
  have state: "normaliseState ''failed_delivery'' = ''delivered''" by code_simp
  have hit: "parcelOf lib (courierName name) ref er" using assms(5-8) by (simp add: parcelOf_def)
  have "find (parcelOf lib (courierName name) ref) (List.map_filter (fmlookup (soData s)) [erID er]) = Some er"
    using hit assms(4) by (simp add: List.map_filter_simps)
  then show ?thesis using assms(1-3,5-7) state
    by (auto simp: courierWebhook_def recordDelivery_def Let_def split_beta parcelsToTrack_def List.map_filter_simps)
qed

subsection \<open>Examples\<close>

definition pact_input :: EscrowInput where
  "pact_input = \<lparr>eiSeller = demo_b, eiArbiter = '''', eiCurrency = '''', eiMilestones = [(''half'', ''5''), ('''', ''5'')], eiShipByDays = 0,
     eiReviewDays = 0, eiDescription = '''', eiReference = '''', eiReturnURL = '''', eiFundWithinH = 0, eiPolicy = '''', eiKind = '''', eiChecklist = []\<rparr>"

definition pact :: EscrowRequest where
  "pact = newRequest ''9'' ''app_1'' demo_b demo_c '''' [\<lparr>miLabel = ''half'', miAmount = 5000000\<rparr>, \<lparr>miLabel = ''Milestone 2'', miAmount = 5000000\<rparr>]
     '''' '''' 250 0 pact_input"

definition pact_tx :: Tx where
  "pact_tx = demo_tx\<lparr>txTo := '''', txAmount := 0\<rparr>"

definition pact_escrow :: Escrow where
  "pact_escrow = newEscrow demo_state pact_tx (fundOp pact 100) ''e''"

definition pact_sent :: Escrow where
  "pact_sent = pact_escrow\<lparr>eStatus := EscrowDispatched, eDispatchedAt := 1, eTracking := ''DHL 7''\<rparr>"

definition pact_node :: EscrowNode where
  "pact_node = \<lparr>ndEscrowsOf = \<lambda>a. Inr (if a \<in> {demo_a, demo_b, demo_c} then [pact_escrow] else []), ndMemo = \<lambda>_. Inr ''terms:'',
     ndEscrow = \<lambda>x. Inl (Err '''')\<rparr>"

lemma pact_created:
  "newEscrowRequest (\<lambda>_. '''') toy_lib empty_directory '''' (Inl (Err '''')) (\<lambda>_. 250) None None 0 ''9'' ''app_1'' demo_b demo_c '''' pact_input
     (\<lparr>soData = fmempty, soDisk = None\<rparr>, \<lparr>soData = fmempty, soDisk = None\<rparr>) =
   ((\<lparr>soData = fmempty, soDisk = None\<rparr>, fst (storeRequest None pact \<lparr>soData = fmempty, soDisk = None\<rparr>)), Inr pact)"
proof -
  have chars: "char_of (50 :: nat) = CHR ''2''" "\<not> is_space (CHR ''f'')" "\<not> is_space (CHR ''h'')" by code_simp+
  have ms: "readMilestones '''' 0 (eiMilestones pact_input) = Inr (erMilestones pact)"
    by (simp add: pact_input_def pact_def newRequest_def toy_amount amountOk_def TrimSpace_def Let_def showNat.simps digit_def chars)
  have arb: "demo_c \<noteq> demo_b" "demo_c \<noteq> ''''" by code_simp+
  have "readInput toy_lib empty_directory '''' (Inl (Err '''')) demo_b demo_c pact_input = Inr (demo_c, '''', erMilestones pact)"
    using ms arb by (simp add: readInput_def pact_input_def checkoutAsset_def TrimSpace_def checkFields_def orDays_def readChecklist_def escrowKinds_def Let_def)
  moreover have "newRequest ''9'' ''app_1'' demo_b demo_c '''' (erMilestones pact) '''' '''' 250 0 pact_input = pact"
    by (simp add: pact_def newRequest_def)
  moreover have "policyOf '''' pact_input = ''''" by (simp add: policyOf_def pact_input_def TrimSpace_def)
  ultimately show ?thesis
    by (simp add: newEscrowRequest_def storePolicy_def storeRequest_def Update_def WriteAtomic_def)
qed

lemma pact_valid: "Validate demo_a = None" "Validate demo_b = None" "Validate demo_c = None" "demo_a \<notin> {demo_b, demo_c}"
  by code_simp+

lemma pact_fields [simp]:
  "erSeller pact = demo_b" "erArbiter pact = demo_c" "erAsset pact = ''''" "erTermsHash pact = ''''" "erEscrowID pact = ''''"
  "erChain pact = None" "erEvents pact = []" "erArbiterBps pact = 250" "erID pact = ''esr_9''" "erReviewDays pact = 3"
  "map miAmount (erMilestones pact) = [5000000, 5000000]"
  by (simp_all add: pact_def newRequest_def pact_input_def orDays_def)

lemma pact_tx_fields [simp]: "txFrom pact_tx = demo_a" "txTo pact_tx = ''''" "txAmount pact_tx = 0" "txAsset pact_tx = ''''"
  by (simp_all add: pact_tx_def demo_tx_def)

lemma pact_step: "chain_step pact_escrow pact_sent"
proof (rule chain_step.step)
  show "Open pact_escrow" by (simp add: Open_def pact_escrow_def newEscrow_def)
  show "0 < stNow (demo_state\<lparr>stNow := 1\<rparr>)" by simp
  show "escrowStep (demo_state\<lparr>stNow := 1\<rparr>) (demo_tx\<lparr>txFrom := demo_b, txMemo := ''DHL 7''\<rparr>) ((fundOp pact 100)\<lparr>eoOp := OpEscrowDispatch\<rparr>) pact_escrow =
      Inr (demo_state\<lparr>stNow := 1\<rparr>, pact_sent)"
    by (simp add: escrowStep_def escrowDispatch_def pact_escrow_def pact_sent_def newEscrow_def fundOp_def)
qed


theorem escrow_events_complete_witness:
  "told pact_sent (map hkType (erEvents (foldl (\<lambda>r (now, c). observe fmempty now (Some c) r) pact [(1, pact_escrow), (2, pact_sent)])))"
proof -
  have "checkEscrowOp pact_tx (fundOp pact 100) = None" by code_simp
  moreover have "eoOp (fundOp pact 100) = OpEscrowCreate" by (simp add: fundOp_def)
  ultimately show ?thesis
    using escrow_events_complete [of pact_tx "fundOp pact 100" "[(1, pact_escrow), (2, pact_sent)]" demo_state "''e''" pact fmempty] r_into_rtranclp [of chain_step, OF pact_step]
    by (simp add: pact_escrow_def [symmetric])
qed

theorem self_funded_request_witness:
  "\<exists>c. lookUp (pact_node\<lparr>ndEscrowsOf := \<lambda>_. Inr [newEscrow demo_state (pact_tx\<lparr>txFrom := demo_b\<rparr>) ((fundOp pact 100)\<lparr>eoSeller := demo_a\<rparr>) ''e'']\<rparr>) pact =
     Inr (Some c) \<and> eSeller c \<noteq> erSeller pact"
proof -
  have "demo_a \<noteq> erSeller pact" using demo_neq by simp
  then show ?thesis
    using self_funded_request [where s = demo_state and tx = "pact_tx\<lparr>txFrom := demo_b\<rparr>" and shipBy = 100 and other = demo_a and eid = "''e''"
        and er = pact and nd = "pact_node\<lparr>ndEscrowsOf := \<lambda>_. Inr [newEscrow demo_state (pact_tx\<lparr>txFrom := demo_b\<rparr>) ((fundOp pact 100)\<lparr>eoSeller := demo_a\<rparr>) ''e'']\<rparr>"
        ]
    by (auto simp: pact_node_def)
qed

definition pact_store :: "Requests Store" where
  "pact_store = fst (storeRequest None pact \<lparr>soData = fmempty, soDisk = None\<rparr>)"

definition pact_linked :: "Requests Store" where
  "pact_linked = fst (checkEscrows fmempty pact_node (\<lambda>_. None) (\<lambda>_. 1) [''esr_9''] pact_store)"

lemma pact_lives: "pact_escrow \<in> lives {pact_escrow}"
  by (auto simp: lives_def)

lemma pact_linked_run: "(es_step (lives {pact_escrow}) (\<lambda>_. ''terms:''))\<^sup>*\<^sup>* \<lparr>soData = fmempty, soDisk = None\<rparr> pact_linked"
proof -
  have "es_step (lives {pact_escrow}) (\<lambda>_. ''terms:'') \<lparr>soData = fmempty, soDisk = None\<rparr> pact_store"
    using es_step.create [of "(lives {pact_escrow})" "\<lambda>_. ''terms:''" "\<lparr>soData = fmempty, soDisk = None\<rparr>" "\<lambda>_. ''''" toy_lib empty_directory "''''"
        "Inl (Err '''')" "\<lambda>_. 250" None None 0 "''9''" "''app_1''" demo_b demo_c "''''" pact_input "\<lparr>soData = fmempty, soDisk = None\<rparr>"]
    unfolding pact_created pact_store_def by simp
  moreover have "honest (lives {pact_escrow}) (\<lambda>_. ''terms:'') pact_node"
    using pact_lives by (auto simp: honest_def pact_node_def party_def) (simp_all add: pact_escrow_def newEscrow_def fundOp_def)
  then have "es_step (lives {pact_escrow}) (\<lambda>_. ''terms:'') pact_store pact_linked"
    unfolding pact_linked_def by (rule es_step.check) simp
  ultimately show ?thesis by (meson rtranclp.rtrancl_into_rtrancl rtranclp.rtrancl_refl)
qed

lemma pact_linked_data: "fmlookup (soData pact_linked) ''esr_9'' = Some (observe fmempty 1 (Some pact_escrow) pact)"
proof -
  have data: "soData pact_store = fmupd ''esr_9'' pact fmempty" by (simp add: pact_store_def storeRequest_def)
  have "fundsRequest pact pact_escrow" by (simp add: fundsRequest_def pact_escrow_def newEscrow_def fundOp_def)
  then have found: "lookUp pact_node pact = Inr (Some pact_escrow)" by (simp add: lookUp_def findFunding_def pact_node_def)
  have "watched pact" by (simp add: watched_def pact_def newRequest_def)
  then show ?thesis using found
    by (simp add: pact_linked_def checkEscrows_def data List.map_filter_simps checkOne_def updateRequest_data)
qed


theorem failed_delivery_reads_delivered_witness:
  "\<exists>dl. fmlookup (soData (fst (courierWebhook (\<lambda>_ _. ''A'') (toy_lib\<lparr>lbEqualFold := (\<lambda>_ _. True)\<rparr>) (\<lambda>_. Some (''7'', ''failed_delivery'', '''')) None 0
      ''k'' '''' [] ''41'' [''esr_9''] \<lparr>soData = fmupd ''esr_9'' (pact\<lparr>erChain := Some (pact_sent\<lparr>eTracking := ''7''\<rparr>)\<rparr>) fmempty, soDisk = None\<rparr>))) ''esr_9'' =
      Some ((pact\<lparr>erChain := Some (pact_sent\<lparr>eTracking := ''7''\<rparr>)\<rparr>)\<lparr>erDelivery := Some dl\<rparr>) \<and> dlState dl = ''delivered''"
proof -
  have s: "splitTracking ''7'' = (courierName '''', ''7'')" "hex_encode ''A'' = ''41''" by code_simp+
  show ?thesis
    using failed_delivery_reads_delivered [of "''k''" "\<lambda>_ _. ''A''" "[]" "''41''" "\<lambda>_. Some (''7'', ''failed_delivery'', '''')" "''7''" "''''"
        "\<lparr>soData = fmupd ''esr_9'' (pact\<lparr>erChain := Some (pact_sent\<lparr>eTracking := ''7''\<rparr>)\<rparr>) fmempty, soDisk = None\<rparr>"
        "pact\<lparr>erChain := Some (pact_sent\<lparr>eTracking := ''7''\<rparr>)\<rparr>" "pact_sent\<lparr>eTracking := ''7''\<rparr>" "''''" "toy_lib\<lparr>lbEqualFold := (\<lambda>_ _. True)\<rparr>" None 0] s
    by auto
qed

end
