(* ===== verification/Orpay_Reputation.thy ===== *)
theory Orpay_Reputation
  imports Orpay_Escrows
begin

text \<open>
  Reputation in the orPay backend: arbiters (apps/orpay/backend/arbiters.go), the choice of one for a link
  (\<open>defaultArbiter\<close> of escrowlinks.go), reviews of sellers (ratings.go) and trust profiles (trust.go).

  Averages and scores are exact fractions; the floating-point numbers of the code order and compare
  alike as long as there are fewer than a million ratings. A small Go map is kept as the list of
  its entries, in the order they were made.
\<close>

subsection \<open>Arbiters\<close>

datatype ArbiterStatus = ArbiterPending | ArbiterApproved | ArbiterRejected

record Arbiter =
  arAddress :: addr
  arBio :: string
  arStatus :: ArbiterStatus
  arRatings :: "(string \<times> int) list"
  arAppliedAt :: int
  arFeeBps :: "32 word"

type_synonym Arbiters = "(addr, Arbiter) fmap"

definition average :: "int list \<Rightarrow> rat" where
  "average vs = (if vs = [] then 0 else of_int (sum_list vs) / of_nat (length vs))"

definition rating :: "Arbiter \<Rightarrow> rat \<times> nat" where
  "rating a = (average (map snd (arRatings a)), length (arRatings a))"

definition score :: "Arbiter \<Rightarrow> rat" where
  "score a = (let (avg, n) = rating a in if n = 0 then 3 else avg + of_nat (min n 20) / 20)"

text \<open>The answer is the same whether or not the write succeeded.\<close>

definition applyArbiter :: "Directory \<Rightarrow> err option \<Rightarrow> int \<Rightarrow> addr \<Rightarrow> string \<Rightarrow> 32 word \<Rightarrow> Arbiters Store \<Rightarrow> Arbiters Store \<times> string response" where
  "applyArbiter d fault now me bio0 fee s =
     (if byAddress d me = None then (s, writeErr 400 (Err ''claim a @username first''))
      else let bio = TrimSpace bio0 in
        if fee > 500 then (s, writeErr 400 (Err ''the dispute fee can be at most 5%''))
        else if length bio < 20 \<or> length bio > 600
        then (s, writeErr 400 (Err ''tell buyers and sellers about your experience in 20-600 characters''))
        else (fst (Update fault (\<lambda>m. (case fmlookup m me of
                Some a \<Rightarrow> fmupd me (a\<lparr>arBio := bio, arFeeBps := fee,
                                   arStatus := if arStatus a = ArbiterRejected then ArbiterPending else arStatus a\<rparr>) m
              | None \<Rightarrow> fmupd me \<lparr>arAddress = me, arBio = bio, arStatus = ArbiterPending, arRatings = [], arAppliedAt = now, arFeeBps = fee\<rparr> m,
              None)) s), writeJSON 200 ''pending''))"

definition arbiterDecision :: "string \<Rightarrow> ArbiterStatus option" where
  "arbiterDecision decision =
     (if decision = ''approve'' then Some ArbiterApproved else if decision = ''reject'' then Some ArbiterRejected else None)"

definition reviewArbiter :: "addr list \<Rightarrow> err option \<Rightarrow> addr \<Rightarrow> addr \<Rightarrow> string \<Rightarrow> Arbiters Store \<Rightarrow> Arbiters Store \<times> ArbiterStatus response" where
  "reviewArbiter admins fault me who decision s =
     (if me \<notin> set admins then (s, writeErr 403 (Err ''admins only''))
      else case arbiterDecision decision of None \<Rightarrow> (s, writeErr 400 (Err ''decision must be approve or reject''))
      | Some st \<Rightarrow>
        (case Update fault (\<lambda>m. case fmlookup m who of None \<Rightarrow> (m, Some errNotFound)
                | Some a \<Rightarrow> (fmupd who (a\<lparr>arStatus := st\<rparr>) m, None)) s of
           (s', Some e) \<Rightarrow> (s', writeErr 404 (Err ''no such applicant''))
         | (s', None) \<Rightarrow> (s', writeJSON 200 st)))"

definition resolvedBy :: "EscrowNode \<Rightarrow> addr \<Rightarrow> nat" where
  "resolvedBy nd a =
     (case ndEscrowsOf nd a of Inl _ \<Rightarrow> 0
      | Inr es \<Rightarrow> length (filter (\<lambda>e. eArbiter e = a \<and> eStatus e = EscrowResolved) es))"

text \<open>The list of arbiters: each with its username and the disputes it resolved, best score first.\<close>

definition writeArbiters :: "Directory \<Rightarrow> EscrowNode \<Rightarrow> bool \<Rightarrow> addr list \<Rightarrow> Arbiters Store \<Rightarrow> (Arbiter \<times> string option \<times> nat) list response" where
  "writeArbiters d nd isAdmin order s =
     writeJSON 200 (map (\<lambda>a. (a, byAddress d (arAddress a), resolvedBy nd (arAddress a)))
       (sort_key (\<lambda>a. - score a)
         (filter (\<lambda>a. arStatus a = ArbiterApproved \<or> (isAdmin \<and> arStatus a = ArbiterPending)) (List.map_filter (fmlookup (soData s)) order))))"

definition pendingArbiters :: "addr list \<Rightarrow> Directory \<Rightarrow> EscrowNode \<Rightarrow> addr \<Rightarrow> addr list \<Rightarrow> Arbiters Store \<Rightarrow> (Arbiter \<times> string option \<times> nat) list response" where
  "pendingArbiters admins d nd me order s =
     (if me \<notin> set admins then writeErr 403 (Err ''admins only'') else writeArbiters d nd True order s)"

definition rateArbiter :: "EscrowNode \<Rightarrow> err option \<Rightarrow> string \<Rightarrow> addr \<Rightarrow> int \<Rightarrow> Arbiters Store \<Rightarrow> Arbiters Store \<times> bool response" where
  "rateArbiter nd fault eid me stars s =
     (if stars < 1 \<or> stars > 5 then (s, writeErr 400 (Err ''stars must be 1-5''))
      else case ndEscrow nd eid of Inl _ \<Rightarrow> (s, writeErr 404 (Err ''escrow not found''))
      | Inr e \<Rightarrow>
        if eStatus e \<noteq> EscrowResolved \<or> (me \<noteq> eBuyer e \<and> me \<noteq> eSeller e)
        then (s, writeErr 403 (Err ''only the buyer and seller can rate, after the arbiter decides''))
        else (case Update fault (\<lambda>m. case fmlookup m (eArbiter e) of None \<Rightarrow> (m, Some (Err ''this arbiter is not in the marketplace''))
                | Some a \<Rightarrow>
                  (let key = eid @ ''/'' @ me in
                   if key \<in> fst ` set (arRatings a) then (m, Some (Err ''you already rated this decision''))
                   else (fmupd (eArbiter e) (a\<lparr>arRatings := arRatings a @ [(key, stars)]\<rparr>) m, None))) s of
                (s', Some x) \<Rightarrow> (s', writeErr 409 x)
              | (s', None) \<Rightarrow> (s', writeJSON 200 True)))"

text \<open>\<open>arbiterFee\<close> of the backend.\<close>

definition marketFee :: "Arbiters Store \<Rightarrow> addr \<Rightarrow> 32 word" where
  "marketFee s a = (case fmlookup (soData s) a of None \<Rightarrow> 0 | Some x \<Rightarrow> if arStatus x = ArbiterApproved then arFeeBps x else 0)"

text \<open>\<open>defaultArbiter\<close>: the best approved arbiter in the order ranged over, else the first admin who is not the seller.\<close>

definition bestArbiter :: "addr \<Rightarrow> Arbiter list \<Rightarrow> Arbiter option" where
  "bestArbiter seller as =
     foldl (\<lambda>best a. if arStatus a \<noteq> ArbiterApproved \<or> arAddress a = seller then best
                      else case best of None \<Rightarrow> Some a | Some b \<Rightarrow> if score a > score b then Some a else best) None as"

definition defaultArbiter :: "addr list \<Rightarrow> addr list \<Rightarrow> Arbiters Store \<Rightarrow> addr \<Rightarrow> addr" where
  "defaultArbiter admins order s seller =
     (case bestArbiter seller (List.map_filter (fmlookup (soData s)) order) of
        Some a \<Rightarrow> arAddress a
      | None \<Rightarrow> (case find (\<lambda>a. a \<noteq> seller) admins of Some a \<Rightarrow> a | None \<Rightarrow> ''''))"

subsection \<open>Reviews\<close>

record Review =
  rvEscrow :: string
  rvBuyer :: addr
  rvStars :: int
  rvText :: string
  rvAt :: int

type_synonym RatingStore = "(addr, (string \<times> Review) list) fmap"

definition reviewsOf :: "RatingStore \<Rightarrow> addr \<Rightarrow> (string \<times> Review) list" where
  "reviewsOf m seller = (case fmlookup m seller of None \<Rightarrow> [] | Some rs \<Rightarrow> rs)"

definition addReview :: "addr \<Rightarrow> string \<Rightarrow> Review \<Rightarrow> RatingStore \<Rightarrow> RatingStore \<times> err option" where
  "addReview seller eid rv m =
     (let m1 = (if fmlookup m seller = None then fmupd seller [] m else m) in
      if eid \<in> fst ` set (reviewsOf m1 seller) then (m1, Some (Err ''you already rated this purchase''))
      else (fmupd seller (reviewsOf m1 seller @ [(eid, rv)]) m1, None))"

record AjoStats =
  ajCircles :: nat
  ajFinished :: nat
  ajOnTime :: nat
  ajMissed :: nat
  ajOrganised :: nat

record EscrowRep =
  epSold :: nat
  epBought :: nat
  epRefunded :: nat
  epDisputes :: nat
  epOpen :: nat

record SellerRating =
  sgAverage :: rat
  sgCount :: nat
  sgRecent :: "Review list"

datatype Level = LevelNew | LevelBuilding | LevelTrusted | LevelExcellent

record TrustProfile =
  tpAddress :: addr
  tpUsername :: "string option"
  tpScore :: int
  tpLevel :: Level
  tpSince :: int
  tpAjo :: AjoStats
  tpEscrow :: EscrowRep
  tpBadges :: "string list"
  tpRating :: SellerRating
  tpUpdatedAt :: int

type_synonym TrustCache = "(addr, TrustProfile) fmap"

text \<open>\<open>rateSeller\<close> also drops the seller's cached profile.\<close>

definition rateSeller :: "EscrowNode \<Rightarrow> err option \<Rightarrow> int \<Rightarrow> string \<Rightarrow> addr \<Rightarrow> int \<Rightarrow> string \<Rightarrow> RatingStore Store \<times> TrustCache \<Rightarrow>
    (RatingStore Store \<times> TrustCache) \<times> bool response" where
  "rateSeller nd fault now eid me stars text0 sc =
     (if stars < 1 \<or> stars > 5 then (sc, writeErr 400 (Err ''stars must be 1-5''))
      else let txt = TrimSpace text0 in
        if length txt > 280 then (sc, writeErr 400 (Err ''keep the review under 280 characters''))
        else case ndEscrow nd eid of Inl _ \<Rightarrow> (sc, writeErr 404 (Err ''escrow not found''))
        | Inr e \<Rightarrow>
          if eBuyer e \<noteq> me then (sc, writeErr 403 (Err ''only the buyer can rate the seller''))
          else if eStatus e \<noteq> EscrowCompleted \<and> eStatus e \<noteq> EscrowResolved
          then (sc, writeErr 409 (Err ''you can rate the seller once the escrow is finished''))
          else (case Update fault (addReview (eSeller e) eid \<lparr>rvEscrow = eid, rvBuyer = me, rvStars = stars, rvText = txt, rvAt = now\<rparr>) (fst sc) of
                  (s', Some x) \<Rightarrow> ((s', snd sc), writeErr 409 x)
                | (s', None) \<Rightarrow> ((s', fmdrop (eSeller e) (snd sc)), writeJSON 200 True)))"

definition ratingOf :: "RatingStore Store \<Rightarrow> addr \<Rightarrow> SellerRating" where
  "ratingOf s a =
     (let rs = map snd (reviewsOf (soData s) a) in
      \<lparr>sgAverage = average (map rvStars rs), sgCount = length rs, sgRecent = take 5 (sort_key (\<lambda>rv. - rvAt rv) rs)\<rparr>)"

definition myReview :: "RatingStore Store \<Rightarrow> addr list \<Rightarrow> string \<Rightarrow> addr \<Rightarrow> Review option response" where
  "myReview s order eid me =
     writeJSON 200 (foldl (\<lambda>found seller. case map_of (reviewsOf (soData s) seller) eid of
                        Some rv \<Rightarrow> if rvBuyer rv = me then Some rv else found | None \<Rightarrow> found) None order)"

subsection \<open>Trust profiles\<close>

text \<open>
  What the node answers besides escrows: pools and history of an account. A pool's lists have an entry per member once it
  has started, so the indices below are in range.
\<close>

record TrustNode =
  tnHistory :: "addr \<Rightarrow> err + HistoryEntry list"
  tnPools :: "addr \<Rightarrow> err + Pool list"
  tnEscrowsOf :: "addr \<Rightarrow> err + Escrow list"

fun indexOf :: "'a \<Rightarrow> 'a list \<Rightarrow> nat option" where
  "indexOf x [] = None"
| "indexOf x (y # ys) = (if y = x then Some 0 else map_option Suc (indexOf x ys))"

definition countPool :: "addr \<Rightarrow> AjoStats \<Rightarrow> Pool \<Rightarrow> AjoStats" where
  "countPool a st p =
     (case indexOf a (pMembers p) of None \<Rightarrow> st
      | Some i \<Rightarrow>
        if pStatus p = PoolForming then st
        else (let missed = (case pDefaults p of None \<Rightarrow> 0 | Some ds \<Rightarrow> if i < length ds then ds ! i else 0);
                  rounds = (if pStatus p = PoolActive \<and> pPaid p ! i then pRound p + 1 else pRound p)
              in \<lparr>ajCircles = ajCircles st + 1,
                  ajFinished = (if pStatus p = PoolDone then ajFinished st + 1 else ajFinished st),
                  ajOnTime = ajOnTime st + (rounds - missed),
                  ajMissed = ajMissed st + missed,
                  ajOrganised = (if pCreator p = a then ajOrganised st + 1 else ajOrganised st)\<rparr>))"

definition countEscrow :: "addr \<Rightarrow> EscrowRep \<Rightarrow> Escrow \<Rightarrow> EscrowRep" where
  "countEscrow a st e =
     (let seller = (eSeller e = a); buyer = (eBuyer e = a);
          done = eStatus e \<in> {EscrowCompleted, EscrowResolved}
      in \<lparr>epSold = (if done \<and> seller then epSold st + 1 else epSold st),
          epBought = (if done \<and> buyer then epBought st + 1 else epBought st),
          epRefunded = (if eStatus e = EscrowRefunded \<and> seller then epRefunded st + 1 else epRefunded st),
          epDisputes = (if (seller \<or> buyer) \<and> eStatus e \<in> {EscrowDisputed, EscrowResolved} then epDisputes st + 1 else epDisputes st),
          epOpen = (if eStatus e \<in> {EscrowFunded, EscrowDispatched} then epOpen st + 1 else epOpen st)\<rparr>)"

text \<open>The score of an account first active at \<open>since\<close> (Unix milliseconds, 0: never), at time \<open>now\<close>.\<close>

definition ageScore :: "int \<Rightarrow> int \<Rightarrow> int" where
  "ageScore now since =
     (if since > 0
      then 20 + (let days = (now - since * 1000000) div (24 * hour) in if days > 0 then min 15 (days div 6) else 0)
      else 0)"

definition ratingScore :: "SellerRating \<Rightarrow> int" where
  "ratingScore r =
     (if sgCount r > 0
      then if sgAverage r \<ge> 4 then min 10 (int (sgCount r) * 2) else if sgAverage r < 3 then - 10 else 0
      else 0)"

definition rawScore :: "int \<Rightarrow> int \<Rightarrow> AjoStats \<Rightarrow> EscrowRep \<Rightarrow> SellerRating \<Rightarrow> int" where
  "rawScore now since aj ep r =
     ageScore now since + min 30 (int (ajOnTime aj) * 3) + min 10 (int (ajFinished aj) * 5)
     + min 30 (int (epSold ep + epBought ep) * 4)
     - (int (ajMissed aj) * 10 + int (epDisputes ep) * 8 + int (epRefunded ep) * 3) + ratingScore r"

definition trustScore :: "int \<Rightarrow> int \<Rightarrow> AjoStats \<Rightarrow> EscrowRep \<Rightarrow> SellerRating \<Rightarrow> int" where
  "trustScore now since aj ep r = max 0 (min 100 (rawScore now since aj ep r))"

definition levelOf :: "int \<Rightarrow> int \<Rightarrow> Level" where
  "levelOf since sc =
     (if since = 0 then LevelNew else if sc \<ge> 80 then LevelExcellent else if sc \<ge> 55 then LevelTrusted else LevelBuilding)"

definition badges :: "bool \<Rightarrow> bool \<Rightarrow> AjoStats \<Rightarrow> EscrowRep \<Rightarrow> SellerRating \<Rightarrow> string list" where
  "badges phone business aj ep r =
     (if phone then [''phone_verified''] else []) @ (if business then [''verified_business''] else []) @
     (if ajFinished aj > 0 \<and> ajMissed aj = 0 then [''ajo_perfect''] else []) @
     (if sgCount r \<ge> 3 \<and> sgAverage r \<ge> 9 / 2 then [''highly_rated''] else []) @
     (if epSold ep \<ge> 5 \<and> epRefunded ep = 0 \<and> epDisputes ep = 0 then [''top_seller''] else [])"

definition noAjo :: AjoStats where
  "noAjo = \<lparr>ajCircles = 0, ajFinished = 0, ajOnTime = 0, ajMissed = 0, ajOrganised = 0\<rparr>"

definition noEscrows :: EscrowRep where
  "noEscrows = \<lparr>epSold = 0, epBought = 0, epRefunded = 0, epDisputes = 0, epOpen = 0\<rparr>"

definition sinceOf :: "TrustNode \<Rightarrow> addr \<Rightarrow> int" where
  "sinceOf tn a = (case tnHistory tn a of Inl _ \<Rightarrow> 0 | Inr hist \<Rightarrow> if hist = [] then 0 else heTime (List.last hist))"

text \<open>A profile made afresh; \<open>phone\<close> and \<open>business\<close> are what the backend has verified of the account.\<close>

definition freshProfile :: "TrustNode \<Rightarrow> Directory \<Rightarrow> RatingStore Store \<Rightarrow> bool \<Rightarrow> bool \<Rightarrow> int \<Rightarrow> addr \<Rightarrow> err + TrustProfile" where
  "freshProfile tn d rs phone business now a =
     (case tnPools tn a of Inl x \<Rightarrow> Inl x
      | Inr pools \<Rightarrow>
        (case tnEscrowsOf tn a of Inl x \<Rightarrow> Inl x
         | Inr es \<Rightarrow>
           (let aj = foldl (countPool a) noAjo pools; ep = foldl (countEscrow a) noEscrows es; r = ratingOf rs a;
                since = sinceOf tn a; sc = trustScore now since aj ep r
            in Inr \<lparr>tpAddress = a, tpUsername = byAddress d a, tpScore = sc, tpLevel = levelOf since sc, tpSince = since,
                    tpAjo = aj, tpEscrow = ep, tpBadges = badges phone business aj ep r, tpRating = r, tpUpdatedAt = now\<rparr>)))"

definition hasPhone :: "(string, addr) fmap \<Rightarrow> addr \<Rightarrow> bool" where
  "hasPhone phones a \<longleftrightarrow> a |\<in>| fmran phones"

definition hasBusiness :: "Apps \<Rightarrow> string list \<Rightarrow> addr \<Rightarrow> bool" where
  "hasBusiness apps order a \<longleftrightarrow> list_ex (\<lambda>p. apOwner p = a \<and> apStatus p = AppApproved) (List.map_filter (fmlookup apps) order)"

text \<open>\<open>trustOf\<close>: a profile less than a minute old is answered from the cache.\<close>

definition trustOf :: "TrustNode \<Rightarrow> Directory \<Rightarrow> RatingStore Store \<Rightarrow> bool \<Rightarrow> bool \<Rightarrow> int \<Rightarrow> TrustCache \<Rightarrow> addr \<Rightarrow> TrustCache \<times> (err + TrustProfile)" where
  "trustOf tn d rs phone business now cache a =
     (case fmlookup cache a of
        Some p \<Rightarrow> if now - tpUpdatedAt p < minute then (cache, Inr p)
          else (case freshProfile tn d rs phone business now a of Inl x \<Rightarrow> (cache, Inl x) | Inr q \<Rightarrow> (fmupd a q cache, Inr q))
      | None \<Rightarrow> (case freshProfile tn d rs phone business now a of Inl x \<Rightarrow> (cache, Inl x) | Inr q \<Rightarrow> (fmupd a q cache, Inr q)))"

definition getTrust :: "TrustNode \<Rightarrow> Directory \<Rightarrow> RatingStore Store \<Rightarrow> (addr \<Rightarrow> bool) \<Rightarrow> (addr \<Rightarrow> bool) \<Rightarrow> int \<Rightarrow> TrustCache \<Rightarrow> string \<Rightarrow>
    TrustCache \<times> TrustProfile response" where
  "getTrust tn d rs phone business now cache ref =
     (case resolveRef d ref of Inl _ \<Rightarrow> (cache, writeErr 404 (Err (''no ORPay user '' @ ref)))
      | Inr a \<Rightarrow> (case trustOf tn d rs (phone a) (business a) now cache a of
                     (c', Inl x) \<Rightarrow> (c', writeErr 502 x) | (c', Inr p) \<Rightarrow> (c', writeJSON 200 p)))"

subsection \<open>What reviews are backed by\<close>

definition backed :: "Escrow set \<Rightarrow> addr \<Rightarrow> string \<times> Review \<Rightarrow> bool" where
  "backed H seller r \<longleftrightarrow> rvEscrow (snd r) = fst r \<and> 1 \<le> rvStars (snd r) \<and> rvStars (snd r) \<le> 5 \<and>
     (\<exists>e\<in>H. ParseHash (fst r) = Inr (eID e) \<and> eSeller e = seller \<and> eBuyer e = rvBuyer (snd r) \<and>
        eStatus e \<in> {EscrowCompleted, EscrowResolved})"

definition reviews_ok :: "Escrow set \<Rightarrow> addr \<Rightarrow> (string \<times> Review) list \<Rightarrow> bool" where
  "reviews_ok H seller rs \<longleftrightarrow> distinct (map fst rs) \<and> list_all (backed H seller) rs"

lemma reviews_ok_reviewsOf: "store_all (reviews_ok H) s \<Longrightarrow> reviews_ok H seller (reviewsOf (soData s) seller)"
  by (auto simp: reviewsOf_def reviews_ok_def dest: store_allD split: option.split)

lemma addReview_ok:
  assumes "store_all (reviews_ok H) s" and "backed H seller (eid, rv)"
  shows "store_all (reviews_ok H) (fst (Update fault (addReview seller eid rv) s))"
proof (rule store_all_Update [OF assms(1)])
  fix k v
  assume v: "fmlookup (fst (addReview seller eid rv (soData s))) k = Some v"
  have r: "reviews_ok H seller (reviewsOf (soData s) seller)" by (rule reviews_ok_reviewsOf [OF assms(1)])
  show "reviews_ok H k v"
  proof (cases "k = seller")
    case True
    have "v = reviewsOf (soData s) seller \<or> eid \<notin> fst ` set (reviewsOf (soData s) seller) \<and> v = reviewsOf (soData s) seller @ [(eid, rv)]"
      using v True by (auto simp: addReview_def reviewsOf_def Let_def split: if_splits option.splits)
    then show ?thesis using r assms(2) True by (auto simp: reviews_ok_def)
  next
    case False
    then have "fmlookup (soData s) k = Some v" using v by (auto simp: addReview_def Let_def split: if_splits)
    then show ?thesis by (rule store_allD [OF assms(1)])
  qed
qed

lemma rateSeller_cases:
  "fst (fst (rateSeller nd fault now eid me stars text0 (s, cache))) = s \<and> fst (snd (rateSeller nd fault now eid me stars text0 (s, cache))) \<noteq> 200 \<or>
   (\<exists>e rv. ndEscrow nd eid = Inr e \<and> eBuyer e = me \<and> eStatus e \<in> {EscrowCompleted, EscrowResolved} \<and> 1 \<le> stars \<and> stars \<le> 5 \<and>
      rvEscrow rv = eid \<and> rvBuyer rv = me \<and> rvStars rv = stars \<and>
      fst (fst (rateSeller nd fault now eid me stars text0 (s, cache))) = fst (Update fault (addReview (eSeller e) eid rv) s) \<and>
      (fst (snd (rateSeller nd fault now eid me stars text0 (s, cache))) = 200 \<longleftrightarrow> snd (Update fault (addReview (eSeller e) eid rv) s) = None))"
proof (cases "ndEscrow nd eid")
  case (Inl x)
  then show ?thesis by (simp add: rateSeller_def Let_def writeErr_def)
next
  case (Inr e)
  let ?rv = "\<lparr>rvEscrow = eid, rvBuyer = me, rvStars = stars, rvText = TrimSpace text0, rvAt = now\<rparr>"
  obtain s' r where u: "Update fault (addReview (eSeller e) eid ?rv) s = (s', r)" by fastforce
  show ?thesis
  proof (cases "1 \<le> stars \<and> stars \<le> 5 \<and> length (TrimSpace text0) \<le> 280 \<and> eBuyer e = me \<and> eStatus e \<in> {EscrowCompleted, EscrowResolved}")
    case True
    then show ?thesis using Inr u
      by (intro disjI2 exI [of _ e] exI [of _ ?rv]) (cases r; simp add: rateSeller_def Let_def writeErr_def writeJSON_def; fastforce)
  next
    case False
    then show ?thesis using Inr by (intro disjI1) (auto simp: rateSeller_def Let_def writeErr_def)
  qed
qed

text \<open>The backend against the escrows \<open>H\<close> of a chain.\<close>

inductive rate_step :: "Escrow set \<Rightarrow> (hash \<Rightarrow> string) \<Rightarrow> RatingStore Store \<Rightarrow> RatingStore Store \<Rightarrow> bool" for H memo where
  rate: "honest H memo nd \<Longrightarrow> rate_step H memo s (fst (fst (rateSeller nd fault now eid me stars txt0 (s, cache))))"
| restart: "rate_step H memo s (reopen fmempty s)"

lemma rate_step_ok: "rate_step H memo s s' \<Longrightarrow> store_all (reviews_ok H) s \<Longrightarrow> store_all (reviews_ok H) s'"
proof (induction rule: rate_step.induct)
  case (rate nd s fault now eid me stars txt0 cache)
  from rateSeller_cases [of nd fault now eid me stars txt0 s cache] show ?case
  proof
    assume "\<exists>e rv. ndEscrow nd eid = Inr e \<and> eBuyer e = me \<and> eStatus e \<in> {EscrowCompleted, EscrowResolved} \<and> 1 \<le> stars \<and> stars \<le> 5 \<and>
      rvEscrow rv = eid \<and> rvBuyer rv = me \<and> rvStars rv = stars \<and>
      fst (fst (rateSeller nd fault now eid me stars txt0 (s, cache))) = fst (Update fault (addReview (eSeller e) eid rv) s) \<and>
      (fst (snd (rateSeller nd fault now eid me stars txt0 (s, cache))) = 200 \<longleftrightarrow> snd (Update fault (addReview (eSeller e) eid rv) s) = None)"
    then obtain e rv where e: "ndEscrow nd eid = Inr e" "eBuyer e = me" "eStatus e \<in> {EscrowCompleted, EscrowResolved}" "1 \<le> stars" "stars \<le> 5"
      "rvEscrow rv = eid" "rvBuyer rv = me" "rvStars rv = stars"
      and r: "fst (fst (rateSeller nd fault now eid me stars txt0 (s, cache))) = fst (Update fault (addReview (eSeller e) eid rv) s)" by blast
    have "e \<in> H \<and> ParseHash eid = Inr (eID e)" using rate.hyps e(1) unfolding honest_def by blast
    then have "backed H (eSeller e) (eid, rv)" using e unfolding backed_def by auto
    then show ?case unfolding r by (rule addReview_ok [OF rate.prems])
  qed (use rate.prems in simp)
qed (simp add: store_all_reopen)

lemma rate_run_ok: "(rate_step H memo)\<^sup>*\<^sup>* s s' \<Longrightarrow> store_all (reviews_ok H) s \<Longrightarrow> store_all (reviews_ok H) s'"
  by (induction rule: rtranclp_induct) (blast intro: rate_step_ok)+

subsection \<open>The node behind the reviews\<close>

text \<open>\<open>Escrow\<close>, \<open>EscrowsOf\<close> and \<open>EscrowCreateMemo\<close> of the node's client, over a chain that could be reached or not.\<close>

definition ClientEscrow :: "(bytes \<Rightarrow> hash) \<Rightarrow> err + Chain \<Rightarrow> string \<Rightarrow> err + Escrow" where
  "ClientEscrow sha net eid = map_sum id fst (GetJSON (case net of Inl e \<Rightarrow> Inl e | Inr c \<Rightarrow> Inr (apiEscrow sha c eid)))"

definition ClientEscrowsOf :: "err + Chain \<Rightarrow> addr \<Rightarrow> err + Escrow list" where
  "ClientEscrowsOf net a = GetJSON (case net of Inl e \<Rightarrow> Inl e | Inr c \<Rightarrow> Inr (apiAccountEscrows c a))"

definition createMemo :: "HistoryEntry option list \<Rightarrow> string" where
  "createMemo hist = (case hist of Some h # _ \<Rightarrow> txMemo (heTx h) | _ \<Rightarrow> '''')"

definition EscrowCreateMemo :: "(bytes \<Rightarrow> hash) \<Rightarrow> err + Chain \<Rightarrow> hash \<Rightarrow> err + string" where
  "EscrowCreateMemo sha net h =
     map_sum id (createMemo \<circ> snd) (GetJSON (case net of Inl e \<Rightarrow> Inl e | Inr c \<Rightarrow> Inr (apiEscrow sha c (HashString h))))"

definition chainNode :: "(bytes \<Rightarrow> hash) \<Rightarrow> err + Chain \<Rightarrow> EscrowNode" where
  "chainNode sha net = \<lparr>ndEscrowsOf = ClientEscrowsOf net, ndMemo = EscrowCreateMemo sha net, ndEscrow = ClientEscrow sha net\<rparr>"

definition escrowsOn :: "Chain \<Rightarrow> Escrow set" where
  "escrowsOn c = fmran' (stEscrows (chState c))"

lemma ClientEscrow_Inr:
  assumes "ClientEscrow sha (Inr c) eid = Inr e"
  shows "\<exists>h. ParseHash eid = Inr h \<and> EscrowAt c h = Some e"
  using assms by (auto simp: ClientEscrow_def apiEscrow_def GetJSON_def writeErr_def writeJSON_def split: sum.splits option.splits)

lemma ClientEscrow_found:
  assumes "ParseHash eid = Inr h" and "EscrowAt c h = Some e"
  shows "ClientEscrow sha (Inr c) eid = Inr e"
  using assms by (simp add: ClientEscrow_def apiEscrow_def GetJSON_def writeJSON_def)

lemma EscrowCreateMemo_Inr:
  "EscrowCreateMemo sha (Inr c) h = Inr m \<Longrightarrow> m = createMemo (EscrowHistory sha c h)"
  by (auto simp: EscrowCreateMemo_def apiEscrow_def GetJSON_def writeErr_def writeJSON_def
      split: sum.splits option.splits dest: ParseHash_HashString)

lemma ClientEscrowsOf_Inr:
  "ClientEscrowsOf (Inr c) a = Inr es \<Longrightarrow> es = EscrowsOf c a"
  by (auto simp: ClientEscrowsOf_def apiAccountEscrows_def GetJSON_def writeErr_def writeJSON_def split: option.splits if_splits)

text \<open>A node that answers from its chain is what the other theorems take a node to be.\<close>

lemma chainNode_honest:
  assumes "\<forall>k e. fmlookup (stEscrows (chState c)) k = Some e \<longrightarrow> eID e = k"
  shows "honest (escrowsOn c) (\<lambda>h. createMemo (EscrowHistory sha c h)) (chainNode sha (Inr c))"
proof -
  have "set (EscrowsOf c a) \<subseteq> {e \<in> escrowsOn c. a \<in> party e}" for a
    by (auto simp: EscrowsOf_def escrowsOn_def party_def sortedEntries_def fmran'I)
  moreover have "e \<in> escrowsOn c \<and> ParseHash x = Inr (eID e)" if e: "ClientEscrow sha (Inr c) x = Inr e" for x e
    using ClientEscrow_Inr [OF e] assms by (auto simp: EscrowAt_def escrowsOn_def fmran'I)
  ultimately show ?thesis
    using ClientEscrowsOf_Inr EscrowCreateMemo_Inr by (simp add: honest_def chainNode_def) blast
qed

subsection \<open>An id in capitals\<close>

lemma hexval_upper: "n < 16 \<Longrightarrow> hexval (upper (hexdigit n)) = Some n"
  by (cases "n < 10") (simp_all add: upper_def is_lower_def hexval_def Let_def)

lemma hex_decode_upper_encode: "hex_decode (map upper (hex_encode bs)) = Some bs"
proof (induction bs)
  case (Cons c bs)
  have "16 * ((of_char c :: nat) div 16) + of_char c mod 16 = of_char c" by simp
  then have "char_of (16 * ((of_char c :: nat) div 16) + of_char c mod 16) = c" by (simp only: char_of_char)
  then show ?case using Cons nibbles [of c] by (simp add: hex_encode_def hexval_upper)
qed (simp add: hex_encode_def)

lemma ParseHash_either:
  assumes "length h = 32"
  shows "ParseHash (HashString h) = Inr h" and "ParseHash (map upper (HashString h)) = Inr h"
  using assms by (simp_all add: ParseHash_def HashString_def hex_decode_upper_encode)

subsection \<open>Properties\<close>

text \<open>
  C27: reviews are backed. Whatever the backend does, a review it holds of a seller has one to five stars and was
  written by the buyer of an escrow of that seller that the chain completed or had resolved; no two
  reviews of a seller carry the same escrow id.
\<close>

theorem review_is_backed:
  assumes "(rate_step H memo)\<^sup>*\<^sup>* \<lparr>soData = fmempty, soDisk = None\<rparr> s" and "(eid, rv) \<in> set (reviewsOf (soData s) seller)"
  shows "1 \<le> rvStars rv \<and> rvStars rv \<le> 5 \<and>
    (\<exists>e\<in>H. ParseHash eid = Inr (eID e) \<and> eSeller e = seller \<and> eBuyer e = rvBuyer rv \<and> eStatus e \<in> {EscrowCompleted, EscrowResolved}) \<and>
    (\<forall>rv'. (eid, rv') \<in> set (reviewsOf (soData s) seller) \<longrightarrow> rv' = rv)"
proof -
  have ok: "reviews_ok H seller (reviewsOf (soData s) seller)"
    by (rule reviews_ok_reviewsOf [OF rate_run_ok [OF assms(1) store_all_empty]])
  have "backed H seller (eid, rv)" using ok assms(2) unfolding reviews_ok_def list_all_iff by blast
  moreover have "rv' = rv" if "(eid, rv') \<in> set (reviewsOf (soData s) seller)" for rv'
    using ok assms(2) that eq_key_imp_eq_value unfolding reviews_ok_def by metis
  ultimately show ?thesis by (simp add: backed_def)
qed

lemma rateSeller_new:
  assumes "ndEscrow nd eid = Inr e" and "eBuyer e = me" and "eStatus e \<in> {EscrowCompleted, EscrowResolved}"
    and "1 \<le> stars" and "stars \<le> 5" and "length (TrimSpace txt0) \<le> 280" and "eid \<notin> fst ` set (reviewsOf (soData s) (eSeller e))"
  shows "fst (snd (rateSeller nd None now eid me stars txt0 (s, cache))) = 200 \<and>
    reviewsOf (soData (fst (fst (rateSeller nd None now eid me stars txt0 (s, cache))))) (eSeller e) =
      reviewsOf (soData s) (eSeller e) @ [(eid, \<lparr>rvEscrow = eid, rvBuyer = me, rvStars = stars, rvText = TrimSpace txt0, rvAt = now\<rparr>)]"
proof -
  let ?rv = "\<lparr>rvEscrow = eid, rvBuyer = me, rvStars = stars, rvText = TrimSpace txt0, rvAt = now\<rparr>"
  have m1: "reviewsOf (if fmlookup m k = None then fmupd k [] m else m) k = reviewsOf m k" for m :: RatingStore and k
    by (simp add: reviewsOf_def)
  have add: "addReview (eSeller e) eid ?rv (soData s) =
      (fmupd (eSeller e) (reviewsOf (soData s) (eSeller e) @ [(eid, ?rv)]) (if fmlookup (soData s) (eSeller e) = None then fmupd (eSeller e) [] (soData s) else soData s), None)"
    using assms(7) by (simp only: addReview_def Let_def m1 if_False)
  have "snd (Update None (addReview (eSeller e) eid ?rv) s) = None" by (simp add: Update_def add WriteAtomic_def)
  moreover have "soData (fst (Update None (addReview (eSeller e) eid ?rv) s)) =
      fst (addReview (eSeller e) eid ?rv (soData s))" by simp
  ultimately show ?thesis using assms(1-6)
    by (cases "Update None (addReview (eSeller e) eid ?rv) s")
      (simp add: rateSeller_def Let_def writeJSON_def add reviewsOf_def)
qed

text \<open>
  A purchase is rated as often as its id can be spelled. Reviews are kept by the id as the buyer wrote
  it, and the node reads ids in capitals as well: the buyer of one finished escrow can rate the seller under its id and
  again under its id in capitals, and both reviews count.
\<close>

theorem purchase_rated_twice:
  fixes sha :: "bytes \<Rightarrow> hash" and cache :: TrustCache and now now' :: int
  assumes "length h = 32" and "EscrowAt c h = Some e" and "eStatus e \<in> {EscrowCompleted, EscrowResolved}"
    and "map upper (HashString h) \<noteq> HashString h" and "reviewsOf (soData s) (eSeller e) = []" and "1 \<le> stars" and "stars \<le> 5"
  defines "first \<equiv> rateSeller (chainNode sha (Inr c)) None now (HashString h) (eBuyer e) stars '''' (s, cache)"
  defines "again \<equiv> rateSeller (chainNode sha (Inr c)) None now' (map upper (HashString h)) (eBuyer e) stars '''' (fst first)"
  shows "fst (snd first) = 200 \<and> fst (snd again) = 200 \<and> sgCount (ratingOf (fst (fst again)) (eSeller e)) = 2"
proof -
  have nd: "ndEscrow (chainNode sha (Inr c)) (HashString h) = Inr e" "ndEscrow (chainNode sha (Inr c)) (map upper (HashString h)) = Inr e"
    using ClientEscrow_found [OF ParseHash_either(1) [OF assms(1)] assms(2)] ClientEscrow_found [OF ParseHash_either(2) [OF assms(1)] assms(2)]
    by (simp_all add: chainNode_def)
  have t: "length (TrimSpace '''') \<le> 280" by (simp add: TrimSpace_def)
  have one: "fst (snd first) = 200" "map fst (reviewsOf (soData (fst (fst first))) (eSeller e)) = [HashString h]"
    using rateSeller_new [OF nd(1) refl assms(3,6,7) t, of s now cache] assms(5) unfolding first_def by simp_all
  have "map upper (HashString h) \<notin> fst ` set (reviewsOf (soData (fst (fst first))) (eSeller e))"
    using one(2) assms(4) by (metis empty_iff insert_iff list.set(1) list.simps(15) set_map)
  then have two: "fst (snd again) = 200 \<and> length (reviewsOf (soData (fst (fst again))) (eSeller e)) =
      length (map fst (reviewsOf (soData (fst (fst first))) (eSeller e))) + 1"
    using rateSeller_new [OF nd(2) refl assms(3,6,7) t, of "fst (fst first)" now' "snd (fst first)"] unfolding again_def by simp
  then show ?thesis using one by (simp add: ratingOf_def Let_def)
qed

text \<open>
  Trust scores. A score is between 0 and 100; among profiles with the same other facts, an escrow completed
  never lowers it, and an escrow refunded by the seller, in dispute, or decided by the arbiter, for whichever side,
  never raises it; nor does a round missed.
\<close>


theorem trust_score_shape:
  "0 \<le> trustScore now since aj ep r \<and> trustScore now since aj ep r \<le> 100 \<and>
   (eStatus e = EscrowCompleted \<longrightarrow> trustScore now since aj ep r \<le> trustScore now since aj (countEscrow a ep e) r) \<and>
   (eStatus e \<in> {EscrowRefunded, EscrowDisputed, EscrowResolved} \<and> eBuyer e \<noteq> eSeller e \<longrightarrow>
      trustScore now since aj (countEscrow a ep e) r \<le> trustScore now since aj ep r) \<and>
   trustScore now since (aj\<lparr>ajMissed := ajMissed aj + k\<rparr>) ep r \<le> trustScore now since aj ep r"
proof -
  have mono: "x \<le> y \<Longrightarrow> max 0 (min 100 x) \<le> max 0 (min 100 y)" for x y :: int by linarith
  have "rawScore now since aj ep r \<le> rawScore now since aj (countEscrow a ep e) r" if "eStatus e = EscrowCompleted"
    using that by (auto simp: rawScore_def countEscrow_def Let_def min_def)
  moreover have "rawScore now since aj (countEscrow a ep e) r \<le> rawScore now since aj ep r"
    if "eStatus e \<in> {EscrowRefunded, EscrowDisputed, EscrowResolved}" "eBuyer e \<noteq> eSeller e"
    using that by (auto simp: rawScore_def countEscrow_def Let_def min_def)
  moreover have "rawScore now since (aj\<lparr>ajMissed := ajMissed aj + k\<rparr>) ep r \<le> rawScore now since aj ep r"
    by (simp add: rawScore_def)
  ultimately show ?thesis unfolding trustScore_def using mono by auto
qed

subsection \<open>What arbiters are held to\<close>

definition arb_ok :: "addr \<Rightarrow> Arbiter \<Rightarrow> bool" where
  "arb_ok k a \<longleftrightarrow> arAddress a = k \<and> arFeeBps a \<le> 500 \<and> distinct (map fst (arRatings a)) \<and> list_all (\<lambda>r. 1 \<le> snd r \<and> snd r \<le> 5) (arRatings a)"

inductive arb_step :: "Arbiters Store \<Rightarrow> Arbiters Store \<Rightarrow> bool" where
  apply_for: "arb_step s (fst (applyArbiter d fault now me bio fee s))"
| review: "arb_step s (fst (reviewArbiter admins fault me who decision s))"
| rate: "arb_step s (fst (rateArbiter nd fault eid me stars s))"
| restart: "arb_step s (reopen fmempty s)"

lemma applyArbiter_ok:
  assumes "store_all arb_ok s"
  shows "store_all arb_ok (fst (applyArbiter d fault now me bio fee s))"
proof -
  have "store_all arb_ok (fst (Update fault (\<lambda>m. (case fmlookup m me of
          Some a \<Rightarrow> fmupd me (a\<lparr>arBio := b, arFeeBps := fee, arStatus := if arStatus a = ArbiterRejected then ArbiterPending else arStatus a\<rparr>) m
        | None \<Rightarrow> fmupd me \<lparr>arAddress = me, arBio = b, arStatus = ArbiterPending, arRatings = [], arAppliedAt = now, arFeeBps = fee\<rparr> m, None)) s))"
    if "\<not> fee > 500" for b
    using that assms store_allD [OF assms]
    by (intro store_all_Update) (auto simp: arb_ok_def not_less split: option.splits if_splits)
  then show ?thesis using assms by (simp add: applyArbiter_def Let_def)
qed

lemma reviewArbiter_ok:
  assumes "store_all arb_ok s"
  shows "store_all arb_ok (fst (reviewArbiter admins fault me who decision s))"
proof -
  have "store_all arb_ok (fst (Update fault (\<lambda>m. case fmlookup m who of None \<Rightarrow> (m, Some errNotFound)
                | Some a \<Rightarrow> (fmupd who (a\<lparr>arStatus := st\<rparr>) m, None)) s))" for st
    using assms store_allD [OF assms] by (intro store_all_Update) (auto simp: arb_ok_def split: option.splits if_splits)
  then show ?thesis using assms by (auto simp: reviewArbiter_def split: option.split)
qed

lemma rateArbiter_ok:
  assumes "store_all arb_ok s"
  shows "store_all arb_ok (fst (rateArbiter nd fault eid me stars s))"
proof -
  have "store_all arb_ok (fst (Update fault (\<lambda>m. case fmlookup m arb of None \<Rightarrow> (m, Some e1)
                | Some a \<Rightarrow>
                  (let key = eid @ ''/'' @ me in
                   if key \<in> fst ` set (arRatings a) then (m, Some e2)
                   else (fmupd arb (a\<lparr>arRatings := arRatings a @ [(key, stars)]\<rparr>) m, None))) s))"
    if "1 \<le> stars" "stars \<le> 5" for arb e1 e2
    using that assms store_allD [OF assms] by (intro store_all_Update) (auto simp: arb_ok_def Let_def split: option.splits if_splits)
  then show ?thesis using assms by (auto simp: rateArbiter_def split: sum.split)
qed

lemma arb_step_ok: "arb_step s s' \<Longrightarrow> store_all arb_ok s \<Longrightarrow> store_all arb_ok s'"
  by (induction rule: arb_step.induct) (simp_all only: applyArbiter_ok reviewArbiter_ok rateArbiter_ok store_all_reopen)

lemma arb_run_ok: "arb_step\<^sup>*\<^sup>* s s' \<Longrightarrow> store_all arb_ok s \<Longrightarrow> store_all arb_ok s'"
  by (induction rule: rtranclp_induct) (blast intro: arb_step_ok)+

lemma bestArbiter_snoc:
  "bestArbiter seller (as @ [a]) =
     (if arStatus a \<noteq> ArbiterApproved \<or> arAddress a = seller then bestArbiter seller as
      else case bestArbiter seller as of None \<Rightarrow> Some a | Some b \<Rightarrow> if score a > score b then Some a else Some b)"
  by (simp add: bestArbiter_def split: option.split)

lemma bestArbiter_best:
  "case bestArbiter seller as of
     None \<Rightarrow> (\<forall>a\<in>set as. arStatus a \<noteq> ArbiterApproved \<or> arAddress a = seller)
   | Some b \<Rightarrow> b \<in> set as \<and> arStatus b = ArbiterApproved \<and> arAddress b \<noteq> seller \<and>
       (\<forall>a\<in>set as. arStatus a = ArbiterApproved \<and> arAddress a \<noteq> seller \<longrightarrow> score a \<le> score b)"
proof (induction as rule: rev_induct)
  case Nil
  then show ?case by (simp add: bestArbiter_def)
next
  case (snoc a as)
  then show ?case by (cases "bestArbiter seller as") (auto simp: bestArbiter_snoc)
qed

text \<open>
  Arbiters for links. Whatever the backend does, no arbiter charges more than the 5% the ledger allows; the
  arbiter picked for a seller is not the seller, and is an approved arbiter none of the others outranks, or, when
  there is none, an admin.
\<close>

theorem picked_arbiter_is_best:
  assumes "arb_step\<^sup>*\<^sup>* \<lparr>soData = fmempty, soDisk = None\<rparr> s" and "defaultArbiter admins order s seller \<noteq> ''''"
  shows "marketFee s x \<le> 500 \<and> defaultArbiter admins order s seller \<noteq> seller \<and>
    (case fmlookup (soData s) (defaultArbiter admins order s seller) of
       Some b \<Rightarrow> arStatus b = ArbiterApproved \<and>
         (\<forall>k a. k \<in> set order \<and> fmlookup (soData s) k = Some a \<and> arStatus a = ArbiterApproved \<and> k \<noteq> seller \<longrightarrow> score a \<le> score b)
     | None \<Rightarrow> False) \<or>
    marketFee s x \<le> 500 \<and> defaultArbiter admins order s seller \<noteq> seller \<and> defaultArbiter admins order s seller \<in> set admins \<and>
    (\<forall>k a. k \<in> set order \<and> fmlookup (soData s) k = Some a \<and> arStatus a = ArbiterApproved \<longrightarrow> k = seller)"
proof -
  have ok: "store_all arb_ok s" by (rule arb_run_ok [OF assms(1) store_all_empty])
  have fee: "marketFee s x \<le> 500" using store_allD [OF ok] by (auto simp: marketFee_def arb_ok_def split: option.split)
  have key: "arAddress a = k" if "fmlookup (soData s) k = Some a" for k a using store_allD [OF ok that] by (simp add: arb_ok_def)
  let ?as = "List.map_filter (fmlookup (soData s)) order"
  have mem: "a \<in> set ?as" if "k \<in> set order" "fmlookup (soData s) k = Some a" for k a
    using that by (force simp: List.map_filter_def)
  show ?thesis
  proof (cases "bestArbiter seller ?as")
    case (Some b)
    then have b: "b \<in> set ?as" "arStatus b = ArbiterApproved" "arAddress b \<noteq> seller"
      "\<forall>a\<in>set ?as. arStatus a = ArbiterApproved \<and> arAddress a \<noteq> seller \<longrightarrow> score a \<le> score b"
      using bestArbiter_best [of ?as seller] by simp_all
    obtain k where k: "fmlookup (soData s) k = Some b" using in_map_filter [OF b(1)] by blast
    have picked: "defaultArbiter admins order s seller = k" using Some key [OF k] by (simp add: defaultArbiter_def)
    have "score a \<le> score b" if "j \<in> set order" "fmlookup (soData s) j = Some a" "arStatus a = ArbiterApproved" "j \<noteq> seller" for j a
      using b(4) mem [OF that(1,2)] key [OF that(2)] that(3,4) by blast
    then show ?thesis using fee b(2,3) key [OF k] unfolding picked k by auto
  next
    case None
    then have n: "\<forall>a\<in>set ?as. arStatus a \<noteq> ArbiterApproved \<or> arAddress a = seller" using bestArbiter_best [of ?as seller] by simp
    obtain a where a: "find (\<lambda>a. a \<noteq> seller) admins = Some a" using assms(2) None by (cases "find (\<lambda>a. a \<noteq> seller) admins") (simp_all add: defaultArbiter_def)
    have picked: "defaultArbiter admins order s seller = a" using None a by (simp add: defaultArbiter_def)
    have "a \<in> set admins" "a \<noteq> seller" using a by (auto simp: find_Some_iff)
    moreover have "k = seller" if "k \<in> set order" "fmlookup (soData s) k = Some x" "arStatus x = ArbiterApproved" for k x
      using n mem [OF that(1,2)] key [OF that(2)] that(3) by blast
    ultimately show ?thesis using fee unfolding picked by blast
  qed
qed

subsection \<open>Examples\<close>

text \<open>A finished escrow on a chain, and what can be done with it.\<close>

definition fame_id :: hash where
  "fame_id = replicate 32 (CHR ''z'')"

definition fame_escrow :: Escrow where
  "fame_escrow = pact_escrow\<lparr>eID := fame_id, eStatus := EscrowCompleted\<rparr>"

definition fame_node :: EscrowNode where
  "fame_node = pact_node\<lparr>ndEscrow := \<lambda>x. case ParseHash x of Inr h \<Rightarrow> if h = fame_id then Inr fame_escrow else Inl (Err '''') | Inl e \<Rightarrow> Inl e,
     ndEscrowsOf := \<lambda>_. Inr []\<rparr>"

definition fame_empty :: "RatingStore Store" where
  "fame_empty = \<lparr>soData = fmempty, soDisk = None\<rparr>"

lemma fame_fields [simp]: "eBuyer fame_escrow = demo_a" "eSeller fame_escrow = demo_b" "eStatus fame_escrow = EscrowCompleted" "eID fame_escrow = fame_id"
  by (simp_all add: fame_escrow_def pact_escrow_def newEscrow_def fundOp_def)

lemma fame_length: "length fame_id = 32"
  by (simp add: fame_id_def)

lemma fame_honest: "honest {fame_escrow} (\<lambda>_. ''terms:'') fame_node"
  by (auto simp: honest_def fame_node_def pact_node_def split: sum.splits if_splits)

lemma fame_found: "ndEscrow fame_node (HashString fame_id) = Inr fame_escrow"
  by (simp add: fame_node_def ParseHash_either(1) [OF fame_length])

definition fame_rated :: "RatingStore Store" where
  "fame_rated = fst (fst (rateSeller fame_node None 0 (HashString fame_id) demo_a 5 '''' (fame_empty, fmempty)))"

lemma fame_rated_reviews: "map fst (reviewsOf (soData fame_rated) demo_b) = [HashString fame_id]"
  using rateSeller_new [OF fame_found, of demo_a 5 "''''" fame_empty 0 fmempty]
  by (simp add: fame_rated_def fame_empty_def reviewsOf_def TrimSpace_def)

theorem review_is_backed_witness:
  "\<exists>rv. reviewsOf (soData fame_rated) demo_b = [(HashString fame_id, rv)] \<and> rvStars rv \<le> 5 \<and> fame_escrow \<in> {fame_escrow}"
proof -
  have "rate_step {fame_escrow} (\<lambda>_. ''terms:'') \<lparr>soData = fmempty, soDisk = None\<rparr> fame_rated"
    unfolding fame_rated_def fame_empty_def by (rule rate_step.rate [OF fame_honest])
  then have run: "(rate_step {fame_escrow} (\<lambda>_. ''terms:''))\<^sup>*\<^sup>* \<lparr>soData = fmempty, soDisk = None\<rparr> fame_rated" by (rule r_into_rtranclp)
  obtain rv where rv: "reviewsOf (soData fame_rated) demo_b = [(HashString fame_id, rv)]" using fame_rated_reviews by auto
  then have "(HashString fame_id, rv) \<in> set (reviewsOf (soData fame_rated) demo_b)" by simp
  then show ?thesis using review_is_backed [OF run, of "HashString fame_id" rv demo_b] rv by simp
qed

definition fame_chain :: Chain where
  "fame_chain = demo_c0\<lparr>chState := (chState demo_c0)\<lparr>stEscrows := fmupd fame_id fame_escrow fmempty\<rparr>\<rparr>"

theorem purchase_rated_twice_witness:
  "\<exists>s cache. sgCount (ratingOf (fst (fst (rateSeller (chainNode demo_sha (Inr fame_chain)) None 0 (map upper (HashString fame_id)) demo_a 5 ''''
      (s, cache)))) demo_b) = 2"
proof -
  have up: "map upper (HashString fame_id) \<noteq> HashString fame_id" by code_simp
  have e: "EscrowAt fame_chain fame_id = Some fame_escrow" by (simp add: EscrowAt_def fame_chain_def)
  have none: "reviewsOf (soData fame_empty) (eSeller fame_escrow) = []" by (simp add: fame_empty_def reviewsOf_def)
  have fin: "eStatus fame_escrow \<in> {EscrowCompleted, EscrowResolved}" by simp
  have "sgCount (ratingOf (fst (fst (rateSeller (chainNode demo_sha (Inr fame_chain)) None 0 (map upper (HashString fame_id)) (eBuyer fame_escrow) 5 ''''
      (fst (rateSeller (chainNode demo_sha (Inr fame_chain)) None 0 (HashString fame_id) (eBuyer fame_escrow) 5 '''' (fame_empty, fmempty)))))) (eSeller fame_escrow)) = 2"
    using purchase_rated_twice [OF fame_length e fin up none, where stars = 5] by simp
  then show ?thesis unfolding fame_fields by (metis prod.collapse)
qed

theorem trust_score_shape_witness:
  "trustScore 0 1 noAjo (countEscrow demo_b noEscrows (fame_escrow\<lparr>eStatus := EscrowResolved\<rparr>)) (ratingOf fame_empty demo_b) \<le>
   trustScore 0 1 noAjo noEscrows (ratingOf fame_empty demo_b)"
proof -
  have "eBuyer fame_escrow \<noteq> eSeller fame_escrow" using demo_neq by simp
  then show ?thesis
    using trust_score_shape [of 0 1 noAjo noEscrows "ratingOf fame_empty demo_b" "fame_escrow\<lparr>eStatus := EscrowResolved\<rparr>" demo_b 0] by simp
qed

definition fame_arbiters :: "Arbiters Store" where
  "fame_arbiters = fst (reviewArbiter [demo_c] None demo_c demo_a ''approve''
     (fst (applyArbiter toy_directory None 0 ''k3'' ''twenty years a trader'' 250 \<lparr>soData = fmempty, soDisk = None\<rparr>)))"

lemma fame_arbiters_run: "arb_step\<^sup>*\<^sup>* \<lparr>soData = fmempty, soDisk = None\<rparr> fame_arbiters"
  unfolding fame_arbiters_def
  by (meson arb_step.intros rtranclp.rtrancl_into_rtrancl rtranclp.rtrancl_refl)

theorem picked_arbiter_is_best_witness:
  "marketFee fame_arbiters demo_a \<le> 500 \<and> defaultArbiter [demo_c] [] fame_arbiters demo_b = demo_c"
proof -
  have d: "defaultArbiter [demo_c] [] fame_arbiters demo_b = demo_c"
    using demo_neq by (simp add: defaultArbiter_def bestArbiter_def)
  have "demo_c \<noteq> ''''" by code_simp
  then show ?thesis using picked_arbiter_is_best [OF fame_arbiters_run, of "[demo_c]" "[]" demo_b demo_a] d by auto
qed

end
