(* ===== verification/Orpay_Desk.thy ===== *)
theory Orpay_Desk
  imports Orpay_Reputation
begin

text \<open>
  The smaller services of the orPay backend: referrals (apps/orpay/backend/referrals.go), the test-money
  faucet (faucet.go) and the partner dashboard (dashboard.go).
\<close>

subsection \<open>Referrals\<close>

record Referral =
  rfBy :: addr
  rfAt :: int

type_synonym Referrals = "(addr, Referral) fmap"

definition recordReferral :: "Directory \<Rightarrow> (addr \<Rightarrow> err + HistoryEntry list) \<Rightarrow> err option \<Rightarrow> int \<Rightarrow> addr \<Rightarrow> string \<Rightarrow> Referrals Store \<Rightarrow> Referrals Store \<times> addr response" where
  "recordReferral d node fault now me ref s =
     (case byName d (map to_lower (trimPrefix (CHR ''@'') (TrimSpace ref))) of None \<Rightarrow> (s, writeErr 404 (Err ''no user with that invite code''))
      | Some who \<Rightarrow>
        if who = me then (s, writeErr 400 (Err ''you cannot refer yourself''))
        else if (case node me of Inl _ \<Rightarrow> False | Inr hist \<Rightarrow> length hist > 2) then (s, writeErr 409 (Err ''referrals are for new wallets''))
        else (case Update fault (\<lambda>m. if fmlookup m me \<noteq> None then (m, Some (Err ''you were already referred''))
                                     else (fmupd me \<lparr>rfBy = who, rfAt = now\<rparr> m, None)) s of
                (s', Some e) \<Rightarrow> (s', writeErr 409 e) | (s', None) \<Rightarrow> (s', writeJSON 200 who)))"

text \<open>Who joined with the caller's link, and whether they have sent anything themselves.\<close>

definition isActive :: "(addr \<Rightarrow> err + HistoryEntry list) \<Rightarrow> addr \<Rightarrow> bool" where
  "isActive node a = (case node a of Inl _ \<Rightarrow> False | Inr hist \<Rightarrow> list_ex (\<lambda>e. txFrom (heTx e) = a) hist)"

definition myReferrals :: "Directory \<Rightarrow> (addr \<Rightarrow> err + HistoryEntry list) \<Rightarrow> addr \<Rightarrow> Referrals Store \<Rightarrow> (string option \<times> nat \<times> nat \<times> (addr \<times> string option \<times> bool) list) response" where
  "myReferrals d node me s =
     (let people = map fst (filter (\<lambda>(a, r). rfBy r = me) (sortedEntries (soData s)))
      in writeJSON 200 (byAddress d me, length people, length (filter (isActive node) people),
           map (\<lambda>a. (a, byAddress d a, isActive node a)) people))"

subsection \<open>The faucet\<close>

record Faucet =
  fcAmount :: amount
  fcCooldown :: int

type_synonym Drips = "(addr, int) fmap"

text \<open>
  \<open>drip\<close>: \<open>send\<close> is the outcome of signing and submitting the transfer, \<open>now'\<close> the clock after it. The last item is
  whether a transfer was sent.
\<close>

definition dripFn :: "int \<Rightarrow> int \<Rightarrow> addr \<Rightarrow> Drips \<Rightarrow> Drips" where
  "dripFn cooldown now a m =
     (let m1 = fmupd a now m in fmfilter (\<lambda>k. \<not> subTime now (the (fmlookup m1 k)) > cooldown) m1)"

definition drip :: "Faucet option \<Rightarrow> (addr \<Rightarrow> amount \<Rightarrow> err + hash) \<Rightarrow> err option \<Rightarrow> int \<Rightarrow> int \<Rightarrow> addr \<Rightarrow> Drips Store \<Rightarrow> Drips Store \<times> (hash \<times> amount) response \<times> bool" where
  "drip faucet send fault now now' a s =
     (case faucet of None \<Rightarrow> (s, writeErr 404 (Err ''faucet is disabled on this network''), False)
      | Some f \<Rightarrow>
        (case Validate a of Some e \<Rightarrow> (s, writeErr 400 e, False)
         | None \<Rightarrow>
           let lastT = (case fmlookup (soData s) a of None \<Rightarrow> zeroTime | Some t \<Rightarrow> t) in
           if fcCooldown f - subTime now lastT > 0 then (s, writeErr 429 (Err ''try again later''), False)
           else (case send a (fcAmount f) of Inl e \<Rightarrow> (s, writeErr 502 e, False)
                 | Inr tid \<Rightarrow> (fst (Update fault (\<lambda>m. (dripFn (fcCooldown f) now' a m, None)) s), writeJSON 202 (tid, fcAmount f), True))))"

subsection \<open>The dashboard\<close>

text \<open>Totals per asset.\<close>

type_synonym MoneyTotals = "(string, amount) fmap"

definition addMoney :: "string \<Rightarrow> amount \<Rightarrow> MoneyTotals \<Rightarrow> MoneyTotals" where
  "addMoney asset a m = fmupd asset ((case fmlookup m asset of None \<Rightarrow> 0 | Some v \<Rightarrow> v) + a) m"

record CheckoutStats =
  csPaid :: nat
  csPending :: nat
  csExpired :: nat
  csPaidTotal :: MoneyTotals
  csPaidThisWeek :: MoneyTotals

record EscrowStats =
  esAwaiting :: nat
  esOpen :: nat
  esDisputed :: nat
  esCompleted :: nat
  esRefunded :: nat
  esOther :: nat
  esHeld :: MoneyTotals
  esReleased :: MoneyTotals

definition noCheckouts :: CheckoutStats where
  "noCheckouts = \<lparr>csPaid = 0, csPending = 0, csExpired = 0, csPaidTotal = fmempty, csPaidThisWeek = fmempty\<rparr>"

definition noEscrowStats :: EscrowStats where
  "noEscrowStats = \<lparr>esAwaiting = 0, esOpen = 0, esDisputed = 0, esCompleted = 0, esRefunded = 0, esOther = 0, esHeld = fmempty, esReleased = fmempty\<rparr>"

definition tallyInvoice :: "int \<Rightarrow> CheckoutStats \<Rightarrow> Invoice \<Rightarrow> CheckoutStats" where
  "tallyInvoice weekAgo cs iv =
     (case inStatus iv of
        InvoicePaid \<Rightarrow> cs\<lparr>csPaid := csPaid cs + 1, csPaidTotal := addMoney (inAsset iv) (inAmount iv) (csPaidTotal cs),
                         csPaidThisWeek := (if inPaidAt iv > weekAgo then addMoney (inAsset iv) (inAmount iv) (csPaidThisWeek cs) else csPaidThisWeek cs)\<rparr>
      | InvoicePending \<Rightarrow> cs\<lparr>csPending := csPending cs + 1\<rparr>
      | InvoiceExpired \<Rightarrow> cs\<lparr>csExpired := csExpired cs + 1\<rparr>)"

definition tallyEscrow :: "EscrowStats \<Rightarrow> EscrowRequest \<Rightarrow> EscrowStats" where
  "tallyEscrow es er =
     (if erStatus er = EscrowAwaiting then es\<lparr>esAwaiting := esAwaiting es + 1\<rparr>
      else case erChain er of None \<Rightarrow> es\<lparr>esOther := esOther es + 1\<rparr>
      | Some e \<Rightarrow>
        (let es1 = (case eStatus e of
                      EscrowFunded \<Rightarrow> es\<lparr>esOpen := esOpen es + 1\<rparr> | EscrowDispatched \<Rightarrow> es\<lparr>esOpen := esOpen es + 1\<rparr>
                    | EscrowDisputed \<Rightarrow> es\<lparr>esDisputed := esDisputed es + 1\<rparr>
                    | EscrowCompleted \<Rightarrow> es\<lparr>esCompleted := esCompleted es + 1\<rparr> | EscrowResolved \<Rightarrow> es\<lparr>esCompleted := esCompleted es + 1\<rparr>
                    | EscrowRefunded \<Rightarrow> es\<lparr>esRefunded := esRefunded es + 1\<rparr>);
             es2 = (if isOpen (eStatus e) then es1\<lparr>esHeld := addMoney (erAsset er) (eBalance e) (esHeld es1)\<rparr> else es1)
         in es2\<lparr>esReleased := addMoney (erAsset er) (ePaidSeller e) (esReleased es2)\<rparr>))"

definition appDashboard :: "addr list \<Rightarrow> Apps \<Rightarrow> int \<Rightarrow> string list \<Rightarrow> string list \<Rightarrow> string \<Rightarrow> addr \<Rightarrow> Invoices \<Rightarrow> Requests \<Rightarrow>
    (App \<times> CheckoutStats \<times> Invoice list \<times> EscrowStats \<times> (EscrowCore \<times> PublicApp option) list) response" where
  "appDashboard admins apps now order1 order2 aid me invoices requests =
     (case fmlookup apps aid of None \<Rightarrow> writeErr 404 (Err ''app not found'')
      | Some app \<Rightarrow>
        if apOwner app \<noteq> me \<and> me \<notin> set admins then writeErr 404 (Err ''app not found'')
        else (let invs = filter (\<lambda>iv. inAppID iv = aid) (List.map_filter (fmlookup invoices) order1);
                  ers = filter (\<lambda>er. erAppID er = aid) (List.map_filter (fmlookup requests) order2)
              in writeJSON 200 (app, foldl (tallyInvoice (now - 7 * 24 * hour)) noCheckouts invs, take 10 (sort_key (\<lambda>iv. - inCreatedAt iv) invs),
                   foldl tallyEscrow noEscrowStats ers, map (escrowView apps) (take 10 (sort_key (\<lambda>er. - erCreatedAt er) ers)))))"

subsection \<open>Properties\<close>

text \<open>
  The faucet's runs, as long as its file can be written: the clock, and the payouts so far, newest first, each with
  the time it was asked for and the time recorded.
\<close>

inductive faucet_run :: "Faucet \<Rightarrow> Drips Store \<Rightarrow> int \<Rightarrow> (addr \<times> int \<times> int) list \<Rightarrow> bool" for f where
  start: "faucet_run f \<lparr>soData = fmempty, soDisk = None\<rparr> c []"
| ask: "faucet_run f s c out \<Longrightarrow> c \<le> now \<Longrightarrow> now \<le> now' \<Longrightarrow>
    faucet_run f (fst (drip (Some f) send None now now' a s)) now' (if snd (snd (drip (Some f) send None now now' a s)) then (a, now, now') # out else out)"
| restart: "faucet_run f s c out \<Longrightarrow> faucet_run f (reopen fmempty s) c out"

definition apart :: "int \<Rightarrow> addr \<times> int \<times> int \<Rightarrow> addr \<times> int \<times> int \<Rightarrow> bool" where
  "apart cooldown later earlier \<longleftrightarrow> (fst later = fst earlier \<longrightarrow> snd (snd earlier) + cooldown \<le> fst (snd later))"

definition remembered :: "int \<Rightarrow> int \<Rightarrow> Drips \<Rightarrow> addr \<times> int \<times> int \<Rightarrow> bool" where
  "remembered cooldown c m p \<longleftrightarrow> snd (snd p) \<le> c \<and> (c - snd (snd p) \<le> cooldown \<longrightarrow> (\<exists>t. fmlookup m (fst p) = Some t \<and> snd (snd p) \<le> t))"

definition faucet_ok :: "Faucet \<Rightarrow> Drips Store \<Rightarrow> int \<Rightarrow> (addr \<times> int \<times> int) list \<Rightarrow> bool" where
  "faucet_ok f s c out \<longleftrightarrow> (soDisk s = Some (soData s) \<or> soDisk s = None \<and> soData s = fmempty) \<and>
     (\<forall>a t. fmlookup (soData s) a = Some t \<longrightarrow> t \<le> c) \<and>
     (\<forall>p\<in>set out. remembered (fcCooldown f) c (soData s) p) \<and> sorted_wrt (apart (fcCooldown f)) out"

lemma dripFn_lookup:
  "fmlookup (dripFn cooldown now a m) k =
     (case (if k = a then Some now else fmlookup m k) of None \<Rightarrow> None | Some t \<Rightarrow> if subTime now t > cooldown then None else Some t)"
  by (auto simp: dripFn_def Let_def split: option.split)

lemma drip_cases:
  "(fst (drip (Some f) send None now now' a s) = s \<and> \<not> snd (snd (drip (Some f) send None now now' a s))) \<or>
   (fst (drip (Some f) send None now now' a s) = \<lparr>soData = dripFn (fcCooldown f) now' a (soData s), soDisk = Some (dripFn (fcCooldown f) now' a (soData s))\<rparr> \<and>
    snd (snd (drip (Some f) send None now now' a s)) \<and> (\<forall>t. fmlookup (soData s) a = Some t \<longrightarrow> fcCooldown f \<le> subTime now t))"
proof -
  have "fst (Update None (\<lambda>m. (g m, None)) s) = \<lparr>soData = g (soData s), soDisk = Some (g (soData s))\<rparr>" for g :: "Drips \<Rightarrow> Drips"
    by (cases s) (simp add: Update_def WriteAtomic_def)
  then show ?thesis
    by (cases "Validate a"; cases "send a (fcAmount f)"; cases "fmlookup (soData s) a") (auto simp: drip_def Let_def)
qed

lemma remembered_later:
  assumes "remembered cooldown c m p" and "c \<le> c'" and "\<And>t. fmlookup m (fst p) = Some t \<Longrightarrow> t \<le> c \<Longrightarrow> c' - t \<le> cooldown \<Longrightarrow> \<exists>t'. fmlookup m' (fst p) = Some t' \<and> t \<le> t'"
    and "\<And>t. fmlookup m (fst p) = Some t \<Longrightarrow> t \<le> c"
  shows "remembered cooldown c' m' p"
proof -
  have "\<exists>t'. fmlookup m' (fst p) = Some t' \<and> snd (snd p) \<le> t'" if near: "c' - snd (snd p) \<le> cooldown"
  proof -
    obtain t where t: "fmlookup m (fst p) = Some t" "snd (snd p) \<le> t" using assms(1,2) near unfolding remembered_def by force
    then have "c' - t \<le> cooldown" using near by linarith
    then obtain t' where "fmlookup m' (fst p) = Some t'" "t \<le> t'" using assms(3) [OF t(1)] assms(4) [OF t(1)] by blast
    then show ?thesis using t(2) by force
  qed
  then show ?thesis using assms(1,2) unfolding remembered_def by auto
qed

lemma faucet_run_ok:
  assumes "faucet_run f s c out" and "0 \<le> fcCooldown f" and "fcCooldown f < 2 ^ 63 - 1"
  shows "faucet_ok f s c out"
  using assms(1)
proof (induction rule: faucet_run.induct)
  case (start c)
  then show ?case by (simp add: faucet_ok_def)
next
  case (restart s c out)
  then have "reopen fmempty s = s" by (cases s) (auto simp: faucet_ok_def reopen_def)
  then show ?case using restart by simp
next
  case (ask s c out now now' send a)
  let ?d = "drip (Some f) send None now now' a s" and ?m = "dripFn (fcCooldown f) now' a (soData s)"
  have le: "t \<le> c" if "fmlookup (soData s) k = Some t" for k t using ask.IH that unfolding faucet_ok_def by blast
  have rem: "remembered (fcCooldown f) c (soData s) p" if "p \<in> set out" for p using ask.IH that unfolding faucet_ok_def by blast
  from drip_cases [of f send now now' a s] show ?case
  proof
    assume d: "fst ?d = s \<and> \<not> snd (snd ?d)"
    have "remembered (fcCooldown f) now' (soData s) p" if "p \<in> set out" for p
      by (rule remembered_later [OF rem [OF that]]) (use ask.hyps le in auto)
    then show ?thesis using d ask.IH le ask.hyps unfolding faucet_ok_def by force
  next
    assume d: "fst ?d = \<lparr>soData = ?m, soDisk = Some ?m\<rparr> \<and> snd (snd ?d) \<and> (\<forall>t. fmlookup (soData s) a = Some t \<longrightarrow> fcCooldown f \<le> subTime now t)"
    have le': "t \<le> now'" if "fmlookup ?m k = Some t" for k t
      using that le [of k t] ask.hyps by (auto simp: dripFn_lookup split: if_splits option.splits)
    have here: "fmlookup ?m a = Some now'" using assms(2) by (simp add: dripFn_lookup subTime_def)
    have rem': "remembered (fcCooldown f) now' ?m p" if p: "p \<in> set out" for p
    proof (rule remembered_later [OF rem [OF p]])
      show "c \<le> now'" using ask.hyps by simp
      fix t
      assume t: "fmlookup (soData s) (fst p) = Some t" "t \<le> c" "now' - t \<le> fcCooldown f"
      have "\<not> subTime now' t > fcCooldown f" using t(3) assms(2) by (simp add: subTime_def)
      then show "\<exists>t'. fmlookup ?m (fst p) = Some t' \<and> t \<le> t'"
        using t here \<open>c \<le> now'\<close> by (cases "fst p = a") (auto simp: dripFn_lookup)
    qed (rule le)
    have "apart (fcCooldown f) (a, now, now') p" if p: "p \<in> set out" for p
    proof -
      have "snd (snd p) + fcCooldown f \<le> now" if "fst p = a"
      proof (cases "c - snd (snd p) \<le> fcCooldown f")
        case True
        then obtain t where t: "fmlookup (soData s) a = Some t" "snd (snd p) \<le> t" using rem [OF p] \<open>fst p = a\<close> unfolding remembered_def by blast
        then have "fcCooldown f \<le> subTime now t" using d by blast
        then have "fcCooldown f \<le> now - t" using assms(2) by (auto simp: subTime_def min_def max_def split: if_splits)
        then show ?thesis using t(2) by linarith
      next
        case False
        then show ?thesis using ask.hyps by linarith
      qed
      then show ?thesis by (simp add: apart_def)
    qed
    moreover have "remembered (fcCooldown f) now' ?m (a, now, now')" using here by (simp add: remembered_def)
    ultimately show ?thesis using d ask.IH le' rem' unfolding faucet_ok_def by simp
  qed
qed

text \<open>
  The faucet's cooldown. As long as its file can be written, over any run with restarts, a payout to an address is asked
  for no sooner than the cooldown after the last payout to it.
\<close>

theorem faucet_cooldown_holds:
  assumes "faucet_run f s c (later @ (a, asked2, t2) # mid @ (a, asked1, t1) # rest)" and "0 \<le> fcCooldown f" and "fcCooldown f < 2 ^ 63 - 1"
  shows "t1 + fcCooldown f \<le> asked2"
  using faucet_run_ok [OF assms] by (simp add: faucet_ok_def sorted_wrt_append apart_def)

text \<open>
  Referrals: an account's inviter, once recorded, never changes.
\<close>

theorem referral_is_final:
  assumes "fmlookup (soData s) a = Some r"
  shows "fmlookup (soData (fst (recordReferral d node fault now me ref s))) a = Some r"
  using assms by (auto simp: recordReferral_def Let_def split_beta fst_case_result split: option.split)

subsection \<open>Examples\<close>

definition tap :: Faucet where
  "tap = \<lparr>fcAmount = 5, fcCooldown = 3600\<rparr>"

lemma tap_run:
  "\<exists>s. faucet_run tap s 4000 [(demo_a, 4000, 4000), (demo_a, 0, 0)]"
proof -
  let ?send = "\<lambda>_ _. Inr '''' :: err + hash"
  let ?s0 = "\<lparr>soData = fmempty, soDisk = None\<rparr> :: Drips Store"
  let ?d1 = "drip (Some tap) ?send None 0 0 demo_a ?s0"
  have v: "Validate demo_a = None" by (rule pact_valid)
  have d1: "snd (snd ?d1)" "fmlookup (soData (fst ?d1)) demo_a = Some 0"
    by (simp_all add: drip_def v tap_def subTime_def zeroTime_def dripFn_lookup Let_def)
  let ?d2 = "drip (Some tap) ?send None 4000 4000 demo_a (fst ?d1)"
  have d2: "snd (snd ?d2)" using d1(2) by (simp add: drip_def [of _ _ _ 4000] v tap_def subTime_def Let_def)
  have "faucet_run tap (fst ?d1) 0 (if snd (snd ?d1) then [(demo_a, 0, 0)] else [])" by (rule faucet_run.ask [OF faucet_run.start [of _ 0]]) simp_all
  then have "faucet_run tap (fst ?d1) 0 [(demo_a, 0, 0)]" using d1(1) by simp
  from faucet_run.ask [OF this, of 4000 4000 ?send demo_a] show ?thesis using d2 by auto
qed

theorem faucet_cooldown_holds_witness:
  "\<exists>s. faucet_run tap s 4000 ([] @ (demo_a, 4000, 4000) # [] @ (demo_a, 0, 0) # []) \<and> (0 :: int) + fcCooldown tap \<le> 4000"
proof -
  obtain s where "faucet_run tap s 4000 ([] @ (demo_a, 4000, 4000) # [] @ (demo_a, 0, 0) # [])" using tap_run by auto
  moreover from faucet_cooldown_holds [OF this] have "(0 :: int) + fcCooldown tap \<le> 4000" by (simp add: tap_def)
  ultimately show ?thesis by blast
qed

end
