(* ===== verification/Orpay_Push.thy ===== *)
theory Orpay_Push
  imports Orpay_Reputation
begin

text \<open>
  Push notifications of the orPay backend: apps/orpay/backend/push.go. A wallet subscribes its devices;
  a scan compares what the node says of the wallet with what the last scan saw, and tells the devices
  what is new. The web-push service is a function from a subscription to the status it answers, if any.
\<close>

subsection \<open>State\<close>

record Subscription =
  suEndpoint :: string
  suP256dh :: string
  suAuth :: string

record PushState =
  puSubs :: "Subscription list"
  puLastTx :: string
  puSent :: "(string, int) fmap"
  puEscrows :: "(string, string) fmap"
  puPrimed :: bool

record Notification =
  ntTitle :: string
  ntBody :: string
  ntURL :: string
  ntTag :: string

type_synonym Pushes = "(addr, PushState) fmap"

definition newPushState :: PushState where
  "newPushState = \<lparr>puSubs = [], puLastTx = '''', puSent = fmempty, puEscrows = fmempty, puPrimed = False\<rparr>"

text \<open>
  The server's key pair, made once: \<open>file\<close> is what the key file decodes to, \<open>gen\<close> what the library generates. The
  file after the call, and the keys.
\<close>

record VapidKeys =
  vkPublic :: string
  vkPrivate :: string

definition loadVAPID :: "err option \<Rightarrow> err + VapidKeys \<Rightarrow> VapidKeys option \<Rightarrow> VapidKeys option \<times> (err + VapidKeys)" where
  "loadVAPID fault gen file =
     (case file of Some k \<Rightarrow> if vkPublic k \<noteq> '''' then (file, Inr k) else
          (case gen of Inl e \<Rightarrow> (file, Inl e) | Inr k' \<Rightarrow> (case fault of Some e \<Rightarrow> (file, Inl e) | None \<Rightarrow> (Some k', Inr k')))
      | None \<Rightarrow> (case gen of Inl e \<Rightarrow> (file, Inl e) | Inr k' \<Rightarrow> (case fault of Some e \<Rightarrow> (file, Inl e) | None \<Rightarrow> (Some k', Inr k'))))"

definition pushKey :: "VapidKeys \<Rightarrow> string response" where
  "pushKey k = writeJSON 200 (vkPublic k)"

lemma loadVAPID_stable: "loadVAPID fault gen file = (file', Inr k) \<Longrightarrow> vkPublic k \<noteq> '''' \<Longrightarrow> loadVAPID fault' gen' file' = (file', Inr k)"
  by (auto simp: loadVAPID_def split: option.splits sum.splits if_splits)

subsection \<open>Subscriptions\<close>

text \<open>At most five devices, the newest.\<close>

definition addSub :: "Subscription \<Rightarrow> PushState \<Rightarrow> PushState" where
  "addSub sub st =
     (let subs = filter (\<lambda>x. suEndpoint x \<noteq> suEndpoint sub) (puSubs st) @ [sub]
      in st\<lparr>puSubs := if length subs > 5 then drop (length subs - 5) subs else subs\<rparr>)"

definition pushSubscribe :: "Lib \<Rightarrow> err option \<Rightarrow> addr \<Rightarrow> Subscription \<Rightarrow> Pushes Store \<Rightarrow> Pushes Store \<times> bool response" where
  "pushSubscribe lib fault me sub s =
     (if suEndpoint sub = '''' \<or> suP256dh sub = '''' \<or> suAuth sub = '''' then (s, writeErr 400 (Err ''invalid push subscription''))
      else case validURL lib (suEndpoint sub) True of Some e \<Rightarrow> (s, writeErr 400 e)
      | None \<Rightarrow>
        (case Update fault (\<lambda>m. (fmupd me (addSub sub (case fmlookup m me of None \<Rightarrow> newPushState | Some st \<Rightarrow> st)) m, None)) s of
           (s', Some e) \<Rightarrow> (s', writeErr 500 e)
         | (s', None) \<Rightarrow> (s', writeJSON 201 True)))"

text \<open>An empty endpoint means every device.\<close>

definition pushUnsubscribe :: "err option \<Rightarrow> addr \<Rightarrow> string \<Rightarrow> Pushes Store \<Rightarrow> Pushes Store \<times> bool response" where
  "pushUnsubscribe fault me endpoint s =
     (fst (Update fault (\<lambda>m. (case fmlookup m me of None \<Rightarrow> m
        | Some st \<Rightarrow> fmupd me (st\<lparr>puSubs := filter (\<lambda>x. \<not> (endpoint = '''' \<or> suEndpoint x = endpoint)) (puSubs st)\<rparr>) m, None)) s),
      writeJSON 200 False)"

text \<open>\<open>notify\<close>: what was sent to, and the subscriptions the service says are gone dropped.\<close>

definition notify :: "(Subscription \<Rightarrow> nat option) \<Rightarrow> err option \<Rightarrow> addr \<Rightarrow> Pushes Store \<Rightarrow> Pushes Store \<times> Subscription list" where
  "notify push fault a s =
     (let subs = (case fmlookup (soData s) a of None \<Rightarrow> [] | Some st \<Rightarrow> puSubs st);
          gone = map suEndpoint (filter (\<lambda>x. push x = Some 404 \<or> push x = Some 410) subs)
      in (if gone = [] then s
          else fst (Update fault (\<lambda>m. (case fmlookup m a of None \<Rightarrow> m
                 | Some st \<Rightarrow> fmupd a (st\<lparr>puSubs := filter (\<lambda>x. suEndpoint x \<notin> set gone) (puSubs st)\<rparr>) m, None)) s), subs))"

subsection \<open>A scan\<close>

text \<open>
  What the node answers for one wallet. \<open>day\<close> prints a time as the code's layout has it; lookups that
  failed gave empty lists of pools and escrows.
\<close>

record Seen =
  seHistory :: "HistoryEntry list"
  sePools :: "Pool list"
  seEscrows :: "Escrow list"

text \<open>The closure \<open>once\<close>, on the keys sent and the notifications so far.\<close>

definition once :: "bool \<Rightarrow> int \<Rightarrow> string \<Rightarrow> Notification \<Rightarrow> (string, int) fmap \<times> Notification list \<Rightarrow> (string, int) fmap \<times> Notification list" where
  "once primed now key n so =
     (if fmlookup (fst so) key \<noteq> None then so
      else (fmupd key (now div second) (fst so), if primed then snd so @ [n] else snd so))"

definition moneyIn :: "Directory \<Rightarrow> addr \<Rightarrow> PushState \<Rightarrow> HistoryEntry list \<Rightarrow> Notification list" where
  "moneyIn d a st hist =
     map (\<lambda>e. \<lparr>ntTitle = ''Money received'',
               ntBody = money (txAmount (heTx e)) (txAsset (heTx e)) @ '' from '' @
                 (if txKind (heTx e) = KindMint then ''your top-up'' else nameOrShort d (txFrom (heTx e))),
               ntURL = ''/'', ntTag = ''rx-'' @ HashString (heID e)\<rparr>)
       (filter (\<lambda>e. puPrimed st \<and> txTo (heTx e) = a \<and> txPool (heTx e) = None \<and> txEscrow (heTx e) = None)
         (takeWhile (\<lambda>e. HashString (heID e) \<noteq> puLastTx st) hist))"

definition dueTime :: "Pool \<Rightarrow> int" where
  "dueTime p = wrap64 (pStartedAt p + (int (pRound p) + 1) * pRoundSecs p * 1000) * 1000000"

definition poolKey :: "string \<Rightarrow> Pool \<Rightarrow> string" where
  "poolKey what p = what @ ''-'' @ HashString (pID p) @ ''-'' @ showNat (pRound p)"

definition poolNote :: "Pool \<Rightarrow> string \<Rightarrow> Notification" where
  "poolNote p txt = \<lparr>ntTitle = pName p, ntBody = txt, ntURL = ''/?pool='' @ HashString (pID p), ntTag = ''ajo-'' @ HashString (pID p)\<rparr>"

definition dueBody :: "(int \<Rightarrow> string) \<Rightarrow> int \<Rightarrow> Pool \<Rightarrow> string" where
  "dueBody day now p =
     ''Your '' @ money (pContribution p) (pAsset p) @ '' ajo payment '' @
     (if dueTime p < now then ''is overdue'' else ''is due '' @ day (dueTime p)) @ ''.''"

text \<open>An active circle has an entry of \<open>pPaid\<close> for every member.\<close>

definition scanPool :: "(int \<Rightarrow> string) \<Rightarrow> bool \<Rightarrow> int \<Rightarrow> addr \<Rightarrow> (string, int) fmap \<times> Notification list \<Rightarrow> Pool \<Rightarrow> (string, int) fmap \<times> Notification list" where
  "scanPool day primed now a so p =
     (case indexOf a (pMembers p) of None \<Rightarrow> so
      | Some i \<Rightarrow>
        if pStatus p \<noteq> PoolActive then so
        else (let so1 = (if \<not> pPaid p ! i \<and> pRoundSecs p > 0 \<and> dueTime p - now < 24 * hour
                         then once primed now (poolKey ''due'' p) (poolNote p (dueBody day now p)) so else so)
              in if i = pRound p \<and> False \<notin> set (pPaid p)
                 then once primed now (poolKey ''pot'' p) (poolNote p ''Everyone has paid. Your ajo pot is ready to collect.'') so1
                 else so1))"

definition escrowKey :: "Escrow \<Rightarrow> string" where
  "escrowKey e = statusText (eStatus e) @ ''/'' @ showNat (eReleased e) @ ''/'' @ showInt (eDispatchedAt e)"

text \<open>The \<open>switch\<close> on what changed: what the wallet \<open>a\<close> is told, \<open>prev\<close> being the key last seen.\<close>

definition escrowBody :: "addr \<Rightarrow> string \<Rightarrow> Escrow \<Rightarrow> string option" where
  "escrowBody a prev e =
     (if eStatus e = EscrowDisputed \<and> a = eArbiter e then Some ''A dispute needs your decision.''
      else if eStatus e = EscrowDisputed then Some ''A dispute was opened. The arbiter will decide.''
      else if eStatus e = EscrowDispatched \<and> a = eBuyer e \<and> \<not> startsWith ''dispatched'' prev
      then Some ''The seller marked your order as dispatched. Inspect it on arrival before releasing payment.''
      else if eStatus e = EscrowCompleted \<and> a = eSeller e then Some ''All funds were released to you.''
      else if eStatus e = EscrowRefunded \<and> a = eBuyer e then Some ''Your funds were returned.''
      else if eStatus e = EscrowResolved
      then Some (''The arbiter decided: '' @ money (ePaidSeller e) (eAsset e) @ '' to the seller, '' @ money (ePaidBuyer e) (eAsset e) @ '' back to the buyer.'')
      else if a = eSeller e then Some ''The buyer released a milestone payment to you.''
      else None)"

definition escrowTitle :: "Escrow \<Rightarrow> string" where
  "escrowTitle e = (if eRef e \<noteq> '''' \<and> \<not> startsWith ''esr_'' (eRef e) then ''Escrow #'' @ eRef e else ''Escrow'')"

definition scanEscrow :: "bool \<Rightarrow> addr \<Rightarrow> (string, string) fmap \<times> Notification list \<Rightarrow> Escrow \<Rightarrow> (string, string) fmap \<times> Notification list" where
  "scanEscrow primed a eo e =
     (let eid = HashString (eID e); key = escrowKey e; prev = fmlookup (fst eo) eid; seen = fmupd eid key (fst eo) in
      case prev of None \<Rightarrow> (seen, snd eo)
      | Some p \<Rightarrow>
        if p = key \<or> \<not> primed then (seen, snd eo)
        else (case escrowBody a p e of None \<Rightarrow> (seen, snd eo)
              | Some body \<Rightarrow> (seen, snd eo @ [\<lparr>ntTitle = escrowTitle e, ntBody = body, ntURL = ''/?escrow='' @ eid, ntTag = ''escrow-'' @ eid\<rparr>])))"

text \<open>The update \<open>pushEvents\<close> makes of a wallet's state, and the notifications it works out.\<close>

definition scan :: "(int \<Rightarrow> string) \<Rightarrow> Directory \<Rightarrow> int \<Rightarrow> addr \<Rightarrow> Seen \<Rightarrow> PushState \<Rightarrow> PushState \<times> Notification list" where
  "scan day d now a se st =
     (let rx = moneyIn d a st (seHistory se);
          lastTx = (if seHistory se = [] then puLastTx st else HashString (heID (hd (seHistory se))));
          (sent, out1) = foldl (scanPool day (puPrimed st) now a) (puSent st, rx) (sePools se);
          (seen, out2) = foldl (scanEscrow (puPrimed st) a) (puEscrows st, out1) (seEscrows se)
      in (st\<lparr>puLastTx := lastTx, puSent := fmfilter (\<lambda>k. now div second - the (fmlookup sent k) \<le> 30 * 24 * 3600) sent,
             puEscrows := seen, puPrimed := True\<rparr>, out2))"

text \<open>\<open>pushEvents\<close>: nothing when the history could not be read, or when the wallet has no state.\<close>

definition pushEvents :: "(int \<Rightarrow> string) \<Rightarrow> Directory \<Rightarrow> err option \<Rightarrow> int \<Rightarrow> err + Seen \<Rightarrow> addr \<Rightarrow> Pushes Store \<Rightarrow> Pushes Store \<times> Notification list" where
  "pushEvents day d fault now seen a s =
     (case seen of Inl _ \<Rightarrow> (s, [])
      | Inr se \<Rightarrow>
        (let r = (case fmlookup (soData s) a of None \<Rightarrow> None | Some st \<Rightarrow> Some (scan day d now a se st))
         in (fst (Update fault (\<lambda>m. (case r of None \<Rightarrow> m | Some (st', _) \<Rightarrow> fmupd a st' m, None)) s),
             case r of None \<Rightarrow> [] | Some (_, out) \<Rightarrow> out)))"

text \<open>One round of \<open>watchPush\<close>: every wallet with a device, and what its devices were sent.\<close>

fun watchPush :: "(int \<Rightarrow> string) \<Rightarrow> Directory \<Rightarrow> err option \<Rightarrow> (Subscription \<Rightarrow> nat option) \<Rightarrow> int \<Rightarrow> (addr \<Rightarrow> err + Seen) \<Rightarrow> addr list \<Rightarrow> Pushes Store \<Rightarrow>
    Pushes Store \<times> (addr \<times> Notification) list" where
  "watchPush day d fault push now node [] s = (s, [])"
| "watchPush day d fault push now node (a # rest) s =
     (let (s1, ns) = pushEvents day d fault now (node a) a s;
          s2 = foldl (\<lambda>s n. fst (notify push fault a s)) s1 ns;
          (s3, out) = watchPush day d fault push now node rest s2
      in (s3, map (Pair a) ns @ out))"

definition subscribers :: "addr list \<Rightarrow> Pushes \<Rightarrow> addr list" where
  "subscribers order m = filter (\<lambda>a. case fmlookup m a of None \<Rightarrow> False | Some st \<Rightarrow> puSubs st \<noteq> []) order"

text \<open>\<open>notifyEscrowParties\<close>: who is told of a message, and what.\<close>

definition notifyEscrowParties :: "Directory \<Rightarrow> Escrow \<Rightarrow> addr \<Rightarrow> string \<Rightarrow> (addr \<times> Notification) list" where
  "notifyEscrowParties d e sender text0 =
     (let t1 = (if length text0 > 120 then take 117 text0 @ [CHR 0xE2, CHR 0x80, CHR 0xA6] else text0);
          t2 = (if t1 = '''' then ''sent a photo'' else t1)
      in map (\<lambda>a. (a, \<lparr>ntTitle = ''New escrow message'', ntBody = nameOrShort d sender @ '': '' @ t2,
                      ntURL = ''/?escrow='' @ HashString (eID e), ntTag = ''chat-'' @ HashString (eID e)\<rparr>))
           (filter (\<lambda>a. a \<noteq> sender) [eBuyer e, eSeller e, eArbiter e]))"

subsection \<open>Properties\<close>

text \<open>
  The watcher and the ledger agree on a parcel, not on the seller: a wallet that follows a sale as its
  seller is told that the buyer released a milestone when it marks the parcel as sent itself, and when
  it refunds the buyer; nothing was paid to it.
\<close>

theorem seller_told_of_payment:
  assumes "(eoOp op = OpEscrowDispatch \<or> eoOp op = OpEscrowRefund) \<and> txFrom tx = eSeller e" and "escrowStep s tx op e = Inr (s', e')" and "eBuyer e \<noteq> eSeller e"
    and "fmlookup seen (HashString (eID e)) = Some (escrowKey e)" and "eStatus e = EscrowFunded"
  shows "ePaidSeller e' = ePaidSeller e \<and>
    map ntBody (snd (scanEscrow True (eSeller e) (seen, out) e')) = map ntBody out @ [''The buyer released a milestone payment to you.'']"
proof -
  have same: "eID e' = eID e" "eSeller e' = eSeller e" "eBuyer e' = eBuyer e" "ePaidSeller e' = ePaidSeller e"
    and st: "eStatus e' = EscrowDispatched \<or> eStatus e' = EscrowRefunded"
    using assms(1-3) unfolding escrowStep_def escrowDispatch_def escrowRefund_def
    by (auto simp: pay_def Let_def split: if_splits prod.splits)
  have "escrowKey e' \<noteq> escrowKey e" using st assms(5) by (auto simp: escrowKey_def statusText_def)
  moreover have "escrowBody (eSeller e) p e' = Some ''The buyer released a milestone payment to you.''" for p
    using st same assms(3) by (auto simp: escrowBody_def)
  ultimately show ?thesis using assms(4) same by (simp add: scanEscrow_def Let_def)
qed

text \<open>A second scan of the same finds nothing new.\<close>

lemma scanEscrow_seen:
  "fmlookup seen (HashString (eID e)) = Some (escrowKey e) \<Longrightarrow> fst (scanEscrow primed a (seen, out) e) = seen \<and> snd (scanEscrow primed a (seen, out) e) = out"
  by (auto simp: scanEscrow_def Let_def fmlookup_inject [symmetric] fun_eq_iff)

definition poolKeys :: "int \<Rightarrow> addr \<Rightarrow> Pool \<Rightarrow> string set" where
  "poolKeys now a p =
     (case indexOf a (pMembers p) of None \<Rightarrow> {}
      | Some i \<Rightarrow> if pStatus p \<noteq> PoolActive then {}
          else (if \<not> pPaid p ! i \<and> pRoundSecs p > 0 \<and> dueTime p - now < 24 * hour then {poolKey ''due'' p} else {}) \<union>
            (if i = pRound p \<and> False \<notin> set (pPaid p) then {poolKey ''pot'' p} else {}))"

definition recent :: "int \<Rightarrow> (string, int) fmap \<Rightarrow> bool" where
  "recent now m \<longleftrightarrow> (\<forall>k t. fmlookup m k = Some t \<longrightarrow> now div second - t \<le> 30 * 24 * 3600)"

text \<open>Whether a key was sent; kept folded, so that it rewrites as one fact.\<close>

definition was_sent :: "(string, int) fmap \<times> Notification list \<Rightarrow> string \<Rightarrow> bool" where
  "was_sent so k \<longleftrightarrow> fmlookup (fst so) k \<noteq> None"

lemma once_facts:
  "was_sent (once primed now key n so) key"
  "was_sent so k \<Longrightarrow> was_sent (once primed now key n so) k"
  "recent now (fst so) \<Longrightarrow> recent now (fst (once primed now key n so))"
  "was_sent so key \<Longrightarrow> once primed now key n so = so"
  by (auto simp: once_def recent_def was_sent_def)

lemma scanPool_keeps:
  "was_sent so k \<Longrightarrow> was_sent (scanPool day primed now a so p) k"
  "recent now (fst so) \<Longrightarrow> recent now (fst (scanPool day primed now a so p))"
  by (simp_all add: scanPool_def Let_def once_facts split: option.split)

lemma scanPool_keys: "k \<in> poolKeys now a p \<Longrightarrow> was_sent (scanPool day primed now a so p) k"
  by (auto simp: scanPool_def poolKeys_def Let_def once_facts(1,2) split: option.splits if_splits)

lemma scanPool_quiet: "\<forall>k\<in>poolKeys now a p. was_sent so k \<Longrightarrow> scanPool day primed now a so p = so"
  by (auto simp: scanPool_def poolKeys_def Let_def once_facts(4) split: option.splits if_splits)

lemma scanPools_keep:
  "was_sent so k \<Longrightarrow> was_sent (foldl (scanPool day primed now a) so ps) k"
  "recent now (fst so) \<Longrightarrow> recent now (fst (foldl (scanPool day primed now a) so ps))"
  by (induction ps arbitrary: so) (simp_all add: scanPool_keeps)

lemma scanPools_keys: "p \<in> set ps \<Longrightarrow> k \<in> poolKeys now a p \<Longrightarrow> was_sent (foldl (scanPool day primed now a) so ps) k"
proof (induction ps arbitrary: so)
  case (Cons q ps)
  show ?case
  proof (cases "p = q")
    case True
    then show ?thesis using scanPools_keep(1) [OF scanPool_keys [OF Cons.prems(2)]] by simp
  next
    case False
    then have "p \<in> set ps" using Cons.prems(1) by simp
    then show ?thesis using Cons.IH [OF _ Cons.prems(2)] by simp
  qed
qed simp

lemma scanPools_quiet: "\<forall>p\<in>set ps. \<forall>k\<in>poolKeys now a p. was_sent so k \<Longrightarrow> foldl (scanPool day primed now a) so ps = so"
  by (induction ps) (simp_all add: scanPool_quiet)

lemma scanEscrow_fst: "fst (scanEscrow primed a eo e) = fmupd (HashString (eID e)) (escrowKey e) (fst eo)"
  by (simp add: scanEscrow_def Let_def split: option.split)

lemma scanEscrows_other: "eid \<notin> set (map (\<lambda>e. HashString (eID e)) es) \<Longrightarrow> fmlookup (fst (foldl (scanEscrow primed a) eo es)) eid = fmlookup (fst eo) eid"
  by (induction es arbitrary: eo) (auto simp: scanEscrow_fst)

lemma scanEscrows_key:
  "distinct (map (\<lambda>e. HashString (eID e)) es) \<Longrightarrow> e \<in> set es \<Longrightarrow>
    fmlookup (fst (foldl (scanEscrow primed a) eo es)) (HashString (eID e)) = Some (escrowKey e)"
proof (induction es arbitrary: eo)
  case (Cons x es)
  show ?case
  proof (cases "e = x")
    case True
    then show ?thesis using Cons.prems(1) by (simp add: scanEscrows_other scanEscrow_fst)
  next
    case False
    then show ?thesis using Cons by simp
  qed
qed simp

lemma scanEscrows_quiet:
  "\<forall>e\<in>set es. fmlookup seen (HashString (eID e)) = Some (escrowKey e) \<Longrightarrow> snd (foldl (scanEscrow primed a) (seen, out) es) = out"
proof (induction es)
  case (Cons e es)
  then have "scanEscrow primed a (seen, out) e = (seen, out)" using scanEscrow_seen [of seen e primed a out] by (simp add: prod_eq_iff)
  then show ?case using Cons by simp
qed simp

text \<open>
  Each event is told once. As long as no reminder kept is older than a month, scanning again with nothing new on the
  chain tells nothing, whatever the first scan found.
\<close>

theorem second_scan_is_quiet:
  assumes "recent now (puSent st)" and "distinct (map (\<lambda>e. HashString (eID e)) (seEscrows se))" and "scan day d now a se st = (st', out)"
  shows "snd (scan day d now a se st') = []"
proof -
  let ?rx = "moneyIn d a st (seHistory se)"
  let ?p = "foldl (scanPool day (puPrimed st) now a) (puSent st, ?rx) (sePools se)"
  let ?e = "foldl (scanEscrow (puPrimed st) a) (puEscrows st, snd ?p) (seEscrows se)"
  have st': "puLastTx st' = (if seHistory se = [] then puLastTx st else HashString (heID (hd (seHistory se))))"
      "puSent st' = fmfilter (\<lambda>k. now div second - the (fmlookup (fst ?p) k) \<le> 30 * 24 * 3600) (fst ?p)" "puEscrows st' = fst ?e"
    using assms(3) by (auto simp: scan_def Let_def split_beta)
  have quiet1: "moneyIn d a st' (seHistory se) = []" using st'(1) by (cases "seHistory se") (simp_all add: moneyIn_def)
  have rec: "recent now (fst ?p)" using scanPools_keep(2) [of now "(puSent st, ?rx)"] assms(1) by simp
  have "was_sent (puSent st', []) k" if "was_sent ?p k" for k
    using that rec unfolding st'(2) recent_def was_sent_def by auto
  then have keys: "\<forall>p\<in>set (sePools se). \<forall>k\<in>poolKeys now a p. was_sent (puSent st', []) k"
    using scanPools_keys by blast
  have quiet2: "foldl (scanPool day (puPrimed st') now a) (puSent st', []) (sePools se) = (puSent st', [])" by (rule scanPools_quiet [OF keys])
  have "\<forall>e\<in>set (seEscrows se). fmlookup (puEscrows st') (HashString (eID e)) = Some (escrowKey e)"
    unfolding st'(3) using scanEscrows_key [OF assms(2)] by blast
  note quiet3 = scanEscrows_quiet [OF this]
  show ?thesis using quiet2 quiet3 by (simp add: scan_def Let_def split_beta quiet1)
qed

subsection \<open>Examples\<close>

definition watch_seen :: Seen where
  "watch_seen = \<lparr>seHistory = [toy_payment], sePools = [], seEscrows = [pact_escrow]\<rparr>"

theorem second_scan_is_quiet_witness:
  "snd (scan (\<lambda>_. '''') empty_directory 0 ''k1'' watch_seen (fst (scan (\<lambda>_. '''') empty_directory 0 ''k1'' watch_seen newPushState))) = []"
proof -
  have "recent 0 (puSent newPushState)" by (simp add: recent_def newPushState_def)
  moreover have "distinct (map (\<lambda>e. HashString (eID e)) (seEscrows watch_seen))" by (simp add: watch_seen_def)
  ultimately show ?thesis using second_scan_is_quiet [of 0 newPushState watch_seen] by (metis prod.collapse)
qed

theorem seller_told_of_payment_witness:
  "\<exists>out. map ntBody (snd (scanEscrow True demo_b (fmupd (HashString (eID pact_escrow)) (escrowKey pact_escrow) fmempty, []) pact_sent)) = out @ [''The buyer released a milestone payment to you.'']"
proof -
  have f: "eSeller pact_escrow = demo_b" "eBuyer pact_escrow \<noteq> eSeller pact_escrow" "eStatus pact_escrow = EscrowFunded"
    using demo_neq by (simp_all add: pact_escrow_def newEscrow_def fundOp_def)
  have "escrowStep (demo_state\<lparr>stNow := 1\<rparr>) (demo_tx\<lparr>txFrom := demo_b, txMemo := ''DHL 7''\<rparr>) ((fundOp pact 100)\<lparr>eoOp := OpEscrowDispatch\<rparr>) pact_escrow =
      Inr (demo_state\<lparr>stNow := 1\<rparr>, pact_sent)"
    by (simp add: escrowStep_def escrowDispatch_def pact_escrow_def pact_sent_def newEscrow_def fundOp_def)
  from seller_told_of_payment [OF _ this f(2) _ f(3), of "fmupd (HashString (eID pact_escrow)) (escrowKey pact_escrow) fmempty" "[]"]
  show ?thesis using f(1) by simp
qed

end
