(* ===== verification/Orpay_Chat.thy ===== *)
theory Orpay_Chat
  imports Orpay_Push
begin

text \<open>
  Escrow conversations of the orPay backend: the messages, evidence files and signed links of
  apps/orpay/backend/escrowchat.go. The evidence directory is a map from file names to contents;
  \<open>detect\<close> stands for the standard library's content sniffing, \<open>b64\<close> for its base64 decoder.
\<close>

subsection \<open>State\<close>

record EvidenceRef =
  evID :: string
  evType :: string
  evSize :: nat
  evSHA256 :: string
  evURL :: string

record EscrowMessage =
  emID :: string
  emFrom :: addr
  emRole :: string
  emText :: string
  emFiles :: "EvidenceRef list"
  emAt :: int

type_synonym Chats = "(string, EscrowMessage list) fmap"

type_synonym Files = "(string, bytes) fmap"

definition photoTypes :: "string set" where
  "photoTypes = {''image/jpeg'', ''image/png'', ''image/webp''}"

definition videoTypes :: "string set" where
  "videoTypes = {''video/mp4'', ''video/webm''}"

definition mediaType :: "(bytes \<Rightarrow> string) \<Rightarrow> bytes \<Rightarrow> string" where
  "mediaType detect b =
     (let ct = detect b in
      if ct \<in> photoTypes \<or> ct \<in> videoTypes then ct
      else if length b > 12 \<and> take 4 (drop 4 b) = ''ftyp'' then ''video/mp4''
      else '''')"

text \<open>Who may read and write.\<close>

definition escrowRole :: "EscrowNode \<Rightarrow> string \<Rightarrow> addr \<Rightarrow> err + string \<times> Escrow" where
  "escrowRole nd eid who =
     (case ndEscrow nd eid of Inl _ \<Rightarrow> Inl (Err ''escrow not found'')
      | Inr e \<Rightarrow>
        if who = eBuyer e then Inr (''buyer'', e)
        else if who = eSeller e then Inr (''seller'', e)
        else if who = eArbiter e then Inr (''arbiter'', e)
        else Inl (Err ''only the buyer, seller and arbiter can see this conversation''))"

subsection \<open>Posting\<close>

text \<open>
  The files of a message, each under a fresh random name; those written before a refused one stay. \<open>disk\<close> is
  the error of writing a name, if any, with what it left under that name, nothing or a part; \<open>mk\<close> that of creating
  the directory.
\<close>

fun storeFiles :: "(bytes \<Rightarrow> hash) \<Rightarrow> (bytes \<Rightarrow> string) \<Rightarrow> (string \<Rightarrow> bytes option) \<Rightarrow> (string \<Rightarrow> (err \<times> bytes option) option) \<Rightarrow> (string \<times> string) list \<Rightarrow> Files \<Rightarrow>
    Files \<times> (nat \<times> err + EvidenceRef list)" where
  "storeFiles sha detect b64 disk [] fs = (fs, Inr [])"
| "storeFiles sha detect b64 disk ((rnd, photo) # rest) fs =
     (case b64 photo of None \<Rightarrow> (fs, Inl (400, Err ''file could not be read''))
      | Some img \<Rightarrow>
        let ct = mediaType detect img in
        if img = '''' then (fs, Inl (400, Err ''file could not be read''))
        else if ct = '''' then (fs, Inl (400, Err ''file must be a JPEG, PNG or WebP photo, or an MP4/WebM video''))
        else if ct \<in> photoTypes \<and> length img > 3 * 2 ^ 20 then (fs, Inl (400, Err ''photo must be under 3 MB''))
        else if ct \<in> videoTypes \<and> length img > 25 * 2 ^ 20 then (fs, Inl (400, Err ''video must be under 25 MB (about 30 seconds)''))
        else case disk rnd of Some (e, part) \<Rightarrow> (case part of None \<Rightarrow> fs | Some b \<Rightarrow> fmupd rnd b fs, Inl (500, e))
        | None \<Rightarrow>
          (case storeFiles sha detect b64 disk rest (fmupd rnd img fs) of
             (fs', Inl e) \<Rightarrow> (fs', Inl e)
           | (fs', Inr refs) \<Rightarrow>
               (fs', Inr (\<lparr>evID = rnd, evType = ct, evSize = length img, evSHA256 = hex_encode (sha img), evURL = ''''\<rparr> # refs))))"

text \<open>The update of the thread: at most 500 messages.\<close>

definition threadOf :: "Chats \<Rightarrow> string \<Rightarrow> EscrowMessage list" where
  "threadOf m eid = (case fmlookup m eid of None \<Rightarrow> [] | Some ms \<Rightarrow> ms)"

definition postFn :: "string \<Rightarrow> EscrowMessage \<Rightarrow> Chats \<Rightarrow> Chats \<times> err option" where
  "postFn eid msg m =
     (if length (threadOf m eid) \<ge> 500 then (m, Some (Err ''this conversation is full''))
      else (fmupd eid (threadOf m eid @ [msg]) m, None))"

definition fileSig :: "(bytes \<Rightarrow> bytes \<Rightarrow> bytes) \<Rightarrow> bytes \<Rightarrow> string \<Rightarrow> int \<Rightarrow> string" where
  "fileSig hmac secret fid expiry = hex_encode (hmac secret (fid @ ''|'' @ showInt expiry))"

text \<open>Links that work for an hour; \<open>now\<close> in nanoseconds, expiry in seconds.\<close>

definition withURLs :: "(bytes \<Rightarrow> bytes \<Rightarrow> bytes) \<Rightarrow> bytes \<Rightarrow> int \<Rightarrow> EscrowMessage \<Rightarrow> EscrowMessage" where
  "withURLs hmac secret now m =
     (let expiry = (now + hour) div second in
      m\<lparr>emFiles := map (\<lambda>f. f\<lparr>evURL := ''/api/escrow-files/'' @ evID f @ ''?exp='' @ showInt expiry @ ''&sig='' @ fileSig hmac secret (evID f) expiry\<rparr>) (emFiles m)\<rparr>)"

definition postEscrowMessage :: "(bytes \<Rightarrow> hash) \<Rightarrow> (bytes \<Rightarrow> bytes \<Rightarrow> bytes) \<Rightarrow> bytes \<Rightarrow> (bytes \<Rightarrow> string) \<Rightarrow> (string \<Rightarrow> bytes option) \<Rightarrow> err option \<Rightarrow> (string \<Rightarrow> (err \<times> bytes option) option) \<Rightarrow>
    Directory \<Rightarrow> EscrowNode \<Rightarrow> err option \<Rightarrow> int \<Rightarrow> string \<Rightarrow> (nat \<Rightarrow> string) \<Rightarrow> string \<Rightarrow> addr \<Rightarrow> string \<Rightarrow> string list \<Rightarrow> Chats Store \<times> Files \<Rightarrow>
    (Chats Store \<times> Files) \<times> EscrowMessage response \<times> (addr \<times> Notification) list" where
  "postEscrowMessage sha hmac secret detect b64 mk disk d nd fault now rnd names eid me text0 photos sf =
     (case escrowRole nd eid me of Inl e \<Rightarrow> (sf, writeErr 403 e, [])
      | Inr (role, esc) \<Rightarrow>
        let txt = TrimSpace text0 in
        if (txt = '''' \<and> photos = []) \<or> length txt > 2000 \<or> length photos > 4
        then (sf, writeErr 400 (Err ''write a message and/or attach photos''), [])
        else case mk of Some e \<Rightarrow> (sf, writeErr 500 e, [])
        | None \<Rightarrow>
        (case storeFiles sha detect b64 disk (zip (map names [0..<length photos]) photos) (snd sf) of
          (fs, Inl (status, e)) \<Rightarrow> ((fst sf, fs), writeErr status e, [])
        | (fs, Inr refs) \<Rightarrow>
          (let msg = \<lparr>emID = rnd, emFrom = me, emRole = role, emText = txt, emFiles = refs, emAt = now\<rparr> in
           case Update fault (postFn eid msg) (fst sf) of
             (s', Some e) \<Rightarrow> ((s', fs), writeErr 400 e, [])
           | (s', None) \<Rightarrow> ((s', fs), writeJSON 201 (withURLs hmac secret now msg), notifyEscrowParties d esc me txt))))"

definition listEscrowMessages :: "(bytes \<Rightarrow> bytes \<Rightarrow> bytes) \<Rightarrow> bytes \<Rightarrow> EscrowNode \<Rightarrow> int \<Rightarrow> string \<Rightarrow> addr \<Rightarrow> Chats Store \<Rightarrow> EscrowMessage list response" where
  "listEscrowMessages hmac secret nd now eid me s =
     (case escrowRole nd eid me of Inl e \<Rightarrow> writeErr 403 e
      | Inr _ \<Rightarrow> writeJSON 200 (map (withURLs hmac secret now) (threadOf (soData s) eid)))"

subsection \<open>Serving a file\<close>

text \<open>
  \<open>filepath.Base\<close>: the element after the last slash, trailing slashes aside. \<open>strconv.ParseInt\<close> gives the nearest
  \<open>int64\<close> for a number out of range and 0 for text that is no number; the error is ignored.
\<close>

definition pathBase :: "string \<Rightarrow> string" where
  "pathBase p =
     (let t = dropWhile (\<lambda>c. c = CHR ''/'') (rev p)
      in if p = '''' then ''.'' else if t = '''' then ''/'' else rev (takeWhile (\<lambda>c. c \<noteq> CHR ''/'') t))"

definition parseExp :: "string \<Rightarrow> int" where
  "parseExp s =
     (let t = (if s \<noteq> [] \<and> (hd s = CHR ''-'' \<or> hd s = CHR ''+'') then tl s else s)
      in case ParseInt s of Some n \<Rightarrow> n
         | None \<Rightarrow> if \<not> digits t then 0 else if hd s = CHR ''-'' then - (2 ^ 63) else 2 ^ 63 - 1)"

definition serveEvidence :: "(bytes \<Rightarrow> bytes \<Rightarrow> bytes) \<Rightarrow> bytes \<Rightarrow> (bytes \<Rightarrow> string) \<Rightarrow> int \<Rightarrow> string \<Rightarrow> string \<Rightarrow> string \<Rightarrow> Files \<Rightarrow> (string \<times> bytes) response" where
  "serveEvidence hmac secret detect now path expiry sig fs =
     (let fid = pathBase path; e = parseExp expiry in
      if e < now div second \<or> sig \<noteq> fileSig hmac secret fid e then writeErr 403 (Err ''link expired'')
      else case fmlookup fs fid of None \<Rightarrow> writeErr 404 (Err ''404 page not found'')
      | Some img \<Rightarrow> if mediaType detect img = '''' then writeErr 404 (Err ''404 page not found'') else writeJSON 200 (mediaType detect img, img))"

text \<open>The key of the links, made once; \<open>rnd\<close> are 32 random bytes. The file after the call, and the key or the error.\<close>

definition loadSecret :: "err option \<Rightarrow> bytes \<Rightarrow> bytes option \<Rightarrow> bytes option \<times> bytes \<times> err option" where
  "loadSecret fault rnd file =
     (if file \<noteq> None \<and> length (the file) = 32 then (file, the file, None)
      else case fault of Some e \<Rightarrow> (file, rnd, Some e) | None \<Rightarrow> (Some rnd, rnd, None))"

lemma loadSecret_stable: "loadSecret fault rnd file = (file', b, None) \<Longrightarrow> length rnd = 32 \<Longrightarrow> loadSecret fault' rnd' file' = (file', b, None)"
  by (auto simp: loadSecret_def split: option.splits if_splits)

definition postTerms :: "(bytes \<Rightarrow> hash) \<Rightarrow> err option \<Rightarrow> int \<Rightarrow> string \<Rightarrow> (string, Terms) fmap Store \<Rightarrow> (string, Terms) fmap Store \<times> (string \<times> string) response" where
  "postTerms sha fault now txt s =
     (case storeTerms sha fault now txt s of (s', Inl e) \<Rightarrow> (s', writeErr 400 e) | (s', Inr h) \<Rightarrow> (s', writeJSON 201 (h, ''terms:'' @ h)))"

subsection \<open>What a conversation holds\<close>

text \<open>A file as recorded with a message is the one in the directory.\<close>

definition file_ok :: "(bytes \<Rightarrow> hash) \<Rightarrow> Files \<Rightarrow> EvidenceRef \<Rightarrow> bool" where
  "file_ok sha fs f \<longleftrightarrow> (\<exists>b. fmlookup fs (evID f) = Some b \<and> evSize f = length b \<and> length b \<le> 25 * 2 ^ 20 \<and> evSHA256 f = hex_encode (sha b))"

definition wrote :: "Escrow set \<Rightarrow> string \<Rightarrow> EscrowMessage \<Rightarrow> bool" where
  "wrote H eid m \<longleftrightarrow> (\<exists>e\<in>H. ParseHash eid = Inr (eID e) \<and>
     (emFrom m, emRole m) \<in> {(eBuyer e, ''buyer''), (eSeller e, ''seller''), (eArbiter e, ''arbiter'')})"

definition thread_ok :: "(bytes \<Rightarrow> hash) \<Rightarrow> Escrow set \<Rightarrow> Files \<Rightarrow> string \<Rightarrow> EscrowMessage list \<Rightarrow> bool" where
  "thread_ok sha H fs eid ms \<longleftrightarrow> length ms \<le> 500 \<and> (\<forall>m\<in>set ms. wrote H eid m \<and> length (emText m) \<le> 2000 \<and> (\<forall>f\<in>set (emFiles m). file_ok sha fs f))"

definition grows :: "Files \<Rightarrow> Files \<Rightarrow> bool" where
  "grows fs fs' \<longleftrightarrow> (\<forall>k v. fmlookup fs k = Some v \<longrightarrow> fmlookup fs' k = Some v)"

lemma file_ok_grows: "grows fs fs' \<Longrightarrow> file_ok sha fs f \<Longrightarrow> file_ok sha fs' f"
  unfolding file_ok_def grows_def by blast

lemma thread_ok_grows: "grows fs fs' \<Longrightarrow> thread_ok sha H fs eid ms \<Longrightarrow> thread_ok sha H fs' eid ms"
  using file_ok_grows unfolding thread_ok_def by blast

lemma mediaType_cases: "mediaType detect b = '''' \<or> mediaType detect b \<in> photoTypes \<or> mediaType detect b \<in> videoTypes"
  by (auto simp: mediaType_def photoTypes_def videoTypes_def Let_def)

lemma storeFiles_ok:
  assumes "storeFiles sha detect b64 disk xs fs = (fs', r)" and "distinct (map fst xs)" and "\<forall>n\<in>fst ` set xs. fmlookup fs n = None"
  shows "grows fs fs' \<and> (\<forall>refs. r = Inr refs \<longrightarrow> (\<forall>f\<in>set refs. file_ok sha fs' f))"
  using assms
proof (induction xs arbitrary: fs fs' r)
  case Nil
  then show ?case by (auto simp: grows_def)
next
  case (Cons x xs)
  obtain rnd photo where x: "x = (rnd, photo)" by (cases x)
  have refuse: "grows fs fs \<and> (\<forall>refs. Inl e = Inr refs \<longrightarrow> (\<forall>f\<in>set refs. file_ok sha fs f))" for e :: "nat \<times> err"
    by (simp add: grows_def)
  show ?case
  proof (cases "b64 photo")
    case None
    then show ?thesis using Cons.prems(1) x refuse by auto
  next
    case (Some img)
    let ?ct = "mediaType detect img"
    show ?thesis
    proof (cases "img = '''' \<or> ?ct = '''' \<or> (?ct \<in> photoTypes \<and> length img > 3 * 2 ^ 20) \<or> (?ct \<in> videoTypes \<and> length img > 25 * 2 ^ 20) \<or> disk rnd \<noteq> None")
      case True
      have "fmlookup fs rnd = None" using Cons.prems(3) x by simp
      then have "grows fs (fmupd rnd b fs)" for b by (auto simp: grows_def)
      moreover have "(fs' = fs \<or> (\<exists>b. fs' = fmupd rnd b fs)) \<and> isl r"
        using True Cons.prems(1) x Some by (auto simp: Let_def split: if_splits option.splits)
      ultimately show ?thesis by (auto simp: grows_def)
    next
      case False
      then have small: "length img \<le> 25 * 2 ^ 20" using mediaType_cases [of detect img] by auto
      obtain r0 where rest: "storeFiles sha detect b64 disk xs (fmupd rnd img fs) = (fs', r0)"
        and r: "r = (case r0 of Inl e \<Rightarrow> Inl e | Inr refs \<Rightarrow>
            Inr (\<lparr>evID = rnd, evType = ?ct, evSize = length img, evSHA256 = hex_encode (sha img), evURL = ''''\<rparr> # refs))"
        using Cons.prems(1) x Some False
        by (cases "storeFiles sha detect b64 disk xs (fmupd rnd img fs)") (auto simp: Let_def split: sum.splits option.splits)
      have "distinct (map fst xs)" "\<forall>n\<in>fst ` set xs. fmlookup (fmupd rnd img fs) n = None"
        using Cons.prems(2,3) x by auto
      note ih = Cons.IH [OF rest this]
      have new: "fmlookup fs rnd = None" using Cons.prems(3) x by simp
      have "fmlookup (fmupd rnd img fs) k = Some v" if "fmlookup fs k = Some v" for k v using that new by auto
      then have g: "grows fs fs'" using ih unfolding grows_def by blast
      have "fmlookup fs' rnd = Some img" using ih unfolding grows_def by simp
      then have "file_ok sha fs' \<lparr>evID = rnd, evType = ?ct, evSize = length img, evSHA256 = hex_encode (sha img), evURL = ''''\<rparr>"
        using small by (simp add: file_ok_def)
      then show ?thesis using g ih r by (cases r0) auto
    qed
  qed
qed

lemma escrowRole_Inr:
  assumes "honest H memo nd" and "escrowRole nd eid me = Inr (role, e)"
  shows "e \<in> H \<and> ParseHash eid = Inr (eID e) \<and> (me, role) \<in> {(eBuyer e, ''buyer''), (eSeller e, ''seller''), (eArbiter e, ''arbiter'')}"
proof -
  have nd: "ndEscrow nd eid = Inr e"
    and "(me, role) \<in> {(eBuyer e, ''buyer''), (eSeller e, ''seller''), (eArbiter e, ''arbiter'')}"
    using assms(2) by (auto simp: escrowRole_def split: sum.splits if_splits)
  then show ?thesis using assms(1) unfolding honest_def by blast
qed

lemma postFn_ok:
  assumes "store_all (thread_ok sha H fs) s" and "wrote H eid m" and "length (emText m) \<le> 2000" and "\<forall>f\<in>set (emFiles m). file_ok sha fs f"
  shows "store_all (thread_ok sha H fs) (fst (Update fault (postFn eid m) s))"
proof (rule store_all_Update [OF assms(1)])
  fix k v
  assume v: "fmlookup (fst (postFn eid m (soData s))) k = Some v"
  have old: "thread_ok sha H fs eid (threadOf (soData s) eid)"
    using store_allD [OF assms(1)] by (auto simp: threadOf_def thread_ok_def split: option.split)
  show "thread_ok sha H fs k v"
  proof (cases "k = eid \<and> \<not> length (threadOf (soData s) eid) \<ge> 500")
    case True
    then have "v = threadOf (soData s) eid @ [m]" using v by (simp add: postFn_def)
    then show ?thesis using True old assms(2-4) by (auto simp: thread_ok_def)
  next
    case False
    then have "fmlookup (soData s) k = Some v" using v by (auto simp: postFn_def split: if_splits)
    then show ?thesis by (rule store_allD [OF assms(1)])
  qed
qed

lemma store_thread_grows: "grows fs fs' \<Longrightarrow> store_all (thread_ok sha H fs) s \<Longrightarrow> store_all (thread_ok sha H fs') s"
  using thread_ok_grows unfolding store_all_def by blast

text \<open>
  The backend against a chain's escrows \<open>H\<close>; random names do not repeat.
\<close>

inductive chat_step :: "(bytes \<Rightarrow> hash) \<Rightarrow> Escrow set \<Rightarrow> (hash \<Rightarrow> string) \<Rightarrow> Chats Store \<times> Files \<Rightarrow> Chats Store \<times> Files \<Rightarrow> bool" for sha H memo where
  post: "honest H memo nd \<Longrightarrow> inj names \<Longrightarrow> \<forall>i. fmlookup (snd sf) (names i) = None \<Longrightarrow>
    chat_step sha H memo sf (fst (postEscrowMessage sha hmac secret detect b64 mk disk d nd fault now rnd names eid me txt0 photos sf))"
| restart: "chat_step sha H memo (s, fs) (reopen fmempty s, fs)"

lemma post_ok:
  assumes "honest H memo nd" and "inj names" and "\<forall>i. fmlookup fs (names i) = None" and "store_all (thread_ok sha H fs) s"
    and "fst (postEscrowMessage sha hmac secret detect b64 mk disk d nd fault now rnd names eid me txt0 photos (s, fs)) = (s', fs')"
  shows "store_all (thread_ok sha H fs') s' \<and> grows fs fs'"
proof -
  have same: ?thesis if "s' = s" "fs' = fs" using that assms(4) by (simp add: grows_def)
  show ?thesis
  proof (cases "escrowRole nd eid me")
    case (Inl e)
    then show ?thesis using assms(5) same by (simp add: postEscrowMessage_def)
  next
    case (Inr re)
    obtain role esc where re: "re = (role, esc)" by (cases re)
    note role = escrowRole_Inr [OF assms(1) Inr [unfolded re]]
    let ?txt = "TrimSpace txt0"
    show ?thesis
    proof (cases "(?txt = '''' \<and> photos = []) \<or> length ?txt > 2000 \<or> length photos > 4")
      case True
      then show ?thesis using assms(5) same Inr re by (auto simp: postEscrowMessage_def Let_def split: option.splits)
    next
      case False
      let ?files = "zip (map names [0..<length photos]) photos"
      obtain fs1 r where st: "storeFiles sha detect b64 disk ?files fs = (fs1, r)" by fastforce
      have "distinct (map names [0..<length photos])" using inj_on_subset [OF assms(2) subset_UNIV] by (simp add: distinct_map)
      then have d: "distinct (map fst ?files)" "\<forall>n\<in>fst ` set ?files. fmlookup fs n = None"
        using assms(3) by (auto dest!: set_zip_leftD)
      note f = storeFiles_ok [OF st d]
      show ?thesis
      proof (cases mk)
        case (Some e)
        then show ?thesis using assms(5) same Inr re False by (auto simp: postEscrowMessage_def Let_def)
      next
        case mk: None
      show ?thesis
      proof (cases r)
        case (Inl e)
        then have "s' = s" "fs' = fs1" using assms(5) \<open>escrowRole nd eid me = Inr re\<close> re False st mk by (auto simp: postEscrowMessage_def Let_def split: prod.splits)
        then show ?thesis using f assms(4) store_thread_grows by blast
      next
        case (Inr refs)
        let ?msg = "\<lparr>emID = rnd, emFrom = me, emRole = role, emText = ?txt, emFiles = refs, emAt = now\<rparr>"
        have "s' = fst (Update fault (postFn eid ?msg) s)" "fs' = fs1"
          using assms(5) \<open>escrowRole nd eid me = Inr re\<close> re False st mk Inr
          by (auto simp: postEscrowMessage_def Let_def split: prod.splits option.splits)
        moreover have "store_all (thread_ok sha H fs1) (fst (Update fault (postFn eid ?msg) s))"
          using store_thread_grows [OF _ assms(4)] f Inr role False by (intro postFn_ok) (auto simp: wrote_def)
        ultimately show ?thesis using f by blast
      qed
      qed
    qed
  qed
qed

lemma chat_step_ok:
  assumes "chat_step sha H memo sf sf'" and "store_all (thread_ok sha H (snd sf)) (fst sf)"
  shows "store_all (thread_ok sha H (snd sf')) (fst sf') \<and> grows (snd sf) (snd sf')"
  using assms
proof (induction rule: chat_step.induct)
  case (post nd names sf hmac secret detect b64 mk disk d fault now rnd eid me txt0 photos)
  obtain s fs where sf: "sf = (s, fs)" by (cases sf)
  obtain s' fs' where r: "fst (postEscrowMessage sha hmac secret detect b64 mk disk d nd fault now rnd names eid me txt0 photos (s, fs)) = (s', fs')" by fastforce
  show ?case using post_ok [OF post.hyps(1,2) _ _ r] post.hyps(3) post.prems unfolding sf r by simp
next
  case (restart s fs)
  then show ?case by (simp add: store_all_reopen grows_def)
qed

lemma chat_run_ok:
  assumes "(chat_step sha H memo)\<^sup>*\<^sup>* sf sf'" and "store_all (thread_ok sha H (snd sf)) (fst sf)"
  shows "store_all (thread_ok sha H (snd sf')) (fst sf') \<and> grows (snd sf) (snd sf')"
  using assms
proof (induction rule: rtranclp_induct)
  case base
  then show ?case by (simp add: grows_def)
next
  case (step y z)
  then show ?case using chat_step_ok unfolding grows_def by fast
qed

subsection \<open>Properties\<close>

text \<open>
  C32: evidence stays as it was. Whatever is posted, refused or lost in a restart, every message of a conversation
  was written by a party of that escrow, in the role it shows, and every file attached to it is, now and
  after anything that follows, the bytes whose SHA-256 the message recorded.
\<close>

theorem evidence_stays_intact:
  assumes "(chat_step sha H memo)\<^sup>*\<^sup>* (\<lparr>soData = fmempty, soDisk = None\<rparr>, fmempty) (s, fs)"
    and "m \<in> set (threadOf (soData s) eid)" and "(chat_step sha H memo)\<^sup>*\<^sup>* (s, fs) (s', fs')"
  shows "(\<exists>e\<in>H. ParseHash eid = Inr (eID e) \<and>
      (emFrom m, emRole m) \<in> {(eBuyer e, ''buyer''), (eSeller e, ''seller''), (eArbiter e, ''arbiter'')}) \<and>
    (\<forall>f\<in>set (emFiles m). \<exists>b. fmlookup fs (evID f) = Some b \<and> fmlookup fs' (evID f) = Some b \<and> evSHA256 f = hex_encode (sha b))"
proof -
  have ok: "store_all (thread_ok sha H fs) s" using chat_run_ok [OF assms(1)] by (simp add: store_all_empty)
  have later: "grows fs fs'" using chat_run_ok [OF assms(3)] ok by simp
  have "thread_ok sha H fs eid (threadOf (soData s) eid)"
    using store_allD [OF ok] by (auto simp: threadOf_def thread_ok_def split: option.split)
  then have "wrote H eid m \<and> (\<forall>f\<in>set (emFiles m). file_ok sha fs f)" using assms(2) by (simp add: thread_ok_def)
  then show ?thesis using later unfolding wrote_def file_ok_def grows_def by blast
qed

definition talk :: "Chats Store \<times> Files" where
  "talk = fst (postEscrowMessage (\<lambda>x. x) (\<lambda>_ _. '''') '''' (\<lambda>_. ''image/png'') Some None (\<lambda>_. None) empty_directory fame_node None 0 ''m1'' (\<lambda>i. replicate (Suc i) CHR ''f'')
     (HashString fame_id) demo_a ''here'' [''img''] (\<lparr>soData = fmempty, soDisk = None\<rparr>, fmempty))"

definition talk_message :: EscrowMessage where
  "talk_message = \<lparr>emID = ''m1'', emFrom = demo_a, emRole = ''buyer'', emText = ''here'',
     emFiles = [\<lparr>evID = ''f'', evType = ''image/png'', evSize = 3, evSHA256 = hex_encode ''img'', evURL = ''''\<rparr>], emAt = 0\<rparr>"

lemma talk_thread: "threadOf (soData (fst talk)) (HashString fame_id) = [talk_message]"
proof -
  have role: "escrowRole fame_node (HashString fame_id) demo_a = Inr (''buyer'', fame_escrow)" by (simp add: escrowRole_def fame_found)
  have "TrimSpace ''here'' = ''here''" by (rule TrimSpace_none) (simp add: is_space_def)
  then show ?thesis
    by (simp add: talk_def postEscrowMessage_def role mediaType_def photoTypes_def videoTypes_def postFn_def threadOf_def Update_def WriteAtomic_def
        talk_message_def Let_def)
qed

lemma talk_run: "(chat_step (\<lambda>x. x) {fame_escrow} (\<lambda>_. ''terms:''))\<^sup>*\<^sup>* (\<lparr>soData = fmempty, soDisk = None\<rparr>, fmempty) (fst talk, snd talk)"
  unfolding talk_def prod.collapse by (rule r_into_rtranclp, rule chat_step.post [OF fame_honest]) (simp_all add: inj_on_def)

theorem evidence_stays_intact_witness:
  "\<exists>b. fmlookup (snd talk) ''f'' = Some b \<and> hex_encode ''img'' = hex_encode b"
proof -
  have m: "talk_message \<in> set (threadOf (soData (fst talk)) (HashString fame_id))" by (simp add: talk_thread)
  show ?thesis using evidence_stays_intact [OF talk_run m rtranclp.rtrancl_refl] by (simp add: talk_message_def)
qed

end
