(* ===== verification/Orpay_Logos.thy ===== *)
theory Orpay_Logos
  imports Orpay_Chat
begin

text \<open>
  Partners' logos of the orPay backend: apps/orpay/backend/logo.go. The page of a partner is searched for
  image links, best first; the first that is an image of an allowed type is stored and served. The regular
  expressions over tags and attributes are written as the functions that find their matches, in ASCII; parsing
  and resolving URLs, HTTP and content sniffing are parameters.
\<close>

subsection \<open>Tags and attributes\<close>

text \<open>The classes \<open>\s\<close>, \<open>\w\<close> and \<open>[a-z:-]\<close> without case.\<close>

definition re_space :: "char \<Rightarrow> bool" where
  "re_space c \<longleftrightarrow> of_char c \<in> {9, 10, 12, 13, 32 :: nat}"

definition re_letter :: "char \<Rightarrow> bool" where
  "re_letter c \<longleftrightarrow> (let n = of_char (to_lower c) :: nat in 97 \<le> n \<and> n \<le> 122)"

definition re_word :: "char \<Rightarrow> bool" where
  "re_word c \<longleftrightarrow> re_letter c \<or> is_digit c \<or> c = CHR ''_''"

definition re_attr :: "char \<Rightarrow> bool" where
  "re_attr c \<longleftrightarrow> re_letter c \<or> c = CHR '':'' \<or> c = CHR ''-''"

text \<open>All matches of \<open><name\b[^>]*>\<close>.\<close>

fun findTags :: "string \<Rightarrow> string \<Rightarrow> string list" where
  "findTags name [] = []"
| "findTags name (c # s) =
     (let rest = drop (length name) s; body = takeWhile (\<lambda>x. x \<noteq> CHR ''>'') s in
      if c = CHR ''<'' \<and> map to_lower (take (length name) s) = name \<and> rest \<noteq> [] \<and> \<not> re_word (hd rest) \<and> CHR ''>'' \<in> set rest
      then (c # body @ [CHR ''>'']) # findTags name (drop (length body + 1) s)
      else findTags name s)"

text \<open>An attribute's value with its quotes, and what follows.\<close>

definition attrValue :: "string \<Rightarrow> (string \<times> string) option" where
  "attrValue r =
     (let quoted = (\<lambda>q. r \<noteq> [] \<and> hd r = q \<and> q \<in> set (tl r));
          upto = (\<lambda>q. let v = takeWhile (\<lambda>x. x \<noteq> q) (tl r) in Some (q # v @ [q], drop (length v + 2) r));
          bare = takeWhile (\<lambda>x. \<not> re_space x \<and> x \<noteq> CHR ''>'') r
      in if quoted (CHR 0x22) then upto (CHR 0x22)
         else if quoted (CHR 0x27) then upto (CHR 0x27)
         else if bare = [] then None else Some (bare, drop (length bare) r))"

lemma attrValue_shorter: "attrValue r = Some (v, rest) \<Longrightarrow> length rest \<le> length r"
  by (auto simp: attrValue_def Let_def split: if_splits)

text \<open>All matches of the attribute expression: names and values.\<close>

function findAttrs :: "string \<Rightarrow> (string \<times> string) list" where
  "findAttrs [] = []"
| "findAttrs (c # s) =
     (if \<not> re_attr c then findAttrs s
      else let after = dropWhile re_attr s; eq = dropWhile re_space after in
        case (if eq \<noteq> [] \<and> hd eq = CHR ''='' then attrValue (dropWhile re_space (tl eq)) else None) of
          None \<Rightarrow> findAttrs after
        | Some (v, rest) \<Rightarrow> (c # takeWhile re_attr s, v) # findAttrs rest)"
  by pat_completeness auto
termination
proof (relation "measure length", goal_cases)
  case (4 c s after eq x v rest)
  have "length eq \<le> length s" using 4(3,2) length_dropWhile_le le_trans by blast
  moreover have "attrValue (dropWhile re_space (tl eq)) = Some (v, rest)" using 4(4,5) by (auto split: if_splits)
  then have "length rest \<le> length (dropWhile re_space (tl eq))" by (rule attrValue_shorter)
  moreover have "length (dropWhile re_space (tl eq)) \<le> length (tl eq)" by (rule length_dropWhile_le)
  ultimately show ?case by simp
qed (auto simp: le_imp_less_Suc length_dropWhile_le)

text \<open>\<open>strings.Trim\<close> of both kinds of quotes.\<close>

definition trimQuotes :: "string \<Rightarrow> string" where
  "trimQuotes v = (let q = (\<lambda>x. x = CHR 0x22 \<or> x = CHR 0x27) in rev (dropWhile q (rev (dropWhile q v))))"

definition attrs :: "string \<Rightarrow> (string, string) fmap" where
  "attrs tag = foldl (\<lambda>m (k, v). fmupd (map to_lower k) (trimQuotes v) m) fmempty (findAttrs tag)"

subsection \<open>Candidates\<close>

text \<open>The closure \<open>add\<close>: \<open>refURL\<close> gives the scheme and the text of a reference on the page.\<close>

definition addCand :: "(string \<Rightarrow> (string \<times> string) option) \<Rightarrow> string \<Rightarrow> int \<Rightarrow> (string \<times> int) list" where
  "addCand refURL href pts =
     (if href = '''' \<or> startsWith ''data:'' href then []
      else case refURL href of None \<Rightarrow> []
      | Some (scheme, url) \<Rightarrow> if scheme \<noteq> ''https'' \<and> scheme \<noteq> ''http'' then [] else [(url, pts)])"

definition iconSize :: "string \<Rightarrow> int" where
  "iconSize sizes = (let s = map to_lower sizes in if CHR ''x'' \<in> set s then parseExp (takeWhile (\<lambda>c. c \<noteq> CHR ''x'') s) else 0)"

definition linkCand :: "(string \<Rightarrow> (string \<times> string) option) \<Rightarrow> string \<Rightarrow> (string \<times> int) list" where
  "linkCand refURL tag =
     (let a = attrs tag; rel = map to_lower (getd [] a ''rel''); href = getd [] a ''href'' in
      if contains (getd [] a ''type'') ''svg'' \<or> startsWith (rev ''.svg'') (rev (map to_lower href)) then []
      else if contains rel ''apple-touch-icon'' then addCand refURL href (wrap64 (1000 + iconSize (getd [] a ''sizes'')))
      else if contains rel ''icon'' then addCand refURL href (wrap64 (500 + iconSize (getd [] a ''sizes'')))
      else [])"

definition metaCand :: "(string \<Rightarrow> (string \<times> string) option) \<Rightarrow> string \<Rightarrow> (string \<times> int) list" where
  "metaCand refURL tag =
     (let a = attrs tag; p = map to_lower (getd [] a ''property'' @ getd [] a ''name'') in
      if p = ''og:image'' \<or> p = ''og:logo'' then addCand refURL (getd [] a ''content'') 100 else [])"

text \<open>The sorting loops: element \<open>j\<close> moves to the front past every smaller score.\<close>

fun sink :: "('a \<times> int) list \<Rightarrow> nat \<Rightarrow> ('a \<times> int) list" where
  "sink cs 0 = cs"
| "sink cs (Suc j) = (if snd (cs ! Suc j) > snd (cs ! j) then sink (cs[Suc j := cs ! j, j := cs ! Suc j]) j else cs)"

definition bestFirst :: "('a \<times> int) list \<Rightarrow> ('a \<times> int) list" where
  "bestFirst cs = foldl sink cs [1..<length cs]"

definition logoCandidates :: "(string \<Rightarrow> (string \<times> string) option) \<Rightarrow> string \<Rightarrow> string list" where
  "logoCandidates refURL html =
     map fst (bestFirst (concat (map (linkCand refURL) (findTags ''link'' html)) @ concat (map (metaCand refURL) (findTags ''meta'' html)) @
       addCand refURL ''/favicon.ico'' 1))"

subsection \<open>Fetching\<close>

definition allowedLogoTypes :: "string set" where
  "allowedLogoTypes = {''image/png'', ''image/jpeg'', ''image/webp'', ''image/x-icon'', ''image/vnd.microsoft.icon''}"

definition maxLogoBytes :: nat where "maxLogoBytes = 512 * 2 ^ 10"

text \<open>\<open>get\<close>: the status and body of the reply, \<open>Inl\<close> when there was none.\<close>

definition getLimited :: "(string \<Rightarrow> err + nat \<times> bytes) \<Rightarrow> string \<Rightarrow> nat \<Rightarrow> err + bytes" where
  "getLimited http u limit =
     (case http u of Inl e \<Rightarrow> Inl e
      | Inr (status, body) \<Rightarrow>
        if status \<noteq> 200 then Inl (Err ''error status'') else if length body > limit then Inl (Err ''too large'') else Inr body)"

definition logoType :: "(bytes \<Rightarrow> string) \<Rightarrow> bytes \<Rightarrow> string" where
  "logoType detect img = (if take 4 img = [CHR 0x00, CHR 0x00, CHR 0x01, CHR 0x00] then ''image/x-icon'' else detect img)"

fun tryLogos :: "(string \<Rightarrow> err + nat \<times> bytes) \<Rightarrow> (bytes \<Rightarrow> string) \<Rightarrow> err \<Rightarrow> string list \<Rightarrow> err + bytes \<times> string \<times> string" where
  "tryLogos http detect lastErr [] = Inl lastErr"
| "tryLogos http detect lastErr (u # us) =
     (case getLimited http u maxLogoBytes of Inl e \<Rightarrow> tryLogos http detect e us
      | Inr img \<Rightarrow>
        if logoType detect img \<notin> allowedLogoTypes \<or> length img < 64
        then tryLogos http detect (Err ''not a PNG/JPEG/WebP/ICO image'') us
        else Inr (img, logoType detect img, u))"

text \<open>A parsed website: its text and host, the place of its icon, and how it resolves references.\<close>

record Page =
  pgText :: string
  pgHost :: string
  pgFavicon :: string
  pgResolve :: "string \<Rightarrow> (string \<times> string) option"

definition fetchLogo :: "(string \<Rightarrow> err + nat \<times> bytes) \<Rightarrow> (bytes \<Rightarrow> string) \<Rightarrow> (string \<Rightarrow> Page option) \<Rightarrow> string \<Rightarrow> err + bytes \<times> string \<times> string" where
  "fetchLogo http detect parse website =
     (case parse website of None \<Rightarrow> Inl (Err ''invalid website'')
      | Some pg \<Rightarrow>
        if pgHost pg = '''' then Inl (Err ''invalid website'')
        else tryLogos http detect (Err ''no logo found'')
          (case getLimited http (pgText pg) (2 ^ 20) of Inl _ \<Rightarrow> [pgFavicon pg] | Inr html \<Rightarrow> logoCandidates (pgResolve pg) html))"

subsection \<open>Storing and serving\<close>

text \<open>
  What happens to the directory and a file when they are written: \<open>lfDir\<close> is the error of making the directory,
  \<open>lfWrite\<close> that of writing the file and how many bytes were written before it.
\<close>

record LogoFaults =
  lfDir :: "err option"
  lfWrite :: "(err \<times> nat option) option"
  lfStore :: "err option"

definition refreshLogo :: "(string \<Rightarrow> err + nat \<times> bytes) \<Rightarrow> (bytes \<Rightarrow> string) \<Rightarrow> (string \<Rightarrow> Page option) \<Rightarrow> LogoFaults \<Rightarrow> int \<Rightarrow> string \<Rightarrow>
    Apps Store \<times> Files \<Rightarrow> (Apps Store \<times> Files) \<times> err option" where
  "refreshLogo http detect parse faults now aid sf =
     (case fmlookup (soData (fst sf)) aid of None \<Rightarrow> (sf, Some (Err ''app not found''))
      | Some a \<Rightarrow>
        if apWebsite a = '''' then (sf, Some (Err ''app not found''))
        else case fetchLogo http detect parse (apWebsite a) of Inl e \<Rightarrow> (sf, Some e)
        | Inr (img, ct, src) \<Rightarrow>
          (case lfDir faults of Some e \<Rightarrow> (sf, Some e)
           | None \<Rightarrow>
             (case lfWrite faults of
                Some (e, None) \<Rightarrow> (sf, Some e)
              | Some (e, Some n) \<Rightarrow> ((fst sf, fmupd aid (take n img) (snd sf)), Some e)
              | None \<Rightarrow>
                (case Update (lfStore faults) (\<lambda>m. (case fmlookup m aid of None \<Rightarrow> m
                        | Some b \<Rightarrow> fmupd aid (b\<lparr>apLogoType := ct, apLogoSource := src, apLogoAt := now\<rparr>) m, None)) (fst sf) of
                   (s', e) \<Rightarrow> ((s', fmupd aid img (snd sf)), e)))))"

definition serveLogo :: "string \<Rightarrow> Apps Store \<times> Files \<Rightarrow> (string \<times> bytes) response" where
  "serveLogo aid sf =
     (let ct = (case fmlookup (soData (fst sf)) aid of None \<Rightarrow> '''' | Some a \<Rightarrow> if apStatus a = AppApproved then apLogoType a else '''') in
      if ct \<notin> allowedLogoTypes then writeErr 404 (Err ''404 page not found'')
      else case fmlookup (snd sf) (pathBase aid) of None \<Rightarrow> writeErr 404 (Err ''404 page not found'') | Some img \<Rightarrow> writeJSON 200 (ct, img))"

definition refreshLogoHandler :: "(string \<Rightarrow> err + nat \<times> bytes) \<Rightarrow> (bytes \<Rightarrow> string) \<Rightarrow> (string \<Rightarrow> Page option) \<Rightarrow> LogoFaults \<Rightarrow> err option \<Rightarrow> int \<Rightarrow>
    string \<Rightarrow> addr \<Rightarrow> Apps Store \<times> Files \<Rightarrow> (Apps Store \<times> Files) \<times> App response" where
  "refreshLogoHandler http detect parse faults fault now aid me sf =
     (case ownedApp fault aid me (\<lambda>a. (a, if apStatus a \<noteq> AppApproved then Some (Err ''logos are fetched once the app is approved'') else None)) (fst sf) of
        (s', Some e) \<Rightarrow> ((s', snd sf), writeErr 400 e)
      | (s', None) \<Rightarrow>
        (case refreshLogo http detect parse faults now aid (s', snd sf) of
           (sf', Some e) \<Rightarrow> (sf', writeErr 502 (Wrap ''could not fetch a logo from your website'' e))
         | (sf', None) \<Rightarrow> (sf', writeJSON 200 (forOwner (the (fmlookup (soData (fst sf')) aid))))))"

text \<open>One round of \<open>refreshLogos\<close>: the approved apps whose logo is older than the interval.\<close>

definition staleLogos :: "int \<Rightarrow> int \<Rightarrow> string list \<Rightarrow> Apps \<Rightarrow> string list" where
  "staleLogos every now order m =
     filter (\<lambda>aid. case fmlookup m aid of None \<Rightarrow> False | Some a \<Rightarrow> apStatus a = AppApproved \<and> subTime now (apLogoAt a) > every) order"

definition refreshLogos :: "(string \<Rightarrow> err + nat \<times> bytes) \<Rightarrow> (bytes \<Rightarrow> string) \<Rightarrow> (string \<Rightarrow> Page option) \<Rightarrow> (string \<Rightarrow> LogoFaults) \<Rightarrow> int \<Rightarrow> int \<Rightarrow> string list \<Rightarrow>
    Apps Store \<times> Files \<Rightarrow> Apps Store \<times> Files" where
  "refreshLogos http detect parse faults every now order sf =
     foldl (\<lambda>sf aid. fst (refreshLogo http detect parse (faults aid) now aid sf)) sf (staleLogos every now order (soData (fst sf)))"

subsection \<open>Sorting\<close>

lemma sink_insort:
  "sink (rev rs @ x # rest) (length rs) = rev (insort_key snd x rs) @ rest"
proof (induction rs arbitrary: rest)
  case Nil
  then show ?case by simp
next
  case (Cons y rs)
  let ?cs = "rev rs @ y # x # rest"
  have at: "?cs ! Suc (length rs) = x" "?cs ! length rs = y" by (simp_all add: nth_append)
  have swap: "?cs[Suc (length rs) := y, length rs := x] = rev rs @ x # y # rest" by (simp add: list_update_append)
  have "sink ?cs (Suc (length rs)) = (if snd x > snd y then sink (rev rs @ x # y # rest) (length rs) else ?cs)"
    using at swap by simp
  then show ?case using Cons.IH [of "y # rest"] by auto
qed

lemma bestFirst_rev: "bestFirst cs = rev (sort_key snd (rev cs))"
proof -
  have "foldl sink cs [1..<n] = rev (sort_key snd (rev (take n cs))) @ drop n cs" if "1 \<le> n" "n \<le> length cs" for n
    using that
  proof (induction n rule: dec_induct)
    case base
    then obtain c ds where "cs = c # ds" by (cases cs) auto
    then show ?case by simp
  next
    case (step n)
    let ?s = "sort_key snd (rev (take n cs))"
    have n: "length ?s = n" "drop n cs = cs ! n # drop (Suc n) cs" using step by (simp_all add: Cons_nth_drop_Suc)
    have "foldl sink cs [1..<Suc n] = sink (rev ?s @ cs ! n # drop (Suc n) cs) (length ?s)" using step n by simp
    also have "\<dots> = rev (insort_key snd (cs ! n) ?s) @ drop (Suc n) cs" by (rule sink_insort)
    also have "insort_key snd (cs ! n) ?s = sort_key snd (rev (take (Suc n) cs))" using step by (simp add: take_Suc_conv_app_nth)
    finally show ?case .
  qed
  from this [of "length cs"] show ?thesis by (cases "cs = []") (simp_all add: bestFirst_def Suc_le_eq)
qed

lemma filter_sort_key: "filter (\<lambda>x. f x = k) (sort_key f xs) = filter (\<lambda>x. f x = k) xs"
  by (metis (mono_tags, lifting) filter_cong sort_key_stable)

subsection \<open>What is stored\<close>

text \<open>A stored file has its app, the app's type is what its bytes are, an allowed one, and its size is within bounds.\<close>

definition logos_ok :: "(bytes \<Rightarrow> string) \<Rightarrow> Apps Store \<times> Files \<Rightarrow> bool" where
  "logos_ok detect sf \<longleftrightarrow> (\<forall>aid img. fmlookup (snd sf) aid = Some img \<longrightarrow>
     64 \<le> length img \<and> length img \<le> maxLogoBytes \<and> logoType detect img \<in> allowedLogoTypes \<and>
     (\<exists>a. fmlookup (soData (fst sf)) aid = Some a \<and> apLogoType a = logoType detect img))"

definition noFaults :: LogoFaults where
  "noFaults = \<lparr>lfDir = None, lfWrite = None, lfStore = None\<rparr>"

lemma tryLogos_Inr:
  "tryLogos http detect e us = Inr (img, ct, u) \<Longrightarrow>
   ct = logoType detect img \<and> ct \<in> allowedLogoTypes \<and> 64 \<le> length img \<and> length img \<le> maxLogoBytes \<and> u \<in> set us"
  by (induction us arbitrary: e) (auto simp: getLimited_def split: sum.splits if_splits)

lemma fetchLogo_Inr:
  "fetchLogo http detect parse w = Inr (img, ct, u) \<Longrightarrow>
   ct = logoType detect img \<and> ct \<in> allowedLogoTypes \<and> 64 \<le> length img \<and> length img \<le> maxLogoBytes"
  by (auto simp: fetchLogo_def split: option.splits if_splits dest: tryLogos_Inr)

lemma refreshLogo_ok:
  assumes "logos_ok detect sf"
  shows "logos_ok detect (fst (refreshLogo http detect parse noFaults now aid sf))"
proof (cases "fst (refreshLogo http detect parse noFaults now aid sf) = sf")
  case True
  then show ?thesis using assms by simp
next
  case False
  then obtain a img ct src where a: "fmlookup (soData (fst sf)) aid = Some a" and f: "fetchLogo http detect parse (apWebsite a) = Inr (img, ct, src)"
    by (auto simp: refreshLogo_def split: option.splits sum.splits if_splits)
  let ?r = "fst (refreshLogo http detect parse noFaults now aid sf)"
  have "snd ?r = fmupd aid img (snd sf)"
    "soData (fst ?r) = fmupd aid (a\<lparr>apLogoType := ct, apLogoSource := src, apLogoAt := now\<rparr>) (soData (fst sf))"
    using False a f by (auto simp: refreshLogo_def noFaults_def Update_def Let_def split: if_splits prod.splits)
  then show ?thesis using assms fetchLogo_Inr [OF f] by (auto simp: logos_ok_def)
qed

lemma refreshLogos_ok: "logos_ok detect sf \<Longrightarrow> logos_ok detect (refreshLogos http detect parse (\<lambda>_. noFaults) every now order sf)"
proof -
  have "logos_ok detect sf \<Longrightarrow> logos_ok detect (foldl (\<lambda>sf aid. fst (refreshLogo http detect parse noFaults now aid sf)) sf ids)" for ids
    by (induction ids arbitrary: sf) (simp_all add: refreshLogo_ok)
  then show "logos_ok detect sf \<Longrightarrow> ?thesis" by (simp add: refreshLogos_def)
qed

lemma serveLogo_ok:
  assumes "logos_ok detect sf" and "pathBase aid = aid" and "serveLogo aid sf = (200, Inr (ct, img))"
  shows "ct = logoType detect img \<and> ct \<in> allowedLogoTypes \<and> length img \<le> maxLogoBytes"
proof -
  have img: "fmlookup (snd sf) aid = Some img"
    using assms(2,3) by (auto simp: serveLogo_def writeErr_def writeJSON_def Let_def split: option.splits if_splits)
  then obtain a where a: "fmlookup (soData (fst sf)) aid = Some a" "apLogoType a = logoType detect img"
    "logoType detect img \<in> allowedLogoTypes" "length img \<le> maxLogoBytes" using assms(1) unfolding logos_ok_def by blast
  have "ct = apLogoType a"
    using assms(3) a(1) by (auto simp: serveLogo_def writeErr_def writeJSON_def Let_def allowedLogoTypes_def split: option.splits if_splits)
  then show ?thesis using a by simp
qed

subsection \<open>Properties\<close>

text \<open>
  Best first. The sorting loops of \<open>logoCandidates\<close> are a stable sort by falling score: candidates of one score keep
  the order of the page.
\<close>

theorem best_first_is_stable_sort: "bestFirst cs = sort_key (\<lambda>c. - snd c) cs"
proof (rule properties_for_sort_key [symmetric])
  show "mset (bestFirst cs) = mset cs" by (simp add: bestFirst_rev)
  show "filter (\<lambda>x. - snd k = - snd x) (bestFirst cs) = filter (\<lambda>x. - snd k = - snd x) cs" for k
    using arg_cong [where f = rev, OF filter_sort_key [of snd "snd k" "rev cs"]]
    by (simp add: bestFirst_rev rev_filter eq_commute [of "snd k"])
  have "sorted (map snd (sort_key snd (rev cs)))" by simp
  then show "sorted (map (\<lambda>c. - snd c) (bestFirst cs))"
    by (simp add: bestFirst_rev sorted_map rev_map [symmetric] sorted_wrt_rev sorted_wrt_map)
qed

text \<open>
  Served logos. After rounds of refreshing from any websites, when writing to disk works, what \<open>serveLogo\<close> serves from the
  server's own origin is the approved app's image: at most 512 KB, of an allowed image type, and sent as the type its bytes are.
\<close>

theorem served_logo_is_image:
  assumes "logos_ok detect sf" and "pathBase aid = aid"
    and "serveLogo aid (foldl (\<lambda>sf (now, order). refreshLogos http detect parse (\<lambda>_. noFaults) every now order sf) sf rounds) = (200, Inr (ct, img))"
  shows "ct = logoType detect img \<and> ct \<in> allowedLogoTypes \<and> length img \<le> maxLogoBytes"
proof -
  have "logos_ok detect (foldl (\<lambda>sf (now, order). refreshLogos http detect parse (\<lambda>_. noFaults) every now order sf) sf rounds)"
    using assms(1) by (induction rounds arbitrary: sf) (simp_all add: refreshLogos_ok split: prod.split)
  from serveLogo_ok [OF this assms(2,3)] show ?thesis .
qed

definition logo_apps :: "Apps Store" where
  "logo_apps = \<lparr>soData = fmupd ''app_1'' ((toy_app ''app_1'' ''k1'')\<lparr>apWebsite := ''https://gabis.ng''\<rparr>) fmempty, soDisk = None\<rparr>"

definition logo_http :: "string \<Rightarrow> err + nat \<times> bytes" where
  "logo_http u = (if u = ''icon'' then Inr (200, replicate 64 (CHR 0xFF)) else Inl (Err ''unreachable''))"

definition logo_page :: "string \<Rightarrow> Page option" where
  "logo_page w = Some \<lparr>pgText = w, pgHost = ''gabis.ng'', pgFavicon = ''icon'', pgResolve = (\<lambda>_. None)\<rparr>"

definition logo_state :: "Apps Store \<times> Files" where
  "logo_state = foldl (\<lambda>sf (now, order). refreshLogos logo_http (\<lambda>_. ''image/png'') logo_page (\<lambda>_. noFaults) hour now order sf) (logo_apps, fmempty)
     [(0, [''app_1''])]"

theorem served_logo_is_image_witness:
  "serveLogo ''app_1'' logo_state = (200, Inr (''image/png'', replicate 64 (CHR 0xFF))) \<and> ''image/png'' \<in> allowedLogoTypes"
proof -
  have "take 4 (replicate 64 (CHR 0xFF)) = replicate 4 (CHR 0xFF)" by simp
  then have t: "logoType (\<lambda>_. ''image/png'') (replicate 64 (CHR 0xFF)) = ''image/png''"
    by (simp add: logoType_def eval_nat_numeral)
  have f: "fetchLogo logo_http (\<lambda>_. ''image/png'') logo_page ''https://gabis.ng'' = Inr (replicate 64 (CHR 0xFF), ''image/png'', ''icon'')"
    by (simp add: fetchLogo_def logo_page_def getLimited_def logo_http_def t allowedLogoTypes_def maxLogoBytes_def)
  have st: "staleLogos hour 0 [''app_1''] (soData logo_apps) = [''app_1'']"
    by (simp add: staleLogos_def logo_apps_def toy_app_def subTime_def zeroTime_def hour_def minute_def)
  have one: "logo_state = fst (refreshLogo logo_http (\<lambda>_. ''image/png'') logo_page noFaults 0 ''app_1'' (logo_apps, fmempty))"
    by (simp add: logo_state_def refreshLogos_def st)
  have b: "pathBase ''app_1'' = ''app_1''" by (simp add: pathBase_def)
  have "serveLogo ''app_1'' logo_state = (200, Inr (''image/png'', replicate 64 (CHR 0xFF)))"
    unfolding one
    by (simp add: refreshLogo_def f logo_apps_def toy_app_def noFaults_def Update_def WriteAtomic_def serveLogo_def b
        allowedLogoTypes_def writeJSON_def Let_def)
  moreover have "logos_ok (\<lambda>_. ''image/png'') (logo_apps, fmempty)" by (simp add: logos_ok_def)
  ultimately show ?thesis using served_logo_is_image [OF _ b] unfolding logo_state_def by blast
qed

end
