(* ===== verification/Rate_Limit.thy ===== *)
theory Rate_Limit
  imports Key_Files
begin

text \<open>
  Per-client rate limiting: node/ratelimit/ratelimit.go, and the two limits of a node (\<open>limit\<close> of
  node/cmd/openreserved/main.go). Tokens are \<open>float64\<close> in the code; here they are fractions, and every arithmetic
  operation is followed by a rounding \<open>rnd\<close>, a parameter. The theorem about rates is for exact arithmetic.
\<close>

subsection \<open>State\<close>

record Bucket =
  bkTokens :: rat
  bkLast :: int

record Limiter =
  lmRate :: rat
  lmBurst :: rat
  lmBuckets :: "(string, Bucket) fmap"
  lmSweep :: int

definition NewLimiter :: "(rat \<Rightarrow> rat) \<Rightarrow> int \<Rightarrow> int \<Rightarrow> Limiter" where
  "NewLimiter rnd perMinute burst =
     \<lparr>lmRate = rnd (rnd (of_int perMinute) / 60), lmBurst = rnd (of_int burst), lmBuckets = fmempty, lmSweep = zeroTime\<rparr>"

subsection \<open>Taking a token\<close>

text \<open>\<open>Duration.Seconds\<close>: whole seconds plus the rest, each converted.\<close>

definition inSeconds :: "(rat \<Rightarrow> rat) \<Rightarrow> int \<Rightarrow> rat" where
  "inSeconds rnd d =
     (let s = sgn d * (\<bar>d\<bar> div second) in rnd (rnd (of_int s) + rnd (rnd (of_int (d - s * second)) / 1000000000)))"

text \<open>The conversion of a number of seconds to a duration truncates it.\<close>

definition toDuration :: "(rat \<Rightarrow> rat) \<Rightarrow> rat \<Rightarrow> int" where
  "toDuration rnd x = (let y = rnd (x * 1000000000) in if y < 0 then - \<lfloor>- y\<rfloor> else \<lfloor>y\<rfloor>)"

text \<open>\<open>gc\<close>: once a minute, buckets that have had time to fill are dropped.\<close>

definition gc :: "(rat \<Rightarrow> rat) \<Rightarrow> int \<Rightarrow> Limiter \<Rightarrow> Limiter" where
  "gc rnd now l =
     (if subTime now (lmSweep l) < minute then l
      else l\<lparr>lmSweep := now,
             lmBuckets := fmfilter (\<lambda>k. \<not> subTime now (bkLast (the (fmlookup (lmBuckets l) k))) > toDuration rnd (rnd (lmBurst l / lmRate l)))
               (lmBuckets l)\<rparr>)"

definition refill :: "(rat \<Rightarrow> rat) \<Rightarrow> int \<Rightarrow> Limiter \<Rightarrow> Bucket \<Rightarrow> rat" where
  "refill rnd now l b = min (lmBurst l) (rnd (bkTokens b + rnd (inSeconds rnd (subTime now (bkLast b)) * lmRate l)))"

definition Allow :: "(rat \<Rightarrow> rat) \<Rightarrow> int \<Rightarrow> string \<Rightarrow> Limiter \<Rightarrow> Limiter \<times> bool \<times> int" where
  "Allow rnd now key l0 =
     (let l = gc rnd now l0;
          b = (case fmlookup (lmBuckets l) key of None \<Rightarrow> \<lparr>bkTokens = lmBurst l, bkLast = now\<rparr> | Some b \<Rightarrow> b);
          t = refill rnd now l b;
          put = (\<lambda>tokens. l\<lparr>lmBuckets := fmupd key \<lparr>bkTokens = tokens, bkLast = now\<rparr> (lmBuckets l)\<rparr>)
      in if t \<ge> 1 then (put (rnd (t - 1)), True, 0) else (put t, False, toDuration rnd (rnd (rnd (1 - t) / lmRate l))))"

subsection \<open>The caller's address\<close>

text \<open>\<open>net.SplitHostPort\<close>: the host, or \<open>None\<close> for an error.\<close>

definition splitHost :: "string \<Rightarrow> string option" where
  "splitHost s =
     (if CHR '':'' \<notin> set s then None
      else let port = takeWhile (\<lambda>c. c \<noteq> CHR '':'') (rev s); front = rev (drop (length port + 1) (rev s)) in
      if s \<noteq> [] \<and> hd s = CHR ''['' then
        (let host = takeWhile (\<lambda>c. c \<noteq> CHR '']'') (tl s) in
         if CHR '']'' \<in> set s \<and> front = CHR ''['' # host @ '']'' \<and> CHR ''['' \<notin> set (host @ port) \<and> CHR '']'' \<notin> set port then Some host else None)
      else if CHR '':'' \<in> set front \<or> CHR ''['' \<in> set s \<or> CHR '']'' \<in> set s then None
      else Some front)"

text \<open>The last entry of a comma-separated header.\<close>

definition lastEntry :: "string \<Rightarrow> string" where
  "lastEntry xff = TrimSpace (rev (takeWhile (\<lambda>c. c \<noteq> CHR '','') (rev xff)))"

definition ClientIP :: "bool \<Rightarrow> string \<Rightarrow> string \<Rightarrow> string" where
  "ClientIP trustProxy xff remoteAddr =
     (if trustProxy \<and> xff \<noteq> '''' then lastEntry xff
      else case splitHost remoteAddr of None \<Rightarrow> remoteAddr | Some host \<Rightarrow> host)"

text \<open>\<open>Middleware\<close>: \<open>None\<close> when the request goes through, else the seconds to wait that a 429 names.\<close>

definition retryAfter :: "(rat \<Rightarrow> rat) \<Rightarrow> int \<Rightarrow> int" where
  "retryAfter rnd wait = \<lceil>inSeconds rnd wait\<rceil>"

definition Middleware :: "(rat \<Rightarrow> rat) \<Rightarrow> int \<Rightarrow> bool \<Rightarrow> string \<Rightarrow> string \<Rightarrow> Limiter \<Rightarrow> Limiter \<times> int option" where
  "Middleware rnd now trustProxy xff remoteAddr l =
     (case Allow rnd now (ClientIP trustProxy xff remoteAddr) l of
        (l', True, _) \<Rightarrow> (l', None) | (l', False, wait) \<Rightarrow> (l', Some (retryAfter rnd wait)))"

text \<open>A node's limits: submissions and reads apart, with bursts of a third and a fifth of a minute's worth.\<close>

definition nodeLimits :: "(rat \<Rightarrow> rat) \<Rightarrow> int \<Rightarrow> int \<Rightarrow> Limiter \<times> Limiter" where
  "nodeLimits rnd readPerMin submitPerMin =
     (NewLimiter rnd readPerMin (max (readPerMin div 5) 1), NewLimiter rnd submitPerMin (max (submitPerMin div 3) 1))"

definition nodeLimit :: "(rat \<Rightarrow> rat) \<Rightarrow> int \<Rightarrow> bool \<Rightarrow> string \<Rightarrow> string \<Rightarrow> bool \<Rightarrow> Limiter \<times> Limiter \<Rightarrow> (Limiter \<times> Limiter) \<times> int option" where
  "nodeLimit rnd now trustProxy xff remoteAddr post ls =
     (if post then (case Middleware rnd now trustProxy xff remoteAddr (snd ls) of (l, r) \<Rightarrow> ((fst ls, l), r))
      else (case Middleware rnd now trustProxy xff remoteAddr (fst ls) of (l, r) \<Rightarrow> ((l, snd ls), r)))"

subsection \<open>Exact arithmetic\<close>

lemma inSeconds_exact: "inSeconds (\<lambda>x. x) d = of_int d / 1000000000"
proof -
  have "(of_int d :: rat) = of_int (s * second) + of_int (d - s * second)" for s by simp
  then show ?thesis by (simp add: inSeconds_def Let_def second_def field_simps)
qed

text \<open>What a key may still take at a time, and what a limiter always satisfies.\<close>

definition level :: "string \<Rightarrow> int \<Rightarrow> Limiter \<Rightarrow> rat" where
  "level key now l =
     (case fmlookup (lmBuckets l) key of None \<Rightarrow> lmBurst l
      | Some b \<Rightarrow> min (lmBurst l) (bkTokens b + of_int (now - bkLast b) / 1000000000 * lmRate l))"

definition limiter_ok :: "int \<Rightarrow> Limiter \<Rightarrow> bool" where
  "limiter_ok now l \<longleftrightarrow> 0 < lmRate l \<and> 0 < lmBurst l \<and> now < 2 ^ 62 \<and>
     (\<forall>k b. fmlookup (lmBuckets l) k = Some b \<longrightarrow> 0 \<le> bkTokens b \<and> bkTokens b \<le> lmBurst l \<and> 0 \<le> bkLast b \<and> bkLast b \<le> now)"

lemma limiter_ok_later: "limiter_ok c l \<Longrightarrow> c \<le> now \<Longrightarrow> now < 2 ^ 62 \<Longrightarrow> limiter_ok now l"
  unfolding limiter_ok_def by force

lemma level_bounds:
  assumes "limiter_ok now l"
  shows "0 \<le> level key now l \<and> level key now l \<le> lmBurst l"
proof (cases "fmlookup (lmBuckets l) key")
  case None
  then show ?thesis using assms by (simp add: level_def limiter_ok_def)
next
  case (Some b)
  then have "0 \<le> bkTokens b" "bkLast b \<le> now" "0 < lmRate l" "0 < lmBurst l" using assms by (auto simp: limiter_ok_def)
  then show ?thesis using Some by (simp add: level_def)
qed

lemma min_grows: "0 \<le> r \<Longrightarrow> min x (t + (a + r)) \<le> min x (t + a) + (r :: rat)"
  by (simp add: min_def)

lemma level_later:
  assumes "limiter_ok c l" and "c \<le> now"
  shows "level key now l \<le> level key c l + of_int (now - c) / 1000000000 * lmRate l"
proof -
  have r: "0 \<le> of_int (now - c) / 1000000000 * lmRate l" using assms by (simp add: limiter_ok_def)
  show ?thesis
  proof (cases "fmlookup (lmBuckets l) key")
    case None
    then show ?thesis using r by (simp add: level_def)
  next
    case (Some b)
    have split: "of_int (now - bkLast b) / 1000000000 * lmRate l =
        of_int (c - bkLast b) / 1000000000 * lmRate l + of_int (now - c) / 1000000000 * lmRate l"
      by (simp add: field_simps)
    show ?thesis unfolding level_def Some option.case split by (rule min_grows [OF r])
  qed
qed

lemma toDuration_exact: "0 \<le> x \<Longrightarrow> toDuration (\<lambda>x. x) x = \<lfloor>x * 1000000000\<rfloor>"
  by (simp add: toDuration_def Let_def)

text \<open>A dropped bucket was full.\<close>

lemma gc_level:
  assumes ok: "limiter_ok now l"
  shows "level key now (gc (\<lambda>x. x) now l) = level key now l \<and> limiter_ok now (gc (\<lambda>x. x) now l) \<and>
    lmRate (gc (\<lambda>x. x) now l) = lmRate l \<and> lmBurst (gc (\<lambda>x. x) now l) = lmBurst l"
proof (cases "subTime now (lmSweep l) < minute")
  case True
  then show ?thesis using ok by (simp add: gc_def)
next
  case False
  let ?full = "toDuration (\<lambda>x. x) (lmBurst l / lmRate l)"
  have pos: "0 < lmRate l" "0 < lmBurst l" using ok by (simp_all add: limiter_ok_def)
  have filled: "level key now l = lmBurst l" if b: "fmlookup (lmBuckets l) key = Some b" and d: "subTime now (bkLast b) > ?full" for b
  proof -
    have range: "0 \<le> bkTokens b" "0 \<le> bkLast b" "bkLast b \<le> now" "now < 2 ^ 62" using ok b by (auto simp: limiter_ok_def)
    then have "subTime now (bkLast b) = now - bkLast b" by (simp add: subTime_def)
    then have "now - bkLast b > \<lfloor>lmBurst l / lmRate l * 1000000000\<rfloor>" using d pos by (simp add: toDuration_exact)
    then have "lmBurst l / lmRate l * 1000000000 < of_int (now - bkLast b)" by (simp add: floor_less_iff)
    then have "lmBurst l < of_int (now - bkLast b) / 1000000000 * lmRate l" using pos by (simp add: field_simps)
    then show ?thesis using b range(1) by (simp add: level_def)
  qed
  have keep: "fmlookup (lmBuckets (gc (\<lambda>x. x) now l)) k =
      (case fmlookup (lmBuckets l) k of None \<Rightarrow> None | Some b \<Rightarrow> if subTime now (bkLast b) > ?full then None else Some b)" for k
    using False by (simp add: gc_def split: option.split)
  have same: "lmRate (gc (\<lambda>x. x) now l) = lmRate l" "lmBurst (gc (\<lambda>x. x) now l) = lmBurst l" using False by (simp_all add: gc_def)
  have "level key now (gc (\<lambda>x. x) now l) = level key now l"
  proof (cases "fmlookup (lmBuckets l) key")
    case None
    then show ?thesis by (simp add: level_def keep same)
  next
    case (Some b)
    then show ?thesis using filled [OF Some] by (auto simp: level_def keep same)
  qed
  moreover have "limiter_ok now (gc (\<lambda>x. x) now l)"
    using ok unfolding limiter_ok_def same by (auto simp: keep split: option.splits if_splits)
  ultimately show ?thesis using same by simp
qed

lemma Allow_level:
  assumes ok: "limiter_ok now l" and a: "Allow (\<lambda>x. x) now k l = (l', passed, wait)" and now: "0 \<le> now"
  shows "level key now l' + (if passed \<and> k = key then 1 else 0) \<le> level key now l \<and> limiter_ok now l' \<and> lmRate l' = lmRate l \<and> lmBurst l' = lmBurst l"
proof -
  let ?g = "gc (\<lambda>x. x) now l"
  have g: "level key now ?g = level key now l" "limiter_ok now ?g" "lmRate ?g = lmRate l" "lmBurst ?g = lmBurst l"
    using gc_level [OF ok] by simp_all
  define b where "b = (case fmlookup (lmBuckets ?g) k of None \<Rightarrow> \<lparr>bkTokens = lmBurst ?g, bkLast = now\<rparr> | Some b \<Rightarrow> b)"
  have b: "0 \<le> bkTokens b" "bkTokens b \<le> lmBurst l" "0 \<le> bkLast b" "bkLast b \<le> now" "now < 2 ^ 62" "0 < lmRate l" "0 < lmBurst l"
    using g(2-4) now by (auto simp: b_def limiter_ok_def split: option.split)
  then have sub: "subTime now (bkLast b) = now - bkLast b" by (simp add: subTime_def)
  define t where "t = refill (\<lambda>x. x) now ?g b"
  have t: "t = min (lmBurst l) (bkTokens b + of_int (now - bkLast b) / 1000000000 * lmRate l)"
    by (simp add: t_def refill_def inSeconds_exact sub g(3,4))
  have lev: "level k now l = t" using gc_level [OF ok, of k] b(2,4,6) by (auto simp: level_def t b_def g(3,4) split: option.splits)
  have t0: "0 \<le> t" "t \<le> lmBurst l" using t b by simp_all
  have l': "l' = ?g\<lparr>lmBuckets := fmupd k \<lparr>bkTokens = (if t \<ge> 1 then t - 1 else t), bkLast = now\<rparr> (lmBuckets ?g)\<rparr>" "passed = (t \<ge> 1)"
    using a by (auto simp: Allow_def Let_def b_def [symmetric] t_def [symmetric] split: if_splits)
  have same: "lmRate l' = lmRate l" "lmBurst l' = lmBurst l" using l' g by simp_all
  have "limiter_ok now l'" using g(2) t0 b(5) now unfolding limiter_ok_def l' by (auto simp: g(3,4))
  moreover have "level key now l' + (if passed \<and> k = key then 1 else 0) \<le> level key now l"
  proof (cases "k = key")
    case True
    then have "level key now l' = min (lmBurst l) (if t \<ge> 1 then t - 1 else t)" using l' g by (simp add: level_def)
    then show ?thesis using True lev l'(2) t0 by (auto simp: min_def)
  next
    case False
    then have "level key now l' = level key now ?g" using l' by (simp add: level_def cong: option.case_cong)
    then show ?thesis using False g(1) by simp
  qed
  ultimately show ?thesis using same by blast
qed

subsection \<open>Properties\<close>

text \<open>A run of requests, each a key and a time, and which were let through.\<close>

fun serve :: "(rat \<Rightarrow> rat) \<Rightarrow> (string \<times> int) list \<Rightarrow> Limiter \<Rightarrow> Limiter \<times> (string \<times> int) list" where
  "serve rnd [] l = (l, [])"
| "serve rnd ((key, now) # rest) l =
     (let (l1, passed, _) = Allow rnd now key l; (l2, out) = serve rnd rest l1 in (l2, if passed then (key, now) # out else out))"

definition passes :: "string \<Rightarrow> (string \<times> int) list \<Rightarrow> nat" where
  "passes key out = length (filter (\<lambda>c. fst c = key) out)"

lemma serve_level:
  assumes "serve (\<lambda>x. x) calls l = (l', out)" and "limiter_ok c l" and "0 \<le> c" and "sorted (c # map snd calls)" and "\<forall>t\<in>snd ` set calls. t < 2 ^ 62"
  shows "\<exists>c'. c' = last (c # map snd calls) \<and> of_nat (passes key out) + level key c' l' \<le> level key c l + of_int (c' - c) / 1000000000 * lmRate l \<and>
    limiter_ok c' l' \<and> lmRate l' = lmRate l \<and> lmBurst l' = lmBurst l"
  using assms
proof (induction calls arbitrary: l l' out c)
  case Nil
  then show ?case by (simp add: passes_def)
next
  case (Cons call calls)
  obtain k now where call: "call = (k, now)" by (cases call)
  obtain l1 passed wait where a: "Allow (\<lambda>x. x) now k l = (l1, passed, wait)" by (cases "Allow (\<lambda>x. x) now k l") auto
  obtain out1 where s: "serve (\<lambda>x. x) calls l1 = (l', out1)" and out: "out = (if passed then call # out1 else out1)"
    using Cons.prems(1) a call by (auto simp: Let_def split: prod.splits)
  have c: "c \<le> now" "now < 2 ^ 62" using Cons.prems(4,5) call by auto
  have ok: "limiter_ok now l" by (rule limiter_ok_later [OF Cons.prems(2) c])
  have step: "level key now l1 + (if passed \<and> k = key then 1 else 0) \<le> level key now l" "limiter_ok now l1" "lmRate l1 = lmRate l" "lmBurst l1 = lmBurst l"
    using Allow_level [OF ok a, of key] c(1) Cons.prems(3) by simp_all
  have "sorted (now # map snd calls)" "\<forall>t\<in>snd ` set calls. t < 2 ^ 62" "0 \<le> now" using Cons.prems(3-5) call c by auto
  from Cons.IH [OF s step(2) this(3,1,2)] obtain c' where c': "c' = last (now # map snd calls)"
    "of_nat (passes key out1) + level key c' l' \<le> level key now l1 + of_int (c' - now) / 1000000000 * lmRate l"
    "limiter_ok c' l'" "lmRate l' = lmRate l" "lmBurst l' = lmBurst l" using step(3,4) by auto
  have "of_nat (passes key out) = of_nat (passes key out1) + (if passed \<and> k = key then 1 else (0 :: rat))"
    by (simp add: passes_def out call)
  moreover have "level key now l \<le> level key c l + of_int (now - c) / 1000000000 * lmRate l" by (rule level_later [OF Cons.prems(2) c(1)])
  moreover have "of_int (now - c) / 1000000000 * lmRate l + of_int (c' - now) / 1000000000 * lmRate l = of_int (c' - c) / 1000000000 * lmRate l"
    by (simp add: field_simps)
  ultimately have "of_nat (passes key out) + level key c' l' \<le> level key c l + of_int (c' - c) / 1000000000 * lmRate l"
    using c'(2) step(1) by linarith
  moreover have "c' = last (c # map snd (call # calls))" using c'(1) call by simp
  ultimately show ?case using c'(3-5) by blast
qed

text \<open>
  C40: the rate. In exact arithmetic, whatever was asked before and by others, the requests of a key that pass in a
  stretch of time are at most the burst and what the rate gives for that time.
\<close>

theorem rate_is_bounded:
  assumes "0 < perMinute" and "0 < burst" and "serve (\<lambda>x. x) earlier (NewLimiter (\<lambda>x. x) perMinute burst) = (l, out0)"
    and "serve (\<lambda>x. x) calls l = (l', out)" and "sorted (map snd (earlier @ calls))" and "\<forall>t\<in>snd ` set (earlier @ calls). 0 \<le> t \<and> t < 2 ^ 62"
    and "calls \<noteq> []"
  shows "of_nat (passes key out) \<le> of_int burst + of_int (snd (last calls) - snd (hd calls)) / 1000000000 * (of_int perMinute / (60 :: rat))"
proof -
  let ?l0 = "NewLimiter (\<lambda>x. x) perMinute burst"
  have l0: "limiter_ok 0 ?l0" "lmRate ?l0 = of_int perMinute / 60" "lmBurst ?l0 = of_int burst"
    using assms(1,2) by (simp_all add: limiter_ok_def NewLimiter_def)
  have "sorted (0 # map snd earlier)" "\<forall>t\<in>snd ` set earlier. t < 2 ^ 62" using assms(5,6) by (auto simp: sorted_append)
  from serve_level [OF assms(3) l0(1) order_refl this] obtain c where c: "c = last (0 # map snd earlier)" "limiter_ok c l" "lmRate l = lmRate ?l0" "lmBurst l = lmBurst ?l0"
    by blast
  let ?t = "snd (hd calls)"
  have ct: "c \<le> ?t" "0 \<le> ?t" "?t < 2 ^ 62"
    using c(1) assms(5-7) by (auto simp: sorted_append last_map hd_in_set split: if_splits)
  have ok: "limiter_ok ?t l" by (rule limiter_ok_later [OF c(2) ct(1,3)])
  have "sorted (?t # map snd calls)" "\<forall>t\<in>snd ` set calls. t < 2 ^ 62" using assms(5-7) by (cases calls; auto simp: sorted_append)+
  from serve_level [OF assms(4) ok ct(2) this, of key] obtain c' where c': "c' = last (?t # map snd calls)"
    "of_nat (passes key out) + level key c' l' \<le> level key ?t l + of_int (c' - ?t) / 1000000000 * lmRate l" "limiter_ok c' l'" by blast
  have "c' = snd (last calls)" using c'(1) assms(7) by (simp add: last_map)
  moreover have "0 \<le> level key c' l'" "level key ?t l \<le> lmBurst l" using level_bounds [OF c'(3)] level_bounds [OF ok] by blast+
  ultimately show ?thesis using c'(2) c(3,4) l0(2,3) by simp
qed

text \<open>
  Behind a proxy the caller's address cannot be forged: whatever the client writes into the header, the address
  the proxy appends is the one the limit counts.
\<close>

theorem proxy_address_unforgeable:
  assumes "ip \<noteq> ''''" and "CHR '','' \<notin> set ip" and "\<forall>c\<in>set ip. \<not> is_space c"
  shows "ClientIP True (forged @ '', '' @ ip) remoteAddr = ip \<and> ClientIP True ip remoteAddr = ip"
proof -
  have none: "dropWhile is_space ip = ip" "dropWhile is_space (rev ip) = rev ip"
    using assms(3) by (auto simp: dropWhile_eq_self_iff hd_in_set hd_rev)
  have tw: "takeWhile (\<lambda>c. c \<noteq> CHR '','') (rev ip @ rest) = rev ip @ takeWhile (\<lambda>c. c \<noteq> CHR '','') rest" for rest
    by (rule takeWhile_append2) (use assms(2) in auto)
  have "rev (takeWhile (\<lambda>c. c \<noteq> CHR '','') (rev (forged @ '', '' @ ip))) = CHR '' '' # ip" by (simp add: tw)
  moreover have "rev (takeWhile (\<lambda>c. c \<noteq> CHR '','') (rev ip)) = ip" using tw [of "[]"] by (simp only: append_Nil2 takeWhile.simps rev_rev_ident)
  moreover have "is_space (CHR '' '')" by (simp add: is_space_def)
  ultimately show ?thesis using none assms(1) by (simp add: ClientIP_def lastEntry_def TrimSpace_def)
qed

theorem rate_is_bounded_witness:
  "passes ''a'' (snd (serve (\<lambda>x. x) (replicate 5 (''a'', 0)) (NewLimiter (\<lambda>x. x) 60 3))) \<le> 3"
proof -
  let ?calls = "replicate 5 (''a'', 0 :: int)"
  obtain l' out where s: "serve (\<lambda>x. x) ?calls (NewLimiter (\<lambda>x. x) 60 3) = (l', out)" by fastforce
  have "sorted (map snd ([] @ ?calls))" "\<forall>t\<in>snd ` set ([] @ ?calls). 0 \<le> t \<and> t < 2 ^ 62" "?calls \<noteq> []" by simp_all
  from rate_is_bounded [OF _ _ _ s this, where perMinute = 60 and burst = 3 and ?out0.0 = "[]" and key = "''a''"]
  have "of_nat (passes ''a'' out) \<le> (3 :: rat)" by simp
  then have "passes ''a'' out \<le> 3" by (simp only: of_nat_le_iff [where 'a = rat, symmetric] of_nat_numeral)
  then show ?thesis using s by simp
qed

theorem proxy_address_unforgeable_witness: "ClientIP True (''6.6.6.6'' @ '', '' @ ''203.0.113.9'') ''10.0.0.1:5555'' = ''203.0.113.9''"
  using proxy_address_unforgeable [of "''203.0.113.9''" "''6.6.6.6''" "''10.0.0.1:5555''"] by (simp add: is_space_def)

end
