(* ===== verification/Orpay_Server.thy ===== *)
theory Orpay_Server
  imports Payment_Rails Orpay_Desk Orpay_Logos Rate_Limit
begin

text \<open>
  How the orPay backend is put together: apps/orpay/backend/main.go. The settings \<open>newServer\<close> derives from its
  configuration, the table of routes with the limiter and the authentication of each, and the wrappers every request passes.

  Opening the stores is in their theories; matching a request to a pattern is the standard library's.
\<close>

subsection \<open>Settings\<close>

record ServerConfig =
  scFaucetAmount :: string
  scFaucetWait :: int
  scFaucetKeyPath :: string
  scAdmins :: string
  scPublicURL :: string
  scDefaultCur :: string
  scCardPayments :: bool
  scPrivateHooks :: bool

record Settings =
  seAdmins :: "addr list"
  sePublicURL :: string
  seDefaultAsset :: string
  seCardPayments :: bool
  sePrivateHooks :: bool
  seFaucet :: "Faucet option"
  seSender :: string
  seDevOTP :: bool

text \<open>\<open>strings.Split\<close> at a character.\<close>

fun splitAll :: "char \<Rightarrow> string \<Rightarrow> string list" where
  "splitAll c [] = [[]]"
| "splitAll c (x # xs) = (if x = c then [] # splitAll c xs else (case splitAll c xs of [] \<Rightarrow> [[x]] | w # ws \<Rightarrow> (x # w) # ws))"

fun addAdmins :: "string list \<Rightarrow> err + addr list" where
  "addAdmins [] = Inr []"
| "addAdmins (w # ws) =
     (let a = TrimSpace w in
      if a = '''' then addAdmins ws
      else case Validate a of Some e \<Rightarrow> Inl (Wrap ''admin'' e)
      | None \<Rightarrow> map_sum id ((#) a) (addAdmins ws))"

definition defaultAsset :: "string \<Rightarrow> err + string" where
  "defaultAsset cur =
     (let c = map to_upper cur in
      if c = '''' \<or> c = ''ORP'' then Inr ''''
      else if ValidAsset c then Inr c else Inl (Err ''invalid default currency''))"

text \<open>The text messages' sender, and whether codes are shown instead of sent, by the environment.\<close>

definition smsSettings :: "string \<Rightarrow> string \<Rightarrow> string \<times> bool" where
  "smsSettings apiKey sender = (if apiKey \<noteq> '''' then (if sender = '''' then ''ORPay'' else sender, False) else ('''', True))"

text \<open>The faucet: on when there is a key; \<open>store\<close> is the error of opening its file, if any.\<close>

definition faucetOf :: "err + 'k option \<Rightarrow> err option \<Rightarrow> ServerConfig \<Rightarrow> err + ('k \<times> Faucet) option" where
  "faucetOf key store cfg =
     (case key of Inl e \<Rightarrow> Inl e
      | Inr None \<Rightarrow> Inr None
      | Inr (Some k) \<Rightarrow>
        (case ParseAmount (scFaucetAmount cfg) of Inl e \<Rightarrow> Inl e
         | Inr amt \<Rightarrow> (case store of Some e \<Rightarrow> Inl e | None \<Rightarrow> Inr (Some (k, \<lparr>fcAmount = amt, fcCooldown = scFaucetWait cfg\<rparr>)))))"

definition newSettings :: "err + 'k option \<Rightarrow> err option \<Rightarrow> string \<Rightarrow> string \<Rightarrow> ServerConfig \<Rightarrow> err + Settings" where
  "newSettings key store apiKey sender cfg =
     (case defaultAsset (scDefaultCur cfg) of Inl e \<Rightarrow> Inl e
      | Inr asset \<Rightarrow>
        (case addAdmins (splitAll (CHR '','') (scAdmins cfg)) of Inl e \<Rightarrow> Inl e
         | Inr admins \<Rightarrow>
           (case faucetOf key store cfg of Inl e \<Rightarrow> Inl e
            | Inr f \<Rightarrow> Inr \<lparr>seAdmins = admins, sePublicURL = trimRight (CHR ''/'') (scPublicURL cfg), seDefaultAsset = asset,
                seCardPayments = scCardPayments cfg, sePrivateHooks = scPrivateHooks cfg, seFaucet = map_option snd f,
                seSender = fst (smsSettings apiKey sender), seDevOTP = snd (smsSettings apiKey sender)\<rparr>)))"

text \<open>\<open>config\<close>: whether there is a faucet, and its amount.\<close>

definition configReply :: "Settings \<Rightarrow> nat \<times> bool \<times> amount option" where
  "configReply s = (200, seFaucet s \<noteq> None, map_option fcAmount (seFaucet s))"

subsection \<open>Routes\<close>

text \<open>
  Who may call: anyone, the holder of an address signing a request of at most so many bytes, or an approved app by its key.
\<close>

datatype Access = Public | SignedBy nat | ApiKey

text \<open>A route: method, pattern, requests a minute and burst of its own limiter, access, and the handler's name.\<close>

record Route =
  rtMethod :: string
  rtPattern :: string
  rtLimit :: "(int \<times> int) option"
  rtAccess :: Access
  rtHandler :: string

definition on :: "string \<Rightarrow> string \<Rightarrow> (int \<times> int) option \<Rightarrow> Access \<Rightarrow> string \<Rightarrow> Route" where
  "on meth pattern limit access handler =
     \<lparr>rtMethod = meth, rtPattern = pattern, rtLimit = limit, rtAccess = access, rtHandler = handler\<rparr>"

definition routes :: "Route list" where
  "routes = [
    on ''GET'' ''/api/config'' None Public ''config'',
    on ''GET'' ''/api/users/{name}'' None Public ''resolve'',
    on ''GET'' ''/api/addresses/{addr}'' None Public ''lookup'',
    on ''POST'' ''/api/users'' (Some (10, 3)) Public ''register'',
    on ''POST'' ''/api/faucet'' (Some (5, 2)) Public ''drip'',
    on ''POST'' ''/api/apps'' (Some (5, 2)) (SignedBy (16 * 1024)) ''requestApp'',
    on ''GET'' ''/api/apps'' None (SignedBy (16 * 1024)) ''listApps'',
    on ''GET'' ''/api/apps/{id}'' None Public ''publicApp'',
    on ''GET'' ''/api/apps/{id}/logo'' None Public ''serveLogo'',
    on ''POST'' ''/api/apps/{id}/logo'' (Some (10, 3)) (SignedBy (16 * 1024)) ''refreshLogoHandler'',
    on ''POST'' ''/api/apps/{id}/review'' (Some (30, 10)) (SignedBy (16 * 1024)) ''reviewApp'',
    on ''POST'' ''/api/apps/{id}/keys'' (Some (10, 3)) (SignedBy (16 * 1024)) ''rotateKey'',
    on ''GET'' ''/api/apps/{id}/dashboard'' None (SignedBy (16 * 1024)) ''appDashboard'',
    on ''POST'' ''/api/apps/{id}/settings'' (Some (30, 10)) (SignedBy (16 * 1024)) ''updateApp'',
    on ''POST'' ''/api/v1/checkout'' (Some (120, 40)) ApiKey ''createCheckout'',
    on ''GET'' ''/api/v1/checkout'' None ApiKey ''listCheckouts'',
    on ''GET'' ''/api/v1/checkout/{id}'' None ApiKey ''getCheckout'',
    on ''POST'' ''/api/v1/escrows'' (Some (120, 40)) ApiKey ''createEscrowRequest'',
    on ''GET'' ''/api/v1/escrows'' None ApiKey ''listAppEscrows'',
    on ''GET'' ''/api/v1/escrows/{id}'' None ApiKey ''getAppEscrow'',
    on ''POST'' ''/api/v1/escrows/{id}/cancel'' (Some (60, 20)) ApiKey ''cancelAppEscrow'',
    on ''GET'' ''/api/escrow-requests/{id}'' None Public ''getEscrowRequest'',
    on ''POST'' ''/api/escrow-terms'' (Some (30, 10)) Public ''postTerms'',
    on ''GET'' ''/api/escrow-terms/{hash}'' None Public ''getTerms'',
    on ''POST'' ''/api/escrows/{id}/messages'' (Some (30, 10)) (SignedBy (40 * 2 ^ 20)) ''postEscrowMessage'',
    on ''GET'' ''/api/escrows/{id}/messages'' None (SignedBy (16 * 1024)) ''listEscrowMessages'',
    on ''GET'' ''/api/escrow-files/{id}'' None Public ''serveEvidence'',
    on ''GET'' ''/api/push/key'' None Public ''pushKey'',
    on ''POST'' ''/api/push/subscribe'' (Some (20, 5)) (SignedBy (16 * 1024)) ''pushSubscribe'',
    on ''POST'' ''/api/push/unsubscribe'' (Some (20, 5)) (SignedBy (16 * 1024)) ''pushUnsubscribe'',
    on ''POST'' ''/api/ajo-invites'' (Some (20, 5)) (SignedBy (16 * 1024)) ''createDraft'',
    on ''GET'' ''/api/ajo-invites'' None (SignedBy (16 * 1024)) ''myDrafts'',
    on ''GET'' ''/api/ajo-invites/{id}'' None Public ''getDraft'',
    on ''POST'' ''/api/ajo-invites/{id}/join'' (Some (30, 10)) (SignedBy (16 * 1024)) ''joinDraft'',
    on ''POST'' ''/api/ajo-invites/{id}/leave'' (Some (30, 10)) (SignedBy (16 * 1024)) ''leaveDraft'',
    on ''POST'' ''/api/ajo-invites/{id}/order'' (Some (30, 10)) (SignedBy (16 * 1024)) ''orderDraft'',
    on ''POST'' ''/api/ajo-invites/{id}/delete'' (Some (20, 5)) (SignedBy (16 * 1024)) ''deleteDraft'',
    on ''POST'' ''/api/ajo-invites/{id}/remove'' (Some (30, 10)) (SignedBy (16 * 1024)) ''removeFromDraft'',
    on ''POST'' ''/api/pools/{id}/nudge'' (Some (20, 5)) (SignedBy (16 * 1024)) ''nudgePool'',
    on ''POST'' ''/api/ajo-invites/{id}/started'' (Some (30, 10)) (SignedBy (16 * 1024)) ''startedDraft'',
    on ''POST'' ''/api/escrow-links'' (Some (20, 5)) (SignedBy (16 * 1024)) ''createEscrowLink'',
    on ''GET'' ''/api/escrow-links'' None (SignedBy (16 * 1024)) ''myEscrowLinks'',
    on ''POST'' ''/api/escrow-links/{id}/cancel'' (Some (20, 5)) (SignedBy (16 * 1024)) ''cancelEscrowLink'',
    on ''GET'' ''/api/arbiters'' None Public ''listArbiters'',
    on ''GET'' ''/api/arbiters/all'' None (SignedBy (16 * 1024)) ''pendingArbiters'',
    on ''POST'' ''/api/arbiters/apply'' (Some (10, 3)) (SignedBy (16 * 1024)) ''applyArbiter'',
    on ''POST'' ''/api/arbiters/{addr}/review'' (Some (30, 10)) (SignedBy (16 * 1024)) ''reviewArbiter'',
    on ''POST'' ''/api/escrows/{id}/rate-arbiter'' (Some (20, 5)) (SignedBy (16 * 1024)) ''rateArbiter'',
    on ''POST'' ''/api/escrows/{id}/rate-seller'' (Some (20, 5)) (SignedBy (16 * 1024)) ''rateSeller'',
    on ''GET'' ''/api/escrows/{id}/my-review'' None (SignedBy (16 * 1024)) ''myReview'',
    on ''POST'' ''/api/referrals'' (Some (10, 3)) (SignedBy (16 * 1024)) ''recordReferral'',
    on ''GET'' ''/api/referrals'' None (SignedBy (16 * 1024)) ''myReferrals'',
    on ''POST'' ''/api/couriers/{name}/webhook'' (Some (120, 40)) Public ''courierWebhook'',
    on ''GET'' ''/api/trust/{who}'' (Some (120, 30)) Public ''getTrust'',
    on ''GET'' ''/api/signin'' None (SignedBy (16 * 1024)) ''signInStatus'',
    on ''POST'' ''/api/signin'' (Some (10, 3)) (SignedBy (16 * 1024)) ''setSignIn'',
    on ''DELETE'' ''/api/signin'' (Some (10, 3)) (SignedBy (16 * 1024)) ''deleteSignIn'',
    on ''POST'' ''/api/signin/salt'' (Some (20, 5)) Public ''signInSalt'',
    on ''POST'' ''/api/signin/open'' (Some (30, 8)) Public ''openSignIn'',
    on ''POST'' ''/api/phone/link'' (Some (10, 3)) (SignedBy (16 * 1024)) ''startLink'',
    on ''POST'' ''/api/phone/link/verify'' (Some (20, 5)) (SignedBy (16 * 1024)) ''verifyLink'',
    on ''GET'' ''/api/phone'' None (SignedBy (16 * 1024)) ''myPhone'',
    on ''GET'' ''/api/phones/{phone}'' (Some (30, 10)) Public ''resolvePhone'',
    on ''POST'' ''/api/recovery/start'' (Some (10, 3)) Public ''startRecover'',
    on ''POST'' ''/api/recovery/verify'' (Some (20, 5)) Public ''verifyRecover'',
    on ''GET'' ''/api/recovery/requests'' None (SignedBy (16 * 1024)) ''guardianRequests'',
    on ''POST'' ''/api/recovery/migrate'' (Some (10, 3)) (SignedBy (16 * 1024)) ''migrateIdentity'',
    on ''GET'' ''/api/invoices/{id}'' None Public ''getInvoice'']"

text \<open>
  What a request passes before its handler: the headers of \<open>cors\<close> (a preflight ends there with 204), the limiter of all
  requests, then the route's own. Limiters are those of \<open>Rate_Limit\<close>; a refusal is a 429 with the seconds to wait.
\<close>

datatype Passage = Preflight | TooMany int | Through

definition pass :: "(rat \<Rightarrow> rat) \<Rightarrow> int \<Rightarrow> bool \<Rightarrow> string \<Rightarrow> string \<Rightarrow> string \<Rightarrow> Limiter \<Rightarrow> Limiter option \<Rightarrow> Passage \<times> Limiter \<times> Limiter option" where
  "pass rnd now trustProxy meth xff remoteAddr global own =
     (if meth = ''OPTIONS'' then (Preflight, global, own)
      else case Middleware rnd now trustProxy xff remoteAddr global of
        (g, Some wait) \<Rightarrow> (TooMany wait, g, own)
      | (g, None) \<Rightarrow>
        (case own of None \<Rightarrow> (Through, g, None)
         | Some l \<Rightarrow>
           (case Middleware rnd now trustProxy xff remoteAddr l of
              (l', Some wait) \<Rightarrow> (TooMany wait, g, Some l')
            | (l', None) \<Rightarrow> (Through, g, Some l'))))"

definition globalLimiter :: "(rat \<Rightarrow> rat) \<Rightarrow> Limiter" where
  "globalLimiter rnd = NewLimiter rnd 300 60"

definition ownLimiter :: "(rat \<Rightarrow> rat) \<Rightarrow> Route \<Rightarrow> Limiter option" where
  "ownLimiter rnd r = map_option (\<lambda>(perMin, burst). NewLimiter rnd perMin burst) (rtLimit r)"

subsection \<open>What the table guarantees\<close>

text \<open>
  Every request that can change state runs behind a limiter of its own, and is signed or made with an app's key, but for the
  eight handlers that check their callers themselves or serve callers without a wallet.
\<close>

lemma writes_guarded:
  "list_all (\<lambda>r. rtMethod r \<noteq> ''GET'' \<longrightarrow> rtLimit r \<noteq> None \<and>
     (rtAccess r = Public \<longrightarrow> rtHandler r \<in> {''register'', ''drip'', ''postTerms'', ''courierWebhook'', ''signInSalt'', ''openSignIn'',
        ''startRecover'', ''verifyRecover''})) routes"
  by (simp add: routes_def on_def)

text \<open>Administrators are valid addresses of the list, in its order.\<close>

lemma addAdmins_valid: "addAdmins ws = Inr as \<Longrightarrow> as = filter (\<lambda>a. a \<noteq> '''') (map TrimSpace ws) \<and> list_all (\<lambda>a. Validate a = None) as"
proof (induction ws arbitrary: as)
  case Nil
  then show ?case by simp
next
  case (Cons w ws)
  show ?case
  proof (cases "TrimSpace w = ''''")
    case True
    then show ?thesis using Cons.IH [of as] Cons.prems by auto
  next
    case False
    then obtain bs where "Validate (TrimSpace w) = None" "addAdmins ws = Inr bs" "as = TrimSpace w # bs"
      using Cons.prems by (cases "addAdmins ws") (auto simp: Let_def split: option.splits)
    then show ?thesis using Cons.IH [of bs] False by auto
  qed
qed

end
