(* ===== verification/Node_Process.thy ===== *)
theory Node_Process
  imports Node_Api Abci Encoding_Properties
begin

text \<open>
  The node as a process: node/cmd/openreserved. A producer ticks (\<open>produce\<close>), a replica follows an
  upstream node (\<open>replicate\<close>) and passes transactions on to it (\<open>forwardSubmits\<close>), a validator hands them to
  CometBFT (\<open>startCometBFT\<close>), and every node reports its health. Loops are given by their rounds; what the network
  answers is an argument of each round.
\<close>

subsection \<open>Health\<close>

record Health =
  hlRole :: string
  hlLastBeat :: int
  hlStarted :: int

text \<open>Beats in milliseconds, the clock in nanoseconds.\<close>

definition beat :: "int \<Rightarrow> Health \<Rightarrow> Health" where
  "beat now h = h\<lparr>hlLastBeat := now div 1000000\<rparr>"

definition maxAge :: "Health \<Rightarrow> int" where
  "maxAge h = (if hlRole h = ''replica'' then 90 else 10) * 1000000000"

text \<open>The free space of the disk: blocks times block size, a \<open>uint64\<close> product; \<open>None\<close> when it cannot be asked.\<close>

definition problems :: "int \<Rightarrow> (64 word \<times> 64 word) option \<Rightarrow> Health \<Rightarrow> string list" where
  "problems now fs h =
     (if now - hlLastBeat h * 1000000 > maxAge h \<and> now - hlStarted h > maxAge h then [hlRole h @ '' loop stalled''] else []) @
     (case fs of None \<Rightarrow> []
      | Some (avail, bsize) \<Rightarrow>
          if avail * bsize < 512 * 2 ^ 20
          then [''low disk space: '' @ showNat (unat (drop_bit 20 (avail * bsize))) @ '' MB free''] else [])"

definition healthz :: "(bytes \<Rightarrow> hash) \<Rightarrow> (Genesis \<Rightarrow> hash) \<Rightarrow> int \<Rightarrow> (64 word \<times> 64 word) option \<Rightarrow> Health \<Rightarrow> Chain \<Rightarrow>
    (bool \<times> string list \<times> string \<times> 64 word) response" where
  "healthz sha ghash now fs h c =
     (let p = problems now fs h
      in writeJSON (if p = [] then 200 else 503) (p = [], p, hlRole h, Height c))"

subsection \<open>The producer\<close>

definition produceTick :: "(bytes \<Rightarrow> hash) \<Rightarrow> (bytes \<Rightarrow> bytes \<Rightarrow> bytes \<Rightarrow> bool) \<Rightarrow> ('k \<Rightarrow> bytes \<Rightarrow> bytes) \<Rightarrow> ('k \<Rightarrow> bytes) \<Rightarrow>
    (Genesis \<Rightarrow> hash) \<Rightarrow> err option \<Rightarrow> int \<Rightarrow> 'k \<Rightarrow> int \<Rightarrow> Chain \<times> Health \<Rightarrow> Chain \<times> Health" where
  "produceTick sha ed_verify ed_sign ed_pub ghash logErr now key tick ch =
     (case Produce sha ed_verify ed_sign ed_pub ghash logErr now key (tick div 1000000) (fst ch) of
        (c', Inl _) \<Rightarrow> (c', snd ch) | (c', Inr _) \<Rightarrow> (c', beat now (snd ch)))"

subsection \<open>The replica\<close>

text \<open>\<open>fetchBlocks\<close>: the upstream's answer, \<open>Inl\<close> when it could not be reached or its body not be decoded.\<close>

definition fetchBlocks :: "err + Block list response \<Rightarrow> err + Block list" where
  "fetchBlocks resp =
     (case resp of Inl e \<Rightarrow> Inl e
      | Inr (status, v) \<Rightarrow> if status \<noteq> 200 then Inl (Err ''upstream returned an error status'') else v)"

text \<open>The blocks of an answer, up to the first one rejected. \<open>logErr\<close> is the error of writing a block, if any.\<close>

fun addBlocks :: "(bytes \<Rightarrow> hash) \<Rightarrow> (bytes \<Rightarrow> bytes \<Rightarrow> bytes \<Rightarrow> bool) \<Rightarrow> (Genesis \<Rightarrow> hash) \<Rightarrow> (Block \<Rightarrow> err option) \<Rightarrow> Chain \<Rightarrow> Block list \<Rightarrow>
    Chain \<times> err option" where
  "addBlocks sha ed_verify ghash logErr c [] = (c, None)"
| "addBlocks sha ed_verify ghash logErr c (b # bs) =
     (case AddBlock sha ed_verify ghash (logErr b) c b of
        (c', Some e) \<Rightarrow> (c', Some (Wrap ''block rejected'' e))
      | (c', None) \<Rightarrow> addBlocks sha ed_verify ghash logErr c' bs)"

text \<open>One turn of the loop of \<open>replicate\<close>: the chain, the pause to wait if it failed, and whether it beat.\<close>

definition replicateRound :: "(bytes \<Rightarrow> hash) \<Rightarrow> (bytes \<Rightarrow> bytes \<Rightarrow> bytes \<Rightarrow> bool) \<Rightarrow> (Genesis \<Rightarrow> hash) \<Rightarrow> (Block \<Rightarrow> err option) \<Rightarrow>
    err + Block list response \<Rightarrow> Chain \<times> int \<Rightarrow> (Chain \<times> int) \<times> bool" where
  "replicateRound sha ed_verify ghash logErr resp cb =
     (case (case fetchBlocks resp of Inl e \<Rightarrow> (fst cb, Some e) | Inr blocks \<Rightarrow> addBlocks sha ed_verify ghash logErr (fst cb) blocks) of
        (c', Some e) \<Rightarrow> ((c', min (snd cb * 2) 30), False)
      | (c', None) \<Rightarrow> ((c', 1), True))"

text \<open>The query of a round, asked of a node that is at \<open>up\<close> when it answers.\<close>

definition askBlocks :: "Chain \<Rightarrow> bool \<Rightarrow> Chain \<Rightarrow> Block list response" where
  "askBlocks up timedOut c = apiBlocks up (showNat (unat (Height c + 1))) ''100'' ''30'' timedOut"

text \<open>
  \<open>forwardSubmits\<close>: \<open>body\<close> is the request's body or the error of reading it, \<open>upstream\<close> the upstream's reply to it.
  An accepted transaction is also kept locally; the reply is passed on as it is.
\<close>

definition forwardSubmits :: "(bytes \<Rightarrow> hash) \<Rightarrow> (bytes \<Rightarrow> bytes \<Rightarrow> bytes \<Rightarrow> bool) \<Rightarrow> (Genesis \<Rightarrow> hash) \<Rightarrow> (bytes \<Rightarrow> Tx option) \<Rightarrow> int \<Rightarrow> err + bytes \<Rightarrow>
    (bytes \<Rightarrow> (hash \<times> string) response) \<Rightarrow> Chain \<Rightarrow> Chain \<times> (hash \<times> string) response" where
  "forwardSubmits sha ed_verify ghash unmarshal clock body upstream c =
     (case body of Inl e \<Rightarrow> (c, writeErr 413 (Err ''request too large''))
      | Inr b \<Rightarrow>
        let reply = upstream b in
        (if fst reply = 202 then (case unmarshal b of None \<Rightarrow> c | Some tx \<Rightarrow> fst (Submit sha ed_verify ghash clock c tx)) else c, reply))"

subsection \<open>A validator\<close>

text \<open>What CometBFT's \<open>BroadcastTxSync\<close> answers.\<close>

datatype Broadcast = InCache | Unavailable err | Checked nat string

definition submitBFT :: "(bytes \<Rightarrow> hash) \<Rightarrow> (bytes \<Rightarrow> bytes \<Rightarrow> bytes \<Rightarrow> bool) \<Rightarrow> (Genesis \<Rightarrow> hash) \<Rightarrow> (bytes \<Rightarrow> Tx option) \<Rightarrow> int \<Rightarrow> err + bytes \<Rightarrow>
    (Tx \<Rightarrow> Broadcast) \<Rightarrow> Chain \<Rightarrow> Chain \<times> (hash \<times> string) response" where
  "submitBFT sha ed_verify ghash unmarshal clock body rpc c =
     (case body of Inl e \<Rightarrow> (c, writeErr 400 e)
      | Inr b \<Rightarrow>
      (case DecodeTx unmarshal b of Inl e \<Rightarrow> (c, writeErr 400 e)
       | Inr tx \<Rightarrow>
         let (c1, tid, err) = Submit sha ed_verify ghash clock c tx; dup = (err = Some ErrDuplicate) in
         if err \<noteq> None \<and> \<not> dup then (c1, writeErr 422 (the err))
         else case rpc tx of
           InCache \<Rightarrow> (c1, writeJSON 200 (tid, ''duplicate''))
         | Unavailable e \<Rightarrow> (Forget tid c1, writeErr 503 (Wrap ''consensus unavailable'' e))
         | Checked code log \<Rightarrow>
             if code \<noteq> 0 then (Forget tid c1, writeErr 422 (Err log))
             else (c1, if dup then writeJSON 200 (tid, ''duplicate'') else writeJSON 202 (tid, ''pending''))))"

subsection \<open>Starting\<close>

datatype Mode = Producer | Replica | Validator

text \<open>Exactly one mode is asked for; it fits the genesis, and a producer's key is the genesis proposer's.\<close>

definition oneMode :: "addr option \<Rightarrow> string \<Rightarrow> string \<Rightarrow> err option" where
  "oneMode key follow cometHome =
     (if length (filter (\<lambda>on. on) [key \<noteq> None, follow \<noteq> '''', cometHome \<noteq> '''']) \<noteq> 1
      then Some (Err ''give exactly one of: a proposer key, -follow URL, or -cometbft-home DIR'') else None)"

definition chooseMode :: "Genesis \<Rightarrow> addr option \<Rightarrow> string \<Rightarrow> err + Mode" where
  "chooseMode g key cometHome =
     (if BFT g \<noteq> (cometHome \<noteq> '''') then Inl (Err ''genesis consensus and node mode disagree'')
      else if cometHome \<noteq> '''' then Inr Validator
      else case key of Some a \<Rightarrow> if a \<noteq> gnProposer g then Inl (Err ''key is not the genesis proposer'') else Inr Producer
      | None \<Rightarrow> Inr Replica)"

subsection \<open>Chains that verify, block by block\<close>

text \<open>Replaying a chain passes through its first \<open>n\<close> blocks.\<close>

lemma openLoop_prefix:
  assumes "openLoop sha ed_verify ghash None bs c = Inr e"
  obtains d where "openLoop sha ed_verify ghash None (take n bs) c = Inr d" "openLoop sha ed_verify ghash None (drop n bs) d = Inr e"
  using assms openLoop_split [of sha ed_verify ghash "take n bs" "drop n bs" c] that by (auto split: sum.splits)

text \<open>With failing writes, the blocks before the first failure are taken.\<close>

lemma addBlocks_prefix:
  assumes "openLoop sha ed_verify ghash None bs d = Inr e" and "same_chain d c"
  shows "\<exists>k d'. k \<le> length bs \<and> openLoop sha ed_verify ghash None (take k bs) d = Inr d' \<and>
    same_chain d' (fst (addBlocks sha ed_verify ghash logErr c bs)) \<and>
    ((\<forall>b. logErr b = None) \<longrightarrow> k = length bs)"
  using assms
proof (induction bs arbitrary: c d)
  case Nil
  then show ?case by simp
next
  case (Cons b bs)
  obtain nxt where v: "verify sha ed_verify ghash d b = Inr nxt"
    and rest: "openLoop sha ed_verify ghash None bs (commit sha b nxt d) = Inr e"
    using Cons.prems(1) by (auto split: sum.splits)
  have vc: "verify sha ed_verify ghash c b = Inr nxt" using v verify_cong [OF Cons.prems(2), of sha ed_verify ghash b] by simp
  show ?case
  proof (cases "logErr b")
    case None
    then have add: "AddBlock sha ed_verify ghash (logErr b) c b = (commit sha b nxt c, None)" using vc by (simp add: AddBlock_def)
    obtain k d' where "k \<le> length bs" "openLoop sha ed_verify ghash None (take k bs) (commit sha b nxt d) = Inr d'"
      "same_chain d' (fst (addBlocks sha ed_verify ghash logErr (commit sha b nxt c) bs))" "(\<forall>b. logErr b = None) \<longrightarrow> k = length bs"
      using Cons.IH [OF rest commit_cong [OF Cons.prems(2)]] by blast
    then show ?thesis using add v by (intro exI [of _ "Suc k"] exI [of _ d']) simp
  next
    case (Some x)
    then have "fst (addBlocks sha ed_verify ghash logErr c (b # bs)) = c" using vc by (simp add: AddBlock_def)
    then show ?thesis using Cons.prems(2) Some by (intro exI [of _ 0] exI [of _ d]) auto
  qed
qed

text \<open>The round trip of a query's number.\<close>

lemma uintValue_showNat: "n < 2 ^ 64 \<Longrightarrow> uintValue (showNat n) = of_nat n"
  using dval_showNat [of n] by (simp add: uintValue_def ParseUint_def del: of_nat_power)

lemma query_literals: "queryInt ''100'' 100 500 = 100" "queryInt ''30'' 0 60 = 30"
  by (simp_all add: queryInt_def ParseInt_def digits_def dval_def is_digit_def)

text \<open>An upstream asked in time answers the next hundred blocks it has.\<close>

lemma fetch_ask:
  assumes "length (chBlocks c) < 2 ^ 64 - 1" and "length (chBlocks up) < 2 ^ 64"
  shows "fetchBlocks (Inr (askBlocks up timedOut c)) = Inr (take 100 (drop (length (chBlocks c)) (chBlocks up)))"
proof -
  let ?n = "length (chBlocks c)"
  have h: "unat (Height c + 1) = ?n + 1" using assms unat_of_nat64 [of "?n + 1"] by (simp add: Height_def add.commute)
  have "uintValue (showNat (?n + 1)) = of_nat (?n + 1)" by (rule uintValue_showNat) (use assms in simp)
  then have u: "uintValue (showNat (unat (Height c + 1))) = Height c + 1" unfolding h by (simp add: Height_def add.commute)
  have "Height c + 1 \<noteq> 0" using h by force
  then have b: "Blocks up (Height c + 1) 100 = take 100 (drop ?n (chBlocks up))" using h by (simp add: Blocks_def Let_def)
  have "length (chBlocks up) \<le> ?n" if "Height up < Height c + 1"
    using that h assms unat_of_nat64 [of "length (chBlocks up)"] by (simp add: word_less_nat_alt Height_def)
  then show ?thesis
    unfolding askBlocks_def apiBlocks_def u query_literals Let_def by (auto simp: fetchBlocks_def writeJSON_def b)
qed

subsection \<open>Following a producer\<close>

text \<open>
  A replica's life beside the producer \<open>P\<close>: rounds that reach nobody, rounds answered by an upstream that had some of
  the producer's blocks, transactions passed on, restarts. \<open>n\<close> counts the rounds answered with all of them and no failing write.
\<close>

inductive follows :: "(bytes \<Rightarrow> hash) \<Rightarrow> (bytes \<Rightarrow> bytes \<Rightarrow> bytes \<Rightarrow> bool) \<Rightarrow> (Genesis \<Rightarrow> hash) \<Rightarrow> Chain \<Rightarrow> Chain \<Rightarrow> nat \<Rightarrow> Chain \<Rightarrow> bool"
  for sha ed_verify ghash P R0 where
  start: "follows sha ed_verify ghash P R0 0 R0"
| unreachable: "follows sha ed_verify ghash P R0 n R \<Longrightarrow>
    follows sha ed_verify ghash P R0 n (fst (fst (replicateRound sha ed_verify ghash logErr (Inl e) (R, pause))))"
| answered: "follows sha ed_verify ghash P R0 n R \<Longrightarrow> chBlocks up = take m (chBlocks P) \<Longrightarrow>
    follows sha ed_verify ghash P R0 (if chBlocks up = chBlocks P \<and> (\<forall>b. logErr b = None) then Suc n else n)
      (fst (fst (replicateRound sha ed_verify ghash logErr (Inr (askBlocks up timedOut R)) (R, pause))))"
| forward: "follows sha ed_verify ghash P R0 n R \<Longrightarrow>
    follows sha ed_verify ghash P R0 n (fst (forwardSubmits sha ed_verify ghash unmarshal clock body upstream R))"
| restart: "follows sha ed_verify ghash P R0 n R \<Longrightarrow> OpenChain sha ed_verify ghash (chGenesis R) None (chBlocks R) = Inr R' \<Longrightarrow>
    follows sha ed_verify ghash P R0 n R'"

lemma replicateRound_fst:
  "fst (fst (replicateRound sha ed_verify ghash logErr resp (R, pause))) =
    (case fetchBlocks resp of Inl e \<Rightarrow> R | Inr bs \<Rightarrow> fst (addBlocks sha ed_verify ghash logErr R bs))"
  by (auto simp: replicateRound_def split: sum.split prod.split option.split)

lemma forwardSubmits_same: "same_chain R (fst (forwardSubmits sha ed_verify ghash unmarshal clock body upstream R))"
  using Submit_core by (auto simp: forwardSubmits_def keeps_core_def Let_def split: sum.split option.split)

text \<open>Where a replica is: after the first \<open>k\<close> blocks of the producer.\<close>

definition at_block :: "(bytes \<Rightarrow> hash) \<Rightarrow> (bytes \<Rightarrow> bytes \<Rightarrow> bytes \<Rightarrow> bool) \<Rightarrow> (Genesis \<Rightarrow> hash) \<Rightarrow> Chain \<Rightarrow> Chain \<Rightarrow> nat \<Rightarrow> Chain \<Rightarrow> bool" where
  "at_block sha ed_verify ghash P R0 k R \<longleftrightarrow> k \<le> length (chBlocks P) \<and>
     (\<exists>d. openLoop sha ed_verify ghash None (take k (chBlocks P)) R0 = Inr d \<and> same_chain d R)"

lemma at_block_blocks:
  assumes "at_block sha ed_verify ghash P (emptyChain g s0) k R"
  shows "chBlocks R = take k (chBlocks P) \<and> chGenesis R = g"
proof -
  obtain d where d: "openLoop sha ed_verify ghash None (take k (chBlocks P)) (emptyChain g s0) = Inr d" "same_chain d R"
    using assms unfolding at_block_def by blast
  have "heights_ok (emptyChain g s0)" by (simp add: heights_ok_def emptyChain_def)
  from openLoop_heights [OF d(1) this] d(2) show ?thesis by (simp add: same_chain_def emptyChain_def)
qed

lemma at_block_round:
  assumes at: "at_block sha ed_verify ghash P R0 k R" and P: "openLoop sha ed_verify ghash None (chBlocks P) R0 = Inr e"
    and bs: "bs = take 100 (drop k (take m (chBlocks P)))"
  shows "\<exists>k'. at_block sha ed_verify ghash P R0 k' (fst (addBlocks sha ed_verify ghash logErr R bs)) \<and> k \<le> k' \<and>
    ((\<forall>b. logErr b = None) \<longrightarrow> k' = k + length bs)"
proof -
  obtain d where d: "openLoop sha ed_verify ghash None (take k (chBlocks P)) R0 = Inr d" "same_chain d R" and k: "k \<le> length (chBlocks P)"
    using at unfolding at_block_def by blast
  have join: "take k (chBlocks P) @ take j bs = take (k + j) (chBlocks P)" if "j \<le> length bs" for j
    using that k unfolding bs by (auto simp: take_add drop_take min_def split: if_splits)
  have n: "k + length bs \<le> length (chBlocks P)" using k unfolding bs by auto
  obtain f where "openLoop sha ed_verify ghash None (take (k + length bs) (chBlocks P)) R0 = Inr f"
    using openLoop_prefix [OF P] by blast
  then have "openLoop sha ed_verify ghash None bs d = Inr f"
    using join [of "length bs"] d(1) openLoop_split [of sha ed_verify ghash "take k (chBlocks P)" bs R0] by simp
  from addBlocks_prefix [OF this d(2)] obtain j d' where j: "j \<le> length bs"
    and d': "openLoop sha ed_verify ghash None (take j bs) d = Inr d'" "same_chain d' (fst (addBlocks sha ed_verify ghash logErr R bs))"
    and all: "(\<forall>b. logErr b = None) \<longrightarrow> j = length bs" by blast
  have "openLoop sha ed_verify ghash None (take (k + j) (chBlocks P)) R0 = Inr d'"
    using openLoop_split [of sha ed_verify ghash "take k (chBlocks P)" "take j bs" R0] d(1) d'(1) join [OF j] by simp
  then show ?thesis using d'(2) j n all by (intro exI [of _ "k + j"]) (auto simp: at_block_def)
qed

lemma follows_at_block:
  assumes "GenesisState g = Inr s0" and "replays sha ed_verify ghash P" and "chGenesis P = g" and "length (chBlocks P) < 2 ^ 64 - 1"
    and "follows sha ed_verify ghash P (emptyChain g s0) n R"
  shows "\<exists>k. at_block sha ed_verify ghash P (emptyChain g s0) k R \<and> min (length (chBlocks P)) (100 * n) \<le> k"
proof -
  obtain e where P: "openLoop sha ed_verify ghash None (chBlocks P) (emptyChain g s0) = Inr e"
    using assms(1-3) by (auto simp: replays_def)
  show ?thesis using assms(5)
  proof (induction rule: follows.induct)
    case start
    show ?case by (intro exI [of _ 0]) (simp add: at_block_def)
  next
    case (unreachable n R logErr e' pause)
    then show ?case by (simp add: replicateRound_fst fetchBlocks_def)
  next
    case (answered n R up m logErr timedOut pause)
    obtain k where k: "at_block sha ed_verify ghash P (emptyChain g s0) k R" "min (length (chBlocks P)) (100 * n) \<le> k"
      using answered.IH by blast
    have R: "length (chBlocks R) = k" using at_block_blocks [OF k(1)] k(1) by (simp add: at_block_def)
    have kP: "k \<le> length (chBlocks P)" using k(1) by (simp add: at_block_def)
    let ?bs = "take 100 (drop k (take m (chBlocks P)))"
    have "fetchBlocks (Inr (askBlocks up timedOut R)) = Inr ?bs"
      using fetch_ask [of R up timedOut] R kP assms(4) answered.hyps(2) by simp
    then have fst: "fst (fst (replicateRound sha ed_verify ghash logErr (Inr (askBlocks up timedOut R)) (R, pause))) =
        fst (addBlocks sha ed_verify ghash logErr R ?bs)" by (simp add: replicateRound_fst)
    obtain k' where k': "at_block sha ed_verify ghash P (emptyChain g s0) k' (fst (addBlocks sha ed_verify ghash logErr R ?bs))" "k \<le> k'"
      "(\<forall>b. logErr b = None) \<longrightarrow> k' = k + length ?bs" using at_block_round [OF k(1) P refl] by blast
    show ?case
    proof (cases "chBlocks up = chBlocks P \<and> (\<forall>b. logErr b = None)")
      case True
      then have "take m (chBlocks P) = chBlocks P" using answered.hyps(2) by simp
      then have "k' = k + min (length (chBlocks P) - k) 100" using k'(3) True by simp
      then show ?thesis unfolding fst using k'(1) k(2) True kP by (intro exI [of _ k']) auto
    next
      case False
      then show ?thesis unfolding fst using k' k(2) by (intro exI [of _ k']) auto
    qed
  next
    case (forward n R unmarshal clock body upstream)
    then show ?case using same_chain_trans [OF _ forwardSubmits_same] unfolding at_block_def by blast
  next
    case (restart n R R')
    obtain k where k: "at_block sha ed_verify ghash P (emptyChain g s0) k R" "min (length (chBlocks P)) (100 * n) \<le> k"
      using restart.IH by blast
    then obtain d where d: "openLoop sha ed_verify ghash None (take k (chBlocks P)) (emptyChain g s0) = Inr d" "same_chain d R"
      unfolding at_block_def by blast
    have "replays sha ed_verify ghash R"
      using d assms(1) at_block_blocks [OF k(1)] same_chain_sym [OF d(2)] by (auto simp: replays_def)
    from OpenChain_None [OF this] obtain d2 where "OpenChain sha ed_verify ghash (chGenesis R) None (chBlocks R) = Inr d2" "same_chain R d2" by blast
    then have "same_chain d R'" using restart.hyps(2) same_chain_trans [OF d(2)] by auto
    then show ?case using k d(1) unfolding at_block_def by blast
  qed
qed

subsection \<open>An upstream that may lie\<close>

text \<open>A replica that is answered anything.\<close>

inductive replicates :: "(bytes \<Rightarrow> hash) \<Rightarrow> (bytes \<Rightarrow> bytes \<Rightarrow> bytes \<Rightarrow> bool) \<Rightarrow> (Genesis \<Rightarrow> hash) \<Rightarrow> Chain \<Rightarrow> Chain \<Rightarrow> bool" for sha ed_verify ghash R0 where
  start: "replicates sha ed_verify ghash R0 R0"
| round: "replicates sha ed_verify ghash R0 R \<Longrightarrow>
    replicates sha ed_verify ghash R0 (fst (fst (replicateRound sha ed_verify ghash logErr resp (R, pause))))"
| forward: "replicates sha ed_verify ghash R0 R \<Longrightarrow>
    replicates sha ed_verify ghash R0 (fst (forwardSubmits sha ed_verify ghash unmarshal clock body upstream R))"

lemma addBlocks_replays:
  "replays sha ed_verify ghash c \<Longrightarrow> replays sha ed_verify ghash (fst (addBlocks sha ed_verify ghash logErr c bs)) \<and>
    chGenesis (fst (addBlocks sha ed_verify ghash logErr c bs)) = chGenesis c"
proof (induction bs arbitrary: c)
  case Nil
  then show ?case by simp
next
  case (Cons b bs)
  show ?case
  proof (cases "AddBlock sha ed_verify ghash (logErr b) c b")
    case (Pair c' err)
    then have c': "replays sha ed_verify ghash c' \<and> chGenesis c' = chGenesis c"
      using Cons.prems replays_commit by (auto simp: AddBlock_def split: sum.splits option.splits)
    show ?thesis using Pair c' Cons.IH [of c'] by (cases err) auto
  qed
qed

lemma replicates_replays:
  assumes "GenesisState g = Inr s0" and "replicates sha ed_verify ghash (emptyChain g s0) R"
  shows "replays sha ed_verify ghash R \<and> chGenesis R = g"
  using assms(2)
proof (induction rule: replicates.induct)
  case start
  then show ?case using replays_empty [OF assms(1)] by (simp add: emptyChain_def)
next
  case (round R logErr resp pause)
  then show ?case using addBlocks_replays [of sha ed_verify ghash R logErr] by (auto simp: replicateRound_fst split: sum.split)
next
  case (forward R unmarshal clock body upstream)
  have "same_chain R (fst (forwardSubmits sha ed_verify ghash unmarshal clock body upstream R))" by (rule forwardSubmits_same)
  then show ?case using forward.IH replays_same by (auto simp: same_chain_def)
qed

text \<open>Each block of a chain that replays was verified after those before it; the last one left the ledger the chain has.\<close>

lemma replays_verified:
  assumes "replays sha ed_verify ghash c" and i: "i < length (chBlocks c)"
  obtains d nxt where "chGenesis d = chGenesis c" "chBlocks d = take i (chBlocks c)" "verify sha ed_verify ghash d (chBlocks c ! i) = Inr nxt"
    "Suc i = length (chBlocks c) \<Longrightarrow> same_ledger nxt (chState c)"
proof -
  obtain s0 e where o: "openLoop sha ed_verify ghash None (chBlocks c) (emptyChain (chGenesis c) s0) = Inr e" and s: "same_chain c e"
    using assms(1) by (auto simp: replays_def)
  obtain d where d: "openLoop sha ed_verify ghash None (take i (chBlocks c)) (emptyChain (chGenesis c) s0) = Inr d"
    "openLoop sha ed_verify ghash None (drop i (chBlocks c)) d = Inr e" using openLoop_prefix [OF o] .
  have "heights_ok (emptyChain (chGenesis c) s0)" by (simp add: heights_ok_def emptyChain_def)
  from openLoop_heights [OF d(1) this] have db: "chGenesis d = chGenesis c" "chBlocks d = take i (chBlocks c)"
    by (simp_all add: emptyChain_def)
  have cut: "drop i (chBlocks c) = chBlocks c ! i # drop (Suc i) (chBlocks c)" using i by (simp add: Cons_nth_drop_Suc)
  then obtain nxt where v: "verify sha ed_verify ghash d (chBlocks c ! i) = Inr nxt"
    and rest: "openLoop sha ed_verify ghash None (drop (Suc i) (chBlocks c)) (commit sha (chBlocks c ! i) nxt d) = Inr e"
    using d(2) by (auto split: sum.splits)
  have "same_ledger nxt (chState c)" if "Suc i = length (chBlocks c)"
  proof -
    have "e = commit sha (chBlocks c ! i) nxt d" using rest that by simp
    then show ?thesis using s same_ledger_sym by (simp add: same_chain_def)
  qed
  with that db v show thesis by blast
qed

lemma verify_facts:
  assumes "verify sha ed_verify ghash c b = Inr nxt"
  shows "hChainID (bHeader b) = gnChainID (chGenesis c) \<and> hPrevHash (bHeader b) = tiHash (tipLocked sha ghash c) \<and>
    Root sha nxt = Inr (hStateRoot (bHeader b)) \<and>
    (\<not> BFT (chGenesis c) \<longrightarrow> hProposer (bHeader b) = gnProposer (chGenesis c) \<and> VerifySig ed_verify b = None)"
  using assms verify_header [OF assms]
  by (auto simp: verify_def checkHeader_def Let_def split: if_splits option.splits sum.splits)

lemma Root_same_ledger: "same_ledger s t \<Longrightarrow> Root sha s = Root sha t"
proof -
  assume s: "same_ledger s t"
  have "Root sha (u\<lparr>stNow := x\<rparr>) = Root sha u" for u :: State and x by (simp add: Root_def rootBytes_def rootSupply_def)
  from this [of 0 s] this [of 0 t] s [unfolded same_ledger_def] show ?thesis by simp
qed

lemma Root_hash: "Root sha s = Inr r \<Longrightarrow> \<exists>x. r = sha x"
  by (auto simp: Root_def split: option.splits)

text \<open>Headers with the same signed bytes on the same chain are at the same height.\<close>

lemma header_bytes_height:
  assumes "headerSignBytes h = headerSignBytes k" and "hChainID h = hChainID k"
  shows "hHeight h = hHeight k"
proof -
  have "u64be (hHeight h) @ hPrevHash h @ e64i (hTime h) @ hTxRoot h @ hStateRoot h @ estr (hProposer h) =
      u64be (hHeight k) @ hPrevHash k @ e64i (hTime k) @ hTxRoot k @ hStateRoot k @ estr (hProposer k)"
    using assms by (simp add: headerSignBytes_def)
  from u64_code.enc_cancel [OF TrueI TrueI this] show ?thesis by blast
qed

lemma header_bytes_root:
  assumes "headerSignBytes h = headerSignBytes k" and "hChainID h = hChainID k" and "hPrevHash h = hPrevHash k" and "hProposer h = hProposer k"
    and "length (hStateRoot h) = length (hStateRoot k)"
  shows "hStateRoot h = hStateRoot k"
proof -
  have "e64i (hTime h) @ hTxRoot h @ hStateRoot h = e64i (hTime k) @ hTxRoot k @ hStateRoot k"
    using assms(1-4) header_bytes_height [OF assms(1,2)] by (simp add: headerSignBytes_def)
  moreover have "length (e64i v) = 8" for v by (simp add: e64i_def)
  ultimately have "hTxRoot h @ hStateRoot h = hTxRoot k @ hStateRoot k" by (metis append_eq_append_conv)
  then show ?thesis using assms(5) append_eq_append_conv by blast
qed

subsection \<open>Properties\<close>

text \<open>
  C20: a replica follows its producer. Whatever happens in between (rounds that reach nobody or a node that is
  behind, failing writes, restarts, transactions passed on), a replica has the producer's blocks up to some height; at the
  producer's height it has the producer's ledger; and it gets there: each round answered in full brings it a hundred
  blocks further.
\<close>

theorem replica_follows_producer:
  assumes "GenesisState g = Inr s0" and "node_run sha ed_verify ed_sign ed_pub ghash (emptyChain g s0) P" and "length (chBlocks P) < 2 ^ 64 - 1"
    and "follows sha ed_verify ghash P (emptyChain g s0) n R"
  shows "chBlocks R = take (length (chBlocks R)) (chBlocks P) \<and>
    (length (chBlocks R) = length (chBlocks P) \<or> length (chBlocks P) \<le> 100 * n \<longrightarrow> same_chain P R)"
proof -
  have P: "replays sha ed_verify ghash P" "chGenesis P = g" using node_run_replays [OF assms(1,2)] by simp_all
  obtain k where at: "at_block sha ed_verify ghash P (emptyChain g s0) k R" and k: "min (length (chBlocks P)) (100 * n) \<le> k"
    using follows_at_block [OF assms(1) P assms(3,4)] by blast
  have blocks: "chBlocks R = take k (chBlocks P)" "k \<le> length (chBlocks P)" using at_block_blocks [OF at] at by (simp_all add: at_block_def)
  have "same_chain P R" if "k = length (chBlocks P)"
  proof -
    have "take k (chBlocks P) = chBlocks P" using that by simp
    then obtain d where "openLoop sha ed_verify ghash None (chBlocks P) (emptyChain g s0) = Inr d" "same_chain d R"
      using at unfolding at_block_def by metis
    moreover have "GenesisState (chGenesis P) = Inr s0" using assms(1) P(2) by simp
    ultimately show ?thesis using P same_chain_trans by (auto simp: replays_def)
  qed
  then show ?thesis using blocks k by auto
qed

text \<open>
  C21: a replica trusts nobody. Take a chain with a single producer (not one decided by CometBFT), suppose the only
  headers that verify under its key are those of the blocks it committed,
  and that hashes have one length. Then whatever the upstreams answer, every block of a replica carries the signed
  bytes, and so the hash, of the producer's block at that height, and at the producer's height both ledgers have the same
  state root.
\<close>

theorem replica_trusts_nobody:
  assumes "GenesisState g = Inr s0" and "\<not> BFT g" and "node_run sha ed_verify ed_sign ed_pub ghash (emptyChain g s0) P"
    and "replicates sha ed_verify ghash (emptyChain g s0) R" and "length (chBlocks P) < 2 ^ 64" and "length (chBlocks R) < 2 ^ 64"
    and "\<And>b. hProposer (bHeader b) = gnProposer g \<Longrightarrow> VerifySig ed_verify b = None \<Longrightarrow>
      headerSignBytes (bHeader b) \<in> headerSignBytes ` bHeader ` set (chBlocks P)"
    and "\<And>x y. length (sha x) = length (sha y)"
  shows "map (headerSignBytes \<circ> bHeader) (chBlocks R) = take (length (chBlocks R)) (map (headerSignBytes \<circ> bHeader) (chBlocks P)) \<and>
    (length (chBlocks R) = length (chBlocks P) \<and> chBlocks P \<noteq> [] \<longrightarrow> Root sha (chState R) = Root sha (chState P))"
proof -
  let ?h = "\<lambda>c i. bHeader (chBlocks c ! i)"
  have P: "replays sha ed_verify ghash P" "chGenesis P = g" using node_run_replays [OF assms(1,3)] by simp_all
  have R: "replays sha ed_verify ghash R" "chGenesis R = g" using replicates_replays [OF assms(1,4)] by simp_all
  have ht: "hHeight (?h c i) = of_nat (i + 1)" if "replays sha ed_verify ghash c" "i < length (chBlocks c)" for c i
    using replays_heights [OF that(1)] that(2) by (simp add: heights_ok_def)
  have cid: "hChainID (?h c i) = gnChainID g \<and> hProposer (?h c i) = gnProposer g \<and> VerifySig ed_verify (chBlocks c ! i) = None"
    if "replays sha ed_verify ghash c" "chGenesis c = g" "i < length (chBlocks c)" for c i
    using replays_verified [OF that(1,3)] verify_facts assms(2) that(2) by metis
  have same: "i < length (chBlocks P) \<and> headerSignBytes (?h R i) = headerSignBytes (?h P i)" if i: "i < length (chBlocks R)" for i
  proof -
    have "headerSignBytes (?h R i) \<in> headerSignBytes ` bHeader ` set (chBlocks P)" using assms(7) cid [OF R i] by blast
    then obtain j where j: "j < length (chBlocks P)" "headerSignBytes (?h R i) = headerSignBytes (?h P j)" by (auto simp: in_set_conv_nth)
    then have "hHeight (?h R i) = hHeight (?h P j)" using header_bytes_height [OF j(2)] cid [OF R i] cid [OF P j(1)] by presburger
    then have "(of_nat (i + 1) :: 64 word) = of_nat (j + 1)" using ht [OF R(1) i] ht [OF P(1) j(1)] by simp
    moreover have "unat (of_nat (i + 1) :: 64 word) = i + 1" by (rule unat_of_nat64) (use i assms(6) in linarith)
    moreover have "unat (of_nat (j + 1) :: 64 word) = j + 1" by (rule unat_of_nat64) (use j(1) assms(5) in linarith)
    ultimately have "i = j" by (metis add_right_cancel)
    then show ?thesis using j by simp
  qed
  have le: "length (chBlocks R) \<le> length (chBlocks P)"
  proof (rule ccontr)
    assume "\<not> length (chBlocks R) \<le> length (chBlocks P)"
    then have "length (chBlocks P) < length (chBlocks R)" by linarith
    from same [OF this] show False by simp
  qed
  have "map (headerSignBytes \<circ> bHeader) (chBlocks R) = take (length (chBlocks R)) (map (headerSignBytes \<circ> bHeader) (chBlocks P))"
    by (rule nth_equalityI) (use le same in auto)
  moreover have "Root sha (chState R) = Root sha (chState P)" if n: "length (chBlocks R) = length (chBlocks P)" "chBlocks P \<noteq> []"
  proof -
    obtain i where i: "Suc i = length (chBlocks P)" using n(2) by (cases "length (chBlocks P)") auto
    then have iP: "i < length (chBlocks P)" and iR: "i < length (chBlocks R)" using n by simp_all
    obtain d x where d: "chGenesis d = g" "chBlocks d = take i (chBlocks P)" "verify sha ed_verify ghash d (chBlocks P ! i) = Inr x" "same_ledger x (chState P)"
      using replays_verified [OF P(1) iP] P(2) i by metis
    obtain e y where e: "chGenesis e = g" "chBlocks e = take i (chBlocks R)" "verify sha ed_verify ghash e (chBlocks R ! i) = Inr y" "same_ledger y (chState R)"
      using replays_verified [OF R(1) iR] R(2) i n by metis
    have "tiHash (tipLocked sha ghash e) = tiHash (tipLocked sha ghash d)"
    proof (cases i)
      case 0
      then show ?thesis using d e by (simp add: tipLocked_def)
    next
      case (Suc m)
      then have "last (chBlocks d) = chBlocks P ! m" "last (chBlocks e) = chBlocks R ! m" "chBlocks d \<noteq> []" "chBlocks e \<noteq> []"
        using d(2) e(2) iP iR by (auto simp: take_Suc_conv_app_nth)
      then show ?thesis using same [of m] Suc iR by (simp add: tipLocked_def Let_def HeaderHash_def)
    qed
    then have prev: "hPrevHash (?h R i) = hPrevHash (?h P i)" using verify_facts [OF d(3)] verify_facts [OF e(3)] by simp
    have root: "Root sha x = Inr (hStateRoot (?h P i))" "Root sha y = Inr (hStateRoot (?h R i))" using verify_facts [OF d(3)] verify_facts [OF e(3)] by simp_all
    obtain u v where "hStateRoot (?h P i) = sha u" "hStateRoot (?h R i) = sha v" using Root_hash [OF root(1)] Root_hash [OF root(2)] by blast
    then have "length (hStateRoot (?h R i)) = length (hStateRoot (?h P i))" using assms(8) [of v u] by simp
    then have "hStateRoot (?h R i) = hStateRoot (?h P i)"
      using header_bytes_root [OF conjunct2 [OF same [OF iR]] _ prev] cid [OF R iR] cid [OF P iP] by simp
    then show ?thesis using root Root_same_ledger [OF d(4)] Root_same_ledger [OF e(4)] by simp
  qed
  ultimately show ?thesis by blast
qed

subsection \<open>A producer with one block\<close>

definition solo_genesis :: Genesis where
  "solo_genesis = demo_genesis\<lparr>gnConsensus := '''', gnProposer := demo_b\<rparr>"

definition solo_c0 :: Chain where "solo_c0 = emptyChain solo_genesis demo_s0"

definition solo_block :: Block where
  "solo_block = newBlock demo_sha ''demo'' 1 [] 1000 [] demo_b [demo_stx]"

text \<open>Transactions of the first account verify, and the one header.\<close>

definition solo_verify :: "bytes \<Rightarrow> bytes \<Rightarrow> bytes \<Rightarrow> bool" where
  "solo_verify k m s \<longleftrightarrow> PubKey demo_a = Inr k \<or> m = headerSignBytes (bHeader solo_block)"

definition solo_chain :: Chain where "solo_chain = commit demo_sha solo_block demo_next solo_c0"

lemma solo_s0: "GenesisState solo_genesis = Inr demo_s0"
  using demo_s0 by (auto simp: GenesisState_def solo_genesis_def split: sum.splits)

lemma solo_not_BFT: "\<not> BFT solo_genesis"
  by (simp add: solo_genesis_def BFT_def)

lemma solo_keys: "PubKey demo_a \<noteq> PubKey demo_b" "\<not> isl (PubKey demo_a)" "\<not> isl (PubKey demo_b)" "txFrom demo_stx = demo_a"
proof -
  have a: "PubKey demo_a = Inr (replicate 32 (char_of (17 * 10 :: nat)))"
    unfolding demo_a_def by (rule PubKey_replicate) (simp add: hexval_def)
  have b: "PubKey demo_b = Inr (replicate 32 (char_of (17 * 11 :: nat)))"
    unfolding demo_b_def by (rule PubKey_replicate) (simp add: hexval_def)
  have "(char_of (17 * 10 :: nat) :: char) \<noteq> char_of (17 * 11 :: nat)" by (simp add: char_of_eq_iff)
  then show "PubKey demo_a \<noteq> PubKey demo_b" unfolding a b by (simp add: replicate_eq_replicate)
  show "\<not> isl (PubKey demo_a)" "\<not> isl (PubKey demo_b)" unfolding a b by simp_all
  show "txFrom demo_stx = demo_a" by (simp add: demo_stx_def demo_tx_def)
qed

lemma solo_runTx: "runTx demo_sha solo_verify ''demo'' (demo_s0\<lparr>stNow := 1000\<rparr>) demo_stx = Inr demo_next"
proof -
  have "CheckStateless demo_verify ''demo'' demo_stx = None" using demo_runTx by (auto simp: runTx_def split: option.splits)
  then have "CheckStateless solo_verify ''demo'' demo_stx = None"
    using solo_keys by (auto simp: CheckStateless_def solo_verify_def demo_verify_def split: sum.splits if_splits option.splits)
  then show ?thesis using demo_runTx by (auto simp: runTx_def split: option.splits)
qed

lemma solo_block_verifies: "verify demo_sha solo_verify demo_ghash solo_c0 solo_block = Inr demo_next"
proof -
  have "stPools demo_next = fmempty" by code_simp
  then obtain r where "Root demo_sha demo_next = Inr r" using Root_defined [of demo_sha demo_next] by auto
  then have root: "Root demo_sha demo_next = Inr []" using Root_hash by (fastforce simp: demo_sha_def)
  have "VerifySig solo_verify solo_block = None"
    using solo_keys by (auto simp: VerifySig_def solo_verify_def solo_block_def newBlock_def split: sum.split)
  moreover have "chState solo_c0 = demo_s0" "chGenesis solo_c0 = solo_genesis" "gnChainID solo_genesis = ''demo''" "gnProposer solo_genesis = demo_b"
    "tipLocked demo_sha demo_ghash solo_c0 = \<lparr>tiHeight = 0, tiHash = [], tiTime = 1\<rparr>"
    by (simp_all add: solo_c0_def emptyChain_def solo_genesis_def demo_genesis_def tipLocked_def demo_ghash_def)
  ultimately show ?thesis
    using root solo_runTx solo_not_BFT by (simp add: verify_def checkHeader_def Let_def solo_block_def newBlock_def)
qed

lemma solo_run: "node_run demo_sha solo_verify demo_sign demo_pub demo_ghash (emptyChain solo_genesis demo_s0) solo_chain"
proof -
  have "fst (AddBlock demo_sha solo_verify demo_ghash None solo_c0 solo_block) = solo_chain"
    by (simp add: AddBlock_def solo_block_verifies solo_chain_def)
  then have "node_step demo_sha solo_verify demo_sign demo_pub demo_ghash solo_c0 solo_chain"
    by (metis node_step.addBlock)
  then show ?thesis by (simp add: node_run_def solo_c0_def r_into_rtranclp)
qed

lemma solo_blocks: "chBlocks solo_chain = [solo_block]" "chBlocks solo_c0 = []"
  by (simp_all add: solo_chain_def solo_c0_def emptyChain_def)

text \<open>A replica after one round, answered by the producer.\<close>

definition solo_replica :: Chain where
  "solo_replica = fst (fst (replicateRound demo_sha solo_verify demo_ghash (\<lambda>_. None) (Inr (askBlocks solo_chain False solo_c0)) (solo_c0, 1)))"

theorem replica_follows_producer_witness: "same_chain solo_chain solo_replica"
proof -
  have "chBlocks solo_chain = take 1 (chBlocks solo_chain)" by (simp add: solo_blocks)
  from follows.answered [OF follows.start [of demo_sha solo_verify demo_ghash solo_chain solo_c0] this, of "\<lambda>_. None" False 1]
  have "follows demo_sha solo_verify demo_ghash solo_chain (emptyChain solo_genesis demo_s0) 1 solo_replica"
    by (simp add: solo_replica_def solo_c0_def)
  from replica_follows_producer [OF solo_s0 solo_run _ this] show ?thesis by (simp add: solo_blocks)
qed

theorem replica_trusts_nobody_witness: "Root demo_sha (chState solo_replica) = Root demo_sha (chState solo_chain)"
proof -
  have rep: "replicates demo_sha solo_verify demo_ghash (emptyChain solo_genesis demo_s0) solo_replica"
    unfolding solo_replica_def solo_c0_def by (rule replicates.round [OF replicates.start])
  have "fetchBlocks (Inr (askBlocks solo_chain False solo_c0)) = Inr [solo_block]"
    using fetch_ask [of solo_c0 solo_chain False] by (simp add: solo_blocks)
  then have blocks: "chBlocks solo_replica = [solo_block]"
    by (simp add: solo_replica_def replicateRound_fst AddBlock_def solo_block_verifies solo_blocks)
  have only: "headerSignBytes (bHeader b) \<in> headerSignBytes ` bHeader ` set (chBlocks solo_chain)"
    if "hProposer (bHeader b) = gnProposer solo_genesis" "VerifySig solo_verify b = None" for b
    using that solo_keys
    by (auto simp: VerifySig_def solo_verify_def solo_genesis_def solo_blocks split: sum.splits if_splits)
  have n: "length (chBlocks solo_chain) < 2 ^ 64" "length (chBlocks solo_replica) < 2 ^ 64" by (simp_all add: solo_blocks blocks)
  have h: "length (demo_sha x) = length (demo_sha y)" for x y by (simp add: demo_sha_def)
  have "length (chBlocks solo_replica) = length (chBlocks solo_chain) \<and> chBlocks solo_chain \<noteq> [] \<longrightarrow>
      Root demo_sha (chState solo_replica) = Root demo_sha (chState solo_chain)"
    by (rule conjunct2 [OF replica_trusts_nobody [OF solo_s0 solo_not_BFT solo_run rep n _ h]]) (rule only)
  then show ?thesis by (simp only: solo_blocks blocks) simp
qed

end
