(* ===== verification/Wallet_Cli.thy ===== *)
theory Wallet_Cli
  imports Chain_Properties Node_Api Key_Files
begin

text \<open>
  The command-line wallet: node/cmd/orctl/main.go. Each command is a function of its flag values and
  of what its collaborators answer: the file system, standard input, and the node's replies as \<open>GetJSON\<close>
  of the API's handlers give them. A command returns what it prints, or the error it exits with.

  Ed25519, JSON and the word list are parameters, as in the theories of the packages the wallet calls.
\<close>

subsection \<open>Keys\<close>

definition keygen :: "('k \<Rightarrow> bytes) \<Rightarrow> ('k \<Rightarrow> bytes) \<Rightarrow> (KeyFile \<Rightarrow> bytes) \<Rightarrow> (nat \<times> err) option \<Rightarrow> err + 'k \<Rightarrow> string \<Rightarrow> FileSystem \<Rightarrow>
    FileSystem \<times> (err + addr)" where
  "keygen seedOf pubOf marshal fault rnd keyPath fs =
     (if keyPath = '''' then (fs, Inl (Err ''-key is required''))
      else case GenerateKey seedOf pubOf marshal fault rnd keyPath fs of
        (fs', Inl e) \<Rightarrow> (fs', Inl e)
      | (fs', Inr (priv, Some e)) \<Rightarrow> (fs', Inl e)
      | (fs', Inr (priv, None)) \<Rightarrow> (fs', Inr (keyAddress pubOf priv)))"

definition addressCmd :: "(bytes \<Rightarrow> 'k) \<Rightarrow> ('k \<Rightarrow> bytes) \<Rightarrow> (bytes \<Rightarrow> KeyFile option) \<Rightarrow> string \<Rightarrow> FileSystem \<Rightarrow> err + addr" where
  "addressCmd newKey pubOf unmarshal keyPath fs = map_sum id (keyAddress pubOf) (LoadKey newKey pubOf unmarshal keyPath fs)"

text \<open>\<open>words\<close>: the numbered words, in the order they are printed.\<close>

definition wordsCmd :: "(bytes \<Rightarrow> hash) \<Rightarrow> string list \<Rightarrow> (bytes \<Rightarrow> 'k) \<Rightarrow> ('k \<Rightarrow> bytes) \<Rightarrow> ('k \<Rightarrow> bytes) \<Rightarrow> (bytes \<Rightarrow> KeyFile option) \<Rightarrow>
    string \<Rightarrow> FileSystem \<Rightarrow> err + (nat \<times> string) list" where
  "wordsCmd sha words newKey seedOf pubOf unmarshal keyPath fs =
     (case LoadKey newKey pubOf unmarshal keyPath fs of Inl e \<Rightarrow> Inl e
      | Inr priv \<Rightarrow>
        (case Encode sha words (seedOf priv) of Inl e \<Rightarrow> Inl e
         | Inr phrase \<Rightarrow> Inr (enumerate 1 (Fields phrase))))"

definition restore :: "(bytes \<Rightarrow> hash) \<Rightarrow> string list \<Rightarrow> (bytes \<Rightarrow> 'k) \<Rightarrow> ('k \<Rightarrow> bytes) \<Rightarrow> ('k \<Rightarrow> bytes) \<Rightarrow> (KeyFile \<Rightarrow> bytes) \<Rightarrow>
    (nat \<times> err) option \<Rightarrow> string \<Rightarrow> err + string \<Rightarrow> FileSystem \<Rightarrow> FileSystem \<times> (err + addr)" where
  "restore sha words newKey seedOf pubOf marshal fault keyPath stdin fs =
     (if keyPath = '''' then (fs, Inl (Err ''-key is required''))
      else case stdin of Inl e \<Rightarrow> (fs, Inl e)
      | Inr typed \<Rightarrow>
        (case Decode sha words typed of Inl e \<Rightarrow> (fs, Inl e)
         | Inr seed \<Rightarrow>
           (let priv = newKey seed in
            case WriteKey seedOf pubOf marshal fault keyPath priv fs of
              (fs', Some e) \<Rightarrow> (fs', Inl e)
            | (fs', None) \<Rightarrow> (fs', Inr (keyAddress pubOf priv)))))"

definition exportSeed :: "(bytes \<Rightarrow> 'k) \<Rightarrow> ('k \<Rightarrow> bytes) \<Rightarrow> ('k \<Rightarrow> bytes) \<Rightarrow> (bytes \<Rightarrow> KeyFile option) \<Rightarrow> string \<Rightarrow> FileSystem \<Rightarrow> err + string" where
  "exportSeed newKey seedOf pubOf unmarshal keyPath fs = map_sum id (SeedHex seedOf) (LoadKey newKey pubOf unmarshal keyPath fs)"

subsection \<open>Genesis\<close>

text \<open>\<open>strings.Cut\<close> and \<open>strings.SplitN\<close> with a separator of one character.\<close>

definition cutChar :: "char \<Rightarrow> string \<Rightarrow> (string \<times> string) option" where
  "cutChar c s = (if c \<in> set s then Some (takeWhile (\<lambda>x. x \<noteq> c) s, tl (dropWhile (\<lambda>x. x \<noteq> c) s)) else None)"

fun splitN :: "nat \<Rightarrow> char \<Rightarrow> string \<Rightarrow> string list" where
  "splitN 0 c s = []"
| "splitN (Suc 0) c s = [s]"
| "splitN (Suc (Suc n)) c s = (case cutChar c s of None \<Rightarrow> [s] | Some (a, b) \<Rightarrow> a # splitN (Suc n) c b)"

text \<open>
  The verb \<open>%d\<close> of \<open>fmt.Sscanf\<close> into an \<open>int\<close>: blanks are skipped, but no line break (a carriage
  return only before one), then a sign and the longest run of digits is read and the rest ignored.
\<close>

definition sscanInt :: "string \<Rightarrow> int option" where
  "sscanInt s =
     (let t = dropWhile (\<lambda>c. is_space c \<and> c \<noteq> newline) s;
          sign = takeWhile (\<lambda>c. c = CHR ''-'' \<or> c = CHR ''+'') (take 1 t);
          tok = takeWhile is_digit (drop (length sign) t)
      in if tok = [] then None else ParseInt (sign @ tok))"

definition assetFlag :: "string \<Rightarrow> err + AssetDef" where
  "assetFlag v =
     (let parts = splitN 5 (CHR '':'') v in
      if length parts < 3 then Inl (Err ''expected SYMBOL:ISSUER_ADDR:MIN_FEE[:DECIMALS[:NAME]]'')
      else case ParseAmount (parts ! 2) of Inl e \<Rightarrow> Inl e
      | Inr fee \<Rightarrow>
        (let def = \<lparr>adSymbol = parts ! 0, adName = parts ! 0, adIssuer = parts ! 1, adMinFee = fee, adDecimals = 2\<rparr> in
         case (if length parts > 3 then
                 (case sscanInt (parts ! 3) of None \<Rightarrow> Inl (Wrap ''decimals'' (Err ''expected integer''))
                  | Some d \<Rightarrow> Inr (def\<lparr>adDecimals := d\<rparr>))
               else Inr def) of
           Inl e \<Rightarrow> Inl e
         | Inr def1 \<Rightarrow> Inr (if length parts > 4 then def1\<lparr>adName := parts ! 4\<rparr> else def1)))"

definition allocFlag :: "string \<Rightarrow> err + Allocation" where
  "allocFlag v =
     (case cutChar (CHR ''='') v of None \<Rightarrow> Inl (Err ''expected ADDR=ORP'')
      | Some (a, amt) \<Rightarrow>
        (case ParseAmount amt of Inl e \<Rightarrow> Inl e | Inr n \<Rightarrow> Inr \<lparr>alAddress = a, alAmount = n\<rparr>))"

text \<open>Repeated flags: each value is appended, and the first bad one ends the program.\<close>

fun setAll :: "(string \<Rightarrow> err + 'a) \<Rightarrow> string list \<Rightarrow> err + 'a list" where
  "setAll f [] = Inr []"
| "setAll f (v # vs) = (case f v of Inl e \<Rightarrow> Inl e | Inr x \<Rightarrow> map_sum id ((#) x) (setAll f vs))"

definition genesisCmd :: "int \<Rightarrow> string \<Rightarrow> addr \<Rightarrow> string \<Rightarrow> string list \<Rightarrow> string list \<Rightarrow> err + Genesis" where
  "genesisCmd nowMs chainID proposer minFee allocFlags assetFlags =
     (case setAll allocFlag allocFlags of Inl e \<Rightarrow> Inl e
      | Inr allocs \<Rightarrow>
        (case setAll assetFlag assetFlags of Inl e \<Rightarrow> Inl e
         | Inr assets \<Rightarrow>
           (case ParseAmount minFee of Inl e \<Rightarrow> Inl e
            | Inr fee \<Rightarrow>
              (let g = \<lparr>gnChainID = chainID, gnTime = nowMs, gnConsensus = '''', gnProposer = proposer, gnMinFee = fee,
                        gnAllocations = allocs, gnAssets = assets\<rparr> in
               case GenesisValidate g of Some e \<Rightarrow> Inl e | None \<Rightarrow> Inr g))))"

subsection \<open>Commands that talk to a node\<close>

text \<open>
  \<open>get\<close>, \<open>post\<close> and \<open>decode\<close>: an unreachable node and a status of 300 and above are errors; the API
  answers an error object only with such a status.
\<close>

definition decodeResp :: "err + 'a response \<Rightarrow> err + 'a" where
  "decodeResp resp =
     (case resp of Inl e \<Rightarrow> Inl e
      | Inr (status, v) \<Rightarrow>
          if status \<ge> 300 then (case v of Inl e \<Rightarrow> Inl (Wrap ''node'' e) | Inr _ \<Rightarrow> Inl (Err ''node returned an error status''))
          else v)"

text \<open>The lines of \<open>status\<close>, label and value.\<close>

definition statusLines :: "Status \<Rightarrow> (string \<times> string) list" where
  "statusLines st =
     [(''chain'', ssChainID st), (''height'', showNat (unat (ssHeight st))), (''tip'', HashString (ssTipHash st)),
      (''supply'', FormatAmount (ssSupply st)), (''burned'', FormatAmount (ssBurned st)), (''min fee'', FormatAmount (ssMinFee st)),
      (''accounts'', showNat (ssAccounts st)), (''mempool'', showNat (ssMempoolSize st))]"

definition statusCmd :: "err + Status response \<Rightarrow> err + (string \<times> string) list" where
  "statusCmd resp = map_sum id statusLines (decodeResp resp)"

text \<open>\<open>addrArg\<close>: one positional argument is the address, otherwise the key file's.\<close>

definition addrArg :: "(bytes \<Rightarrow> 'k) \<Rightarrow> ('k \<Rightarrow> bytes) \<Rightarrow> (bytes \<Rightarrow> KeyFile option) \<Rightarrow> string list \<Rightarrow> string \<Rightarrow> FileSystem \<Rightarrow> err + addr" where
  "addrArg newKey pubOf unmarshal args keyPath fs =
     (case args of [a] \<Rightarrow> (case Validate a of Some e \<Rightarrow> Inl e | None \<Rightarrow> Inr a)
      | _ \<Rightarrow> if keyPath = '''' then Inl (Err ''give an address or -key'')
             else map_sum id (keyAddress pubOf) (LoadKey newKey pubOf unmarshal keyPath fs))"

text \<open>\<open>balance\<close> prints the amount and the nonce.\<close>

definition balanceCmd :: "err + addr \<Rightarrow> (addr \<Rightarrow> err + AccountReply response) \<Rightarrow> err + (string \<times> string)" where
  "balanceCmd arg account =
     (case arg of Inl e \<Rightarrow> Inl e
      | Inr a \<Rightarrow> map_sum id (\<lambda>acc. (FormatAmount (arBalance acc), showNat (unat (arNonce acc)))) (decodeResp (account a)))"

text \<open>
  \<open>send\<close> up to its post: the transaction it signs and posts. Only after its own \<open>CheckStateless\<close> is the
  transaction sent.
\<close>

definition transferTx :: "Status \<Rightarrow> addr \<Rightarrow> AccountReply \<Rightarrow> addr \<Rightarrow> amount \<Rightarrow> amount \<Rightarrow> string \<Rightarrow> Tx" where
  "transferTx st sender acc dest amt fee memo =
     \<lparr>txChainID = ssChainID st, txFrom = sender, txTo = dest, txAmount = amt, txFee = fee, txNonce = arNextNonce acc, txMemo = memo,
      txKind = '''', txAsset = '''', txPool = None, txEscrow = None, txGuard = None, txSig = []\<rparr>"

definition sendTx :: "('k \<Rightarrow> bytes \<Rightarrow> bytes) \<Rightarrow> (bytes \<Rightarrow> bytes \<Rightarrow> bytes \<Rightarrow> bool) \<Rightarrow> ('k \<Rightarrow> bytes) \<Rightarrow> err + 'k \<Rightarrow>
    err + Status response \<Rightarrow> (addr \<Rightarrow> err + AccountReply response) \<Rightarrow> addr \<Rightarrow> string \<Rightarrow> string \<Rightarrow> string \<Rightarrow> err + Tx" where
  "sendTx ed_sign ed_verify pubOf key statusR account dest amount fee memo =
     (case key of Inl e \<Rightarrow> Inl e
      | Inr priv \<Rightarrow>
        (case ParseAmount amount of Inl e \<Rightarrow> Inl e
         | Inr amt \<Rightarrow>
           (case decodeResp statusR of Inl e \<Rightarrow> Inl e
            | Inr st \<Rightarrow>
              (case (if fee = '''' then Inr (ssMinFee st) else ParseAmount fee) of Inl e \<Rightarrow> Inl e
               | Inr feeAmt \<Rightarrow>
                 (case decodeResp (account (keyAddress pubOf priv)) of Inl e \<Rightarrow> Inl e
                  | Inr acc \<Rightarrow>
                    (let tx = Sign ed_sign priv (transferTx st (keyAddress pubOf priv) acc dest amt feeAmt memo)
                     in case CheckStateless ed_verify (ssChainID st) tx of Some e \<Rightarrow> Inl e | None \<Rightarrow> Inr tx))))))"

text \<open>
  The rest of \<open>send\<close>: the post, and with \<open>-wait\<close> up to 60 polls for the block. A committed transaction
  without a location would be dereferenced, a panic.
\<close>

fun pollCommit :: "nat \<Rightarrow> (nat \<Rightarrow> err + (string \<times> TxLocation option)) \<Rightarrow> nat \<Rightarrow> err + 64 word" where
  "pollCommit 0 ask i = Inl (Err ''timed out waiting for commit'')"
| "pollCommit (Suc n) ask i =
     (case ask i of
        Inr (st, loc) \<Rightarrow>
          if st = ''committed'' then
            (case loc of None \<Rightarrow> Inl (Panic ''invalid memory address or nil pointer dereference'') | Some l \<Rightarrow> Inr (tlHeight l))
          else pollCommit n ask (i + 1)
      | Inl e \<Rightarrow> pollCommit n ask (i + 1))"

definition sendCmd :: "err + Tx \<Rightarrow> (Tx \<Rightarrow> err + (hash \<times> string) response) \<Rightarrow> bool \<Rightarrow> (hash \<Rightarrow> nat \<Rightarrow> err + (string \<times> TxLocation option)) \<Rightarrow>
    err + ((hash \<times> string) \<times> 64 word option)" where
  "sendCmd prepared post wait ask =
     (case prepared of Inl e \<Rightarrow> Inl e
      | Inr tx \<Rightarrow>
        (case decodeResp (post tx) of Inl e \<Rightarrow> Inl e
         | Inr res \<Rightarrow>
             if \<not> wait then Inr (res, None)
             else map_sum id (\<lambda>h. (res, Some h)) (pollCommit 60 (ask (fst res)) 0)))"

text \<open>\<open>tx\<close> prints the node's answer as it came.\<close>

definition txCmd :: "string list \<Rightarrow> (string \<Rightarrow> err + 'a response) \<Rightarrow> err + 'a" where
  "txCmd args ask = (case args of [i] \<Rightarrow> decodeResp (ask i) | _ \<Rightarrow> Inl (Err ''usage: orctl tx ID''))"

text \<open>\<open>history\<close>: the lines printed, and the panic of \<open>other[:12]\<close> on a shorter text.\<close>

record HistoryLine =
  hnTime :: int
  hnHeight :: "64 word"
  hnDir :: string
  hnAmount :: string
  hnOther :: string
  hnMemo :: string

definition historyLine :: "addr \<Rightarrow> HistoryEntry \<Rightarrow> HistoryLine option" where
  "historyLine a e =
     (let (dir, other) = (if txTo (heTx e) = a then (''in '', txFrom (heTx e)) else (''out'', txTo (heTx e)))
      in if length other < 12 then None
         else Some \<lparr>hnTime = heTime e, hnHeight = heHeight e, hnDir = dir, hnAmount = FormatAmount (txAmount (heTx e)),
                hnOther = take 12 other, hnMemo = txMemo (heTx e)\<rparr>)"

fun historyLines :: "addr \<Rightarrow> HistoryEntry list \<Rightarrow> HistoryLine list \<times> err option" where
  "historyLines a [] = ([], None)"
| "historyLines a (e # es) =
     (case historyLine a e of None \<Rightarrow> ([], Some (Panic ''slice bounds out of range''))
      | Some l \<Rightarrow> (let (ls, err) = historyLines a es in (l # ls, err)))"

definition historyCmd :: "err + addr \<Rightarrow> (addr \<Rightarrow> err + HistoryEntry list response) \<Rightarrow> HistoryLine list \<times> err option" where
  "historyCmd arg hist =
     (case arg of Inl e \<Rightarrow> ([], Some e)
      | Inr a \<Rightarrow> (case decodeResp (hist a) of Inl e \<Rightarrow> ([], Some e) | Inr es \<Rightarrow> historyLines a es))"

subsection \<open>Words and keys\<close>

lemma Decode_length: "Decode sha words s = Inr seed \<Longrightarrow> length seed = 32"
  by (auto simp: Decode_def Let_def split: if_splits sum.splits)

lemma LoadKey_seed: "LoadKey newKey pubOf unmarshal path fs = Inr k \<Longrightarrow> \<exists>s. length s = 32 \<and> k = newKey s"
  by (auto simp: LoadKey_def FromSeedHex_def split: option.splits sum.splits if_splits)

subsection \<open>Flags\<close>

definition allocText :: "Allocation \<Rightarrow> string" where
  "allocText a = alAddress a @ CHR ''='' # FormatAmount (alAmount a)"

definition assetText :: "AssetDef \<Rightarrow> string" where
  "assetText d = adSymbol d @ CHR '':'' # adIssuer d @ CHR '':'' # FormatAmount (adMinFee d) @ CHR '':'' #
     showInt (adDecimals d) @ CHR '':'' # adName d"

lemma cutChar_first: "c \<notin> set a \<Longrightarrow> cutChar c (a @ c # b) = Some (a, b)"
proof (induction a)
  case Nil
  then show ?case by (simp add: cutChar_def)
next
  case (Cons x a)
  then show ?case by (auto simp: cutChar_def split: if_splits)
qed

lemma set_FormatAmount: "c \<in> set (FormatAmount a) \<Longrightarrow> is_digit c \<or> c = CHR ''.''"
proof -
  assume c: "c \<in> set (FormatAmount a)"
  have u: "unat (a mod Unit) < 1000000" by (simp add: Unit_def unat_mod)
  have "set (trimSuffix d s) \<subseteq> set s" for d s by (auto simp: trimSuffix_def dest: in_set_butlastD)
  moreover have "set (trimRight d s) \<subseteq> set s" for d s by (auto simp: trimRight_def dest: set_dropWhileD)
  ultimately have "c \<in> set (showNat (unat (a div Unit)) @ CHR ''.'' # pad6 (unat (a mod Unit)))"
    using c unfolding FormatAmount_def by blast
  then show ?thesis using showNat_chars pad6_props(3) [OF u] by (auto simp: list_all_iff)
qed

lemma hex_chars: "hex_decode s = Some b \<Longrightarrow> c \<in> set s \<Longrightarrow> hexval c \<noteq> None"
  by (induction s arbitrary: b rule: hex_decode.induct) (auto split: option.splits)

lemma Validate_chars: "Validate a = None \<Longrightarrow> c \<in> set a \<Longrightarrow> hexval c \<noteq> None"
  by (auto simp: Validate_def PubKey_def split: if_splits option.splits sum.splits dest: hex_chars)

lemma Validate_length: "Validate a = None \<Longrightarrow> length a = 64"
proof -
  have "hex_decode s = Some b \<Longrightarrow> length s = 2 * length b" for s b
    by (induction s arbitrary: b rule: hex_decode.induct) (auto split: option.splits)
  then show "Validate a = None \<Longrightarrow> length a = 64"
    by (fastforce simp: Validate_def PubKey_def split: if_splits option.splits sum.splits)
qed

lemma showNat_Cons: obtains x xs where "showNat n = x # xs" "is_digit x" "takeWhile is_digit (showNat n) = showNat n"
proof -
  have d: "digits (showNat n)" using dval_showNat by blast
  then obtain x xs where "showNat n = x # xs" by (cases "showNat n") (auto simp: digits_def)
  moreover have "takeWhile is_digit (showNat n) = showNat n" using d by (auto simp: digits_def list_all_iff takeWhile_eq_all_conv)
  ultimately show ?thesis using d that by (auto simp: digits_def)
qed

lemma digit_no_space: "is_digit c \<Longrightarrow> \<not> is_space c \<and> c \<noteq> CHR ''-'' \<and> c \<noteq> CHR ''+''"
  by (auto simp: is_digit_def is_space_def Let_def)

lemma sscanInt_showInt: "int64_ok d \<Longrightarrow> sscanInt (showInt d) = Some d"
proof (cases "d < 0")
  case True
  assume "int64_ok d"
  then have b: "nat (- d) \<le> 2 ^ 63" by (simp add: int64_ok_def nat_le_iff)
  obtain x xs where x: "showNat (nat (- d)) = x # xs" "takeWhile is_digit (showNat (nat (- d))) = showNat (nat (- d))"
    using showNat_Cons by metis
  have "\<not> is_space (CHR ''-'')" by (simp add: is_space_def)
  then have "sscanInt (showInt d) = ParseInt (CHR ''-'' # showNat (nat (- d)))"
    using True x by (simp add: sscanInt_def showInt_def)
  also have "\<dots> = Some d" using b True dval_showNat [of "nat (- d)"] by (simp add: ParseInt_def)
  finally show ?thesis .
next
  case False
  assume "int64_ok d"
  then have b: "nat d < 2 ^ 63" using False by (simp add: int64_ok_def nat_less_iff)
  obtain x xs where x: "showNat (nat d) = x # xs" "is_digit x" "takeWhile is_digit (showNat (nat d)) = showNat (nat d)"
    using showNat_Cons by metis
  then have t: "takeWhile is_digit xs = xs" by simp
  have "sscanInt (showInt d) = ParseInt (showNat (nat d))"
    using False x(1,2) digit_no_space [OF x(2)] by (simp add: sscanInt_def showInt_def t)
  also have "\<dots> = Some d"
    using b False dval_showNat [of "nat d"] digit_no_space [OF x(2)] x(1) by (simp add: ParseInt_def)
  finally show ?thesis .
qed

lemma allocFlag_allocText:
  assumes "Validate (alAddress a) = None"
  shows "allocFlag (allocText a) = Inr a"
proof -
  have "CHR ''='' \<notin> set (alAddress a)" using Validate_chars [OF assms, of "CHR ''=''"] by (auto simp: hexval_def)
  then show ?thesis by (simp add: allocFlag_def allocText_def cutChar_first parse_format_amount)
qed

lemma assetFlag_assetText:
  assumes "ValidAsset (adSymbol d)" and "Validate (adIssuer d) = None" and "int64_ok (adDecimals d)"
  shows "assetFlag (assetText d) = Inr d"
proof -
  have s: "CHR '':'' \<notin> set (adSymbol d)" using assms(1) by (auto simp: ValidAsset_def list_all_iff is_upper_def)
  have i: "CHR '':'' \<notin> set (adIssuer d)" using Validate_chars [OF assms(2), of "CHR '':''"] by (auto simp: hexval_def)
  have f: "CHR '':'' \<notin> set (FormatAmount (adMinFee d))"
    using set_FormatAmount [of "CHR '':''"] by (auto simp: is_digit_def)
  have n: "CHR '':'' \<notin> set (showInt (adDecimals d))"
    using showNat_chars [of "CHR '':''"] by (auto simp: showInt_def is_digit_def)
  have "splitN 5 (CHR '':'') (assetText d) =
      [adSymbol d, adIssuer d, FormatAmount (adMinFee d), showInt (adDecimals d), adName d]"
    using s i f n by (simp add: assetText_def eval_nat_numeral cutChar_first)
  then show ?thesis by (simp add: assetFlag_def parse_format_amount sscanInt_showInt [OF assms(3)])
qed

lemma setAll_map: "(\<And>x. x \<in> set xs \<Longrightarrow> f (g x) = Inr x) \<Longrightarrow> setAll f (map g xs) = Inr xs"
  by (induction xs) simp_all

lemma addAssets_valid:
  "addAssets as s = Inr s' \<Longrightarrow> a \<in> set as \<Longrightarrow> ValidAsset (adSymbol a) \<and> Validate (adIssuer a) = None"
  by (induction as s rule: addAssets.induct) (auto split: if_splits option.splits)

lemma checkAllocations_valid: "checkAllocations seen as = None \<Longrightarrow> a \<in> set as \<Longrightarrow> Validate (alAddress a) = None"
  by (induction seen as rule: checkAllocations.induct) (auto split: if_splits option.splits)

subsection \<open>A payment to the node it asked\<close>

lemma nextNonceFrom_shape:
  "\<exists>j\<le>k. nextNonceFrom k U n = n + of_nat j \<and> (\<forall>i<j. n + of_nat i \<in> U) \<and> (j < k \<longrightarrow> n + of_nat j \<notin> U)"
proof (induction k arbitrary: n)
  case 0
  then show ?case by simp
next
  case (Suc k)
  show ?case
  proof (cases "n \<in> U")
    case True
    obtain j where j: "j \<le> k" "nextNonceFrom k U (n + 1) = n + 1 + of_nat j" "\<forall>i<j. n + 1 + of_nat i \<in> U"
      "j < k \<longrightarrow> n + 1 + of_nat j \<notin> U"
      using Suc.IH [of "n + 1"] by blast
    have "n + of_nat i \<in> U" if "i < Suc j" for i
      using that j(3) True by (cases i) (simp_all add: add.assoc)
    then show ?thesis using j True by (intro exI [of _ "Suc j"]) (simp add: add.assoc)
  next
    case False
    then show ?thesis by (intro exI [of _ 0]) simp
  qed
qed

text \<open>The loop of \<open>AccountInfo\<close> ends: among one more nonces than there are pending transactions one is free.\<close>

lemma nextNonceFrom_free:
  assumes "finite U" and "card U < k" and "k < 2 ^ 64"
  shows "nextNonceFrom k U n \<notin> U \<and> (\<exists>j\<le>card U. nextNonceFrom k U n = n + of_nat j)"
proof -
  obtain j where j: "j \<le> k" "nextNonceFrom k U n = n + of_nat j" "\<forall>i<j. n + of_nat i \<in> U" "j < k \<longrightarrow> n + of_nat j \<notin> U"
    using nextNonceFrom_shape [of k U n] by blast
  have "inj_on (\<lambda>i. n + of_nat i) {..<j}"
  proof (rule inj_onI)
    fix x y :: nat
    assume "x \<in> {..<j}" "y \<in> {..<j}" and e: "n + of_nat x = n + of_nat y"
    then have "x < 2 ^ 64" "y < 2 ^ 64" using j(1) assms(3) by auto
    then show "x = y" using e by (metis add_left_cancel unat_of_nat64)
  qed
  then have "card ((\<lambda>i. n + of_nat i) ` {..<j}) = j" by (simp add: card_image)
  moreover have "(\<lambda>i. n + of_nat i) ` {..<j} \<subseteq> U" using j(3) by auto
  ultimately have "j \<le> card U" using card_mono [OF assms(1)] by metis
  then show ?thesis using j assms(2) by auto
qed

subsection \<open>Values to evaluate on\<close>

lemma demo_addresses: "Validate demo_a = None" "Validate demo_b = None" "Validate demo_c = None"
  unfolding Validate_def demo_a_def demo_b_def demo_c_def
  using PubKey_replicate [of "CHR ''a''" 10] PubKey_replicate [of "CHR ''b''" 11] PubKey_replicate [of "CHR ''c''" 12]
  by (simp_all add: hexval_def to_lower_def)

subsection \<open>Properties\<close>

text \<open>
  C39: recovery phrases of the wallet. The words \<open>orctl words\<close> shows for a key file, typed back to \<open>orctl restore\<close> in any
  case and spacing, make a new key file that loads as the same key and prints the same address.
\<close>

theorem words_restore_key:
  assumes words: "word_list words" and json: "\<And>kf. unmarshal (marshal kf @ [CHR 0x0A]) = Some kf"
    and seeds: "\<And>s. length s = 32 \<Longrightarrow> seedOf (newKey s) = s"
    and shown: "wordsCmd sha words newKey seedOf pubOf unmarshal path fs = Inr numbered"
    and typed: "Fields (map to_lower typed) = map snd numbered"
    and new: "path2 \<noteq> ''''" "fmlookup fs2 path2 = None"
  shows "\<exists>k fs3. LoadKey newKey pubOf unmarshal path fs = Inr k \<and>
    restore sha words newKey seedOf pubOf marshal None path2 (Inr typed) fs2 = (fs3, Inr (keyAddress pubOf k)) \<and>
    LoadKey newKey pubOf unmarshal path2 fs3 = Inr k"
proof -
  obtain k p where k: "LoadKey newKey pubOf unmarshal path fs = Inr k" and p: "Encode sha words (seedOf k) = Inr p"
    and n: "numbered = enumerate 1 (Fields p)"
    using shown by (auto simp: wordsCmd_def split: sum.splits)
  obtain s where s: "length s = 32" "k = newKey s" using LoadKey_seed [OF k] by blast
  then have same: "newKey (seedOf k) = k" "length (seedOf k) = 32" using seeds by simp_all
  have dec: "Decode sha words typed = Inr (seedOf k)" by (rule Decode_Encode [OF words p]) (simp add: typed n)
  obtain fs3 where w: "WriteKey seedOf pubOf marshal None path2 k fs2 = (fs3, None)"
    using new(2) by (simp add: WriteKey_def Let_def)
  then have "LoadKey newKey pubOf unmarshal path2 fs3 = Inr k"
    using key_file_roundtrip [of unmarshal marshal newKey seedOf k, OF json same] by blast
  then show ?thesis using k dec w same new(1) by (simp add: restore_def Let_def)
qed

text \<open>A key file format to evaluate on: the address, its length in front, then the seed.\<close>

definition toy_marshal_key :: "KeyFile \<Rightarrow> bytes" where
  "toy_marshal_key kf = replicate (length (kfAddress kf)) (CHR ''a'') @ CHR ''b'' # kfAddress kf @ kfSeed kf"

definition toy_unmarshal_key :: "bytes \<Rightarrow> KeyFile option" where
  "toy_unmarshal_key d =
     (let n = length (takeWhile (\<lambda>c. c = CHR ''a'') d); r = drop (n + 1) (butlast d)
      in Some \<lparr>kfAddress = take n r, kfSeed = drop n r\<rparr>)"

lemma toy_key_file: "toy_unmarshal_key (toy_marshal_key kf @ [CHR 0x0A]) = Some kf"
proof -
  let ?n = "length (kfAddress kf)"
  have "takeWhile (\<lambda>c. c = CHR ''a'') (toy_marshal_key kf @ [CHR 0x0A]) = replicate ?n (CHR ''a'')"
    by (simp add: toy_marshal_key_def takeWhile_append)
  moreover have "butlast (toy_marshal_key kf @ [CHR 0x0A]) = toy_marshal_key kf" by simp
  ultimately show ?thesis by (simp add: toy_unmarshal_key_def toy_marshal_key_def Let_def)
qed

theorem words_restore_key_witness:
  "\<exists>p fs3. restore (\<lambda>s. ''check'') toy_words id id id toy_marshal_key None ''new.json'' (Inr p) fmempty =
       (fs3, Inr (keyAddress id (replicate 32 (CHR ''k'')))) \<and>
     LoadKey id id toy_unmarshal_key ''new.json'' fs3 = Inr (replicate 32 (CHR ''k''))"
proof -
  let ?k = "replicate 32 (CHR ''k'')"
  have len: "length (id ?k) = 32" "id (id ?k) = ?k" by simp_all
  obtain fs where "WriteKey id id toy_marshal_key None ''old.json'' ?k fmempty = (fs, None)"
    by (simp add: WriteKey_def Let_def)
  then have l: "LoadKey id id toy_unmarshal_key ''old.json'' fs = Inr ?k"
    using key_file_roundtrip [of toy_unmarshal_key toy_marshal_key id id ?k, OF toy_key_file len(2,1)] by blast
  obtain p where p: "Encode (\<lambda>s. ''check'') toy_words ?k = Inr p" by (simp add: Encode_def)
  then have w: "wordsCmd (\<lambda>s. ''check'') toy_words id id id toy_unmarshal_key ''old.json'' fs = Inr (enumerate 1 (Fields p))"
    by (simp add: wordsCmd_def l)
  have "Fields (map to_lower p) = map snd (enumerate 1 (Fields p))" using Fields_Encode [OF toy_word_list p] by simp
  from words_restore_key [of toy_words toy_unmarshal_key toy_marshal_key id id, OF toy_word_list toy_key_file _ w this, of "''new.json''" fmempty]
  show ?thesis using l by auto
qed

text \<open>
  Genesis command. Every valid genesis document of the single-producer consensus is what \<open>orctl genesis\<close> prints for the
  flags that spell it; and whatever the command prints, for any flags, is a valid document with the given chain id and
  proposer.
\<close>

theorem genesis_flags_roundtrip:
  assumes "GenesisValidate g = None" and "gnConsensus g = ''''" and "\<forall>d\<in>set (gnAssets g). int64_ok (adDecimals d)"
  shows "genesisCmd (gnTime g) (gnChainID g) (gnProposer g) (FormatAmount (gnMinFee g))
      (map allocText (gnAllocations g)) (map assetText (gnAssets g)) = Inr g \<and>
    (\<forall>now cid a fee allocs assets g'. genesisCmd now cid a fee allocs assets = Inr g' \<longrightarrow>
       GenesisValidate g' = None \<and> gnChainID g' = cid \<and> gnProposer g' = a \<and> Validate a = None)"
proof (intro conjI allI impI)
  have st: "checkAllocations [] (gnAllocations g) = None" "\<exists>s. GenesisState g = Inr s"
    using assms(1) by (auto simp: GenesisValidate_def split: if_splits option.splits sum.splits)
  have as: "setAll assetFlag (map assetText (gnAssets g)) = Inr (gnAssets g)"
    using st(2) assms(3) by (intro setAll_map assetFlag_assetText)
      (auto simp: GenesisState_def split: sum.splits dest: addAssets_valid)
  have al: "setAll allocFlag (map allocText (gnAllocations g)) = Inr (gnAllocations g)"
    by (intro setAll_map allocFlag_allocText checkAllocations_valid [OF st(1)])
  have "\<lparr>gnChainID = gnChainID g, gnTime = gnTime g, gnConsensus = '''', gnProposer = gnProposer g, gnMinFee = gnMinFee g,
      gnAllocations = gnAllocations g, gnAssets = gnAssets g\<rparr> = g"
    using assms(2) by (metis Genesis.surjective old.unit.exhaust)
  then show "genesisCmd (gnTime g) (gnChainID g) (gnProposer g) (FormatAmount (gnMinFee g))
      (map allocText (gnAllocations g)) (map assetText (gnAssets g)) = Inr g"
    using assms(1) by (simp add: genesisCmd_def al as parse_format_amount Let_def)
next
  fix now cid a fee allocs assets g'
  assume "genesisCmd now cid a fee allocs assets = Inr g'"
  then have v: "GenesisValidate g' = None" "gnChainID g' = cid" "gnProposer g' = a" "gnConsensus g' = ''''"
    by (auto simp: genesisCmd_def Let_def split: sum.splits option.splits)
  then show "GenesisValidate g' = None" "gnChainID g' = cid" "gnProposer g' = a" by simp_all
  show "Validate a = None" using v by (auto simp: GenesisValidate_def split: if_splits option.splits)
qed

definition cli_genesis :: Genesis where
  "cli_genesis = \<lparr>gnChainID = ''demo'', gnTime = 1, gnConsensus = '''', gnProposer = demo_b, gnMinFee = 1000,
     gnAllocations = [\<lparr>alAddress = demo_a, alAmount = 2500000\<rparr>],
     gnAssets = [\<lparr>adSymbol = ''NGN'', adName = ''Naira: e-money'', adIssuer = demo_c, adMinFee = 20000000, adDecimals = 2\<rparr>]\<rparr>"

theorem genesis_flags_roundtrip_witness:
  "genesisCmd 1 ''demo'' demo_b (FormatAmount 1000) [allocText \<lparr>alAddress = demo_a, alAmount = 2500000\<rparr>]
     (map assetText (gnAssets cli_genesis)) = Inr cli_genesis"
proof -
  have "\<not> isl (GenesisState cli_genesis)" by code_simp
  then have "GenesisValidate cli_genesis = None"
    using demo_addresses by (auto simp: GenesisValidate_def cli_genesis_def isl_def split: sum.split)
  from genesis_flags_roundtrip [OF this] show ?thesis by (simp add: cli_genesis_def int64_ok_def)
qed

lemma checkBody_To: "checkBody tx = None \<Longrightarrow> txTo tx = '''' \<or> Validate (txTo tx) = None"
  by (auto simp: checkBody_def checkTransfer_def checkMint_def checkBurn_def checkEscrowOp_def checkPoolOp_def
      split: option.splits if_splits)

text \<open>
  History panics. On transactions that pass the stateless checks, \<open>orctl history\<close> prints every line exactly when each
  names a recipient; an outgoing burn, escrow, circle or recovery operation names none, and slicing its empty text panics.
\<close>

theorem history_panics_without_recipient:
  assumes valid: "\<And>e. e \<in> set es \<Longrightarrow> CheckStateless ed_verify cid (heTx e) = None" and addr: "Validate a = None"
  shows "(snd (historyLines a es) = None \<longleftrightarrow> (\<forall>e\<in>set es. txTo (heTx e) \<noteq> '''')) \<and>
    (snd (historyLines a es) = None \<longrightarrow> length (fst (historyLines a es)) = length es)"
  using valid
proof (induction es)
  case Nil
  then show ?case by simp
next
  case (Cons e es)
  let ?t = "heTx e"
  have v: "CheckStateless ed_verify cid ?t = None" using Cons.prems by simp
  then have f: "length (txFrom ?t) = 64" and b: "checkBody ?t = None"
    by (auto simp: CheckStateless_def intro!: Validate_length split: if_splits option.splits)
  have a: "a \<noteq> ''''" using Validate_length [OF addr] by auto
  have t: "txTo ?t = '''' \<or> length (txTo ?t) = 64" using checkBody_To [OF b] Validate_length by blast
  have "historyLine a e = None \<longleftrightarrow> txTo ?t = ''''" using f t a by (auto simp: historyLine_def Let_def)
  then show ?case using Cons.IH Cons.prems by (auto split: option.splits prod.splits)
qed

definition cli_entry :: HistoryEntry where
  "cli_entry = \<lparr>heID = [], heHeight = 1, heTime = 1000, heTx = demo_stx\<lparr>txTo := '''', txKind := KindBurn, txAsset := ''NGN''\<rparr>\<rparr>"

theorem history_panics_without_recipient_witness: "snd (historyLines demo_a [cli_entry]) \<noteq> None"
proof -
  have "PubKey demo_a \<noteq> Inl e" for e using demo_addresses(1) by (auto simp: Validate_def split: if_splits)
  then have v: "CheckStateless demo_verify ''demo'' (heTx e) = None" if "e \<in> set [cli_entry]" for e
    using that demo_addresses(1)
    by (auto simp: cli_entry_def demo_stx_def demo_tx_def CheckStateless_def demo_verify_def ValidAsset_def is_upper_def
        checkBody_def checkBurn_def split: sum.split)
  from history_panics_without_recipient [of "[cli_entry]" demo_verify "''demo''", OF v demo_addresses(1)]
  show ?thesis by (simp add: cli_entry_def del: historyLines.simps)
qed

lemma Cost_setNow: "Cost (chState (setNow now c)) t = Cost (chState c) t"
  by (simp add: setNow_def Cost_def poolCost_def split: option.split)

text \<open>
  A payment is accepted. What \<open>orctl send\<close> signs from the answers of a node is accepted by that node, at the nonce after
  the sender's pending transactions, when the fee is the chain's minimum or more, the mempool has room and does not hold the
  payment, the sender has fewer than sixteen pending transactions and can pay for them and this one.
\<close>

theorem wallet_payment_accepted:
  assumes sent: "sendTx ed_sign ed_verify pubOf (Inr priv) (Inr (apiStatus sha ghash c)) (\<lambda>a. Inr (apiAccount c a)) dest amount fee memo = Inr tx"
    and fees: "stMinFee (chState c) \<le> txFee tx"
    and few: "length (pendingOf c (txFrom tx)) < 16" "unat (acNonce (Get (chState c) (txFrom tx))) + 16 < 2 ^ 64"
    and room: "fcard (fmdom (chMempool c)) < MaxMempoolTxs"
    and new: "fmlookup (chMempool c) (ID sha tx) = None" "fmlookup (chTxIndex c) (ID sha tx) = None"
    and funds: "Cost (chState c) tx \<le> Balance (chState c) (txFrom tx) ''''" "pendingNeed c tx \<le> Balance (chState c) (txFrom tx) ''''"
    and fits: "Balance (chState c) dest '''' \<le> Balance (chState c) dest '''' + txAmount tx"
  shows "\<exists>c'. Submit sha ed_verify ghash clock c tx = (c', ID sha tx, None) \<and>
    fmlookup (chMempool c') (ID sha tx) = Some \<lparr>ptTx = tx, ptAdded = clock\<rparr> \<and>
    txNonce tx \<notin> txNonce ` set (pendingOf c (txFrom tx))"
proof -
  let ?s = "chState c"
  obtain st acc amt f where st: "StatusOf sha ghash c = Inr st" and acc: "apiAccount c (keyAddress pubOf priv) = (200, Inr acc)"
    and tx: "tx = Sign ed_sign priv (transferTx st (keyAddress pubOf priv) acc dest amt f memo)"
    and ok: "CheckStateless ed_verify (ssChainID st) tx = None"
    using sent
    by (auto simp: sendTx_def decodeResp_def Let_def apiStatus_def apiAccount_def writeErr_def writeJSON_def
        split: sum.splits option.splits prod.splits)
  have cid: "ssChainID st = gnChainID (chGenesis c)" using st by (auto simp: StatusOf_def Let_def split: sum.splits)
  have t: "txFrom tx = keyAddress pubOf priv" "txKind tx = ''''" "txAsset tx = ''''" "txPool tx = None" "txEscrow tx = None"
    "txGuard tx = None" "txTo tx = dest" "txNonce tx = arNextNonce acc"
    by (simp_all add: tx Sign_def transferTx_def)
  let ?p = "pendingOf c (txFrom tx)" and ?n = "acNonce (Get ?s (txFrom tx))"
  have n: "txNonce tx = nextNonceFrom (Suc (length ?p)) (txNonce ` set ?p) ?n"
    using acc by (auto simp: t apiAccount_def AccountInfo_def Let_def writeErr_def writeJSON_def split: option.splits)
  have card: "card (txNonce ` set ?p) < Suc (length ?p)"
    by (meson card_image_le card_length finite_set le_imp_less_Suc le_trans)
  then obtain j where j: "txNonce tx \<notin> txNonce ` set ?p" "j \<le> card (txNonce ` set ?p)" "txNonce tx = ?n + of_nat j"
    using nextNonceFrom_free [of "txNonce ` set ?p" "Suc (length ?p)" ?n] few(1) unfolding n by auto
  have "j < 16" using j(2) card few(1) by simp
  then have un: "unat (?n + of_nat j) = unat ?n + j" "unat (?n + MaxNonceAhead) = unat ?n + 16"
    using few(2) by (simp_all add: unat_add64 unat_of_nat64)
  then have ahead: "\<not> ?n + MaxNonceAhead \<le> txNonce tx" "\<not> txNonce tx < ?n"
    using \<open>j < 16\<close> by (simp_all add: j(3) word_le_nat_alt word_less_nat_alt)
  have chk: "case Check sha (chState (setNow now c)) tx of None \<Rightarrow> True | Some e \<Rightarrow> isTooHigh e" for now
    using fees funds(1) fits ahead(2)
    by (auto simp: Check_def precheck_def effect_def transfer_def setNow_def feeFree_def MinFeeFor_def available_def t isTooHigh_def
        Get_def Balance_def Cost_def createsEscrow_def not_less split: option.splits)
  have bal: "Balance (chState (setNow now c)) a k = Balance ?s a k" for now a k by (simp add: setNow_def Balance_def Get_def)
  have now: "pendingOf (setNow now c) a = pendingOf c a" "chMempool (setNow now c) = chMempool c" for now a
    by (simp_all add: setNow_def pendingOf_def)
  have need: "pendingNeed (setNow now c) tx = pendingNeed c tx" for now by (simp add: pendingNeed_def now Cost_setNow cong: if_cong)
  have claim: "\<not> claimsPool tx" by (simp add: claimsPool_def t)
  show ?thesis
    using ok room new ahead(1) chk [of "max clock (wrap64 (tiTime (tipLocked sha ghash c) + 1))"] funds(2) j(1)
    by (auto simp: Submit_def Let_def cid now bal need claim t(3) not_less split: option.splits)
qed

definition cli_sign :: "unit \<Rightarrow> bytes \<Rightarrow> bytes" where "cli_sign k m = replicate 64 (CHR ''s'')"
definition cli_pub :: "unit \<Rightarrow> bytes" where "cli_pub k = replicate 32 (CHR 0xAA)"

lemma cli_sent:
  "sendTx cli_sign demo_verify cli_pub (Inr ()) (Inr (apiStatus demo_sha demo_ghash demo_c0)) (\<lambda>a. Inr (apiAccount demo_c0 a))
     demo_b (FormatAmount 200) '''' '''' = Inr demo_stx"
proof -
  have k: "keyAddress cli_pub () = demo_a" by code_simp
  have "stPools demo_s0 = fmempty" by code_simp
  then obtain r where "Root demo_sha demo_s0 = Inr r" using Root_defined [of demo_sha demo_s0] by auto
  moreover have c: "chState demo_c0 = demo_s0" "chGenesis demo_c0 = demo_genesis" "chMempool demo_c0 = fmempty"
    by (simp_all add: demo_c0_def emptyChain_def)
  moreover have "stMinFee demo_s0 = 10" by code_simp
  ultimately obtain st where st: "apiStatus demo_sha demo_ghash demo_c0 = (200, Inr st)" "ssChainID st = ''demo''" "ssMinFee st = 10"
    by (simp add: apiStatus_def StatusOf_def Let_def writeJSON_def demo_genesis_def)
  have "acNonce (Get demo_s0 demo_a) = 0" by code_simp
  then obtain acc where acc: "apiAccount demo_c0 demo_a = (200, Inr acc)" "arNextNonce acc = 0"
    by (simp add: apiAccount_def demo_addresses AccountInfo_def pendingOf_def sortedEntries_def sorted_list_of_fset.rep_eq c
        writeJSON_def Let_def)
  have tx: "Sign cli_sign () (transferTx st demo_a acc demo_b 200 10 '''') = demo_stx"
    by (simp add: Sign_def transferTx_def st acc cli_sign_def demo_stx_def demo_tx_def)
  have "CheckStateless demo_verify ''demo'' demo_stx = None" using demo_runTx by (auto simp: runTx_def split: option.splits)
  then show ?thesis by (simp add: sendTx_def decodeResp_def k st acc tx Let_def parse_format_amount)
qed

theorem wallet_payment_accepted_witness:
  "\<exists>c'. Submit demo_sha demo_verify demo_ghash 1000 demo_c0 demo_stx = (c', ID demo_sha demo_stx, None)"
proof -
  have c: "chState demo_c0 = demo_s0" "chMempool demo_c0 = fmempty" "chTxIndex demo_c0 = fmempty" "pendingOf demo_c0 a = []" for a
    by (simp_all add: demo_c0_def emptyChain_def pendingOf_def sortedEntries_def sorted_list_of_fset.rep_eq)
  have n: "acNonce (Get demo_s0 (txFrom demo_stx)) = 0" by code_simp
  have v: "stMinFee demo_s0 \<le> txFee demo_stx"
    "Cost demo_s0 demo_stx \<le> Balance demo_s0 (txFrom demo_stx) ''''"
    "Balance demo_s0 demo_b '''' \<le> Balance demo_s0 demo_b '''' + txAmount demo_stx" by code_simp+
  have "pendingNeed demo_c0 demo_stx \<le> Balance demo_s0 (txFrom demo_stx) ''''" using v(2) by (simp add: pendingNeed_def c)
  with wallet_payment_accepted [OF cli_sent, of 1000] v n show ?thesis by (auto simp: c fcard.rep_eq)
qed

end
