(* ===== verification/Multisig.thy ===== *)
theory Multisig
  imports Prelude "HOL-Library.Sublist"
begin

text \<open>
  M-of-N authorisation of the wallet SDK: wallet/core/multisig.go over the \<open>Signer\<close> interface of
  wallet/core/signer.go. A signer is its public key and what its \<open>Sign\<close> answers for a payload.
\<close>

record Signer =
  sgPub :: bytes
  sgSign :: "bytes \<Rightarrow> err + bytes"

record MultiSigIdentity =
  msName :: string
  msRequired :: int
  msOwners :: "bytes list"

definition NewMultiSigIdentity :: "string \<Rightarrow> int \<Rightarrow> bytes list \<Rightarrow> MultiSigIdentity" where
  "NewMultiSigIdentity name required owners = \<lparr>msName = name, msRequired = required, msOwners = owners\<rparr>"

text \<open>The software signer: the key pair's private key signs directly.\<close>

definition SoftwareSigner :: "('k \<Rightarrow> bytes) \<Rightarrow> ('k \<Rightarrow> bytes \<Rightarrow> bytes) \<Rightarrow> 'k \<Rightarrow> Signer" where
  "SoftwareSigner pubOf ed_sign k = \<lparr>sgPub = pubOf k, sgSign = (\<lambda>m. Inr (ed_sign k m))\<rparr>"

text \<open>The loop of \<open>Authorize\<close>, with the signatures collected so far.\<close>

fun authorizeLoop :: "MultiSigIdentity \<Rightarrow> bytes \<Rightarrow> bytes list \<Rightarrow> Signer list \<Rightarrow> err + bytes list" where
  "authorizeLoop ms payload sigs [] = Inl (Err ''authorization failed: not enough signatures'')"
| "authorizeLoop ms payload sigs (s # ss) =
     (if sgPub s \<notin> set (msOwners ms) then authorizeLoop ms payload sigs ss
      else case sgSign s payload of Inl e \<Rightarrow> Inl e
      | Inr sig \<Rightarrow>
          (let sigs' = sigs @ [sig]
           in if int (length sigs') \<ge> msRequired ms then Inr sigs' else authorizeLoop ms payload sigs' ss))"

definition Authorize :: "MultiSigIdentity \<Rightarrow> bytes \<Rightarrow> Signer list \<Rightarrow> err + bytes list" where
  "Authorize ms payload signers = authorizeLoop ms payload [] signers"

subsection \<open>Properties\<close>

lemma authorizeLoop_Inr:
  assumes "authorizeLoop ms payload sigs ss = Inr out" and "int (length sigs) < max 1 (msRequired ms)"
  obtains ts where "subseq ts ss" "ts \<noteq> []" "\<And>t. t \<in> set ts \<Longrightarrow> sgPub t \<in> set (msOwners ms)"
    "map Inr out = map Inr sigs @ map (\<lambda>t. sgSign t payload) ts" "int (length out) = max 1 (msRequired ms)"
  using assms
proof (induction ss arbitrary: sigs thesis)
  case Nil
  then show ?case by simp
next
  case (Cons s ss)
  show ?case
  proof (cases "sgPub s \<in> set (msOwners ms)")
    case False
    then have a: "authorizeLoop ms payload sigs ss = Inr out" using Cons.prems(2) by simp
    show ?thesis
      by (rule Cons.IH [OF _ a Cons.prems(3)]) (auto intro!: Cons.prems(1) list_emb_Cons)
  next
    case True
    then obtain sig where sig: "sgSign s payload = Inr sig" using Cons.prems(2) by (auto split: sum.splits)
    show ?thesis
    proof (cases "int (length (sigs @ [sig])) \<ge> msRequired ms")
      case True
      then have "out = sigs @ [sig]" using Cons.prems(2) sig \<open>sgPub s \<in> set (msOwners ms)\<close> by simp
      then show ?thesis using True sig \<open>sgPub s \<in> set (msOwners ms)\<close> Cons.prems(3)
        by (intro Cons.prems(1) [of "[s]"]) auto
    next
      case False
      then have a: "authorizeLoop ms payload (sigs @ [sig]) ss = Inr out"
        using Cons.prems(2) sig \<open>sgPub s \<in> set (msOwners ms)\<close> by simp
      have l: "int (length (sigs @ [sig])) < max 1 (msRequired ms)" using False by simp
      show ?thesis
      proof (rule Cons.IH [OF _ a l])
        fix ts
        assume "subseq ts ss" "\<And>t. t \<in> set ts \<Longrightarrow> sgPub t \<in> set (msOwners ms)"
          "map Inr out = map Inr (sigs @ [sig]) @ map (\<lambda>t. sgSign t payload) ts" "int (length out) = max 1 (msRequired ms)"
        then show thesis using sig \<open>sgPub s \<in> set (msOwners ms)\<close> by (intro Cons.prems(1) [of "s # ts"]) auto
      qed
    qed
  qed
qed

text \<open>
  What \<open>Authorize\<close> returns are the signatures of as many owners' signers as required, in their order: of as many different
  owners, when no key is behind two signers.
\<close>

lemma authorize_quorum:
  assumes "Authorize ms payload signers = Inr sigs" and "distinct (map sgPub signers)"
  shows "\<exists>ts. subseq ts signers \<and> map Inr sigs = map (\<lambda>t. sgSign t payload) ts \<and>
    sgPub ` set ts \<subseteq> set (msOwners ms) \<and> int (card (sgPub ` set ts)) = max 1 (msRequired ms)"
proof -
  obtain ts where ts: "subseq ts signers" "\<And>t. t \<in> set ts \<Longrightarrow> sgPub t \<in> set (msOwners ms)"
    "map Inr sigs = map (\<lambda>t. sgSign t payload) ts" "int (length sigs) = max 1 (msRequired ms)"
    using authorizeLoop_Inr [OF assms(1) [unfolded Authorize_def]] by (auto simp: less_max_iff_disj)
  have "distinct (map sgPub ts)"
    using subseq_map [OF ts(1), of sgPub] assms(2) by (metis subseqs_distinctD in_set_subseqs)
  then have "card (sgPub ` set ts) = length ts" by (metis distinct_card length_map list.set_map)
  moreover have "length sigs = length ts" using arg_cong [OF ts(3), of length] by simp
  ultimately show ?thesis using ts by (intro exI [of _ ts]) auto
qed

text \<open>Nothing checks that the signers differ: one owner listed twice meets a quorum of two.\<close>

lemma authorize_same_owner_twice:
  assumes "sgPub s \<in> set owners" and "sgSign s payload = Inr sig"
  shows "Authorize (NewMultiSigIdentity name 2 owners) payload [s, s] = Inr [sig, sig]"
  using assms by (simp add: Authorize_def NewMultiSigIdentity_def)

end
