(* ===== verification/Spec2Isabelle.thy ===== *)
theory Spec2Isabelle
  imports Amounts Genesis Encoding_Properties Rules_Properties Recovery_Properties Node_Disk Abci Key_Files
    Gateway_Properties Orpay_Server Node_Process Wallet_Cli Multisig
begin

text \<open>
  OpenReserve: a ledger for the ORP currency and issued assets, the node that runs it, the
  gateway that connects it to naira, and the backend of the orPay app.

  \<^bold>\<open>The program.\<close> A transaction (node/types/types.go) transfers, mints or burns, or carries an
  operation on a savings circle, an escrow or an account's recovery. The ledger (node/ledger) applies
  it to a state of accounts, pools, escrows and recovery setups. The chain (node/chain) checks pending
  transactions, orders them into blocks, verifies blocks of others, stores them in a log, and rebuilds
  its state from the log or a snapshot; under CometBFT the application (node/abci) executes the blocks
  the validators decide. A node process (node/cmd/openreserved) produces blocks, follows a producer or takes part in
  CometBFT, behind a rate limiter (node/ratelimit). Clients talk to the node's HTTP API (node/api, node/client), among
  them the command-line wallet (node/cmd/orctl). The gateway
  (apps/gateway) is such a client: it mints NGN for collections its payment providers confirm and pays
  naira out for NGN that was burned. The orPay backend (apps/orpay/backend) is another: it keeps what the
  app needs beside the chain (names, phone numbers, sign-ins, circle invitations, partner apps with their
  checkouts and escrow requests, reviews, conversations, notifications) in JSON files, reads payments and escrows
  from the node, and tells partners of them by webhooks.

  \<^bold>\<open>Values.\<close> Strings and byte slices are lists of characters (bytes), a \<open>uint64\<close> is a
  \<open>64 word\<close> whose arithmetic wraps as Go's does, an \<open>int64\<close> is an \<open>int\<close> with
  \<open>wrap64\<close> written where a sum can leave its range, a Go map is a finite map iterated in key order
  where the code sorts or only sums, a nil slice is \<open>None\<close>. A returned error is the left of a sum or
  \<open>Some\<close>, a run-time panic is the error \<open>Panic\<close>. State is passed explicitly; each operation of the
  chain and the gateway runs under its lock, so operations do not interleave inside.

  \<^bold>\<open>Theories and sources.\<close>
  Prelude: integers, words, byte order, sums over finite maps.
  Tx\_Types, Encoding, Amounts, Merkle (node/types/types.go): addresses, the transaction and its
  stateless checks; the bytes that are signed; decimal amounts; the transaction root.
  Ledger\_State, Pools, Pool\_Invariants, Pool\_Operations, Escrows, Guards, Ledger\_Apply, State\_Root
  (node/ledger/ledger.go, circle.go, guard.go): the state and its balances; every operation on a circle
  with the invariant it keeps; escrows; recovery; fees, nonces and dispatch; the state root.
  Genesis, Chain, Node\_Queries, Block\_Log (node/chain/genesis.go, chain.go, snapshot.go, stats.go,
  store.go): the first state; mempool, blocks, replay, snapshots and indexes; published summaries; the
  file of blocks. Node\_Disk: the chain together with its log file, with appends and snapshots that fail, and
  the life of a node over restarts.
  Abci (node/abci/app.go), Node\_Api (node/api/api.go, node/client/client.go).
  Signed\_Requests, Mnemonic, Key\_Files, Json\_Store, Rate\_Limit (node/reqauth, node/mnemonic, node/keys,
  node/jsonstore, node/ratelimit).
  Node\_Process (node/cmd/openreserved): the mode, the producer's tick, a replica's rounds, submissions passed on, health.
  Wallet\_Cli (node/cmd/orctl): every command. Multisig (wallet/core/multisig.go, signer.go).
  Gateway, Payment\_Rails (apps/gateway/main.go, provider.go, paystack.go, flutterwave.go).
  In apps/orpay/backend: Orpay\_Directory (directory.go), Orpay\_Signin (signin.go), Orpay\_Phones (phone.go),
  Orpay\_Circles (invites.go, nudge.go), Orpay\_Apps (apps.go), Orpay\_Invoices (invoices.go, webhooks.go),
  Orpay\_Escrows (escrows.go, escrowlinks.go, courier.go, the terms of escrowchat.go), Orpay\_Reputation (arbiters.go,
  ratings.go, trust.go and the client's escrow calls), Orpay\_Push (push.go), Orpay\_Chat (escrowchat.go), Orpay\_Desk
  (referrals.go, faucet.go, dashboard.go), Orpay\_Logos (logo.go), Orpay\_Server (main.go: settings, routes, wrappers). Each file of the backend is a \<open>Store\<close> of Json\_Store: the map in memory and
  the one on disk, which a failed write leaves behind and a restart reads back.
  The \<open>\_Properties\<close> theories hold the theorems about the theories they are named after;
  Custody\_Properties is about escrows and recovery, Recovery\_Properties about recovery over the history of the
  ledger, Rules\_Properties about circles.

  \<^bold>\<open>What the theorems show.\<close> The books of the ledger balance in every reachable state, with every
  circle, escrow and recovery setup well formed, and ORP is never created. Circles pay each member in
  turn exactly what was paid in, and the ledger accepts the claim of the member whose turn it is; escrows move only by
  those entitled and never get stuck; a recovery that is finished was asked for by its quorum, for that very key, and
  waited its delay from the vote that completed the quorum. Signatures and hashes pin what they cover, if SHA-256 does not
  collide on the strings compared. A node restarts, from its log, a snapshot, or a log torn by a crash or a failed write,
  to the ledger it had or to one block more, as long as it appended nothing after a failed append (the code does not
  see to that: retry\_after\_failed\_append shows the log it then leaves); validators given the same blocks answer the
  same, and a replica ends at the producer's ledger without trusting what it is told. A key survives being written down as words, a genesis document
  being spelt as flags, and a payment made by the wallet is accepted by the node it asked. A limiter lets through no more
  than its burst and its rate. The gateway mints only for money that came in, a second time for the same only
  where the node's history hid the first mint from it, and orders each withdrawal to be paid once. In the orPay backend, whatever fails in between: a paid invoice has a payment of its own on the chain and a
  linked request an escrow that fits its terms; the requests and invitations it accepts pass the chain's checks, under
  the conditions stated with each; partners
  hear of every stage of an escrow once; reviews and conversations come from the parties of the escrow; names and phone
  numbers belong to one wallet; codes, sign-ins and the faucet keep their limits, and webhooks keep their schedule and end; a partner's logo is served only as the image it is.
  Some theorems show where the code fails: an escrow total that wraps
  with its fee, a state root that panics on goal circles with rounds, a refund of a payout that may have
  gone through, payouts stopped by an address in upper case, a reserve report that wraps, a purchase
  reviewed twice under two spellings of its id, an escrow request linked to an escrow for another seller, a seller told of
  a payment that was not made, a block log that a second append after a failed one spoils, a history that cannot be printed, a quorum met by one owner.

  \<^bold>\<open>Interfaces.\<close> A code whose encodings cancel from the front is the locale \<open>prefix_code\<close> of Encoding,
  interpreted by its string, hash, integer and list encoders; a map of balances with a total is the
  locale \<open>balance_store\<close> of Ledger\_State, interpreted by the accounts. SHA-256, Ed25519, HMAC, JSON, the clock and random values are
  parameters; what a theorem needs of them (injectivity on given strings, that JSON lines read back) is
  among its hypotheses, and each theorem with hypotheses is followed by its instance on a concrete
  state.

  \<^bold>\<open>Recursion and bounds.\<close> All recursion is structural, except the reader of the block log and the
  Merkle levels and the search for attributes in a page, which have termination proofs, and the loop for the next free nonce, whose fuel is one
  more than the number of the sender's pending transactions, so that it ends at a free nonce (nextNonceFrom\_free of Wallet\_Cli); waiting for a commit ends after 60 polls, as in the
  code. Escrow and
  circle properties assume the clock within the range given by \<open>sane\_time\<close>.

  \<^bold>\<open>Not modelled.\<close> Locks, goroutines and the channel that wakes waiting readers; the matching of HTTP requests to
  routes, JSON text and log lines; float64 arithmetic (the rate limiter's rounding is a parameter, and its theorem is for exact
  arithmetic; the reserve's coverage ratio is left out; Flutterwave's rounding is a parameter; averages and trust scores are
  exact fractions); command-line flags, the start of CometBFT, the metrics page, and the test-network generator
  (node/cmd/orp-testnet), which writes files through CometBFT's packages; the HTTP calls of SMS senders and couriers; the
  prototype packages under node/\_experimental, the rest of wallet and apps/analytics, which nothing builds on.
\<close>

end
